(* ===== verification/Prelude.thy ===== *)
theory Prelude
  imports Main "HOL-Library.Word"
begin

text \<open>
  Shared vocabulary of the development: the machine types of the C and C++ sources, the ways a
  C operation can go wrong as values of a sum type, checked access to a block of memory, and the
  generic lemmas (sum-type binding, block updates, words read as numbers) that the component
  theories rely on.  The collection \<open>c_simps\<close> gathers the unfolding rules that the component
  proofs pass to the simplifier.
\<close>

unbundle bit_operations_syntax

named_theorems c_simps \<open>unfolding rules for checked C operations\<close>

section \<open>Machine types\<close>

text \<open>\<open>unsigned char\<close>, \<open>unsigned short\<close>, \<open>unsigned int\<close> and \<open>unsigned long\<close> of the LP64 target.\<close>

type_synonym byte = "8 word"
type_synonym u16 = "16 word"
type_synonym u32 = "32 word"
type_synonym u64 = "64 word"

definition INT_MAX :: int where
  "INT_MAX = 2147483647"

definition INT_MIN :: int where
  "INT_MIN = - 2147483648"

text \<open>Whether a mathematical result is a value of C's \<open>int\<close>; outside, signed overflow is undefined.\<close>

definition fits_int :: "int \<Rightarrow> bool" where
  "fits_int x \<longleftrightarrow> INT_MIN \<le> x \<and> x \<le> INT_MAX"

text \<open>C's integer division truncates towards zero.\<close>

definition cdiv :: "int \<Rightarrow> int \<Rightarrow> int" where
  "cdiv a b = sgn a * sgn b * (\<bar>a\<bar> div \<bar>b\<bar>)"

definition cmod :: "int \<Rightarrow> int \<Rightarrow> int" where
  "cmod a b = a - b * cdiv a b"

section \<open>Faults\<close>

text \<open>
  What can stop an operation other than a normal return: a call of a fatal error function
  (\<open>Die\<close> with its message), a Lua error raised with a message (\<open>LuaError\<close>), signed overflow,
  a loop that never ends, an access outside the allocated block, a null pointer dereference, a
  shift by the width of the operand or more.
\<close>

datatype c_fault =
    Die string
  | LuaError string
  | SignedOverflow
  | Diverges
  | OutOfBounds
  | NullDeref
  | UseAfterFree
  | BadShift

definition bindE :: "'e + 'a \<Rightarrow> ('a \<Rightarrow> 'e + 'b) \<Rightarrow> 'e + 'b" where
  "bindE m f = (case m of Inl e \<Rightarrow> Inl e | Inr x \<Rightarrow> f x)"

lemma bindE_simps [simp, c_simps]:
  "bindE (Inl e) f = Inl e"
  "bindE (Inr x) f = f x"
  by (simp_all add: bindE_def)

lemma bindE_Inr_iff: "bindE m f = Inr y \<longleftrightarrow> (\<exists>x. m = Inr x \<and> f x = Inr y)"
  by (cases m) auto

lemma bindE_assoc: "bindE (bindE m f) g = bindE m (\<lambda>x. bindE (f x) g)"
  by (cases m) auto

lemma bindE_cong [fundef_cong]:
  "m = m' \<Longrightarrow> (\<And>x. m' = Inr x \<Longrightarrow> f x = f' x) \<Longrightarrow> bindE m f = bindE m' f'"
  by (cases m') auto

definition guardE :: "bool \<Rightarrow> 'e \<Rightarrow> 'e + unit" where
  "guardE b e = (if b then Inr () else Inl e)"

lemma guardE_simps [simp, c_simps]:
  "guardE True e = Inr ()"
  "guardE False e = Inl e"
  by (simp_all add: guardE_def)

text \<open>Signed addition that leaves the range of \<open>int\<close> is undefined behaviour, hence a fault.\<close>

definition iadd :: "int \<Rightarrow> int \<Rightarrow> c_fault + int" where
  "iadd a b = (if fits_int (a + b) then Inr (a + b) else Inl SignedOverflow)"

lemma iadd_Inr_iff: "iadd a b = Inr c \<longleftrightarrow> fits_int (a + b) \<and> c = a + b"
  by (auto simp: iadd_def)

section \<open>The allocator\<close>

text \<open>
  \<open>malloc\<close>, \<open>realloc\<close> and \<open>operator new\<close> are the C library's: an allocation may be refused, and
  the bytes of a fresh block are indeterminate.  Both choices are parameters of the operations
  that allocate.
\<close>

record c_heap =
  can_alloc :: "int \<Rightarrow> bool"
  fresh :: "nat \<Rightarrow> byte"

definition malloc_cells :: "c_heap \<Rightarrow> nat \<Rightarrow> byte list" where
  "malloc_cells h n = map (fresh h) [0..<n]"

definition realloc_cells :: "c_heap \<Rightarrow> byte list \<Rightarrow> nat \<Rightarrow> byte list" where
  "realloc_cells h cells n = take n cells @ map (fresh h) [length cells..<n]"

lemma length_malloc_cells [simp]: "length (malloc_cells h n) = n"
  by (simp add: malloc_cells_def)

lemma length_realloc_cells [simp]: "length (realloc_cells h cells n) = n"
  by (simp add: realloc_cells_def)

lemma take_realloc_cells [simp]:
  "k \<le> n \<Longrightarrow> k \<le> length cells \<Longrightarrow> take k (realloc_cells h cells n) = take k cells"
  by (simp add: realloc_cells_def)

section \<open>Checked access to a block\<close>

definition mem_write :: "'a list \<Rightarrow> nat \<Rightarrow> 'a list \<Rightarrow> c_fault + 'a list" where
  "mem_write m p xs =
     (if p + length xs \<le> length m then Inr (take p m @ xs @ drop (p + length xs) m)
      else Inl OutOfBounds)"

definition mem_read :: "'a list \<Rightarrow> nat \<Rightarrow> nat \<Rightarrow> c_fault + 'a list" where
  "mem_read m p n = (if p + n \<le> length m then Inr (take n (drop p m)) else Inl OutOfBounds)"

definition mem_get :: "'a list \<Rightarrow> nat \<Rightarrow> c_fault + 'a" where
  "mem_get m i = (if i < length m then Inr (m ! i) else Inl OutOfBounds)"

lemma mem_write_ok: "p + length xs \<le> length m \<Longrightarrow>
    mem_write m p xs = Inr (take p m @ xs @ drop (p + length xs) m)"
  by (simp add: mem_write_def)

lemma mem_write_length: "mem_write m p xs = Inr m' \<Longrightarrow> length m' = length m"
  by (auto simp: mem_write_def split: if_splits)

lemma mem_write_InrD: "mem_write m p xs = Inr m' \<Longrightarrow>
    p + length xs \<le> length m \<and> take (p + length xs) m' = take p m @ xs"
  by (auto simp: mem_write_def split: if_splits)

lemma mem_write_prefix:
  "mem_write m p xs = Inr m' \<Longrightarrow> k \<le> p \<Longrightarrow> take k m' = take k m"
  by (auto simp: mem_write_def min_def split: if_splits)

lemma mem_get_Inr_iff: "mem_get m i = Inr x \<longleftrightarrow> i < length m \<and> x = m ! i"
  by (auto simp: mem_get_def)

section \<open>Lists\<close>

lemma take_eq_append_nth:
  "n < length xs \<Longrightarrow> take (Suc n) xs = take n xs @ [xs ! n]"
  by (rule take_Suc_conv_app_nth)

lemma takeWhile_append_stop:
  "\<not> P x \<Longrightarrow> takeWhile P (xs @ x # ys) = takeWhile P xs"
  by (induction xs) auto

section \<open>Byte strings\<close>

text \<open>A C string literal as its bytes, without the terminating zero.\<close>

definition bytes :: "string \<Rightarrow> byte list" where
  "bytes s = map of_char s"

definition CR :: byte where "CR = 13"

definition LF :: byte where "LF = 10"

definition CRLF :: "byte list" where "CRLF = [CR, LF]"

section \<open>Words read as numbers\<close>

lemma unat_byte_less [simp]: "unat (b :: byte) < 256"
  using unsigned_less [of b, where ?'a = nat] by simp

lemma unat_inject: "unat x = unat y \<longleftrightarrow> x = y"
  by (auto intro: unsigned_word_eqI)

lemma ucast_as_nat: "ucast (w :: 'a::len word) = (word_of_nat (unat w) :: 'b::len word)"
  by simp

lemma unat_ucast_up:
  fixes w :: "'a::len word"
  assumes "LENGTH('a) \<le> LENGTH('b)"
  shows "unat (ucast w :: 'b::len word) = unat w"
proof -
  have "unat w < 2 ^ LENGTH('b)"
    using unsigned_less [of w, where ?'a = nat] assms
    by (meson less_le_trans one_le_numeral power_increasing)
  then show ?thesis by (simp add: unsigned_ucast_eq take_bit_nat_eq_self)
qed

lemma unat_drop_bit: "unat (drop_bit n (w :: 'a::len word)) = unat w div 2 ^ n"
proof -
  have "unat (drop_bit n w) = drop_bit n (unat w)"
    by (rule bit_eqI) (auto simp: bit_simps)
  then show ?thesis by (simp add: drop_bit_eq_div)
qed

lemma unat_of_nat_small: "n < 2 ^ LENGTH('a) \<Longrightarrow> unat (word_of_nat n :: 'a::len word) = n"
  by (simp add: unsigned_of_nat take_bit_nat_eq_self)

lemma unat_and_mask:
  fixes w :: "'a::len word"
  shows "unat (w AND mask n) = unat w mod 2 ^ n"
  unfolding take_bit_eq_mask [symmetric] unsigned_take_bit_eq by (simp add: take_bit_eq_mod)

section \<open>The contract of an append buffer\<close>

text \<open>
  Several components write through a buffer they only append to: the JSON encoder through
  \<open>strbuf\<close>, the socket callbacks through a message's memory file.  \<open>put_all\<close> is such a client, a
  sequence of writes that stops at the first fault; the locale states what it may rely on.
\<close>

fun put_all :: "('s \<Rightarrow> 'a list \<Rightarrow> c_fault + 's) \<Rightarrow> 's \<Rightarrow> 'a list list \<Rightarrow> c_fault + 's" where
  "put_all put s [] = Inr s"
| "put_all put s (xs # xss) = bindE (put s xs) (\<lambda>s'. put_all put s' xss)"

locale byte_sink =
  fixes wf :: "'s \<Rightarrow> bool"
    and content :: "'s \<Rightarrow> 'a list"
    and room :: "'s \<Rightarrow> nat \<Rightarrow> bool"
    and put :: "'s \<Rightarrow> 'a list \<Rightarrow> c_fault + 's"
  assumes put_total: "wf s \<Longrightarrow> room s (length xs) \<Longrightarrow> \<exists>s'. put s xs = Inr s'"
    and put_wf: "wf s \<Longrightarrow> put s xs = Inr s' \<Longrightarrow> wf s'"
    and put_content: "wf s \<Longrightarrow> put s xs = Inr s' \<Longrightarrow> content s' = content s @ xs"
    and put_room: "wf s \<Longrightarrow> put s xs = Inr s' \<Longrightarrow> room s (length xs + n) \<Longrightarrow> room s' n"
    and room_mono: "wf s \<Longrightarrow> room s n \<Longrightarrow> m \<le> n \<Longrightarrow> room s m"
begin

lemma put_all_content:
  "wf s \<Longrightarrow> put_all put s xss = Inr s' \<Longrightarrow> wf s' \<and> content s' = content s @ concat xss"
proof (induction xss arbitrary: s)
  case (Cons xs xss)
  then obtain s1 where "put s xs = Inr s1" "put_all put s1 xss = Inr s'"
    by (auto simp: bindE_Inr_iff)
  with Cons show ?case
    using put_wf [of s xs s1] put_content [of s xs s1] by auto
qed simp

lemma put_all_total:
  "wf s \<Longrightarrow> room s (length (concat xss)) \<Longrightarrow> \<exists>s'. put_all put s xss = Inr s'"
proof (induction xss arbitrary: s)
  case (Cons xs xss)
  from Cons.prems obtain s1 where s1: "put s xs = Inr s1"
    using put_total [of s xs] room_mono [of s _ "length xs"] by fastforce
  with Cons.prems have "wf s1" "room s1 (length (concat xss))"
    using put_wf [of s xs s1] put_room [of s xs s1 "length (concat xss)"] by auto
  with Cons.IH s1 show ?case by simp
qed simp

end

end
