(* ===== verification/Strbuf.thy ===== *)
theory Strbuf
  imports Prelude
begin

text \<open>
  The growable string buffer of \<open>lae/source/strbuf.c\<close> and \<open>strbuf.h\<close>, on which the JSON encoder
  and decoder are built.  A buffer is the struct \<open>strbuf_t\<close> with its block of cells; every store
  is checked against the block, every \<open>int\<close> addition against the range of \<open>int\<close>, and \<open>die\<close> is
  the fault \<open>Die\<close>.  The diagnostics that \<open>debug_stats\<close> and \<open>strbuf_resize\<close> print when
  \<open>debug\<close> is set do not change the buffer and are left out.
\<close>

section \<open>The structure\<close>

record strbuf =
  sb_buf :: "byte list option"
  sb_size :: int
  sb_length :: int
  sb_increment :: int
  sb_dynamic :: bool
  sb_reallocs :: int
  sb_debug :: int

definition STRBUF_DEFAULT_SIZE :: int where
  "STRBUF_DEFAULT_SIZE = 1023"

definition STRBUF_DEFAULT_INCREMENT :: int where
  "STRBUF_DEFAULT_INCREMENT = - 2"

section \<open>Access from the header\<close>

definition strbuf_reset :: "strbuf \<Rightarrow> strbuf" where
  "strbuf_reset s = s\<lparr>sb_length := 0\<rparr>"

definition strbuf_allocated :: "strbuf \<Rightarrow> bool" where
  "strbuf_allocated s \<longleftrightarrow> sb_buf s \<noteq> None"

definition strbuf_empty_length :: "strbuf \<Rightarrow> int" where
  "strbuf_empty_length s = sb_size s - sb_length s - 1"

definition strbuf_extend_length :: "strbuf \<Rightarrow> int \<Rightarrow> c_fault + strbuf" where
  "strbuf_extend_length s len =
     bindE (iadd (sb_length s) len) (\<lambda>n. Inr (s\<lparr>sb_length := n\<rparr>))"

text \<open>A store of \<open>xs\<close> at \<open>s->buf + pos\<close>.\<close>

definition sb_store :: "strbuf \<Rightarrow> int \<Rightarrow> byte list \<Rightarrow> c_fault + strbuf" where
  "sb_store s pos xs =
     (case sb_buf s of
        None \<Rightarrow> Inl NullDeref
      | Some cells \<Rightarrow>
          if pos < 0 then Inl OutOfBounds
          else bindE (mem_write cells (nat pos) xs) (\<lambda>cells'. Inr (s\<lparr>sb_buf := Some cells'\<rparr>)))"

definition strbuf_ensure_null :: "strbuf \<Rightarrow> c_fault + strbuf" where
  "strbuf_ensure_null s = sb_store s (sb_length s) [0]"

text \<open>\<open>strbuf_string\<close> returns the block and, through its argument, the length.\<close>

definition strbuf_string :: "strbuf \<Rightarrow> byte list option \<times> int" where
  "strbuf_string s = (sb_buf s, sb_length s)"

section \<open>Creation and release\<close>

definition strbuf_init :: "c_heap \<Rightarrow> int \<Rightarrow> c_fault + strbuf" where
  "strbuf_init h len =
     bindE (if len \<le> 0 then Inr STRBUF_DEFAULT_SIZE else iadd len 1) (\<lambda>size.
       if \<not> can_alloc h size then Inl (Die ''Out of memory'')
       else strbuf_ensure_null
         \<lparr>sb_buf = Some (replicate (nat size) 0), sb_size = size, sb_length = 0,
          sb_increment = STRBUF_DEFAULT_INCREMENT, sb_dynamic = False,
          sb_reallocs = 0, sb_debug = 0\<rparr>)"

definition sizeof_strbuf_t :: int where
  "sizeof_strbuf_t = 32"

definition strbuf_new :: "c_heap \<Rightarrow> int \<Rightarrow> c_fault + strbuf" where
  "strbuf_new h len =
     (if \<not> can_alloc h sizeof_strbuf_t then Inl (Die ''Out of memory'')
      else bindE (strbuf_init h len) (\<lambda>s. Inr (s\<lparr>sb_dynamic := True\<rparr>)))"

definition strbuf_set_increment :: "strbuf \<Rightarrow> int \<Rightarrow> c_fault + strbuf" where
  "strbuf_set_increment s increment =
     (if increment = 0 \<or> increment = - 1 then Inl (Die ''BUG: Invalid string increment'')
      else Inr (s\<lparr>sb_increment := increment\<rparr>))"

text \<open>
  After \<open>strbuf_free\<close> a dynamic buffer is gone (\<open>None\<close>); any other keeps its struct with a null
  block.
\<close>

definition strbuf_free :: "strbuf \<Rightarrow> strbuf option" where
  "strbuf_free s =
     (let s' = (if sb_buf s \<noteq> None then s\<lparr>sb_buf := None\<rparr> else s)
      in if sb_dynamic s' then None else Some s')"

definition strbuf_free_to_string :: "strbuf \<Rightarrow> c_fault + (byte list option \<times> int \<times> strbuf option)" where
  "strbuf_free_to_string s =
     bindE (strbuf_ensure_null s) (\<lambda>s'.
       Inr (sb_buf s', sb_length s', if sb_dynamic s' then None else Some s'))"

section \<open>Growth\<close>

text \<open>
  The loop \<open>while (newsize < reqsize) newsize *= -s->increment\<close>, with \<open>k\<close> the factor: a product
  outside \<open>int\<close> is signed overflow, and a product that makes no progress repeats forever.
\<close>

function grow_size :: "int \<Rightarrow> int \<Rightarrow> int \<Rightarrow> c_fault + int" where
  "grow_size k newsize reqsize =
     (if newsize < reqsize then
        (if \<not> fits_int (newsize * k) then Inl SignedOverflow
         else if \<bar>newsize * k\<bar> \<le> \<bar>newsize\<bar> then Inl Diverges
         else grow_size k (newsize * k) reqsize)
      else Inr newsize)"
  by pat_completeness auto
termination
  by (relation "measure (\<lambda>(k, newsize, reqsize). nat (2147483649 - \<bar>newsize\<bar>))")
    (auto simp: fits_int_def INT_MAX_def INT_MIN_def)

declare grow_size.simps [simp del]

definition calculate_new_size :: "strbuf \<Rightarrow> int \<Rightarrow> c_fault + int" where
  "calculate_new_size s len =
     (if len \<le> 0 then Inl (Die ''BUG: Invalid strbuf length requested'')
      else bindE (iadd len 1) (\<lambda>reqsize.
        if sb_size s > reqsize then Inr reqsize
        else if sb_increment s < 0 then grow_size (- sb_increment s) (sb_size s) reqsize
        else bindE (iadd (sb_size s) (sb_increment s)) (\<lambda>t.
          let newsize = cdiv (t - 1) (sb_increment s) * sb_increment s
          in if fits_int newsize then Inr newsize else Inl SignedOverflow)))"

definition strbuf_resize :: "c_heap \<Rightarrow> strbuf \<Rightarrow> int \<Rightarrow> c_fault + strbuf" where
  "strbuf_resize h s len =
     bindE (calculate_new_size s len) (\<lambda>newsize.
       if \<not> can_alloc h newsize then Inl (Die ''Out of memory'')
       else Inr (s\<lparr>sb_size := newsize,
                   sb_buf := Some (realloc_cells h
                     (case sb_buf s of None \<Rightarrow> [] | Some cells \<Rightarrow> cells) (nat newsize)),
                   sb_reallocs := sb_reallocs s + 1\<rparr>))"

definition strbuf_ensure_empty_length :: "c_heap \<Rightarrow> strbuf \<Rightarrow> int \<Rightarrow> c_fault + strbuf" where
  "strbuf_ensure_empty_length h s len =
     (if len > strbuf_empty_length s
      then bindE (iadd (sb_length s) len) (\<lambda>n. strbuf_resize h s n)
      else Inr s)"

section \<open>Appending\<close>

definition strbuf_append_mem_unsafe :: "strbuf \<Rightarrow> byte list \<Rightarrow> c_fault + strbuf" where
  "strbuf_append_mem_unsafe s c =
     bindE (sb_store s (sb_length s) c) (\<lambda>s'. strbuf_extend_length s' (int (length c)))"

definition strbuf_append_mem :: "c_heap \<Rightarrow> strbuf \<Rightarrow> byte list \<Rightarrow> c_fault + strbuf" where
  "strbuf_append_mem h s c =
     bindE (strbuf_ensure_empty_length h s (int (length c))) (\<lambda>s'.
     bindE (sb_store s' (sb_length s') c) (\<lambda>s''.
       strbuf_extend_length s'' (int (length c))))"

definition strbuf_append_char_unsafe :: "strbuf \<Rightarrow> byte \<Rightarrow> c_fault + strbuf" where
  "strbuf_append_char_unsafe s c =
     bindE (sb_store s (sb_length s) [c]) (\<lambda>s'. strbuf_extend_length s' 1)"

definition strbuf_append_char :: "c_heap \<Rightarrow> strbuf \<Rightarrow> byte \<Rightarrow> c_fault + strbuf" where
  "strbuf_append_char h s c =
     bindE (strbuf_ensure_empty_length h s 1) (\<lambda>s'.
     bindE (sb_store s' (sb_length s') [c]) (\<lambda>s''. strbuf_extend_length s'' 1))"

text \<open>\<open>for (i = 0; str[i]; i++)\<close>: the loop ends at the terminating zero byte of \<open>str\<close>.\<close>

fun strbuf_append_string_loop :: "c_heap \<Rightarrow> strbuf \<Rightarrow> int \<Rightarrow> byte list \<Rightarrow> c_fault + strbuf" where
  "strbuf_append_string_loop h s space [] = Inl OutOfBounds"
| "strbuf_append_string_loop h s space (c # cs) =
     (if c = 0 then Inr s
      else bindE (if space < 1
                  then bindE (iadd (sb_length s) 1) (\<lambda>n.
                       bindE (strbuf_resize h s n) (\<lambda>s'. Inr (s', strbuf_empty_length s')))
                  else Inr (s, space)) (\<lambda>(s1, space1).
           bindE (sb_store s1 (sb_length s1) [c]) (\<lambda>s2.
           bindE (strbuf_extend_length s2 1) (\<lambda>s3.
             strbuf_append_string_loop h s3 (space1 - 1) cs))))"

definition strbuf_append_string :: "c_heap \<Rightarrow> strbuf \<Rightarrow> byte list \<Rightarrow> c_fault + strbuf" where
  "strbuf_append_string h s str = strbuf_append_string_loop h s (strbuf_empty_length s) str"

text \<open>
  \<open>vsnprintf\<close> with room for \<open>n\<close> bytes at \<open>s->buf + pos\<close>: \<open>out\<close> is the whole formatted text, or
  \<open>None\<close> for an encoding error (a negative return); at most \<open>n - 1\<close> of its bytes and a
  terminating zero are stored, and its full length is returned.
\<close>

definition sb_vsnprintf :: "strbuf \<Rightarrow> int \<Rightarrow> int \<Rightarrow> byte list option \<Rightarrow> c_fault + (strbuf \<times> int)" where
  "sb_vsnprintf s pos n out =
     (case out of
        None \<Rightarrow> Inr (s, - 1)
      | Some cs \<Rightarrow>
          bindE (if n \<le> 0 then Inr s else sb_store s pos (take (nat (n - 1)) cs @ [0]))
            (\<lambda>s'. Inr (s', int (length cs))))"

definition strbuf_append_fmt :: "c_heap \<Rightarrow> strbuf \<Rightarrow> int \<Rightarrow> byte list option \<Rightarrow> c_fault + strbuf" where
  "strbuf_append_fmt h s len out =
     bindE (strbuf_ensure_empty_length h s len) (\<lambda>s1.
     bindE (sb_vsnprintf s1 (sb_length s1) len out) (\<lambda>(s2, fmt_len).
       if fmt_len < 0 then Inl (Die ''BUG: Unable to convert number'')
       else strbuf_extend_length s2 fmt_len))"

text \<open>The loop of \<open>strbuf_append_fmt_retry\<close> makes at most two attempts.\<close>

definition fmt_attempt :: "strbuf \<Rightarrow> byte list option \<Rightarrow> c_fault + (strbuf \<times> int \<times> int)" where
  "fmt_attempt s out =
     bindE (sb_vsnprintf s (sb_length s) (strbuf_empty_length s + 1) out) (\<lambda>(s', fmt_len).
       Inr (s', fmt_len, strbuf_empty_length s))"

definition strbuf_append_fmt_retry :: "c_heap \<Rightarrow> strbuf \<Rightarrow> byte list option \<Rightarrow> c_fault + strbuf" where
  "strbuf_append_fmt_retry h s out =
     bindE (fmt_attempt s out) (\<lambda>(s1, fmt_len, empty_len).
       if fmt_len \<le> empty_len then strbuf_extend_length s1 fmt_len
       else bindE (iadd (sb_length s1) fmt_len) (\<lambda>n.
            bindE (strbuf_resize h s1 n) (\<lambda>s2.
            bindE (fmt_attempt s2 out) (\<lambda>(s3, fmt_len', empty_len').
              if fmt_len' \<le> empty_len' then strbuf_extend_length s3 fmt_len'
              else Inl (Die ''BUG: length of formatted string changed'')))))"

section \<open>Invariant and abstraction\<close>

text \<open>
  The block has exactly \<open>size\<close> cells, the text leaves room for a terminating zero, and the buffer
  grows exponentially.  The text of a buffer is its first \<open>length\<close> cells.
\<close>

definition sb_wf :: "strbuf \<Rightarrow> bool" where
  "sb_wf s \<longleftrightarrow>
     (case sb_buf s of None \<Rightarrow> False | Some cells \<Rightarrow> int (length cells) = sb_size s) \<and>
     0 \<le> sb_length s \<and> sb_length s < sb_size s \<and> sb_size s \<le> INT_MAX \<and> sb_increment s \<le> - 2"

definition sb_text :: "strbuf \<Rightarrow> byte list" where
  "sb_text s = (case sb_buf s of None \<Rightarrow> [] | Some cells \<Rightarrow> take (nat (sb_length s)) cells)"

text \<open>Room for \<open>n\<close> more bytes: allocations succeed and the grown size stays an \<open>int\<close>.\<close>

definition sb_room :: "c_heap \<Rightarrow> strbuf \<Rightarrow> nat \<Rightarrow> bool" where
  "sb_room h s n \<longleftrightarrow>
     (\<forall>m. can_alloc h m) \<and> (sb_length s + int n + 1) * (- sb_increment s) \<le> INT_MAX"

lemma sb_wfE:
  assumes "sb_wf s"
  obtains cells where "sb_buf s = Some cells" "int (length cells) = sb_size s"
    "0 \<le> sb_length s" "sb_length s < sb_size s" "sb_size s \<le> INT_MAX" "sb_increment s \<le> - 2"
  using assms by (auto simp: sb_wf_def split: option.splits)

lemma length_sb_text: "sb_wf s \<Longrightarrow> int (length (sb_text s)) = sb_length s"
  by (erule sb_wfE) (auto simp: sb_text_def)

section \<open>Growth\<close>

lemma grow_size_Inr:
  "grow_size k n r = Inr m \<Longrightarrow> 0 < k \<Longrightarrow> 0 < n \<Longrightarrow> n \<le> INT_MAX \<Longrightarrow>
     r \<le> m \<and> n \<le> m \<and> m \<le> INT_MAX"
proof (induction k n r rule: grow_size.induct)
  case (1 k n r)
  show ?case
  proof (cases "n < r")
    case True
    with 1 have "fits_int (n * k)" "\<not> \<bar>n * k\<bar> \<le> \<bar>n\<bar>" "grow_size k (n * k) r = Inr m"
      by (auto simp: grow_size.simps [of k n r] split: if_splits)
    with 1 True show ?thesis by (auto simp: fits_int_def)
  next
    case False
    with 1 show ?thesis by (auto simp: grow_size.simps [of k n r])
  qed
qed

lemma grow_size_total:
  "2 \<le> k \<Longrightarrow> 0 < n \<Longrightarrow> r * k \<le> INT_MAX \<Longrightarrow> \<exists>m. grow_size k n r = Inr m"
proof (induction k n r rule: grow_size.induct)
  case (1 k n r)
  show ?case
  proof (cases "n < r")
    case True
    with 1 have le: "n * k < r * k" "n < n * k" by auto
    with 1 have "INT_MIN \<le> n * k" "n * k \<le> INT_MAX" "0 < n * k"
      unfolding INT_MIN_def by linarith+
    with le have "fits_int (n * k)" "\<not> \<bar>n * k\<bar> \<le> \<bar>n\<bar>" "0 < n * k"
      using 1 by (simp_all add: fits_int_def)
    with 1 True show ?thesis by (simp add: grow_size.simps [of k n r])
  next
    case False
    then show ?thesis by (simp add: grow_size.simps [of k n r])
  qed
qed

text \<open>Growing a positive size by a factor of at least two never spins.\<close>

lemma grow_size_fault:
  "grow_size k n r = Inl e \<Longrightarrow> 2 \<le> k \<Longrightarrow> 0 < n \<Longrightarrow> e = SignedOverflow"
proof (induction k n r rule: grow_size.induct)
  case (1 k n r)
  then have "n < n * k" by auto
  with 1 show ?case
    by (auto simp: grow_size.simps [of k n r] split: if_splits)
qed

lemma calculate_new_size_Inr:
  assumes "calculate_new_size s len = Inr m" "sb_wf s" "sb_length s \<le> len"
  shows "len < m \<and> m \<le> INT_MAX"
  using assms
  by (auto simp: calculate_new_size_def iadd_Inr_iff bindE_Inr_iff fits_int_def elim!: sb_wfE
      split: if_splits dest!: grow_size_Inr)

lemma calculate_new_size_total:
  assumes "sb_wf s" "0 < len" "(len + 1) * (- sb_increment s) \<le> INT_MAX"
  shows "\<exists>m. calculate_new_size s len = Inr m"
proof -
  from assms have inc: "sb_increment s \<le> - 2" "0 < sb_size s" by (auto elim: sb_wfE)
  with assms(2) have "(len + 1) * 2 \<le> (len + 1) * (- sb_increment s)"
    by (intro mult_left_mono) auto
  with assms inc show ?thesis
    using grow_size_total [of "- sb_increment s" "sb_size s" "len + 1"]
    by (auto simp: calculate_new_size_def iadd_def fits_int_def INT_MIN_def)
qed

lemma calculate_new_size_fault:
  assumes "calculate_new_size s len = Inl e" "sb_wf s" "0 < len"
  shows "e = SignedOverflow"
  using assms grow_size_fault [of "- sb_increment s" "sb_size s" "len + 1" e]
  by (auto simp: calculate_new_size_def iadd_def elim!: sb_wfE split: if_splits)

section \<open>Resizing keeps the text\<close>

text \<open>The faults an append can end in: no memory, or a size beyond \<open>int\<close>; never a bad store.\<close>

definition sb_benign :: "c_fault \<Rightarrow> bool" where
  "sb_benign e \<longleftrightarrow> e = Die ''Out of memory'' \<or> e = SignedOverflow"

lemma strbuf_resize_Inr:
  assumes "strbuf_resize h s len = Inr s'" "sb_wf s" "sb_length s \<le> len"
  shows "sb_wf s' \<and> sb_text s' = sb_text s \<and> len < sb_size s' \<and>
    sb_length s' = sb_length s \<and> sb_increment s' = sb_increment s"
proof -
  from assms(1) obtain m where m: "calculate_new_size s len = Inr m" and
    s': "s' = s\<lparr>sb_size := m, sb_buf := Some (realloc_cells h
           (case sb_buf s of None \<Rightarrow> [] | Some cells \<Rightarrow> cells) (nat m)),
           sb_reallocs := sb_reallocs s + 1\<rparr>"
    by (auto simp: strbuf_resize_def bindE_Inr_iff split: if_splits)
  from calculate_new_size_Inr [OF m assms(2,3)] have "len < m" "m \<le> INT_MAX" by auto
  with assms(2,3) show ?thesis
    by (auto simp: s' sb_wf_def sb_text_def split: option.splits)
qed

lemma strbuf_resize_fault:
  assumes "strbuf_resize h s len = Inl e" "sb_wf s" "0 < len"
  shows "sb_benign e"
  using assms calculate_new_size_fault [of s len]
  by (cases "calculate_new_size s len") (auto simp: strbuf_resize_def sb_benign_def split: if_splits)

lemma strbuf_resize_total:
  assumes "sb_wf s" "0 < len" "(len + 1) * (- sb_increment s) \<le> INT_MAX" "\<forall>m. can_alloc h m"
  shows "\<exists>s'. strbuf_resize h s len = Inr s'"
  using calculate_new_size_total [OF assms(1-3)] assms(4) by (auto simp: strbuf_resize_def)

lemma strbuf_ensure_empty_length_Inr:
  assumes "strbuf_ensure_empty_length h s n = Inr s'" "sb_wf s" "0 \<le> n"
  shows "sb_wf s' \<and> sb_text s' = sb_text s \<and> n \<le> strbuf_empty_length s' \<and>
    sb_length s' = sb_length s \<and> sb_increment s' = sb_increment s"
  using assms strbuf_resize_Inr [of h s "sb_length s + n" s']
  by (auto simp: strbuf_ensure_empty_length_def strbuf_empty_length_def iadd_Inr_iff bindE_Inr_iff
      split: if_splits)

lemma strbuf_ensure_empty_length_fault:
  assumes "strbuf_ensure_empty_length h s n = Inl e" "sb_wf s"
  shows "sb_benign e"
proof (cases "n > strbuf_empty_length s")
  case True
  from assms(2) have "0 < sb_length s + n"
    using True by (auto simp: strbuf_empty_length_def elim!: sb_wfE)
  with True assms show ?thesis
    using strbuf_resize_fault [of h s "sb_length s + n" e]
    by (auto simp: strbuf_ensure_empty_length_def iadd_def sb_benign_def split: if_splits)
qed (use assms in \<open>simp add: strbuf_ensure_empty_length_def\<close>)

section \<open>Appending\<close>

text \<open>A store at the end of the text, followed by the matching extension of the length.\<close>

definition sb_push :: "strbuf \<Rightarrow> byte list \<Rightarrow> c_fault + strbuf" where
  "sb_push s xs = bindE (sb_store s (sb_length s) xs) (\<lambda>s'. strbuf_extend_length s' (int (length xs)))"

lemma append_as_push:
  "strbuf_append_mem_unsafe s c = sb_push s c"
  "strbuf_append_char_unsafe s b = sb_push s [b]"
  "strbuf_append_mem h s c = bindE (strbuf_ensure_empty_length h s (int (length c))) (\<lambda>s'. sb_push s' c)"
  "strbuf_append_char h s b = bindE (strbuf_ensure_empty_length h s 1) (\<lambda>s'. sb_push s' [b])"
  by (simp_all add: sb_push_def strbuf_append_mem_unsafe_def strbuf_append_char_unsafe_def
      strbuf_append_mem_def strbuf_append_char_def)

lemma sb_push_ok:
  assumes "sb_wf s" "int (length xs) \<le> strbuf_empty_length s"
  shows "\<exists>s'. sb_push s xs = Inr s' \<and> sb_wf s' \<and> sb_text s' = sb_text s @ xs \<and>
    sb_increment s' = sb_increment s \<and> sb_size s' = sb_size s"
proof -
  obtain cells where c: "sb_buf s = Some cells" "int (length cells) = sb_size s"
    "0 \<le> sb_length s" "sb_length s < sb_size s" "sb_size s \<le> INT_MAX" "sb_increment s \<le> - 2"
    using assms(1) by (rule sb_wfE)
  with assms(2) have fit: "nat (sb_length s) + length xs < length cells"
    by (simp add: strbuf_empty_length_def)
  with c have "fits_int (sb_length s + int (length xs))"
    by (simp add: fits_int_def INT_MIN_def)
  with c fit show ?thesis
    by (auto simp: sb_push_def sb_store_def mem_write_def strbuf_extend_length_def iadd_def
        sb_wf_def sb_text_def nat_add_distrib)
qed

lemma sb_push_length:
  "sb_push s xs = Inr s' \<Longrightarrow> sb_length s' = sb_length s + int (length xs) \<and>
     sb_increment s' = sb_increment s"
  by (auto simp: sb_push_def sb_store_def strbuf_extend_length_def bindE_Inr_iff iadd_Inr_iff
      split: option.splits if_splits)

text \<open>No operation on a buffer changes who owns the struct.\<close>

lemma sb_push_dynamic: "sb_push s xs = Inr s' \<Longrightarrow> sb_dynamic s' = sb_dynamic s"
  by (auto simp: sb_push_def sb_store_def strbuf_extend_length_def bindE_Inr_iff
      split: option.splits if_splits)

lemma strbuf_resize_dynamic: "strbuf_resize h s n = Inr s' \<Longrightarrow> sb_dynamic s' = sb_dynamic s"
  by (auto simp: strbuf_resize_def bindE_Inr_iff split: if_splits)

lemma strbuf_ensure_dynamic:
  "strbuf_ensure_empty_length h s n = Inr s' \<Longrightarrow> sb_dynamic s' = sb_dynamic s"
  by (auto simp: strbuf_ensure_empty_length_def bindE_Inr_iff strbuf_resize_dynamic split: if_splits)

text \<open>What every append that first ensures room does: it succeeds or ends in a benign fault.\<close>

lemma ensured_push_cases:
  assumes "sb_wf s"
  shows "case bindE (strbuf_ensure_empty_length h s (int (length xs))) (\<lambda>s'. sb_push s' xs) of
      Inl e \<Rightarrow> sb_benign e
    | Inr s' \<Rightarrow> sb_wf s' \<and> sb_text s' = sb_text s @ xs \<and>
        sb_length s' = sb_length s + int (length xs) \<and> sb_increment s' = sb_increment s"
proof (cases "strbuf_ensure_empty_length h s (int (length xs))")
  case (Inl e)
  with assms strbuf_ensure_empty_length_fault show ?thesis by simp
next
  case (Inr s1)
  with assms have "sb_wf s1 \<and> sb_text s1 = sb_text s \<and> int (length xs) \<le> strbuf_empty_length s1 \<and>
      sb_length s1 = sb_length s \<and> sb_increment s1 = sb_increment s"
    using strbuf_ensure_empty_length_Inr [of h s "int (length xs)" s1] by simp
  with Inr sb_push_ok [of s1 xs] sb_push_length [of s1 xs] show ?thesis by auto
qed

lemma strbuf_append_mem_cases:
  "sb_wf s \<Longrightarrow> case strbuf_append_mem h s xs of
      Inl e \<Rightarrow> sb_benign e
    | Inr s' \<Rightarrow> sb_wf s' \<and> sb_text s' = sb_text s @ xs \<and>
        sb_length s' = sb_length s + int (length xs) \<and> sb_increment s' = sb_increment s"
  unfolding append_as_push by (rule ensured_push_cases)

lemma strbuf_append_char_cases:
  "sb_wf s \<Longrightarrow> case strbuf_append_char h s c of
      Inl e \<Rightarrow> sb_benign e
    | Inr s' \<Rightarrow> sb_wf s' \<and> sb_text s' = sb_text s @ [c] \<and>
        sb_length s' = sb_length s + 1 \<and> sb_increment s' = sb_increment s"
  using ensured_push_cases [where s = s and h = h and xs = "[c]"] unfolding append_as_push
  by (auto split: sum.splits)

lemma strbuf_ensure_empty_length_total:
  assumes "sb_wf s" "sb_room h s n"
  shows "\<exists>s'. strbuf_ensure_empty_length h s (int n) = Inr s'"
proof (cases "int n > strbuf_empty_length s")
  case True
  from assms(1) have inc: "sb_increment s \<le> - 2" "0 \<le> sb_length s" "sb_length s < sb_size s"
    by (auto elim: sb_wfE)
  with True have pos: "0 < sb_length s + int n" by (simp add: strbuf_empty_length_def)
  with inc have "(sb_length s + int n + 1) * 1 \<le> (sb_length s + int n + 1) * (- sb_increment s)"
    by (intro mult_left_mono) auto
  with assms(2) pos have "fits_int (sb_length s + int n)"
    by (simp add: sb_room_def fits_int_def INT_MIN_def)
  with True pos assms show ?thesis
    using strbuf_resize_total [of s "sb_length s + int n" h]
    by (simp add: strbuf_ensure_empty_length_def iadd_def sb_room_def)
qed (simp add: strbuf_ensure_empty_length_def)

lemma strbuf_append_mem_total:
  assumes "sb_wf s" "sb_room h s (length xs)"
  shows "\<exists>s'. strbuf_append_mem h s xs = Inr s'"
proof -
  from strbuf_ensure_empty_length_total [OF assms] obtain s1
    where s1: "strbuf_ensure_empty_length h s (int (length xs)) = Inr s1" ..
  with assms(1) have "sb_wf s1" "int (length xs) \<le> strbuf_empty_length s1"
    using strbuf_ensure_empty_length_Inr [of h s "int (length xs)" s1] by simp_all
  then show ?thesis using s1 sb_push_ok [of s1 xs] by (auto simp: append_as_push)
qed

interpretation sb: byte_sink sb_wf sb_text "sb_room h" "strbuf_append_mem h" for h
proof unfold_locales
  fix s s' :: strbuf and xs :: "byte list" and m n :: nat
  assume wf: "sb_wf s"
  show "sb_room h s (length xs) \<Longrightarrow> \<exists>s'. strbuf_append_mem h s xs = Inr s'"
    using wf by (rule strbuf_append_mem_total)
  assume ap: "strbuf_append_mem h s xs = Inr s'"
  with strbuf_append_mem_cases [OF wf, where h = h and xs = xs]
  show "sb_wf s'" "sb_text s' = sb_text s @ xs"
    "sb_room h s (length xs + n) \<Longrightarrow> sb_room h s' n"
    by (auto simp: sb_room_def add.assoc)
next
  fix s :: strbuf and m n :: nat
  assume "sb_wf s" "sb_room h s n" "m \<le> n"
  moreover from this have
    "(sb_length s + int m + 1) * (- sb_increment s) \<le> (sb_length s + int n + 1) * (- sb_increment s)"
    by (intro mult_right_mono) (auto elim: sb_wfE)
  ultimately show "sb_room h s m" by (simp add: sb_room_def)
qed

section \<open>Copying a C string\<close>

lemma strbuf_append_string_loop_cases:
  assumes "sb_wf s" "space = strbuf_empty_length s" "0 \<in> set str"
  shows "case strbuf_append_string_loop h s space str of
      Inl e \<Rightarrow> sb_benign e
    | Inr s' \<Rightarrow> sb_wf s' \<and> sb_text s' = sb_text s @ takeWhile (\<lambda>b. b \<noteq> 0) str"
  using assms
proof (induction str arbitrary: s space)
  case (Cons c cs)
  show ?case
  proof (cases "c = 0")
    case False
    let ?room = "if space < 1
      then bindE (iadd (sb_length s) 1) (\<lambda>n.
           bindE (strbuf_resize h s n) (\<lambda>s'. Inr (s', strbuf_empty_length s')))
      else Inr (s, space)"
    have nonneg: "0 \<le> sb_length s" using Cons.prems(1) by (auto elim: sb_wfE)
    show ?thesis
    proof (cases ?room)
      case (Inl e)
      with nonneg Cons.prems have "sb_benign e"
        using strbuf_resize_fault [of h s "sb_length s + 1"]
        by (cases "strbuf_resize h s (sb_length s + 1)")
          (auto simp: iadd_def sb_benign_def split: if_splits)
      with Inl False show ?thesis by simp
    next
      case (Inr p)
      then obtain s1 space1 where p: "p = (s1, space1)" by force
      with Inr Cons.prems have s1: "sb_wf s1" "sb_text s1 = sb_text s"
        "space1 = strbuf_empty_length s1" "1 \<le> space1"
        using strbuf_resize_Inr [of h s "sb_length s + 1" s1]
        by (auto simp: bindE_Inr_iff iadd_Inr_iff strbuf_empty_length_def split: if_splits)
      obtain s3 where s3: "sb_push s1 [c] = Inr s3" "sb_wf s3" "sb_text s3 = sb_text s @ [c]"
        "strbuf_empty_length s3 = space1 - 1"
        using sb_push_ok [of s1 "[c]"] sb_push_length [of s1 "[c]"] s1
        by (auto simp: strbuf_empty_length_def)
      have "strbuf_append_string_loop h s space (c # cs) =
          bindE (sb_push s1 [c]) (\<lambda>s3. strbuf_append_string_loop h s3 (space1 - 1) cs)"
        using Inr p False by (simp add: sb_push_def bindE_assoc)
      moreover have "0 \<in> set cs" using Cons.prems False by auto
      ultimately show ?thesis
        using Cons.IH [of s3 "space1 - 1"] s3 False by (auto split: sum.splits)
    qed
  qed (use Cons.prems in simp)
qed simp

text \<open>A string that fits is copied without a resize.\<close>

lemma strbuf_append_string_loop_fits:
  assumes "sb_wf s" "space = strbuf_empty_length s" "0 \<notin> set xs" "int (length xs) \<le> space"
  shows "\<exists>s'. strbuf_append_string_loop h s space (xs @ [0]) = Inr s' \<and> sb_wf s' \<and>
    sb_text s' = sb_text s @ xs \<and> sb_increment s' = sb_increment s \<and> sb_size s' = sb_size s \<and>
    sb_dynamic s' = sb_dynamic s"
  using assms
proof (induction xs arbitrary: s space)
  case (Cons c cs)
  from Cons.prems obtain s1 where s1: "sb_push s [c] = Inr s1" "sb_wf s1" "sb_text s1 = sb_text s @ [c]"
    "sb_increment s1 = sb_increment s" "sb_size s1 = sb_size s" "strbuf_empty_length s1 = space - 1"
    "sb_dynamic s1 = sb_dynamic s"
    using sb_push_ok [of s "[c]"] sb_push_length [of s "[c]"] sb_push_dynamic [of s "[c]"] by (auto simp: strbuf_empty_length_def)
  have "strbuf_append_string_loop h s space ((c # cs) @ [0]) =
      bindE (sb_push s [c]) (\<lambda>s1. strbuf_append_string_loop h s1 (space - 1) (cs @ [0]))"
    using Cons.prems by (simp add: sb_push_def bindE_assoc)
  with s1 Cons.prems Cons.IH [of s1 "space - 1"] show ?case by simp
qed simp

section \<open>Formatted text\<close>

lemma fmt_attempt_ok:
  assumes "sb_wf s"
  obtains s1 where "fmt_attempt s (Some cs) = Inr (s1, int (length cs), strbuf_empty_length s)"
    "sb_wf s1" "sb_text s1 = sb_text s" "sb_length s1 = sb_length s"
    "int (length cs) \<le> strbuf_empty_length s \<Longrightarrow>
       \<exists>s2. strbuf_extend_length s1 (int (length cs)) = Inr s2 \<and> sb_wf s2 \<and> sb_text s2 = sb_text s @ cs"
proof -
  obtain cells where c: "sb_buf s = Some cells" "int (length cells) = sb_size s"
    "0 \<le> sb_length s" "sb_length s < sb_size s" "sb_size s \<le> INT_MAX" "sb_increment s \<le> - 2"
    using assms by (rule sb_wfE)
  let ?xs = "take (nat (strbuf_empty_length s)) cs @ [0]"
  let ?p = "nat (sb_length s)"
  have fit: "?p + length ?xs \<le> length cells"
    using c by (auto simp: strbuf_empty_length_def)
  define s1 where "s1 = s\<lparr>sb_buf := Some (take ?p cells @ ?xs @ drop (?p + length ?xs) cells)\<rparr>"
  have att: "fmt_attempt s (Some cs) = Inr (s1, int (length cs), strbuf_empty_length s)"
    using c fit
    by (auto simp: fmt_attempt_def sb_vsnprintf_def sb_store_def mem_write_def s1_def
        strbuf_empty_length_def)
  have wf: "sb_wf s1" "sb_text s1 = sb_text s" "sb_length s1 = sb_length s"
    using c fit by (auto simp: s1_def sb_wf_def sb_text_def)
  have "\<exists>s2. strbuf_extend_length s1 (int (length cs)) = Inr s2 \<and> sb_wf s2 \<and> sb_text s2 = sb_text s @ cs"
    if "int (length cs) \<le> strbuf_empty_length s"
  proof -
    have "fits_int (sb_length s + int (length cs))"
      using that c by (simp add: fits_int_def INT_MIN_def strbuf_empty_length_def)
    then show ?thesis
      using that c fit
      by (auto simp: strbuf_extend_length_def iadd_def s1_def sb_wf_def sb_text_def
          strbuf_empty_length_def nat_add_distrib)
  qed
  with att wf that show thesis by blast
qed

lemma strbuf_append_fmt_retry_cases:
  assumes wf: "sb_wf s"
  shows "case strbuf_append_fmt_retry h s (Some cs) of
      Inl e \<Rightarrow> sb_benign e
    | Inr s' \<Rightarrow> sb_wf s' \<and> sb_text s' = sb_text s @ cs"
proof -
  obtain s1 where s1: "fmt_attempt s (Some cs) = Inr (s1, int (length cs), strbuf_empty_length s)"
    "sb_wf s1" "sb_text s1 = sb_text s" "sb_length s1 = sb_length s"
    "int (length cs) \<le> strbuf_empty_length s \<Longrightarrow>
       \<exists>s2. strbuf_extend_length s1 (int (length cs)) = Inr s2 \<and> sb_wf s2 \<and> sb_text s2 = sb_text s @ cs"
    using fmt_attempt_ok [OF wf, where cs = cs] by blast
  show ?thesis
  proof (cases "int (length cs) \<le> strbuf_empty_length s")
    case True
    with s1 show ?thesis by (auto simp: strbuf_append_fmt_retry_def)
  next
    case False
    let ?n = "sb_length s1 + int (length cs)"
    have pos: "0 < ?n" "sb_length s1 \<le> ?n"
      using False s1(4) wf by (auto simp: strbuf_empty_length_def elim!: sb_wfE)
    show ?thesis
    proof (cases "bindE (iadd (sb_length s1) (int (length cs))) (\<lambda>n. strbuf_resize h s1 n)")
      case (Inl e)
      then have "sb_benign e"
        using strbuf_resize_fault [of h s1 ?n e] s1(2) pos
        by (auto simp: iadd_def sb_benign_def split: if_splits)
      with Inl False s1(1) show ?thesis
        by (auto simp: strbuf_append_fmt_retry_def iadd_def split: if_splits)
    next
      case (Inr s2)
      then have r: "strbuf_resize h s1 ?n = Inr s2" and a: "iadd (sb_length s1) (int (length cs)) = Inr ?n"
        by (auto simp: iadd_def split: if_splits)
      then have s2: "sb_wf s2" "sb_text s2 = sb_text s" "int (length cs) \<le> strbuf_empty_length s2"
        using strbuf_resize_Inr [OF r s1(2) pos(2)] s1(3) by (auto simp: strbuf_empty_length_def)
      obtain s3 s4 where
        "fmt_attempt s2 (Some cs) = Inr (s3, int (length cs), strbuf_empty_length s2)"
        "strbuf_extend_length s3 (int (length cs)) = Inr s4" "sb_wf s4" "sb_text s4 = sb_text s2 @ cs"
        by (rule fmt_attempt_ok [OF s2(1), where cs = cs]) (use s2(3) in blast)
      then show ?thesis
        using False s1(1) r a s2 by (simp add: strbuf_append_fmt_retry_def)
    qed
  qed
qed

section \<open>Properties\<close>

definition ample_heap :: c_heap where
  "ample_heap = \<lparr>can_alloc = (\<lambda>_. True), fresh = (\<lambda>_. 0)\<rparr>"

text \<open>
  \<open>strbuf_init\<close> gives an empty, well-formed buffer for every requested length whose size is
  an \<open>int\<close>, when the allocation succeeds.
\<close>

theorem strbuf_init_wf:
  assumes "len < INT_MAX" and "\<And>n. can_alloc h n"
  shows "\<exists>s. strbuf_init h len = Inr s \<and> sb_wf s \<and> sb_text s = [] \<and>
    sb_size s = (if len \<le> 0 then STRBUF_DEFAULT_SIZE else len + 1)"
  using assms
  by (auto simp: strbuf_init_def iadd_def fits_int_def INT_MIN_def INT_MAX_def sb_wf_def sb_text_def
      strbuf_ensure_null_def sb_store_def mem_write_def STRBUF_DEFAULT_SIZE_def
      STRBUF_DEFAULT_INCREMENT_def)

theorem strbuf_init_wf_witness:
  "\<exists>s. strbuf_init ample_heap 3 = Inr s \<and> sb_wf s \<and> sb_text s = [] \<and> sb_size s = 4"
  using strbuf_init_wf [of 3 ample_heap] by (simp add: ample_heap_def INT_MAX_def)

text \<open>
  C12: appending a block to a well-formed buffer appends exactly that block to its text and keeps
  the buffer well-formed; it can only fail for lack of memory or because the size leaves \<open>int\<close>,
  never by a store outside the block, and it does not fail when there is room.
\<close>

theorem strbuf_append_mem_correct:
  assumes "sb_wf s"
  shows "(case strbuf_append_mem h s xs of
            Inl e \<Rightarrow> sb_benign e \<and> \<not> sb_room h s (length xs)
          | Inr s' \<Rightarrow> sb_wf s' \<and> sb_text s' = sb_text s @ xs)"
  using strbuf_append_mem_cases [OF assms, where h = h and xs = xs]
    sb.put_total [OF assms, where h = h and xs = xs]
  by (auto split: sum.splits)

definition small_buffer :: strbuf where
  "small_buffer = \<lparr>sb_buf = Some [65, 0], sb_size = 2, sb_length = 1, sb_increment = - 2,
     sb_dynamic = False, sb_reallocs = 0, sb_debug = 0\<rparr>"

lemma small_buffer_wf: "sb_wf small_buffer" "sb_text small_buffer = [65]"
  by (simp_all add: small_buffer_def sb_wf_def sb_text_def INT_MAX_def)

theorem strbuf_append_mem_correct_witness:
  "\<exists>s'. strbuf_append_mem ample_heap small_buffer [66, 67, 68] = Inr s' \<and> sb_wf s' \<and>
     sb_text s' = [65, 66, 67, 68]"
proof -
  have "sb_room ample_heap small_buffer 3"
    by (simp add: sb_room_def ample_heap_def small_buffer_def INT_MAX_def)
  then show ?thesis
    using strbuf_append_mem_correct [OF small_buffer_wf(1), of ample_heap "[66, 67, 68]"]
    by (auto simp: small_buffer_wf eval_nat_numeral split: sum.splits)
qed

text \<open>
  a sequence of appends to a well-formed buffer with room for all of them succeeds, and its
  text is the concatenation of the blocks.
\<close>

theorem strbuf_append_sequence:
  assumes "sb_wf s" and "sb_room h s (length (concat xss))"
  shows "\<exists>s'. put_all (strbuf_append_mem h) s xss = Inr s' \<and> sb_wf s' \<and>
    sb_text s' = sb_text s @ concat xss"
  using sb.put_all_total [OF assms] sb.put_all_content [OF assms(1)] by blast

theorem strbuf_append_sequence_witness:
  "\<exists>s'. put_all (strbuf_append_mem ample_heap) small_buffer [[66], [67, 68]] = Inr s' \<and> sb_wf s' \<and>
     sb_text s' = [65, 66, 67, 68]"
proof -
  have "sb_room ample_heap small_buffer (length (concat [[66], [67, 68 :: byte]]))"
    by (simp add: sb_room_def ample_heap_def small_buffer_def INT_MAX_def)
  from strbuf_append_sequence [OF small_buffer_wf(1) this] show ?thesis
    by (simp only: small_buffer_wf concat.simps append.simps append_Nil2)
qed

text \<open>
  appending a zero-terminated string copies the bytes before the terminator, whatever the
  number of resizes on the way, and never stores outside the block.
\<close>

theorem strbuf_append_string_correct:
  assumes "sb_wf s" and "0 \<in> set str"
  shows "case strbuf_append_string h s str of
      Inl e \<Rightarrow> sb_benign e
    | Inr s' \<Rightarrow> sb_wf s' \<and> sb_text s' = sb_text s @ takeWhile (\<lambda>b. b \<noteq> 0) str"
  using strbuf_append_string_loop_cases [OF assms(1) refl assms(2)]
  by (simp add: strbuf_append_string_def)

theorem strbuf_append_string_correct_witness:
  "case strbuf_append_string ample_heap small_buffer [66, 67, 68, 0, 1] of
      Inl e \<Rightarrow> sb_benign e
    | Inr s' \<Rightarrow> sb_wf s' \<and> sb_text s' = [65, 66, 67, 68]"
  using strbuf_append_string_correct [OF small_buffer_wf(1), of "[66, 67, 68, 0, 1]" ample_heap]
  by (auto simp: small_buffer_wf split: sum.splits)

text \<open>
  \<open>strbuf_append_fmt_retry\<close> appends the whole formatted text, in one attempt or after one
  resize; the fatal branch for a text that changes length between the attempts is not reached.
\<close>

theorem strbuf_append_fmt_retry_correct:
  assumes "sb_wf s"
  shows "case strbuf_append_fmt_retry h s (Some cs) of
      Inl e \<Rightarrow> sb_benign e
    | Inr s' \<Rightarrow> sb_wf s' \<and> sb_text s' = sb_text s @ cs"
  using assms by (rule strbuf_append_fmt_retry_cases)

theorem strbuf_append_fmt_retry_correct_witness:
  "case strbuf_append_fmt_retry ample_heap small_buffer (Some [49, 50, 51]) of
      Inl e \<Rightarrow> sb_benign e
    | Inr s' \<Rightarrow> sb_wf s' \<and> sb_text s' = [65, 49, 50, 51]"
  using strbuf_append_fmt_retry_correct [OF small_buffer_wf(1), where h = ample_heap and cs = "[49, 50, 51]"]
  by (auto simp: small_buffer_wf split: sum.splits)

text \<open>
  with linear growth (a positive increment that divides the size) the requested length plays
  no part in the new size: an append that does not fit leaves the size as it was and then stores
  outside the block.
\<close>

theorem strbuf_linear_growth_overruns:
  assumes buf: "sb_buf s = Some cells" "int (length cells) = sb_size s"
    and len: "0 \<le> sb_length s" "sb_length s < sb_size s"
    and inc: "0 < sb_increment s" "sb_increment s dvd sb_size s"
    and big: "sb_size s < sb_length s + int (length xs)"
      "sb_length s + int (length xs) < INT_MAX" "sb_size s + sb_increment s \<le> INT_MAX"
    and mem: "\<And>n. can_alloc h n"
  shows "strbuf_append_mem h s xs = Inl OutOfBounds"
proof -
  from inc(2) obtain q where q: "sb_size s = sb_increment s * q" by auto
  have "(sb_increment s * q + sb_increment s - 1) div sb_increment s = q"
    using inc(1) by (simp add: int_div_pos_eq)
  then have "cdiv (sb_size s + sb_increment s - 1) (sb_increment s) * sb_increment s = sb_size s"
    using inc(1) len q by (simp add: cdiv_def mult.commute)
  with len inc big have "calculate_new_size s (sb_length s + int (length xs)) = Inr (sb_size s)"
    by (simp add: calculate_new_size_def iadd_def fits_int_def INT_MIN_def)
  with assms show ?thesis
    by (simp add: strbuf_append_mem_def strbuf_ensure_empty_length_def strbuf_empty_length_def
        iadd_def fits_int_def INT_MIN_def strbuf_resize_def sb_store_def mem_write_def) linarith
qed

definition linear_buffer :: strbuf where
  "linear_buffer = \<lparr>sb_buf = Some [65, 0], sb_size = 2, sb_length = 1, sb_increment = 2,
     sb_dynamic = False, sb_reallocs = 0, sb_debug = 0\<rparr>"

theorem strbuf_linear_growth_overruns_witness:
  "strbuf_append_mem ample_heap linear_buffer [66, 67, 68] = Inl OutOfBounds"
  by (rule strbuf_linear_growth_overruns [where cells = "[65, 0]"])
    (simp_all add: linear_buffer_def ample_heap_def INT_MAX_def)

end
