(* ===== verification/MimeStream.thy ===== *)
theory MimeStream
  imports Prelude
begin

text \<open>
  What the transfer encodings of \<open>lae/source/mime.c\<close> share: each is a step function that takes one
  input byte, the pending state (an atom of bytes not yet encoded, a context character, a counter)
  and the \<open>luaL_Buffer\<close>, and the Lua functions run it over one or two strings.  The locale states
  the contract of such a step function (it only appends to the buffer) and proves once what the
  incremental interface of the module promises: output does not depend on how the input is cut.
\<close>

text \<open>The loops \<open>while (input < last) asize = f(*input++, atom, asize, &buffer)\<close>.\<close>

fun run_atoms :: "(byte \<Rightarrow> 's \<Rightarrow> byte list \<Rightarrow> 's \<times> byte list) \<Rightarrow>
    byte list \<Rightarrow> 's \<times> byte list \<Rightarrow> 's \<times> byte list" where
  "run_atoms f [] st = st"
| "run_atoms f (c # cs) (atom, buffer) = run_atoms f cs (f c atom buffer)"

text \<open>
  \<open>if (!(*lua_tostring(L, -1))) lua_pushnil(L); lua_pushnil(L); return 2;\<close> returns the result and
  nil, but nil twice when the first byte of the result is the terminator or a zero byte.
\<close>

definition finished :: "byte list \<Rightarrow> byte list option \<times> byte list option" where
  "finished buffer = (if buffer = [] \<or> hd buffer = 0 then (None, None) else (Some buffer, None))"

lemma finished_Some [simp]: "buffer \<noteq> [] \<Longrightarrow> hd buffer \<noteq> 0 \<Longrightarrow> finished buffer = (Some buffer, None)"
  by (simp add: finished_def)

lemma run_atoms_append: "run_atoms f (xs @ ys) st = run_atoms f ys (run_atoms f xs st)"
proof (induction xs arbitrary: st)
  case (Cons x xs)
  then show ?case by (cases st) simp
qed simp

text \<open>
  The column reached by a text that starts in column \<open>k\<close>, or \<open>None\<close> if one of its lines is longer
  than \<open>n\<close> bytes, line terminators not counted.
\<close>

fun line_col :: "nat \<Rightarrow> nat \<Rightarrow> byte list \<Rightarrow> nat option" where
  "line_col n k [] = Some k"
| "line_col n k (c # cs) =
     (if c = LF then line_col n 0 cs
      else if c = CR then line_col n k cs
      else if Suc k \<le> n then line_col n (Suc k) cs
      else None)"

lemma line_col_append:
  "line_col n k (xs @ ys) = Option.bind (line_col n k xs) (\<lambda>j. line_col n j ys)"
  by (induction n k xs rule: line_col.induct) auto

locale transducer =
  fixes step :: "byte \<Rightarrow> 's \<Rightarrow> byte list \<Rightarrow> 's \<times> byte list"
  assumes step_appends: "step c atom buffer = (fst (step c atom []), buffer @ snd (step c atom []))"
begin

lemma run_appends:
  "run_atoms step cs (atom, buffer) =
     (fst (run_atoms step cs (atom, [])), buffer @ snd (run_atoms step cs (atom, [])))"
proof (induction cs arbitrary: atom buffer)
  case (Cons c cs)
  let ?s = "step c atom []"
  have "run_atoms step (c # cs) (atom, buffer) = run_atoms step cs (fst ?s, buffer @ snd ?s)"
    using step_appends [of c atom buffer] by simp
  also have "\<dots> = (fst (run_atoms step cs (fst ?s, [])),
      (buffer @ snd ?s) @ snd (run_atoms step cs (fst ?s, [])))"
    by (rule Cons.IH)
  finally show ?case
    using Cons.IH [of "fst ?s" "snd ?s"] by simp
qed simp

lemma run_split:
  "run_atoms step (xs @ ys) (atom, []) =
     (let (atom1, out1) = run_atoms step xs (atom, []);
          (atom2, out2) = run_atoms step ys (atom1, [])
      in (atom2, out1 @ out2))"
  using run_appends [of ys "fst (run_atoms step xs (atom, []))" "snd (run_atoms step xs (atom, []))"]
  by (simp add: run_atoms_append split_beta Let_def)

lemma run_Cons:
  "run_atoms step (c # cs) (atom, []) =
     (let (atom1, out1) = step c atom [];
          (atom2, out2) = run_atoms step cs (atom1, [])
      in (atom2, out1 @ out2))"
  using run_split [of "[c]" cs atom] by simp

end

end
