(* ===== verification/MimeBase64.thy ===== *)
theory MimeBase64
  imports MimeStream
begin

text \<open>
  The Base64 part of \<open>lae/source/mime.c\<close>: the tables \<open>b64base\<close> and \<open>b64unbase\<close>, the byte-wise
  transducers \<open>b64encode\<close>, \<open>b64pad\<close> and \<open>b64decode\<close>, and the Lua functions \<open>mime.b64\<close> and
  \<open>mime.unb64\<close> built on them.  The array \<open>atom\<close> with its fill count \<open>asize\<close> is the list of its
  live bytes; a \<open>luaL_Buffer\<close> is the list of bytes added to it; a Lua argument that may be nil is
  an option.
\<close>

section \<open>Tables\<close>

definition b64base :: "byte list" where
  "b64base = bytes ''ABCDEFGHIJKLMNOPQRSTUVWXYZabcdefghijklmnopqrstuvwxyz0123456789+/''"

definition EQ :: byte where "EQ = 61"

definition b64setup :: "byte list" where
  "b64setup =
     (foldl (\<lambda>t i. t[unat (b64base ! i) := word_of_nat i]) (replicate 256 255) [0..<64])
       [unat EQ := 0]"

abbreviation b64unbase :: "byte \<Rightarrow> byte" where
  "b64unbase c \<equiv> b64setup ! unat c"

section \<open>Transducers\<close>

text \<open>The accumulators \<open>value\<close> built from the bytes of a full atom.\<close>

definition b64encode_value :: "byte list \<Rightarrow> u64" where
  "b64encode_value input =
     (let value = 0;
          value = push_bit 8 (value + ucast (input ! 0));
          value = push_bit 8 (value + ucast (input ! 1))
      in value + ucast (input ! 2))"

definition b64pad_value :: "byte list \<Rightarrow> u64" where
  "b64pad_value input =
     (if length input = 1 then push_bit 4 (ucast (input ! 0))
      else let value = push_bit 8 (ucast (input ! 0))
           in push_bit 2 (value OR ucast (input ! 1)))"

definition b64decode_value :: "byte list \<Rightarrow> u32" where
  "b64decode_value input =
     (let value = push_bit 6 (ucast (b64unbase (input ! 0)));
          value = push_bit 6 (value OR ucast (b64unbase (input ! 1)));
          value = push_bit 6 (value OR ucast (b64unbase (input ! 2)))
      in value OR ucast (b64unbase (input ! 3)))"

definition b64encode :: "byte \<Rightarrow> byte list \<Rightarrow> byte list \<Rightarrow> byte list \<times> byte list" where
  "b64encode c input buffer =
     (let input = input @ [c] in
      if length input = 3 then
        let value = b64encode_value input;
            code3 = b64base ! unat (value AND 0x3f); value = drop_bit 6 value;
            code2 = b64base ! unat (value AND 0x3f); value = drop_bit 6 value;
            code1 = b64base ! unat (value AND 0x3f); value = drop_bit 6 value;
            code0 = b64base ! unat value
        in ([], buffer @ [code0, code1, code2, code3])
      else (input, buffer))"

definition b64pad :: "byte list \<Rightarrow> byte list \<Rightarrow> byte list \<times> byte list" where
  "b64pad input buffer =
     (if length input = 1 then
        let value = b64pad_value input;
            code1 = b64base ! unat (value AND 0x3f); value = drop_bit 6 value;
            code0 = b64base ! unat value
        in ([], buffer @ [code0, code1, EQ, EQ])
      else if length input = 2 then
        let value = b64pad_value input;
            code2 = b64base ! unat (value AND 0x3f); value = drop_bit 6 value;
            code1 = b64base ! unat (value AND 0x3f); value = drop_bit 6 value;
            code0 = b64base ! unat value
        in ([], buffer @ [code0, code1, code2, EQ])
      else ([], buffer))"

definition b64decode :: "byte \<Rightarrow> byte list \<Rightarrow> byte list \<Rightarrow> byte list \<times> byte list" where
  "b64decode c input buffer =
     (if b64unbase c > 64 then (input, buffer)
      else
        let input = input @ [c] in
        if length input = 4 then
          let value = b64decode_value input;
              decoded2 = ucast (value AND 0xff); value = drop_bit 8 value;
              decoded1 = ucast (value AND 0xff); value = drop_bit 8 value;
              decoded0 = ucast value;
              valid = (if input ! 2 = EQ then 1 else if input ! 3 = EQ then 2 else 3 :: nat)
          in ([], buffer @ take valid [decoded0, decoded1, decoded2])
        else (input, buffer))"

section \<open>The Lua functions\<close>

definition mime_global_b64 ::
    "byte list option \<Rightarrow> byte list option \<Rightarrow> byte list option \<times> byte list option" where
  "mime_global_b64 C D =
     (case C of
        None \<Rightarrow> (None, None)
      | Some input \<Rightarrow>
          let (atom, buffer) = run_atoms b64encode input ([], [])
          in case D of
               None \<Rightarrow> finished (snd (b64pad atom buffer))
             | Some input2 \<Rightarrow>
                 let (atom', buffer') = run_atoms b64encode input2 (atom, buffer)
                 in (Some buffer', Some atom'))"

definition mime_global_unb64 ::
    "byte list option \<Rightarrow> byte list option \<Rightarrow> byte list option \<times> byte list option" where
  "mime_global_unb64 C D =
     (case C of
        None \<Rightarrow> (None, None)
      | Some input \<Rightarrow>
          let (atom, buffer) = run_atoms b64decode input ([], [])
          in case D of
               None \<Rightarrow> finished buffer
             | Some input2 \<Rightarrow>
                 let (atom', buffer') = run_atoms b64decode input2 (atom, buffer)
                 in (Some buffer', Some atom'))"

section \<open>The tables\<close>

lemma length_b64base: "length b64base = 64"
  by (simp add: b64base_def bytes_def)

lemma b64base_eq: "b64base =
    [65, 66, 67, 68, 69, 70, 71, 72, 73, 74, 75, 76, 77, 78, 79, 80, 81, 82, 83, 84, 85, 86, 87, 88, 89,
     90, 97, 98, 99, 100, 101, 102, 103, 104, 105, 106, 107, 108, 109, 110, 111, 112, 113, 114, 115, 116,
     117, 118, 119, 120, 121, 122, 48, 49, 50, 51, 52, 53, 54, 55, 56, 57, 43, 47]"
  by (simp add: b64base_def bytes_def)

lemma distinct_b64base: "distinct b64base"
  by (simp add: b64base_eq)

lemma b64base_not_special: "EQ \<notin> set b64base" "0 \<notin> set b64base"
  by (simp_all add: b64base_eq EQ_def)

lemma length_foldl_update [simp]:
  "length (foldl (\<lambda>t i. t[f i := g i]) t0 is) = length t0"
  by (induction "is" arbitrary: t0) auto

lemma foldl_update_other:
  "p \<notin> f ` set is \<Longrightarrow> foldl (\<lambda>t i. t[f i := g i]) t0 is ! p = t0 ! p"
  by (induction "is" arbitrary: t0) auto

lemma foldl_update_nth:
  assumes "distinct (map f is)" "i \<in> set is" "f i < length t0"
  shows "foldl (\<lambda>t i. t[f i := g i]) t0 is ! f i = g i"
  using assms
proof (induction "is" arbitrary: t0)
  case (Cons j js)
  then show ?case
    by (cases "i = j") (auto simp: foldl_update_other)
qed simp

lemma length_b64setup: "length b64setup = 256"
  by (simp add: b64setup_def)

lemma b64unbase_b64base:
  assumes "i < 64"
  shows "b64unbase (b64base ! i) = word_of_nat i" "b64base ! i \<noteq> EQ" "b64base ! i \<noteq> 0"
proof -
  have mem: "b64base ! i \<in> set b64base" using assms by (simp add: length_b64base)
  then show ne: "b64base ! i \<noteq> EQ" "b64base ! i \<noteq> 0"
    using b64base_not_special by auto
  have "map (\<lambda>i. unat (b64base ! i)) [0..<64] = map unat b64base"
    by (simp add: list_eq_iff_nth_eq length_b64base)
  moreover have "distinct (map unat b64base)"
    by (simp add: distinct_map distinct_b64base inj_on_def unat_inject)
  ultimately have "distinct (map (\<lambda>i. unat (b64base ! i)) [0..<64])" by simp
  from foldl_update_nth [OF this, of i "replicate 256 255" word_of_nat]
  show "b64unbase (b64base ! i) = word_of_nat i"
    using assms ne(1) by (simp add: b64setup_def unat_inject)
qed

lemma b64unbase_EQ: "b64unbase EQ = 0"
  by (simp add: b64setup_def EQ_def)

section \<open>Sextets as numbers\<close>

lemma unat_and_3f: "unat ((w :: u64) AND 0x3f) = unat w mod 64"
  using unat_and_mask [of w 6] by (simp add: mask_eq_exp_minus_1)

lemma and_ff: "ucast ((w :: u32) AND 0xff) = (ucast w :: byte)"
proof -
  have eq: "(0xff :: u32) = mask 8" by (simp add: mask_eq_exp_minus_1)
  show ?thesis unfolding eq by (auto intro!: bit_word_eqI simp: bit_simps)
qed

lemma push_bit_or_low:
  fixes x y :: "'a::len word"
  assumes "unat y < 2 ^ n"
  shows "push_bit n x OR y = x * 2 ^ n + y"
proof -
  have low: "take_bit n y = y"
    by (rule unsigned_word_eqI [where ?'a = nat]) (simp add: unsigned_take_bit_eq take_bit_nat_eq_self assms)
  have "push_bit n x AND y = 0"
  proof (rule bit_eqI)
    fix k
    show "bit (push_bit n x AND y) k \<longleftrightarrow> bit (0 :: 'a word) k"
      using low [THEN arg_cong, of "\<lambda>w. bit w k"]
      by (auto simp: bit_and_iff bit_push_bit_iff bit_take_bit_iff)
  qed
  then show ?thesis
    by (simp add: disjunctive_add_eq_or [symmetric] push_bit_eq_mult)
qed

text \<open>The encoder's accumulator, and the bytes of a decoded group, as numbers.\<close>

lemma len64_eq: "(2 :: nat) ^ LENGTH(64) = 18446744073709551616"
  by simp

lemma encode_value:
  "unat (b64encode_value [a, b, c]) = unat a * 65536 + unat b * 256 + unat c"
proof -
  have "b64encode_value [a, b, c] = word_of_nat (unat a * 65536 + unat b * 256 + unat c)"
    by (simp add: b64encode_value_def push_bit_eq_mult algebra_simps)
  moreover have "unat a * 65536 + unat b * 256 + unat c < 18446744073709551616"
    using unat_byte_less [of a] unat_byte_less [of b] unat_byte_less [of c] by linarith
  ultimately show ?thesis by (metis unat_of_nat_small len64_eq)
qed

lemma pad2_value: "unat (b64pad_value [a, b]) = (unat a * 256 + unat b) * 4"
proof -
  have low: "unat (ucast b :: u64) < 2 ^ 8"
    using unat_byte_less [of b] by (simp add: unat_ucast_up)
  have "b64pad_value [a, b] = push_bit 2 (push_bit 8 (ucast a) OR ucast b)"
    by (simp add: b64pad_value_def)
  then have "b64pad_value [a, b] = word_of_nat ((unat a * 256 + unat b) * 4)"
    unfolding push_bit_or_low [OF low] by (simp add: push_bit_eq_mult algebra_simps)
  moreover have "(unat a * 256 + unat b) * 4 < 18446744073709551616"
    using unat_byte_less [of a] unat_byte_less [of b] by (simp del: unat_byte_less)
  ultimately show ?thesis by (metis unat_of_nat_small len64_eq)
qed

lemma pad1_value: "unat (b64pad_value [a]) = unat a * 16"
proof -
  have "b64pad_value [a] = word_of_nat (unat a * 16)"
    by (simp add: b64pad_value_def push_bit_eq_mult)
  moreover have "unat a * 16 < 18446744073709551616" using unat_byte_less [of a] by linarith
  ultimately show ?thesis by (metis unat_of_nat_small len64_eq)
qed

text \<open>The decoder's accumulator for four sextets.\<close>

definition sextets :: "nat \<Rightarrow> nat \<Rightarrow> nat \<Rightarrow> nat \<Rightarrow> nat" where
  "sextets i j k l = ((i * 64 + j) * 64 + k) * 64 + l"

lemma decode_value:
  assumes "b64unbase w = word_of_nat i" "b64unbase x = word_of_nat j"
    "b64unbase y = word_of_nat k" "b64unbase z = word_of_nat l"
    and less: "i < 64" "j < 64" "k < 64" "l < 64"
  shows "b64decode_value [w, x, y, z] = word_of_nat (sextets i j k l)"
proof -
  have u: "ucast (word_of_nat n :: byte) = (word_of_nat n :: u32)" if "n < 64" for n
    using that unfolding ucast_as_nat by (simp add: unsigned_of_nat take_bit_nat_eq_self)
  have low: "unat (word_of_nat n :: u32) < 2 ^ 6" if "n < 64" for n
    using that by (simp add: unsigned_of_nat take_bit_nat_eq_self)
  have "b64decode_value [w, x, y, z] =
      push_bit 6 (push_bit 6 (push_bit 6 (word_of_nat i) OR word_of_nat j) OR word_of_nat k) OR word_of_nat l"
  proof -
    have "[w, x, y, z] ! 0 = w" "[w, x, y, z] ! 1 = x" "[w, x, y, z] ! 2 = y" "[w, x, y, z] ! 3 = z"
      by simp_all
    then show ?thesis
      unfolding b64decode_value_def Let_def
      by (simp only: assms(1-4) u [OF less(1)] u [OF less(2)] u [OF less(3)] u [OF less(4)])
  qed
  then show ?thesis
    unfolding push_bit_or_low [OF low [OF less(2)]] push_bit_or_low [OF low [OF less(3)]]
      push_bit_or_low [OF low [OF less(4)]]
    by (simp add: sextets_def)
qed

lemma decoded_bytes:
  assumes "N < 2 ^ 24"
  shows "ucast (word_of_nat N :: u32) = (word_of_nat N :: byte)"
    and "ucast (drop_bit 8 (word_of_nat N :: u32)) = (word_of_nat (N div 256) :: byte)"
    and "ucast (drop_bit 16 (word_of_nat N :: u32)) = (word_of_nat (N div 65536) :: byte)"
proof -
  have n: "unat (word_of_nat N :: u32) = N"
    using assms by (simp add: unsigned_of_nat take_bit_nat_eq_self)
  then show "ucast (word_of_nat N :: u32) = (word_of_nat N :: byte)"
    by (simp only: ucast_as_nat)
  show "ucast (drop_bit 8 (word_of_nat N :: u32)) = (word_of_nat (N div 256) :: byte)"
    using n unfolding ucast_as_nat unat_drop_bit by (simp add: div_mult2_eq [symmetric])
  show "ucast (drop_bit 16 (word_of_nat N :: u32)) = (word_of_nat (N div 65536) :: byte)"
    using n unfolding ucast_as_nat unat_drop_bit by (simp add: div_mult2_eq [symmetric])
qed

section \<open>Reference encoding\<close>

text \<open>
  The encoding by groups of three bytes, over plain numbers: a group is a number below \<open>2^24\<close>
  written with four base-64 digits; a last group of two or one bytes is scaled to whole digits
  and padded.
\<close>

definition quad :: "nat \<Rightarrow> byte list" where
  "quad n = map ((!) b64base) [n div 262144, n div 4096 mod 64, n div 64 mod 64, n mod 64]"

definition group :: "byte \<Rightarrow> byte \<Rightarrow> byte \<Rightarrow> nat" where
  "group a b c = unat a * 65536 + unat b * 256 + unat c"

fun b64_ref :: "byte list \<Rightarrow> byte list" where
  "b64_ref [] = []"
| "b64_ref [a] = take 2 (quad (group a 0 0)) @ [EQ, EQ]"
| "b64_ref [a, b] = take 3 (quad (group a b 0)) @ [EQ]"
| "b64_ref (a # b # c # xs) = quad (group a b c) @ b64_ref xs"

lemma group_less: "group a b c < 2 ^ 24"
  using unat_byte_less [of a] unat_byte_less [of b] unat_byte_less [of c]
  by (simp add: group_def del: unat_byte_less)

lemma group_bytes:
  "word_of_nat (group a b c) = c"
  "word_of_nat (group a b c div 256) = b"
  "word_of_nat (group a b c div 65536) = a"
proof -
  have g: "group a b c = (unat a * 256 + unat b) * 256 + unat c" by (simp add: group_def)
  have digit: "(m * 256 + d) mod 256 = d" "(m * 256 + d) div 256 = m" if "d < 256" for m d :: nat
    using that by simp_all
  have "group a b c mod 256 = unat c" "group a b c div 256 = unat a * 256 + unat b"
    unfolding g by (rule digit, rule unat_byte_less)+
  moreover from this(2) have "group a b c div 256 mod 256 = unat b" "group a b c div 256 div 256 = unat a"
    by simp_all
  moreover have "group a b c div 65536 = group a b c div 256 div 256"
    by (simp add: div_mult2_eq [symmetric])
  moreover have low: "unat (word_of_nat n :: byte) = n mod 256" for n
    by (simp add: unsigned_of_nat take_bit_eq_mod)
  ultimately show "word_of_nat (group a b c) = c" "word_of_nat (group a b c div 256) = b"
    "word_of_nat (group a b c div 65536) = a"
    unfolding unat_inject [symmetric] low by simp_all
qed

lemma sextets_of_digits:
  "sextets (n div 262144) (n div 4096 mod 64) (n div 64 mod 64) (n mod 64) = n"
proof -
  have "n div 262144 = n div 4096 div 64" "n div 4096 = n div 64 div 64"
    by (simp_all add: div_mult2_eq [symmetric])
  then show ?thesis by (simp add: sextets_def)
qed

section \<open>The encoder computes the reference\<close>

lemma b64encode_small:
  "b64encode c [] buffer = ([c], buffer)"
  "b64encode c [a] buffer = ([a, c], buffer)"
  by (simp_all add: b64encode_def)

lemma b64encode_group: "b64encode c [a, b] buffer = ([], buffer @ quad (group a b c))"
  unfolding b64encode_def Let_def
  by (simp add: unat_and_3f unat_drop_bit encode_value quad_def group_def div_mult2_eq [symmetric])

lemma b64pad_cases:
  "b64pad [] buffer = ([], buffer)"
  "b64pad [a] buffer = ([], buffer @ b64_ref [a])"
  "b64pad [a, b] buffer = ([], buffer @ b64_ref [a, b])"
proof -
  have scale: "n * 65536 div 262144 = n div 4" "n * 65536 div 4096 = n * 16"
    "n * 256 div 262144 = n div 1024" "n * 256 div 4096 = n div 16" "n * 256 div 64 = n * 4" for n :: nat
    using div_mult2_eq [of "n * 65536" 65536 4] div_mult2_eq [of "n * 65536" 4096 1]
      div_mult2_eq [of "n * 256" 256 1024] div_mult2_eq [of "n * 256" 256 16]
    by simp_all
  have two: "group a b 0 = (unat a * 256 + unat b) * 256" by (simp add: group_def)
  have quarter: "n * 4 div 4096 = n div 1024" "n * 4 div 64 = n div 16" for n :: nat
    using div_mult2_eq [of "n * 4" 4 1024] div_mult2_eq [of "n * 4" 4 16] by simp_all
  have quarter1: "n * 16 div 64 = n div 4" for n :: nat
    using div_mult2_eq [of "n * 16" 16 4] by simp
  show "b64pad [] buffer = ([], buffer)" by (simp add: b64pad_def)
  show "b64pad [a] buffer = ([], buffer @ b64_ref [a])"
    unfolding b64pad_def Let_def
    by (simp add: unat_and_3f unat_drop_bit pad1_value quad_def group_def scale quarter1 take_Cons')
  show "b64pad [a, b] buffer = ([], buffer @ b64_ref [a, b])"
    unfolding b64pad_def Let_def b64_ref.simps two
    by (simp add: unat_and_3f unat_drop_bit pad2_value quad_def scale quarter take_Cons'
        div_mult2_eq [symmetric] del: distrib_right_numeral)
qed

lemma run_b64encode:
  "run_atoms b64encode xs ([], buffer) =
     (drop (3 * (length xs div 3)) xs, buffer @ b64_ref (take (3 * (length xs div 3)) xs))"
proof (induction xs arbitrary: buffer rule: b64_ref.induct)
  case (4 a b c xs)
  have "3 * (length (a # b # c # xs) div 3) = Suc (Suc (Suc (3 * (length xs div 3))))"
    using div_add_self1 [of 3 "length xs"] by simp
  with 4 show ?case by (simp add: b64encode_small b64encode_group)
qed (simp_all add: b64encode_small)

interpretation enc: transducer b64encode
  by unfold_locales (simp add: b64encode_def Let_def)

interpretation dec: transducer b64decode
  by unfold_locales (simp add: b64decode_def Let_def)

section \<open>The decoder inverts the reference\<close>

lemma valid_sextet: "i < 64 \<Longrightarrow> \<not> (64 :: byte) < word_of_nat i"
  by (simp add: word_less_nat_alt unat_of_nat_small)

lemma b64decode_pending:
  assumes "\<not> 64 < b64unbase c" "length atom < 3"
  shows "b64decode c atom buffer = (atom @ [c], buffer)"
  using assms by (simp add: b64decode_def)

lemma b64decode_full:
  assumes "b64unbase w = word_of_nat i" "b64unbase x = word_of_nat j"
    "b64unbase y = word_of_nat k" "b64unbase z = word_of_nat l"
    "i < 64" "j < 64" "k < 64" "l < 64"
  shows "run_atoms b64decode [w, x, y, z] ([], buffer) =
     ([], buffer @ take (if y = EQ then 1 else if z = EQ then 2 else 3)
        [word_of_nat (sextets i j k l div 65536), word_of_nat (sextets i j k l div 256),
         word_of_nat (sextets i j k l)])"
proof -
  have "sextets i j k l < 2 ^ 24" using assms(5-) by (simp add: sextets_def)
  note bytes = decoded_bytes [OF this]
  have "run_atoms b64decode [w, x, y, z] ([], buffer) = b64decode z [w, x, y] buffer"
    by (simp add: b64decode_pending assms valid_sextet)
  also have "\<dots> = ([], buffer @ take (if y = EQ then 1 else if z = EQ then 2 else 3)
        [word_of_nat (sextets i j k l div 65536), word_of_nat (sextets i j k l div 256),
         word_of_nat (sextets i j k l)])"
    using assms(5-)
    by (simp add: b64decode_def Let_def assms(1-4) valid_sextet decode_value [OF assms] and_ff bytes)
  finally show ?thesis .
qed

lemma digit_bounds:
  assumes "n < 2 ^ 24"
  shows "n div 262144 < 64" "n div 4096 mod 64 < 64" "n div 64 mod 64 < 64" "n mod 64 < (64 :: nat)"
  using assms by simp_all

lemma run_b64decode_quad:
  "run_atoms b64decode (quad (group a b c)) ([], buffer) = ([], buffer @ [a, b, c])"
  unfolding quad_def list.map
  using b64decode_full [OF b64unbase_b64base(1) b64unbase_b64base(1) b64unbase_b64base(1)
      b64unbase_b64base(1), OF digit_bounds [OF group_less [of a b c]] digit_bounds [OF group_less [of a b c]]]
  by (simp add: b64unbase_b64base sextets_of_digits group_bytes)

lemma sextets_padded:
  "sextets (group a b 0 div 262144) (group a b 0 div 4096 mod 64) (group a b 0 div 64 mod 64) 0 = group a b 0"
  "sextets (group a 0 0 div 262144) (group a 0 0 div 4096 mod 64) 0 0 = group a 0 0"
proof -
  have two: "group a b 0 = (unat a * 1024 + unat b * 4) * 64" by (simp add: group_def)
  have "group a b 0 mod 64 = 0" unfolding two by (rule mod_mult_self2_is_0)
  then show "sextets (group a b 0 div 262144) (group a b 0 div 4096 mod 64) (group a b 0 div 64 mod 64) 0 = group a b 0"
    using sextets_of_digits [of "group a b 0"] by simp
  have one: "group a 0 0 = unat a * 1024 * 64" by (simp add: group_def)
  have "group a 0 0 mod 64 = 0" unfolding one by (rule mod_mult_self2_is_0)
  moreover have "group a 0 0 div 64 mod 64 = 0"
    unfolding one using mod_mult_self2_is_0 [of "unat a * 16" 64] by (simp add: mult.commute)
  ultimately show "sextets (group a 0 0 div 262144) (group a 0 0 div 4096 mod 64) 0 0 = group a 0 0"
    using sextets_of_digits [of "group a 0 0"] by simp
qed

lemma EQ_sextet: "b64unbase EQ = word_of_nat 0"
  by (simp add: b64unbase_EQ)

lemma run_b64decode_pad:
  "run_atoms b64decode (b64_ref [a, b]) ([], buffer) = ([], buffer @ [a, b])"
  "run_atoms b64decode (b64_ref [a]) ([], buffer) = ([], buffer @ [a])"
proof -
  note ub = b64unbase_b64base(1)
  show "run_atoms b64decode (b64_ref [a, b]) ([], buffer) = ([], buffer @ [a, b])"
    using b64decode_full [OF ub ub ub EQ_sextet, OF digit_bounds(1-3) [OF group_less [of a b 0]]
        digit_bounds(1-3) [OF group_less [of a b 0]]]
    by (simp add: quad_def b64unbase_b64base sextets_padded group_bytes take_Cons')
  show "run_atoms b64decode (b64_ref [a]) ([], buffer) = ([], buffer @ [a])"
    using b64decode_full [OF ub ub EQ_sextet EQ_sextet, OF digit_bounds(1,2) [OF group_less [of a 0 0]]
        digit_bounds(1,2) [OF group_less [of a 0 0]]]
    by (simp add: quad_def b64unbase_b64base sextets_padded group_bytes take_Cons')
qed

lemma run_b64decode_ref: "run_atoms b64decode (b64_ref xs) ([], buffer) = ([], buffer @ xs)"
proof (induction xs arbitrary: buffer rule: b64_ref.induct)
  case (4 a b c xs)
  then show ?case by (simp add: run_atoms_append run_b64decode_quad)
qed (simp_all add: run_b64decode_pad del: b64_ref.simps(2,3))

text \<open>Bytes outside the alphabet are skipped.\<close>

definition b64valid :: "byte \<Rightarrow> bool" where
  "b64valid c \<longleftrightarrow> \<not> b64unbase c > 64"

lemma b64valid_iff: "b64valid c \<longleftrightarrow> c = EQ \<or> c \<in> set b64base"
proof (cases "c \<in> set b64base")
  case True
  then obtain i where "i < 64" "c = b64base ! i" by (auto simp: in_set_conv_nth length_b64base)
  with True show ?thesis by (simp add: b64valid_def b64unbase_b64base valid_sextet)
next
  case False
  have "unat c \<notin> (\<lambda>i. unat (b64base ! i)) ` set [0..<64]"
    using False by (auto simp: unat_inject in_set_conv_nth length_b64base)
  from foldl_update_other [OF this, of "word_of_nat :: nat \<Rightarrow> byte" "replicate 256 255"] False
  show ?thesis
    by (auto simp: b64valid_def b64setup_def nth_list_update unat_inject)
qed

lemma run_b64decode_filter:
  "run_atoms b64decode cs st = run_atoms b64decode (filter b64valid cs) st"
proof (induction cs arbitrary: st)
  case (Cons c cs)
  then show ?case
    by (cases st) (auto simp: b64valid_def b64decode_def)
qed simp

lemma b64_ref_head: "xs \<noteq> [] \<Longrightarrow> b64_ref xs \<noteq> [] \<and> hd (b64_ref xs) \<noteq> 0"
proof (cases xs rule: b64_ref.cases)
  case (4 a b c ys)
  then show ?thesis
    using b64unbase_b64base(3) [OF digit_bounds(1) [OF group_less [of a b c]]] by (simp add: quad_def)
next
  case (2 a)
  then show ?thesis
    using b64unbase_b64base(3) [OF digit_bounds(1) [OF group_less [of a 0 0]]] by (simp add: quad_def)
next
  case (3 a b)
  then show ?thesis
    using b64unbase_b64base(3) [OF digit_bounds(1) [OF group_less [of a b 0]]] by (simp add: quad_def)
qed simp

lemma b64_ref_split:
  "b64_ref xs = b64_ref (take (3 * (length xs div 3)) xs) @ snd (b64pad (drop (3 * (length xs div 3)) xs) [])"
proof (induction xs rule: b64_ref.induct)
  case (4 a b c xs)
  have "3 * (length (a # b # c # xs) div 3) = Suc (Suc (Suc (3 * (length xs div 3))))"
    using div_add_self1 [of 3 "length xs"] by simp
  with 4 show ?case by simp
qed (simp_all add: b64pad_cases del: b64_ref.simps(2,3))

lemma b64pad_appends: "snd (b64pad atom buffer) = buffer @ snd (b64pad atom [])"
  by (simp add: b64pad_def Let_def)

section \<open>Properties\<close>

text \<open>
  \<open>mime.b64\<close> on a whole string computes the reference Base64 encoding, and nil exactly for
  the empty string.
\<close>

theorem b64_whole:
  "mime_global_b64 (Some s) None = (if s = [] then None else Some (b64_ref s), None)"
proof -
  have "snd (b64pad (drop (3 * (length s div 3)) s) (b64_ref (take (3 * (length s div 3)) s))) = b64_ref s"
    unfolding b64pad_appends [of _ "b64_ref _"] using b64_ref_split [of s] by simp
  then show ?thesis
    using b64_ref_head [of s] by (auto simp: mime_global_b64_def run_b64encode finished_def)
qed

text \<open>
  C34: called with two strings, \<open>mime.b64\<close> encodes the longest prefix of their concatenation whose
  length is a multiple of three and returns the remaining zero to two bytes unencoded, so the cut
  between the strings does not matter.
\<close>

theorem b64_incremental:
  "mime_global_b64 (Some C) (Some D) =
     (let n = 3 * (length (C @ D) div 3)
      in (Some (b64_ref (take n (C @ D))), Some (drop n (C @ D))))"
proof -
  have "run_atoms b64encode D (run_atoms b64encode C ([], [])) = run_atoms b64encode (C @ D) ([], [])"
    by (simp only: run_atoms_append)
  then show ?thesis
    using run_b64encode [of "C @ D" "[]"] run_b64encode [of C "[]"]
    by (simp add: mime_global_b64_def Let_def del: length_append)
qed

text \<open>
  C25: decoding inverts encoding: any text whose alphabet bytes are the encoding of \<open>s\<close> (line
  breaks and other foreign bytes may be interspersed, and the text may be cut in two anywhere)
  decodes to \<open>s\<close> with nothing left over.
\<close>

theorem unb64_inverts_b64:
  assumes "filter b64valid (C @ D) = b64_ref s"
  shows "mime_global_unb64 (Some C) (Some D) = (Some s, Some [])"
proof -
  have "run_atoms b64decode D (run_atoms b64decode C ([], [])) = run_atoms b64decode (C @ D) ([], [])"
    by (simp only: run_atoms_append)
  also have "\<dots> = ([], s)"
    using run_b64decode_filter [of "C @ D"] run_b64decode_ref [of s "[]"] assms by simp
  finally show ?thesis
    by (auto simp: mime_global_unb64_def split: prod.splits)
qed

theorem unb64_inverts_b64_witness:
  "mime_global_unb64 (Some (bytes ''TW'' @ CRLF)) (Some (bytes ''Fu'')) = (Some (bytes ''Man''), Some [])"
proof (rule unb64_inverts_b64)
  show "filter b64valid ((bytes ''TW'' @ CRLF) @ bytes ''Fu'') = b64_ref (bytes ''Man'')"
    by (simp add: b64valid_iff bytes_def CRLF_def CR_def LF_def EQ_def group_def quad_def b64base_eq)
qed

text \<open>
  when \<open>mime.unb64\<close> is called without a second argument, data that begins with a zero byte is
  lost: the test for an empty result looks at the first byte only, and nil is returned in place of
  the decoded string.
\<close>

theorem unb64_drops_leading_nul:
  "mime_global_unb64 (Some (b64_ref (0 # s))) None = (None, None)"
  using run_b64decode_ref [of "0 # s" "[]"] by (simp add: mime_global_unb64_def finished_def)

end
