(* ===== verification/MimeQp.thy ===== *)
theory MimeQp
  imports MimeStream
begin

text \<open>
  The quoted-printable part of \<open>lae/source/mime.c\<close>: the tables filled by \<open>qpsetup\<close>, the
  transducers \<open>qpencode\<close>, \<open>qppad\<close> and \<open>qpdecode\<close>, the Lua functions \<open>mime.qp\<close> and \<open>mime.unqp\<close>,
  and the line breaker \<open>mime.qpwrp\<close>.  The encoder is related to the decoder and to the line
  breaker through the tokens of a quoted-printable text.
\<close>

section \<open>Tables\<close>

datatype qp_class = QP_PLAIN | QP_QUOTED | QP_CR | QP_IF_LAST

definition qpclass :: "byte \<Rightarrow> qp_class" where
  "qpclass =
     (\<lambda>i. if 62 \<le> i \<and> i \<le> 126 then QP_PLAIN
          else if 33 \<le> i \<and> i \<le> 60 then QP_PLAIN else QP_QUOTED)
       (9 := QP_IF_LAST, 32 := QP_IF_LAST, 13 := QP_CR)"

definition qpunbase :: "byte \<Rightarrow> byte" where
  "qpunbase =
     (\<lambda>i. 255)
       (48 := 0, 49 := 1, 50 := 2, 51 := 3, 52 := 4, 53 := 5, 54 := 6, 55 := 7, 56 := 8,
        57 := 9, 65 := 10, 97 := 10, 66 := 11, 98 := 11, 67 := 12, 99 := 12, 68 := 13, 100 := 13,
        69 := 14, 101 := 14, 70 := 15, 102 := 15)"

definition qpbase :: "byte list" where
  "qpbase = [48, 49, 50, 51, 52, 53, 54, 55, 56, 57, 65, 66, 67, 68, 69, 70]"

definition EQUAL :: byte where "EQUAL = 61"

definition EQCRLF :: "byte list" where "EQCRLF = [EQUAL, CR, LF]"

section \<open>Transducers\<close>

definition qpquote :: "byte \<Rightarrow> byte list \<Rightarrow> byte list" where
  "qpquote c buffer = buffer @ [EQUAL, qpbase ! unat (drop_bit 4 c), qpbase ! unat (c AND 0x0F)]"

text \<open>The loop \<open>while (size > 0)\<close> of \<open>qpencode\<close>; shifting \<open>input\<close> is taking its tail.\<close>

fun qpencode_loop :: "byte list \<Rightarrow> byte list \<Rightarrow> byte list \<Rightarrow> byte list \<times> byte list" where
  "qpencode_loop marker [] buffer = ([], buffer)"
| "qpencode_loop marker (x # rest) buffer =
     (case qpclass x of
        QP_CR \<Rightarrow>
          (case rest of
             [] \<Rightarrow> ([x], buffer)
           | y # _ \<Rightarrow> if y = LF then ([], buffer @ marker)
                     else qpencode_loop marker rest (qpquote x buffer))
      | QP_IF_LAST \<Rightarrow>
          (case rest of
             y # z # _ \<Rightarrow> if y = CR \<and> z = LF then ([], qpquote x buffer @ marker)
                         else qpencode_loop marker rest (buffer @ [x])
           | _ \<Rightarrow> (x # rest, buffer))
      | QP_QUOTED \<Rightarrow> qpencode_loop marker rest (qpquote x buffer)
      | QP_PLAIN \<Rightarrow> qpencode_loop marker rest (buffer @ [x]))"

definition qpencode :: "byte list \<Rightarrow> byte \<Rightarrow> byte list \<Rightarrow> byte list \<Rightarrow> byte list \<times> byte list" where
  "qpencode marker c input buffer = qpencode_loop marker (input @ [c]) buffer"

fun qppad_loop :: "byte list \<Rightarrow> byte list \<Rightarrow> byte list" where
  "qppad_loop [] buffer = buffer"
| "qppad_loop (x # rest) buffer =
     qppad_loop rest (if qpclass x = QP_PLAIN then buffer @ [x] else qpquote x buffer)"

definition qppad :: "byte list \<Rightarrow> byte list \<Rightarrow> byte list" where
  "qppad input buffer = (if input \<noteq> [] then qppad_loop input buffer @ EQCRLF else qppad_loop input buffer)"

text \<open>\<open>qpdecode\<close> after \<open>input[size++] = c\<close>.\<close>

definition qpdecode_atom :: "byte list \<Rightarrow> byte list \<Rightarrow> byte list \<times> byte list" where
  "qpdecode_atom input buffer =
     (if input ! 0 = EQUAL then
        if length input < 3 then (input, buffer)
        else if input ! 1 = CR \<and> input ! 2 = LF then ([], buffer)
        else
          let hi = qpunbase (input ! 1); lo = qpunbase (input ! 2)
          in if hi > 15 \<or> lo > 15 then ([], buffer @ take 3 input)
             else ([], buffer @ [push_bit 4 hi + lo])
      else if input ! 0 = CR then
        if length input < 2 then (input, buffer)
        else if input ! 1 = LF then ([], buffer @ take 2 input)
        else ([], buffer)
      else if input ! 0 = 9 \<or> (31 < input ! 0 \<and> input ! 0 < 127) then ([], buffer @ [input ! 0])
      else ([], buffer))"

definition qpdecode :: "byte \<Rightarrow> byte list \<Rightarrow> byte list \<Rightarrow> byte list \<times> byte list" where
  "qpdecode c input buffer = qpdecode_atom (input @ [c]) buffer"

section \<open>The Lua functions\<close>

definition mime_global_qp :: "byte list option \<Rightarrow> byte list option \<Rightarrow> byte list option \<Rightarrow>
    byte list option \<times> byte list option" where
  "mime_global_qp C D mark =
     (case C of
        None \<Rightarrow> (None, None)
      | Some input \<Rightarrow>
          let marker = (case mark of None \<Rightarrow> CRLF | Some m \<Rightarrow> m);
              (atom, buffer) = run_atoms (qpencode marker) input ([], [])
          in case D of
               None \<Rightarrow> finished (qppad atom buffer)
             | Some input2 \<Rightarrow>
                 let (atom', buffer') = run_atoms (qpencode marker) input2 (atom, buffer)
                 in (Some buffer', Some atom'))"

definition mime_global_unqp ::
    "byte list option \<Rightarrow> byte list option \<Rightarrow> byte list option \<times> byte list option" where
  "mime_global_unqp C D =
     (case C of
        None \<Rightarrow> (None, None)
      | Some input \<Rightarrow>
          let (atom, buffer) = run_atoms qpdecode input ([], [])
          in case D of
               None \<Rightarrow> finished buffer
             | Some input2 \<Rightarrow>
                 let (atom', buffer') = run_atoms qpdecode input2 (atom, buffer)
                 in (Some buffer', Some atom'))"

text \<open>One round of the loop of \<open>mime_global_qpwrp\<close>; \<open>left\<close> is the room left on the current line.\<close>

definition qpwrp_step :: "int \<Rightarrow> byte \<Rightarrow> int \<Rightarrow> byte list \<Rightarrow> int \<times> byte list" where
  "qpwrp_step len c left buffer =
     (if c = CR then (left, buffer)
      else if c = LF then (len, buffer @ CRLF)
      else if c = EQUAL then
        (let (left, buffer) = (if left \<le> 3 then (len, buffer @ EQCRLF) else (left, buffer))
         in (left - 1, buffer @ [c]))
      else
        (let (left, buffer) = (if left \<le> 1 then (len, buffer @ EQCRLF) else (left, buffer))
         in (left - 1, buffer @ [c])))"

definition mime_global_qpwrp :: "int \<Rightarrow> byte list option \<Rightarrow> int option \<Rightarrow> byte list option \<times> int" where
  "mime_global_qpwrp left B length_opt =
     (let len = (case length_opt of None \<Rightarrow> 76 | Some n \<Rightarrow> n)
      in case B of
           None \<Rightarrow> (if left < len then Some EQCRLF else None, len)
         | Some input \<Rightarrow>
             let (left', buffer) = run_atoms (qpwrp_step len) input (left, [])
             in (Some buffer, left'))"

section \<open>Contracts of the transducers\<close>

lemma qpquote_appends: "qpquote c buffer = buffer @ qpquote c []"
  by (simp add: qpquote_def)

lemma qpencode_loop_appends:
  "qpencode_loop m xs buffer = (fst (qpencode_loop m xs []), buffer @ snd (qpencode_loop m xs []))"
proof (induction xs arbitrary: buffer)
  case (Cons x rest)
  note plain = Cons.IH [of "buffer @ [x]"] Cons.IH [of "[x]"]
  note quoted = Cons.IH [of "qpquote x buffer"] Cons.IH [of "qpquote x []"] qpquote_appends [of x buffer]
  show ?case
    using plain quoted by (cases "qpclass x") (auto split: list.splits)
qed simp

interpretation qp_enc: transducer "qpencode m" for m
  by unfold_locales (unfold qpencode_def, rule qpencode_loop_appends)

lemma qpdecode_atom_appends:
  "qpdecode_atom xs buffer = (fst (qpdecode_atom xs []), buffer @ snd (qpdecode_atom xs []))"
  unfolding qpdecode_atom_def Let_def by (simp split: if_split)

interpretation qp_dec: transducer qpdecode
  by unfold_locales (unfold qpdecode_def, rule qpdecode_atom_appends)

interpretation qp_wrp: transducer "qpwrp_step len" for len
  by unfold_locales (auto simp: qpwrp_step_def Let_def)

section \<open>Tokens\<close>

text \<open>
  A quoted-printable text is a sequence of tokens: a byte that stands for itself, a quoted byte,
  a line end of the text, and a soft line break that stands for nothing.
\<close>

datatype qp_token = Plain byte | Quoted byte | HardBreak | SoftBreak

fun render1 :: "qp_token \<Rightarrow> byte list" where
  "render1 (Plain c) = [c]"
| "render1 (Quoted c) = qpquote c []"
| "render1 HardBreak = CRLF"
| "render1 SoftBreak = EQCRLF"

fun meaning1 :: "qp_token \<Rightarrow> byte list" where
  "meaning1 (Plain c) = [c]"
| "meaning1 (Quoted c) = [c]"
| "meaning1 HardBreak = CRLF"
| "meaning1 SoftBreak = []"

fun plain_ok :: "qp_token \<Rightarrow> bool" where
  "plain_ok (Plain c) \<longleftrightarrow> qpclass c = QP_PLAIN \<or> qpclass c = QP_IF_LAST"
| "plain_ok _ \<longleftrightarrow> True"

definition render :: "qp_token list \<Rightarrow> byte list" where
  "render ts = concat (map render1 ts)"

definition meaning :: "qp_token list \<Rightarrow> byte list" where
  "meaning ts = concat (map meaning1 ts)"

definition tokens_ok :: "qp_token list \<Rightarrow> bool" where
  "tokens_ok ts \<longleftrightarrow> list_all plain_ok ts"

lemma token_simps [simp]:
  "render [] = []" "render (t # ts) = render1 t @ render ts" "render (ts @ us) = render ts @ render us"
  "meaning [] = []" "meaning (t # ts) = meaning1 t @ meaning ts" "meaning (ts @ us) = meaning ts @ meaning us"
  "tokens_ok []" "tokens_ok (t # ts) \<longleftrightarrow> plain_ok t \<and> tokens_ok ts"
  "tokens_ok (ts @ us) \<longleftrightarrow> tokens_ok ts \<and> tokens_ok us"
  by (simp_all add: render_def meaning_def tokens_ok_def)

subsection \<open>Quoted bytes\<close>

lemma hex_digits_check:
  "list_all (\<lambda>d. qpunbase (qpbase ! d) = word_of_nat d \<and> qpbase ! d \<notin> {CR, LF, EQUAL}) [0..<16]"
  by (simp add: qpbase_def qpunbase_def CR_def LF_def EQUAL_def upt_rec)

lemma hex_digit:
  assumes "d < 16"
  shows "qpunbase (qpbase ! d) = word_of_nat d" "qpbase ! d \<noteq> CR" "qpbase ! d \<noteq> LF" "qpbase ! d \<noteq> EQUAL"
  using hex_digits_check assms by (auto simp: list_all_iff)

lemma nibbles:
  fixes c :: byte
  shows "unat (drop_bit 4 c) < 16" "unat (c AND 0x0F) < 16"
    "push_bit 4 (word_of_nat (unat (drop_bit 4 c))) + word_of_nat (unat (c AND 0x0F)) = c"
proof -
  have lo: "unat (c AND 0x0F) = unat c mod 16"
    using unat_and_mask [of c 4] by (simp add: mask_eq_exp_minus_1)
  have hi: "unat (drop_bit 4 c) = unat c div 16" by (simp add: unat_drop_bit)
  show "unat (drop_bit 4 c) < 16" "unat (c AND 0x0F) < 16"
    unfolding lo hi using less_mult_imp_div_less [of "unat c" 16 16] by simp_all
  have "push_bit 4 (word_of_nat (unat c div 16)) + word_of_nat (unat c mod 16) =
      (word_of_nat (unat c div 16 * 16 + unat c mod 16) :: byte)"
    unfolding push_bit_eq_mult by (simp only: of_nat_add of_nat_mult) simp
  moreover have "word_of_nat (unat c div 16 * 16 + unat c mod 16) = c"
    unfolding div_mult_mod_eq by simp
  ultimately show "push_bit 4 (word_of_nat (unat (drop_bit 4 c))) + word_of_nat (unat (c AND 0x0F)) = c"
    unfolding lo hi by (rule trans)
qed

lemma plain_bytes:
  assumes "qpclass c = QP_PLAIN \<or> qpclass c = QP_IF_LAST"
  shows "c \<noteq> EQUAL" "c \<noteq> CR" "c \<noteq> LF" "c = 9 \<or> (31 < c \<and> c < 127)"
proof -
  have "c = 9 \<or> c = 32 \<or> (62 \<le> c \<and> c \<le> 126) \<or> (33 \<le> c \<and> c \<le> 60)" "c \<noteq> 13"
    using assms by (auto simp: qpclass_def split: if_splits)
  then show "c \<noteq> EQUAL" "c \<noteq> CR" "c \<noteq> LF" "c = 9 \<or> (31 < c \<and> c < 127)"
    by (auto simp: EQUAL_def CR_def LF_def word_le_nat_alt word_less_nat_alt)
qed

section \<open>The decoder reads tokens\<close>

lemma valid_nibble: "d < 16 \<Longrightarrow> \<not> (15 :: byte) < word_of_nat d"
  by (simp add: word_less_nat_alt unat_of_nat_small)

lemma run_qpdecode_token:
  assumes "plain_ok t"
  shows "run_atoms qpdecode (render1 t) ([], buffer) = ([], buffer @ meaning1 t)"
proof (cases t)
  case (Plain c)
  with assms plain_bytes [of c] show ?thesis by (simp add: qpdecode_def qpdecode_atom_def)
next
  case (Quoted c)
  let ?h = "qpbase ! unat (drop_bit 4 c)" and ?l = "qpbase ! unat (c AND 0x0F)"
  have "run_atoms qpdecode (render1 t) ([], buffer) = qpdecode ?l [EQUAL, ?h] buffer"
    by (simp add: Quoted qpquote_def qpdecode_def qpdecode_atom_def)
  also have "\<dots> = ([], buffer @ [c])"
    using hex_digit(1,2) [OF nibbles(1) [of c]] hex_digit(1) [OF nibbles(2) [of c]] nibbles(3) [of c]
      valid_nibble [OF nibbles(1) [of c]] valid_nibble [OF nibbles(2) [of c]]
    by (simp add: qpdecode_def qpdecode_atom_def Let_def del: of_nat_unat)
  finally show ?thesis by (simp add: Quoted)
next
  case HardBreak
  then show ?thesis by (simp add: qpdecode_def qpdecode_atom_def CRLF_def EQUAL_def CR_def LF_def)
next
  case SoftBreak
  then show ?thesis by (simp add: qpdecode_def qpdecode_atom_def EQCRLF_def)
qed

lemma run_qpdecode_tokens:
  "tokens_ok ts \<Longrightarrow> run_atoms qpdecode (render ts) ([], buffer) = ([], buffer @ meaning ts)"
  by (induction ts arbitrary: buffer) (simp_all add: run_atoms_append run_qpdecode_token)

section \<open>The encoder writes tokens\<close>

text \<open>
  What may be pending between two bytes: a carriage return that may begin a line end, or a blank
  followed by at most one byte.  The three-byte array \<open>atom\<close> therefore never overflows.
\<close>

definition qp_pending :: "byte list \<Rightarrow> bool" where
  "qp_pending atom \<longleftrightarrow>
     atom = [] \<or> atom = [CR] \<or> (\<exists>x. qpclass x = QP_IF_LAST \<and> (atom = [x] \<or> (\<exists>y. atom = [x, y])))"

text \<open>The encoder has consumed \<open>pre\<close> and written the tokens \<open>ts\<close> for it.\<close>

definition qp_wrote :: "byte list \<Rightarrow> byte list \<times> byte list \<Rightarrow> bool" where
  "qp_wrote input result \<longleftrightarrow>
     (\<exists>ts. snd result = render ts \<and> tokens_ok ts \<and> input = meaning ts @ fst result \<and>
           qp_pending (fst result))"

lemma qpclass_CR: "qpclass c = QP_CR \<longleftrightarrow> c = CR" "qpclass CR = QP_CR"
  by (simp_all add: qpclass_def CR_def)

lemma qp_wrote_emit:
  assumes "qp_wrote rest (qpencode_loop m rest [])" "plain_ok t" "meaning1 t = [x]"
  shows "qp_wrote (x # rest) (qpencode_loop m rest (render1 t))"
proof -
  from assms(1) obtain ts where "snd (qpencode_loop m rest []) = render ts" "tokens_ok ts"
    "rest = meaning ts @ fst (qpencode_loop m rest [])" "qp_pending (fst (qpencode_loop m rest []))"
    by (auto simp: qp_wrote_def)
  with assms(2,3) show ?thesis
    unfolding qp_wrote_def qpencode_loop_appends [of m rest "render1 t"]
    by (intro exI [of _ "t # ts"]) auto
qed

lemma qp_loop0: "qp_wrote [] (qpencode_loop m [] [])"
  by (auto simp: qp_wrote_def qp_pending_def intro!: exI [of _ "[]"])

lemma qp_loop1: "qp_wrote [x] (qpencode_loop CRLF [x] [])"
proof (cases "qpclass x")
  case QP_PLAIN
  then show ?thesis
    using qp_wrote_emit [OF qp_loop0 [of CRLF], of "Plain x" x] by simp
next
  case QP_QUOTED
  then show ?thesis
    using qp_wrote_emit [OF qp_loop0 [of CRLF], of "Quoted x" x] by simp
qed (auto simp: qp_wrote_def qp_pending_def qpclass_CR intro!: exI [of _ "[]"])

text \<open>Two bytes of which the first is not blank, as the loop meets them.\<close>

lemma qp_loop2: "qpclass x = QP_IF_LAST \<or> qp_wrote [x, y] (qpencode_loop CRLF [x, y] [])"
proof (cases "qpclass x")
  case QP_PLAIN
  then show ?thesis using qp_wrote_emit [OF qp_loop1 [of y], of "Plain x" x] by simp
next
  case QP_QUOTED
  then show ?thesis using qp_wrote_emit [OF qp_loop1 [of y], of "Quoted x" x] by simp
next
  case QP_CR
  show ?thesis
  proof (cases "y = LF")
    case True
    with QP_CR have "qp_wrote [x, y] ([], CRLF)"
      by (auto simp: qp_wrote_def qp_pending_def qpclass_CR CRLF_def intro!: exI [of _ "[HardBreak]"])
    with True QP_CR show ?thesis by simp
  next
    case False
    with QP_CR show ?thesis using qp_wrote_emit [OF qp_loop1 [of y], of "Quoted x" x] by simp
  qed
qed simp

lemma qp_loop2_any: "qp_wrote [x, y] (qpencode_loop CRLF [x, y] [])"
proof (cases "qpclass x = QP_IF_LAST")
  case True
  then show ?thesis by (auto simp: qp_wrote_def qp_pending_def intro!: exI [of _ "[]"])
qed (use qp_loop2 [of x y] in blast)

lemma qp_loop3:
  assumes "qpclass x = QP_IF_LAST"
  shows "qp_wrote [x, y, z] (qpencode_loop CRLF [x, y, z] [])"
proof (cases "y = CR \<and> z = LF")
  case True
  with assms show ?thesis
    by (auto simp: qp_wrote_def qp_pending_def CRLF_def intro!: exI [of _ "[Quoted x, HardBreak]"])
next
  case False
  with assms show ?thesis using qp_wrote_emit [OF qp_loop2_any [of y z], of "Plain x" x] by auto
qed

lemma qpencode_step:
  assumes "qp_pending atom"
  shows "qp_wrote (atom @ [c]) (qpencode CRLF c atom [])"
  using assms qp_loop1 [of c] qp_loop2_any qp_loop3
  by (auto simp: qp_pending_def qpencode_def simp del: qpencode_loop.simps)

lemma run_qpencode:
  assumes "qp_pending atom"
  shows "qp_wrote (atom @ cs) (run_atoms (qpencode CRLF) cs (atom, []))"
  using assms
proof (induction cs arbitrary: atom)
  case Nil
  then show ?case by (auto simp: qp_wrote_def intro!: exI [of _ "[]"])
next
  case (Cons c cs)
  from qpencode_step [OF Cons.prems, of c] obtain ts where
    ts: "snd (qpencode CRLF c atom []) = render ts" "tokens_ok ts"
      "atom @ [c] = meaning ts @ fst (qpencode CRLF c atom [])"
      "qp_pending (fst (qpencode CRLF c atom []))"
    by (auto simp: qp_wrote_def)
  from Cons.IH [OF ts(4)] obtain us where
    us: "snd (run_atoms (qpencode CRLF) cs (fst (qpencode CRLF c atom []), [])) = render us" "tokens_ok us"
      "fst (qpencode CRLF c atom []) @ cs =
        meaning us @ fst (run_atoms (qpencode CRLF) cs (fst (qpencode CRLF c atom []), []))"
      "qp_pending (fst (run_atoms (qpencode CRLF) cs (fst (qpencode CRLF c atom []), [])))"
    by (auto simp: qp_wrote_def)
  have "atom @ c # cs = meaning ts @ fst (qpencode CRLF c atom []) @ cs"
    using ts(3) by (metis append.assoc append_Cons append_Nil)
  with ts us show ?case
    unfolding qp_enc.run_Cons qp_wrote_def
    by (intro exI [of _ "ts @ us"]) (simp add: split_beta Let_def)
qed

lemma qppad_loop_tokens: "\<exists>ts. qppad_loop xs buffer = buffer @ render ts \<and> tokens_ok ts \<and> meaning ts = xs"
proof (induction xs arbitrary: buffer)
  case Nil
  then show ?case by (auto intro!: exI [of _ "[]"])
next
  case (Cons x xs)
  let ?t = "if qpclass x = QP_PLAIN then Plain x else Quoted x"
  obtain ts where "qppad_loop xs (buffer @ render1 ?t) = (buffer @ render1 ?t) @ render ts"
    "tokens_ok ts" "meaning ts = xs"
    using Cons.IH by blast
  then show ?case
    by (intro exI [of _ "?t # ts"]) (auto simp: qpquote_appends [of x buffer])
qed

lemma qppad_tokens: "\<exists>ts. qppad xs buffer = buffer @ render ts \<and> tokens_ok ts \<and> meaning ts = xs"
proof -
  obtain ts where ts: "qppad_loop xs buffer = buffer @ render ts" "tokens_ok ts" "meaning ts = xs"
    using qppad_loop_tokens by blast
  show ?thesis
  proof (cases "xs = []")
    case False
    with ts show ?thesis by (intro exI [of _ "ts @ [SoftBreak]"]) (simp add: qppad_def)
  qed (use ts in \<open>auto simp: qppad_def\<close>)
qed

text \<open>The whole encoding of a string.\<close>

definition qp_text :: "byte list \<Rightarrow> byte list" where
  "qp_text s = (let (atom, buffer) = run_atoms (qpencode CRLF) s ([], []) in qppad atom buffer)"

lemma qp_text_tokens:
  obtains ts where "qp_text s = render ts" "tokens_ok ts" "meaning ts = s"
proof -
  have "qp_wrote s (run_atoms (qpencode CRLF) s ([], []))"
    using run_qpencode [of "[]" s] by (simp add: qp_pending_def)
  then obtain ts where ts: "snd (run_atoms (qpencode CRLF) s ([], [])) = render ts" "tokens_ok ts"
    "s = meaning ts @ fst (run_atoms (qpencode CRLF) s ([], []))"
    by (auto simp: qp_wrote_def)
  obtain us where "qppad (fst (run_atoms (qpencode CRLF) s ([], []))) (render ts) = render ts @ render us"
    "tokens_ok us" "meaning us = fst (run_atoms (qpencode CRLF) s ([], []))"
    using qppad_tokens by blast
  with ts that [of "ts @ us"] show thesis
    by (simp add: qp_text_def split_beta Let_def)
qed

section \<open>The line breaker keeps tokens whole\<close>

text \<open>
  What \<open>qpwrp\<close> does with a piece of a well-formed text: it writes tokens with the same meaning,
  keeps every line within \<open>len\<close> bytes, and its counter is the room left on the current line.
\<close>

definition qp_wrapped :: "int \<Rightarrow> int \<Rightarrow> byte list \<Rightarrow> int \<times> byte list \<Rightarrow> bool" where
  "qp_wrapped len left sense result \<longleftrightarrow>
     (\<exists>ts. snd result = render ts \<and> tokens_ok ts \<and> meaning ts = sense) \<and>
     1 \<le> fst result \<and> fst result \<le> len \<and>
     line_col (nat len) (nat (len - left)) (snd result) = Some (nat (len - fst result))"

lemma line_bytes: "EQUAL \<noteq> CR" "EQUAL \<noteq> LF" "CR \<noteq> LF" "LF \<noteq> CR"
  by (simp_all add: EQUAL_def CR_def LF_def)

lemma qpwrp_plain:
  assumes "c \<noteq> CR" "c \<noteq> LF" "c \<noteq> EQUAL"
  shows "qpwrp_step len c left buffer =
    (if left \<le> 1 then (len - 1, buffer @ EQCRLF @ [c]) else (left - 1, buffer @ [c]))"
  using assms by (simp add: qpwrp_step_def)

lemma qpwrp_equal:
  "qpwrp_step len EQUAL left buffer =
    (if left \<le> 3 then (len - 1, buffer @ EQCRLF @ [EQUAL]) else (left - 1, buffer @ [EQUAL]))"
  by (simp add: qpwrp_step_def line_bytes)

lemma qpwrp_breaks:
  "qpwrp_step len CR left buffer = (left, buffer)" "qpwrp_step len LF left buffer = (len, buffer @ CRLF)"
  by (simp_all add: qpwrp_step_def line_bytes)

lemma qp_wrappedI:
  assumes "result = (left', render ts)" "tokens_ok ts" "meaning ts = sense" "1 \<le> left'" "left' \<le> len"
    "line_col (nat len) (nat (len - left)) (render ts) = Some (nat (len - left'))"
  shows "qp_wrapped len left sense result"
  using assms by (auto simp: qp_wrapped_def)

lemma line_col_byte:
  assumes "c \<noteq> CR" "c \<noteq> LF" "1 \<le> left" "left \<le> len"
  shows "line_col (nat len) (nat (len - left)) (c # cs) = line_col (nat len) (nat (len - (left - 1))) cs"
proof -
  have "Suc (nat (len - left)) = nat (len - (left - 1))" "nat (len - (left - 1)) \<le> nat len"
    using assms by arith+
  with assms show ?thesis by simp
qed

lemma line_col_start: "4 \<le> len \<Longrightarrow> j \<le> 3 \<Longrightarrow> Suc j \<le> nat len"
  by arith

lemma line_col_EQCRLF:
  assumes "1 \<le> left" "left \<le> len"
  shows "line_col (nat len) (nat (len - left)) (EQCRLF @ cs) = line_col (nat len) 0 cs"
  unfolding EQCRLF_def append_Cons by (subst line_col_byte) (use assms in \<open>simp_all add: line_bytes\<close>)

lemma qpwrp_token_plain:
  assumes "plain_ok (Plain c)" "4 \<le> len" "1 \<le> left" "left \<le> len"
  shows "qp_wrapped len left [c] (run_atoms (qpwrp_step len) [c] (left, []))"
proof -
  have c: "c \<noteq> EQUAL" "c \<noteq> CR" "c \<noteq> LF" using assms(1) plain_bytes(1-3) [of c] by auto
  show ?thesis
  proof (cases "left \<le> 1")
    case True
    with assms c show ?thesis
      by (intro qp_wrappedI [where ts = "[SoftBreak, Plain c]" and left' = "len - 1"])
        (simp_all add: qpwrp_plain line_col_EQCRLF line_col_start [where j = 0, simplified])
  next
    case False
    with assms c show ?thesis
      by (intro qp_wrappedI [where ts = "[Plain c]" and left' = "left - 1"])
        (simp_all add: qpwrp_plain line_col_byte del: line_col.simps(2))
  qed
qed

lemma qpwrp_token_quoted:
  assumes "4 \<le> len" "1 \<le> left" "left \<le> len"
  shows "qp_wrapped len left [c] (run_atoms (qpwrp_step len) (render1 (Quoted c)) (left, []))"
proof -
  note h = hex_digit(2-4) [OF nibbles(1) [of c]] and l = hex_digit(2-4) [OF nibbles(2) [of c]]
  note steps = qpwrp_equal qpwrp_plain [OF h] qpwrp_plain [OF l] qpquote_def
  show ?thesis
  proof (cases "left \<le> 3")
    case True
    have "line_col (nat len) 0 (qpquote c []) = Some (nat (len - (len - 3)))"
      using assms(1) line_bytes h l by (simp add: qpquote_def)
    with True assms show ?thesis
      by (intro qp_wrappedI [where ts = "[SoftBreak, Quoted c]" and left' = "len - 3"])
        (simp_all add: steps line_col_EQCRLF)
  next
    case False
    with assms show ?thesis
      by (intro qp_wrappedI [where ts = "[Quoted c]" and left' = "left - 3"])
        (simp_all add: steps line_col_byte [OF line_bytes(1,2)] line_col_byte [OF h(1,2)]
          line_col_byte [OF l(1,2)] del: line_col.simps(2))
  qed
qed

lemma qpwrp_token_breaks:
  assumes "4 \<le> len" "1 \<le> left" "left \<le> len"
  shows "qp_wrapped len left CRLF (run_atoms (qpwrp_step len) CRLF (left, []))"
    and "qp_wrapped len left [] (run_atoms (qpwrp_step len) EQCRLF (left, []))"
proof -
  show "qp_wrapped len left CRLF (run_atoms (qpwrp_step len) CRLF (left, []))"
    using assms
    by (intro qp_wrappedI [where ts = "[HardBreak]" and left' = len])
      (simp_all add: CRLF_def qpwrp_breaks line_bytes)
  have one: "line_col (nat len) 0 EQCRLF = Some 0"
    using assms by (simp add: EQCRLF_def line_bytes)
  show "qp_wrapped len left [] (run_atoms (qpwrp_step len) EQCRLF (left, []))"
  proof (cases "left \<le> 3")
    case True
    with assms one show ?thesis
      by (intro qp_wrappedI [where ts = "[SoftBreak, SoftBreak]" and left' = len])
        (simp_all add: line_col_EQCRLF, simp add: EQCRLF_def qpwrp_equal qpwrp_breaks CRLF_def)
  next
    case False
    with assms line_col_EQCRLF [of left len "[]"] show ?thesis
      by (intro qp_wrappedI [where ts = "[SoftBreak]" and left' = len])
        (simp_all, simp add: EQCRLF_def qpwrp_equal qpwrp_breaks CRLF_def)
  qed
qed

lemma qpwrp_token:
  assumes "plain_ok t" "4 \<le> len" "1 \<le> left" "left \<le> len"
  shows "qp_wrapped len left (meaning1 t) (run_atoms (qpwrp_step len) (render1 t) (left, []))"
  using assms qpwrp_token_plain qpwrp_token_quoted qpwrp_token_breaks by (cases t) auto

lemma run_qpwrp:
  assumes "tokens_ok ts" "4 \<le> len" "1 \<le> left" "left \<le> len"
  shows "qp_wrapped len left (meaning ts) (run_atoms (qpwrp_step len) (render ts) (left, []))"
  using assms(1,3,4)
proof (induction ts arbitrary: left)
  case Nil
  then show ?case by (auto simp: qp_wrapped_def intro!: exI [of _ "[]"])
next
  case (Cons t ts)
  define r1 where "r1 = run_atoms (qpwrp_step len) (render1 t) (left, [])"
  have "qp_wrapped len left (meaning1 t) r1"
    using qpwrp_token [of t len left] Cons.prems assms(2) by (simp add: r1_def)
  then obtain us where us: "snd r1 = render us" "tokens_ok us" "meaning us = meaning1 t"
    and r1: "1 \<le> fst r1" "fst r1 \<le> len"
      "line_col (nat len) (nat (len - left)) (snd r1) = Some (nat (len - fst r1))"
    by (auto simp: qp_wrapped_def)
  define r2 where "r2 = run_atoms (qpwrp_step len) (render ts) (fst r1, [])"
  have "qp_wrapped len (fst r1) (meaning ts) r2"
    using Cons r1 by (simp add: r2_def)
  then obtain vs where vs: "snd r2 = render vs" "tokens_ok vs" "meaning vs = meaning ts"
    and r2: "1 \<le> fst r2" "fst r2 \<le> len"
      "line_col (nat len) (nat (len - fst r1)) (snd r2) = Some (nat (len - fst r2))"
    by (auto simp: qp_wrapped_def)
  have "run_atoms (qpwrp_step len) (render (t # ts)) (left, []) = (fst r2, render (us @ vs))"
    using us vs by (simp add: qp_wrp.run_split r1_def r2_def split_beta Let_def)
  then show ?case
    using us vs r1 r2 by (intro qp_wrappedI [where ts = "us @ vs"]) (simp_all add: line_col_append)
qed

section \<open>Properties\<close>

lemma render_head:
  assumes "tokens_ok ts" "meaning ts \<noteq> []"
  shows "render ts \<noteq> [] \<and> hd (render ts) \<noteq> 0"
proof (cases ts)
  case (Cons t us)
  have "(0 :: byte) \<noteq> 9" "\<not> (31 :: byte) < 0" by simp_all
  then have "qpclass 0 = QP_QUOTED" by (simp add: qpclass_def)
  with Cons assms(1) show ?thesis
    by (cases t) (auto simp: qpquote_def CRLF_def EQCRLF_def EQUAL_def CR_def)
qed (use assms in simp)

lemma mime_global_qp_whole:
  assumes "s \<noteq> []"
  shows "mime_global_qp (Some s) None None = (Some (qp_text s), None)"
proof -
  obtain ts where ts: "qp_text s = render ts" "tokens_ok ts" "meaning ts = s" by (rule qp_text_tokens)
  with assms render_head [of ts] have "finished (qp_text s) = (Some (qp_text s), None)" by simp
  then show ?thesis by (simp add: mime_global_qp_def qp_text_def split_beta Let_def)
qed

lemma mime_global_unqp_tokens:
  assumes "tokens_ok ts" "C @ D = render ts"
  shows "mime_global_unqp (Some C) (Some D) = (Some (meaning ts), Some [])"
proof -
  have "run_atoms qpdecode D (run_atoms qpdecode C ([], [])) = ([], meaning ts)"
    using run_qpdecode_tokens [OF assms(1), of "[]"] by (simp flip: run_atoms_append add: assms(2))
  then show ?thesis by (simp add: mime_global_unqp_def split_beta Let_def)
qed

text \<open>
  C26: \<open>mime.qp\<close> encodes every non-empty string, and \<open>mime.unqp\<close> decodes the result, cut in two at
  any place, to the original string with nothing left over.
\<close>

theorem unqp_inverts_qp:
  assumes "s \<noteq> []"
  shows "\<exists>w. mime_global_qp (Some s) None None = (Some w, None) \<and>
    (\<forall>C D. C @ D = w \<longrightarrow> mime_global_unqp (Some C) (Some D) = (Some s, Some []))"
proof -
  obtain ts where "qp_text s = render ts" "tokens_ok ts" "meaning ts = s" by (rule qp_text_tokens)
  with mime_global_qp_whole [OF assms] mime_global_unqp_tokens [of ts] show ?thesis by auto
qed

theorem unqp_inverts_qp_witness:
  "\<exists>w. mime_global_qp (Some [9, 61, 0]) None None = (Some w, None) \<and>
    (\<forall>C D. C @ D = w \<longrightarrow> mime_global_unqp (Some C) (Some D) = (Some [9, 61, 0], Some []))"
  by (rule unqp_inverts_qp) simp

text \<open>
  while it encodes, the pending bytes fit the three-byte array with room for the next byte,
  whatever the input.
\<close>

theorem qp_atom_bounded:
  "length (fst (run_atoms (qpencode CRLF) s ([], []))) \<le> 2"
proof -
  have "qp_wrote s (run_atoms (qpencode CRLF) s ([], []))"
    using run_qpencode [of "[]" s] by (simp add: qp_pending_def)
  then show ?thesis by (auto simp: qp_wrote_def qp_pending_def)
qed

text \<open>
  C32: breaking an encoded text into lines of at least four bytes changes neither what it decodes
  to (no quoted byte is cut) nor lets a line exceed the limit; the number returned is the room
  left on the last line.
\<close>

theorem qpwrp_correct:
  assumes "s \<noteq> []" and "mime_global_qp (Some s) None None = (Some w, None)"
    and "4 \<le> len" and "1 \<le> left" and "left \<le> len"
  shows "\<exists>w' left'. mime_global_qpwrp left (Some w) (Some len) = (Some w', left') \<and>
    mime_global_unqp (Some w') (Some []) = (Some s, Some []) \<and>
    line_col (nat len) (nat (len - left)) w' = Some (nat (len - left')) \<and> 1 \<le> left' \<and> left' \<le> len"
proof -
  obtain ts where ts: "qp_text s = render ts" "tokens_ok ts" "meaning ts = s" by (rule qp_text_tokens)
  with assms(1,2) have w: "w = render ts" by (simp add: mime_global_qp_whole)
  from run_qpwrp [OF ts(2) assms(3-5)] obtain us where
    us: "snd (run_atoms (qpwrp_step len) w (left, [])) = render us" "tokens_ok us" "meaning us = s"
    and bounds: "1 \<le> fst (run_atoms (qpwrp_step len) w (left, []))"
      "fst (run_atoms (qpwrp_step len) w (left, [])) \<le> len"
      "line_col (nat len) (nat (len - left)) (snd (run_atoms (qpwrp_step len) w (left, [])))
        = Some (nat (len - fst (run_atoms (qpwrp_step len) w (left, []))))"
    by (auto simp: qp_wrapped_def w ts(3))
  have "mime_global_qpwrp left (Some w) (Some len) =
      (Some (render us), fst (run_atoms (qpwrp_step len) w (left, [])))"
    using us(1) by (simp add: mime_global_qpwrp_def split_beta Let_def)
  moreover have "mime_global_unqp (Some (render us)) (Some []) = (Some s, Some [])"
    using mime_global_unqp_tokens [OF us(2), of "render us" "[]"] us(3) by simp
  ultimately show ?thesis using bounds us(1) by auto
qed

theorem qpwrp_correct_witness:
  "\<exists>w' left'. mime_global_qpwrp 4 (fst (mime_global_qp (Some [65, 66, 67, 68, 61]) None None)) (Some 4)
      = (Some w', left') \<and>
    mime_global_unqp (Some w') (Some []) = (Some [65, 66, 67, 68, 61], Some []) \<and>
    line_col 4 0 w' = Some (nat (4 - left')) \<and> 1 \<le> left' \<and> left' \<le> 4"
  using qpwrp_correct [of "[65, 66, 67, 68, 61]" "qp_text [65, 66, 67, 68, 61]" 4 4]
  by (simp add: mime_global_qp_whole)

end
