(* ===== verification/MimeText.thy ===== *)
theory MimeText
  imports MimeStream
begin

text \<open>
  The line filters of \<open>lae/source/mime.c\<close>: \<open>mime.wrp\<close> breaks a text into lines, \<open>mime.eol\<close>
  normalises line ends and \<open>mime.dot\<close> stuffs dots for SMTP.
\<close>

section \<open>Definitions\<close>

text \<open>One round of the loop of \<open>mime_global_wrp\<close>.\<close>

definition wrp_step :: "int \<Rightarrow> byte \<Rightarrow> int \<Rightarrow> byte list \<Rightarrow> int \<times> byte list" where
  "wrp_step len c left buffer =
     (if c = CR then (left, buffer)
      else if c = LF then (len, buffer @ CRLF)
      else let (left, buffer) = (if left \<le> 0 then (len, buffer @ CRLF) else (left, buffer))
           in (left - 1, buffer @ [c]))"

definition mime_global_wrp :: "int \<Rightarrow> byte list option \<Rightarrow> int option \<Rightarrow> byte list option \<times> int" where
  "mime_global_wrp left B length_opt =
     (let len = (case length_opt of None \<Rightarrow> 76 | Some n \<Rightarrow> n)
      in case B of
           None \<Rightarrow> (if left < len then Some CRLF else None, len)
         | Some input \<Rightarrow>
             let (left', buffer) = run_atoms (wrp_step len) input (left, [])
             in (Some buffer, left'))"

definition eolcandidate :: "int \<Rightarrow> bool" where
  "eolcandidate c \<longleftrightarrow> c = 13 \<or> c = 10"

text \<open>The character is a (signed) \<open>char\<close> promoted to \<open>int\<close>.\<close>

definition eolprocess :: "byte list \<Rightarrow> byte \<Rightarrow> int \<Rightarrow> byte list \<Rightarrow> int \<times> byte list" where
  "eolprocess marker ch prev buffer =
     (let c = sint ch in
      if eolcandidate c then
        if eolcandidate prev then (0, if c = prev then buffer @ marker else buffer)
        else (c, buffer @ marker)
      else (0, buffer @ [ch]))"

definition mime_global_eol :: "int \<Rightarrow> byte list option \<Rightarrow> byte list option \<Rightarrow> byte list option \<times> int" where
  "mime_global_eol ctx B mark =
     (case B of
        None \<Rightarrow> (None, 0)
      | Some input \<Rightarrow>
          let marker = (case mark of None \<Rightarrow> CRLF | Some m \<Rightarrow> m);
              (ctx', buffer) = run_atoms (eolprocess marker) input (ctx, [])
          in (Some buffer, ctx'))"

definition DOT :: byte where "DOT = 46"

definition dot :: "byte \<Rightarrow> nat \<Rightarrow> byte list \<Rightarrow> nat \<times> byte list" where
  "dot c state buffer =
     (let buffer = buffer @ [c] in
      if c = CR then (1, buffer)
      else if c = LF then (if state = 1 then 2 else 0, buffer)
      else if c = DOT then (0, if state = 2 then buffer @ [DOT] else buffer)
      else (0, buffer))"

definition mime_global_dot :: "nat \<Rightarrow> byte list option \<Rightarrow> byte list option \<times> nat" where
  "mime_global_dot state B =
     (case B of
        None \<Rightarrow> (None, 2)
      | Some input \<Rightarrow>
          let (state', buffer) = run_atoms dot input (state, [])
          in (Some buffer, state'))"

interpretation wrp: transducer "wrp_step len" for len
  by unfold_locales (simp add: wrp_step_def)

interpretation eol: transducer "eolprocess m" for m
  by unfold_locales (simp add: eolprocess_def Let_def)

interpretation dot: transducer dot
  by unfold_locales (simp add: dot_def Let_def)

section \<open>Line breaking\<close>

definition not_break :: "byte \<Rightarrow> bool" where
  "not_break c \<longleftrightarrow> c \<noteq> CR \<and> c \<noteq> LF"

lemma wrp_run:
  assumes "0 < len" "0 \<le> left" "left \<le> len"
  shows "line_col (nat len) (nat (len - left)) (snd (run_atoms (wrp_step len) cs (left, [])))
      = Some (nat (len - fst (run_atoms (wrp_step len) cs (left, [])))) \<and>
    0 \<le> fst (run_atoms (wrp_step len) cs (left, [])) \<and> fst (run_atoms (wrp_step len) cs (left, [])) \<le> len \<and>
    filter not_break (snd (run_atoms (wrp_step len) cs (left, []))) = filter not_break cs"
  using assms(2,3)
proof (induction cs arbitrary: left)
  case (Cons c cs)
  have step: "line_col (nat len) (nat (len - left)) (snd (wrp_step len c left []))
      = Some (nat (len - fst (wrp_step len c left []))) \<and>
    0 \<le> fst (wrp_step len c left []) \<and> fst (wrp_step len c left []) \<le> len \<and>
    filter not_break (snd (wrp_step len c left [])) = filter not_break [c]"
  proof -
    have "Suc 0 \<le> nat len" "LF \<noteq> CR" using assms(1) by (auto simp: LF_def CR_def)
    moreover have "0 < left \<Longrightarrow> Suc (nat (len - left)) = nat (len - (left - 1)) \<and> nat (len - (left - 1)) \<le> nat len"
      using Cons.prems by arith
    ultimately show ?thesis
      using Cons.prems assms(1) by (auto simp: wrp_step_def not_break_def CRLF_def)
  qed
  show ?case
    using step Cons.IH [of "fst (wrp_step len c left [])"]
    unfolding wrp.run_Cons by (auto simp: split_beta Let_def line_col_append)
qed simp

section \<open>Line ends\<close>

text \<open>Line ends read in pairs: two equal ones are two line ends, two different ones are one.\<close>

fun eol_ref :: "byte list \<Rightarrow> byte list \<Rightarrow> byte list" where
  "eol_ref m [] = []"
| "eol_ref m [a] = (if not_break a then [a] else m)"
| "eol_ref m (a # b # xs) =
     (if not_break a then a # eol_ref m (b # xs)
      else if not_break b then m @ b # eol_ref m xs
      else (if a = b then m @ m else m) @ eol_ref m xs)"

lemma sint_breaks: "sint c = 13 \<longleftrightarrow> c = CR" "sint c = 10 \<longleftrightarrow> c = LF"
proof -
  have "sint CR = 13" "sint LF = 10" by (simp_all add: CR_def LF_def)
  then show "sint c = 13 \<longleftrightarrow> c = CR" "sint c = 10 \<longleftrightarrow> c = LF"
    by (metis signed_word_eqI)+
qed

lemma eolcandidate_sint: "eolcandidate (sint c) \<longleftrightarrow> \<not> not_break c"
  by (auto simp: eolcandidate_def sint_breaks not_break_def)

lemma eolprocess_cases:
  "not_break c \<Longrightarrow> eolprocess m c ctx [] = (0, [c])"
  "\<not> not_break c \<Longrightarrow> eolprocess m c 0 [] = (sint c, m)"
  "\<not> not_break a \<Longrightarrow> \<not> not_break b \<Longrightarrow> eolprocess m b (sint a) [] = (0, if a = b then m else [])"
  by (auto simp: eolprocess_def eolcandidate_sint eolcandidate_def [of 0] dest: signed_word_eqI)

lemma eol_run: "snd (run_atoms (eolprocess m) cs (0, [])) = eol_ref m cs"
proof (induction m cs rule: eol_ref.induct)
  case (2 m a)
  show ?case by (cases "not_break a") (simp_all add: eolprocess_cases)
next
  case (3 m a b xs)
  show ?case
  proof (cases "not_break a")
    case True
    with 3 show ?thesis by (simp only: eol.run_Cons [of m a]) (simp add: eolprocess_cases split_beta Let_def)
  next
    case False
    with 3 show ?thesis
      by (cases "not_break b")
        (simp_all only: eol.run_Cons, simp_all add: eolprocess_cases split_beta Let_def)
  qed
qed simp

lemma eol_ref_CRLF: "eol_ref CRLF (CRLF @ xs) = CRLF @ eol_ref CRLF xs"
  by (simp add: CRLF_def not_break_def CR_def LF_def)

lemma eol_ref_idem: "eol_ref CRLF (eol_ref CRLF cs) = eol_ref CRLF cs"
proof -
  have head: "eol_ref CRLF (a # xs) = a # eol_ref CRLF xs" if "not_break a" for a xs
    using that by (cases xs) auto
  have "eol_ref m (eol_ref m cs) = eol_ref m cs" if "m = CRLF" for m
    using that
  proof (induction m cs rule: eol_ref.induct)
    case (2 m a)
    then show ?case using eol_ref_CRLF [of "[]"] by auto
  next
    case (3 m a b xs)
    then show ?case by (auto simp: head eol_ref_CRLF)
  qed simp
  then show ?thesis by simp
qed

section \<open>Dot stuffing\<close>

text \<open>
  The receiver's side of SMTP transparency: a dot that begins a line is removed, and a line that
  is a single dot ends the mail (\<open>None\<close>).  The state is 1 after a carriage return, 2 at the
  beginning of a line and 0 elsewhere.
\<close>

definition line_state :: "byte \<Rightarrow> nat \<Rightarrow> nat" where
  "line_state c state = (if c = CR then 1 else if c = LF \<and> state = 1 then 2 else 0)"

fun undot :: "nat \<Rightarrow> byte list \<Rightarrow> byte list option" where
  "undot state [] = Some []"
| "undot state [c] = (if state = 2 \<and> c = DOT then None else Some [c])"
| "undot state (c # d # cs) =
     (if state = 2 \<and> c = DOT then
        if d = CR \<and> cs \<noteq> [] \<and> hd cs = LF then None
        else map_option ((#) d) (undot (line_state d 0) cs)
      else map_option ((#) c) (undot (line_state c state) (d # cs)))"

lemma undot_Cons: "\<not> (state = 2 \<and> c = DOT) \<Longrightarrow>
    undot state (c # cs) = map_option ((#) c) (undot (line_state c state) cs)"
  by (cases cs) auto

lemma dot_eq: "dot c state [] = (line_state c state, if state = 2 \<and> c = DOT then [DOT, DOT] else [c])"
  by (auto simp: dot_def Let_def line_state_def DOT_def CR_def LF_def)

lemma undot_dot: "undot state (snd (run_atoms dot cs (state, []))) = Some cs"
proof (induction cs arbitrary: state)
  case (Cons c cs)
  have "DOT \<noteq> CR" by (simp add: DOT_def CR_def)
  with Cons [of "line_state c state"] show ?case
    unfolding dot.run_Cons
    by (cases "state = 2 \<and> c = DOT")
      (auto simp: dot_eq split_beta Let_def undot_Cons line_state_def)
qed simp

section \<open>Properties\<close>

text \<open>
  \<open>mime.wrp\<close> breaks a text into lines of at most \<open>len\<close> bytes, keeps every byte that is not
  part of a line break in its order, and returns the room left on the last line.
\<close>

theorem wrp_correct:
  assumes "0 < len" and "0 \<le> left" and "left \<le> len"
  shows "\<exists>out left'. mime_global_wrp left (Some s) (Some len) = (Some out, left') \<and>
    line_col (nat len) (nat (len - left)) out = Some (nat (len - left')) \<and> 0 \<le> left' \<and> left' \<le> len \<and>
    filter not_break out = filter not_break s"
  using wrp_run [OF assms, of s] by (auto simp: mime_global_wrp_def split_beta Let_def)

theorem wrp_correct_witness:
  "\<exists>out left'. mime_global_wrp 2 (Some [65, 66, 67, 10, 68]) (Some 2) = (Some out, left') \<and>
    line_col 2 0 out = Some (nat (2 - left')) \<and> 0 \<le> left' \<and> left' \<le> 2 \<and>
    filter not_break out = [65, 66, 67, 68]"
  using wrp_correct [of 2 2 "[65, 66, 67, 10, 68]"] by (simp add: not_break_def CR_def LF_def)

text \<open>
  started in the neutral context, \<open>mime.eol\<close> replaces line ends pair by pair as the reference
  does, and a second pass with the default marker changes nothing.
\<close>

theorem eol_correct:
  "fst (mime_global_eol 0 (Some s) (Some m)) = Some (eol_ref m s) \<and>
   (\<exists>t. fst (mime_global_eol 0 (Some s) None) = Some t \<and> fst (mime_global_eol 0 (Some t) None) = Some t)"
proof -
  have "fst (mime_global_eol 0 (Some t) mark) =
      Some (eol_ref (case mark of None \<Rightarrow> CRLF | Some m \<Rightarrow> m) t)" for t mark
    by (simp add: mime_global_eol_def split_beta Let_def eol_run)
  then show ?thesis by (simp add: eol_ref_idem)
qed

text \<open>
  C33: dot stuffing is transparent: a receiver that starts at the beginning of a line never sees
  the end-of-mail line inside the stuffed text and recovers exactly the original, also when the
  text is stuffed in two pieces with the state carried over.
\<close>

theorem dot_transparent:
  "(case mime_global_dot 2 (Some C) of (out1, state) \<Rightarrow>
      case mime_global_dot state (Some D) of (out2, _) \<Rightarrow>
        undot 2 (the out1 @ the out2)) = Some (C @ D)"
proof -
  have "snd (run_atoms dot (C @ D) (2, [])) =
      snd (run_atoms dot C (2, [])) @ snd (run_atoms dot D (fst (run_atoms dot C (2, [])), []))"
    by (simp add: dot.run_split split_beta Let_def)
  with undot_dot [of 2 "C @ D"] show ?thesis
    by (simp add: mime_global_dot_def split_beta Let_def)
qed

end
