(* ===== verification/CLib.thy ===== *)
theory CLib
  imports Prelude
begin

text \<open>
  The functions of the C library that the sources call on text, written out for the C locale: lengths,
  comparison and search of strings, lower case, decimal numbers.  A C string is a list of bytes that ends at
  its first zero; a block without a zero is read past its end, which is a fault.  The functions on
  contents take the bytes before the terminator.
\<close>

section \<open>Strings\<close>

definition strlen :: "byte list \<Rightarrow> c_fault + nat" where
  "strlen str = (if 0 \<in> set str then Inr (length (takeWhile (\<lambda>c. c \<noteq> 0) str)) else Inl OutOfBounds)"

text \<open>The text of a C string, and where a needle first occurs in a text.\<close>

definition c_string :: "byte list \<Rightarrow> c_fault + byte list" where
  "c_string cells = bindE (strlen cells) (\<lambda>n. Inr (take n cells))"

fun strstr :: "byte list \<Rightarrow> byte list \<Rightarrow> nat option" where
  "strstr [] needle = (if needle = [] then Some 0 else None)"
| "strstr (c # cs) needle =
     (if take (length needle) (c # cs) = needle then Some 0 else map_option Suc (strstr cs needle))"

definition tolower :: "byte \<Rightarrow> byte" where
  "tolower c = (if 65 \<le> c \<and> c \<le> 90 then c + 32 else c)"

section \<open>Numbers\<close>

fun dec_digits :: "nat \<Rightarrow> string" where
  "dec_digits n = (if n < 10 then [char_of (48 + n)] else dec_digits (n div 10) @ [char_of (48 + n mod 10)])"

declare dec_digits.simps [simp del]

definition show_int :: "int \<Rightarrow> string" where
  "show_int i = (if i < 0 then CHR ''-'' # dec_digits (nat (- i)) else dec_digits (nat i))"

fun skip_space :: "string \<Rightarrow> string" where
  "skip_space (c # cs) = (if c \<in> set [CHR '' '', CHR 0x09, CHR 0x0A, CHR 0x0B, CHR 0x0C, CHR 0x0D] then skip_space cs else c # cs)"
| "skip_space [] = []"

definition is_digit :: "char \<Rightarrow> bool" where
  "is_digit c \<longleftrightarrow> 48 \<le> (of_char c :: nat) \<and> (of_char c :: nat) \<le> 57"

fun digits_value :: "int \<Rightarrow> string \<Rightarrow> int" where
  "digits_value n (c # cs) = (if is_digit c then digits_value (n * 10 + (of_char c - 48)) cs else n)"
| "digits_value n [] = n"

text \<open>Bytes read as characters.\<close>

definition chars :: "byte list \<Rightarrow> string" where
  "chars s = map (\<lambda>b. char_of (unat b)) s"

text \<open>The number at the start of a text, and the conversions to \<open>long long\<close>, \<open>long\<close> and \<open>int\<close>: a value out of range is
  undefined.\<close>

definition decimal :: "string \<Rightarrow> int" where
  "decimal s =
     (let t = skip_space s in
      case t of
        c # cs \<Rightarrow> if c = CHR ''-'' then - digits_value 0 cs
                   else if c = CHR ''+'' then digits_value 0 cs else digits_value 0 t
      | [] \<Rightarrow> 0)"

definition atoll :: "string \<Rightarrow> c_fault + u64" where
  "atoll s =
     (let n = decimal s in
      if - 9223372036854775808 \<le> n \<and> n \<le> 9223372036854775807 then Inr (word_of_int n) else Inl SignedOverflow)"

definition atoi :: "byte list \<Rightarrow> c_fault + u32" where
  "atoi s = (let n = decimal (chars s) in if fits_int n then Inr (word_of_int n) else Inl SignedOverflow)"

section \<open>Laws\<close>

lemma c_string_ok [simp]: "0 \<notin> set s \<Longrightarrow> c_string (s @ 0 # rest) = Inr s"
proof -
  assume "0 \<notin> set s"
  then have "takeWhile (\<lambda>c. c \<noteq> 0) (s @ 0 # rest) = s" by (metis (mono_tags, lifting) takeWhile_append_stop takeWhile_eq_all_conv)
  then show ?thesis by (simp add: c_string_def strlen_def)
qed

lemma c_string_InrD: "c_string cells = Inr s \<Longrightarrow> 0 \<notin> set s \<and> (\<exists>rest. cells = s @ 0 # rest)"
proof -
  let ?s = "takeWhile (\<lambda>c. c \<noteq> 0) cells"
  assume c: "c_string cells = Inr s"
  then have z: "0 \<in> set cells" and s: "s = ?s"
    by (auto simp: c_string_def strlen_def takeWhile_eq_take [symmetric] split: if_splits)
  obtain xs ys where xy: "cells = xs @ 0 # ys" "0 \<notin> set xs" using split_list_first [OF z] by blast
  then have "?s = xs" by (metis (mono_tags, lifting) takeWhile_append_stop takeWhile_eq_all_conv)
  with xy s show ?thesis by auto
qed

lemma strstr_Some:
  "strstr s needle = Some n \<Longrightarrow> n + length needle \<le> length s \<and> take (length needle) (drop n s) = needle"
proof (induction s needle arbitrary: n rule: strstr.induct)
  case (2 c cs needle)
  have "length needle \<le> length s" if "take (length needle) s = needle" for s :: "byte list"
    using that by (metis length_take min.cobounded1)
  from this [of "c # cs"] 2 show ?case by (fastforce split: if_splits)
qed (auto split: if_splits)

lemma strstr_None_iff: "needle \<noteq> [] \<Longrightarrow> strstr s needle = None \<longleftrightarrow> (\<forall>i. take (length needle) (drop i s) \<noteq> needle)"
proof (induction s needle rule: strstr.induct)
  case (2 c cs needle)
  have "(\<forall>i. take (length needle) (drop i (c # cs)) \<noteq> needle) \<longleftrightarrow>
      take (length needle) (c # cs) \<noteq> needle \<and> (\<forall>i. take (length needle) (drop i cs) \<noteq> needle)"
    by (metis drop0 drop_Suc_Cons not0_implies_Suc)
  with 2 show ?case by simp
qed simp

text \<open>A needle whose first byte does not occur before it is found at once.\<close>

lemma strstr_first:
  "n \<notin> set s \<Longrightarrow> strstr (s @ (n # ns) @ t) (n # ns) = Some (length s)"
  by (induction s) (auto simp: take_Cons')

lemma strstr_absent: "n \<notin> set s \<Longrightarrow> strstr s (n # ns) = None"
  by (induction s) (auto simp: take_Cons')

lemma is_digit_char: "d < 10 \<Longrightarrow> is_digit (char_of (48 + d :: nat)) \<and> of_char (char_of (48 + d :: nat)) = (48 + int d)"
proof
  assume d: "d < 10"
  then have "of_char (char_of (48 + d)) = 48 + d" by (simp add: take_bit_nat_eq_self)
  then show "of_char (char_of (48 + d)) = 48 + int d" by (metis of_nat_add of_nat_numeral of_nat_of_char)
qed (simp add: is_digit_def)

lemma digits_value_snoc:
  "list_all is_digit ds \<Longrightarrow> is_digit c \<Longrightarrow> digits_value n (ds @ [c]) = digits_value n ds * 10 + (of_char c - 48)"
  by (induction ds arbitrary: n) auto

lemma dec_digits_value: "list_all is_digit (dec_digits n) \<and> dec_digits n \<noteq> [] \<and> digits_value 0 (dec_digits n) = int n"
proof (induction n rule: less_induct)
  case (less n)
  show ?case
  proof (cases "n < 10")
    case True
    then show ?thesis by (subst (1 2 3) dec_digits.simps) (simp add: is_digit_char)
  next
    case False
    then have ih: "list_all is_digit (dec_digits (n div 10))" "digits_value 0 (dec_digits (n div 10)) = int (n div 10)"
      using less [of "n div 10"] by auto
    have d: "is_digit (char_of (48 + n mod 10))" "of_char (char_of (48 + n mod 10)) = (48 + int (n mod 10))"
      using is_digit_char [of "n mod 10"] by simp_all
    have "n div 10 * 10 + n mod 10 = n" by simp
    then have "int (n div 10) * 10 + int (n mod 10) = int n" by (metis of_nat_add of_nat_mult of_nat_numeral)
    then show ?thesis using False ih d by (subst (1 2 3) dec_digits.simps) (simp add: digits_value_snoc)
  qed
qed

lemma decimal_show_int: "decimal (show_int i) = i"
proof -
  have digit: "decimal ds = digits_value 0 ds" if "list_all is_digit ds" "ds \<noteq> []" for ds
    using that by (cases ds) (auto simp: decimal_def is_digit_def)
  have minus: "decimal (CHR ''-'' # ds) = - digits_value 0 ds" for ds
    by (simp add: decimal_def)
  show ?thesis
    using dec_digits_value [of "nat i"] dec_digits_value [of "nat (- i)"] digit minus by (simp add: show_int_def)
qed

lemma strlen_terminated: "0 \<notin> set s \<Longrightarrow> strlen (s @ 0 # zs) = Inr (length s)"
  by (simp add: strlen_def takeWhile_append2 [of s "\<lambda>c. c \<noteq> 0"])
    (metis (mono_tags, lifting) append_Nil2 takeWhile.simps(2) takeWhile_append2)

lemma c_string_terminated: "0 \<notin> set s \<Longrightarrow> c_string (s @ 0 # zs) = Inr s"
  by (simp add: c_string_def strlen_terminated)

lemma dec_digits_length: "n < 10 ^ k \<Longrightarrow> 0 < k \<Longrightarrow> length (dec_digits n) \<le> k"
proof (induction k arbitrary: n)
  case (Suc k)
  show ?case
  proof (cases "n < 10")
    case True
    then show ?thesis by (simp add: dec_digits.simps [of n])
  next
    case False
    then have "0 < k" "n div 10 < 10 ^ k" using Suc.prems by (cases k; simp)+
    with Suc.IH False show ?thesis by (subst dec_digits.simps) simp
  qed
qed simp

lemma digit_not_zero: "is_digit c \<Longrightarrow> (of_char c :: byte) \<noteq> 0"
proof -
  assume c: "is_digit c"
  have "(of_char c :: byte) = word_of_nat (of_char c)" by (simp add: of_nat_of_char)
  moreover have "unat (word_of_nat (of_char c) :: byte) = of_char c"
    using c unat_of_nat_small [of "of_char c", where ?'a = 8] by (simp add: is_digit_def)
  ultimately show ?thesis using c by (auto simp: is_digit_def)
qed

lemma show_int_no_zero: "0 \<notin> set (bytes (show_int i))"
proof -
  have "0 \<notin> set (bytes (dec_digits n))" for n
    using dec_digits_value [of n] digit_not_zero by (fastforce simp: bytes_def list_all_iff)
  then show ?thesis by (simp add: show_int_def bytes_def of_char_def)
qed

end
