(* ===== verification/LuaValue.thy ===== *)
theory LuaValue
  imports Complex_Main CLib
begin

text \<open>
  What the C sources use of the C library's numbers and of the Lua API.  A \<open>double\<close> is a rational,
  an infinity or not a number (the two zeros are one value).  A Lua value is a tree: a table is
  the list of its entries in the order in which \<open>lua_next\<close> visits them, so a table that contains
  itself is not representable.  \<open>lua_rawset\<close> replaces the entry of a key or adds one.
\<close>

section \<open>Numbers\<close>

datatype c_double = Finite rat | Infinite bool | NaN

definition is_nan :: "c_double \<Rightarrow> bool" where
  "is_nan x \<longleftrightarrow> x = NaN"

definition is_inf :: "c_double \<Rightarrow> bool" where
  "is_inf x \<longleftrightarrow> x \<noteq> NaN \<and> (\<forall>r. x \<noteq> Finite r)"

lemma is_inf_code [code]:
  "is_inf (Finite r) = False" "is_inf (Infinite b) = True" "is_inf NaN = False"
  by (auto simp: is_inf_def)

definition double_of_int :: "int \<Rightarrow> c_double" where
  "double_of_int i = Finite (of_int i)"

text \<open>Conversion of a \<open>size_t\<close> or \<open>long\<close> value to \<open>int\<close> keeps the low 32 bits.\<close>

definition to_int :: "int \<Rightarrow> int" where
  "to_int x = (x + 2147483648) mod 4294967296 - 2147483648"

lemma to_int_id: "fits_int x \<Longrightarrow> to_int x = x"
  by (simp add: to_int_def fits_int_def INT_MIN_def INT_MAX_def)

section \<open>Values\<close>

datatype lua_value =
    LNil
  | LBool bool
  | LNumber c_double
  | LString "byte list"
  | LLightUserdata bool \<comment> \<open>whether the pointer is null\<close>
  | LTable "(lua_value \<times> lua_value) list"
  | LFunction
  | LUserdata
  | LThread

type_synonym lua_entries = "(lua_value \<times> lua_value) list"

definition lua_typename :: "lua_value \<Rightarrow> string" where
  "lua_typename v =
     (case v of
        LNil \<Rightarrow> ''nil'' | LBool _ \<Rightarrow> ''boolean'' | LNumber _ \<Rightarrow> ''number'' | LString _ \<Rightarrow> ''string''
      | LLightUserdata _ \<Rightarrow> ''userdata'' | LTable _ \<Rightarrow> ''table'' | LFunction \<Rightarrow> ''function''
      | LUserdata \<Rightarrow> ''userdata'' | LThread \<Rightarrow> ''thread'')"

definition lua_toboolean :: "lua_value \<Rightarrow> bool" where
  "lua_toboolean v \<longleftrightarrow> v \<noteq> LNil \<and> v \<noteq> LBool False"

fun lua_rawget :: "lua_entries \<Rightarrow> lua_value \<Rightarrow> lua_value" where
  "lua_rawget [] k = LNil"
| "lua_rawget ((k', v) # es) k = (if k' = k then v else lua_rawget es k)"

fun lua_rawset :: "lua_entries \<Rightarrow> lua_value \<Rightarrow> lua_value \<Rightarrow> lua_entries" where
  "lua_rawset [] k v = [(k, v)]"
| "lua_rawset ((k', v') # es) k v = (if k' = k then (k, v) # es else (k', v') # lua_rawset es k v)"

definition lua_index :: "int \<Rightarrow> lua_value" where
  "lua_index i = LNumber (double_of_int i)"

lemma lua_index_inject [simp]: "lua_index i = lua_index j \<longleftrightarrow> i = j"
  by (simp add: lua_index_def double_of_int_def)

lemma lua_rawget_rawset: "lua_rawget (lua_rawset es k v) k' = (if k = k' then v else lua_rawget es k')"
  by (induction es k v rule: lua_rawset.induct) auto

lemma lua_rawset_fresh: "k \<notin> fst ` set es \<Longrightarrow> lua_rawset es k v = es @ [(k, v)]"
  by (induction es k v rule: lua_rawset.induct) auto

lemma lua_rawget_fresh: "k \<notin> fst ` set es \<Longrightarrow> lua_rawget es k = LNil"
  by (induction es k rule: lua_rawget.induct) auto

lemma lua_rawget_in:
  "distinct (map fst es) \<Longrightarrow> (k, v) \<in> set es \<Longrightarrow> lua_rawget es k = v"
  by (induction es k rule: lua_rawget.induct) force+

lemma lua_rawget_size: "size (lua_rawget es k) \<le> size_list (size_prod size size) es"
  by (induction es k rule: lua_rawget.induct) auto

section \<open>The Lua library\<close>

text \<open>
  The auxiliary library is not part of the repository.  \<open>luaL_checkinteger\<close> and \<open>luaL_checkstring\<close>
  give the converted argument or \<open>None\<close> where they raise; \<open>lua_checkstack\<close> tells, at a nesting
  depth, whether the stack can grow by a number of slots.
\<close>

record lua_api =
  luaL_checkinteger :: "lua_value \<Rightarrow> int option"
  luaL_checkstring :: "lua_value \<Rightarrow> byte list option"
  lua_checkstack :: "int \<Rightarrow> int \<Rightarrow> bool"

end
