(* ===== verification/Fpconv.thy ===== *)
theory Fpconv
  imports LuaValue
begin

text \<open>
  The number conversions of \<open>lae/source/fpconv.c\<close>: between a \<open>double\<close> and its text, with a full
  stop as the decimal separator whatever the locale.  \<open>snprintf\<close> and \<open>strtod\<close> are the C
  library's: what \<open>snprintf\<close> prints for a format and a number, and what \<open>strtod\<close> reads at the
  start of a zero-terminated string (the value and the number of bytes it consumed), are the
  fields of the parameter \<open>c_numlib\<close>.
\<close>

record c_numlib =
  snprintf_g :: "byte list \<Rightarrow> c_double \<Rightarrow> byte list"
  strtod :: "byte list \<Rightarrow> c_double \<times> nat"

definition FPCONV_G_FMT_BUFSIZE :: nat where
  "FPCONV_G_FMT_BUFSIZE = 32"

section \<open>The locale's decimal point\<close>

text \<open>\<open>snprintf\<close> stores at most \<open>size - 1\<close> bytes and a zero; the rest of the array is indeterminate.\<close>

definition fpconv_update_locale :: "c_heap \<Rightarrow> c_numlib \<Rightarrow> c_fault + byte" where
  "fpconv_update_locale h lib =
     (let out = snprintf_g lib (bytes ''%g'') (Finite (1 / 2));
          stored = take 7 out @ [0];
          buf = stored @ map (fresh h) [length stored..<8]
      in if buf ! 0 \<noteq> 48 \<or> buf ! 2 \<noteq> 53 \<or> buf ! 3 \<noteq> 0
         then Inl (Die ''Error: wide characters found or printf() bug.'')
         else Inr (buf ! 1))"

definition fpconv_init :: "c_heap \<Rightarrow> c_numlib \<Rightarrow> c_fault + byte" where
  "fpconv_init h lib = fpconv_update_locale h lib"

section \<open>Reading a number\<close>

definition valid_number_character :: "byte \<Rightarrow> bool" where
  "valid_number_character ch \<longleftrightarrow>
     (48 \<le> sint ch \<and> sint ch \<le> 57) \<or> ch = 45 \<or> ch = 43 \<or> ch = 46 \<or>
     (97 \<le> sint (ch OR 0x20) \<and> sint (ch OR 0x20) \<le> 121)"

definition strtod_buffer_size :: "byte list \<Rightarrow> nat" where
  "strtod_buffer_size s = length (takeWhile valid_number_character s)"

text \<open>\<open>strchr(buf, '.')\<close> and the store through the pointer it returns, if any.\<close>

fun replace_first :: "byte \<Rightarrow> byte \<Rightarrow> byte list \<Rightarrow> byte list" where
  "replace_first a b [] = []"
| "replace_first a b (c # cs) = (if c = a then b # cs else c # replace_first a b cs)"

definition fpconv_strtod :: "c_heap \<Rightarrow> c_numlib \<Rightarrow> byte \<Rightarrow> byte list \<Rightarrow> c_fault + (c_double \<times> nat)" where
  "fpconv_strtod h lib locale_decimal_point nptr =
     (if locale_decimal_point = 46 then Inr (strtod lib nptr)
      else
        let buflen = strtod_buffer_size nptr in
        if buflen = 0 then Inr (Finite 0, 0)
        else if buflen \<ge> FPCONV_G_FMT_BUFSIZE \<and> \<not> can_alloc h (int buflen + 1)
        then Inl (Die ''Out of memory'')
        else Inr (strtod lib (replace_first 46 locale_decimal_point (take buflen nptr) @ [0])))"

section \<open>Printing a number\<close>

definition set_number_format :: "int \<Rightarrow> c_fault + byte list" where
  "set_number_format precision =
     (if \<not> (1 \<le> precision \<and> precision \<le> 14) then Inl (Die ''assert'')
      else
        let d1 = cdiv precision 10; d2 = cmod precision 10 in
        Inr ([37, 46] @ (if d1 \<noteq> 0 then [48 + word_of_int d1] else []) @ [48 + word_of_int d2, 103]))"

text \<open>
  The bytes stored at \<open>str\<close>, the terminating zero included, and the return value.  In the second
  case the copying loop ends at the zero that \<open>snprintf\<close> stored in \<open>buf\<close>.
\<close>

definition fpconv_g_fmt :: "c_numlib \<Rightarrow> byte \<Rightarrow> c_double \<Rightarrow> int \<Rightarrow> c_fault + (byte list \<times> int)" where
  "fpconv_g_fmt lib locale_decimal_point num precision =
     bindE (set_number_format precision) (\<lambda>fmt.
       let out = snprintf_g lib fmt num;
           stored = take (FPCONV_G_FMT_BUFSIZE - 1) out
       in if locale_decimal_point = 46 then Inr (stored @ [0], int (length out))
          else Inr (map (\<lambda>b. if b = locale_decimal_point then 46 else b)
                      (takeWhile (\<lambda>b. b \<noteq> 0) stored) @ [0], int (length out)))"

section \<open>Facts\<close>

text \<open>
  What the C library promises of \<open>snprintf\<close> with \<open>%.{p}g\<close>, \<open>p \<le> 14\<close>: at most 21 characters, none
  of them zero.
\<close>

definition g_fmt_ok :: "c_numlib \<Rightarrow> bool" where
  "g_fmt_ok lib \<longleftrightarrow> (\<forall>fmt x. length (snprintf_g lib fmt x) < 32 \<and> 0 \<notin> set (snprintf_g lib fmt x))"

text \<open>The text of a number in the C locale.\<close>

definition number_text :: "c_numlib \<Rightarrow> byte \<Rightarrow> c_double \<Rightarrow> int \<Rightarrow> byte list" where
  "number_text lib dp num precision =
     (case fpconv_g_fmt lib dp num precision of Inl _ \<Rightarrow> [] | Inr (cs, _) \<Rightarrow> butlast cs)"

lemma takeWhile_nonzero: "0 \<notin> set xs \<Longrightarrow> takeWhile (\<lambda>b. b \<noteq> 0) xs = xs"
  by (induction xs) auto

lemma fpconv_g_fmt_ok:
  assumes "g_fmt_ok lib" "1 \<le> p" "p \<le> 14"
  shows "fpconv_g_fmt lib dp x p = Inr (number_text lib dp x p @ [0], int (length (number_text lib dp x p)))"
    and "length (number_text lib dp x p) < 32"
proof -
  obtain fmt where fmt: "set_number_format p = Inr fmt"
    using assms(2,3) by (simp add: set_number_format_def Let_def)
  have "length (snprintf_g lib fmt x) < 32" "0 \<notin> set (snprintf_g lib fmt x)"
    using assms(1) by (auto simp: g_fmt_ok_def)
  with fmt show "fpconv_g_fmt lib dp x p = Inr (number_text lib dp x p @ [0], int (length (number_text lib dp x p)))"
    "length (number_text lib dp x p) < 32"
    by (simp_all add: fpconv_g_fmt_def number_text_def FPCONV_G_FMT_BUFSIZE_def takeWhile_nonzero Let_def)
qed

section \<open>Properties\<close>

text \<open>
  the text of a number does not depend on the locale: where the C library prints the same
  characters with its own decimal point, \<open>fpconv_g_fmt\<close> gives what it gives in the C locale, a
  zero-terminated text of at most 32 bytes.
\<close>

theorem fpconv_g_fmt_locale:
  assumes ok: "g_fmt_ok lib"
    and loc: "\<And>fmt x. snprintf_g lib' fmt x = map (\<lambda>b. if b = 46 then dp else b) (snprintf_g lib fmt x)"
    and dp: "dp \<noteq> 0" "\<And>fmt x. dp \<notin> set (snprintf_g lib fmt x) - {46}"
    and p: "1 \<le> p" "p \<le> 14"
  shows "fpconv_g_fmt lib' dp x p = fpconv_g_fmt lib 46 x p \<and>
    (\<exists>cs. fpconv_g_fmt lib 46 x p = Inr (cs @ [0], int (length cs)) \<and> 0 \<notin> set cs \<and> length cs < 32)"
proof -
  obtain fmt where fmt: "set_number_format p = Inr fmt"
    using p by (simp add: set_number_format_def Let_def)
  let ?out = "snprintf_g lib fmt x"
  have out: "length ?out < 32" "0 \<notin> set ?out" using ok by (auto simp: g_fmt_ok_def)
  have "0 \<notin> set (map (\<lambda>b. if b = 46 then dp else b) ?out)" using out dp(1) by auto
  moreover have "map (\<lambda>b. if b = dp then 46 else b) (map (\<lambda>b. if b = 46 then dp else b) ?out) = ?out"
    using dp(2) [of fmt x] by (auto intro!: map_idI)
  ultimately show ?thesis
    using fmt out
    by (auto simp: fpconv_g_fmt_def FPCONV_G_FMT_BUFSIZE_def takeWhile_nonzero loc Let_def simp del: map_map)
qed

definition half_lib :: "byte \<Rightarrow> c_numlib" where
  "half_lib dp = \<lparr>snprintf_g = (\<lambda>_ _. [48, dp, 53]), strtod = (\<lambda>_. (Finite (1 / 2), 3))\<rparr>"

theorem fpconv_g_fmt_locale_witness:
  "fpconv_g_fmt (half_lib 44) 44 (Finite (1 / 2)) 14 = Inr ([48, 46, 53, 0], 3)"
proof -
  have "fpconv_g_fmt (half_lib 44) 44 (Finite (1 / 2)) 14 = fpconv_g_fmt (half_lib 46) 46 (Finite (1 / 2)) 14"
    using fpconv_g_fmt_locale [where lib = "half_lib 46" and lib' = "half_lib 44" and dp = 44 and p = 14]
    by (simp add: half_lib_def g_fmt_ok_def)
  then show ?thesis
    by (simp add: fpconv_g_fmt_def half_lib_def set_number_format_def FPCONV_G_FMT_BUFSIZE_def Let_def)
qed

end
