(* ===== verification/CjsonConfig.thy ===== *)
theory CjsonConfig
  imports Strbuf Fpconv
begin

text \<open>
  The configuration of \<open>lae/source/lua_cjson.c\<close>: the token and escape tables, the settings with
  their defaults, and the Lua functions that change them.  A function that raises a Lua error
  gives back, with the error, the configuration it leaves behind.
\<close>

section \<open>Tokens and tables\<close>

datatype json_token_type =
    T_OBJ_BEGIN | T_OBJ_END | T_ARR_BEGIN | T_ARR_END | T_STRING | T_NUMBER | T_BOOLEAN
  | T_NULL | T_COLON | T_COMMA | T_END | T_WHITESPACE | T_ERROR | T_UNKNOWN

fun json_token_type_name :: "json_token_type \<Rightarrow> string" where
  "json_token_type_name T_OBJ_BEGIN = ''T_OBJ_BEGIN''"
| "json_token_type_name T_OBJ_END = ''T_OBJ_END''"
| "json_token_type_name T_ARR_BEGIN = ''T_ARR_BEGIN''"
| "json_token_type_name T_ARR_END = ''T_ARR_END''"
| "json_token_type_name T_STRING = ''T_STRING''"
| "json_token_type_name T_NUMBER = ''T_NUMBER''"
| "json_token_type_name T_BOOLEAN = ''T_BOOLEAN''"
| "json_token_type_name T_NULL = ''T_NULL''"
| "json_token_type_name T_COLON = ''T_COLON''"
| "json_token_type_name T_COMMA = ''T_COMMA''"
| "json_token_type_name T_END = ''T_END''"
| "json_token_type_name T_WHITESPACE = ''T_WHITESPACE''"
| "json_token_type_name T_ERROR = ''T_ERROR''"
| "json_token_type_name T_UNKNOWN = ''T_UNKNOWN''"

record json_config =
  ch2token :: "byte \<Rightarrow> json_token_type"
  escape2char :: "byte \<Rightarrow> byte"
  encode_buf :: strbuf
  encode_sparse_convert :: int
  encode_sparse_ratio :: int
  encode_sparse_safe :: int
  encode_max_depth :: int
  encode_invalid_numbers :: int
  encode_number_precision :: int
  encode_keep_buffer :: int
  decode_invalid_numbers :: int
  decode_max_depth :: int

text \<open>
  \<open>char2escape\<close>: the control characters, the quote, the slash, the backslash and DEL have an
  escape sequence, every other entry of the table is null.
\<close>

definition control_escapes :: "string list" where
  "control_escapes =
     [ [CHR 0x5C, CHR ''u''] @ ''0000'', [CHR 0x5C, CHR ''u''] @ ''0001'', [CHR 0x5C, CHR ''u''] @ ''0002'', [CHR 0x5C, CHR ''u''] @ ''0003'',
       [CHR 0x5C, CHR ''u''] @ ''0004'', [CHR 0x5C, CHR ''u''] @ ''0005'', [CHR 0x5C, CHR ''u''] @ ''0006'', [CHR 0x5C, CHR ''u''] @ ''0007'',
       [CHR 0x5C] @ ''b'', [CHR 0x5C] @ ''t'', [CHR 0x5C] @ ''n'', [CHR 0x5C, CHR ''u''] @ ''000b'',
       [CHR 0x5C] @ ''f'', [CHR 0x5C] @ ''r'', [CHR 0x5C, CHR ''u''] @ ''000e'', [CHR 0x5C, CHR ''u''] @ ''000f'',
       [CHR 0x5C, CHR ''u''] @ ''0010'', [CHR 0x5C, CHR ''u''] @ ''0011'', [CHR 0x5C, CHR ''u''] @ ''0012'', [CHR 0x5C, CHR ''u''] @ ''0013'',
       [CHR 0x5C, CHR ''u''] @ ''0014'', [CHR 0x5C, CHR ''u''] @ ''0015'', [CHR 0x5C, CHR ''u''] @ ''0016'', [CHR 0x5C, CHR ''u''] @ ''0017'',
       [CHR 0x5C, CHR ''u''] @ ''0018'', [CHR 0x5C, CHR ''u''] @ ''0019'', [CHR 0x5C, CHR ''u''] @ ''001a'', [CHR 0x5C, CHR ''u''] @ ''001b'',
       [CHR 0x5C, CHR ''u''] @ ''001c'', [CHR 0x5C, CHR ''u''] @ ''001d'', [CHR 0x5C, CHR ''u''] @ ''001e'', [CHR 0x5C, CHR ''u''] @ ''001f'' ]"

definition char2escape :: "byte \<Rightarrow> byte list option" where
  "char2escape b =
     (if unat b < 32 then Some (bytes (control_escapes ! unat b))
      else if b = 34 then Some (bytes [CHR 0x5C, CHR 0x22])
      else if b = 47 then Some (bytes [CHR 0x5C, CHR ''/''])
      else if b = 92 then Some (bytes [CHR 0x5C, CHR 0x5C])
      else if b = 127 then Some (bytes ([CHR 0x5C, CHR ''u''] @ ''007f''))
      else None)"

definition ch2token_init :: "byte \<Rightarrow> json_token_type" where
  "ch2token_init =
     (\<lambda>i. if 48 \<le> i \<and> i \<le> 57 then T_UNKNOWN else
       ((\<lambda>_. T_ERROR)
         (123 := T_OBJ_BEGIN, 125 := T_OBJ_END, 91 := T_ARR_BEGIN, 93 := T_ARR_END,
          44 := T_COMMA, 58 := T_COLON, 0 := T_END,
          32 := T_WHITESPACE, 9 := T_WHITESPACE, 10 := T_WHITESPACE, 13 := T_WHITESPACE,
          102 := T_UNKNOWN, 105 := T_UNKNOWN, 73 := T_UNKNOWN, 110 := T_UNKNOWN, 78 := T_UNKNOWN,
          116 := T_UNKNOWN, 34 := T_UNKNOWN, 43 := T_UNKNOWN, 45 := T_UNKNOWN)) i)"

definition escape2char_init :: "byte \<Rightarrow> byte" where
  "escape2char_init =
     (\<lambda>_. 0)(34 := 34, 92 := 92, 47 := 47, 98 := 8, 116 := 9, 110 := 10, 102 := 12, 114 := 13,
             117 := 117)"

definition json_create_config :: "c_heap \<Rightarrow> c_fault + json_config" where
  "json_create_config h =
     bindE (strbuf_init h 0) (\<lambda>buf.
       Inr \<lparr>ch2token = ch2token_init, escape2char = escape2char_init, encode_buf = buf,
            encode_sparse_convert = 0, encode_sparse_ratio = 2, encode_sparse_safe = 10,
            encode_max_depth = 1000, encode_invalid_numbers = 0, encode_number_precision = 14,
            encode_keep_buffer = 1, decode_invalid_numbers = 1, decode_max_depth = 1000\<rparr>)"

text \<open>The collector's finaliser frees the buffer; the userdata itself is the collector's.\<close>

definition json_destroy_config :: "json_config \<Rightarrow> json_config option" where
  "json_destroy_config cfg =
     map_option (\<lambda>b. cfg\<lparr>encode_buf := b\<rparr>) (strbuf_free (encode_buf cfg))"

section \<open>Configuration functions\<close>

text \<open>
  The arguments are the values on the Lua stack; \<open>json_arg_init\<close> pads them with nil.  An option
  function gives the new setting and the value it pushes.
\<close>

definition json_arg_init :: "lua_value list \<Rightarrow> nat \<Rightarrow> c_fault + lua_value list" where
  "json_arg_init stack args =
     (if length stack \<le> args then Inr (stack @ replicate (args - length stack) LNil)
      else Inl (LuaError ''found too many arguments''))"

definition json_integer_option ::
    "lua_api \<Rightarrow> lua_value \<Rightarrow> int \<Rightarrow> int \<Rightarrow> int \<Rightarrow> c_fault + (int \<times> lua_value)" where
  "json_integer_option api arg setting lo hi =
     bindE (if arg \<noteq> LNil then
              (case luaL_checkinteger api arg of
                 None \<Rightarrow> Inl (LuaError ''number expected'')
               | Some n \<Rightarrow>
                   let v = to_int n in
                   if lo \<le> v \<and> v \<le> hi then Inr v
                   else Inl (LuaError (take 63 (''expected integer between '' @ show_int lo @ '' and '' @ show_int hi))))
            else Inr setting) (\<lambda>s. Inr (s, lua_index s))"

fun option_index :: "byte list list \<Rightarrow> byte list \<Rightarrow> nat \<Rightarrow> nat option" where
  "option_index [] name i = None"
| "option_index (opt # opts) name i = (if opt = name then Some i else option_index opts name (Suc i))"

definition bool_options :: "byte list list" where
  "bool_options = [bytes ''off'', bytes ''on'']"

definition json_enum_option ::
    "lua_api \<Rightarrow> lua_value \<Rightarrow> int \<Rightarrow> byte list list option \<Rightarrow> int \<Rightarrow> c_fault + (int \<times> lua_value)" where
  "json_enum_option api arg setting opts bt =
     (let (options, bool_true) = (case opts of None \<Rightarrow> (bool_options, 1) | Some os \<Rightarrow> (os, bt)) in
      bindE (if arg \<noteq> LNil then
               (if bool_true \<noteq> 0 \<and> (\<exists>b \<in> {True, False}. arg = LBool b)
                then Inr ((if lua_toboolean arg then 1 else 0) * bool_true)
                else (case luaL_checkstring api arg of
                        None \<Rightarrow> Inl (LuaError ''string expected'')
                      | Some name \<Rightarrow>
                          (case option_index options name 0 of
                             None \<Rightarrow> Inl (LuaError ''invalid option'')
                           | Some i \<Rightarrow> Inr (int i))))
             else Inr setting) (\<lambda>s.
        if bool_true \<noteq> 0 \<and> (s = 0 \<or> s = bool_true) then Inr (s, LBool (s \<noteq> 0))
        else if 0 \<le> s \<and> nat s < length options then Inr (s, LString (options ! nat s))
        else Inl OutOfBounds))"

type_synonym cfg_result = "(c_fault \<times> json_config) + (json_config \<times> lua_value list)"

text \<open>Runs one option function on a field of the configuration.\<close>

definition set_option ::
    "(c_fault + (int \<times> lua_value)) \<Rightarrow> (int \<Rightarrow> json_config \<Rightarrow> json_config) \<Rightarrow> json_config \<Rightarrow> cfg_result" where
  "set_option opt upd cfg =
     (case opt of Inl e \<Rightarrow> Inl (e, cfg) | Inr (s, pushed) \<Rightarrow> Inr (upd s cfg, [pushed]))"

definition with_args ::
    "json_config \<Rightarrow> lua_value list \<Rightarrow> nat \<Rightarrow> (lua_value list \<Rightarrow> cfg_result) \<Rightarrow> cfg_result" where
  "with_args cfg stack n f =
     (case json_arg_init stack n of Inl e \<Rightarrow> Inl (e, cfg) | Inr args \<Rightarrow> f args)"

definition json_cfg_encode_sparse_array :: "lua_api \<Rightarrow> json_config \<Rightarrow> lua_value list \<Rightarrow> cfg_result" where
  "json_cfg_encode_sparse_array api cfg stack = with_args cfg stack 3 (\<lambda>args.
     bindE (set_option (json_enum_option api (args ! 0) (encode_sparse_convert cfg) None 1)
              (\<lambda>s c. c\<lparr>encode_sparse_convert := s\<rparr>) cfg) (\<lambda>(c1, p1).
     bindE (set_option (json_integer_option api (args ! 1) (encode_sparse_ratio c1) 0 INT_MAX)
              (\<lambda>s c. c\<lparr>encode_sparse_ratio := s\<rparr>) c1) (\<lambda>(c2, p2).
     bindE (set_option (json_integer_option api (args ! 2) (encode_sparse_safe c2) 0 INT_MAX)
              (\<lambda>s c. c\<lparr>encode_sparse_safe := s\<rparr>) c2) (\<lambda>(c3, p3).
       Inr (c3, p1 @ p2 @ p3)))))"

definition json_cfg_encode_max_depth :: "lua_api \<Rightarrow> json_config \<Rightarrow> lua_value list \<Rightarrow> cfg_result" where
  "json_cfg_encode_max_depth api cfg stack = with_args cfg stack 1 (\<lambda>args.
     set_option (json_integer_option api (args ! 0) (encode_max_depth cfg) 1 INT_MAX)
       (\<lambda>s c. c\<lparr>encode_max_depth := s\<rparr>) cfg)"

definition json_cfg_decode_max_depth :: "lua_api \<Rightarrow> json_config \<Rightarrow> lua_value list \<Rightarrow> cfg_result" where
  "json_cfg_decode_max_depth api cfg stack = with_args cfg stack 1 (\<lambda>args.
     set_option (json_integer_option api (args ! 0) (decode_max_depth cfg) 1 INT_MAX)
       (\<lambda>s c. c\<lparr>decode_max_depth := s\<rparr>) cfg)"

definition json_cfg_encode_number_precision :: "lua_api \<Rightarrow> json_config \<Rightarrow> lua_value list \<Rightarrow> cfg_result" where
  "json_cfg_encode_number_precision api cfg stack = with_args cfg stack 1 (\<lambda>args.
     set_option (json_integer_option api (args ! 0) (encode_number_precision cfg) 1 14)
       (\<lambda>s c. c\<lparr>encode_number_precision := s\<rparr>) cfg)"

definition json_cfg_encode_keep_buffer :: "c_heap \<Rightarrow> lua_api \<Rightarrow> json_config \<Rightarrow> lua_value list \<Rightarrow> cfg_result" where
  "json_cfg_encode_keep_buffer h api cfg stack = with_args cfg stack 1 (\<lambda>args.
     let old_value = encode_keep_buffer cfg in
     bindE (set_option (json_enum_option api (args ! 0) (encode_keep_buffer cfg) None 1)
              (\<lambda>s c. c\<lparr>encode_keep_buffer := s\<rparr>) cfg) (\<lambda>(c1, p1).
       if (old_value XOR encode_keep_buffer c1) \<noteq> 0 then
         (if encode_keep_buffer c1 \<noteq> 0
          then (case strbuf_init h 0 of
                  Inl e \<Rightarrow> Inl (e, c1) | Inr b \<Rightarrow> Inr (c1\<lparr>encode_buf := b\<rparr>, p1))
          else (case strbuf_free (encode_buf c1) of
                  None \<Rightarrow> Inl (NullDeref, c1) | Some b \<Rightarrow> Inr (c1\<lparr>encode_buf := b\<rparr>, p1)))
       else Inr (c1, p1)))"

text \<open>\<open>json_verify_invalid_number_setting\<close> is the empty statement in this configuration.\<close>

definition json_cfg_encode_invalid_numbers :: "lua_api \<Rightarrow> json_config \<Rightarrow> lua_value list \<Rightarrow> cfg_result" where
  "json_cfg_encode_invalid_numbers api cfg stack = with_args cfg stack 1 (\<lambda>args.
     set_option (json_enum_option api (args ! 0) (encode_invalid_numbers cfg)
                   (Some [bytes ''off'', bytes ''on'', bytes ''null'']) 1)
       (\<lambda>s c. c\<lparr>encode_invalid_numbers := s\<rparr>) cfg)"

definition json_cfg_decode_invalid_numbers :: "lua_api \<Rightarrow> json_config \<Rightarrow> lua_value list \<Rightarrow> cfg_result" where
  "json_cfg_decode_invalid_numbers api cfg stack = with_args cfg stack 1 (\<lambda>args.
     set_option (json_enum_option api (args ! 0) (decode_invalid_numbers cfg) None 1)
       (\<lambda>s c. c\<lparr>decode_invalid_numbers := s\<rparr>) cfg)"

section \<open>The module's functions that change the configuration\<close>

datatype cfg_call = Encode_sparse_array | Encode_max_depth | Decode_max_depth
  | Encode_number_precision | Encode_keep_buffer | Encode_invalid_numbers | Decode_invalid_numbers

fun cjson_configure :: "c_heap \<Rightarrow> lua_api \<Rightarrow> cfg_call \<Rightarrow> json_config \<Rightarrow> lua_value list \<Rightarrow> cfg_result" where
  "cjson_configure h api Encode_sparse_array = json_cfg_encode_sparse_array api"
| "cjson_configure h api Encode_max_depth = json_cfg_encode_max_depth api"
| "cjson_configure h api Decode_max_depth = json_cfg_decode_max_depth api"
| "cjson_configure h api Encode_number_precision = json_cfg_encode_number_precision api"
| "cjson_configure h api Encode_keep_buffer = json_cfg_encode_keep_buffer h api"
| "cjson_configure h api Encode_invalid_numbers = json_cfg_encode_invalid_numbers api"
| "cjson_configure h api Decode_invalid_numbers = json_cfg_decode_invalid_numbers api"

section \<open>Invariant\<close>

text \<open>
  The settings are in their ranges, the tables are the initial ones, the buffer is never a dynamic
  one, and it is well-formed while it is kept.
\<close>

definition cfg_settings :: "json_config \<Rightarrow> bool" where
  "cfg_settings c \<longleftrightarrow>
     ch2token c = ch2token_init \<and> escape2char c = escape2char_init \<and>
     encode_sparse_convert c \<in> {0, 1} \<and> 0 \<le> encode_sparse_ratio c \<and> 0 \<le> encode_sparse_safe c \<and>
     1 \<le> encode_max_depth c \<and> encode_invalid_numbers c \<in> {0, 1, 2} \<and>
     1 \<le> encode_number_precision c \<and> encode_number_precision c \<le> 14 \<and>
     encode_keep_buffer c \<in> {0, 1} \<and> decode_invalid_numbers c \<in> {0, 1} \<and> 1 \<le> decode_max_depth c"

definition static_buf :: "strbuf \<Rightarrow> bool" where
  "static_buf s \<longleftrightarrow> sb_wf s \<and> \<not> sb_dynamic s \<and> sb_increment s = STRBUF_DEFAULT_INCREMENT"

definition cfg_wf :: "json_config \<Rightarrow> bool" where
  "cfg_wf c \<longleftrightarrow> cfg_settings c \<and> \<not> sb_dynamic (encode_buf c) \<and>
     (encode_keep_buffer c \<noteq> 0 \<longrightarrow> static_buf (encode_buf c))"

lemma strbuf_init_default:
  "strbuf_init h 0 = Inr b \<Longrightarrow> static_buf b \<and> sb_text b = [] \<and> sb_length b = 0"
  by (auto simp: strbuf_init_def strbuf_ensure_null_def sb_store_def mem_write_def sb_wf_def
      sb_text_def static_buf_def STRBUF_DEFAULT_SIZE_def STRBUF_DEFAULT_INCREMENT_def INT_MAX_def
      split: if_splits)

lemma strbuf_init_default_fault: "strbuf_init h 0 = Inl e \<Longrightarrow> e = Die ''Out of memory''"
  by (auto simp: strbuf_init_def strbuf_ensure_null_def sb_store_def mem_write_def
      STRBUF_DEFAULT_SIZE_def split: if_splits)

lemma strbuf_free_static:
  "\<not> sb_dynamic s \<Longrightarrow> \<exists>s'. strbuf_free s = Some s' \<and> \<not> sb_dynamic s'"
  by (auto simp: strbuf_free_def Let_def)

lemma json_integer_option_cases:
  "case json_integer_option api arg s lo hi of
      Inl e \<Rightarrow> \<exists>m. e = LuaError m
    | Inr (s', p) \<Rightarrow> s' = s \<or> lo \<le> s' \<and> s' \<le> hi"
  by (auto simp: json_integer_option_def Let_def split: option.split)

lemma option_index_bound:
  "option_index opts name i = Some k \<Longrightarrow> i \<le> k \<and> k < i + length opts"
  by (induction opts name i rule: option_index.induct) (auto split: if_splits)

lemma json_enum_option_bool:
  assumes "s \<in> {0, 1}"
  shows "case json_enum_option api arg s None 1 of
      Inl e \<Rightarrow> \<exists>m. e = LuaError m
    | Inr (s', p) \<Rightarrow> s' \<in> {0, 1}"
  using assms option_index_bound [of bool_options _ 0]
  by (fastforce simp: json_enum_option_def bool_options_def Let_def split: option.split)

lemma json_enum_option_three:
  assumes "s \<in> {0, 1, 2}"
  shows "case json_enum_option api arg s (Some [a, b, c]) 1 of
      Inl e \<Rightarrow> \<exists>m. e = LuaError m
    | Inr (s', p) \<Rightarrow> s' \<in> {0, 1, 2}"
  using assms option_index_bound [of "[a, b, c]" _ 0]
  by (fastforce simp: json_enum_option_def Let_def split: option.split)

text \<open>What a configuration function may do to a configuration.\<close>

definition cfg_step_ok :: "cfg_result \<Rightarrow> bool" where
  "cfg_step_ok r \<longleftrightarrow>
     (case r of
        Inl (e, c) \<Rightarrow> (\<exists>m. e = LuaError m) \<and> cfg_wf c \<or> e = Die ''Out of memory''
      | Inr (c, _) \<Rightarrow> cfg_wf c)"

lemma set_option_ok:
  assumes "cfg_wf c" "case opt of Inl e \<Rightarrow> \<exists>m. e = LuaError m | Inr (s, p) \<Rightarrow> Q s"
    and "\<And>s. Q s \<Longrightarrow> cfg_wf (upd s c)"
  shows "cfg_step_ok (set_option opt upd c)"
  using assms by (auto simp: set_option_def cfg_step_ok_def split: sum.splits)

lemma with_args_ok:
  assumes "cfg_wf c" "\<And>args. cfg_step_ok (f args)"
  shows "cfg_step_ok (with_args c stack n f)"
  using assms by (auto simp: with_args_def json_arg_init_def cfg_step_ok_def split: if_splits)

lemma cfg_step_bind:
  assumes "cfg_step_ok r" "\<And>c p. r = Inr (c, p) \<Longrightarrow> cfg_wf c \<Longrightarrow> cfg_step_ok (f (c, p))"
  shows "cfg_step_ok (bindE r f)"
  using assms by (cases r) (auto simp: cfg_step_ok_def)

lemmas cfg_wf_defs = cfg_wf_def cfg_settings_def static_buf_def

lemma sparse_array_ok: "cfg_wf c \<Longrightarrow> cfg_step_ok (json_cfg_encode_sparse_array api c stack)"
  unfolding json_cfg_encode_sparse_array_def
proof (rule with_args_ok, assumption, rule cfg_step_bind, goal_cases)
  case (1 args)
  show ?case
    by (rule set_option_ok [OF 1 json_enum_option_bool]) (use 1 in \<open>auto simp: cfg_wf_defs\<close>)
next
  case (2 args c1 p1)
  have "cfg_step_ok (set_option (json_integer_option api (args ! 1) (encode_sparse_ratio c1) 0 INT_MAX)
      (\<lambda>s c. c\<lparr>encode_sparse_ratio := s\<rparr>) c1)"
    by (rule set_option_ok [OF 2(3) json_integer_option_cases]) (use 2 in \<open>auto simp: cfg_wf_defs\<close>)
  moreover have "cfg_step_ok (set_option (json_integer_option api (args ! 2) (encode_sparse_safe c2) 0 INT_MAX)
      (\<lambda>s c. c\<lparr>encode_sparse_safe := s\<rparr>) c2)" if "cfg_wf c2" for c2
    by (rule set_option_ok [OF that json_integer_option_cases]) (use that in \<open>auto simp: cfg_wf_defs\<close>)
  ultimately show ?case
    by (auto intro!: cfg_step_bind) (simp add: cfg_step_ok_def)
qed

lemma keep_buffer_ok: "cfg_wf c \<Longrightarrow> cfg_step_ok (json_cfg_encode_keep_buffer h api c stack)"
  unfolding json_cfg_encode_keep_buffer_def Let_def
proof (rule with_args_ok, assumption, goal_cases)
  case (1 args)
  have bool: "encode_keep_buffer c \<in> {0, 1}" using 1 by (simp add: cfg_wf_defs)
  show ?case
  proof (cases "json_enum_option api (args ! 0) (encode_keep_buffer c) None 1")
    case (Inl e)
    with 1 json_enum_option_bool [OF bool, of api "args ! 0"] show ?thesis
      by (auto simp: set_option_def cfg_step_ok_def)
  next
    case (Inr r)
    obtain s p where r: "r = (s, p)" by force
    with Inr json_enum_option_bool [OF bool, of api "args ! 0"] have s: "s \<in> {0, 1}" by simp
    obtain b where "strbuf_free (encode_buf c) = Some b" "\<not> sb_dynamic b"
      using strbuf_free_static [of "encode_buf c"] 1 by (auto simp: cfg_wf_def)
    then show ?thesis
      using 1 s bool Inr r strbuf_init_default [of h] strbuf_init_default_fault [of h]
      by (cases "strbuf_init h 0") (auto simp: set_option_def cfg_step_ok_def cfg_wf_defs)
  qed
qed

lemma integer_option_step:
  assumes "cfg_wf c" "\<And>s. s = cur \<or> lo \<le> s \<and> s \<le> hi \<Longrightarrow> cfg_wf (upd s c)"
  shows "cfg_step_ok (with_args c stack 1
    (\<lambda>args. set_option (json_integer_option api (args ! 0) cur lo hi) upd c))"
  by (intro with_args_ok [OF assms(1)] set_option_ok [OF assms(1) json_integer_option_cases] assms(2))

lemma integer_options_ok:
  assumes "cfg_wf c"
  shows "cfg_step_ok (json_cfg_encode_max_depth api c stack)"
    and "cfg_step_ok (json_cfg_decode_max_depth api c stack)"
    and "cfg_step_ok (json_cfg_encode_number_precision api c stack)"
  unfolding json_cfg_encode_max_depth_def json_cfg_decode_max_depth_def
    json_cfg_encode_number_precision_def
  subgoal by (rule integer_option_step [OF assms]) (use assms in \<open>auto simp: cfg_wf_defs\<close>)
  subgoal by (rule integer_option_step [OF assms]) (use assms in \<open>auto simp: cfg_wf_defs\<close>)
  subgoal by (rule integer_option_step [OF assms]) (use assms in \<open>auto simp: cfg_wf_defs\<close>)
  done

lemma encode_invalid_numbers_ok:
  assumes c: "cfg_wf c"
  shows "cfg_step_ok (json_cfg_encode_invalid_numbers api c stack)"
  unfolding json_cfg_encode_invalid_numbers_def
  by (intro with_args_ok [OF c] set_option_ok [OF c json_enum_option_three])
    (use c in \<open>auto simp: cfg_wf_defs\<close>)

lemma decode_invalid_numbers_ok:
  assumes c: "cfg_wf c"
  shows "cfg_step_ok (json_cfg_decode_invalid_numbers api c stack)"
  unfolding json_cfg_decode_invalid_numbers_def
  by (intro with_args_ok [OF c] set_option_ok [OF c json_enum_option_bool])
    (use c in \<open>auto simp: cfg_wf_defs\<close>)

section \<open>Properties\<close>

text \<open>
  C35: every configuration function, given any arguments, leaves a well-formed configuration,
  also when it raises a Lua error half-way; the only other failure is running out of memory when
  the kept buffer is created.
\<close>

theorem cjson_configure_wf:
  assumes "cfg_wf c"
  shows "case cjson_configure h api call c stack of
      Inl (e, c') \<Rightarrow> (\<exists>m. e = LuaError m) \<and> cfg_wf c' \<or> e = Die ''Out of memory''
    | Inr (c', _) \<Rightarrow> cfg_wf c'"
  using sparse_array_ok [OF assms] keep_buffer_ok [OF assms] integer_options_ok [OF assms]
    encode_invalid_numbers_ok [OF assms] decode_invalid_numbers_ok [OF assms]
  by (cases call) (simp_all add: cfg_step_ok_def)

definition strict_api :: lua_api where
  "strict_api = \<lparr>luaL_checkinteger = (\<lambda>v. case v of LNumber (Finite r) \<Rightarrow> Some \<lfloor>r\<rfloor> | _ \<Rightarrow> None),
     luaL_checkstring = (\<lambda>v. case v of LString s \<Rightarrow> Some s | _ \<Rightarrow> None),
     lua_checkstack = (\<lambda>_ _. True)\<rparr>"

definition fresh_buffer :: strbuf where
  "fresh_buffer = \<lparr>sb_buf = Some (replicate 1023 0), sb_size = 1023, sb_length = 0,
     sb_increment = - 2, sb_dynamic = False, sb_reallocs = 0, sb_debug = 0\<rparr>"

definition default_config :: json_config where
  "default_config =
     \<lparr>ch2token = ch2token_init, escape2char = escape2char_init, encode_buf = fresh_buffer,
      encode_sparse_convert = 0, encode_sparse_ratio = 2, encode_sparse_safe = 10,
      encode_max_depth = 1000, encode_invalid_numbers = 0, encode_number_precision = 14,
      encode_keep_buffer = 1, decode_invalid_numbers = 1, decode_max_depth = 1000\<rparr>"

lemma fresh_buffer_wf: "sb_wf fresh_buffer" "sb_text fresh_buffer = []"
  by (simp_all add: fresh_buffer_def sb_wf_def sb_text_def INT_MAX_def)

lemma default_config_wf: "cfg_wf default_config"
  using fresh_buffer_wf
  by (simp add: default_config_def cfg_wf_defs) (simp add: fresh_buffer_def STRBUF_DEFAULT_INCREMENT_def)

lemma json_create_config_default:
  "can_alloc h 1023 \<Longrightarrow> json_create_config h = Inr default_config"
  by (simp add: json_create_config_def strbuf_init_def strbuf_ensure_null_def sb_store_def
      mem_write_def STRBUF_DEFAULT_SIZE_def STRBUF_DEFAULT_INCREMENT_def default_config_def
      fresh_buffer_def flip: replicate_Suc)

theorem cjson_configure_wf_witness:
  "case cjson_configure ample_heap strict_api Encode_number_precision default_config
      [LNumber (Finite 15)] of
      Inl (e, c') \<Rightarrow> (\<exists>m. e = LuaError m) \<and> cfg_wf c' \<or> e = Die ''Out of memory''
    | Inr (c', _) \<Rightarrow> cfg_wf c'"
  by (rule cjson_configure_wf [OF default_config_wf])

end
