(* ===== verification/CjsonEncode.thy ===== *)
theory CjsonEncode
  imports CjsonConfig
begin

text \<open>
  The encoder of \<open>lae/source/lua_cjson.c\<close>, written over the string buffer.  A function that
  raises a Lua error gives back, with the error, the buffer it leaves behind: freed when the
  buffer is private to the call, as it stands when the configuration keeps it.
\<close>

section \<open>Environment\<close>

text \<open>What the encoder and decoder call outside the module: the allocator, Lua, the C library.\<close>

record cjson_env =
  env_heap :: c_heap
  env_api :: lua_api
  env_lib :: c_numlib
  env_dp :: byte

type_synonym enc_result = "(c_fault \<times> strbuf) + strbuf"

definition lift_sb :: "strbuf \<Rightarrow> c_fault + strbuf \<Rightarrow> enc_result" where
  "lift_sb s m = (case m of Inl e \<Rightarrow> Inl (e, s) | Inr s' \<Rightarrow> Inr s')"

definition release_buffer :: "json_config \<Rightarrow> strbuf \<Rightarrow> strbuf" where
  "release_buffer cfg json =
     (if encode_keep_buffer cfg = 0
      then (case strbuf_free json of None \<Rightarrow> json | Some b \<Rightarrow> b) else json)"

definition json_encode_exception :: "json_config \<Rightarrow> strbuf \<Rightarrow> lua_value \<Rightarrow> string \<Rightarrow> c_fault \<times> strbuf" where
  "json_encode_exception cfg json v reason =
     (LuaError (''Cannot serialise '' @ lua_typename v @ '': '' @ reason), release_buffer cfg json)"

section \<open>Strings and numbers\<close>

fun json_append_string_loop :: "c_heap \<Rightarrow> strbuf \<Rightarrow> byte list \<Rightarrow> c_fault + strbuf" where
  "json_append_string_loop h json [] = Inr json"
| "json_append_string_loop h json (c # str) =
     bindE (case char2escape c of
              Some escstr \<Rightarrow> strbuf_append_string h json (escstr @ [0])
            | None \<Rightarrow> strbuf_append_char_unsafe json c) (\<lambda>json'.
       json_append_string_loop h json' str)"

text \<open>\<open>len * 6 + 2\<close> is a \<open>size_t\<close> that the buffer takes as an \<open>int\<close>.\<close>

definition json_append_string :: "c_heap \<Rightarrow> strbuf \<Rightarrow> byte list \<Rightarrow> c_fault + strbuf" where
  "json_append_string h json str =
     bindE (strbuf_ensure_empty_length h json (to_int (int (length str) * 6 + 2))) (\<lambda>s1.
     bindE (strbuf_append_char_unsafe s1 34) (\<lambda>s2.
     bindE (json_append_string_loop h s2 str) (\<lambda>s3.
       strbuf_append_char_unsafe s3 34)))"

definition json_append_number :: "cjson_env \<Rightarrow> json_config \<Rightarrow> strbuf \<Rightarrow> c_double \<Rightarrow> enc_result" where
  "json_append_number env cfg json num =
     (let h = env_heap env;
          print = lift_sb json
            (bindE (strbuf_ensure_empty_length h json (int FPCONV_G_FMT_BUFSIZE)) (\<lambda>s1.
             bindE (fpconv_g_fmt (env_lib env) (env_dp env) num (encode_number_precision cfg)) (\<lambda>(cs, len).
             bindE (sb_store s1 (sb_length s1) cs) (\<lambda>s2. strbuf_extend_length s2 len))))
      in if encode_invalid_numbers cfg = 0 then
           (if is_inf num \<or> is_nan num
            then Inl (json_encode_exception cfg json (LNumber num) ''must not be NaN or Inf'')
            else print)
         else if encode_invalid_numbers cfg = 1 then
           (if is_nan num then lift_sb json (strbuf_append_mem h json (bytes ''nan'')) else print)
         else
           (if is_inf num \<or> is_nan num
            then lift_sb json (strbuf_append_mem h json (bytes ''null'')) else print))"

section \<open>Tables\<close>

text \<open>
  The loop of \<open>lua_array_length\<close>: the largest index and the number of entries, or \<open>None\<close> at the
  first key that is not an integer from 1 on.  An index beyond \<open>int\<close> cannot be stored in \<open>max\<close>.
\<close>

fun array_scan :: "lua_entries \<Rightarrow> int \<Rightarrow> int \<Rightarrow> c_fault + (int \<times> int) option" where
  "array_scan [] mx items = Inr (Some (mx, items))"
| "array_scan ((k, v) # es) mx items =
     (case k of
        LNumber (Finite r) \<Rightarrow>
          if r \<noteq> 0 \<and> of_int \<lfloor>r\<rfloor> = r \<and> 1 \<le> r then
            bindE (if r > of_int mx
                   then (if fits_int \<lfloor>r\<rfloor> then Inr \<lfloor>r\<rfloor> else Inl SignedOverflow) else Inr mx) (\<lambda>mx'.
            bindE (iadd items 1) (\<lambda>items'. array_scan es mx' items'))
          else Inr None
      | LNumber (Infinite negative) \<Rightarrow> if negative then Inr None else Inl SignedOverflow
      | _ \<Rightarrow> Inr None)"

definition lua_array_length :: "json_config \<Rightarrow> strbuf \<Rightarrow> lua_entries \<Rightarrow> (c_fault \<times> strbuf) + int" where
  "lua_array_length cfg json es =
     (case array_scan es 0 0 of
        Inl e \<Rightarrow> Inl (e, json)
      | Inr None \<Rightarrow> Inr (- 1)
      | Inr (Some (mx, items)) \<Rightarrow>
          if encode_sparse_ratio cfg > 0 \<and> \<not> fits_int (items * encode_sparse_ratio cfg)
          then Inl (SignedOverflow, json)
          else if encode_sparse_ratio cfg > 0 \<and> mx > items * encode_sparse_ratio cfg \<and>
            mx > encode_sparse_safe cfg
          then (if encode_sparse_convert cfg = 0
                then Inl (json_encode_exception cfg json (LTable es) ''excessively sparse array'')
                else Inr (- 1))
          else Inr mx)"

definition json_check_encode_depth ::
    "cjson_env \<Rightarrow> json_config \<Rightarrow> int \<Rightarrow> strbuf \<Rightarrow> (c_fault \<times> strbuf) + unit" where
  "json_check_encode_depth env cfg current_depth json =
     (if current_depth \<le> encode_max_depth cfg \<and> lua_checkstack (env_api env) current_depth 3
      then Inr ()
      else Inl (LuaError (''Cannot serialise, excessive nesting ('' @ show_int current_depth @ '')''),
                release_buffer cfg json))"

section \<open>Values\<close>

definition emit :: "cjson_env \<Rightarrow> strbuf \<Rightarrow> string \<Rightarrow> enc_result" where
  "emit env json str = lift_sb json (strbuf_append_mem (env_heap env) json (bytes str))"

definition emit_char :: "cjson_env \<Rightarrow> strbuf \<Rightarrow> byte \<Rightarrow> enc_result" where
  "emit_char env json c = lift_sb json (strbuf_append_char (env_heap env) json c)"

text \<open>The separator and the key that precede a member of an object.\<close>

definition json_append_key :: "cjson_env \<Rightarrow> json_config \<Rightarrow> lua_value \<Rightarrow> strbuf \<Rightarrow> enc_result" where
  "json_append_key env cfg key json =
     (case key of
        LNumber k \<Rightarrow>
          bindE (emit_char env json 34) (\<lambda>s1.
          bindE (json_append_number env cfg s1 k) (\<lambda>s2.
            emit env s2 [CHR 0x22, CHR '':'']))
      | LString k \<Rightarrow>
          bindE (lift_sb json (json_append_string (env_heap env) json k)) (\<lambda>s1. emit_char env s1 58)
      | _ \<Rightarrow> Inl (json_encode_exception cfg json key ''table key must be a number or string''))"

function json_append_data :: "cjson_env \<Rightarrow> json_config \<Rightarrow> int \<Rightarrow> lua_value \<Rightarrow> strbuf \<Rightarrow> enc_result"
  and json_append_array :: "cjson_env \<Rightarrow> json_config \<Rightarrow> int \<Rightarrow> lua_entries \<Rightarrow> int \<Rightarrow> strbuf \<Rightarrow> enc_result"
  and json_append_elements ::
    "cjson_env \<Rightarrow> json_config \<Rightarrow> int \<Rightarrow> lua_entries \<Rightarrow> bool \<Rightarrow> int \<Rightarrow> int \<Rightarrow> strbuf \<Rightarrow> enc_result"
  and json_append_object :: "cjson_env \<Rightarrow> json_config \<Rightarrow> int \<Rightarrow> lua_entries \<Rightarrow> strbuf \<Rightarrow> enc_result"
  and json_append_members ::
    "cjson_env \<Rightarrow> json_config \<Rightarrow> int \<Rightarrow> lua_entries \<Rightarrow> bool \<Rightarrow> strbuf \<Rightarrow> enc_result" where
  "json_append_data env cfg current_depth v json =
     (case v of
        LString s \<Rightarrow> lift_sb json (json_append_string (env_heap env) json s)
      | LNumber n \<Rightarrow> json_append_number env cfg json n
      | LBool b \<Rightarrow> emit env json (if b then ''true'' else ''false'')
      | LTable es \<Rightarrow>
          bindE (json_check_encode_depth env cfg (current_depth + 1) json) (\<lambda>_.
          bindE (lua_array_length cfg json es) (\<lambda>len.
            if len > 0 then json_append_array env cfg (current_depth + 1) es len json
            else json_append_object env cfg (current_depth + 1) es json))
      | LNil \<Rightarrow> emit env json ''null''
      | LLightUserdata is_null \<Rightarrow>
          if is_null then emit env json ''null''
          else Inl (json_encode_exception cfg json v ''type not supported'')
      | _ \<Rightarrow> Inl (json_encode_exception cfg json v ''type not supported''))"
| "json_append_array env cfg current_depth es array_length json =
     bindE (emit_char env json 91) (\<lambda>s1.
     bindE (json_append_elements env cfg current_depth es False 1 array_length s1) (\<lambda>s2.
       emit_char env s2 93))"
| "json_append_elements env cfg current_depth es comma i array_length json =
     (if i \<le> array_length then
        bindE (if comma then emit_char env json 44 else Inr json) (\<lambda>s1.
        bindE (json_append_data env cfg current_depth (lua_rawget es (lua_index i)) s1) (\<lambda>s2.
          json_append_elements env cfg current_depth es True (i + 1) array_length s2))
      else Inr json)"
| "json_append_object env cfg current_depth es json =
     bindE (emit_char env json 123) (\<lambda>s1.
     bindE (json_append_members env cfg current_depth es False s1) (\<lambda>s2.
       emit_char env s2 125))"
| "json_append_members env cfg current_depth [] comma json = Inr json"
| "json_append_members env cfg current_depth ((key, v) # es) comma json =
     bindE (if comma then emit_char env json 44 else Inr json) (\<lambda>s1.
     bindE (json_append_key env cfg key s1) (\<lambda>s2.
     bindE (json_append_data env cfg current_depth v s2) (\<lambda>s3.
       json_append_members env cfg current_depth es True s3)))"
  by pat_completeness auto
termination
proof (relation "measures
    [\<lambda>x. case x of
        Inl (Inl (env, cfg, d, v, json)) \<Rightarrow> 3 * size v
      | Inl (Inr (env, cfg, d, es, n, json)) \<Rightarrow> 3 * size_list (size_prod size size) es + 2
      | Inr (Inl (env, cfg, d, es, comma, i, n, json)) \<Rightarrow> 3 * size_list (size_prod size size) es + 1
      | Inr (Inr (Inl (env, cfg, d, es, json))) \<Rightarrow> 3 * size_list (size_prod size size) es + 2
      | Inr (Inr (Inr (env, cfg, d, es, comma, json))) \<Rightarrow> 3 * size_list (size_prod size size) es + 1,
     \<lambda>x. case x of
        Inr (Inl (env, cfg, d, es, comma, i, n, json)) \<Rightarrow> nat (n + 1 - i)
      | _ \<Rightarrow> 0]", goal_cases)
qed (auto simp: less_Suc_eq_le lua_rawget_size)

declare json_append_data.simps [simp del] json_append_elements.simps [simp del]
  json_append_array.simps [simp del] json_append_object.simps [simp del]

section \<open>The entry point\<close>

text \<open>
  \<open>json_encode\<close>: the text pushed on the Lua stack and the configuration afterwards; a Lua error
  comes with the configuration it leaves.
\<close>

definition json_encode ::
    "cjson_env \<Rightarrow> json_config \<Rightarrow> lua_value list \<Rightarrow> (c_fault \<times> json_config) + (lua_value \<times> json_config)" where
  "json_encode env cfg stack =
     (case stack of
        [v] \<Rightarrow>
          bindE (if encode_keep_buffer cfg = 0
                 then (case strbuf_init (env_heap env) 0 of Inl e \<Rightarrow> Inl (e, cfg) | Inr b \<Rightarrow> Inr b)
                 else Inr (strbuf_reset (encode_buf cfg))) (\<lambda>buf.
            case json_append_data env cfg 0 v buf of
              Inl (e, b) \<Rightarrow> Inl (e, if encode_keep_buffer cfg = 0 then cfg else cfg\<lparr>encode_buf := b\<rparr>)
            | Inr b \<Rightarrow>
                (case strbuf_string b of
                   (None, _) \<Rightarrow> Inl (NullDeref, cfg)
                 | (Some cells, len) \<Rightarrow>
                     Inr (LString (take (nat len) cells),
                          if encode_keep_buffer cfg = 0 then cfg else cfg\<lparr>encode_buf := b\<rparr>)))
      | _ \<Rightarrow> Inl (LuaError ''expected 1 argument'', cfg))"

section \<open>The text of a value\<close>

text \<open>
  The specification: the JSON text of a value, or the error that prevents it, without any buffer.
\<close>

definition seqT :: "c_fault + byte list \<Rightarrow> c_fault + byte list \<Rightarrow> c_fault + byte list" where
  "seqT t u = bindE t (\<lambda>xs. bindE u (\<lambda>ys. Inr (xs @ ys)))"

definition escape1 :: "byte \<Rightarrow> byte list" where
  "escape1 c = (case char2escape c of Some e \<Rightarrow> e | None \<Rightarrow> [c])"

definition string_text :: "byte list \<Rightarrow> byte list" where
  "string_text str = [34] @ concat (map escape1 str) @ [34]"

definition num_text :: "cjson_env \<Rightarrow> json_config \<Rightarrow> c_double \<Rightarrow> c_fault + byte list" where
  "num_text env cfg num =
     (if is_nan num \<or> is_inf num then
        (if encode_invalid_numbers cfg = 0
         then Inl (LuaError ''Cannot serialise number: must not be NaN or Inf'')
         else if encode_invalid_numbers cfg = 2 then Inr (bytes ''null'')
         else if is_nan num then Inr (bytes ''nan'')
         else Inr (number_text (env_lib env) (env_dp env) num (encode_number_precision cfg)))
      else Inr (number_text (env_lib env) (env_dp env) num (encode_number_precision cfg)))"

definition key_text :: "cjson_env \<Rightarrow> json_config \<Rightarrow> lua_value \<Rightarrow> c_fault + byte list" where
  "key_text env cfg key =
     (case key of
        LNumber k \<Rightarrow> seqT (Inr [34]) (seqT (num_text env cfg k) (Inr [34, 58]))
      | LString k \<Rightarrow> Inr (string_text k @ [58])
      | _ \<Rightarrow> Inl (LuaError (''Cannot serialise '' @ lua_typename key @
               '': table key must be a number or string'')))"

text \<open>
  When a table is an array: all its keys are integers from 1 on, and it is not too sparse, or sparse arrays are refused.  The result is the greatest
  index, or \<open>- 1\<close> for an object.  An infinite key counts as an integer beyond \<open>int\<close>, and an index or a number of entries beyond \<open>int\<close>, before
  the first key that is no index, is an overflow.
\<close>

definition array_index :: "lua_value \<Rightarrow> int option" where
  "array_index k =
     (case k of
        LNumber (Finite r) \<Rightarrow> if 1 \<le> r \<and> of_int \<lfloor>r\<rfloor> = r then Some \<lfloor>r\<rfloor> else None
      | LNumber (Infinite negative) \<Rightarrow> if negative then None else Some (INT_MAX + 1)
      | _ \<Rightarrow> None)"

definition leading_indices :: "lua_entries \<Rightarrow> int list" where
  "leading_indices es = map the (takeWhile (\<lambda>i. i \<noteq> None) (map (\<lambda>e. array_index (fst e)) es))"

definition too_sparse :: "json_config \<Rightarrow> int \<Rightarrow> int \<Rightarrow> bool" where
  "too_sparse cfg mx items \<longleftrightarrow> encode_sparse_ratio cfg > 0 \<and> mx > items * encode_sparse_ratio cfg \<and> mx > encode_sparse_safe cfg"

definition table_length :: "json_config \<Rightarrow> lua_entries \<Rightarrow> c_fault + int" where
  "table_length cfg es =
     (let indices = leading_indices es; items = int (length indices); mx = foldl max 0 indices in
      if list_ex (\<lambda>i. \<not> fits_int i) indices \<or> items > INT_MAX then Inl SignedOverflow
      else if list_ex (\<lambda>e. array_index (fst e) = None) es then Inr (- 1)
      else if encode_sparse_ratio cfg > 0 \<and> \<not> fits_int (items * encode_sparse_ratio cfg) then Inl SignedOverflow
      else if too_sparse cfg mx items then
        (if encode_sparse_convert cfg = 0 then Inl (LuaError ''Cannot serialise table: excessively sparse array'') else Inr (- 1))
      else Inr mx)"

function json_text :: "cjson_env \<Rightarrow> json_config \<Rightarrow> int \<Rightarrow> lua_value \<Rightarrow> c_fault + byte list"
  and elements_text :: "cjson_env \<Rightarrow> json_config \<Rightarrow> int \<Rightarrow> lua_entries \<Rightarrow> bool \<Rightarrow> int \<Rightarrow> int \<Rightarrow> c_fault + byte list"
  and members_text :: "cjson_env \<Rightarrow> json_config \<Rightarrow> int \<Rightarrow> lua_entries \<Rightarrow> bool \<Rightarrow> c_fault + byte list" where
  "json_text env cfg d v =
     (case v of
        LString s \<Rightarrow> Inr (string_text s)
      | LNumber n \<Rightarrow> num_text env cfg n
      | LBool b \<Rightarrow> Inr (bytes (if b then ''true'' else ''false''))
      | LTable es \<Rightarrow>
          if d + 1 \<le> encode_max_depth cfg \<and> lua_checkstack (env_api env) (d + 1) 3
          then bindE (table_length cfg es) (\<lambda>len.
                 if len > 0 then seqT (Inr [91]) (seqT (elements_text env cfg (d + 1) es False 1 len) (Inr [93]))
                 else seqT (Inr [123]) (seqT (members_text env cfg (d + 1) es False) (Inr [125])))
          else Inl (LuaError (''Cannot serialise, excessive nesting ('' @ show_int (d + 1) @ '')''))
      | LNil \<Rightarrow> Inr (bytes ''null'')
      | LLightUserdata is_null \<Rightarrow>
          if is_null then Inr (bytes ''null'')
          else Inl (LuaError (''Cannot serialise '' @ lua_typename v @ '': type not supported''))
      | _ \<Rightarrow> Inl (LuaError (''Cannot serialise '' @ lua_typename v @ '': type not supported'')))"
| "elements_text env cfg d es comma i n =
     (if i \<le> n then
        seqT (Inr (if comma then [44] else []))
          (seqT (json_text env cfg d (lua_rawget es (lua_index i))) (elements_text env cfg d es True (i + 1) n))
      else Inr [])"
| "members_text env cfg d [] comma = Inr []"
| "members_text env cfg d ((key, v) # es) comma =
     seqT (Inr (if comma then [44] else []))
       (seqT (key_text env cfg key) (seqT (json_text env cfg d v) (members_text env cfg d es True)))"
  by pat_completeness auto
termination
proof (relation "measures
    [\<lambda>x. case x of
        Inl (env, cfg, d, v) \<Rightarrow> 3 * size v
      | Inr (Inl (env, cfg, d, es, comma, i, n)) \<Rightarrow> 3 * size_list (size_prod size size) es + 1
      | Inr (Inr (env, cfg, d, es, comma)) \<Rightarrow> 3 * size_list (size_prod size size) es + 1,
     \<lambda>x. case x of
        Inr (Inl (env, cfg, d, es, comma, i, n)) \<Rightarrow> nat (n + 1 - i)
      | _ \<Rightarrow> 0]", goal_cases)
qed (auto simp: less_Suc_eq_le lua_rawget_size)

declare json_text.simps [simp del] elements_text.simps [simp del]

end
