(* ===== verification/CjsonDecode.thy ===== *)
theory CjsonDecode
  imports CjsonEncode
begin

text \<open>
  The decoder of \<open>lae/source/lua_cjson.c\<close>.  The parse state keeps the input, its terminating zero
  included, and the pointer as the part of the input that is still ahead of it: reading through
  the pointer past the terminator is the fault \<open>OutOfBounds\<close>.  Every raise frees the temporary
  buffer, which is private to the call.  The mutually recursive parser is bounded by fuel; an
  exhausted fuel is the fault \<open>Diverges\<close>, which the fuel of \<open>json_decode\<close> excludes.
\<close>

section \<open>State and tokens\<close>

record json_parse =
  jp_data :: "byte list"
  jp_ptr :: "byte list"
  jp_tmp :: strbuf
  jp_depth :: int

datatype token_value = NoValue | StringValue "byte list" | ErrorText string
  | NumberValue c_double | BooleanValue bool

record json_token =
  tok_type :: json_token_type
  tok_index :: int
  tok_value :: token_value

definition jp_index :: "json_parse \<Rightarrow> byte list \<Rightarrow> int" where
  "jp_index json ptr = int (length (jp_data json)) - int (length ptr)"

section \<open>Unicode escapes\<close>

definition hexdigit2int :: "byte \<Rightarrow> int" where
  "hexdigit2int hex =
     (if 48 \<le> sint hex \<and> sint hex \<le> 57 then sint hex - 48
      else let hex = hex OR 0x20 in
        if 97 \<le> sint hex \<and> sint hex \<le> 102 then 10 + sint hex - 97 else - 1)"

fun hex_digits :: "nat \<Rightarrow> byte list \<Rightarrow> c_fault + int list option" where
  "hex_digits 0 p = Inr (Some [])"
| "hex_digits (Suc n) [] = Inl OutOfBounds"
| "hex_digits (Suc n) (c # p) =
     (if hexdigit2int c < 0 then Inr None
      else bindE (hex_digits n p) (\<lambda>ds. Inr (map_option ((#) (hexdigit2int c)) ds)))"

definition decode_hex4 :: "byte list \<Rightarrow> c_fault + int" where
  "decode_hex4 hex =
     bindE (hex_digits 4 hex) (\<lambda>r. case r of
       None \<Rightarrow> Inr (- 1)
     | Some digit \<Rightarrow> Inr (push_bit 12 (digit ! 0) + push_bit 8 (digit ! 1) + push_bit 4 (digit ! 2) + digit ! 3))"

definition codepoint_to_utf8 :: "int \<Rightarrow> byte list" where
  "codepoint_to_utf8 codepoint =
     (if codepoint \<le> 0x7F then [word_of_int codepoint]
      else if codepoint \<le> 0x7FF then
        [word_of_int (drop_bit 6 codepoint OR 0xC0), word_of_int ((codepoint AND 0x3F) OR 0x80)]
      else if codepoint \<le> 0xFFFF then
        [word_of_int (drop_bit 12 codepoint OR 0xE0), word_of_int ((drop_bit 6 codepoint AND 0x3F) OR 0x80),
         word_of_int ((codepoint AND 0x3F) OR 0x80)]
      else if codepoint \<le> 0x1FFFFF then
        [word_of_int (drop_bit 18 codepoint OR 0xF0), word_of_int ((drop_bit 12 codepoint AND 0x3F) OR 0x80),
         word_of_int ((drop_bit 6 codepoint AND 0x3F) OR 0x80), word_of_int ((codepoint AND 0x3F) OR 0x80)]
      else [])"

text \<open>The code point and the length of the escape at the pointer, or \<open>None\<close> for an error.\<close>

definition escape_codepoint :: "byte list \<Rightarrow> c_fault + (int \<times> nat) option" where
  "escape_codepoint ptr =
     bindE (decode_hex4 (drop 2 ptr)) (\<lambda>codepoint.
       if codepoint < 0 then Inr None
       else if codepoint AND 0xF800 = 0xD800 then
         (if codepoint AND 0x400 \<noteq> 0 then Inr None
          else bindE (mem_get ptr 6) (\<lambda>c6.
            if c6 \<noteq> 92 then Inr None
            else bindE (mem_get ptr 7) (\<lambda>c7.
              if c7 \<noteq> 117 then Inr None
              else bindE (decode_hex4 (drop 8 ptr)) (\<lambda>surrogate_low.
                if surrogate_low < 0 then Inr None
                else if surrogate_low AND 0xFC00 \<noteq> 0xDC00 then Inr None
                else Inr (Some ((push_bit 10 (codepoint AND 0x3FF) OR (surrogate_low AND 0x3FF)) + 0x10000, 12))))))
       else Inr (Some (codepoint, 6)))"

definition json_append_unicode_escape ::
    "byte list \<Rightarrow> strbuf \<Rightarrow> c_fault + (byte list \<times> strbuf) option" where
  "json_append_unicode_escape ptr tmp =
     bindE (escape_codepoint ptr) (\<lambda>r. case r of
       None \<Rightarrow> Inr None
     | Some (codepoint, escape_len) \<Rightarrow>
         let utf8 = codepoint_to_utf8 codepoint in
         if utf8 = [] then Inr None
         else bindE (strbuf_append_mem_unsafe tmp utf8) (\<lambda>tmp'.
           Inr (Some (drop escape_len ptr, tmp'))))"

section \<open>Strings\<close>

lemma escape_codepoint_length:
  "escape_codepoint ptr = Inr (Some (cp, n)) \<Longrightarrow> 6 \<le> n"
  by (auto simp: escape_codepoint_def bindE_Inr_iff split: if_splits)

lemma json_append_unicode_escape_shorter:
  "json_append_unicode_escape ptr tmp = Inr (Some (ptr', tmp')) \<Longrightarrow> ptr \<noteq> [] \<Longrightarrow> length ptr' < length ptr"
  using escape_codepoint_length [of ptr]
  by (fastforce simp: json_append_unicode_escape_def bindE_Inr_iff Let_def split: option.splits if_splits)

text \<open>
  The loop of \<open>json_next_string_token\<close>: the pointer at which it stops, the buffer, and the error
  text if it stops at an error.
\<close>

function string_token_loop ::
    "(byte \<Rightarrow> byte) \<Rightarrow> byte list \<Rightarrow> strbuf \<Rightarrow> c_fault + (byte list \<times> strbuf \<times> string option)" where
  "string_token_loop esc [] tmp = Inl OutOfBounds"
| "string_token_loop esc (ch # rest) tmp =
     (if ch = 34 then Inr (ch # rest, tmp, None)
      else if ch = 0 then Inr (ch # rest, tmp, Some ''unexpected end of string'')
      else if ch = 92 then
        bindE (mem_get rest 0) (\<lambda>c.
          if esc c = 117 then
            bindE (json_append_unicode_escape (ch # rest) tmp) (\<lambda>r. case r of
              Some (ptr', tmp') \<Rightarrow> string_token_loop esc ptr' tmp'
            | None \<Rightarrow> Inr (ch # rest, tmp, Some ''invalid unicode escape code''))
          else if esc c = 0 then Inr (ch # rest, tmp, Some ''invalid escape code'')
          else bindE (strbuf_append_char_unsafe tmp (esc c)) (\<lambda>tmp'. string_token_loop esc (tl rest) tmp'))
      else bindE (strbuf_append_char_unsafe tmp ch) (\<lambda>tmp'. string_token_loop esc rest tmp'))"
  by pat_completeness auto
termination
  by (relation "measure (\<lambda>(esc, ptr, tmp). length ptr)")
    (auto dest: json_append_unicode_escape_shorter simp: mem_get_Inr_iff)

declare string_token_loop.simps [simp del]

definition json_set_token_error :: "json_parse \<Rightarrow> string \<Rightarrow> json_token" where
  "json_set_token_error json errtype =
     \<lparr>tok_type = T_ERROR, tok_index = jp_index json (jp_ptr json), tok_value = ErrorText errtype\<rparr>"

text \<open>\<open>strbuf_string\<close> on the temporary buffer, read as the bytes of the token.\<close>

definition tmp_value :: "strbuf \<Rightarrow> token_value" where
  "tmp_value tmp =
     (case strbuf_string tmp of
        (Some cells, len) \<Rightarrow> StringValue (take (nat len) cells) | (None, _) \<Rightarrow> StringValue [])"

definition json_next_string_token ::
    "json_config \<Rightarrow> json_parse \<Rightarrow> json_token \<Rightarrow> c_fault + (json_parse \<times> json_token)" where
  "json_next_string_token cfg json token =
     bindE (mem_get (jp_ptr json) 0) (\<lambda>c0.
       if c0 \<noteq> 34 then Inl (Die ''assert'')
       else bindE (string_token_loop (escape2char cfg) (tl (jp_ptr json)) (strbuf_reset (jp_tmp json)))
         (\<lambda>(ptr, tmp, err). case err of
            Some e \<Rightarrow>
              let json' = json\<lparr>jp_ptr := ptr, jp_tmp := tmp\<rparr> in Inr (json', json_set_token_error json' e)
          | None \<Rightarrow>
              bindE (strbuf_ensure_null tmp) (\<lambda>tmp'.
                Inr (json\<lparr>jp_ptr := tl ptr, jp_tmp := tmp'\<rparr>,
                     token\<lparr>tok_type := T_STRING, tok_value := tmp_value tmp'\<rparr>))))"

section \<open>Numbers\<close>

text \<open>
  \<open>!strncmp(p, s, strlen(s))\<close> and its case-insensitive form: the comparison ends at the first
  difference, so it does not read past the terminator.
\<close>

fun prefix_match :: "(byte \<Rightarrow> byte) \<Rightarrow> byte list \<Rightarrow> byte list \<Rightarrow> c_fault + bool" where
  "prefix_match f [] p = Inr True"
| "prefix_match f (s # ss) [] = Inl OutOfBounds"
| "prefix_match f (s # ss) (c # p) = (if f c = f s then prefix_match f ss p else Inr False)"

definition json_is_invalid_number :: "byte list \<Rightarrow> c_fault + bool" where
  "json_is_invalid_number ptr =
     bindE (mem_get ptr 0) (\<lambda>c.
       if c = 43 then Inr True
       else
         let p = (if c = 45 then tl ptr else ptr) in
         bindE (mem_get p 0) (\<lambda>c0.
           if c0 = 48 then
             bindE (mem_get p 1) (\<lambda>ch2.
               Inr (ch2 OR 0x20 = 120 \<or> (48 \<le> sint ch2 \<and> sint ch2 \<le> 57)))
           else if sint c0 \<le> 57 then Inr False
           else bindE (prefix_match tolower (bytes ''inf'') p) (\<lambda>is_inf.
             if is_inf then Inr True
             else prefix_match tolower (bytes ''nan'') p)))"

fun copy_number :: "nat \<Rightarrow> byte list \<Rightarrow> strbuf \<Rightarrow> c_fault + strbuf" where
  "copy_number 0 ptr tmp = Inr tmp"
| "copy_number (Suc n) ptr tmp =
     bindE (mem_get ptr 0) (\<lambda>ch.
     bindE (strbuf_append_char_unsafe tmp ch) (\<lambda>tmp'. copy_number n (tl ptr) tmp'))"

definition json_next_number_token ::
    "cjson_env \<Rightarrow> json_parse \<Rightarrow> json_token \<Rightarrow> c_fault + (json_parse \<times> json_token)" where
  "json_next_number_token env json token =
     bindE (fpconv_strtod (env_heap env) (env_lib env) (env_dp env) (jp_ptr json)) (\<lambda>(value, n).
       if n = 0 then Inr (json, json_set_token_error json ''invalid number'')
       else if n > 14 then
         bindE (copy_number n (jp_ptr json) (strbuf_reset (jp_tmp json))) (\<lambda>tmp.
         bindE (strbuf_ensure_null tmp) (\<lambda>tmp'.
           Inr (json\<lparr>jp_ptr := drop n (jp_ptr json), jp_tmp := tmp'\<rparr>,
                token\<lparr>tok_type := T_STRING, tok_value := tmp_value tmp'\<rparr>)))
       else
         Inr (json\<lparr>jp_ptr := drop n (jp_ptr json)\<rparr>,
              token\<lparr>tok_type := T_NUMBER, tok_value := NumberValue value\<rparr>))"

section \<open>The next token\<close>

fun skip_whitespace :: "(byte \<Rightarrow> json_token_type) \<Rightarrow> byte list \<Rightarrow> c_fault + byte list" where
  "skip_whitespace tab [] = Inl OutOfBounds"
| "skip_whitespace tab (c # p) = (if tab c = T_WHITESPACE then skip_whitespace tab p else Inr (c # p))"

definition json_next_token ::
    "cjson_env \<Rightarrow> json_config \<Rightarrow> json_parse \<Rightarrow> c_fault + (json_parse \<times> json_token)" where
  "json_next_token env cfg json0 =
     bindE (skip_whitespace (ch2token cfg) (jp_ptr json0)) (\<lambda>ptr.
     bindE (mem_get ptr 0) (\<lambda>ch.
       let json = json0\<lparr>jp_ptr := ptr\<rparr>;
           ty = ch2token cfg ch;
           token = \<lparr>tok_type = ty, tok_index = jp_index json ptr, tok_value = NoValue\<rparr>
       in if ty = T_ERROR then Inr (json, json_set_token_error json ''invalid token'')
          else if ty = T_END then Inr (json, token)
          else if ty \<noteq> T_UNKNOWN then Inr (json\<lparr>jp_ptr := tl ptr\<rparr>, token)
          else if ch = 34 then json_next_string_token cfg json token
          else if ch = 45 \<or> (48 \<le> ch \<and> ch \<le> 57) then
            bindE (if decode_invalid_numbers cfg = 0 then json_is_invalid_number ptr else Inr False)
              (\<lambda>invalid.
                if invalid then Inr (json, json_set_token_error json ''invalid number'')
                else json_next_number_token env json token)
          else
            bindE (prefix_match id (bytes ''true'') ptr) (\<lambda>t. if t then
              Inr (json\<lparr>jp_ptr := drop 4 ptr\<rparr>, token\<lparr>tok_type := T_BOOLEAN, tok_value := BooleanValue True\<rparr>)
            else bindE (prefix_match id (bytes ''false'') ptr) (\<lambda>f. if f then
              Inr (json\<lparr>jp_ptr := drop 5 ptr\<rparr>, token\<lparr>tok_type := T_BOOLEAN, tok_value := BooleanValue False\<rparr>)
            else bindE (prefix_match id (bytes ''null'') ptr) (\<lambda>n. if n then
              Inr (json\<lparr>jp_ptr := drop 4 ptr\<rparr>, token\<lparr>tok_type := T_NULL\<rparr>)
            else bindE (if decode_invalid_numbers cfg \<noteq> 0 then json_is_invalid_number ptr else Inr False)
              (\<lambda>invalid.
                if invalid then json_next_number_token env json token
                else Inr (json, json_set_token_error json ''invalid token'')))))))"

section \<open>The parser\<close>

definition json_throw_parse_error :: "string \<Rightarrow> json_token \<Rightarrow> c_fault" where
  "json_throw_parse_error expected token =
     (let found = (if tok_type token = T_ERROR
                   then (case tok_value token of ErrorText e \<Rightarrow> e | _ \<Rightarrow> [])
                   else json_token_type_name (tok_type token))
      in LuaError (''Expected '' @ expected @ '' but found '' @ found @ '' at character '' @
           show_int (tok_index token + 1)))"

definition json_decode_ascend :: "json_parse \<Rightarrow> json_parse" where
  "json_decode_ascend json = json\<lparr>jp_depth := jp_depth json - 1\<rparr>"

definition json_decode_descend ::
    "cjson_env \<Rightarrow> json_config \<Rightarrow> json_parse \<Rightarrow> int \<Rightarrow> c_fault + json_parse" where
  "json_decode_descend env cfg json slots =
     (let json' = json\<lparr>jp_depth := jp_depth json + 1\<rparr> in
      if jp_depth json' \<le> decode_max_depth cfg \<and> lua_checkstack (env_api env) (jp_depth json') slots
      then Inr json'
      else Inl (LuaError (''Found too many nested data structures ('' @ show_int (jp_depth json') @
             '') at character '' @ show_int (jp_index json (jp_ptr json)))))"

type_synonym parse_result = "c_fault + (json_parse \<times> lua_value)"

function (sequential) json_process_value ::
    "nat \<Rightarrow> cjson_env \<Rightarrow> json_config \<Rightarrow> json_parse \<Rightarrow> json_token \<Rightarrow> parse_result"
  and json_parse_object_context :: "nat \<Rightarrow> cjson_env \<Rightarrow> json_config \<Rightarrow> json_parse \<Rightarrow> parse_result"
  and object_loop ::
    "nat \<Rightarrow> cjson_env \<Rightarrow> json_config \<Rightarrow> json_parse \<Rightarrow> json_token \<Rightarrow> lua_entries \<Rightarrow> parse_result"
  and json_parse_array_context :: "nat \<Rightarrow> cjson_env \<Rightarrow> json_config \<Rightarrow> json_parse \<Rightarrow> parse_result"
  and array_loop ::
    "nat \<Rightarrow> cjson_env \<Rightarrow> json_config \<Rightarrow> json_parse \<Rightarrow> json_token \<Rightarrow> int \<Rightarrow> lua_entries \<Rightarrow> parse_result" where
  "json_process_value fuel env cfg json token =
     (case (tok_type token, tok_value token) of
        (T_STRING, StringValue s) \<Rightarrow> Inr (json, LString s)
      | (T_NUMBER, NumberValue x) \<Rightarrow> Inr (json, LNumber x)
      | (T_BOOLEAN, BooleanValue b) \<Rightarrow> Inr (json, LBool b)
      | (T_OBJ_BEGIN, _) \<Rightarrow> json_parse_object_context fuel env cfg json
      | (T_ARR_BEGIN, _) \<Rightarrow> json_parse_array_context fuel env cfg json
      | (T_NULL, _) \<Rightarrow> Inr (json, LLightUserdata True)
      | _ \<Rightarrow> Inl (json_throw_parse_error ''value'' token))"
| "json_parse_object_context fuel env cfg json =
     bindE (json_decode_descend env cfg json 3) (\<lambda>j1.
     bindE (json_next_token env cfg j1) (\<lambda>(j2, token).
       if tok_type token = T_OBJ_END then Inr (json_decode_ascend j2, LTable [])
       else object_loop fuel env cfg j2 token []))"
| "object_loop 0 env cfg json token es = Inl Diverges"
| "object_loop (Suc fuel) env cfg json token es =
     (if tok_type token \<noteq> T_STRING then Inl (json_throw_parse_error ''object key string'' token)
      else
        let key = (case tok_value token of StringValue s \<Rightarrow> LString s | _ \<Rightarrow> LString []) in
        bindE (json_next_token env cfg json) (\<lambda>(j1, t1).
          if tok_type t1 \<noteq> T_COLON then Inl (json_throw_parse_error ''colon'' t1)
          else bindE (json_next_token env cfg j1) (\<lambda>(j2, t2).
            bindE (json_process_value fuel env cfg j2 t2) (\<lambda>(j3, v).
            bindE (json_next_token env cfg j3) (\<lambda>(j4, t4).
              if tok_type t4 = T_OBJ_END then Inr (json_decode_ascend j4, LTable (lua_rawset es key v))
              else if tok_type t4 \<noteq> T_COMMA then Inl (json_throw_parse_error ''comma or object end'' t4)
              else bindE (json_next_token env cfg j4) (\<lambda>(j5, t5).
                object_loop fuel env cfg j5 t5 (lua_rawset es key v)))))))"
| "json_parse_array_context fuel env cfg json =
     bindE (json_decode_descend env cfg json 2) (\<lambda>j1.
     bindE (json_next_token env cfg j1) (\<lambda>(j2, token).
       if tok_type token = T_ARR_END then Inr (json_decode_ascend j2, LTable [])
       else array_loop fuel env cfg j2 token 1 []))"
| "array_loop 0 env cfg json token i es = Inl Diverges"
| "array_loop (Suc fuel) env cfg json token i es =
     bindE (json_process_value fuel env cfg json token) (\<lambda>(j1, v).
     bindE (json_next_token env cfg j1) (\<lambda>(j2, t2).
       if tok_type t2 = T_ARR_END then Inr (json_decode_ascend j2, LTable (lua_rawset es (lua_index i) v))
       else if tok_type t2 \<noteq> T_COMMA then Inl (json_throw_parse_error ''comma or array end'' t2)
       else bindE (json_next_token env cfg j2) (\<lambda>(j3, t3).
         array_loop fuel env cfg j3 t3 (i + 1) (lua_rawset es (lua_index i) v))))"
  by pat_completeness auto
termination
  by (relation "measures
    [\<lambda>x. case x of
        Inl (Inl (n, _)) \<Rightarrow> n | Inl (Inr (n, _)) \<Rightarrow> n | Inr (Inl (n, _)) \<Rightarrow> n
      | Inr (Inr (Inl (n, _))) \<Rightarrow> n | Inr (Inr (Inr (n, _))) \<Rightarrow> n,
     \<lambda>x. case x of
        Inl (Inl _) \<Rightarrow> 2 | Inl (Inr _) \<Rightarrow> 1 | Inr (Inl _) \<Rightarrow> 0
      | Inr (Inr (Inl _)) \<Rightarrow> 1 | Inr (Inr (Inr _)) \<Rightarrow> 0]") auto

declare json_process_value.simps [simp del] json_parse_object_context.simps [simp del]
  json_parse_array_context.simps [simp del]

definition json_decode :: "cjson_env \<Rightarrow> json_config \<Rightarrow> lua_value list \<Rightarrow> c_fault + lua_value" where
  "json_decode env cfg stack =
     (case stack of
        [arg] \<Rightarrow>
          (case luaL_checkstring (env_api env) arg of
             None \<Rightarrow> Inl (LuaError ''string expected'')
           | Some s \<Rightarrow>
               let data = s @ [0]; json_len = length s in
               if json_len \<ge> 2 \<and> (data ! 0 = 0 \<or> data ! 1 = 0)
               then Inl (LuaError ''JSON parser does not support UTF-16 or UTF-32'')
               else
                 bindE (strbuf_new (env_heap env) (to_int (int json_len))) (\<lambda>tmp.
                 bindE (json_next_token env cfg \<lparr>jp_data = data, jp_ptr = data, jp_tmp = tmp, jp_depth = 0\<rparr>)
                   (\<lambda>(j1, t1).
                 bindE (json_process_value (length data) env cfg j1 t1) (\<lambda>(j2, v).
                 bindE (json_next_token env cfg j2) (\<lambda>(j3, t3).
                   if tok_type t3 \<noteq> T_END then Inl (json_throw_parse_error ''the end'' t3)
                   else Inr v)))))
      | _ \<Rightarrow> Inl (LuaError ''expected 1 argument''))"

section \<open>Protected conversion\<close>

text \<open>
  \<open>cjson.safe\<close> calls the conversion in protected mode: a Lua error becomes the two results nil and
  the message; the wrong number of arguments is raised.  A fatal error ends the process.
\<close>

definition json_protect_conversion ::
    "(lua_value list \<Rightarrow> c_fault + lua_value) \<Rightarrow> lua_value list \<Rightarrow> c_fault + lua_value list" where
  "json_protect_conversion target stack =
     (if length stack \<noteq> 1 then Inl (LuaError ''expected 1 argument'')
      else (case target stack of
              Inr v \<Rightarrow> Inr [v]
            | Inl (LuaError m) \<Rightarrow> Inr [LNil, LString (bytes m)]
            | Inl e \<Rightarrow> Inl e))"

section \<open>The comparison that stands in for \<open>strncasecmp\<close> on Windows\<close>

fun xxui_strncmp :: "byte list \<Rightarrow> byte list \<Rightarrow> int \<Rightarrow> c_fault + int" where
  "xxui_strncmp (a # as) (b # bs) n =
     (if a \<noteq> 0 \<and> b \<noteq> 0 \<and> n > 0 then
        (if sint a > sint b then Inr 1 else if sint a < sint b then Inr (- 1)
         else xxui_strncmp as bs (n - 1))
      else if a = b \<and> n = 0 then Inr 0
      else if b = 0 then Inr 1
      else Inr (- 1))"
| "xxui_strncmp _ _ n = Inl OutOfBounds"

end
