(* ===== verification/CjsonEncodeProofs.thy ===== *)
theory CjsonEncodeProofs
  imports CjsonEncode
begin

text \<open>
  The encoder implements its specification \<open>json_text\<close>: every step of the encoder appends to the
  buffer exactly the text of its part of the value, or stops with the error the specification
  has, or for lack of memory.  The relation \<open>refines\<close> states this of one step, \<open>refines_bind\<close>
  composes steps.
\<close>

section \<open>The refinement relation\<close>

definition left_behind :: "json_config \<Rightarrow> c_fault \<Rightarrow> strbuf \<Rightarrow> bool" where
  "left_behind cfg e s \<longleftrightarrow>
     (if encode_keep_buffer cfg = 0 then (\<exists>m. e = LuaError m) \<longrightarrow> sb_buf s = None else static_buf s)"

definition refines :: "cjson_env \<Rightarrow> json_config \<Rightarrow> strbuf \<Rightarrow> enc_result \<Rightarrow> c_fault + byte list \<Rightarrow> bool" where
  "refines env cfg s r t \<longleftrightarrow>
     (case r of
        Inl (e, s') \<Rightarrow>
          (t = Inl e \<or> sb_benign e \<and> (\<forall>xs. t = Inr xs \<longrightarrow> \<not> sb_room (env_heap env) s (6 * length xs + 32))) \<and>
          left_behind cfg e s'
      | Inr s' \<Rightarrow> \<exists>xs. t = Inr xs \<and> static_buf s' \<and> sb_text s' = sb_text s @ xs \<and>
          sb_increment s' = sb_increment s)"

lemma refinesE:
  assumes "refines env cfg s r t"
  obtains e s' where "r = Inl (e, s')" "left_behind cfg e s'" "t = Inl e"
  | e s' where "r = Inl (e, s')" "left_behind cfg e s'" "sb_benign e"
      "\<And>xs. t = Inr xs \<Longrightarrow> \<not> sb_room (env_heap env) s (6 * length xs + 32)"
  | s' xs where "r = Inr s'" "t = Inr xs" "static_buf s'" "sb_text s' = sb_text s @ xs"
      "sb_increment s' = sb_increment s"
  using assms by (auto simp: refines_def split: sum.splits)

lemma room_after:
  assumes "sb_wf s" "sb_wf s'" "sb_text s' = sb_text s @ xs" "sb_increment s' = sb_increment s"
    "sb_room h s (length xs + n)"
  shows "sb_room h s' n"
proof -
  have "sb_length s' = sb_length s + int (length xs)"
    using assms length_sb_text [of s] length_sb_text [of s'] by simp
  then show ?thesis using assms(4,5) by (simp add: sb_room_def add.assoc)
qed

lemma refines_bind:
  assumes s: "static_buf s" and r: "refines env cfg s r t"
    and f: "\<And>s'. static_buf s' \<Longrightarrow> refines env cfg s' (f s') u"
  shows "refines env cfg s (bindE r f) (seqT t u)"
  using r
proof (cases rule: refinesE)
  case (1 e s')
  then show ?thesis by (simp add: refines_def seqT_def)
next
  case (2 e s')
  have "\<not> sb_room (env_heap env) s (6 * length zs + 32)" if "seqT t u = Inr zs" for zs
  proof -
    from that obtain xs ys where "t = Inr xs" "zs = xs @ ys"
      by (auto simp: seqT_def bindE_Inr_iff)
    with 2(4) show ?thesis
      using sb.room_mono [of s "env_heap env" "6 * length zs + 32" "6 * length xs + 32"] s
      by (auto simp: static_buf_def)
  qed
  with 2 show ?thesis by (auto simp: refines_def)
next
  case (3 s' xs)
  from f [OF 3(3)] show ?thesis
  proof (cases rule: refinesE)
    case (2 e s'')
    have "\<not> sb_room (env_heap env) s (6 * length zs + 32)" if "seqT t u = Inr zs" for zs
    proof
      assume room: "sb_room (env_heap env) s (6 * length zs + 32)"
      from that 3(2) obtain ys where ys: "u = Inr ys" "zs = xs @ ys"
        by (auto simp: seqT_def bindE_Inr_iff)
      then have "sb_room (env_heap env) s (length xs + (6 * length ys + 32))"
        using sb.room_mono [OF _ room, of "length xs + (6 * length ys + 32)"] s
        by (auto simp: static_buf_def)
      with 3 s have "sb_room (env_heap env) s' (6 * length ys + 32)"
        using room_after [of s s' xs] by (auto simp: static_buf_def)
      with 2(4) [OF ys(1)] show False by contradiction
    qed
    with 2 3 show ?thesis by (auto simp: refines_def)
  qed (use 3 in \<open>auto simp: refines_def seqT_def\<close>)
qed

section \<open>Steps\<close>

text \<open>A buffer operation that appends a known text and needs no more room than the bound.\<close>

lemma refines_lift:
  assumes s: "static_buf s"
    and ok: "\<And>s'. m = Inr s' \<Longrightarrow> static_buf s' \<and> sb_text s' = sb_text s @ xs \<and> sb_increment s' = sb_increment s"
    and fault: "\<And>e. m = Inl e \<Longrightarrow> sb_benign e \<and> \<not> sb_room (env_heap env) s (6 * length xs + 32)"
  shows "refines env cfg s (lift_sb s m) (Inr xs)"
  using assms
  by (cases m) (auto simp: lift_sb_def refines_def left_behind_def sb_benign_def)

lemma ensured_push:
  assumes s: "static_buf s" and n: "length xs \<le> n" "n \<le> 6 * length xs + 32"
    and m: "m = bindE (strbuf_ensure_empty_length h s (int n)) (\<lambda>s1. g s1)"
    and g: "\<And>s1. static_buf s1 \<Longrightarrow> int n \<le> strbuf_empty_length s1 \<Longrightarrow> \<exists>s'. g s1 = Inr s' \<and> static_buf s' \<and>
        sb_text s' = sb_text s1 @ xs \<and> sb_increment s' = sb_increment s1"
    and h: "h = env_heap env"
  shows "refines env cfg s (lift_sb s m) (Inr xs)"
proof (rule refines_lift [OF s])
  fix s' assume "m = Inr s'"
  then obtain s1 where s1: "strbuf_ensure_empty_length h s (int n) = Inr s1" "g s1 = Inr s'"
    using m by (auto simp: bindE_Inr_iff)
  then have "sb_wf s1 \<and> sb_text s1 = sb_text s \<and> int n \<le> strbuf_empty_length s1 \<and>
      sb_increment s1 = sb_increment s" "sb_dynamic s1 = sb_dynamic s"
    using s strbuf_ensure_empty_length_Inr [of h s "int n" s1] strbuf_ensure_dynamic
    by (auto simp: static_buf_def)
  with s s1 g [of s1]
  show "static_buf s' \<and> sb_text s' = sb_text s @ xs \<and> sb_increment s' = sb_increment s"
    by (auto simp: static_buf_def)
next
  fix e assume e: "m = Inl e"
  have "strbuf_ensure_empty_length h s (int n) = Inl e"
  proof (cases "strbuf_ensure_empty_length h s (int n)")
    case (Inr s1)
    with s have "static_buf s1" "int n \<le> strbuf_empty_length s1"
      using strbuf_ensure_empty_length_Inr [of h s "int n" s1] strbuf_ensure_dynamic [of h s "int n" s1]
      by (auto simp: static_buf_def)
    with g [of s1] e m Inr show ?thesis by auto
  qed (use e m in simp)
  then show "sb_benign e \<and> \<not> sb_room (env_heap env) s (6 * length xs + 32)"
    using strbuf_ensure_empty_length_fault [of h s "int n" e]
      strbuf_ensure_empty_length_total [of s h n] s n
      sb.room_mono [of s h "6 * length xs + 32" n] h
    by (auto simp: static_buf_def)
qed

lemma push_step:
  "static_buf s \<Longrightarrow> int (length xs) \<le> strbuf_empty_length s \<Longrightarrow>
     \<exists>s'. sb_push s xs = Inr s' \<and> static_buf s' \<and> sb_text s' = sb_text s @ xs \<and> sb_increment s' = sb_increment s"
  using sb_push_ok [of s xs] sb_push_dynamic [of s xs] by (auto simp: static_buf_def)

lemma refines_emit: "static_buf s \<Longrightarrow> refines env cfg s (emit env s str) (Inr (bytes str))"
  unfolding emit_def append_as_push
  by (rule ensured_push [OF _ _ _ refl _ refl]) (auto intro: push_step)

lemma refines_append_mem:
  "static_buf s \<Longrightarrow> refines env cfg s (lift_sb s (strbuf_append_mem (env_heap env) s xs)) (Inr xs)"
  unfolding append_as_push
  by (rule ensured_push [OF _ _ _ refl _ refl]) (auto intro: push_step)

lemma refines_emit_char: "static_buf s \<Longrightarrow> refines env cfg s (emit_char env s c) (Inr [c])"
  unfolding emit_char_def append_as_push
  using ensured_push [where xs = "[c]" and n = 1 and g = "\<lambda>s. sb_push s [c]", OF _ _ _ refl _ refl]
    push_step [where xs = "[c]"] by auto

text \<open>Raising the encoder's error releases the buffer or leaves it well-formed.\<close>

lemma left_behind_released: "static_buf s \<Longrightarrow> left_behind cfg (LuaError m) (release_buffer cfg s)"
  by (auto simp: left_behind_def release_buffer_def strbuf_free_def Let_def static_buf_def)

lemma refines_error:
  "static_buf s \<Longrightarrow> refines env cfg s (Inl (LuaError m, release_buffer cfg s)) (Inl (LuaError m))"
  by (simp add: refines_def left_behind_released)

lemma refines_exception:
  "static_buf s \<Longrightarrow> refines env cfg s (Inl (json_encode_exception cfg s v reason))
     (Inl (LuaError (''Cannot serialise '' @ lua_typename v @ '': '' @ reason)))"
  unfolding json_encode_exception_def by (rule refines_error)

section \<open>Strings\<close>

lemma nth_all: "list_all P xs \<Longrightarrow> i < length xs \<Longrightarrow> P (xs ! i)"
  by (simp add: list_all_length)

lemma control_escapes_short:
  "list_all (\<lambda>e. length e \<le> 6 \<and> 0 \<notin> set (bytes e)) control_escapes" "length control_escapes = 32"
  by (simp_all add: control_escapes_def bytes_def of_char_def)

lemma char2escape_short:
  assumes "char2escape c = Some e"
  shows "length e \<le> 6 \<and> 0 \<notin> set e"
proof (cases "unat c < 32")
  case True
  with assms control_escapes_short show ?thesis
    using nth_all [OF control_escapes_short(1), of "unat c"]
    by (auto simp: char2escape_def bytes_def)
qed (use assms in \<open>auto simp: char2escape_def bytes_def of_char_def split: if_splits\<close>)

lemma escape1_length: "1 \<le> length (escape1 c) \<longleftrightarrow> escape1 c \<noteq> []" "length (escape1 c) \<le> 6"
  using char2escape_short [of c] by (auto simp: escape1_def Suc_le_eq split: option.splits)

lemma json_append_string_loop_ok:
  "static_buf s \<Longrightarrow> 6 * int (length str) + 1 \<le> strbuf_empty_length s \<Longrightarrow>
     \<exists>s'. json_append_string_loop h s str = Inr s' \<and> static_buf s' \<and>
       sb_text s' = sb_text s @ concat (map escape1 str) \<and> sb_increment s' = sb_increment s \<and>
       1 \<le> strbuf_empty_length s'"
proof (induction str arbitrary: s)
  case (Cons c str)
  have step: "\<exists>s1. (case char2escape c of
        Some escstr \<Rightarrow> strbuf_append_string h s (escstr @ [0])
      | None \<Rightarrow> strbuf_append_char_unsafe s c) = Inr s1 \<and> static_buf s1 \<and>
      sb_text s1 = sb_text s @ escape1 c \<and> sb_increment s1 = sb_increment s \<and> sb_size s1 = sb_size s"
  proof (cases "char2escape c")
    case None
    with Cons.prems show ?thesis
      using sb_push_ok [of s "[c]"] sb_push_dynamic [of s "[c]"]
      by (auto simp: append_as_push escape1_def static_buf_def)
  next
    case (Some e)
    with Cons.prems char2escape_short [OF Some] show ?thesis
      using strbuf_append_string_loop_fits [of s "strbuf_empty_length s" e h]
      by (auto simp: strbuf_append_string_def escape1_def static_buf_def)
  qed
  then obtain s1 where s1: "(case char2escape c of
        Some escstr \<Rightarrow> strbuf_append_string h s (escstr @ [0])
      | None \<Rightarrow> strbuf_append_char_unsafe s c) = Inr s1" "static_buf s1"
      "sb_text s1 = sb_text s @ escape1 c" "sb_increment s1 = sb_increment s" "sb_size s1 = sb_size s"
    by blast
  then have "sb_length s1 = sb_length s + int (length (escape1 c))"
    using length_sb_text [of s] length_sb_text [of s1] Cons.prems(1) by (simp add: static_buf_def)
  then have "6 * int (length str) + 1 \<le> strbuf_empty_length s1"
    using Cons.prems(2) escape1_length(2) [of c] s1(5) by (simp add: strbuf_empty_length_def)
  with Cons.IH [OF s1(2)] s1 show ?case by auto
qed simp

lemma refines_append_string:
  assumes s: "static_buf s" and len: "6 * int (length str) + 2 \<le> INT_MAX"
  shows "refines env cfg s (lift_sb s (json_append_string (env_heap env) s str)) (Inr (string_text str))"
proof (rule ensured_push [OF s])
  show "json_append_string (env_heap env) s str =
      bindE (strbuf_ensure_empty_length (env_heap env) s (int (6 * length str + 2))) (\<lambda>s1.
        bindE (strbuf_append_char_unsafe s1 34) (\<lambda>s2.
        bindE (json_append_string_loop (env_heap env) s2 str) (\<lambda>s3.
          strbuf_append_char_unsafe s3 34)))"
    using len by (simp add: json_append_string_def to_int_id fits_int_def INT_MIN_def algebra_simps)
  have "length (concat (map escape1 str)) \<le> 6 * length str"
    using escape1_length(2) by (induction str) (auto intro: add_le_mono)
  then show "length (string_text str) \<le> 6 * length str + 2" by (simp add: string_text_def)
  have "length str \<le> length (concat (map escape1 str))"
  proof (induction str)
    case (Cons c str)
    have "1 \<le> length (escape1 c)"
      by (auto simp: escape1_def char2escape_def control_escapes_def bytes_def nth_Cons'
          Suc_le_eq split: option.splits)
    with Cons show ?case by simp
  qed simp
  then show "6 * length str + 2 \<le> 6 * length (string_text str) + 32" by (simp add: string_text_def)
next
  fix s1 assume s1: "static_buf s1" "int (6 * length str + 2) \<le> strbuf_empty_length s1"
  obtain s2 where s2: "sb_push s1 [34] = Inr s2" "static_buf s2" "sb_text s2 = sb_text s1 @ [34]"
    "sb_increment s2 = sb_increment s1" "strbuf_empty_length s2 = strbuf_empty_length s1 - 1"
    using s1 sb_push_ok [of s1 "[34]"] sb_push_length [of s1 "[34]"] sb_push_dynamic [of s1 "[34]"]
    by (auto simp: static_buf_def strbuf_empty_length_def)
  with s1 obtain s3 where s3: "json_append_string_loop (env_heap env) s2 str = Inr s3" "static_buf s3"
    "sb_text s3 = sb_text s2 @ concat (map escape1 str)" "sb_increment s3 = sb_increment s2"
    "1 \<le> strbuf_empty_length s3"
    using json_append_string_loop_ok [of s2 str "env_heap env"] by auto
  with s2 push_step [of s3 "[34]"]
  show "\<exists>s'. bindE (strbuf_append_char_unsafe s1 34) (\<lambda>s2.
        bindE (json_append_string_loop (env_heap env) s2 str) (\<lambda>s3.
          strbuf_append_char_unsafe s3 34)) = Inr s' \<and> static_buf s' \<and>
      sb_text s' = sb_text s1 @ string_text str \<and> sb_increment s' = sb_increment s1"
    by (auto simp: append_as_push string_text_def)
qed simp

section \<open>Numbers and keys\<close>

lemma refines_print:
  assumes s: "static_buf s" and lib: "g_fmt_ok (env_lib env)" and p: "1 \<le> p" "p \<le> 14"
  shows "refines env cfg s (lift_sb s
      (bindE (strbuf_ensure_empty_length (env_heap env) s (int FPCONV_G_FMT_BUFSIZE)) (\<lambda>s1.
       bindE (fpconv_g_fmt (env_lib env) (env_dp env) num p) (\<lambda>(cs, len).
       bindE (sb_store s1 (sb_length s1) cs) (\<lambda>s2. strbuf_extend_length s2 len)))))
    (Inr (number_text (env_lib env) (env_dp env) num p))" (is "refines _ _ _ _ (Inr ?xs)")
proof (rule ensured_push [OF s _ _ refl _ refl])
  note txt_ok = fpconv_g_fmt_ok [OF lib p, of "env_dp env" num]
  show "length ?xs \<le> FPCONV_G_FMT_BUFSIZE" "FPCONV_G_FMT_BUFSIZE \<le> 6 * length ?xs + 32"
    using txt_ok(2) by (simp_all add: FPCONV_G_FMT_BUFSIZE_def)
  fix s1 assume s1: "static_buf s1" "int FPCONV_G_FMT_BUFSIZE \<le> strbuf_empty_length s1"
  then obtain cells where c: "sb_buf s1 = Some cells" "int (length cells) = sb_size s1"
    "0 \<le> sb_length s1" "sb_length s1 < sb_size s1" "sb_size s1 \<le> INT_MAX" "sb_increment s1 \<le> - 2"
    by (auto simp: static_buf_def elim: sb_wfE)
  have fit: "nat (sb_length s1) + (length ?xs + 1) \<le> length cells"
    using s1(2) c txt_ok(2) by (simp add: strbuf_empty_length_def FPCONV_G_FMT_BUFSIZE_def)
  then have "fits_int (sb_length s1 + int (length ?xs))" using c by (simp add: fits_int_def INT_MIN_def)
  with s1(1) c fit txt_ok(1)
  show "\<exists>s'. bindE (fpconv_g_fmt (env_lib env) (env_dp env) num p) (\<lambda>(cs, len).
       bindE (sb_store s1 (sb_length s1) cs) (\<lambda>s2. strbuf_extend_length s2 len)) = Inr s' \<and>
      static_buf s' \<and> sb_text s' = sb_text s1 @ ?xs \<and> sb_increment s' = sb_increment s1"
    by (auto simp: sb_store_def mem_write_def strbuf_extend_length_def iadd_def static_buf_def
        sb_wf_def sb_text_def nat_add_distrib)
qed

lemma refines_append_number:
  assumes s: "static_buf s" and lib: "g_fmt_ok (env_lib env)" and cfg: "cfg_settings cfg"
  shows "refines env cfg s (json_append_number env cfg s num) (num_text env cfg num)"
proof -
  have p: "1 \<le> encode_number_precision cfg" "encode_number_precision cfg \<le> 14"
    "encode_invalid_numbers cfg \<in> {0, 1, 2}"
    using cfg by (auto simp: cfg_settings_def)
  have "is_nan num \<Longrightarrow> \<not> is_inf num" by (auto simp: is_nan_def is_inf_def)
  then show ?thesis
    using refines_print [OF s lib p(1,2), of cfg num] p(3)
      refines_append_mem [OF s, of env cfg] refines_exception [OF s, of env cfg "LNumber num" "''must not be NaN or Inf''"]
    by (auto simp: json_append_number_def num_text_def Let_def lua_typename_def)
qed

lemma seqT_Inr: "seqT (Inr xs) (Inr ys) = Inr (xs @ ys)"
  by (simp add: seqT_def)

text \<open>Every string in the value is short enough that its escaped length is an \<open>int\<close>.\<close>

fun small_strings :: "lua_value \<Rightarrow> bool" where
  "small_strings (LString str) = (6 * int (length str) + 2 \<le> INT_MAX)"
| "small_strings (LTable es) = (\<forall>(k, v) \<in> set es. small_strings k \<and> small_strings v)"
| "small_strings _ = True"

lemma small_strings_rawget:
  "\<forall>(k, v) \<in> set es. small_strings k \<and> small_strings v \<Longrightarrow> small_strings (lua_rawget es k)"
  by (induction es k rule: lua_rawget.induct) auto

lemma refines_append_key:
  assumes s: "static_buf s" and lib: "g_fmt_ok (env_lib env)" and cfg: "cfg_settings cfg"
    and small: "small_strings key"
  shows "refines env cfg s (json_append_key env cfg key s) (key_text env cfg key)"
proof (cases key)
  case (LNumber k)
  then show ?thesis
    using s refines_emit_char refines_append_number [OF _ lib cfg]
      refines_emit [where str = "[CHR 0x22, CHR '':'']"]
    by (auto simp: json_append_key_def key_text_def bytes_def of_char_def intro!: refines_bind)
next
  case (LString k)
  with small have "refines env cfg s (bindE (lift_sb s (json_append_string (env_heap env) s k))
      (\<lambda>s1. emit_char env s1 58)) (seqT (Inr (string_text k)) (Inr [58]))"
    by (intro refines_bind [OF s] refines_append_string [OF s] refines_emit_char) auto
  with LString show ?thesis by (simp add: json_append_key_def key_text_def seqT_Inr)
qed (use refines_exception [OF s, of env cfg key] in \<open>auto simp: json_append_key_def key_text_def\<close>)

section \<open>Values\<close>

text \<open>The loop over the keys decides between array and object as the specification does.\<close>

lemma leading_indices_simps:
  "leading_indices [] = []"
  "leading_indices ((k, v) # es) = (case array_index k of None \<Rightarrow> [] | Some i \<Rightarrow> i # leading_indices es)"
  by (simp_all add: leading_indices_def split: option.split)

lemma array_scan_indices_of:
  assumes "0 \<le> mx" "mx \<le> INT_MAX" "0 \<le> items" "items \<le> INT_MAX"
  shows "array_scan es mx items =
    (let indices = leading_indices es in
     if list_ex (\<lambda>i. \<not> fits_int i) indices \<or> items + int (length indices) > INT_MAX then Inl SignedOverflow
     else if list_ex (\<lambda>e. array_index (fst e) = None) es then Inr None
     else Inr (Some (foldl max mx indices, items + int (length indices))))"
  using assms
proof (induction es arbitrary: mx items)
  case Nil
  then show ?case by (simp add: leading_indices_simps)
next
  case (Cons e es)
  obtain k v where e [simp]: "e = (k, v)" by fastforce
  show ?case
  proof (cases "array_index k")
    case None
    then show ?thesis using Cons.prems by (auto simp: leading_indices_simps array_index_def split: lua_value.splits c_double.splits if_splits)
  next
    case (Some i)
    show ?thesis
    proof (cases "fits_int i")
      case False
      have "INT_MAX < i"
        using False Some by (auto simp: array_index_def fits_int_def INT_MIN_def INT_MAX_def le_floor_iff split: lua_value.splits c_double.splits if_splits)
      with Some False Cons.prems show ?thesis
        by (auto simp: leading_indices_simps array_index_def less_floor_iff split: lua_value.splits c_double.splits if_splits)
    next
      case True
      then obtain r where r: "k = LNumber (Finite r)" "1 \<le> r" "of_int i = r" "i = \<lfloor>r\<rfloor>"
        using Some by (auto simp: array_index_def fits_int_def split: lua_value.splits c_double.splits if_splits)
      show ?thesis
      proof (cases "items + 1 \<le> INT_MAX")
        case False
        with r True Cons.prems Some show ?thesis by (auto simp: leading_indices_simps iadd_def fits_int_def)
      next
        case items: True
        have "array_scan ((k, v) # es) mx items = array_scan es (max mx i) (items + 1)"
          using r True items Cons.prems by (auto simp: iadd_def fits_int_def INT_MIN_def max_def)
        also have "\<dots> = (let indices = leading_indices es in
            if list_ex (\<lambda>i. \<not> fits_int i) indices \<or> items + 1 + int (length indices) > INT_MAX then Inl SignedOverflow
            else if list_ex (\<lambda>e. array_index (fst e) = None) es then Inr None
            else Inr (Some (foldl max (max mx i) indices, items + 1 + int (length indices))))"
          using r True items Cons.prems by (intro Cons.IH) (auto simp: fits_int_def)
        finally show ?thesis using Some True by (simp add: leading_indices_simps Let_def algebra_simps)
      qed
    qed
  qed
qed

lemma table_length_scan: "table_length cfg es = map_sum fst id (lua_array_length cfg fresh_buffer es)"
  using array_scan_indices_of [of 0 0 es]
  by (auto simp: table_length_def lua_array_length_def too_sparse_def Let_def json_encode_exception_def lua_typename_def INT_MAX_def)

lemma lua_array_length_cases:
  assumes "static_buf s"
  shows "(\<exists>n. lua_array_length cfg s es = Inr n \<and> table_length cfg es = Inr n) \<or>
    (\<exists>e s'. lua_array_length cfg s es = Inl (e, s') \<and> table_length cfg es = Inl e \<and> left_behind cfg e s')"
proof (cases "array_scan es 0 0")
  case (Inl e)
  moreover have "\<not> (\<exists>m. e = LuaError m)"
  proof -
    have "array_scan es mx n = Inl e \<Longrightarrow> e = SignedOverflow" for mx n
      by (induction es mx n rule: array_scan.induct)
        (auto simp: iadd_def split: if_splits lua_value.splits c_double.splits)
    with Inl show ?thesis by auto
  qed
  ultimately show ?thesis using assms
    by (auto simp: lua_array_length_def table_length_scan left_behind_def)
next
  case (Inr p)
  have "left_behind cfg SignedOverflow s" using assms by (simp add: left_behind_def)
  moreover have "\<exists>m. json_encode_exception cfg s' v r = (LuaError m, release_buffer cfg s') \<and>
      json_encode_exception cfg fresh_buffer v r = (LuaError m, release_buffer cfg fresh_buffer)" for v r s'
    by (simp add: json_encode_exception_def)
  ultimately show ?thesis using Inr left_behind_released [OF assms, of cfg]
    unfolding lua_array_length_def table_length_scan
    by (cases p) (simp_all add: json_encode_exception_def split: prod.split)
qed

lemma refines_table:
  assumes s: "static_buf s"
    and arr: "\<And>n. d \<le> encode_max_depth cfg \<and> lua_checkstack (env_api env) d 3 \<Longrightarrow>
        table_length cfg es = Inr n \<Longrightarrow> refines env cfg s (f n) (t n)"
  shows "refines env cfg s
     (bindE (json_check_encode_depth env cfg d s) (\<lambda>_. bindE (lua_array_length cfg s es) f))
     (if d \<le> encode_max_depth cfg \<and> lua_checkstack (env_api env) d 3
      then bindE (table_length cfg es) t
      else Inl (LuaError (''Cannot serialise, excessive nesting ('' @ show_int d @ '')'')))"
proof (cases "d \<le> encode_max_depth cfg \<and> lua_checkstack (env_api env) d 3")
  case True
  from lua_array_length_cases [OF s, of cfg es] show ?thesis
  proof (elim disjE exE conjE)
    fix n assume "lua_array_length cfg s es = Inr n" "table_length cfg es = Inr n"
    with True arr show ?thesis by (simp add: json_check_encode_depth_def)
  next
    fix e s' assume "lua_array_length cfg s es = Inl (e, s')" "table_length cfg es = Inl e"
      "left_behind cfg e s'"
    with True show ?thesis by (simp add: json_check_encode_depth_def refines_def)
  qed
next
  case False
  with refines_error [OF s, of env cfg] show ?thesis
    by (auto simp: json_check_encode_depth_def)
qed

lemma refines_comma:
  "static_buf s \<Longrightarrow> refines env cfg s (if comma then emit_char env s 44 else Inr s) (Inr (if comma then [44] else []))"
  using refines_emit_char [of s env cfg 44] by (auto simp: refines_def)

abbreviation small_entries :: "lua_entries \<Rightarrow> bool" where
  "small_entries es \<equiv> \<forall>(k, v) \<in> set es. small_strings k \<and> small_strings v"

lemma refines_array:
  assumes "static_buf s" "\<And>s'. static_buf s' \<Longrightarrow>
      refines env cfg s' (json_append_elements env cfg d es False 1 n s') t"
  shows "refines env cfg s (json_append_array env cfg d es n s) (seqT (Inr [91]) (seqT t (Inr [93])))"
  unfolding json_append_array.simps by (intro refines_bind refines_emit_char assms)

lemma refines_object:
  assumes "static_buf s" "\<And>s'. static_buf s' \<Longrightarrow>
      refines env cfg s' (json_append_members env cfg d es False s') t"
  shows "refines env cfg s (json_append_object env cfg d es s) (seqT (Inr [123]) (seqT t (Inr [125])))"
  unfolding json_append_object.simps by (intro refines_bind refines_emit_char assms)

lemma json_append_data_refines:
  shows "g_fmt_ok (env_lib env) \<Longrightarrow> cfg_settings cfg \<Longrightarrow> small_strings v \<Longrightarrow> static_buf s \<Longrightarrow>
      refines env cfg s (json_append_data env cfg d v s) (json_text env cfg d v)"
    and "g_fmt_ok (env_lib env) \<Longrightarrow> cfg_settings cfg \<Longrightarrow> small_entries es \<Longrightarrow> static_buf s \<Longrightarrow>
      refines env cfg s (json_append_elements env cfg d es comma i n s) (elements_text env cfg d es comma i n)"
    and "g_fmt_ok (env_lib env) \<Longrightarrow> cfg_settings cfg \<Longrightarrow> small_entries es \<Longrightarrow> static_buf s \<Longrightarrow>
      refines env cfg s (json_append_members env cfg d es comma s) (members_text env cfg d es comma)"
proof (induction env cfg d v and env cfg d es comma i n and env cfg d es comma
    arbitrary: s and s and s rule: json_text_elements_text_members_text.induct)
  case (1 env cfg d v)
  note step = json_append_data.simps [of env cfg d v] json_text.simps [of env cfg d v]
  show ?case
  proof (cases v)
    case (LTable es)
    with 1 have "small_entries es" by simp
    note ih = 1(1,2) [OF LTable _ _ _ 1(3,4) this]
    have "refines env cfg s (bindE (json_check_encode_depth env cfg (d + 1) s)
        (\<lambda>_. bindE (lua_array_length cfg s es) (\<lambda>len.
           if len > 0 then json_append_array env cfg (d + 1) es len s
           else json_append_object env cfg (d + 1) es s)))
      (if d + 1 \<le> encode_max_depth cfg \<and> lua_checkstack (env_api env) (d + 1) 3
       then bindE (table_length cfg es) (\<lambda>len.
          if len > 0 then seqT (Inr [91]) (seqT (elements_text env cfg (d + 1) es False 1 len) (Inr [93]))
          else seqT (Inr [123]) (seqT (members_text env cfg (d + 1) es False) (Inr [125])))
       else Inl (LuaError (''Cannot serialise, excessive nesting ('' @ show_int (d + 1) @ '')'')))"
      by (rule refines_table [OF 1(6)]) (auto intro!: refines_array refines_object 1(6) ih)
    with LTable show ?thesis unfolding step by simp
  qed (unfold step, use 1 refines_append_string refines_append_number refines_emit
      refines_exception [where cfg = cfg and env = env and v = v and reason = "''type not supported''"] in
      \<open>auto\<close>)
next
  case (2 env cfg d es comma i n)
  show ?case
  proof (cases "i \<le> n")
    case True
    note ih = 2(1) [OF True 2(3,4) small_strings_rawget [OF 2(5)]] 2(2) [OF True 2(3-5)]
    show ?thesis
      unfolding json_append_elements.simps [of env cfg d es comma i n s]
        elements_text.simps [of env cfg d es comma i n] if_P [OF True]
      by (intro refines_bind refines_comma ih 2(6))
  next
    case False
    with 2 show ?thesis
      by (simp add: json_append_elements.simps [of env cfg d es comma i n s]
          elements_text.simps [of env cfg d es comma i n] refines_def)
  qed
next
  case (3 env cfg d comma)
  then show ?case by (simp add: refines_def)
next
  case (4 env cfg d key v es comma)
  then have small: "small_strings key" "small_strings v" "small_entries es" by auto
  note ih = 4(1) [OF 4(3,4) small(2)] 4(2) [OF 4(3,4) small(3)]
  show ?case
    unfolding json_append_members.simps members_text.simps
    by (intro refines_bind refines_comma refines_append_key ih small 4)
qed

section \<open>Properties\<close>

text \<open>
  C5: \<open>json_encode\<close> on one argument gives the JSON text of the value, or the Lua error that the
  specification has for it; a failure of another kind is a lack of memory or a size beyond
  \<open>int\<close>, and does not happen when memory is granted and six times the text fits half the range
  of \<open>int\<close>.  No store leaves the buffer, and after a success or a Lua error the configuration is
  well-formed again.
\<close>

theorem json_encode_correct:
  assumes cfg: "cfg_wf cfg" and lib: "g_fmt_ok (env_lib env)" and small: "small_strings v"
  shows "case json_encode env cfg [v] of
      Inr (r, cfg') \<Rightarrow> cfg_wf cfg' \<and> (\<exists>xs. json_text env cfg 0 v = Inr xs \<and> r = LString xs)
    | Inl (e, cfg') \<Rightarrow>
        ((\<exists>m. e = LuaError m) \<longrightarrow> cfg_wf cfg') \<and>
        (json_text env cfg 0 v = Inl e \<or> sb_benign e \<and>
          (\<forall>xs. json_text env cfg 0 v = Inr xs \<longrightarrow>
             \<not> ((\<forall>n. can_alloc (env_heap env) n) \<and> 2 * (6 * int (length xs) + 33) \<le> INT_MAX)))"
proof -
  have settings: "cfg_settings cfg" using cfg by (simp add: cfg_wf_def)
  have room: "sb_room (env_heap env) b (6 * length xs + 32)"
    if "\<forall>n. can_alloc (env_heap env) n" "2 * (6 * int (length xs) + 33) \<le> INT_MAX" "static_buf b" "sb_length b = 0"
    for b xs
    using that by (simp add: sb_room_def static_buf_def STRBUF_DEFAULT_INCREMENT_def)
  consider (fail) e where "encode_keep_buffer cfg = 0" "strbuf_init (env_heap env) 0 = Inl e"
    | (buf) b where "static_buf b" "sb_text b = []" "sb_length b = 0"
        "json_encode env cfg [v] = bindE (Inr b) (\<lambda>buf.
            case json_append_data env cfg 0 v buf of
              Inl (e, b) \<Rightarrow> Inl (e, if encode_keep_buffer cfg = 0 then cfg else cfg\<lparr>encode_buf := b\<rparr>)
            | Inr b \<Rightarrow>
                (case strbuf_string b of
                   (None, _) \<Rightarrow> Inl (NullDeref, cfg)
                 | (Some cells, len) \<Rightarrow>
                     Inr (LString (take (nat len) cells),
                          if encode_keep_buffer cfg = 0 then cfg else cfg\<lparr>encode_buf := b\<rparr>)))"
  proof (cases "encode_keep_buffer cfg = 0")
    case True
    with fail buf strbuf_init_default [of "env_heap env"] show thesis
      by (cases "strbuf_init (env_heap env) 0") (auto simp: json_encode_def)
  next
    case False
    with cfg buf [of "strbuf_reset (encode_buf cfg)"] show thesis
      by (auto simp: json_encode_def cfg_wf_def strbuf_reset_def static_buf_def sb_wf_def sb_text_def
          split: option.splits)
  qed
  then show ?thesis
  proof cases
    case fail
    then have "e = Die ''Out of memory''" "\<not> can_alloc (env_heap env) STRBUF_DEFAULT_SIZE"
      by (auto simp: strbuf_init_def strbuf_ensure_null_def sb_store_def mem_write_def
          STRBUF_DEFAULT_SIZE_def split: if_splits)
    with fail cfg show ?thesis by (auto simp: json_encode_def sb_benign_def)
  next
    case buf
    from json_append_data_refines(1) [OF lib settings small buf(1), of 0]
    show ?thesis
    proof (cases rule: refinesE)
      case (3 s' xs)
      then obtain cells where "strbuf_string s' = (Some cells, sb_length s')" "take (nat (sb_length s')) cells = xs"
        using buf(2) by (auto simp: static_buf_def strbuf_string_def sb_text_def elim!: sb_wfE)
      with 3 buf cfg show ?thesis
        by (auto simp: cfg_wf_def cfg_settings_def static_buf_def)
    qed (use buf cfg room [OF _ _ buf(1,3)] in
        \<open>auto simp: cfg_wf_def cfg_settings_def left_behind_def static_buf_def\<close>)
  qed
qed

text \<open>A C library that knows the number one.\<close>

definition plain_lib :: c_numlib where
  "plain_lib = \<lparr>snprintf_g = (\<lambda>_ _. [49]),
     strtod = (\<lambda>s. if s \<noteq> [] \<and> hd s = 49 then (Finite 1, 1) else (Finite 0, 0))\<rparr>"

definition plain_env :: cjson_env where
  "plain_env = \<lparr>env_heap = ample_heap, env_api = strict_api, env_lib = plain_lib, env_dp = 46\<rparr>"

lemma plain_env_ok: "g_fmt_ok (env_lib plain_env)"
  by (simp add: plain_env_def plain_lib_def g_fmt_ok_def)

definition sample_value :: lua_value where
  "sample_value = LTable [(LString [97], LTable [(lua_index 1, LBool True), (lua_index 2, LNumber (Finite 1))])]"

definition sample_text :: "byte list" where
  "sample_text = [123, 34, 97, 34, 58, 91, 116, 114, 117, 101, 44, 49, 93, 125]"

lemma sample_value_text: "json_text plain_env default_config 0 sample_value = Inr sample_text"
  by (simp add: sample_value_def sample_text_def json_text.simps elements_text.simps table_length_scan
      lua_array_length_def lua_index_def double_of_int_def default_config_def plain_env_def strict_api_def
      iadd_def fits_int_def INT_MAX_def INT_MIN_def seqT_def key_text_def string_text_def escape1_def
      char2escape_def bytes_def of_char_def num_text_def is_nan_def is_inf_def number_text_def
      fpconv_g_fmt_def set_number_format_def plain_lib_def FPCONV_G_FMT_BUFSIZE_def Let_def)

theorem json_encode_correct_witness:
  "\<exists>cfg'. json_encode plain_env default_config [sample_value] = Inr (LString sample_text, cfg') \<and> cfg_wf cfg'"
proof -
  have small: "small_strings sample_value"
    by (simp add: sample_value_def lua_index_def INT_MAX_def)
  have "2 * (6 * int (length sample_text) + 33) \<le> INT_MAX" "\<forall>n. can_alloc (env_heap plain_env) n"
    by (simp_all add: sample_text_def INT_MAX_def plain_env_def ample_heap_def)
  then show ?thesis
    using json_encode_correct [OF default_config_wf plain_env_ok small]
    by (auto simp: sample_value_text split: sum.splits prod.splits)
qed

text \<open>
  a string of plain characters so long that \<open>len * 6 + 2\<close> is beyond \<open>int\<close> but below
  \<open>2 ^ 32\<close> gets no room at all, because the size wraps to a negative number: the encoder then
  stores outside the buffer.
\<close>

theorem json_append_string_overruns:
  assumes s: "sb_wf s"
    and plain: "\<And>c. c \<in> set str \<Longrightarrow> char2escape c = None"
    and len: "INT_MAX < 6 * int (length str) + 2" "6 * int (length str) + 2 < 2 ^ 32"
    and big: "sb_size s \<le> int (length str)"
  shows "json_append_string h s str = Inl OutOfBounds"
proof -
  let ?x = "int (length str) * 6 + 2"
  have "(?x + 2147483648) mod 4294967296 = (?x + 2147483648 - 4294967296) mod 4294967296"
    by (rule minus_mod_self2 [symmetric])
  also have "\<dots> = ?x + 2147483648 - 4294967296"
    using len by (intro mod_pos_pos_trivial) (simp_all add: INT_MAX_def)
  finally have "to_int (int (length str) * 6 + 2) = 6 * int (length str) + 2 - 4294967296"
    by (simp add: to_int_def)
  then have "to_int (int (length str) * 6 + 2) \<le> strbuf_empty_length s"
    using len(2) s by (auto simp: strbuf_empty_length_def elim!: sb_wfE)
  then have "strbuf_ensure_empty_length h s (to_int (int (length str) * 6 + 2)) = Inr s"
    by (simp add: strbuf_ensure_empty_length_def)
  have overrun: "json_append_string_loop h b cs = Inl OutOfBounds"
    if "sb_buf b = Some cells" "int (length cells) = sb_size b" "0 \<le> sb_length b" "sb_length b \<le> sb_size b"
      "sb_size b \<le> INT_MAX" "sb_size b - sb_length b < int (length cs)"
      "\<And>c. c \<in> set cs \<Longrightarrow> char2escape c = None"
    for b cells cs
    using that
  proof (induction cs arbitrary: b cells)
    case (Cons c cs)
    show ?case
    proof (cases "sb_length b < sb_size b")
      case True
      then have "fits_int (sb_length b + 1)" using Cons.prems by (simp add: fits_int_def INT_MIN_def)
      with Cons True show ?thesis
        by (auto simp: append_as_push sb_push_def sb_store_def mem_write_def strbuf_extend_length_def iadd_def)
    next
      case False
      with Cons.prems show ?thesis
        by (auto simp: append_as_push sb_push_def sb_store_def mem_write_def)
    qed
  qed simp
  obtain cells where c: "sb_buf s = Some cells" "int (length cells) = sb_size s"
    "0 \<le> sb_length s" "sb_length s < sb_size s" "sb_size s \<le> INT_MAX"
    using s by (auto elim: sb_wfE)
  then have "\<exists>s2. strbuf_append_char_unsafe s 34 = Inr s2 \<and> (\<exists>cells2. sb_buf s2 = Some cells2 \<and>
      int (length cells2) = sb_size s2) \<and> sb_length s2 = sb_length s + 1 \<and> sb_size s2 = sb_size s"
    by (auto simp: append_as_push sb_push_def sb_store_def mem_write_def strbuf_extend_length_def iadd_def
        fits_int_def INT_MIN_def)
  then obtain s2 cells2 where s2: "strbuf_append_char_unsafe s 34 = Inr s2" "sb_buf s2 = Some cells2"
    "int (length cells2) = sb_size s2" "sb_length s2 = sb_length s + 1" "sb_size s2 = sb_size s"
    by blast
  with overrun [of s2 cells2 str] c big plain
  have "json_append_string_loop h s2 str = Inl OutOfBounds" by simp
  with s2 \<open>strbuf_ensure_empty_length h s _ = Inr s\<close> show ?thesis
    by (simp add: json_append_string_def)
qed

theorem json_append_string_overruns_witness:
  "json_append_string ample_heap fresh_buffer (replicate 400000000 65) = Inl OutOfBounds"
  by (rule json_append_string_overruns [OF fresh_buffer_wf(1)])
    (simp_all add: char2escape_def INT_MAX_def fresh_buffer_def)

end
