(* ===== verification/CjsonDecodeProofs.thy ===== *)
theory CjsonDecodeProofs
  imports CjsonDecode CjsonEncodeProofs
begin

text \<open>
  Safety of the decoder on every input: it reads only up to the terminating zero, its unchecked
  appends to the temporary buffer stay inside the block that was sized from the input, and it
  ends.  The pointer's view of the input is \<open>terminated\<close>; \<open>fits_tmp\<close> says how many bytes the
  temporary buffer still takes.
\<close>

section \<open>The invariants\<close>

definition terminated :: "byte list \<Rightarrow> bool" where
  "terminated p \<longleftrightarrow> p \<noteq> [] \<and> last p = 0"

definition fits_tmp :: "strbuf \<Rightarrow> nat \<Rightarrow> bool" where
  "fits_tmp tmp n \<longleftrightarrow> sb_wf tmp \<and> sb_length tmp + int n < sb_size tmp"

definition jp_ok :: "json_parse \<Rightarrow> bool" where
  "jp_ok json \<longleftrightarrow> terminated (jp_ptr json) \<and> sb_wf (jp_tmp json) \<and>
     int (length (jp_ptr json)) \<le> sb_size (jp_tmp json)"

text \<open>What the C library promises of \<open>strtod\<close>: it consumes no more than the string before its zero.\<close>

definition strtod_ok :: "c_numlib \<Rightarrow> bool" where
  "strtod_ok lib \<longleftrightarrow> (\<forall>s. snd (strtod lib s) \<le> length (takeWhile (\<lambda>b. b \<noteq> 0) s))"

lemma terminated_Cons: "terminated (c # p) \<longleftrightarrow> (if p = [] then c = 0 else terminated p)"
  by (simp add: terminated_def)

lemma terminated_Cons_nonzero: "terminated (c # p) \<Longrightarrow> c \<noteq> 0 \<Longrightarrow> terminated p"
  by (simp add: terminated_Cons split: if_splits)

lemma terminated_drop:
  "terminated p \<Longrightarrow> 0 \<notin> set (take n p) \<Longrightarrow> terminated (drop n p) \<and> n < length p"
proof (induction n arbitrary: p)
  case (Suc n)
  then show ?case
    by (cases p) (auto simp: terminated_Cons [of _ "tl p"] terminated_def split: if_splits)
qed (simp add: terminated_def)

lemma mem_get_terminated: "terminated p \<Longrightarrow> mem_get p 0 = Inr (hd p)"
  by (cases p) (simp_all add: terminated_def mem_get_def)

lemma fits_tmp_push:
  assumes "fits_tmp tmp n" "length xs \<le> n"
  shows "\<exists>tmp'. sb_push tmp xs = Inr tmp' \<and> fits_tmp tmp' (n - length xs) \<and>
    sb_text tmp' = sb_text tmp @ xs \<and> sb_size tmp' = sb_size tmp"
  using assms sb_push_ok [of tmp xs] sb_push_length [of tmp xs]
  by (auto simp: fits_tmp_def strbuf_empty_length_def)

lemma fits_tmp_mono: "fits_tmp tmp n \<Longrightarrow> m \<le> n \<Longrightarrow> fits_tmp tmp m"
  by (auto simp: fits_tmp_def)

lemma strbuf_reset_fits: "sb_wf tmp \<Longrightarrow> int n < sb_size tmp \<Longrightarrow>
    fits_tmp (strbuf_reset tmp) n \<and> sb_text (strbuf_reset tmp) = [] \<and> sb_size (strbuf_reset tmp) = sb_size tmp"
  by (auto simp: fits_tmp_def strbuf_reset_def sb_wf_def sb_text_def split: option.splits)

lemma strbuf_ensure_null_ok:
  assumes "sb_wf tmp"
  shows "\<exists>tmp'. strbuf_ensure_null tmp = Inr tmp' \<and> sb_wf tmp' \<and> sb_size tmp' = sb_size tmp \<and>
    tmp_value tmp' = StringValue (sb_text tmp)"
proof -
  obtain cells where c: "sb_buf tmp = Some cells" "int (length cells) = sb_size tmp"
    "0 \<le> sb_length tmp" "sb_length tmp < sb_size tmp" "sb_size tmp \<le> INT_MAX" "sb_increment tmp \<le> - 2"
    using assms by (rule sb_wfE)
  then have "nat (sb_length tmp) + 1 \<le> length cells" by linarith
  with c show ?thesis
    by (auto simp: strbuf_ensure_null_def sb_store_def mem_write_def sb_wf_def tmp_value_def
        strbuf_string_def sb_text_def)
qed

section \<open>Unicode escapes\<close>

lemma hexdigit2int_nonzero: "hexdigit2int c \<ge> 0 \<Longrightarrow> c \<noteq> 0"
  by (auto simp: hexdigit2int_def)

lemma hex_digits_ok:
  assumes "terminated p"
  shows "\<exists>r. hex_digits n p = Inr r \<and>
    (r \<noteq> None \<longrightarrow> n < length p \<and> 0 \<notin> set (take n p) \<and> length (the r) = n)"
  using assms
proof (induction n arbitrary: p)
  case 0
  then show ?case by (auto simp: terminated_def)
next
  case (Suc n)
  then obtain c q where p: "p = c # q" by (cases p) (auto simp: terminated_def)
  show ?case
  proof (cases "hexdigit2int c < 0")
    case False
    with hexdigit2int_nonzero have "c \<noteq> 0" by auto
    with Suc.prems p obtain r where "hex_digits n q = Inr r"
      "r \<noteq> None \<longrightarrow> n < length q \<and> 0 \<notin> set (take n q) \<and> length (the r) = n"
      using Suc.IH [of q] terminated_Cons_nonzero [of c q] by blast
    with \<open>c \<noteq> 0\<close> p False show ?thesis by (cases r) auto
  qed (simp add: p)
qed

lemma decode_hex4_ok:
  assumes "terminated p"
  shows "\<exists>x. decode_hex4 p = Inr x \<and> (0 \<le> x \<longrightarrow> terminated (drop 4 p) \<and> 0 \<notin> set (take 4 p) \<and> 4 < length p)"
proof -
  obtain r where "hex_digits 4 p = Inr r" "r \<noteq> None \<longrightarrow> 4 < length p \<and> 0 \<notin> set (take 4 p)"
    using hex_digits_ok [OF assms, of 4] by blast
  with terminated_drop [OF assms, of 4] show ?thesis
    by (cases r) (auto simp: decode_hex4_def)
qed

lemma length_codepoint_to_utf8: "length (codepoint_to_utf8 cp) \<le> 4"
  by (simp add: codepoint_to_utf8_def)

lemma nonzero_add:
  "0 \<notin> set (take m p) \<Longrightarrow> 0 \<notin> set (take n (drop m p)) \<Longrightarrow> 0 \<notin> set (take (m + n) (p :: byte list))"
  by (simp add: take_add)

lemma mem_get_ok:
  assumes "terminated p" "0 \<notin> set (take i p)"
  obtains c where "mem_get p i = Inr c" "c \<noteq> 0 \<Longrightarrow> 0 \<notin> set (take (Suc i) p)"
proof -
  from terminated_drop [OF assms] have "i < length p" by simp
  with assms(2) that show thesis
    by (auto simp: mem_get_def take_Suc_conv_app_nth)
qed

lemma decode_hex4_at:
  assumes "terminated p" "0 \<notin> set (take i p)"
  obtains x where "decode_hex4 (drop i p) = Inr x" "0 \<le> x \<Longrightarrow> 0 \<notin> set (take (i + 4) p)"
  using terminated_drop [OF assms] decode_hex4_ok [of "drop i p"] nonzero_add [OF assms(2), of 4]
  by blast

lemma escape_codepoint_ok:
  assumes p: "terminated p" and nz: "0 \<notin> set (take 2 p)"
  obtains r where "escape_codepoint p = Inr r"
    "\<And>cp n. r = Some (cp, n) \<Longrightarrow> 6 \<le> n \<and> 0 \<notin> set (take n p)"
proof -
  obtain x where x: "decode_hex4 (drop 2 p) = Inr x" "0 \<le> x \<Longrightarrow> 0 \<notin> set (take 6 p)"
    using decode_hex4_at [OF p nz] by auto
  show thesis
  proof (cases "0 \<le> x \<and> x AND 0xF800 = 0xD800 \<and> x AND 0x400 = 0")
    case False
    then consider "x < 0" | "0 \<le> x" "x AND 0xF800 \<noteq> 0xD800" | "0 \<le> x" "x AND 0xF800 = 0xD800" "x AND 0x400 \<noteq> 0"
      by linarith
    then show ?thesis
    proof cases
      case 2
      with x that [of "Some (x, 6)"] show ?thesis by (simp add: escape_codepoint_def)
    qed (use x that [of None] in \<open>simp_all add: escape_codepoint_def\<close>)
  next
    case True
    with x have nz6: "0 \<notin> set (take 6 p)" by simp
    obtain c6 where c6: "mem_get p 6 = Inr c6" "c6 \<noteq> 0 \<Longrightarrow> 0 \<notin> set (take 7 p)"
      using mem_get_ok [OF p nz6] by auto
    show ?thesis
    proof (cases "c6 = 92")
      case False
      with x True c6 that show ?thesis by (simp add: escape_codepoint_def)
    next
      case c6_esc: True
      with c6 have nz7: "0 \<notin> set (take 7 p)" by simp
      obtain c7 where c7: "mem_get p 7 = Inr c7" "c7 \<noteq> 0 \<Longrightarrow> 0 \<notin> set (take 8 p)"
        using mem_get_ok [OF p nz7] by auto
      show ?thesis
      proof (cases "c7 = 117")
        case False
        with x True c6 c6_esc c7 that show ?thesis by (simp add: escape_codepoint_def)
      next
        case c7_u: True
        with c7 obtain y where y: "decode_hex4 (drop 8 p) = Inr y" "0 \<le> y \<Longrightarrow> 0 \<notin> set (take 12 p)"
          using decode_hex4_at [OF p, of 8] by auto
        show ?thesis
        proof (cases "0 \<le> y \<and> y AND 0xFC00 = 0xDC00")
          case False
          with x True c6 c6_esc c7 c7_u y that [of None] show ?thesis
            by (auto simp: escape_codepoint_def)
        next
          case True': True
          with x True c6 c6_esc c7 c7_u y that show ?thesis
            by (simp add: escape_codepoint_def)
        qed
      qed
    qed
  qed
qed

lemma json_append_unicode_escape_ok:
  assumes p: "terminated p" and nz: "0 \<notin> set (take 2 p)" and fits: "fits_tmp tmp (length p)"
  obtains r where "json_append_unicode_escape p tmp = Inr r"
    "\<And>p' tmp'. r = Some (p', tmp') \<Longrightarrow> terminated p' \<and> fits_tmp tmp' (length p') \<and>
       sb_size tmp' = sb_size tmp \<and> length p' < length p"
proof -
  obtain r where r: "escape_codepoint p = Inr r"
    "\<And>cp n. r = Some (cp, n) \<Longrightarrow> 6 \<le> n \<and> 0 \<notin> set (take n p)"
    using escape_codepoint_ok [OF p nz] by blast
  show thesis
  proof (cases "\<exists>cp n. r = Some (cp, n) \<and> codepoint_to_utf8 cp \<noteq> []")
    case False
    with r that show ?thesis
      by (cases r) (auto simp: json_append_unicode_escape_def Let_def)
  next
    case True
    then obtain cp n where cp: "r = Some (cp, n)" "codepoint_to_utf8 cp \<noteq> []" by blast
    with r have n: "6 \<le> n" "terminated (drop n p)" "n < length p"
      using terminated_drop [OF p, of n] by auto
    obtain tmp' where "sb_push tmp (codepoint_to_utf8 cp) = Inr tmp'"
      "fits_tmp tmp' (length p - length (codepoint_to_utf8 cp))" "sb_size tmp' = sb_size tmp"
      using fits_tmp_push [OF fits, of "codepoint_to_utf8 cp"] length_codepoint_to_utf8 [of cp] n by auto
    moreover from this have "fits_tmp tmp' (length (drop n p))"
      using length_codepoint_to_utf8 [of cp] n by (auto elim!: fits_tmp_mono)
    ultimately show ?thesis
      using cp r n that by (auto simp: json_append_unicode_escape_def append_as_push)
  qed
qed

section \<open>String tokens\<close>

lemma escape2char_init_u: "escape2char_init c = 117 \<Longrightarrow> c = 117"
  by (auto simp: escape2char_init_def split: if_splits)

lemma escape2char_init_zero: "escape2char_init 0 = 0"
  by (simp add: escape2char_init_def)

lemma string_token_loop_ok:
  assumes "esc = escape2char_init" "terminated p" "fits_tmp tmp (length p)"
  shows "\<exists>p' tmp' err. string_token_loop esc p tmp = Inr (p', tmp', err) \<and> terminated p' \<and>
    sb_wf tmp' \<and> sb_size tmp' = sb_size tmp \<and> length p' \<le> length p \<and> (err = None \<longrightarrow> hd p' = 34)"
  using assms
proof (induction esc p tmp rule: string_token_loop.induct)
  case (1 esc tmp)
  then show ?case by (simp add: terminated_def)
next
  case (2 esc ch rest tmp)
  note step = string_token_loop.simps(2) [of esc ch rest tmp]
  have wf: "sb_wf tmp" using 2(6) by (simp add: fits_tmp_def)
  consider "ch = 34 \<or> ch = 0" | "ch \<noteq> 0" "ch \<noteq> 34" "ch \<noteq> 92" | "ch = 92" by blast
  then show ?case
  proof cases
    case 1
    with "2.prems" wf show ?thesis unfolding step by auto
  next
    case plain: 2
    obtain tmp' where "sb_push tmp [ch] = Inr tmp'" "fits_tmp tmp' (length rest)" "sb_size tmp' = sb_size tmp"
      using fits_tmp_push [OF "2.prems"(3), of "[ch]"] by auto
    with plain "2.IH"(3) [OF plain(2,1,3)] "2.prems" terminated_Cons_nonzero [of ch rest] show ?thesis
      unfolding step by (auto simp: append_as_push intro: le_SucI)
  next
    case esc: 3
    then have rest: "terminated rest" using "2.prems" terminated_Cons_nonzero [of ch rest] by auto
    then obtain c q where q: "rest = c # q" by (cases rest) (auto simp: terminated_def)
    have get: "mem_get rest 0 = Inr c" by (simp add: q mem_get_def)
    note ih = "2.IH"(1,2) [OF _ _ esc get]
    consider "esc c = 117" | "esc c = 0" | "esc c \<noteq> 117" "esc c \<noteq> 0" by blast
    then show ?thesis
    proof cases
      case 1
      then have "c = 117" using escape2char_init_u "2.prems"(1) by blast
      then have nz: "0 \<notin> set (take 2 (ch # rest))" using esc q by simp
      obtain r where r: "json_append_unicode_escape (ch # rest) tmp = Inr r"
        "\<And>p' tmp'. r = Some (p', tmp') \<Longrightarrow> terminated p' \<and> fits_tmp tmp' (length p') \<and>
           sb_size tmp' = sb_size tmp \<and> length p' < length (ch # rest)"
        using json_append_unicode_escape_ok [OF "2.prems"(2) nz "2.prems"(3)] by blast
      show ?thesis
      proof (cases r)
        case None
        with r(1) 1 esc get wf "2.prems"(2) show ?thesis unfolding step by simp
      next
        case (Some pt)
        then obtain p' tmp' where pt: "r = Some (p', tmp')" by (cases pt) auto
        note r2 = r(2) [OF pt]
        from ih(1) [OF _ _ 1 r(1) pt refl "2.prems"(1)] r2 esc
        obtain p'' tmp'' err where "string_token_loop esc p' tmp' = Inr (p'', tmp'', err)" "terminated p''"
          "sb_wf tmp''" "sb_size tmp'' = sb_size tmp" "length p'' \<le> length p'" "err = None \<longrightarrow> hd p'' = 34"
          by auto
        with r2 r(1) 1 esc get pt show ?thesis unfolding step by simp
      qed
    next
      case 2
      with esc get wf "2.prems"(2) show ?thesis unfolding step by simp
    next
      case 3
      from 3 "2.prems"(1) escape2char_init_zero have "c \<noteq> 0" by metis
      then have q': "terminated q" using rest q terminated_Cons_nonzero by blast
      obtain tmp' where t: "sb_push tmp [esc c] = Inr tmp'" "fits_tmp tmp' (length rest)" "sb_size tmp' = sb_size tmp"
        using fits_tmp_push [OF "2.prems"(3), of "[esc c]"] by auto
      then have "fits_tmp tmp' (length (tl rest))" using q by (auto elim: fits_tmp_mono)
      with ih(2) [OF _ _ 3, of tmp'] t esc q q' "2.prems"(1)
      obtain p'' tmp'' err where "string_token_loop esc q tmp' = Inr (p'', tmp'', err)" "terminated p''"
        "sb_wf tmp''" "sb_size tmp'' = sb_size tmp" "length p'' \<le> length q" "err = None \<longrightarrow> hd p'' = 34"
        by (auto simp: append_as_push)
      with esc 3 get t q show ?thesis unfolding step by (simp add: append_as_push)
    qed
  qed
qed

section \<open>Tokens\<close>

text \<open>Input still needed after a token: a token other than the end or an error has been consumed.\<close>

definition need :: "json_token \<Rightarrow> json_parse \<Rightarrow> nat" where
  "need t json = length (jp_ptr json) + (if tok_type t = T_END \<or> tok_type t = T_ERROR then 0 else 1)"

text \<open>What reading a token promises.\<close>

definition token_result :: "json_parse \<Rightarrow> c_fault + (json_parse \<times> json_token) \<Rightarrow> bool" where
  "token_result json r \<longleftrightarrow>
     (case r of
        Inl e \<Rightarrow> e = Die ''Out of memory''
      | Inr (json', t) \<Rightarrow> jp_ok json' \<and> need t json' \<le> length (jp_ptr json) \<and>
          jp_depth json' = jp_depth json)"

lemma token_error_ok:
  "jp_ok json \<Longrightarrow> token_result json (Inr (json, json_set_token_error json e))"
  by (simp add: token_result_def need_def json_set_token_error_def)

lemma token_skip_ok:
  assumes "jp_ok json" "0 \<notin> set (take n (jp_ptr json))" "0 < n"
  shows "token_result json (Inr (json\<lparr>jp_ptr := drop n (jp_ptr json)\<rparr>, t))"
  using assms terminated_drop [of "jp_ptr json" n]
  by (auto simp: token_result_def need_def jp_ok_def)

lemma json_next_string_token_ok:
  assumes cfg: "cfg_settings cfg" and json: "jp_ok json" and hd: "hd (jp_ptr json) = 34"
  shows "token_result json (json_next_string_token cfg json t)"
proof -
  obtain p where p: "jp_ptr json = 34 # p" "terminated p"
    using json hd terminated_Cons_nonzero [of 34]
    by (cases "jp_ptr json") (auto simp: jp_ok_def terminated_def)
  have "fits_tmp (strbuf_reset (jp_tmp json)) (length p)" "sb_size (strbuf_reset (jp_tmp json)) = sb_size (jp_tmp json)"
    using strbuf_reset_fits [of "jp_tmp json" "length p"] json p by (auto simp: jp_ok_def)
  then obtain p' tmp' err where loop:
    "string_token_loop (escape2char cfg) p (strbuf_reset (jp_tmp json)) = Inr (p', tmp', err)" "terminated p'"
    "sb_wf tmp'" "sb_size tmp' = sb_size (jp_tmp json)" "length p' \<le> length p" "err = None \<longrightarrow> hd p' = 34"
    using string_token_loop_ok [OF _ p(2)] cfg by (force simp: cfg_settings_def)
  show ?thesis
  proof (cases err)
    case None
    obtain tmp'' where "strbuf_ensure_null tmp' = Inr tmp''" "sb_wf tmp''" "sb_size tmp'' = sb_size tmp'"
      using strbuf_ensure_null_ok [OF loop(3)] by blast
    moreover obtain q where "p' = 34 # q" "terminated q"
      using loop None terminated_Cons_nonzero [of 34] by (cases p') (auto simp: terminated_def)
    ultimately show ?thesis
      using loop None p json
      by (auto simp: json_next_string_token_def mem_get_def token_result_def need_def jp_ok_def)
  next
    case (Some e)
    with loop p json show ?thesis
      by (auto simp: json_next_string_token_def mem_get_def token_result_def need_def jp_ok_def
          json_set_token_error_def Let_def)
  qed
qed

lemma valid_number_character_nonzero: "valid_number_character c \<Longrightarrow> c \<noteq> 0"
  by (auto simp: valid_number_character_def)

lemma strtod_buffer_size_le:
  "strtod_buffer_size s \<le> length (takeWhile (\<lambda>b. b \<noteq> 0) s)"
  unfolding strtod_buffer_size_def
  by (induction s) (auto dest: valid_number_character_nonzero)

lemma length_replace_first [simp]: "length (replace_first a b s) = length s"
  by (induction a b s rule: replace_first.induct) auto

lemma fpconv_strtod_cases:
  assumes lib: "strtod_ok lib"
  shows "case fpconv_strtod h lib dp p of
      Inl e \<Rightarrow> e = Die ''Out of memory''
    | Inr (x, n) \<Rightarrow> n \<le> length (takeWhile (\<lambda>b. b \<noteq> 0) p)"
proof (cases "dp = 46")
  case True
  moreover have "snd (strtod lib p) \<le> length (takeWhile (\<lambda>b. b \<noteq> 0) p)"
    using lib unfolding strtod_ok_def by blast
  ultimately show ?thesis by (auto simp: fpconv_strtod_def split: prod.split)
next
  case False
  let ?buf = "replace_first 46 dp (take (strtod_buffer_size p) p) @ [0]"
  have "snd (strtod lib ?buf) \<le> length (takeWhile (\<lambda>b. b \<noteq> 0) ?buf)"
    using lib unfolding strtod_ok_def by blast
  also have "\<dots> \<le> length (replace_first 46 dp (take (strtod_buffer_size p) p))"
    using length_takeWhile_le [of "\<lambda>b. b \<noteq> 0" "replace_first 46 dp (take (strtod_buffer_size p) p)"]
    by (simp add: takeWhile_tail)
  also have "\<dots> \<le> strtod_buffer_size p" by simp
  also note strtod_buffer_size_le
  finally show ?thesis using False
    by (auto simp: fpconv_strtod_def Let_def split: prod.split)
qed

lemma nonzero_prefix: "n \<le> length (takeWhile (\<lambda>b. b \<noteq> 0) p) \<Longrightarrow> 0 \<notin> set (take n (p :: byte list))"
proof (induction p arbitrary: n)
  case (Cons c p)
  then show ?case by (cases n) (auto split: if_splits)
qed simp

lemma copy_number_ok:
  "n \<le> length p \<Longrightarrow> fits_tmp tmp n \<Longrightarrow>
     \<exists>tmp'. copy_number n p tmp = Inr tmp' \<and> sb_wf tmp' \<and> sb_size tmp' = sb_size tmp \<and>
       sb_text tmp' = sb_text tmp @ take n p"
proof (induction n arbitrary: p tmp)
  case 0
  then show ?case by (simp add: fits_tmp_def)
next
  case (Suc n)
  then obtain c q where p: "p = c # q" by (cases p) auto
  obtain tmp1 where "sb_push tmp [c] = Inr tmp1" "fits_tmp tmp1 n" "sb_size tmp1 = sb_size tmp"
    "sb_text tmp1 = sb_text tmp @ [c]"
    using fits_tmp_push [OF Suc.prems(2), of "[c]"] by auto
  with Suc.IH [of q tmp1] Suc.prems p show ?case
    by (auto simp: mem_get_def append_as_push)
qed

lemma json_next_number_token_ok:
  assumes lib: "strtod_ok (env_lib env)" and json: "jp_ok json"
  shows "token_result json (json_next_number_token env json t)"
proof (cases "fpconv_strtod (env_heap env) (env_lib env) (env_dp env) (jp_ptr json)")
  case (Inl e)
  with fpconv_strtod_cases [OF lib, where h = "env_heap env" and dp = "env_dp env" and p = "jp_ptr json"] show ?thesis
    by (simp add: json_next_number_token_def token_result_def)
next
  case (Inr r)
  obtain x n where r: "r = (x, n)" by force
  have nz: "0 \<notin> set (take n (jp_ptr json))"
    using fpconv_strtod_cases [OF lib, where h = "env_heap env" and dp = "env_dp env" and p = "jp_ptr json"] Inr r
    by (simp add: nonzero_prefix)
  then have n: "n < length (jp_ptr json)" "terminated (drop n (jp_ptr json))"
    using terminated_drop json by (auto simp: jp_ok_def)
  show ?thesis
  proof (cases "14 < n")
    case True
    have "fits_tmp (strbuf_reset (jp_tmp json)) n" "sb_size (strbuf_reset (jp_tmp json)) = sb_size (jp_tmp json)"
      using strbuf_reset_fits [of "jp_tmp json" n] json n by (auto simp: jp_ok_def)
    then obtain tmp where tmp: "copy_number n (jp_ptr json) (strbuf_reset (jp_tmp json)) = Inr tmp" "sb_wf tmp"
      "sb_size tmp = sb_size (jp_tmp json)"
      using copy_number_ok [of n "jp_ptr json" "strbuf_reset (jp_tmp json)"] n by auto
    with strbuf_ensure_null_ok [OF tmp(2)] True Inr r n json show ?thesis
      by (auto simp: json_next_number_token_def token_result_def need_def jp_ok_def)
  next
    case False
    with Inr r nz token_error_ok [OF json] token_skip_ok [OF json nz] show ?thesis
      by (auto simp: json_next_number_token_def)
  qed
qed

lemma prefix_match_ok:
  "terminated p \<Longrightarrow> f 0 \<notin> f ` set pat \<Longrightarrow>
     \<exists>b. prefix_match f pat p = Inr b \<and> (b \<longrightarrow> 0 \<notin> set (take (length pat) p))"
proof (induction f pat p rule: prefix_match.induct)
  case (3 f s ss c p)
  show ?case
  proof (cases "f c = f s")
    case True
    with 3 have "c \<noteq> 0" by (metis image_eqI list.set_intros(1))
    with 3 True terminated_Cons_nonzero [of c p] show ?thesis by auto
  qed auto
qed (auto simp: terminated_def)

lemma json_is_invalid_number_ok:
  assumes "terminated p"
  shows "\<exists>b. json_is_invalid_number p = Inr b"
proof -
  obtain c q where p: "p = c # q" using assms by (cases p) (auto simp: terminated_def)
  then have get0: "mem_get p 0 = Inr c" and tl: "tl p = q" by (simp_all add: mem_get_def)
  define p' where "p' = (if c = 45 then q else p)"
  have p': "terminated p'"
    using assms p terminated_Cons_nonzero [of c q] by (auto simp: p'_def)
  have get: "mem_get p' 0 = Inr (hd p')" by (rule mem_get_terminated [OF p'])
  have get1: "\<exists>c. mem_get p' 1 = Inr c" if "hd p' = 48"
  proof -
    from that p' have "0 \<notin> set (take 1 p')" by (cases p') (auto simp: terminated_def)
    with mem_get_ok [OF p'] show ?thesis by blast
  qed
  have "json_is_invalid_number p =
      (if c = 43 then Inr True
       else bindE (mem_get p' 0) (\<lambda>c0.
           if c0 = 48 then
             bindE (mem_get p' 1) (\<lambda>ch2.
               Inr (ch2 OR 0x20 = 120 \<or> (48 \<le> sint ch2 \<and> sint ch2 \<le> 57)))
           else if sint c0 \<le> 57 then Inr False
           else bindE (prefix_match tolower (bytes ''inf'') p') (\<lambda>is_inf.
             if is_inf then Inr True
             else prefix_match tolower (bytes ''nan'') p')))"
    unfolding json_is_invalid_number_def get0 bindE_simps Let_def tl p'_def by (rule refl)
  moreover have "\<exists>b. prefix_match tolower (bytes ''inf'') p' = Inr b"
    "\<exists>b. prefix_match tolower (bytes ''nan'') p' = Inr b"
    using prefix_match_ok [OF p', of tolower "bytes ''inf''"] prefix_match_ok [OF p', of tolower "bytes ''nan''"]
    by (auto simp: bytes_def of_char_def tolower_def)
  ultimately show ?thesis using get get1 by auto
qed

lemma skip_whitespace_ok:
  assumes "tab = ch2token_init" "terminated p"
  shows "\<exists>p'. skip_whitespace tab p = Inr p' \<and> terminated p' \<and> length p' \<le> length p \<and> tab (hd p') \<noteq> T_WHITESPACE"
  using assms
proof (induction tab p rule: skip_whitespace.induct)
  case (2 tab c p)
  show ?case
  proof (cases "tab c = T_WHITESPACE")
    case True
    with 2 have "c \<noteq> 0" by (auto simp: ch2token_init_def)
    with 2 True terminated_Cons_nonzero [of c p] show ?thesis by (auto intro: le_SucI)
  qed (use 2 in simp)
qed (simp add: terminated_def)

lemma token_result_trans:
  "token_result (json\<lparr>jp_ptr := p\<rparr>) r \<Longrightarrow> length p \<le> length (jp_ptr json) \<Longrightarrow> token_result json r"
  by (auto simp: token_result_def split: sum.splits)

lemma token_result_bind:
  assumes "\<exists>x. m = Inr x \<and> token_result json (f x)"
  shows "token_result json (bindE m f)"
  using assms by auto

lemma literal_ok:
  assumes "jp_ok json" "prefix_match id pat (jp_ptr json) = Inr True" "0 \<notin> set pat" "0 < n" "length pat = n"
  shows "token_result json (Inr (json\<lparr>jp_ptr := drop n (jp_ptr json)\<rparr>, t))"
  using assms prefix_match_ok [of "jp_ptr json" id pat]
  by (intro token_skip_ok) (auto simp: jp_ok_def)

lemma json_next_token_ok:
  assumes lib: "strtod_ok (env_lib env)" and cfg: "cfg_settings cfg" and json0: "jp_ok json0"
  shows "token_result json0 (json_next_token env cfg json0)"
proof -
  have tab: "ch2token cfg = ch2token_init" using cfg by (simp add: cfg_settings_def)
  obtain p where p: "skip_whitespace (ch2token cfg) (jp_ptr json0) = Inr p" "terminated p"
    "length p \<le> length (jp_ptr json0)"
    using skip_whitespace_ok [OF tab, of "jp_ptr json0"] json0 by (auto simp: jp_ok_def)
  let ?json = "json0\<lparr>jp_ptr := p\<rparr>"
  have json: "jp_ok ?json" using json0 p by (auto simp: jp_ok_def)
  obtain ch q where q: "p = ch # q" using p(2) by (cases p) (auto simp: terminated_def)
  then have get0: "mem_get p 0 = Inr ch" by (simp add: mem_get_def)
  define ty where "ty = ch2token cfg ch"
  define token where "token = \<lparr>tok_type = ty, tok_index = jp_index ?json p, tok_value = NoValue\<rparr>"
  have end_only: "ty \<noteq> T_END \<Longrightarrow> ch \<noteq> 0" by (auto simp: ty_def tab ch2token_init_def)
  have lit: "\<exists>b. prefix_match id (bytes s) p = Inr b" if "0 \<notin> set (bytes s)" for s
    using prefix_match_ok [OF p(2), of id "bytes s"] that by auto
  have eq: "json_next_token env cfg json0 =
     (if ty = T_ERROR then Inr (?json, json_set_token_error ?json ''invalid token'')
      else if ty = T_END then Inr (?json, token)
      else if ty \<noteq> T_UNKNOWN then Inr (?json\<lparr>jp_ptr := tl p\<rparr>, token)
      else if ch = 34 then json_next_string_token cfg ?json token
      else if ch = 45 \<or> (48 \<le> ch \<and> ch \<le> 57) then
        bindE (if decode_invalid_numbers cfg = 0 then json_is_invalid_number p else Inr False)
          (\<lambda>invalid.
            if invalid then Inr (?json, json_set_token_error ?json ''invalid number'')
            else json_next_number_token env ?json token)
      else
        bindE (prefix_match id (bytes ''true'') p) (\<lambda>t. if t then
          Inr (?json\<lparr>jp_ptr := drop 4 p\<rparr>, token\<lparr>tok_type := T_BOOLEAN, tok_value := BooleanValue True\<rparr>)
        else bindE (prefix_match id (bytes ''false'') p) (\<lambda>f. if f then
          Inr (?json\<lparr>jp_ptr := drop 5 p\<rparr>, token\<lparr>tok_type := T_BOOLEAN, tok_value := BooleanValue False\<rparr>)
        else bindE (prefix_match id (bytes ''null'') p) (\<lambda>n. if n then
          Inr (?json\<lparr>jp_ptr := drop 4 p\<rparr>, token\<lparr>tok_type := T_NULL\<rparr>)
        else bindE (if decode_invalid_numbers cfg \<noteq> 0 then json_is_invalid_number p else Inr False)
          (\<lambda>invalid.
            if invalid then json_next_number_token env ?json token
            else Inr (?json, json_set_token_error ?json ''invalid token''))))))"
    unfolding json_next_token_def p(1) bindE_simps get0 ty_def token_def Let_def
    by (rule refl)
  obtain inv where inv: "json_is_invalid_number p = Inr inv" using json_is_invalid_number_ok [OF p(2)] by blast
  obtain bt where bt: "prefix_match id (bytes ''true'') p = Inr bt" using lit [of "''true''"] by (auto simp: bytes_def of_char_def)
  obtain bf where bf: "prefix_match id (bytes ''false'') p = Inr bf" using lit [of "''false''"] by (auto simp: bytes_def of_char_def)
  obtain bn where bn: "prefix_match id (bytes ''null'') p = Inr bn" using lit [of "''null''"] by (auto simp: bytes_def of_char_def)
  have T: "token_result ?json (Inr (?json\<lparr>jp_ptr := drop 4 p\<rparr>, t))" if bt for t
    using literal_ok [OF json, of "bytes ''true''" 4 t] bt that by (simp add: bytes_def of_char_def)
  have F: "token_result ?json (Inr (?json\<lparr>jp_ptr := drop 5 p\<rparr>, t))" if bf for t
    using literal_ok [OF json, of "bytes ''false''" 5 t] bf that by (simp add: bytes_def of_char_def)
  have N: "token_result ?json (Inr (?json\<lparr>jp_ptr := drop 4 p\<rparr>, t))" if bn for t
    using literal_ok [OF json, of "bytes ''null''" 4 t] bn that by (simp add: bytes_def of_char_def)
  have S: "token_result ?json (json_next_string_token cfg ?json t)" if "ch = 34" for t
    using json_next_string_token_ok [OF cfg json] that q by simp
  have E: "token_result ?json (Inr (?json, token))" if "ty = T_END"
    using json that by (simp add: token_result_def need_def token_def)
  have O: "token_result ?json (Inr (?json\<lparr>jp_ptr := tl p\<rparr>, token))" if "ty \<noteq> T_END"
    using token_skip_ok [OF json, of 1 token] end_only [OF that] q by simp
  have "token_result ?json (json_next_token env cfg json0)"
    unfolding eq bt bf bn inv bindE_simps
    by (simp only: T F N S E O token_error_ok [OF json] json_next_number_token_ok [OF lib json] bindE_simps
        if_True if_False split: if_split) (use T F N S E O in simp)
  then show ?thesis using p(3) by (rule token_result_trans)
qed

section \<open>The parser\<close>

text \<open>A value whose tables nest at most \<open>n\<close> deep.\<close>

fun nests_within :: "int \<Rightarrow> lua_value \<Rightarrow> bool" where
  "nests_within n (LTable es) = (1 \<le> n \<and> (\<forall>(k, v) \<in> set es. nests_within (n - 1) v))"
| "nests_within n _ = True"

definition entries_within :: "int \<Rightarrow> lua_entries \<Rightarrow> bool" where
  "entries_within n es \<longleftrightarrow> (\<forall>(k, v) \<in> set es. nests_within n v)"

lemma entries_within_rawset:
  "entries_within n es \<Longrightarrow> nests_within n v \<Longrightarrow> entries_within n (lua_rawset es k v)"
  by (induction es k v rule: lua_rawset.induct) (auto simp: entries_within_def)

text \<open>
  What parsing a value promises: the state is good again, at depth \<open>d\<close>, no input was added, and
  the value's nesting respects the limit; otherwise a Lua error or no memory.
\<close>

definition parse_ok :: "json_config \<Rightarrow> int \<Rightarrow> json_parse \<Rightarrow> parse_result \<Rightarrow> bool" where
  "parse_ok cfg d json r \<longleftrightarrow>
     (case r of
        Inl e \<Rightarrow> (\<exists>m. e = LuaError m) \<or> e = Die ''Out of memory''
      | Inr (json', v) \<Rightarrow> jp_ok json' \<and> length (jp_ptr json') \<le> length (jp_ptr json) \<and>
          jp_depth json' = d \<and> nests_within (decode_max_depth cfg - d) v)"

lemma parse_ok_error: "parse_ok cfg d json (Inl (json_throw_parse_error what t))"
  by (simp add: parse_ok_def json_throw_parse_error_def Let_def)

lemma parse_ok_token:
  assumes "token_result json r"
    and "\<And>json' t. jp_ok json' \<Longrightarrow> need t json' \<le> length (jp_ptr json) \<Longrightarrow> jp_depth json' = jp_depth json \<Longrightarrow>
       parse_ok cfg d json (f (json', t))"
  shows "parse_ok cfg d json (bindE r f)"
  using assms by (cases r) (auto simp: token_result_def parse_ok_def)

lemma parse_ok_value:
  assumes "parse_ok cfg d' json r"
    and "\<And>json' v. jp_ok json' \<Longrightarrow> length (jp_ptr json') \<le> length (jp_ptr json) \<Longrightarrow> jp_depth json' = d' \<Longrightarrow>
       nests_within (decode_max_depth cfg - d') v \<Longrightarrow> parse_ok cfg d json (f (json', v))"
  shows "parse_ok cfg d json (bindE r f)"
  using assms by (cases r) (auto simp: parse_ok_def)

lemma parse_ok_mono:
  "parse_ok cfg d json' r \<Longrightarrow> length (jp_ptr json') \<le> length (jp_ptr json) \<Longrightarrow> parse_ok cfg d json r"
  by (auto simp: parse_ok_def split: sum.splits)

lemma parse_ok_done:
  assumes "jp_ok json'" "need t json' \<le> length (jp_ptr json)" "jp_depth json' = d + 1" "d + 1 \<le> decode_max_depth cfg"
    and "entries_within (decode_max_depth cfg - (d + 1)) es"
  shows "parse_ok cfg d json (Inr (json_decode_ascend json', LTable es))"
  using assms
  by (auto simp: parse_ok_def json_decode_ascend_def jp_ok_def need_def entries_within_def algebra_simps split: if_splits)

lemma need_consumed: "tok_type t \<noteq> T_END \<Longrightarrow> tok_type t \<noteq> T_ERROR \<Longrightarrow> need t json = Suc (length (jp_ptr json))"
  by (simp add: need_def)

lemma need_le: "length (jp_ptr json) \<le> need t json" "jp_ok json \<Longrightarrow> 0 < need t json"
  by (auto simp: need_def jp_ok_def terminated_def)

lemma parse_ok_context:
  assumes lib: "strtod_ok (env_lib env)" and cfg: "cfg_settings cfg" and json: "jp_ok json"
    and fuel: "length (jp_ptr json) \<le> fuel"
    and close: "ty \<noteq> T_END" "ty \<noteq> T_ERROR"
    and loop: "\<And>j t. jp_ok j \<Longrightarrow> need t j \<le> fuel \<Longrightarrow> jp_depth j = jp_depth json + 1 \<Longrightarrow>
       jp_depth j \<le> decode_max_depth cfg \<Longrightarrow> parse_ok cfg (jp_depth json) j (f j t)"
  shows "parse_ok cfg (jp_depth json) json
    (bindE (json_decode_descend env cfg json slots) (\<lambda>j1.
     bindE (json_next_token env cfg j1) (\<lambda>(j2, token).
       if tok_type token = ty then Inr (json_decode_ascend j2, LTable []) else f j2 token)))"
proof (cases "json_decode_descend env cfg json slots")
  case (Inl e)
  then show ?thesis
    by (auto simp: json_decode_descend_def parse_ok_def Let_def split: if_splits)
next
  case (Inr j1)
  then have j1: "j1 = json\<lparr>jp_depth := jp_depth json + 1\<rparr>" "jp_depth json + 1 \<le> decode_max_depth cfg"
    by (auto simp: json_decode_descend_def Let_def split: if_splits)
  then have ok: "jp_ok j1" "jp_ptr j1 = jp_ptr json" using json by (auto simp: jp_ok_def)
  have "parse_ok cfg (jp_depth json) j1 (bindE (json_next_token env cfg j1) (\<lambda>(j2, token).
       if tok_type token = ty then Inr (json_decode_ascend j2, LTable []) else f j2 token))"
  proof (rule parse_ok_token [OF json_next_token_ok [OF lib cfg ok(1)]], goal_cases)
    case (1 j t)
    have "parse_ok cfg (jp_depth json) j1 (Inr (json_decode_ascend j, LTable []))"
      using 1 j1 by (intro parse_ok_done) (auto simp: entries_within_def)
    moreover have "parse_ok cfg (jp_depth json) j1 (f j t)"
      using 1 j1 ok fuel need_le [of j t] loop [of j t] by (auto elim: parse_ok_mono)
    ultimately show ?case by simp
  qed
  with Inr ok show ?thesis by (auto elim: parse_ok_mono)
qed

definition loop_ready :: "json_config \<Rightarrow> nat \<Rightarrow> json_parse \<Rightarrow> json_token \<Rightarrow> lua_entries \<Rightarrow> bool" where
  "loop_ready cfg fuel json t es \<longleftrightarrow> jp_ok json \<and> need t json \<le> fuel \<and> jp_depth json \<le> decode_max_depth cfg \<and>
     entries_within (decode_max_depth cfg - jp_depth json) es"

definition loops_ok :: "cjson_env \<Rightarrow> json_config \<Rightarrow> nat \<Rightarrow> bool" where
  "loops_ok env cfg fuel \<longleftrightarrow>
     (\<forall>json t es. loop_ready cfg fuel json t es \<longrightarrow>
        parse_ok cfg (jp_depth json - 1) json (object_loop fuel env cfg json t es)) \<and>
     (\<forall>json t i es. loop_ready cfg fuel json t es \<longrightarrow>
        parse_ok cfg (jp_depth json - 1) json (array_loop fuel env cfg json t i es))"

lemma loops_okD:
  assumes "loops_ok env cfg fuel" "loop_ready cfg fuel json t es" "d = jp_depth json - 1"
  shows "parse_ok cfg d json (object_loop fuel env cfg json t es)"
    and "parse_ok cfg d json (array_loop fuel env cfg json t i es)"
  using assms unfolding loops_ok_def by blast+

lemma json_process_value_ok:
  assumes lib: "strtod_ok (env_lib env)" and cfg: "cfg_settings cfg" and json: "jp_ok json"
    and fuel: "need t json \<le> Suc fuel" and loops: "loops_ok env cfg fuel"
  shows "parse_ok cfg (jp_depth json) json (json_process_value fuel env cfg json t)"
proof -
  have ready: "loop_ready cfg fuel j t' []"
    if "jp_ok j" "need t' j \<le> fuel" "jp_depth j \<le> decode_max_depth cfg" for j t'
    using that by (simp add: loop_ready_def entries_within_def)
  have "parse_ok cfg (jp_depth json) json (json_parse_object_context fuel env cfg json)"
    if "length (jp_ptr json) \<le> fuel"
    unfolding json_parse_object_context.simps
    by (rule parse_ok_context [OF lib cfg json that]) (simp_all add: loops_okD [OF loops ready])
  moreover have "parse_ok cfg (jp_depth json) json (json_parse_array_context fuel env cfg json)"
    if "length (jp_ptr json) \<le> fuel"
    unfolding json_parse_array_context.simps
    by (rule parse_ok_context [OF lib cfg json that]) (simp_all add: loops_okD [OF loops ready])
  moreover have "parse_ok cfg (jp_depth json) json (Inr (json, v))" if "nests_within (decode_max_depth cfg - jp_depth json) v" for v
    using json that by (simp add: parse_ok_def)
  ultimately show ?thesis
    using fuel need_consumed [of t json] unfolding json_process_value.simps [of fuel env cfg json t]
    by (auto simp: parse_ok_error split: json_token_type.splits token_value.splits)
qed

text \<open>The end of a round of either loop: the closing token, or a comma and the next round.\<close>

lemma loop_tail_ok:
  assumes lib: "strtod_ok (env_lib env)" and cfg: "cfg_settings cfg"
    and j: "jp_ok j" "length (jp_ptr j) \<le> fuel" "jp_depth j \<le> decode_max_depth cfg"
    and es: "entries_within (decode_max_depth cfg - jp_depth j) es"
    and d: "d = jp_depth j - 1"
    and g: "\<And>j' t. loop_ready cfg fuel j' t es \<Longrightarrow> parse_ok cfg (jp_depth j' - 1) j' (g j' t)"
  shows "parse_ok cfg d j
    (bindE (json_next_token env cfg j) (\<lambda>(j4, t4).
       if tok_type t4 = ty then Inr (json_decode_ascend j4, LTable es)
       else if tok_type t4 \<noteq> T_COMMA then Inl (json_throw_parse_error what t4)
       else bindE (json_next_token env cfg j4) (\<lambda>(j5, t5). g j5 t5)))"
proof (rule parse_ok_token [OF json_next_token_ok [OF lib cfg j(1)]], goal_cases)
  case (1 j4 t4)
  have "parse_ok cfg d j (Inr (json_decode_ascend j4, LTable es))"
    using 1 j es d by (intro parse_ok_done) auto
  moreover have "parse_ok cfg d j4 (bindE (json_next_token env cfg j4) (\<lambda>(j5, t5). g j5 t5))"
  proof (rule parse_ok_token [OF json_next_token_ok [OF lib cfg 1(1)]], goal_cases)
    case (1 j5 t5)
    with \<open>need t4 j4 \<le> _\<close> need_le [of j4 t4] j es \<open>jp_depth j4 = _\<close>
    have "loop_ready cfg fuel j5 t5 es" by (auto simp: loop_ready_def)
    with 1 g [of j5 t5] \<open>jp_depth j4 = _\<close> d need_le [of j5 t5] show ?case by (auto elim: parse_ok_mono)
  qed
  ultimately show ?case using 1 need_le [of j4 t4] by (auto simp: parse_ok_error elim: parse_ok_mono)
qed

lemma array_loop_step_ok:
  assumes lib: "strtod_ok (env_lib env)" and cfg: "cfg_settings cfg" and loops: "loops_ok env cfg fuel"
    and ready: "loop_ready cfg (Suc fuel) json t es"
  shows "parse_ok cfg (jp_depth json - 1) json (array_loop (Suc fuel) env cfg json t i es)"
proof -
  have json: "jp_ok json" and need: "need t json \<le> Suc fuel" and d: "jp_depth json \<le> decode_max_depth cfg"
    and es: "entries_within (decode_max_depth cfg - jp_depth json) es"
    using ready by (auto simp: loop_ready_def)
  have v: "parse_ok cfg (jp_depth json) json (json_process_value fuel env cfg json t)"
    by (rule json_process_value_ok [OF lib cfg json need loops])
  show ?thesis
  proof (cases "tok_type t = T_END \<or> tok_type t = T_ERROR")
    case True
    then show ?thesis
      by (auto simp: json_process_value.simps [of fuel env cfg json t] parse_ok_error split: token_value.splits)
  next
    case False
    then have len: "length (jp_ptr json) \<le> fuel" using need need_consumed [of t json] by simp
    show ?thesis
      unfolding array_loop.simps
    proof (rule parse_ok_value [OF v], unfold prod.case, goal_cases)
      case (1 j1 v)
      have "parse_ok cfg (jp_depth json - 1) j1
        (bindE (json_next_token env cfg j1) (\<lambda>(j2, t2).
          if tok_type t2 = T_ARR_END then Inr (json_decode_ascend j2, LTable (lua_rawset es (lua_index i) v))
          else if tok_type t2 \<noteq> T_COMMA then Inl (json_throw_parse_error ''comma or array end'' t2)
          else bindE (json_next_token env cfg j2) (\<lambda>(j3, t3).
            array_loop fuel env cfg j3 t3 (i + 1) (lua_rawset es (lua_index i) v))))"
        using 1 len d es by (intro loop_tail_ok [OF lib cfg 1(1)] loops_okD [OF loops] entries_within_rawset) auto
      then show ?case using 1(2) by (rule parse_ok_mono)
    qed
  qed
qed

lemma object_loop_step_ok:
  assumes lib: "strtod_ok (env_lib env)" and cfg: "cfg_settings cfg" and loops: "loops_ok env cfg fuel"
    and ready: "loop_ready cfg (Suc fuel) json t es"
  shows "parse_ok cfg (jp_depth json - 1) json (object_loop (Suc fuel) env cfg json t es)"
proof (cases "tok_type t = T_STRING")
  case False
  then show ?thesis by (simp add: parse_ok_error)
next
  case True
  have json: "jp_ok json" and len: "length (jp_ptr json) \<le> fuel" and d: "jp_depth json \<le> decode_max_depth cfg"
    and es: "entries_within (decode_max_depth cfg - jp_depth json) es"
    using ready True need_consumed [of t json] by (auto simp: loop_ready_def)
  define key where "key = (case tok_value t of StringValue s \<Rightarrow> LString s | _ \<Rightarrow> LString [])"
  define after where "after j3 v =
      bindE (json_next_token env cfg j3) (\<lambda>(j4, t4).
        if tok_type t4 = T_OBJ_END then Inr (json_decode_ascend j4, LTable (lua_rawset es key v))
        else if tok_type t4 \<noteq> T_COMMA then Inl (json_throw_parse_error ''comma or object end'' t4)
        else bindE (json_next_token env cfg j4) (\<lambda>(j5, t5).
          object_loop fuel env cfg j5 t5 (lua_rawset es key v)))" for j3 v
  have after: "parse_ok cfg (jp_depth json - 1) j3 (after j3 v)"
    if "jp_ok j3" "length (jp_ptr j3) \<le> fuel" "jp_depth j3 = jp_depth json"
      "nests_within (decode_max_depth cfg - jp_depth json) v" for j3 v
    unfolding after_def using that d es
    by (intro loop_tail_ok [OF lib cfg that(1,2)] loops_okD [OF loops] entries_within_rawset) auto
  have body: "parse_ok cfg (jp_depth json - 1) j2
      (bindE (json_process_value fuel env cfg j2 t2) (\<lambda>(j3, v). after j3 v))"
    if "jp_ok j2" "need t2 j2 \<le> fuel" "jp_depth j2 = jp_depth json" for j2 t2
  proof (rule parse_ok_value [OF json_process_value_ok [OF lib cfg that(1) _ loops]], unfold prod.case, goal_cases)
    case (2 j3 v)
    have "length (jp_ptr j3) \<le> fuel" using 2(2) that(2) need_le(1) [of j2 t2] by linarith
    with 2 that after [of j3 v] show ?case by (auto elim: parse_ok_mono)
  qed (use that in simp)
  have "parse_ok cfg (jp_depth json - 1) json
      (bindE (json_next_token env cfg json) (\<lambda>(j1, t1).
        if tok_type t1 \<noteq> T_COLON then Inl (json_throw_parse_error ''colon'' t1)
        else bindE (json_next_token env cfg j1) (\<lambda>(j2, t2).
          bindE (json_process_value fuel env cfg j2 t2) (\<lambda>(j3, v). after j3 v))))"
  proof (rule parse_ok_token [OF json_next_token_ok [OF lib cfg json]], goal_cases)
    case (1 j1 t1)
    note j1 = this
    have "parse_ok cfg (jp_depth json - 1) j1 (bindE (json_next_token env cfg j1) (\<lambda>(j2, t2).
          bindE (json_process_value fuel env cfg j2 t2) (\<lambda>(j3, v). after j3 v)))"
    proof (rule parse_ok_token [OF json_next_token_ok [OF lib cfg j1(1)]], goal_cases)
      case (1 j2 t2)
      with j1 len need_le(1) [of j1 t1] need_le(1) [of j2 t2] body [of j2 t2] show ?case
        by (auto elim: parse_ok_mono)
    qed
    with j1 need_le(1) [of j1 t1] show ?case by (auto simp: parse_ok_error elim: parse_ok_mono)
  qed
  with True show ?thesis unfolding object_loop.simps Let_def after_def key_def by simp
qed

lemma all_loops_ok:
  assumes "strtod_ok (env_lib env)" "cfg_settings cfg"
  shows "loops_ok env cfg fuel"
proof (induction fuel)
  case 0
  have "\<not> loop_ready cfg 0 json t es" for json t es
    using need_le(2) [of json t] by (auto simp: loop_ready_def)
  then show ?case by (simp add: loops_ok_def)
next
  case (Suc fuel)
  then show ?case
    using array_loop_step_ok [OF assms Suc] object_loop_step_ok [OF assms Suc] by (simp only: loops_ok_def) blast
qed

section \<open>Properties\<close>

lemma strbuf_new_cases:
  assumes "0 \<le> len" "len < INT_MAX"
  shows "case strbuf_new h len of
      Inl e \<Rightarrow> e = Die ''Out of memory''
    | Inr s \<Rightarrow> sb_wf s \<and> len + 1 \<le> sb_size s"
  using assms
  by (auto simp: strbuf_new_def strbuf_init_def strbuf_ensure_null_def sb_store_def mem_write_def
      sb_wf_def iadd_def fits_int_def INT_MIN_def STRBUF_DEFAULT_SIZE_def STRBUF_DEFAULT_INCREMENT_def INT_MAX_def)

lemma json_decode_outcome:
  assumes lib: "strtod_ok (env_lib env)" and cfg: "cfg_wf cfg"
    and len: "\<And>s. luaL_checkstring (env_api env) arg = Some s \<Longrightarrow> int (length s) < INT_MAX"
  shows "case json_decode env cfg [arg] of
      Inl e \<Rightarrow> (\<exists>m. e = LuaError m) \<or> e = Die ''Out of memory''
    | Inr v \<Rightarrow> nests_within (decode_max_depth cfg) v"
proof (cases "luaL_checkstring (env_api env) arg")
  case None
  then show ?thesis by (simp add: json_decode_def)
next
  case (Some s)
  have set: "cfg_settings cfg" using cfg by (simp add: cfg_wf_def)
  have len': "int (length s) < INT_MAX" using len Some by blast
  then have ti: "to_int (int (length s)) = int (length s)"
    by (simp add: to_int_id fits_int_def INT_MIN_def)
  show ?thesis
  proof (cases "strbuf_new (env_heap env) (int (length s))")
    case (Inl e)
    then show ?thesis
      using strbuf_new_cases [OF _ len', of "env_heap env"] Some by (simp add: json_decode_def ti Let_def)
  next
    case (Inr tmp)
    let ?j = "\<lparr>jp_data = s @ [0], jp_ptr = s @ [0], jp_tmp = tmp, jp_depth = 0\<rparr>"
    have j: "jp_ok ?j"
      using strbuf_new_cases [OF _ len', of "env_heap env"] Inr by (simp add: jp_ok_def terminated_def)
    have "parse_ok cfg 0 ?j (bindE (json_next_token env cfg ?j) (\<lambda>(j1, t1).
        bindE (json_process_value (length (s @ [0 :: byte])) env cfg j1 t1) (\<lambda>(j2, v).
        bindE (json_next_token env cfg j2) (\<lambda>(j3, t3).
          if tok_type t3 \<noteq> T_END then Inl (json_throw_parse_error ''the end'' t3) else Inr (j3, v)))))"
    proof (rule parse_ok_token [OF json_next_token_ok [OF lib set j]], unfold prod.case, goal_cases)
      case (1 j1 t1)
      then have v: "parse_ok cfg 0 j1 (json_process_value (length (s @ [0 :: byte])) env cfg j1 t1)"
        using json_process_value_ok [OF lib set 1(1) _ all_loops_ok [OF lib set], of t1 "length (s @ [0 :: byte])"]
        by simp
      have "parse_ok cfg 0 j1 (bindE (json_process_value (length (s @ [0 :: byte])) env cfg j1 t1) (\<lambda>(j2, v).
        bindE (json_next_token env cfg j2) (\<lambda>(j3, t3).
          if tok_type t3 \<noteq> T_END then Inl (json_throw_parse_error ''the end'' t3) else Inr (j3, v))))"
      proof (rule parse_ok_value [OF v], unfold prod.case, goal_cases)
        case (1 j2 v)
        have "parse_ok cfg 0 j2 (bindE (json_next_token env cfg j2) (\<lambda>(j3, t3).
          if tok_type t3 \<noteq> T_END then Inl (json_throw_parse_error ''the end'' t3) else Inr (j3, v)))"
          using 1 by (intro parse_ok_token [OF json_next_token_ok [OF lib set 1(1)]])
            (auto simp: parse_ok_error, auto simp: parse_ok_def need_def)
        then show ?case using 1(2) by (rule parse_ok_mono)
      qed
      then show ?case using 1 need_le(1) [of j1 t1] by (auto elim: parse_ok_mono)
    qed
    then show ?thesis
      using Some Inr
      by (auto simp: json_decode_def ti Let_def parse_ok_def bindE_def split: sum.splits if_splits prod.splits)
  qed
qed

text \<open>
  C3: \<open>json_decode\<close> is safe on every input string shorter than \<open>INT_MAX\<close>: it returns a value whose
  tables nest no deeper than the configured limit, raises a Lua error, or runs out of memory.  It
  never reads past the end of the input, its unchecked stores never leave the temporary buffer,
  no assertion fails, and it ends.
\<close>

theorem json_decode_safe:
  assumes lib: "strtod_ok (env_lib env)" and cfg: "cfg_wf cfg"
    and len: "\<And>s. luaL_checkstring (env_api env) arg = Some s \<Longrightarrow> int (length s) < INT_MAX"
  shows "case json_decode env cfg [arg] of
      Inl e \<Rightarrow> (\<exists>m. e = LuaError m) \<or> e = Die ''Out of memory''
    | Inr v \<Rightarrow> nests_within (decode_max_depth cfg) v"
  using assms by (rule json_decode_outcome)

lemma plain_checkstring: "luaL_checkstring (env_api plain_env) (LString s) = Some s"
  by (simp add: plain_env_def strict_api_def)

lemma default_config_depths: "decode_max_depth default_config = 1000" "encode_max_depth default_config = 1000"
  by (simp_all add: default_config_def)

lemma plain_env_strtod: "strtod_ok (env_lib plain_env)"
  by (auto simp: strtod_ok_def plain_env_def plain_lib_def neq_Nil_conv)

theorem json_decode_safe_witness:
  "case json_decode plain_env default_config [LString [91, 49, 44]] of
      Inl e \<Rightarrow> (\<exists>m. e = LuaError m) \<or> e = Die ''Out of memory''
    | Inr v \<Rightarrow> nests_within 1000 v"
proof -
  have "int (length s) < INT_MAX" if "luaL_checkstring (env_api plain_env) (LString [91, 49, 44]) = Some s" for s
    using that by (auto simp: plain_checkstring INT_MAX_def)
  from json_decode_safe [OF plain_env_strtod default_config_wf this]
  show ?thesis by (simp only: default_config_depths)
qed

text \<open>
  the protected decoder of \<open>cjson.safe\<close> never raises on one argument: it returns the value, or
  nil and the message, unless memory runs out.
\<close>

theorem json_safe_decode_never_raises:
  assumes "strtod_ok (env_lib env)" and "cfg_wf cfg"
    and "\<And>s. luaL_checkstring (env_api env) arg = Some s \<Longrightarrow> int (length s) < INT_MAX"
  shows "case json_protect_conversion (json_decode env cfg) [arg] of
      Inl e \<Rightarrow> e = Die ''Out of memory''
    | Inr rs \<Rightarrow> (\<exists>v. rs = [v] \<and> json_decode env cfg [arg] = Inr v) \<or> (\<exists>m. rs = [LNil, LString m])"
proof -
  have "case json_decode env cfg [arg] of
      Inl e \<Rightarrow> (\<exists>m. e = LuaError m) \<or> e = Die ''Out of memory''
    | Inr v \<Rightarrow> nests_within (decode_max_depth cfg) v"
    using assms by (rule json_decode_outcome)
  then show ?thesis
    by (auto simp: json_protect_conversion_def split: sum.splits)
qed

theorem json_safe_decode_never_raises_witness:
  "case json_protect_conversion (json_decode plain_env default_config) [LString [91, 49, 44]] of
      Inl e \<Rightarrow> e = Die ''Out of memory''
    | Inr rs \<Rightarrow> (\<exists>v. rs = [v] \<and> json_decode plain_env default_config [LString [91, 49, 44]] = Inr v) \<or>
        (\<exists>m. rs = [LNil, LString m])"
  by (rule json_safe_decode_never_raises [OF plain_env_strtod default_config_wf])
    (auto simp: plain_checkstring INT_MAX_def)

text \<open>
  The comparison used for \<open>strncasecmp\<close> on Windows does not report a match of the first \<open>n\<close>
  characters when the text goes on after them: a text that has the pattern as a proper prefix
  compares as greater, so that for instance \<open>infinity\<close> is not seen to start with \<open>inf\<close>.
\<close>

theorem xxui_strncmp_misses_prefix:
  assumes "0 \<notin> set pat" and "c \<noteq> 0"
  shows "xxui_strncmp (pat @ c # rest) (pat @ [0]) (int (length pat)) = Inr 1"
  using assms by (induction pat) auto

theorem xxui_strncmp_misses_prefix_witness:
  "xxui_strncmp (bytes ''infinity'' @ [0]) (bytes ''inf'' @ [0]) 3 = Inr 1"
  using xxui_strncmp_misses_prefix [where pat = "bytes ''inf''" and c = 105 and rest = "[110, 105, 116, 121, 0]"]
  by (simp add: bytes_def of_char_def)

end
