(* ===== verification/CjsonRoundtrip.thy ===== *)
theory CjsonRoundtrip
  imports CjsonDecodeProofs
begin

text \<open>
  Decoding inverts encoding.  A value is \<open>json_value\<close> when it has a JSON form that keeps it: its
  tables are arrays with the indices in order or objects with distinct string keys, null is the
  null pointer that the decoder uses for it, and its numbers are printed and read back by the C
  library in at most 14 characters (a longer number is read back as a string).
\<close>

section \<open>Escapes\<close>

lemma string_loop_plain:
  assumes "ch \<noteq> 34" "ch \<noteq> 0" "ch \<noteq> 92"
  shows "string_token_loop esc (ch # rest) tmp = bindE (sb_push tmp [ch]) (\<lambda>t. string_token_loop esc rest t)"
  using assms by (simp add: string_token_loop.simps(2) [of esc ch] append_as_push)

lemma string_loop_escape:
  assumes "escape2char_init c = ch" "ch \<noteq> 0" "ch \<noteq> 117"
  shows "string_token_loop escape2char_init (92 # c # rest) tmp =
    bindE (sb_push tmp [ch]) (\<lambda>t. string_token_loop escape2char_init rest t)"
  using assms by (simp add: string_token_loop.simps(2) [of _ 92] append_as_push mem_get_def)

lemma string_loop_unicode:
  assumes "decode_hex4 ([a, b, c, d] @ rest) = Inr x" "0 \<le> x" "x \<le> 0x7F"
  shows "string_token_loop escape2char_init (92 # 117 # a # b # c # d # rest) tmp =
    bindE (sb_push tmp [word_of_int x]) (\<lambda>t. string_token_loop escape2char_init rest t)"
proof -
  have "x AND 0xF800 \<noteq> 0xD800"
  proof
    assume "x AND 0xF800 = 0xD800"
    moreover have "x AND 0xF800 \<le> x" using assms(2) by (simp add: AND_upper1)
    ultimately show False using assms(3) by simp
  qed
  then have "json_append_unicode_escape (92 # 117 # a # b # c # d # rest) tmp =
      bindE (sb_push tmp [word_of_int x]) (\<lambda>tmp'. Inr (Some (rest, tmp')))"
    using assms by (simp add: json_append_unicode_escape_def escape_codepoint_def codepoint_to_utf8_def append_as_push)
  then show ?thesis
    by (simp add: string_token_loop.simps(2) [of _ 92] mem_get_def escape2char_init_def bindE_assoc)
qed

lemma hex4_small:
  "decode_hex4 ([48, 48, c, d] @ rest) = Inr (push_bit 4 (hexdigit2int c) + hexdigit2int d)"
  if "0 \<le> hexdigit2int c" "0 \<le> hexdigit2int d"
  using that by (simp add: decode_hex4_def eval_nat_numeral) (simp add: hexdigit2int_def)

lemma string_loop_u00:
  assumes "0 \<le> hexdigit2int c" "0 \<le> hexdigit2int d" "push_bit 4 (hexdigit2int c) + hexdigit2int d = x"
    "0 \<le> x" "x \<le> 0x7F"
  shows "string_token_loop escape2char_init (92 # 117 # 48 # 48 # c # d # rest) tmp =
    bindE (sb_push tmp [word_of_int x]) (\<lambda>t. string_token_loop escape2char_init rest t)"
  using string_loop_unicode [of 48 48 c d rest x tmp] hex4_small [of c d rest] assms by simp

lemma below_32: "n < (32 :: nat) \<Longrightarrow> n \<in> {0, 1, 2, 3, 4, 5, 6, 7, 8, 9, 10, 11, 12, 13, 14, 15, 16, 17, 18, 19, 20, 21, 22, 23, 24, 25, 26, 27, 28, 29, 30, 31}"
  by (simp, presburger)

lemma hexdigit2int_digits:
  "hexdigit2int 48 = 0" "hexdigit2int 49 = 1" "hexdigit2int 50 = 2" "hexdigit2int 51 = 3" "hexdigit2int 52 = 4"
  "hexdigit2int 53 = 5" "hexdigit2int 54 = 6" "hexdigit2int 55 = 7" "hexdigit2int 56 = 8" "hexdigit2int 57 = 9"
  "hexdigit2int 97 = 10" "hexdigit2int 98 = 11" "hexdigit2int 99 = 12" "hexdigit2int 100 = 13"
  "hexdigit2int 101 = 14" "hexdigit2int 102 = 15"
  by (simp_all add: hexdigit2int_def)

lemma escape2char_values:
  "escape2char_init 34 = 34" "escape2char_init 92 = 92" "escape2char_init 47 = 47" "escape2char_init 98 = 8"
  "escape2char_init 116 = 9" "escape2char_init 110 = 10" "escape2char_init 102 = 12" "escape2char_init 114 = 13"
  by (simp_all add: escape2char_init_def)

lemma string_loop_control:
  assumes "n < 32"
  shows "string_token_loop escape2char_init (bytes (control_escapes ! n) @ rest) tmp =
    bindE (sb_push tmp [word_of_nat n]) (\<lambda>t. string_token_loop escape2char_init rest t)"
  using below_32 [OF assms]
  by (elim insertE emptyE)
    (simp_all add: control_escapes_def bytes_def of_char_def string_loop_u00 [OF _ _ refl] hexdigit2int_digits
      string_loop_escape [OF refl] escape2char_values)

lemma string_loop_escape1:
  "string_token_loop escape2char_init (escape1 c @ rest) tmp =
    bindE (sb_push tmp [c]) (\<lambda>t. string_token_loop escape2char_init rest t)"
proof (cases "unat c < 32")
  case True
  then show ?thesis using string_loop_control [OF True, of rest tmp]
    by (simp add: escape1_def char2escape_def)
next
  case False
  then have "c \<noteq> 0" by auto
  with False show ?thesis
    by (auto simp: escape1_def char2escape_def bytes_def of_char_def string_loop_u00 [OF _ _ refl]
        hexdigit2int_digits string_loop_escape [OF refl] escape2char_values string_loop_plain)
qed

lemma string_loop_text:
  assumes "fits_tmp tmp (length s)"
  shows "\<exists>tmp'. string_token_loop escape2char_init (concat (map escape1 s) @ 34 # rest) tmp = Inr (34 # rest, tmp', None) \<and>
    sb_wf tmp' \<and> sb_text tmp' = sb_text tmp @ s \<and> sb_size tmp' = sb_size tmp"
  using assms
proof (induction s arbitrary: tmp)
  case Nil
  then show ?case by (simp add: string_token_loop.simps fits_tmp_def)
next
  case (Cons c s)
  obtain tmp1 where "sb_push tmp [c] = Inr tmp1" "fits_tmp tmp1 (length s)" "sb_text tmp1 = sb_text tmp @ [c]"
    "sb_size tmp1 = sb_size tmp"
    using fits_tmp_push [OF Cons.prems, of "[c]"] by auto
  with Cons.IH [of tmp1] show ?case by (auto simp: string_loop_escape1)
qed

section \<open>Reading the tokens of a text\<close>

text \<open>The next token has this type and value, and the input after it is \<open>p\<close>.\<close>

definition token_at ::
    "cjson_env \<Rightarrow> json_config \<Rightarrow> json_parse \<Rightarrow> json_token_type \<Rightarrow> token_value \<Rightarrow> byte list \<Rightarrow> bool" where
  "token_at env cfg json ty val p \<longleftrightarrow>
     (\<exists>json' i. json_next_token env cfg json = Inr (json', \<lparr>tok_type = ty, tok_index = i, tok_value = val\<rparr>) \<and>
        jp_ptr json' = p \<and> jp_ok json' \<and> jp_depth json' = jp_depth json)"

lemma token_atE:
  assumes "token_at env cfg json ty val p"
  obtains json' i where "json_next_token env cfg json = Inr (json', \<lparr>tok_type = ty, tok_index = i, tok_value = val\<rparr>)"
    "jp_ptr json' = p" "jp_ok json'" "jp_depth json' = jp_depth json"
  using assms by (auto simp: token_at_def)

lemma token_atI:
  assumes "strtod_ok (env_lib env)" "cfg_settings cfg" "jp_ok json"
    and "\<exists>json' i. json_next_token env cfg json = Inr (json', \<lparr>tok_type = ty, tok_index = i, tok_value = val\<rparr>) \<and> jp_ptr json' = p"
  shows "token_at env cfg json ty val p"
  using assms(4) json_next_token_ok [OF assms(1-3)] by (auto simp: token_at_def token_result_def)

lemma token_punct:
  assumes ok: "strtod_ok (env_lib env)" "cfg_settings cfg" "jp_ok json"
    and p: "jp_ptr json = c # p" "ch2token_init c = ty"
    and ty: "ty \<notin> {T_WHITESPACE, T_ERROR, T_END, T_UNKNOWN}"
  shows "token_at env cfg json ty NoValue p"
  using ok(2) p ty
  by (intro token_atI [OF ok]) (auto simp: json_next_token_def cfg_settings_def mem_get_def Let_def)

lemma token_end:
  assumes ok: "strtod_ok (env_lib env)" "cfg_settings cfg" "jp_ok json" and p: "jp_ptr json = 0 # p"
  shows "token_at env cfg json T_END NoValue (0 # p)"
  using ok(2) p
  by (intro token_atI [OF ok]) (auto simp: json_next_token_def cfg_settings_def mem_get_def Let_def ch2token_init_def)

lemma prefix_match_self: "prefix_match f pat (pat @ p) = Inr True"
  by (induction pat) auto

lemma token_literals:
  assumes ok: "strtod_ok (env_lib env)" "cfg_settings cfg" "jp_ok json"
  shows "jp_ptr json = bytes ''true'' @ p \<Longrightarrow> token_at env cfg json T_BOOLEAN (BooleanValue True) p"
    and "jp_ptr json = bytes ''false'' @ p \<Longrightarrow> token_at env cfg json T_BOOLEAN (BooleanValue False) p"
    and "jp_ptr json = bytes ''null'' @ p \<Longrightarrow> token_at env cfg json T_NULL NoValue p"
  using ok(2)
  by (auto intro!: token_atI [OF ok] simp: json_next_token_def cfg_settings_def mem_get_def Let_def
      ch2token_init_def bytes_def of_char_def)

lemma token_string:
  assumes ok: "strtod_ok (env_lib env)" "cfg_settings cfg" "jp_ok json" and p: "jp_ptr json = string_text s @ p"
  shows "token_at env cfg json T_STRING (StringValue s) p"
proof (intro token_atI [OF ok])
  have ptr: "jp_ptr json = 34 # concat (map escape1 s) @ 34 # p" using p by (simp add: string_text_def)
  have "length s \<le> length (concat (map escape1 s))"
  proof (induction s)
    case (Cons c s)
    have "escape1 c \<noteq> []"
      by (auto simp: escape1_def char2escape_def control_escapes_def bytes_def nth_Cons' split: option.splits)
    then have "1 \<le> length (escape1 c)" by (simp add: Suc_le_eq)
    with Cons show ?case by simp
  qed simp
  then have "int (length s) < sb_size (jp_tmp json)" using ok(3) ptr by (simp add: jp_ok_def)
  then have "fits_tmp (strbuf_reset (jp_tmp json)) (length s)" "sb_text (strbuf_reset (jp_tmp json)) = []"
    using strbuf_reset_fits ok(3) by (auto simp: jp_ok_def)
  then obtain tmp where "string_token_loop escape2char_init (concat (map escape1 s) @ 34 # p) (strbuf_reset (jp_tmp json)) =
      Inr (34 # p, tmp, None)" "sb_wf tmp" "sb_text tmp = s"
    using string_loop_text [of "strbuf_reset (jp_tmp json)" s p] by auto
  moreover from this obtain tmp' where "strbuf_ensure_null tmp = Inr tmp'" "tmp_value tmp' = StringValue s"
    using strbuf_ensure_null_ok by blast
  ultimately show "\<exists>json' i. json_next_token env cfg json =
      Inr (json', \<lparr>tok_type = T_STRING, tok_index = i, tok_value = StringValue s\<rparr>) \<and> jp_ptr json' = p"
    using ok(2) ptr
    by (auto simp: json_next_token_def json_next_string_token_def cfg_settings_def mem_get_def Let_def ch2token_init_def)
qed

text \<open>The text \<open>xs\<close> of a number is read back as \<open>x\<close> wherever a JSON number may end.\<close>

definition ends_number :: "byte list \<Rightarrow> bool" where
  "ends_number rest \<longleftrightarrow> rest \<noteq> [] \<and> hd rest \<in> {44, 93, 125, 0}"

definition number_reads_back :: "cjson_env \<Rightarrow> json_config \<Rightarrow> byte list \<Rightarrow> c_double \<Rightarrow> bool" where
  "number_reads_back env cfg xs x \<longleftrightarrow>
     xs \<noteq> [] \<and> (hd xs = 45 \<or> 48 \<le> hd xs \<and> hd xs \<le> 57) \<and> length xs \<le> 14 \<and>
     (\<forall>rest. ends_number rest \<longrightarrow>
        fpconv_strtod (env_heap env) (env_lib env) (env_dp env) (xs @ rest) = Inr (x, length xs) \<and>
        (decode_invalid_numbers cfg = 0 \<longrightarrow> json_is_invalid_number (xs @ rest) = Inr False))"

lemma token_number:
  assumes ok: "strtod_ok (env_lib env)" "cfg_settings cfg" "jp_ok json" and p: "jp_ptr json = xs @ rest"
    and num: "number_reads_back env cfg xs x" and rest: "ends_number rest"
  shows "token_at env cfg json T_NUMBER (NumberValue x) rest"
proof (intro token_atI [OF ok])
  obtain c ys where xs: "xs = c # ys" "c = 45 \<or> 48 \<le> c \<and> c \<le> 57"
    using num by (cases xs) (auto simp: number_reads_back_def)
  then have c: "ch2token_init c = T_UNKNOWN" "c \<noteq> 34" by (auto simp: ch2token_init_def)
  have skip: "skip_whitespace ch2token_init (xs @ rest) = Inr (xs @ rest)" using c xs by simp
  have get: "mem_get (xs @ rest) 0 = Inr c" using xs by (simp add: mem_get_def)
  have tab: "ch2token cfg = ch2token_init" using ok(2) by (simp add: cfg_settings_def)
  have len: "0 < length xs" "length xs \<le> 14" using num by (auto simp: number_reads_back_def)
  have inv: "(if decode_invalid_numbers cfg = 0 then json_is_invalid_number (xs @ rest) else Inr False) = Inr False"
    and read: "fpconv_strtod (env_heap env) (env_lib env) (env_dp env) (xs @ rest) = Inr (x, length xs)"
    using num rest by (auto simp: number_reads_back_def)
  show "\<exists>json' i. json_next_token env cfg json =
      Inr (json', \<lparr>tok_type = T_NUMBER, tok_index = i, tok_value = NumberValue x\<rparr>) \<and> jp_ptr json' = rest"
    using xs(2) c len
    by (auto simp: json_next_token_def p tab skip get inv json_next_number_token_def read Let_def)
qed

section \<open>Values with a JSON form\<close>

definition array_form :: "json_config \<Rightarrow> lua_entries \<Rightarrow> bool" where
  "array_form cfg es \<longleftrightarrow> es \<noteq> [] \<and> map fst es = map lua_index [1..int (length es)] \<and>
     fits_int (int (length es)) \<and> fits_int (int (length es) * encode_sparse_ratio cfg)"

definition object_form :: "lua_entries \<Rightarrow> bool" where
  "object_form es \<longleftrightarrow> distinct (map fst es) \<and> (\<forall>k \<in> fst ` set es. \<exists>s. k = LString s)"

fun json_value :: "cjson_env \<Rightarrow> json_config \<Rightarrow> lua_value \<Rightarrow> bool" where
  "json_value env cfg (LString s) = True"
| "json_value env cfg (LBool b) = True"
| "json_value env cfg (LLightUserdata is_null) = is_null"
| "json_value env cfg (LNumber x) = (\<exists>xs. num_text env cfg x = Inr xs \<and> number_reads_back env cfg xs x)"
| "json_value env cfg (LTable es) =
     ((array_form cfg es \<or> object_form es) \<and> (\<forall>(k, v) \<in> set es. json_value env cfg v))"
| "json_value env cfg v = False"

lemma array_scan_indices:
  assumes "map fst es = map lua_index [k + 1..k + int (length es)]" "0 \<le> k" "fits_int (k + int (length es))"
  shows "array_scan es k k = Inr (Some (k + int (length es), k + int (length es)))"
  using assms
proof (induction es arbitrary: k)
  case (Cons e es)
  obtain key v where e: "e = (key, v)" by force
  have "[k + 1..k + int (length (e # es))] = (k + 1) # [k + 1 + 1..k + 1 + int (length es)]"
    using upto_rec1 [of "k + 1" "k + int (length (e # es))"] by (simp add: algebra_simps)
  with Cons.prems e have key: "key = lua_index (k + 1)" and
    fst_es: "map fst es = map lua_index [k + 1 + 1..k + 1 + int (length es)]"
    by simp_all
  have "fits_int (k + 1 + int (length es))" using Cons.prems(3) by (simp add: algebra_simps)
  moreover from this have "fits_int (k + 1)" using Cons.prems(2) by (simp add: fits_int_def INT_MIN_def)
  moreover have "\<lfloor>1 + rat_of_int k\<rfloor> = k + 1" by linarith
  ultimately show ?case
    using Cons.IH [OF fst_es] Cons.prems(2)
    by (simp add: e key lua_index_def double_of_int_def iadd_def algebra_simps add_nonneg_eq_0_iff)
qed simp

lemma table_length_array:
  assumes "array_form cfg es" "cfg_settings cfg"
  shows "table_length cfg es = Inr (int (length es))"
proof -
  have scan: "array_scan es 0 0 = Inr (Some (int (length es), int (length es)))"
    using array_scan_indices [of es 0] assms(1) by (simp add: array_form_def)
  have "int (length es) \<le> int (length es) * encode_sparse_ratio cfg" if "encode_sparse_ratio cfg > 0"
    using that by (simp add: mult_le_cancel_left1)
  with scan assms show ?thesis
    by (auto simp: table_length_scan lua_array_length_def array_form_def)
qed

lemma table_length_object:
  assumes "object_form es" "cfg_settings cfg"
  shows "\<exists>n \<le> 0. table_length cfg es = Inr n"
proof (cases es)
  case Nil
  with assms(2) show ?thesis
    by (auto simp: table_length_scan lua_array_length_def cfg_settings_def fits_int_def INT_MAX_def INT_MIN_def)
next
  case (Cons e es')
  with assms(1) show ?thesis
    by (cases e) (auto simp: table_length_scan lua_array_length_def object_form_def)
qed

text \<open>The elements of an array as a list of values.\<close>

fun list_text :: "cjson_env \<Rightarrow> json_config \<Rightarrow> int \<Rightarrow> bool \<Rightarrow> lua_value list \<Rightarrow> c_fault + byte list" where
  "list_text env cfg d comma [] = Inr []"
| "list_text env cfg d comma (v # vs) =
     seqT (Inr (if comma then [44] else [])) (seqT (json_text env cfg d v) (list_text env cfg d True vs))"

lemma map_fst_array:
  assumes "array_form cfg es" "i < length es"
  shows "lua_rawget es (lua_index (int i + 1)) = snd (es ! i)"
proof (rule lua_rawget_in)
  have keys: "map fst es = map lua_index [1..int (length es)]" using assms by (simp add: array_form_def)
  show "distinct (map fst es)" unfolding keys by (simp add: distinct_map inj_on_def)
  have "fst (es ! i) = lua_index ([1..int (length es)] ! i)"
    using keys assms(2) by (metis length_map nth_map)
  then have "fst (es ! i) = lua_index (int i + 1)" using assms(2) by (simp add: nth_upto add.commute)
  then show "(lua_index (int i + 1), snd (es ! i)) \<in> set es"
    using assms(2) by (metis nth_mem prod.collapse)
qed

lemma elements_text_list:
  assumes "array_form cfg es" "k \<le> length es"
  shows "elements_text env cfg d es comma (int k + 1) (int (length es)) =
    list_text env cfg d comma (drop k (map snd es))"
  using assms(2)
proof (induction "length es - k" arbitrary: k comma)
  case 0
  then show ?case by (simp add: elements_text.simps)
next
  case (Suc n)
  then have k: "k < length es" by simp
  have "drop k (map snd es) = snd (es ! k) # drop (Suc k) (map snd es)"
    using k by (metis Cons_nth_drop_Suc length_map nth_map)
  with Suc.hyps(1) [of "Suc k" True] Suc.hyps(2) k map_fst_array [OF assms(1) k] show ?case
    by (simp add: elements_text.simps [of env cfg d es comma] algebra_simps)
qed

section \<open>Reading a value back\<close>

definition parse_value :: "nat \<Rightarrow> cjson_env \<Rightarrow> json_config \<Rightarrow> json_parse \<Rightarrow> parse_result" where
  "parse_value fuel env cfg json =
     bindE (json_next_token env cfg json) (\<lambda>(j, t). json_process_value fuel env cfg j t)"

definition parses_to :: "parse_result \<Rightarrow> lua_value \<Rightarrow> byte list \<Rightarrow> int \<Rightarrow> bool" where
  "parses_to r v p d \<longleftrightarrow> (\<exists>json'. r = Inr (json', v) \<and> jp_ptr json' = p \<and> jp_ok json' \<and> jp_depth json' = d)"

definition reads_back :: "cjson_env \<Rightarrow> json_config \<Rightarrow> lua_value \<Rightarrow> bool" where
  "reads_back env cfg v \<longleftrightarrow>
     (\<forall>xs json rest fuel. json_text env cfg (jp_depth json) v = Inr xs \<longrightarrow> jp_ok json \<longrightarrow>
        jp_ptr json = xs @ rest \<longrightarrow> ends_number rest \<longrightarrow> length (jp_ptr json) \<le> fuel \<longrightarrow>
        nests_within (decode_max_depth cfg - jp_depth json) v \<longrightarrow>
        parses_to (parse_value fuel env cfg json) v rest (jp_depth json))"

lemma reads_backD:
  assumes "reads_back env cfg v" "json_text env cfg (jp_depth json) v = Inr xs" "jp_ok json"
    "jp_ptr json = xs @ rest" "ends_number rest" "length (jp_ptr json) \<le> fuel"
    "nests_within (decode_max_depth cfg - jp_depth json) v"
  shows "parses_to (parse_value fuel env cfg json) v rest (jp_depth json)"
  using assms unfolding reads_back_def by blast

lemma parses_token:
  assumes "token_at env cfg json ty val p"
    and "\<And>json' i. jp_ptr json' = p \<Longrightarrow> jp_ok json' \<Longrightarrow> jp_depth json' = jp_depth json \<Longrightarrow>
       parses_to (f (json', \<lparr>tok_type = ty, tok_index = i, tok_value = val\<rparr>)) v q d"
  shows "parses_to (bindE (json_next_token env cfg json) f) v q d"
  using assms by (auto elim!: token_atE)

lemma parses_bind:
  assumes "parses_to r w p e"
    and "\<And>json'. jp_ptr json' = p \<Longrightarrow> jp_ok json' \<Longrightarrow> jp_depth json' = e \<Longrightarrow> parses_to (f (json', w)) v q d"
  shows "parses_to (bindE r f) v q d"
  using assms by (auto simp: parses_to_def)

lemma parses_leaf:
  "jp_ok json \<Longrightarrow> jp_ptr json = p \<Longrightarrow> jp_depth json = d \<Longrightarrow> parses_to (Inr (json, v)) v p d"
  by (auto simp: parses_to_def)

lemma seqT_Inr_iff: "seqT t u = Inr zs \<longleftrightarrow> (\<exists>xs ys. t = Inr xs \<and> u = Inr ys \<and> zs = xs @ ys)"
  by (auto simp: seqT_def bindE_Inr_iff)

lemma ends_number_intros: "ends_number (44 # p)" "ends_number (93 # p)" "ends_number (125 # p)" "ends_number (0 # p)"
  by (simp_all add: ends_number_def)

lemma list_text_comma:
  "list_text env cfg d True (v # vs) = Inr zs \<longleftrightarrow> (\<exists>ys. list_text env cfg d False (v # vs) = Inr ys \<and> zs = 44 # ys)"
  by (auto simp: seqT_Inr_iff)

lemma members_text_comma:
  "members_text env cfg d (e # es) True = Inr zs \<longleftrightarrow> (\<exists>ys. members_text env cfg d (e # es) False = Inr ys \<and> zs = 44 # ys)"
  by (cases e) (auto simp: seqT_Inr_iff)

lemma array_round:
  "bindE (json_next_token env cfg json) (\<lambda>(j, t). array_loop (Suc f) env cfg j t i acc) =
   bindE (parse_value f env cfg json) (\<lambda>(j1, v).
     bindE (json_next_token env cfg j1) (\<lambda>(j2, t2).
       if tok_type t2 = T_ARR_END then Inr (json_decode_ascend j2, LTable (lua_rawset acc (lua_index i) v))
       else if tok_type t2 \<noteq> T_COMMA then Inl (json_throw_parse_error ''comma or array end'' t2)
       else bindE (json_next_token env cfg j2) (\<lambda>(j3, t3).
         array_loop f env cfg j3 t3 (i + 1) (lua_rawset acc (lua_index i) v))))"
  by (simp add: parse_value_def bindE_assoc split_def)

lemma array_loop_reads:
  assumes ok: "strtod_ok (env_lib env)" "cfg_settings cfg"
    and vs: "\<And>v. v \<in> set (v0 # vs) \<Longrightarrow> reads_back env cfg v \<and> nests_within (decode_max_depth cfg - jp_depth json) v"
    and tx: "list_text env cfg (jp_depth json) False (v0 # vs) = Inr xs"
    and json: "jp_ok json" "jp_ptr json = xs @ 93 # rest" "length (jp_ptr json) < fuel"
    and acc: "\<And>k. i \<le> k \<Longrightarrow> lua_index k \<notin> fst ` set acc"
  shows "parses_to (bindE (json_next_token env cfg json) (\<lambda>(j, t). array_loop fuel env cfg j t i acc))
    (LTable (acc @ zip (map lua_index [i..i + int (length vs)]) (v0 # vs))) rest (jp_depth json - 1)"
  using vs tx json acc
proof (induction vs arbitrary: v0 xs json fuel acc i)
  case Nil
  then obtain f where f: "fuel = Suc f" by (cases fuel) auto
  have "parses_to (parse_value f env cfg json) v0 (93 # rest) (jp_depth json)"
    using Nil.prems(1) [of v0] Nil.prems(2-5) f
    by (auto simp: reads_back_def seqT_Inr_iff ends_number_intros)
  then show ?case
    unfolding f array_round
  proof (rule parses_bind, unfold prod.case, goal_cases)
    case (1 j1)
    show ?case
      by (rule parses_token [OF token_punct [OF ok 1(2,1), of T_ARR_END]])
        (use 1 Nil.prems(6) [of i] in \<open>auto simp: ch2token_init_def parses_to_def json_decode_ascend_def jp_ok_def lua_rawset_fresh\<close>)
  qed
next
  case (Cons a vs)
  then obtain f where f: "fuel = Suc f" by (cases fuel) auto
  from Cons.prems(2) obtain t0 ys where t0: "json_text env cfg (jp_depth json) v0 = Inr t0"
    "list_text env cfg (jp_depth json) False (a # vs) = Inr ys" "xs = t0 @ 44 # ys"
    by (simp only: list_text.simps(2) [of _ _ _ _ v0] seqT_Inr_iff list_text_comma) auto
  have "parses_to (parse_value f env cfg json) v0 (44 # ys @ 93 # rest) (jp_depth json)"
    using Cons.prems(1) [of v0] Cons.prems(3-5) t0 f
    by (auto simp: reads_back_def ends_number_intros)
  then show ?case
    unfolding f array_round
  proof (rule parses_bind, unfold prod.case, goal_cases)
    case (1 j1)
    note j1 = this
    show ?case
    proof (rule parses_token [OF token_punct [OF ok j1(2,1), of T_COMMA]], simp_all add: ch2token_init_def, goal_cases)
      case (1 j2)
      have "parses_to (bindE (json_next_token env cfg j2) (\<lambda>(j3, t3).
            array_loop f env cfg j3 t3 (i + 1) (acc @ [(lua_index i, v0)])))
          (LTable ((acc @ [(lua_index i, v0)]) @ zip (map lua_index [i + 1..i + 1 + int (length vs)]) (a # vs))) rest
          (jp_depth j2 - 1)"
        by (rule Cons.IH) (use 1 j1 Cons.prems f t0 in \<open>auto simp: reads_back_def\<close>)
      moreover have "[i..i + int (length (a # vs))] = i # [i + 1..i + 1 + int (length vs)]"
        by (simp add: upto_rec1 [of i] algebra_simps)
      ultimately show ?case
        using 1 j1 Cons.prems(6) [of i] by (simp add: lua_rawset_fresh algebra_simps)
    qed
  qed
qed

text \<open>The rest of a round of the object loop after its value.\<close>

definition object_tail :: "nat \<Rightarrow> cjson_env \<Rightarrow> json_config \<Rightarrow> lua_entries \<Rightarrow> json_parse \<Rightarrow> parse_result" where
  "object_tail f env cfg es j3 =
     bindE (json_next_token env cfg j3) (\<lambda>(j4, t4).
       if tok_type t4 = T_OBJ_END then Inr (json_decode_ascend j4, LTable es)
       else if tok_type t4 \<noteq> T_COMMA then Inl (json_throw_parse_error ''comma or object end'' t4)
       else bindE (json_next_token env cfg j4) (\<lambda>(j5, t5). object_loop f env cfg j5 t5 es))"

lemma object_round_reads:
  assumes ok: "strtod_ok (env_lib env)" "cfg_settings cfg"
    and v: "reads_back env cfg v" "nests_within (decode_max_depth cfg - jp_depth json) v"
    and tx: "json_text env cfg (jp_depth json) v = Inr t0"
    and json: "jp_ok json" "jp_ptr json = string_text k @ 58 # t0 @ p" "length (jp_ptr json) \<le> f" "ends_number p"
    and tail: "\<And>j3. jp_ptr j3 = p \<Longrightarrow> jp_ok j3 \<Longrightarrow> jp_depth j3 = jp_depth json \<Longrightarrow>
       parses_to (object_tail f env cfg (lua_rawset acc (LString k) v) j3) w rest d"
  shows "parses_to (bindE (json_next_token env cfg json) (\<lambda>(j, t). object_loop (Suc f) env cfg j t acc)) w rest d"
proof (rule parses_token [OF token_string [OF ok json(1,2)]], simp add: Let_def, goal_cases)
  case (1 j)
  note j = this
  show ?case
  proof (rule parses_token [OF token_punct [OF ok j(2,1), of T_COLON]], simp_all add: ch2token_init_def, goal_cases)
    case (1 j1)
    have "parses_to (parse_value f env cfg j1) v p (jp_depth j1)"
      by (rule reads_backD [OF v(1), where xs = t0]) (use v tx json 1 j in simp_all)
    then have "parses_to (bindE (parse_value f env cfg j1)
        (\<lambda>(j3, v). object_tail f env cfg (lua_rawset acc (LString k) v) j3)) w rest d"
      by (rule parses_bind) (use 1 j tail in simp)
    then show ?case by (simp add: parse_value_def object_tail_def bindE_assoc split_def)
  qed
qed

lemma object_loop_reads:
  assumes ok: "strtod_ok (env_lib env)" "cfg_settings cfg"
    and es: "\<And>v. v \<in> snd ` set (e # es) \<Longrightarrow> reads_back env cfg v \<and> nests_within (decode_max_depth cfg - jp_depth json) v"
    and keys: "object_form (acc @ e # es)"
    and tx: "members_text env cfg (jp_depth json) (e # es) False = Inr xs"
    and json: "jp_ok json" "jp_ptr json = xs @ 125 # rest" "length (jp_ptr json) < fuel"
  shows "parses_to (bindE (json_next_token env cfg json) (\<lambda>(j, t). object_loop fuel env cfg j t acc))
    (LTable (acc @ e # es)) rest (jp_depth json - 1)"
  using es keys tx json
proof (induction es arbitrary: e xs json fuel acc)
  case Nil
  then obtain f where f: "fuel = Suc f" by (cases fuel) auto
  obtain k v where e: "e = (LString k, v)" using Nil.prems(2) by (cases e) (auto simp: object_form_def)
  from Nil.prems(3) e obtain t0 where t0: "json_text env cfg (jp_depth json) v = Inr t0" "xs = string_text k @ 58 # t0"
    by (auto simp: seqT_Inr_iff key_text_def)
  show ?case
    unfolding f
  proof (rule object_round_reads [OF ok _ _ t0(1) Nil.prems(4), where k = k and p = "125 # rest"], goal_cases)
    case (6 j3)
    show ?case
      unfolding object_tail_def
      by (rule parses_token [OF token_punct [OF ok 6(2,1), of T_OBJ_END]])
        (use 6 Nil.prems(2) e in \<open>auto simp: ch2token_init_def parses_to_def json_decode_ascend_def jp_ok_def
          lua_rawset_fresh object_form_def\<close>)
  qed (use Nil.prems e t0 f in \<open>auto simp: ends_number_intros\<close>)
next
  case (Cons e' es)
  then obtain f where f: "fuel = Suc f" by (cases fuel) auto
  obtain k v where e: "e = (LString k, v)" using Cons.prems(2) by (cases e) (auto simp: object_form_def)
  from Cons.prems(3) e obtain t0 ys where t0: "json_text env cfg (jp_depth json) v = Inr t0"
    "members_text env cfg (jp_depth json) (e' # es) False = Inr ys" "xs = string_text k @ 58 # t0 @ 44 # ys"
    by (auto simp: seqT_Inr_iff key_text_def members_text_comma simp del: members_text.simps(2) [of _ _ _ _ _ es])
  show ?case
    unfolding f
  proof (rule object_round_reads [OF ok _ _ t0(1) Cons.prems(4), where k = k and p = "44 # ys @ 125 # rest"], goal_cases)
    case (6 j3)
    note j3 = this
    have snoc: "lua_rawset acc (LString k) v = acc @ [e]"
      using Cons.prems(2) e by (auto simp: object_form_def intro!: lua_rawset_fresh)
    show ?case
      unfolding object_tail_def snoc
    proof (rule parses_token [OF token_punct [OF ok j3(2,1), of T_COMMA]], simp_all add: ch2token_init_def, goal_cases)
      case (1 j4)
      have "parses_to (bindE (json_next_token env cfg j4) (\<lambda>(j5, t5). object_loop f env cfg j5 t5 (acc @ [e])))
          (LTable ((acc @ [e]) @ e' # es)) rest (jp_depth j4 - 1)"
        by (rule Cons.IH) (use 1 j3 Cons.prems f t0 in \<open>auto\<close>)
      with 1 j3 show ?case by simp
    qed
  qed (use Cons.prems e t0 f in \<open>auto simp: ends_number_intros\<close>)
qed

text \<open>A closing token cannot start the first round of a loop that succeeds.\<close>

lemma array_not_closed:
  assumes "parses_to (bindE r (\<lambda>(j, t). array_loop fuel env cfg j t i es)) v p d"
  shows "parses_to (bindE r (\<lambda>(j, t). if tok_type t = T_ARR_END then f j else array_loop fuel env cfg j t i es)) v p d"
proof (cases r)
  case (Inr jt)
  have "\<not> parses_to (array_loop fuel env cfg j t i es) v p d" if "tok_type t = T_ARR_END" for j t
    using that by (cases fuel) (auto simp: parses_to_def json_process_value.simps split: token_value.splits)
  with assms Inr show ?thesis by (cases jt) auto
qed (use assms in \<open>simp add: parses_to_def\<close>)

lemma object_not_closed:
  assumes "parses_to (bindE r (\<lambda>(j, t). object_loop fuel env cfg j t es)) v p d"
  shows "parses_to (bindE r (\<lambda>(j, t). if tok_type t = T_OBJ_END then f j else object_loop fuel env cfg j t es)) v p d"
proof (cases r)
  case (Inr jt)
  have "\<not> parses_to (object_loop fuel env cfg j t es) v p d" if "tok_type t = T_OBJ_END" for j t
    using that by (cases fuel) (auto simp: parses_to_def)
  with assms Inr show ?thesis by (cases jt) auto
qed (use assms in \<open>simp add: parses_to_def\<close>)

lemma jp_ok_depth [simp]: "jp_ok (json\<lparr>jp_depth := d\<rparr>) = jp_ok json"
  by (simp add: jp_ok_def)

lemma descend_within:
  assumes "\<And>d n. lua_checkstack (env_api env) d n" "jp_depth json + 1 \<le> decode_max_depth cfg"
  shows "json_decode_descend env cfg json n = Inr (json\<lparr>jp_depth := jp_depth json + 1\<rparr>)"
  using assms by (simp add: json_decode_descend_def Let_def)

lemma array_reads_back:
  assumes ok: "strtod_ok (env_lib env)" "cfg_settings cfg" and stack: "\<And>d n. lua_checkstack (env_api env) d n"
    and es: "\<And>v. v \<in> snd ` set es \<Longrightarrow> reads_back env cfg v" and arr: "array_form cfg es"
  shows "reads_back env cfg (LTable es)"
  unfolding reads_back_def
proof (intro allI impI)
  fix xs rest fuel and json :: json_parse
  assume tx: "json_text env cfg (jp_depth json) (LTable es) = Inr xs" and json: "jp_ok json"
    and ptr: "jp_ptr json = xs @ rest" and fuel: "length (jp_ptr json) \<le> fuel"
    and nest: "nests_within (decode_max_depth cfg - jp_depth json) (LTable es)"
  let ?d = "jp_depth json + 1"
  obtain v0 vs where vs: "map snd es = v0 # vs" using arr by (cases es) (auto simp: array_form_def)
  then have set_vs: "snd ` set es = set (v0 # vs)" by (metis list.set_map)
  have inner: "reads_back env cfg v \<and> nests_within (decode_max_depth cfg - ?d) v" if "v \<in> set (v0 # vs)" for v
    using that es nest set_vs by (force simp: algebra_simps)
  have "elements_text env cfg ?d es False 1 (int (length es)) = list_text env cfg ?d False (v0 # vs)"
    using elements_text_list [OF arr, of 0 env ?d False] vs by simp
  with tx arr obtain ys where ys: "list_text env cfg ?d False (v0 # vs) = Inr ys" "xs = 91 # ys @ [93]"
    using table_length_array [OF arr ok(2)]
    by (auto simp: json_text.simps [of _ _ _ "LTable es"] seqT_Inr_iff array_form_def simp del: list_text.simps split: if_splits)
  have "1 + int (length vs) = int (length es)" using vs by (metis length_map length_Cons of_nat_Suc)
  then have zip: "zip (map lua_index [1..1 + int (length vs)]) (v0 # vs) = es"
    using arr vs by (metis array_form_def zip_map_fst_snd)
  have ptr': "jp_ptr json = 91 # ys @ 93 # rest" using ptr ys(2) by simp
  show "parses_to (parse_value fuel env cfg json) (LTable es) rest (jp_depth json)"
    unfolding parse_value_def
  proof (rule parses_token [OF token_punct [OF ok json ptr', of T_ARR_BEGIN]], goal_cases)
    case (3 j i)
    let ?j = "j\<lparr>jp_depth := ?d\<rparr>"
    have "parses_to (bindE (json_next_token env cfg ?j) (\<lambda>(j, t). array_loop fuel env cfg j t 1 []))
        (LTable ([] @ zip (map lua_index [1..1 + int (length vs)]) (v0 # vs))) rest (jp_depth ?j - 1)"
      by (rule array_loop_reads [OF ok]) (use inner ys 3 fuel ptr' in \<open>simp_all del: list_text.simps\<close>)
    from array_not_closed [OF this] 3 nest show ?case
      by (simp add: json_process_value.simps json_parse_array_context.simps descend_within stack zip del: zip_Cons_Cons)
  qed (simp_all add: ch2token_init_def)
qed

lemma object_reads_back:
  assumes ok: "strtod_ok (env_lib env)" "cfg_settings cfg" and stack: "\<And>d n. lua_checkstack (env_api env) d n"
    and es: "\<And>v. v \<in> snd ` set es \<Longrightarrow> reads_back env cfg v" and obj: "object_form es"
  shows "reads_back env cfg (LTable es)"
  unfolding reads_back_def
proof (intro allI impI)
  fix xs rest fuel and json :: json_parse
  assume tx: "json_text env cfg (jp_depth json) (LTable es) = Inr xs" and json: "jp_ok json"
    and ptr: "jp_ptr json = xs @ rest" and fuel: "length (jp_ptr json) \<le> fuel"
    and nest: "nests_within (decode_max_depth cfg - jp_depth json) (LTable es)"
  let ?d = "jp_depth json + 1"
  have inner: "reads_back env cfg v \<and> nests_within (decode_max_depth cfg - ?d) v" if "v \<in> snd ` set es" for v
    using that es nest by (force simp: algebra_simps)
  from tx obtain ys where ys: "members_text env cfg ?d es False = Inr ys" "xs = 123 # ys @ [125]"
    using table_length_object [OF obj ok(2)]
    by (auto simp: json_text.simps [of _ _ _ "LTable es"] seqT_Inr_iff split: if_splits)
  have ptr': "jp_ptr json = 123 # ys @ 125 # rest" using ptr ys(2) by simp
  show "parses_to (parse_value fuel env cfg json) (LTable es) rest (jp_depth json)"
    unfolding parse_value_def
  proof (rule parses_token [OF token_punct [OF ok json ptr', of T_OBJ_BEGIN]], goal_cases)
    case (3 j i)
    let ?j = "j\<lparr>jp_depth := ?d\<rparr>"
    have eq: "json_process_value fuel env cfg j \<lparr>tok_type = T_OBJ_BEGIN, tok_index = i, tok_value = NoValue\<rparr> =
        bindE (json_next_token env cfg ?j) (\<lambda>(j2, t).
          if tok_type t = T_OBJ_END then Inr (json_decode_ascend j2, LTable []) else object_loop fuel env cfg j2 t [])"
      using 3 nest by (simp add: json_process_value.simps json_parse_object_context.simps descend_within stack)
    show ?case
    proof (cases es)
      case Nil
      with ys(1) 3 have "jp_ptr ?j = 125 # rest" "jp_ok ?j" by simp_all
      from parses_token [OF token_punct [OF ok this(2,1), of T_OBJ_END]] Nil eq 3 show ?thesis
        by (simp add: ch2token_init_def parses_to_def json_decode_ascend_def)
    next
      case (Cons e es')
      have "parses_to (bindE (json_next_token env cfg ?j) (\<lambda>(j, t). object_loop fuel env cfg j t []))
          (LTable ([] @ e # es')) rest (jp_depth ?j - 1)"
        by (rule object_loop_reads [OF ok]) (use inner ys 3 fuel ptr' obj Cons in \<open>simp_all del: members_text.simps\<close>)
      from object_not_closed [OF this, of "\<lambda>j2. Inr (json_decode_ascend j2, LTable [])"] eq Cons show ?thesis by simp
    qed
  qed (simp_all add: ch2token_init_def)
qed

lemma json_value_reads_back:
  assumes ok: "strtod_ok (env_lib env)" "cfg_settings cfg" and stack: "\<And>d n. lua_checkstack (env_api env) d n"
  shows "json_value env cfg v \<Longrightarrow> reads_back env cfg v"
proof (induction v)
  case (LTable es)
  then have "\<And>v. v \<in> snd ` set es \<Longrightarrow> reads_back env cfg v" by force
  with LTable.prems show ?case
    using array_reads_back [OF ok stack] object_reads_back [OF ok stack] by auto
next
  case (LNumber x)
  then show ?case
    by (auto simp: reads_back_def parse_value_def json_text.simps [of _ _ _ "LNumber x"] json_process_value.simps
        intro!: parses_token token_number [OF ok] parses_leaf)
next
  case (LString s)
  then show ?case
    by (auto simp: reads_back_def parse_value_def json_text.simps [of _ _ _ "LString s"] json_process_value.simps
        intro!: parses_token token_string [OF ok] parses_leaf)
next
  case (LBool b)
  then show ?case
    by (cases b) (auto simp: reads_back_def parse_value_def json_text.simps [of _ _ _ "LBool True"] json_text.simps [of _ _ _ "LBool False"] json_process_value.simps
        intro!: parses_token token_literals [OF ok] parses_leaf)
next
  case (LLightUserdata is_null)
  then show ?case
    by (auto simp: reads_back_def parse_value_def json_text.simps [of _ _ _ "LLightUserdata True"] json_process_value.simps
        intro!: parses_token token_literals [OF ok] parses_leaf)
qed simp_all

section \<open>The text has no zero byte\<close>

lemma escape1_nonzero: "0 \<notin> set (escape1 c)"
proof (cases "char2escape c")
  case None
  then have "c \<noteq> 0" by (auto simp: char2escape_def)
  with None show ?thesis by (simp add: escape1_def)
qed (use char2escape_short in \<open>simp add: escape1_def\<close>)

lemma string_text_nonzero: "0 \<notin> set (string_text s)"
  using escape1_nonzero by (auto simp: string_text_def)

lemma num_text_nonzero:
  assumes "g_fmt_ok (env_lib env)" "num_text env cfg x = Inr xs"
  shows "0 \<notin> set xs"
proof -
  have "0 \<notin> set (number_text (env_lib env) dp x p)" for dp p
  proof (cases "set_number_format p")
    case (Inr fmt)
    have "0 \<notin> set (snprintf_g (env_lib env) fmt x)" using assms(1) by (simp add: g_fmt_ok_def)
    with Inr show ?thesis
      by (auto simp: number_text_def fpconv_g_fmt_def Let_def dest!: in_set_takeD set_takeWhileD split: if_splits)
  qed (simp add: number_text_def fpconv_g_fmt_def)
  with assms(2) show ?thesis
    by (auto simp: num_text_def bytes_def of_char_def split: if_splits)
qed

lemma json_text_nonzero:
  shows "g_fmt_ok (env_lib env) \<Longrightarrow> json_text env cfg d v = Inr xs \<Longrightarrow> 0 \<notin> set xs"
    and "g_fmt_ok (env_lib env) \<Longrightarrow> elements_text env cfg d es comma i n = Inr xs \<Longrightarrow> 0 \<notin> set xs"
    and "g_fmt_ok (env_lib env) \<Longrightarrow> members_text env cfg d es comma = Inr xs \<Longrightarrow> 0 \<notin> set xs"
proof (induction env cfg d v and env cfg d es comma i n and env cfg d es comma
    arbitrary: xs and xs and xs rule: json_text_elements_text_members_text.induct)
  case (1 env cfg d v)
  show ?case
  proof (cases v)
    case (LTable es)
    with 1 show ?thesis
      unfolding json_text.simps [of env cfg d v]
      by (auto simp: bindE_Inr_iff seqT_Inr_iff split: if_splits)
  qed (use 1(4) in \<open>unfold json_text.simps [of env cfg d v],
      auto simp: string_text_nonzero num_text_nonzero [OF 1(3)] bytes_def of_char_def split: if_splits\<close>)
next
  case (2 env cfg d es comma i n)
  then show ?case
    unfolding elements_text.simps [of env cfg d es comma i n]
    by (auto simp: seqT_Inr_iff split: if_splits)
next
  case (4 env cfg d key v es comma)
  have "0 \<notin> set ks" if "key_text env cfg key = Inr ks" for ks
    using that string_text_nonzero num_text_nonzero [OF 4(3)]
    by (auto simp: key_text_def seqT_Inr_iff split: lua_value.splits)
  with 4 show ?case by (auto simp: seqT_Inr_iff)
qed simp

section \<open>Properties\<close>

text \<open>
  C2: encoding a value that has a JSON form and decoding the text gives the value back, when
  memory is granted, the nesting is within the decoder's limit and the text is not huge.
\<close>

theorem json_decode_inverts_encode:
  assumes cfg: "cfg_wf cfg" and lib: "g_fmt_ok (env_lib env)" "strtod_ok (env_lib env)"
    and lua: "\<And>d n. lua_checkstack (env_api env) d n" "\<And>s. luaL_checkstring (env_api env) (LString s) = Some s"
    and mem: "\<And>n. can_alloc (env_heap env) n"
    and v: "json_value env cfg v" "nests_within (decode_max_depth cfg) v" "small_strings v"
    and tx: "json_text env cfg 0 v = Inr xs" "2 * (6 * int (length xs) + 33) \<le> INT_MAX"
  shows "\<exists>cfg'. json_encode env cfg [v] = Inr (LString xs, cfg') \<and> json_decode env cfg [LString xs] = Inr v"
proof -
  have set: "cfg_settings cfg" using cfg by (simp add: cfg_wf_def)
  have enc: "\<exists>cfg'. json_encode env cfg [v] = Inr (LString xs, cfg')"
    using json_encode_correct [OF cfg lib(1) v(3)] tx mem by (auto split: sum.splits prod.splits)
  have len: "int (length xs) < INT_MAX" using tx(2) by (simp add: INT_MAX_def)
  then have ti: "to_int (int (length xs)) = int (length xs)"
    by (simp add: to_int_id fits_int_def INT_MIN_def)
  have nz: "0 \<notin> set xs" using json_text_nonzero(1) [OF lib(1) tx(1)] .
  obtain tmp where tmp: "strbuf_new (env_heap env) (int (length xs)) = Inr tmp" "sb_wf tmp"
    "int (length xs) + 1 \<le> sb_size tmp"
    using strbuf_new_cases [OF _ len, of "env_heap env"] mem len
    by (cases "strbuf_new (env_heap env) (int (length xs))")
      (auto simp: strbuf_new_def strbuf_init_def strbuf_ensure_null_def sb_store_def mem_write_def iadd_def
        fits_int_def INT_MIN_def STRBUF_DEFAULT_SIZE_def split: if_splits)
  let ?j = "\<lparr>jp_data = xs @ [0], jp_ptr = xs @ [0], jp_tmp = tmp, jp_depth = 0\<rparr>"
  have j: "jp_ok ?j" using tmp by (simp add: jp_ok_def terminated_def)
  have "parses_to (parse_value (length (xs @ [0])) env cfg ?j) v [0] (jp_depth ?j)"
    by (rule reads_backD [OF json_value_reads_back [OF lib(2) set lua(1) v(1)] _ j])
      (use tx v in \<open>simp_all add: ends_number_def\<close>)
  then obtain j2 where j2: "parse_value (length (xs @ [0])) env cfg ?j = Inr (j2, v)" "jp_ptr j2 = [0]" "jp_ok j2"
    by (auto simp: parses_to_def)
  obtain j3 t3 where "json_next_token env cfg j2 = Inr (j3, t3)" "tok_type t3 = T_END"
    using token_end [OF lib(2) set j2(3,2)] by (auto elim!: token_atE)
  moreover have "\<not> (length xs \<ge> 2 \<and> ((xs @ [0]) ! 0 = 0 \<or> (xs @ [0]) ! 1 = 0))"
    using nz by (auto simp: nth_append in_set_conv_nth)
  moreover obtain j1 t1 where "json_next_token env cfg ?j = Inr (j1, t1)"
    "json_process_value (length (xs @ [0])) env cfg j1 t1 = Inr (j2, v)"
    using j2(1) by (auto simp: parse_value_def bindE_Inr_iff)
  ultimately have "json_decode env cfg [LString xs] = Inr v"
    using tmp(1) by (auto simp: json_decode_def lua(2) ti Let_def)
  with enc show ?thesis by blast
qed

theorem json_decode_inverts_encode_witness:
  "\<exists>cfg'. json_encode plain_env default_config [sample_value] = Inr (LString sample_text, cfg') \<and>
     json_decode plain_env default_config [LString sample_text] = Inr sample_value"
proof (rule json_decode_inverts_encode [OF default_config_wf plain_env_ok plain_env_strtod])
  have "num_text plain_env default_config (Finite 1) = Inr [49]"
    by (simp add: num_text_def is_nan_def is_inf_def number_text_def fpconv_g_fmt_def set_number_format_def
        plain_env_def plain_lib_def default_config_def FPCONV_G_FMT_BUFSIZE_def Let_def)
  moreover have "number_reads_back plain_env default_config [49] (Finite 1)"
    by (simp add: number_reads_back_def fpconv_strtod_def plain_env_def plain_lib_def default_config_def)
  ultimately show "json_value plain_env default_config sample_value"
    by (simp add: sample_value_def array_form_def object_form_def upto_rec1 fits_int_def INT_MAX_def INT_MIN_def
        default_config_def)
  show "nests_within (decode_max_depth default_config) sample_value" "small_strings sample_value"
    by (simp_all add: sample_value_def default_config_def lua_index_def INT_MAX_def)
  show "json_text plain_env default_config 0 sample_value = Inr sample_text" by (rule sample_value_text)
  show "2 * (6 * int (length sample_text) + 33) \<le> INT_MAX" by (simp add: sample_text_def INT_MAX_def)
qed (simp_all add: plain_env_def strict_api_def ample_heap_def)

end
