(* ===== verification/CjsonUnicode.thy ===== *)
theory CjsonUnicode
  imports CjsonRoundtrip
begin

text \<open>
  The decoder's treatment of Unicode escapes: the escape of any Unicode scalar value, one UTF-16 code
  unit or a surrogate pair written in hexadecimal, is replaced by the UTF-8 bytes of that value.
\<close>

section \<open>Bits of integers\<close>

lemma and_block: "x AND push_bit n (mask m) = push_bit n (take_bit m (drop_bit n (x :: int)))"
  by (rule bit_eqI) (auto simp: bit_simps)

lemma and_block_value: "x AND push_bit n (mask m) = 2 ^ n * ((x div 2 ^ n) mod 2 ^ (m :: nat))" for x :: int
  unfolding and_block by (simp add: push_bit_eq_mult take_bit_eq_mod drop_bit_eq_div)

lemma and_low: "x AND mask m = x mod 2 ^ m" for x :: int
  by (simp add: take_bit_eq_mod flip: take_bit_eq_mask)

lemma or_block:
  assumes "0 \<le> a" "a < 2 ^ n"
  shows "a OR (2 ^ n * k) = a + 2 ^ n * (k :: int)" "(2 ^ n * k) OR a = 2 ^ n * k + (a :: int)"
proof -
  have "take_bit n a = a" using assms by (simp add: take_bit_int_eq_self)
  then have "bit a m \<Longrightarrow> m < n" for m by (metis bit_take_bit_iff)
  then have "a AND push_bit n k = 0" by (intro bit_eqI) (auto simp: bit_simps dest: leD)
  then have "a OR push_bit n k = a + push_bit n k" by (simp add: disjunctive_add_eq_or)
  then show "a OR (2 ^ n * k) = a + 2 ^ n * k" "(2 ^ n * k) OR a = 2 ^ n * k + a"
    by (simp_all add: push_bit_eq_mult mult.commute or.commute)
qed

lemma div_below:
  assumes "0 < c" "u < k * c"
  shows "u div c < (k :: int)"
proof (rule ccontr)
  assume "\<not> u div c < k"
  then have "k * c \<le> (u div c) * c" using assms(1) by simp
  also have "\<dots> \<le> u" using assms(1) pos_mod_sign [of c u] div_mult_mod_eq [of u c] by linarith
  finally show False using assms(2) by simp
qed

section \<open>Hexadecimal code units\<close>

definition hexchar :: "int \<Rightarrow> byte" where
  "hexchar x = (if x < 10 then word_of_int (48 + x) else word_of_int (87 + x))"

definition hex4 :: "int \<Rightarrow> byte list" where
  "hex4 u = [hexchar (u div 4096), hexchar (u div 256 mod 16), hexchar (u div 16 mod 16), hexchar (u mod 16)]"

lemma hexdigit2int_hexchar:
  assumes "0 \<le> x" "x < 16"
  shows "hexdigit2int (hexchar x) = x"
proof -
  from assms have "x \<in> {0, 1, 2, 3, 4, 5, 6, 7, 8, 9, 10, 11, 12, 13, 14, 15}"
    by (simp, presburger)
  then show ?thesis
    by (elim insertE emptyE) (simp_all add: hexchar_def hexdigit2int_digits)
qed

lemma decode_hex4_hex4:
  assumes "0 \<le> u" "u < 65536"
  shows "decode_hex4 (hex4 u @ rest) = Inr u"
proof -
  have "u div 4096 < 16" using assms by (intro div_below) simp_all
  then have d: "hexdigit2int (hexchar (u div 4096)) = u div 4096"
    "hexdigit2int (hexchar (u div 256 mod 16)) = u div 256 mod 16"
    "hexdigit2int (hexchar (u div 16 mod 16)) = u div 16 mod 16"
    "hexdigit2int (hexchar (u mod 16)) = u mod 16"
    using assms by (auto intro!: hexdigit2int_hexchar)
  have "u = 4096 * (u div 4096) + u mod (256 * 16)" by simp
  also have "u mod (256 * 16) = 256 * (u div 256 mod 16) + u mod (16 * 16)"
    by (subst zmod_zmult2_eq) simp_all
  also have "u mod (16 * 16) = 16 * (u div 16 mod 16) + u mod 16"
    by (subst zmod_zmult2_eq) simp_all
  finally have "u div 4096 * 4096 + u div 256 mod 16 * 256 + u div 16 mod 16 * 16 + u mod 16 = u" by simp
  then have sum: "push_bit 12 (u div 4096) + push_bit 8 (u div 256 mod 16) + push_bit 4 (u div 16 mod 16) + u mod 16 = u"
    by (simp add: push_bit_eq_mult)
  define a b c e where "a = u div 4096" "b = u div 256 mod 16" "c = u div 16 mod 16" "e = u mod 16"
  note abce = this
  have "0 \<le> a" "0 \<le> b" "0 \<le> c" "0 \<le> e" using assms by (simp_all add: abce)
  then have "hex_digits 4 (hex4 u @ rest) = Inr (Some [a, b, c, e])"
    using d unfolding hex4_def abce [symmetric] by (simp add: numeral_eq_Suc)
  with sum show ?thesis unfolding abce [symmetric] by (simp add: decode_hex4_def numeral_eq_Suc)
qed

section \<open>UTF-16 units and UTF-8 bytes\<close>

text \<open>The UTF-16 code units of a code point and the escape sequence that writes them.\<close>

definition utf16 :: "int \<Rightarrow> int list" where
  "utf16 cp = (if cp < 65536 then [cp]
     else [0xD800 + (cp - 65536) div 1024, 0xDC00 + (cp - 65536) mod 1024])"

definition unicode_escape :: "int \<Rightarrow> byte list" where
  "unicode_escape cp = concat (map (\<lambda>u. [92, 117] @ hex4 u) (utf16 cp))"

definition scalar_value :: "int \<Rightarrow> bool" where
  "scalar_value cp \<longleftrightarrow> 0 \<le> cp \<and> cp \<le> 0x10FFFF \<and> \<not> (0xD800 \<le> cp \<and> cp \<le> 0xDFFF)"

text \<open>UTF-8 by its definition: the payload of each byte, by the length of the sequence.\<close>

fun utf8_value :: "byte list \<Rightarrow> int option" where
  "utf8_value [a] = (if uint a < 128 then Some (uint a) else None)"
| "utf8_value [a, b] =
     (if 192 \<le> uint a \<and> uint a < 224 \<and> uint b div 64 = 2
      then Some ((uint a - 192) * 64 + uint b mod 64) else None)"
| "utf8_value [a, b, c] =
     (if 224 \<le> uint a \<and> uint a < 240 \<and> uint b div 64 = 2 \<and> uint c div 64 = 2
      then Some ((uint a - 224) * 4096 + uint b mod 64 * 64 + uint c mod 64) else None)"
| "utf8_value [a, b, c, d] =
     (if 240 \<le> uint a \<and> uint a < 248 \<and> uint b div 64 = 2 \<and> uint c div 64 = 2 \<and> uint d div 64 = 2
      then Some ((uint a - 240) * 262144 + uint b mod 64 * 4096 + uint c mod 64 * 64 + uint d mod 64) else None)"
| "utf8_value _ = None"

text \<open>The encoding of a value is the sequence that has this value and the least number of bytes that can hold it.\<close>

definition utf8_length :: "int \<Rightarrow> nat" where
  "utf8_length cp = (if cp < 0x80 then 1 else if cp < 0x800 then 2 else if cp < 0x10000 then 3 else 4)"

definition utf8_encodes :: "byte list \<Rightarrow> int \<Rightarrow> bool" where
  "utf8_encodes bs cp \<longleftrightarrow> utf8_value bs = Some cp \<and> length bs = utf8_length cp"

lemma uint_small: "0 \<le> x \<Longrightarrow> x < 256 \<Longrightarrow> uint (word_of_int x :: byte) = x"
  by (simp add: unsigned_of_int take_bit_int_eq_self)

lemma mask_values:
  "push_bit 11 (mask 5) = (0xF800 :: int)" "push_bit 10 (mask 1) = (0x400 :: int)"
  "push_bit 10 (mask 6) = (0xFC00 :: int)" "mask 10 = (0x3FF :: int)" "mask 6 = (0x3F :: int)"
  by (simp_all add: mask_eq_exp_minus_1 push_bit_eq_mult)

lemma masks:
  "x AND 0xF800 = 2048 * (x div 2048 mod 32)" "x AND 0x400 = 1024 * (x div 1024 mod 2)"
  "x AND 0xFC00 = 1024 * (x div 1024 mod 64)" "x AND 0x3FF = x mod 1024" "x AND 0x3F = x mod 64"
  for x :: int
  unfolding mask_values [symmetric] and_block_value and_low by simp_all

lemma or_marks:
  "0 \<le> x \<Longrightarrow> x < 64 \<Longrightarrow> x OR 0xC0 = x + 192" "0 \<le> x \<Longrightarrow> x < 32 \<Longrightarrow> x OR 0xE0 = x + 224"
  "0 \<le> x \<Longrightarrow> x < 16 \<Longrightarrow> x OR 0xF0 = x + 240" "0 \<le> x \<Longrightarrow> x < 64 \<Longrightarrow> x OR 0x80 = x + 128"
  for x :: int
  using or_block(1) [of x 6 3] or_block(1) [of x 5 7] or_block(1) [of x 4 15] or_block(1) [of x 6 2] by simp_all

lemma trail_byte: "uint (word_of_int ((x AND 0x3F) OR 0x80) :: byte) = x mod 64 + 128" for x :: int
proof -
  have b: "0 \<le> x mod 64" "x mod 64 < 64" by simp_all
  then have "(x AND 0x3F) OR 0x80 = x mod 64 + 128" by (simp only: masks or_marks)
  then show ?thesis using b uint_small [of "x mod 64 + 128"] by simp
qed

lemma lead_byte:
  "0 \<le> x \<Longrightarrow> x < 32 \<Longrightarrow> uint (word_of_int (x OR 0xC0) :: byte) = x + 192"
  "0 \<le> x \<Longrightarrow> x < 16 \<Longrightarrow> uint (word_of_int (x OR 0xE0) :: byte) = x + 224"
  "0 \<le> x \<Longrightarrow> x < 8 \<Longrightarrow> uint (word_of_int (x OR 0xF0) :: byte) = x + 240"
  for x :: int
  using or_marks(1-3) [of x] uint_small [of "x OR 0xC0"] uint_small [of "x OR 0xE0"] uint_small [of "x OR 0xF0"]
  by simp_all

lemma div_mod_combine: "x div (a * b) * b + x div a mod b = x div a" if "0 < a" "0 < b" for x a b :: int
  using that by (simp add: zdiv_zmult2_eq)

lemma utf8_value_codepoint:
  assumes "0 \<le> cp" "cp \<le> 0x1FFFFF"
  shows "utf8_value (codepoint_to_utf8 cp) = Some cp"
proof -
  have trail: "(x mod 64 + 128) div 64 = 2" "(x mod 64 + 128) mod 64 = x mod 64" for x :: int
    using mod_mult_self2 [of "x mod 64" 64 2] by simp_all
  have c6: "cp div 64 * 64 + cp mod 64 = cp" by simp
  have c12: "cp div 4096 * 64 + cp div 64 mod 64 = cp div 64" using div_mod_combine [of 64 64 cp] by simp
  have c18: "cp div 262144 * 64 + cp div 4096 mod 64 = cp div 4096" using div_mod_combine [of 4096 64 cp] by simp
  have s12: "cp div 4096 * 4096 + cp div 64 mod 64 * 64 + cp mod 64 = cp" using c6 c12 by linarith
  have s18: "cp div 262144 * 262144 + cp div 4096 mod 64 * 4096 + cp div 64 mod 64 * 64 + cp mod 64 = cp"
    using s12 c18 by linarith
  consider "cp \<le> 0x7F" | "0x7F < cp" "cp \<le> 0x7FF" | "0x7FF < cp" "cp \<le> 0xFFFF" | "0xFFFF < cp" by linarith
  then show ?thesis
  proof cases
    case 1
    with assms show ?thesis by (simp add: codepoint_to_utf8_def uint_small)
  next
    case 2
    then have "0 \<le> cp div 64" "cp div 64 < 32" by (simp_all add: div_below)
    with 2 c6 trail [of cp] show ?thesis
      by (simp add: codepoint_to_utf8_def trail_byte drop_bit_eq_div lead_byte)
  next
    case 3
    then have "0 \<le> cp div 4096" "cp div 4096 < 16" by (simp_all add: div_below)
    with 3 s12 trail [of cp] trail [of "cp div 64"] show ?thesis
      by (simp add: codepoint_to_utf8_def trail_byte drop_bit_eq_div lead_byte)
  next
    case 4
    then have q: "0 \<le> cp div 262144" "cp div 262144 < 8" using assms by (simp_all add: div_below)
    obtain a b c d where bytes: "codepoint_to_utf8 cp = [a, b, c, d]" "uint a = cp div 262144 + 240"
      "uint b = cp div 4096 mod 64 + 128" "uint c = cp div 64 mod 64 + 128" "uint d = cp mod 64 + 128"
    proof
      show "codepoint_to_utf8 cp = [word_of_int (cp div 262144 OR 0xF0), word_of_int ((cp div 4096 AND 0x3F) OR 0x80),
          word_of_int ((cp div 64 AND 0x3F) OR 0x80), word_of_int ((cp AND 0x3F) OR 0x80)]"
        using 4 assms by (simp add: codepoint_to_utf8_def drop_bit_eq_div)
    qed (simp_all only: trail_byte lead_byte q)
    have "240 \<le> cp div 262144 + 240" "cp div 262144 + 240 < 248" "cp div 262144 + 240 - 240 = cp div 262144"
      using q by linarith+
    then show ?thesis
      by (simp only: bytes utf8_value.simps trail s18 if_True simp_thms)
  qed
qed

lemma codepoint_utf8_encodes:
  assumes "0 \<le> cp" "cp \<le> 0x1FFFFF"
  shows "utf8_encodes (codepoint_to_utf8 cp) cp"
  using assms utf8_value_codepoint [OF assms] by (auto simp: utf8_encodes_def codepoint_to_utf8_def utf8_length_def)

section \<open>Properties\<close>

lemma escape_codepoint_escape:
  assumes "scalar_value cp"
  shows "escape_codepoint (unicode_escape cp @ rest) = Inr (Some (cp, length (unicode_escape cp)))"
proof (cases "cp < 65536")
  case True
  with assms have cp: "0 \<le> cp" "\<not> (0xD800 \<le> cp \<and> cp \<le> 0xDFFF)" by (simp_all add: scalar_value_def)
  have "cp AND 0xF800 \<noteq> 0xD800"
  proof
    assume "cp AND 0xF800 = 0xD800"
    then have "cp div 2048 mod 32 = 27" by (simp add: masks)
    moreover have "0 \<le> cp div 2048" "cp div 2048 < 32" using cp True by (simp_all add: div_below)
    ultimately have "cp div 2048 = 27" by simp
    moreover have "0 \<le> cp mod 2048" "cp mod 2048 < 2048" by simp_all
    ultimately show False using cp(2) div_mult_mod_eq [of cp 2048] by linarith
  qed
  with True cp(1) decode_hex4_hex4 [of cp rest] show ?thesis
    by (simp add: unicode_escape_def utf16_def escape_codepoint_def hex4_def)
next
  case False
  define hi lo where "hi = (cp - 65536) div 1024" "lo = (cp - 65536) mod 1024"
  note hl = this
  have hi: "0 \<le> hi" "hi < 1024" using assms False by (simp_all add: hl scalar_value_def div_below)
  have lo: "0 \<le> lo" "lo < 1024" by (simp_all add: hl)
  let ?p = "unicode_escape cp @ rest"
  have p: "?p = [92, 117] @ hex4 (0xD800 + hi) @ [92, 117] @ hex4 (0xDC00 + lo) @ rest"
    using False by (simp add: unicode_escape_def utf16_def hl)
  have d: "decode_hex4 (drop 2 ?p) = Inr (0xD800 + hi)" "decode_hex4 (drop 8 ?p) = Inr (0xDC00 + lo)"
    "mem_get ?p 6 = Inr 92" "mem_get ?p 7 = Inr 117"
    unfolding p using hi lo decode_hex4_hex4 [of "0xD800 + hi" "[92, 117] @ hex4 (0xDC00 + lo) @ rest"]
      decode_hex4_hex4 [of "0xDC00 + lo" rest]
    by (simp_all add: hex4_def mem_get_def)
  have "(55296 + hi) div 2048 = 27" "(55296 + hi) div 1024 = 54" "(56320 + lo) div 1024 = 55"
    using hi lo by (simp_all add: int_div_pos_eq)
  moreover have "(55296 + hi) mod 1024 = hi" "(56320 + lo) mod 1024 = lo"
    using hi lo mod_mult_self2 [of hi 1024 54] mod_mult_self2 [of lo 1024 55]
    by (simp_all add: add.commute)
  moreover have "push_bit 10 hi OR lo = hi * 1024 + lo"
    using or_block(2) [OF lo(1), of 10 hi] lo(2) by (simp add: push_bit_eq_mult mult.commute)
  moreover have "hi * 1024 + lo + 65536 = cp" by (simp add: hl)
  moreover have "length (unicode_escape cp) = 12"
    using False by (simp add: unicode_escape_def utf16_def hex4_def)
  ultimately show ?thesis
    using hi lo unfolding escape_codepoint_def d(1) bindE_simps
    by (simp add: d(2-4) masks del: drop_append)
qed

text \<open>
  C27: the escape of a Unicode scalar value, one \<open>uXXXX\<close> escape or a surrogate pair, is read as
  exactly its characters, and what is appended to the token is the UTF-8 encoding of that value: the bytes that have this value, in the
  shortest form.
\<close>

theorem json_unicode_escape_correct:
  assumes "scalar_value cp"
  shows "\<exists>bs. utf8_encodes bs cp \<and> json_append_unicode_escape (unicode_escape cp @ rest) tmp =
      bindE (strbuf_append_mem_unsafe tmp bs) (\<lambda>tmp'. Inr (Some (rest, tmp')))"
proof -
  have v: "utf8_encodes (codepoint_to_utf8 cp) cp"
    using assms by (intro codepoint_utf8_encodes) (simp_all add: scalar_value_def)
  then have "codepoint_to_utf8 cp \<noteq> []" by (auto simp: utf8_encodes_def)
  with escape_codepoint_escape [OF assms, of rest]
  have "json_append_unicode_escape (unicode_escape cp @ rest) tmp =
      bindE (strbuf_append_mem_unsafe tmp (codepoint_to_utf8 cp)) (\<lambda>tmp'. Inr (Some (rest, tmp')))"
    by (simp add: json_append_unicode_escape_def Let_def)
  with v show ?thesis by blast
qed

text \<open>The encoding of a value is one.\<close>

lemma utf8_grinning:
  assumes "utf8_encodes bs 0x1F600"
  shows "bs = [0xF0, 0x9F, 0x98, 0x80]"
proof -
  obtain a b c d where bs: "bs = [a, b, c, d]" using assms
    by (auto simp: utf8_encodes_def utf8_length_def length_Suc_conv numeral_eq_Suc)
  have v: "240 \<le> uint a" "uint b div 64 = 2" "uint c div 64 = 2" "uint d div 64 = 2"
    "(uint a - 240) * 262144 + uint b mod 64 * 4096 + uint c mod 64 * 64 + uint d mod 64 = 0x1F600"
    using assms by (auto simp: bs utf8_encodes_def split: if_splits)
  have m: "uint x = uint x div 64 * 64 + uint x mod 64" "0 \<le> uint x mod 64" "uint x mod 64 < 64" for x :: byte by simp_all
  have digits: "A = 0 \<and> B = 31 \<and> C = 24 \<and> D = 0"
    if e: "A * 262144 + B * 4096 + C * 64 + D = 0x1F600" and r: "0 \<le> A" "0 \<le> B" "B < 64" "0 \<le> C" "C < 64" "0 \<le> D" "D < 64" for A B C D :: int
  proof -
    have a: "A = 0" using e r by linarith
    have b: "B = 31"
    proof -
      have "\<not> 32 \<le> B" "\<not> B \<le> 30" using e r a by linarith+
      then show ?thesis by linarith
    qed
    have "C = 24"
    proof -
      have "\<not> 25 \<le> C" "\<not> C \<le> 23" using e r a b by linarith+
      then show ?thesis by linarith
    qed
    with a b e show ?thesis by simp
  qed
  have "uint a - 240 = 0 \<and> uint b mod 64 = 31 \<and> uint c mod 64 = 24 \<and> uint d mod 64 = 0"
    by (rule digits) (use v(1,5) m(2,3) [of b] m(2,3) [of c] m(2,3) [of d] in linarith)+
  then have "uint a = uint (0xF0 :: byte)" "uint b = uint (0x9F :: byte)" "uint c = uint (0x98 :: byte)" "uint d = uint (0x80 :: byte)"
    using v(2-4) m(1) [of b] m(1) [of c] m(1) [of d] by simp_all
  then show ?thesis by (simp only: bs word_uint_eq_iff [symmetric])
qed

theorem json_unicode_escape_correct_witness:
  "case json_append_unicode_escape (unicode_escape 0x1F600 @ [0]) fresh_buffer of
      Inl e \<Rightarrow> False
    | Inr r \<Rightarrow> (\<exists>tmp. r = Some ([0], tmp) \<and> sb_text tmp = [0xF0, 0x9F, 0x98, 0x80])"
proof -
  obtain bs where bs: "utf8_encodes bs 0x1F600" "json_append_unicode_escape (unicode_escape 0x1F600 @ [0]) fresh_buffer =
      bindE (strbuf_append_mem_unsafe fresh_buffer bs) (\<lambda>tmp'. Inr (Some ([0], tmp')))"
    using json_unicode_escape_correct [where cp = "0x1F600" and rest = "[0]" and tmp = fresh_buffer] by (auto simp: scalar_value_def)
  moreover have "\<exists>s. sb_push fresh_buffer [0xF0, 0x9F, 0x98, 0x80] = Inr s \<and> sb_text s = [0xF0, 0x9F, 0x98, 0x80]"
    using sb_push_ok [OF fresh_buffer_wf(1), of "[0xF0, 0x9F, 0x98, 0x80]"] fresh_buffer_wf(2)
    by (auto simp: strbuf_empty_length_def fresh_buffer_def)
  ultimately show ?thesis using utf8_grinning [OF bs(1)] by (auto simp: append_as_push)
qed

text \<open>
  a number whose text is longer than 14 characters is decoded as a string holding that text,
  not as a number.
\<close>

theorem json_long_number_is_string:
  assumes json: "jp_ok json" and len: "14 < n"
    and read: "fpconv_strtod (env_heap env) (env_lib env) (env_dp env) (jp_ptr json) = Inr (x, n)"
      "n \<le> length (takeWhile (\<lambda>b. b \<noteq> 0) (jp_ptr json))"
  shows "\<exists>json' token'. json_next_number_token env json token = Inr (json', token') \<and>
    tok_type token' = T_STRING \<and> tok_value token' = StringValue (take n (jp_ptr json)) \<and>
    jp_ptr json' = drop n (jp_ptr json)"
proof -
  have n: "n < length (jp_ptr json)"
    using terminated_drop [of "jp_ptr json" n] nonzero_prefix [OF read(2)] json by (auto simp: jp_ok_def)
  then have fits: "fits_tmp (strbuf_reset (jp_tmp json)) n" "sb_text (strbuf_reset (jp_tmp json)) = []"
    using strbuf_reset_fits [of "jp_tmp json" n] json by (auto simp: jp_ok_def)
  obtain tmp where tmp: "copy_number n (jp_ptr json) (strbuf_reset (jp_tmp json)) = Inr tmp" "sb_wf tmp"
    "sb_text tmp = take n (jp_ptr json)"
    using copy_number_ok [OF _ fits(1), of "jp_ptr json"] fits(2) n by auto
  with strbuf_ensure_null_ok [OF tmp(2)] len read(1) show ?thesis
    by (auto simp: json_next_number_token_def)
qed

definition long_lib :: c_numlib where
  "long_lib = \<lparr>snprintf_g = (\<lambda>_ _. replicate 15 49), strtod = (\<lambda>s. (Finite 111111111111111, 15))\<rparr>"

theorem json_long_number_is_string_witness:
  "\<exists>json' token'. json_next_number_token \<lparr>env_heap = ample_heap, env_api = strict_api, env_lib = long_lib, env_dp = 46\<rparr>
      \<lparr>jp_data = replicate 15 49 @ [0], jp_ptr = replicate 15 49 @ [0], jp_tmp = fresh_buffer, jp_depth = 0\<rparr>
      \<lparr>tok_type = T_UNKNOWN, tok_index = 0, tok_value = NoValue\<rparr> = Inr (json', token') \<and>
    tok_type token' = T_STRING \<and> tok_value token' = StringValue (replicate 15 49) \<and> jp_ptr json' = [0]"
proof -
  have "jp_ok \<lparr>jp_data = replicate 15 49 @ [0], jp_ptr = replicate 15 49 @ [0], jp_tmp = fresh_buffer, jp_depth = 0\<rparr>"
    using fresh_buffer_wf(1) by (simp add: jp_ok_def terminated_def) (simp add: fresh_buffer_def)
  from json_long_number_is_string [OF this, where n = 15 and x = "Finite 111111111111111" and
      env = "\<lparr>env_heap = ample_heap, env_api = strict_api, env_lib = long_lib, env_dp = 46\<rparr>"
      and token = "\<lparr>tok_type = T_UNKNOWN, tok_index = 0, tok_value = NoValue\<rparr>"]
  show ?thesis by (simp add: fpconv_strtod_def long_lib_def takeWhile_append)
qed

end
