(* ===== verification/Vvector.thy ===== *)
theory Vvector
  imports CLib
begin

text \<open>
  The container \<open>vvector\<close> of \<open>lae/include/vvector.h\<close>: a block of cells between \<open>_head\<close> and \<open>_tail\<close> whose first
  cells, up to \<open>_end\<close>, are in use.  A cell that was never written is \<open>None\<close>; reading it, or reading outside the
  block, is a fault.  \<open>_grown\<close> is the number of cells added when the block is full, or not positive for
  doubling.
\<close>

section \<open>Operations\<close>

record 'a vvector =
  vv_cells :: "'a option list"
  vv_end :: nat
  vv_grown :: int

definition vv_new :: "c_heap \<Rightarrow> c_fault + 'a vvector" where
  "vv_new h = (if can_alloc h 1 then Inr \<lparr>vv_cells = [None], vv_end = 0, vv_grown = 0\<rparr> else Inl (Die ''bad_alloc''))"

definition vv_new_num :: "c_heap \<Rightarrow> nat \<Rightarrow> c_fault + 'a vvector" where
  "vv_new_num h num =
     (if can_alloc h (int num) then Inr \<lparr>vv_cells = replicate num None, vv_end = 0, vv_grown = 0\<rparr>
      else Inl (Die ''bad_alloc''))"

definition vv_swap :: "'a vvector \<Rightarrow> 'a vvector \<Rightarrow> 'a vvector \<times> 'a vvector" where
  "vv_swap v w = (w, v)"

text \<open>\<open>operator[]\<close>, read and assigned through, does not look at \<open>_end\<close>.\<close>

definition vv_at :: "'a vvector \<Rightarrow> int \<Rightarrow> c_fault + 'a" where
  "vv_at v pos =
     (if pos < 0 then Inl OutOfBounds
      else bindE (mem_get (vv_cells v) (nat pos)) (\<lambda>c. case c of None \<Rightarrow> Inl OutOfBounds | Some x \<Rightarrow> Inr x))"

definition vv_put :: "'a vvector \<Rightarrow> int \<Rightarrow> 'a \<Rightarrow> c_fault + 'a vvector" where
  "vv_put v pos x =
     (if pos < 0 then Inl OutOfBounds
      else bindE (mem_write (vv_cells v) (nat pos) [Some x]) (\<lambda>cells. Inr (v\<lparr>vv_cells := cells\<rparr>)))"

text \<open>\<open>back\<close> designates the cell at \<open>_end\<close>, one past the last element.\<close>

definition vv_back :: "'a vvector \<Rightarrow> c_fault + 'a" where
  "vv_back v = vv_at v (int (vv_end v))"

definition vv_front :: "'a vvector \<Rightarrow> c_fault + 'a" where
  "vv_front v = vv_at v 0"

definition vv_size :: "'a vvector \<Rightarrow> nat" where
  "vv_size v = vv_end v"

definition vv_capcity :: "'a vvector \<Rightarrow> nat" where
  "vv_capcity v = length (vv_cells v) - vv_end v"

definition vv_clear :: "'a vvector \<Rightarrow> 'a vvector" where
  "vv_clear v = v\<lparr>vv_end := 0\<rparr>"

definition vv_empty :: "'a vvector \<Rightarrow> bool" where
  "vv_empty v \<longleftrightarrow> vv_end v = 0"

definition vv_set_grown :: "'a vvector \<Rightarrow> int \<Rightarrow> 'a vvector" where
  "vv_set_grown v n = v\<lparr>vv_grown := n\<rparr>"

text \<open>
  \<open>erase\<close> moves \<open>_end - pos\<close> cells down, from \<open>pos + 1\<close> on: one cell more than follow \<open>pos\<close>.  \<open>_end\<close> cannot go below
  \<open>_head\<close>.
\<close>

definition vv_erase :: "'a vvector \<Rightarrow> nat \<Rightarrow> c_fault + 'a vvector" where
  "vv_erase v pos =
     (if pos > vv_end v \<or> vv_end v = 0 then Inl OutOfBounds
      else bindE (mem_read (vv_cells v) (pos + 1) (vv_end v - pos)) (\<lambda>moved.
           bindE (mem_write (vv_cells v) pos moved) (\<lambda>cells.
             Inr (v\<lparr>vv_cells := cells, vv_end := vv_end v - 1\<rparr>))))"

text \<open>The block that \<open>push_back\<close> allocates when it is full; its length is an \<open>int\<close>.\<close>

definition vv_grow :: "c_heap \<Rightarrow> 'a vvector \<Rightarrow> c_fault + 'a vvector" where
  "vv_grow h v =
     (let l = length (vv_cells v);
          nl = (if vv_grown v \<le> 0 then 2 * (int l + 1) else vv_grown v + int l) in
      if \<not> fits_int nl then Inl SignedOverflow
      else if \<not> can_alloc h nl then Inl (Die ''bad_alloc'')
      else bindE (mem_write (replicate (nat nl) None) 0 (vv_cells v)) (\<lambda>cells.
             Inr (v\<lparr>vv_cells := cells, vv_end := l\<rparr>)))"

definition push_back :: "c_heap \<Rightarrow> 'a vvector \<Rightarrow> 'a \<Rightarrow> c_fault + 'a vvector" where
  "push_back h v t =
     bindE (if vv_capcity v = 0 then vv_grow h v else Inr v) (\<lambda>v1.
     bindE (mem_write (vv_cells v1) (vv_end v1) [Some t]) (\<lambda>cells.
       Inr (v1\<lparr>vv_cells := cells, vv_end := vv_end v1 + 1\<rparr>)))"

section \<open>The contract of a sequence\<close>

text \<open>
  What the clients rely on: the elements as a list, extended at its end, read and replaced by index.
  \<open>read_all\<close> is such a client, the loop over all elements.
\<close>

fun read_all :: "('s \<Rightarrow> int \<Rightarrow> c_fault + 'a) \<Rightarrow> 's \<Rightarrow> nat \<Rightarrow> c_fault + 'a list" where
  "read_all at s 0 = Inr []"
| "read_all at s (Suc n) = bindE (read_all at s n) (\<lambda>xs. bindE (at s (int n)) (\<lambda>x. Inr (xs @ [x])))"

locale sequence =
  fixes wf :: "'s \<Rightarrow> bool"
    and elems :: "'s \<Rightarrow> 'a list"
    and room :: "'s \<Rightarrow> bool"
    and size_of :: "'s \<Rightarrow> nat"
    and at :: "'s \<Rightarrow> int \<Rightarrow> c_fault + 'a"
    and put :: "'s \<Rightarrow> int \<Rightarrow> 'a \<Rightarrow> c_fault + 's"
    and push :: "'s \<Rightarrow> 'a \<Rightarrow> c_fault + 's"
  assumes size_elems: "wf s \<Longrightarrow> size_of s = length (elems s)"
    and at_elems: "wf s \<Longrightarrow> i < length (elems s) \<Longrightarrow> at s (int i) = Inr (elems s ! i)"
    and at_neg: "k < 0 \<Longrightarrow> at s k = Inl OutOfBounds"
    and put_elems: "wf s \<Longrightarrow> i < length (elems s) \<Longrightarrow>
      \<exists>s'. put s (int i) x = Inr s' \<and> wf s' \<and> elems s' = (elems s)[i := x] \<and> room s' = room s"
    and push_elems: "wf s \<Longrightarrow> room s \<Longrightarrow> \<exists>s'. push s x = Inr s' \<and> wf s' \<and> elems s' = elems s @ [x]"
begin

lemma read_all_elems: "wf s \<Longrightarrow> n \<le> length (elems s) \<Longrightarrow> read_all at s n = Inr (take n (elems s))"
  by (induction n) (auto simp: at_elems take_Suc_conv_app_nth)

lemma push_then_at: "wf s \<Longrightarrow> room s \<Longrightarrow> push s x = Inr s' \<Longrightarrow> at s' (int (size_of s)) = Inr x"
  using push_elems [of s x] at_elems [of s' "size_of s"] by (auto simp: size_elems)

lemma push_size: "wf s \<Longrightarrow> room s \<Longrightarrow> push s x = Inr s' \<Longrightarrow> wf s' \<and> size_of s' = Suc (size_of s)"
  using push_elems [of s x] by (auto simp: size_elems)

end

section \<open>Correctness\<close>

definition vv_elems :: "'a vvector \<Rightarrow> 'a list" where
  "vv_elems v = map the (take (vv_end v) (vv_cells v))"

definition vv_wf :: "'a vvector \<Rightarrow> bool" where
  "vv_wf v \<longleftrightarrow> vv_end v \<le> length (vv_cells v) \<and> (\<forall>i<vv_end v. vv_cells v ! i \<noteq> None)"

definition vv_room :: "c_heap \<Rightarrow> 'a vvector \<Rightarrow> bool" where
  "vv_room h v \<longleftrightarrow> (\<forall>k. can_alloc h k) \<and> 2 * (int (length (vv_cells v)) + 1) + \<bar>vv_grown v\<bar> \<le> INT_MAX"

lemma vv_new_ok: "can_alloc h 1 \<Longrightarrow> \<exists>v. vv_new h = Inr v \<and> vv_wf v \<and> vv_elems v = []"
  by (simp add: vv_new_def vv_wf_def vv_elems_def)

lemma length_vv_elems [simp]: "vv_wf v \<Longrightarrow> length (vv_elems v) = vv_end v"
  by (simp add: vv_elems_def vv_wf_def)

lemma vv_at_elems: "vv_wf v \<Longrightarrow> i < vv_end v \<Longrightarrow> vv_at v (int i) = Inr (vv_elems v ! i)"
  by (auto simp: vv_at_def vv_wf_def vv_elems_def mem_get_def split: option.split)

lemma vv_put_elems:
  assumes "vv_wf v" "i < vv_end v"
  shows "\<exists>v'. vv_put v (int i) x = Inr v' \<and> vv_wf v' \<and> vv_elems v' = (vv_elems v)[i := x] \<and> vv_room h v' = vv_room h v"
proof -
  have i: "i < length (vv_cells v)" using assms by (auto simp: vv_wf_def)
  let ?v = "v\<lparr>vv_cells := (vv_cells v)[i := Some x]\<rparr>"
  have "vv_put v (int i) x = Inr ?v"
    using i by (simp add: vv_put_def mem_write_def upd_conv_take_nth_drop)
  moreover have "vv_wf ?v" using assms by (auto simp: vv_wf_def nth_list_update)
  moreover have "vv_elems ?v = (vv_elems v)[i := x]" using assms
    by (simp add: vv_elems_def take_update_swap map_update)
  ultimately show ?thesis by (simp add: vv_room_def)
qed

text \<open>Growing keeps the elements and makes room.\<close>

lemma vv_grow_ok:
  assumes "vv_wf v" "vv_room h v" "vv_capcity v = 0"
  shows "\<exists>v'. vv_grow h v = Inr v' \<and> vv_wf v' \<and> vv_elems v' = vv_elems v \<and> vv_end v' < length (vv_cells v') \<and> vv_end v' = vv_end v"
proof -
  let ?l = "length (vv_cells v)"
  let ?nl = "if vv_grown v \<le> 0 then 2 * (int ?l + 1) else vv_grown v + int ?l"
  have nl: "fits_int ?nl" "?nl > int ?l" using assms(2) by (auto simp: vv_room_def fits_int_def INT_MIN_def)
  have e: "vv_end v = ?l" using assms(1,3) by (simp add: vv_capcity_def vv_wf_def)
  let ?v = "v\<lparr>vv_cells := vv_cells v @ replicate (nat ?nl - ?l) None, vv_end := ?l\<rparr>"
  have "vv_grow h v = Inr ?v" using nl assms(2) by (simp add: vv_grow_def vv_room_def mem_write_def Let_def)
  moreover have "vv_wf ?v" using assms(1) e by (simp add: vv_wf_def nth_append)
  moreover have "vv_elems ?v = vv_elems v" by (simp add: vv_elems_def e)
  ultimately show ?thesis using nl e by auto
qed

lemma vv_store_ok:
  assumes "vv_wf v" "vv_end v < length (vv_cells v)"
  shows "\<exists>v'. bindE (mem_write (vv_cells v) (vv_end v) [Some t]) (\<lambda>cells. Inr (v\<lparr>vv_cells := cells, vv_end := vv_end v + 1\<rparr>)) =
    Inr v' \<and> vv_wf v' \<and> vv_elems v' = vv_elems v @ [t]"
proof -
  let ?v = "v\<lparr>vv_cells := (vv_cells v)[vv_end v := Some t], vv_end := vv_end v + 1\<rparr>"
  have "mem_write (vv_cells v) (vv_end v) [Some t] = Inr ((vv_cells v)[vv_end v := Some t])"
    using assms(2) by (simp add: mem_write_def upd_conv_take_nth_drop)
  moreover have "vv_wf ?v" using assms by (auto simp: vv_wf_def nth_list_update less_Suc_eq)
  moreover have "vv_elems ?v = vv_elems v @ [t]" using assms
    by (simp add: vv_elems_def take_Suc_conv_app_nth)
  ultimately show ?thesis by simp
qed

lemma push_back_ok:
  assumes "vv_wf v" "vv_room h v"
  shows "\<exists>v'. push_back h v x = Inr v' \<and> vv_wf v' \<and> vv_elems v' = vv_elems v @ [x]"
proof (cases "vv_capcity v = 0")
  case True
  from vv_grow_ok [OF assms True] obtain v1 where v1: "vv_grow h v = Inr v1" "vv_wf v1" "vv_elems v1 = vv_elems v"
    "vv_end v1 < length (vv_cells v1)" by blast
  from vv_store_ok [OF v1(2,4), of x] v1 True show ?thesis by (auto simp: push_back_def)
next
  case False
  then have "vv_end v < length (vv_cells v)" by (simp add: vv_capcity_def)
  from vv_store_ok [OF assms(1) this, of x] False show ?thesis by (auto simp: push_back_def)
qed

interpretation vv: sequence vv_wf vv_elems "vv_room h" vv_size vv_at vv_put "push_back h" for h
proof unfold_locales
  fix v :: "'a vvector" and i :: nat and x :: 'a
  show "vv_wf v \<Longrightarrow> vv_size v = length (vv_elems v)" by (simp add: vv_size_def)
  show "vv_wf v \<Longrightarrow> i < length (vv_elems v) \<Longrightarrow> vv_at v (int i) = Inr (vv_elems v ! i)" by (simp add: vv_at_elems)
  show "vv_wf v \<Longrightarrow> i < length (vv_elems v) \<Longrightarrow>
      \<exists>v'. vv_put v (int i) x = Inr v' \<and> vv_wf v' \<and> vv_elems v' = (vv_elems v)[i := x] \<and> vv_room h v' = vv_room h v"
    using vv_put_elems [of v i x h] by simp
  show "vv_wf v \<Longrightarrow> vv_room h v \<Longrightarrow> \<exists>v'. push_back h v x = Inr v' \<and> vv_wf v' \<and> vv_elems v' = vv_elems v @ [x]"
    by (rule push_back_ok)
qed (simp add: vv_at_def)

section \<open>Properties\<close>

text \<open>
  Removing an element of a vector with free cells removes exactly it; of a full vector it reads a cell past
  the block, because one cell too many is moved.
\<close>

lemma vv_erase_result:
  assumes "vv_wf v" "pos < vv_end v"
  shows "if vv_capcity v = 0 then vv_erase v pos = Inl OutOfBounds
    else \<exists>v'. vv_erase v pos = Inr v' \<and> vv_wf v' \<and> vv_elems v' = take pos (vv_elems v) @ drop (pos + 1) (vv_elems v)"
proof (cases "vv_capcity v = 0")
  case True
  then show ?thesis using assms by (simp add: vv_erase_def mem_read_def vv_capcity_def vv_wf_def)
next
  case False
  let ?c = "vv_cells v" and ?e = "vv_end v"
  have le: "?e < length ?c" using False by (simp add: vv_capcity_def)
  let ?cells = "take pos ?c @ take (?e - pos) (drop (pos + 1) ?c) @ drop ?e ?c"
  let ?v = "v\<lparr>vv_cells := ?cells, vv_end := ?e - 1\<rparr>"
  have "pos + length (take (?e - pos) (drop (pos + 1) ?c)) = ?e" using assms(2) le by simp
  then have erase: "vv_erase v pos = Inr ?v" using assms(2) le
    by (simp add: vv_erase_def mem_read_def mem_write_def del: length_take length_drop)
  have tk: "take (?e - 1) ?cells = take pos (take ?e ?c) @ drop (pos + 1) (take ?e ?c)"
  proof -
    have "?e - Suc 0 = pos" if "?e - Suc 0 \<le> pos" using that assms(2) by simp
    then show ?thesis using assms(2) le by (simp add: drop_take min_def) auto
  qed
  have "set (take (?e - 1) ?cells) \<subseteq> set (take ?e ?c)"
    unfolding tk set_append by (intro Un_least set_take_subset set_drop_subset)
  moreover have "None \<notin> set (take ?e ?c)" using assms(1) by (auto simp: vv_wf_def in_set_conv_nth)
  ultimately have "None \<notin> set (take (?e - 1) ?cells)" by blast
  then have "take (?e - 1) ?cells ! i \<noteq> None" if "i < ?e - 1" for i
  proof -
    have "length (take (?e - 1) ?cells) = ?e - 1" using assms(2) le by simp
    with that show ?thesis using nth_mem [of i "take (?e - 1) ?cells"] \<open>None \<notin> set (take (?e - 1) ?cells)\<close> by metis
  qed
  then have "\<forall>i<?e - 1. ?cells ! i \<noteq> None" by (metis nth_take)
  then have "vv_wf ?v" using le assms(2) by (simp add: vv_wf_def)
  moreover have "vv_elems ?v = take pos (vv_elems v) @ drop (pos + 1) (vv_elems v)"
    using tk by (simp add: vv_elems_def take_map drop_map)
  ultimately show ?thesis using erase False by auto
qed

text \<open>\<open>back\<close> never gives the last element: of a vector that only grew, it reads a cell that was never written.\<close>

lemma vv_back_fails:
  assumes "vv_new h = Inr v" "push_back h v x = Inr v'"
  shows "vv_back v' = Inl OutOfBounds"
  using assms by (auto simp: vv_new_def push_back_def vv_capcity_def mem_write_def vv_back_def vv_at_def mem_get_def split: if_splits)

end
