(* ===== verification/FastBuf.thy ===== *)
theory FastBuf
  imports CLib
begin

text \<open>
  The buffer template \<open>FastBufAlloc\<close> of \<open>lae/include/FastBufAlloc.h\<close>: a small array inside the
  object and a block on the heap once the array is outgrown.  The template argument
  \<open>maxcachesize\<close> is the argument \<open>mx\<close>.  Sizes are \<open>size_t\<close>: natural numbers below \<open>2 ^ 64\<close>, with
  additions that wrap; \<open>operator new\<close> that cannot allocate throws.
\<close>

definition SIZE_MOD :: nat where
  "SIZE_MOD = 18446744073709551616"

definition size_add :: "nat \<Rightarrow> nat \<Rightarrow> nat" where
  "size_add a b = (a + b) mod SIZE_MOD"

lemma size_add_small: "a + b < SIZE_MOD \<Longrightarrow> size_add a b = a + b"
  by (simp add: size_add_def)

record fastbuf =
  fb_heap :: "byte list option"
  fb_arr :: "byte list"
  fb_cplen :: nat
  fb_alloc :: nat

definition fb_new :: "nat \<Rightarrow> fastbuf" where
  "fb_new mx = \<lparr>fb_heap = None, fb_arr = replicate (mx + 1) 0, fb_cplen = 0, fb_alloc = mx\<rparr>"

text \<open>\<open>buf()\<close>: the cells that the buffer's pointer designates.\<close>

definition fb_buf :: "nat \<Rightarrow> fastbuf \<Rightarrow> byte list option" where
  "fb_buf mx b = (if fb_alloc b > mx then fb_heap b else Some (fb_arr b))"

definition fb_set_buf :: "nat \<Rightarrow> fastbuf \<Rightarrow> byte list \<Rightarrow> fastbuf" where
  "fb_set_buf mx b cells = (if fb_alloc b > mx then b\<lparr>fb_heap := Some cells\<rparr> else b\<lparr>fb_arr := cells\<rparr>)"

text \<open>A store and a load through \<open>buf()\<close>.\<close>

definition fb_store :: "nat \<Rightarrow> fastbuf \<Rightarrow> nat \<Rightarrow> byte list \<Rightarrow> c_fault + fastbuf" where
  "fb_store mx b p xs =
     (case fb_buf mx b of
        None \<Rightarrow> Inl NullDeref
      | Some cells \<Rightarrow> bindE (mem_write cells p xs) (\<lambda>cells'. Inr (fb_set_buf mx b cells')))"

definition fb_load :: "nat \<Rightarrow> fastbuf \<Rightarrow> nat \<Rightarrow> nat \<Rightarrow> c_fault + byte list" where
  "fb_load mx b p n = (case fb_buf mx b of None \<Rightarrow> Inl NullDeref | Some cells \<Rightarrow> mem_read cells p n)"

definition fb_release :: "nat \<Rightarrow> fastbuf \<Rightarrow> fastbuf" where
  "fb_release mx b =
     b\<lparr>fb_arr := replicate (mx + 1) 0, fb_heap := None, fb_cplen := 0, fb_alloc := mx\<rparr>"

definition fb_setcplen :: "nat \<Rightarrow> fastbuf \<Rightarrow> nat \<Rightarrow> c_fault + fastbuf" where
  "fb_setcplen mx b len = fb_store mx (b\<lparr>fb_cplen := len\<rparr>) len [0]"

text \<open>\<open>new T[newsize+1]\<close> and \<open>memset\<close> to zero.\<close>

definition fb_new_cells :: "c_heap \<Rightarrow> nat \<Rightarrow> c_fault + byte list" where
  "fb_new_cells h newsize =
     (if can_alloc h (int (size_add newsize 1)) then Inr (replicate (size_add newsize 1) 0)
      else Inl (Die ''bad_alloc''))"

definition fb_grow :: "c_heap \<Rightarrow> nat \<Rightarrow> fastbuf \<Rightarrow> nat \<Rightarrow> c_fault + fastbuf" where
  "fb_grow h mx b newsize =
     (if newsize \<le> fb_alloc b then Inr b
      else bindE (fb_new_cells h newsize) (\<lambda>cells.
        bindE (case fb_heap b of
                 Some old \<Rightarrow> mem_read old 0 (fb_alloc b)
               | None \<Rightarrow> fb_load mx b 0 (fb_cplen b)) (\<lambda>saved.
        bindE (mem_write cells 0 saved) (\<lambda>cells'.
          Inr (b\<lparr>fb_heap := Some cells', fb_alloc := newsize\<rparr>)))))"

definition fb_append :: "c_heap \<Rightarrow> nat \<Rightarrow> fastbuf \<Rightarrow> byte list \<Rightarrow> c_fault + fastbuf" where
  "fb_append h mx b arr =
     bindE (fb_grow h mx b (size_add (fb_cplen b) (length arr))) (\<lambda>b1.
     bindE (fb_store mx b1 (fb_cplen b1) arr) (\<lambda>b2.
       fb_setcplen mx b2 (size_add (fb_cplen b2) (length arr))))"

text \<open>
  \<open>operator=\<close>: the source's array and, if it has one, a copy of its heap block; a block that the
  target owned is not freed, and stays in use when the source has none.
\<close>

definition fb_assign :: "c_heap \<Rightarrow> nat \<Rightarrow> fastbuf \<Rightarrow> fastbuf \<Rightarrow> c_fault + fastbuf" where
  "fb_assign h mx b src =
     (let b1 = b\<lparr>fb_arr := fb_arr src\<rparr> in
      bindE (case fb_heap src of
               None \<Rightarrow> Inr b1
             | Some cells \<Rightarrow>
                 bindE (fb_new_cells h (fb_alloc src)) (\<lambda>fresh_cells.
                 bindE (mem_read cells 0 (fb_alloc src)) (\<lambda>saved.
                 bindE (mem_write fresh_cells 0 saved) (\<lambda>cells'.
                   Inr (b1\<lparr>fb_heap := Some cells', fb_alloc := fb_alloc src\<rparr>))))) (\<lambda>b2.
        Inr (b2\<lparr>fb_cplen := fb_cplen src\<rparr>)))"

text \<open>
  The copy constructor: of a source without a heap block it leaves \<open>heapbuf\<close> and \<open>alloc_len\<close>
  unset; \<open>garbage\<close> is what \<open>alloc_len\<close> then holds, and a use of the unset pointer is a fault.
\<close>

definition fb_copy :: "c_heap \<Rightarrow> nat \<Rightarrow> nat \<Rightarrow> fastbuf \<Rightarrow> c_fault + fastbuf" where
  "fb_copy h mx garbage src =
     (let b = \<lparr>fb_heap = None, fb_arr = fb_arr src, fb_cplen = 0, fb_alloc = garbage\<rparr> in
      bindE (case fb_heap src of
               None \<Rightarrow> Inr b
             | Some cells \<Rightarrow>
                 bindE (fb_new_cells h (fb_alloc src)) (\<lambda>fresh_cells.
                 bindE (mem_read cells 0 (fb_alloc src)) (\<lambda>saved.
                 bindE (mem_write fresh_cells 0 saved) (\<lambda>cells'.
                   Inr (b\<lparr>fb_heap := Some cells', fb_alloc := fb_alloc src\<rparr>))))) (\<lambda>b1.
        Inr (b1\<lparr>fb_cplen := fb_cplen src\<rparr>)))"

section \<open>Invariant\<close>

text \<open>One cell more than the capacity, in the array or on the heap; the text is within the capacity.\<close>

definition fb_wf :: "nat \<Rightarrow> fastbuf \<Rightarrow> bool" where
  "fb_wf mx b \<longleftrightarrow>
     length (fb_arr b) = mx + 1 \<and> fb_cplen b \<le> fb_alloc b \<and> fb_alloc b + 1 < SIZE_MOD \<and>
     (case fb_heap b of
        None \<Rightarrow> fb_alloc b = mx
      | Some cells \<Rightarrow> mx < fb_alloc b \<and> length cells = fb_alloc b + 1)"

definition fb_text :: "nat \<Rightarrow> fastbuf \<Rightarrow> byte list" where
  "fb_text mx b = (case fb_buf mx b of None \<Rightarrow> [] | Some cells \<Rightarrow> take (fb_cplen b) cells)"

lemma fb_wfE:
  assumes "fb_wf mx b"
  obtains cells where "fb_buf mx b = Some cells" "length cells = fb_alloc b + 1" "fb_cplen b \<le> fb_alloc b"
    "mx \<le> fb_alloc b" "fb_alloc b + 1 < SIZE_MOD"
  using assms by (auto simp: fb_wf_def fb_buf_def split: option.splits)

lemma fb_new_wf: "mx + 1 < SIZE_MOD \<Longrightarrow> fb_wf mx (fb_new mx) \<and> fb_text mx (fb_new mx) = []"
  by (simp add: fb_wf_def fb_new_def fb_text_def fb_buf_def)

lemma fb_release_wf: "fb_wf mx b \<Longrightarrow> fb_wf mx (fb_release mx b) \<and> fb_text mx (fb_release mx b) = []"
  by (auto simp: fb_wf_def fb_release_def fb_text_def fb_buf_def split: option.splits)

lemma length_fb_text: "fb_wf mx b \<Longrightarrow> length (fb_text mx b) = fb_cplen b"
  by (erule fb_wfE) (simp add: fb_text_def)

text \<open>A store inside the capacity keeps the shape and changes the cells it names.\<close>

lemma fb_store_ok:
  assumes wf: "fb_wf mx b" and cells: "fb_buf mx b = Some cells" and p: "p + length xs \<le> fb_alloc b + 1"
  shows "\<exists>b'. fb_store mx b p xs = Inr b' \<and> fb_wf mx b' \<and> fb_cplen b' = fb_cplen b \<and> fb_alloc b' = fb_alloc b \<and>
    fb_buf mx b' = Some (take p cells @ xs @ drop (p + length xs) cells)"
proof -
  have len: "length cells = fb_alloc b + 1" using wf cells by (auto elim: fb_wfE)
  with p have w: "mem_write cells p xs = Inr (take p cells @ xs @ drop (p + length xs) cells)"
    by (simp add: mem_write_def)
  have "fb_wf mx (fb_set_buf mx b (take p cells @ xs @ drop (p + length xs) cells))"
    using wf len p by (auto simp: fb_wf_def fb_set_buf_def split: option.splits)
  with w cells show ?thesis
    by (auto simp: fb_store_def) (auto simp: fb_set_buf_def fb_buf_def)
qed

lemma fb_setcplen_ok:
  assumes wf: "fb_wf mx b" and cells: "fb_buf mx b = Some cells" and len: "len \<le> fb_alloc b"
  shows "\<exists>b'. fb_setcplen mx b len = Inr b' \<and> fb_wf mx b' \<and> fb_cplen b' = len \<and> fb_alloc b' = fb_alloc b \<and>
    fb_buf mx b' = Some (cells[len := 0])"
proof -
  have "length cells = fb_alloc b + 1" using wf cells by (auto elim: fb_wfE)
  with len have "take len cells @ 0 # drop (Suc len) cells = cells[len := 0]"
    by (simp add: upd_conv_take_nth_drop)
  moreover have "fb_wf mx (b\<lparr>fb_cplen := len\<rparr>)" "fb_buf mx (b\<lparr>fb_cplen := len\<rparr>) = Some cells"
    using wf cells len by (auto simp: fb_wf_def fb_buf_def split: option.splits)
  ultimately show ?thesis
    using fb_store_ok [of mx "b\<lparr>fb_cplen := len\<rparr>" cells len "[0]"] len by (auto simp: fb_setcplen_def)
qed

text \<open>Growing keeps the text; it only fails when memory is refused.\<close>

lemma fb_grow_cases:
  assumes wf: "fb_wf mx b" and size: "newsize + 1 < SIZE_MOD"
  shows "case fb_grow h mx b newsize of
      Inl e \<Rightarrow> e = Die ''bad_alloc'' \<and> \<not> can_alloc h (int newsize + 1)
    | Inr b' \<Rightarrow> fb_wf mx b' \<and> fb_cplen b' = fb_cplen b \<and> fb_text mx b' = fb_text mx b \<and>
        fb_alloc b' = max (fb_alloc b) newsize \<and> newsize \<le> fb_alloc b'"
proof (cases "newsize \<le> fb_alloc b")
  case True
  with wf show ?thesis by (simp add: fb_grow_def)
next
  case False
  obtain cells where c: "fb_buf mx b = Some cells" "length cells = fb_alloc b + 1" "fb_cplen b \<le> fb_alloc b" "mx \<le> fb_alloc b"
    using wf by (auto elim: fb_wfE)
  have sz: "size_add newsize (Suc 0) = Suc newsize" using size by (simp add: size_add_small)
  show ?thesis
  proof (cases "fb_heap b")
    case None
    with False c size wf show ?thesis
      by (auto simp: fb_grow_def fb_new_cells_def sz fb_load_def mem_read_def mem_write_def fb_wf_def fb_text_def fb_buf_def
          add.commute)
  next
    case (Some old)
    with c(1) wf have "fb_buf mx b = Some old" by (auto simp: fb_buf_def fb_wf_def)
    with Some False c size wf show ?thesis
      by (auto simp: fb_grow_def fb_new_cells_def sz mem_read_def mem_write_def fb_wf_def fb_text_def fb_buf_def min_def
          add.commute)
  qed
qed

lemma fb_append_cases:
  assumes wf: "fb_wf mx b" and size: "fb_cplen b + length xs + 1 < SIZE_MOD"
  shows "case fb_append h mx b xs of
      Inl e \<Rightarrow> e = Die ''bad_alloc'' \<and> \<not> can_alloc h (int (fb_cplen b + length xs) + 1)
    | Inr b' \<Rightarrow> fb_wf mx b' \<and> fb_text mx b' = fb_text mx b @ xs"
proof -
  have sz: "size_add (fb_cplen b) (length xs) = fb_cplen b + length xs" using size by (simp add: size_add_small)
  show ?thesis
  proof (cases "fb_grow h mx b (fb_cplen b + length xs)")
    case (Inl e)
    with fb_grow_cases [OF wf, of "fb_cplen b + length xs" h] size show ?thesis by (simp add: fb_append_def sz)
  next
    case (Inr b1)
    with fb_grow_cases [OF wf, of "fb_cplen b + length xs" h] size have b1: "fb_wf mx b1" "fb_cplen b1 = fb_cplen b"
      "fb_text mx b1 = fb_text mx b" "fb_cplen b + length xs \<le> fb_alloc b1" by simp_all
    obtain cells where c: "fb_buf mx b1 = Some cells" "length cells = fb_alloc b1 + 1"
      using b1(1) by (auto elim: fb_wfE)
    obtain b2 where b2: "fb_store mx b1 (fb_cplen b1) xs = Inr b2" "fb_wf mx b2" "fb_cplen b2 = fb_cplen b1"
      "fb_alloc b2 = fb_alloc b1" "fb_buf mx b2 = Some (take (fb_cplen b1) cells @ xs @ drop (fb_cplen b1 + length xs) cells)"
      using fb_store_ok [OF b1(1) c(1), of "fb_cplen b1" xs] b1 by auto
    obtain b3 where "fb_setcplen mx b2 (fb_cplen b + length xs) = Inr b3" "fb_wf mx b3"
      "fb_cplen b3 = fb_cplen b + length xs"
      "fb_buf mx b3 = Some ((take (fb_cplen b1) cells @ xs @ drop (fb_cplen b1 + length xs) cells)[fb_cplen b + length xs := 0])"
      using fb_setcplen_ok [OF b2(2,5), of "fb_cplen b + length xs"] b1 b2 by auto
    moreover have "fb_text mx b = take (fb_cplen b) cells"
      using b1(2) c(1) by (simp add: fb_text_def [of mx b1] flip: b1(3))
    moreover from calculation b1 c have "fb_text mx b3 = fb_text mx b @ xs"
      by (simp add: fb_text_def [of mx b3] min_def)
    ultimately show ?thesis using Inr b1 b2 by (simp add: fb_append_def sz)
  qed
qed

end
