(* ===== verification/CoreCfg.thy ===== *)
theory CoreCfg
  imports Vvector FastBuf
begin

text \<open>
  The configuration store of \<open>lae/source/LXZCoreCfg.cpp\<close>: named, typed settings in a \<open>vvector\<close>, found by a linear search
  that ignores case, read from and written to a text file.  The value of a setting is a union, here its 64
  bits; a string setting holds the address of a block on the heap, so a value of one type that is read as
  another is the same bits, and a pointer that no longer designates a string is a fault.  The names are private
  copies and stand for themselves.  \<open>operator new\<close>, the text \<open>%f\<close> gives and the value \<open>atof\<close> gives are
  parameters.
\<close>

section \<open>State\<close>

datatype cfg_type = cfg_null | cfg_i | cfg_f | cfg_cstr | cfg_p | cfg_b | cfg_u

record cfg_value =
  cv_word :: u64
  cv_alias :: "byte list option"
  cv_name :: "byte list"
  cv_type :: cfg_type
  cv_flag :: byte

text \<open>
  \<open>cc_strs\<close> are the strings alive, by their addresses; of the copies of names and of the structures \<open>_cfg_value\<close> that are alive, the
  model has the numbers.
\<close>

record core_cfg =
  cc_vec :: "cfg_value vvector"
  cc_strs :: "u64 \<rightharpoonup> byte list"
  cc_tmp :: fastbuf
  cc_names :: nat
  cc_values :: nat

text \<open>
  \<open>ce_new\<close> gives the address of a new block of a size, or nothing when it throws; it depends on the blocks that are
  alive.  \<open>ce_garbage\<close> is what a new union holds.
\<close>

record cfg_env =
  ce_heap :: c_heap
  ce_new :: "(u64 \<rightharpoonup> byte list) \<Rightarrow> nat \<Rightarrow> u64 option"
  ce_garbage :: u64
  ce_fmt_f :: "u32 \<Rightarrow> byte list"
  ce_atof :: "byte list \<Rightarrow> u32"

definition TMP :: nat where "TMP = 16"

definition cfg_new :: "cfg_env \<Rightarrow> c_fault + core_cfg" where
  "cfg_new env = bindE (vv_new (ce_heap env)) (\<lambda>v.
     Inr \<lparr>cc_vec = vv_set_grown v 2, cc_strs = Map.empty, cc_tmp = fb_new TMP, cc_names = 0, cc_values = 0\<rparr>)"

text \<open>The members of the union.\<close>

definition word_i :: "u64 \<Rightarrow> u32" where
  "word_i w = ucast w"

definition word_b :: "u64 \<Rightarrow> bool" where
  "word_b w \<longleftrightarrow> (ucast w :: byte) \<noteq> 0"

definition set_word_i :: "u32 \<Rightarrow> u64 \<Rightarrow> u64" where
  "set_word_i v w = (w AND NOT (mask 32)) OR ucast v"

definition set_word_b :: "bool \<Rightarrow> u64 \<Rightarrow> u64" where
  "set_word_b v w = (w AND NOT (mask 8)) OR of_bool v"

definition set_word_p :: "u64 \<Rightarrow> u64 \<Rightarrow> u64" where
  "set_word_p v w = v"

section \<open>Search\<close>

fun tolower_loop :: "byte list \<Rightarrow> byte list \<Rightarrow> nat \<Rightarrow> int \<Rightarrow> c_fault + byte list" where
  "tolower_loop [] buf i buf_len = Inr buf"
| "tolower_loop (c # cs) buf i buf_len =
     (if int i < buf_len - 1 then bindE (mem_write buf i [tolower c]) (\<lambda>buf'. tolower_loop cs buf' (i + 1) buf_len)
      else Inr buf)"

definition tolower_buf :: "byte list \<Rightarrow> byte list \<Rightarrow> int \<Rightarrow> c_fault + byte list" where
  "tolower_buf name buf buf_len =
     bindE (tolower_loop name buf 0 buf_len) (\<lambda>buf1.
       if int (length name) > buf_len - 1
       then (if buf_len - 1 < 0 then Inl OutOfBounds else mem_write buf1 (nat (buf_len - 1)) [0])
       else mem_write buf1 (length name) [0])"

text \<open>\<open>Ref\<close>: the index of the setting, or -1.  The buffers keep what the previous round left in them.\<close>

function Ref_loop ::
  "cfg_value vvector \<Rightarrow> byte list \<Rightarrow> byte list option \<Rightarrow> byte list \<Rightarrow> byte list \<Rightarrow> nat \<Rightarrow> c_fault + int" where
  "Ref_loop v name alias buf1 buf2 i =
     (if i < vv_size v then
        bindE (vv_at v (int i)) (\<lambda>cfg.
        bindE (tolower_buf (cv_name cfg) buf1 512) (\<lambda>buf1.
        bindE (tolower_buf name buf2 512) (\<lambda>buf2.
        bindE (c_string buf1) (\<lambda>name1.
        bindE (c_string buf2) (\<lambda>name2.
          if name1 = name2 then Inr (int i)
          else if alias \<noteq> None \<and> Some name1 = alias then Inr (int i)
          else Ref_loop v name alias buf1 buf2 (i + 1))))))
      else Inr (- 1))"
  by pat_completeness auto
termination by (relation "measure (\<lambda>(v, name, alias, buf1, buf2, i). vv_size v - i)") auto

declare Ref_loop.simps [simp del]

definition Ref :: "core_cfg \<Rightarrow> byte list \<Rightarrow> byte list option \<Rightarrow> c_fault + int" where
  "Ref c name alias = Ref_loop (cc_vec c) name alias (replicate 512 0) (replicate 512 0) 0"

text \<open>
  How every accessor finds its setting: the index it is given through \<open>ref_\<close> unless that is -1 or missing.
  The result is the index and what \<open>ref_\<close> points to afterwards.
\<close>

definition pick_ref :: "core_cfg \<Rightarrow> byte list \<Rightarrow> int option \<Rightarrow> byte list option \<Rightarrow> c_fault + (int \<times> int option)" where
  "pick_ref c name rp alias =
     (let ref = (case rp of None \<Rightarrow> - 1 | Some r \<Rightarrow> r) in
      if ref \<noteq> 0 \<and> ref = - 1 then bindE (Ref c name alias) (\<lambda>r. Inr (r, map_option (\<lambda>_. r) rp))
      else Inr (ref, rp))"

section \<open>Setters\<close>

text \<open>A new setting at the end; its structure and the copy of its name are allocated.\<close>

definition add_setting ::
  "cfg_env \<Rightarrow> core_cfg \<Rightarrow> byte list \<Rightarrow> cfg_type \<Rightarrow> u64 \<Rightarrow> int option \<Rightarrow> c_fault + (core_cfg \<times> int option)" where
  "add_setting env c name t w rp =
     (if \<not> can_alloc (ce_heap env) 32 \<or> \<not> can_alloc (ce_heap env) (int (length name) + 1) then Inl (Die ''bad_alloc'')
      else bindE (push_back (ce_heap env) (cc_vec c)
             \<lparr>cv_word = w, cv_alias = None, cv_name = name, cv_type = t, cv_flag = 0\<rparr>) (\<lambda>v.
           Inr (c\<lparr>cc_vec := v, cc_names := cc_names c + 1, cc_values := cc_values c + 1\<rparr>, map_option (\<lambda>_. int (vv_size v) - 1) rp)))"

text \<open>
  The shape that the setters share: a new setting of type \<open>t\<close> whose union is \<open>init\<close> of what it held, or an existing
  one whose union becomes \<open>upd\<close> of its old bits, whatever its type.  The result ends with the old bits, if any.
\<close>

definition store_setting ::
  "cfg_env \<Rightarrow> core_cfg \<Rightarrow> byte list \<Rightarrow> int option \<Rightarrow> cfg_type \<Rightarrow> (u64 \<Rightarrow> u64) \<Rightarrow> (u64 \<Rightarrow> u64) \<Rightarrow>
     c_fault + (core_cfg \<times> int option \<times> u64 option)" where
  "store_setting env c name rp t init upd =
     bindE (pick_ref c name rp None) (\<lambda>(ref, ref1).
       if ref = - 1 then
         bindE (add_setting env c name t (init (ce_garbage env)) ref1) (\<lambda>(c1, ref2). Inr (c1, ref2, None))
       else
         bindE (vv_at (cc_vec c) ref) (\<lambda>e.
         bindE (vv_put (cc_vec c) ref (e\<lparr>cv_word := upd (cv_word e)\<rparr>)) (\<lambda>v.
           Inr (c\<lparr>cc_vec := v\<rparr>, ref1, Some (cv_word e)))))"

definition SetObj :: "cfg_env \<Rightarrow> core_cfg \<Rightarrow> byte list \<Rightarrow> int option \<Rightarrow> u64 \<Rightarrow> c_fault + (core_cfg \<times> int option \<times> u64)" where
  "SetObj env c name rp v =
     bindE (store_setting env c name rp cfg_p (set_word_p v) (set_word_p v)) (\<lambda>(c1, ref1, old).
       Inr (c1, ref1, case old of None \<Rightarrow> v | Some w \<Rightarrow> w))"

definition SetUint :: "cfg_env \<Rightarrow> core_cfg \<Rightarrow> byte list \<Rightarrow> int option \<Rightarrow> u32 \<Rightarrow> c_fault + (core_cfg \<times> int option \<times> u32)" where
  "SetUint env c name rp v =
     bindE (store_setting env c name rp cfg_u (set_word_i v) (set_word_i v)) (\<lambda>(c1, ref1, old).
       Inr (c1, ref1, case old of None \<Rightarrow> v | Some w \<Rightarrow> word_i w))"

text \<open>A \<open>float\<close> is its 32 bits.\<close>

definition SetFloat :: "cfg_env \<Rightarrow> core_cfg \<Rightarrow> byte list \<Rightarrow> int option \<Rightarrow> u32 \<Rightarrow> c_fault + (core_cfg \<times> int option \<times> u32)" where
  "SetFloat env c name rp v =
     bindE (store_setting env c name rp cfg_f (set_word_i v) (set_word_i v)) (\<lambda>(c1, ref1, old).
       Inr (c1, ref1, case old of None \<Rightarrow> v | Some w \<Rightarrow> word_i w))"

definition SetInt :: "cfg_env \<Rightarrow> core_cfg \<Rightarrow> byte list \<Rightarrow> int option \<Rightarrow> u32 \<Rightarrow> c_fault + (core_cfg \<times> int option \<times> u32)" where
  "SetInt env c name rp v =
     bindE (store_setting env c name rp cfg_i (set_word_i v) (set_word_i v)) (\<lambda>(c1, ref1, old).
       Inr (c1, ref1, case old of None \<Rightarrow> v | Some w \<Rightarrow> word_i w))"

text \<open>A new boolean is stored through \<open>i\<close>, an old one through \<open>b\<close>.\<close>

definition SetBool :: "cfg_env \<Rightarrow> core_cfg \<Rightarrow> byte list \<Rightarrow> int option \<Rightarrow> bool \<Rightarrow> c_fault + (core_cfg \<times> int option \<times> bool)" where
  "SetBool env c name rp v =
     bindE (store_setting env c name rp cfg_b (set_word_i (of_bool v)) (set_word_b v)) (\<lambda>(c1, ref1, old).
       Inr (c1, ref1, case old of None \<Rightarrow> v | Some w \<Rightarrow> word_b w))"

definition cpstr :: "cfg_env \<Rightarrow> (u64 \<rightharpoonup> byte list) \<Rightarrow> byte list \<Rightarrow> c_fault + ((u64 \<rightharpoonup> byte list) \<times> u64)" where
  "cpstr env strs s =
     (case ce_new env strs (length s + 1) of None \<Rightarrow> Inl (Die ''bad_alloc'') | Some a \<Rightarrow> Inr (strs(a \<mapsto> s), a))"

text \<open>
  \<open>SetCString\<close>: the string of an existing setting is replaced by a copy of \<open>v\<close>, kept in \<open>m_tmpAlloc\<close> and freed.
\<close>

definition SetCString ::
  "cfg_env \<Rightarrow> core_cfg \<Rightarrow> byte list \<Rightarrow> int option \<Rightarrow> byte list \<Rightarrow> c_fault + (core_cfg \<times> int option \<times> byte list)" where
  "SetCString env c name rp v =
     bindE (pick_ref c name rp None) (\<lambda>(ref, ref1).
       if ref = - 1 then
         bindE (cpstr env (cc_strs c) v) (\<lambda>(strs, a).
         bindE (add_setting env (c\<lparr>cc_strs := strs\<rparr>) name cfg_cstr a ref1) (\<lambda>(c1, ref2). Inr (c1, ref2, v)))
       else
         bindE (vv_at (cc_vec c) ref) (\<lambda>cf.
           if cv_name cf \<noteq> name \<and> cv_alias cf \<noteq> None \<and> cv_alias cf \<noteq> Some name then Inr (c, ref1, [])
           else
             bindE (cpstr env (cc_strs c) v) (\<lambda>(strs, a).
             bindE (vv_put (cc_vec c) ref (cf\<lparr>cv_word := a\<rparr>)) (\<lambda>vec.
               let r = cv_word cf; c1 = c\<lparr>cc_vec := vec, cc_strs := strs\<rparr> in
               if r \<noteq> 0 then
                 (case strs r of
                    None \<Rightarrow> Inl UseAfterFree
                  | Some s \<Rightarrow>
                      bindE (fb_grow (ce_heap env) TMP (cc_tmp c) (length s + 10)) (\<lambda>t1.
                      bindE (fb_store TMP t1 0 (s @ [0])) (\<lambda>t2.
                      bindE (fb_setcplen TMP t2 (length s)) (\<lambda>t3.
                        Inr (c1\<lparr>cc_tmp := t3, cc_strs := strs(r := None)\<rparr>, ref1, s)))))
               else Inr (c1, ref1, [])))))"

section \<open>Getters\<close>

text \<open>
  What the getters share: the bits of the setting if it exists and has the type asked for.  Otherwise the
  default is stored under the name and returned.
\<close>

definition fetch_setting ::
  "core_cfg \<Rightarrow> byte list \<Rightarrow> int option \<Rightarrow> byte list option \<Rightarrow> cfg_type \<Rightarrow> c_fault + (int option \<times> u64 option)" where
  "fetch_setting c name rp alias t =
     bindE (pick_ref c name rp alias) (\<lambda>(ref, ref1).
       if ref = - 1 then Inr (ref1, None)
       else bindE (vv_at (cc_vec c) ref) (\<lambda>e. Inr (ref1, if cv_type e \<noteq> t then None else Some (cv_word e))))"

definition GetObj ::
  "cfg_env \<Rightarrow> core_cfg \<Rightarrow> byte list \<Rightarrow> int option \<Rightarrow> byte list option \<Rightarrow> u64 \<Rightarrow> c_fault + (core_cfg \<times> int option \<times> u64)" where
  "GetObj env c name rp alias def =
     bindE (fetch_setting c name rp alias cfg_p) (\<lambda>(ref1, found).
       case found of
         Some w \<Rightarrow> Inr (c, ref1, w)
       | None \<Rightarrow> bindE (SetObj env c name ref1 def) (\<lambda>(c1, ref2, _). Inr (c1, ref2, def)))"

definition GetUint ::
  "cfg_env \<Rightarrow> core_cfg \<Rightarrow> byte list \<Rightarrow> int option \<Rightarrow> byte list option \<Rightarrow> u32 \<Rightarrow> c_fault + (core_cfg \<times> int option \<times> u32)" where
  "GetUint env c name rp alias def =
     bindE (fetch_setting c name rp alias cfg_u) (\<lambda>(ref1, found).
       case found of
         Some w \<Rightarrow> Inr (c, ref1, word_i w)
       | None \<Rightarrow> bindE (SetUint env c name ref1 def) (\<lambda>(c1, ref2, _). Inr (c1, ref2, def)))"

definition GetFloat ::
  "cfg_env \<Rightarrow> core_cfg \<Rightarrow> byte list \<Rightarrow> int option \<Rightarrow> byte list option \<Rightarrow> u32 \<Rightarrow> c_fault + (core_cfg \<times> int option \<times> u32)" where
  "GetFloat env c name rp alias def =
     bindE (fetch_setting c name rp alias cfg_f) (\<lambda>(ref1, found).
       case found of
         Some w \<Rightarrow> Inr (c, ref1, word_i w)
       | None \<Rightarrow> bindE (SetFloat env c name ref1 def) (\<lambda>(c1, ref2, _). Inr (c1, ref2, def)))"

definition GetInt ::
  "cfg_env \<Rightarrow> core_cfg \<Rightarrow> byte list \<Rightarrow> int option \<Rightarrow> byte list option \<Rightarrow> u32 \<Rightarrow> c_fault + (core_cfg \<times> int option \<times> u32)" where
  "GetInt env c name rp alias def =
     bindE (fetch_setting c name rp alias cfg_i) (\<lambda>(ref1, found).
       case found of
         Some w \<Rightarrow> Inr (c, ref1, word_i w)
       | None \<Rightarrow> bindE (SetInt env c name ref1 def) (\<lambda>(c1, ref2, _). Inr (c1, ref2, def)))"

definition GetBool ::
  "cfg_env \<Rightarrow> core_cfg \<Rightarrow> byte list \<Rightarrow> int option \<Rightarrow> byte list option \<Rightarrow> bool \<Rightarrow> c_fault + (core_cfg \<times> int option \<times> bool)" where
  "GetBool env c name rp alias def =
     bindE (fetch_setting c name rp alias cfg_b) (\<lambda>(ref1, found).
       case found of
         Some w \<Rightarrow> Inr (c, ref1, word_b w)
       | None \<Rightarrow> bindE (SetBool env c name ref1 def) (\<lambda>(c1, ref2, _). Inr (c1, ref2, def)))"

text \<open>The string that a getter returns is read through its pointer.\<close>

definition GetCString ::
  "cfg_env \<Rightarrow> core_cfg \<Rightarrow> byte list \<Rightarrow> int option \<Rightarrow> byte list option \<Rightarrow> byte list \<Rightarrow>
     c_fault + (core_cfg \<times> int option \<times> byte list)" where
  "GetCString env c name rp alias def =
     bindE (fetch_setting c name rp alias cfg_cstr) (\<lambda>(ref1, found).
       case found of
         Some w \<Rightarrow> (case cc_strs c w of None \<Rightarrow> Inl UseAfterFree | Some s \<Rightarrow> Inr (c, ref1, s))
       | None \<Rightarrow> bindE (SetCString env c name ref1 def) (\<lambda>(c1, ref2, _). Inr (c1, ref2, def)))"

section \<open>Flags and release\<close>

definition GetSaveFlag :: "core_cfg \<Rightarrow> int \<Rightarrow> c_fault + bool" where
  "GetSaveFlag c ref =
     (if ref < 0 \<or> ref \<ge> int (vv_size (cc_vec c)) then Inr False
      else bindE (vv_at (cc_vec c) ref) (\<lambda>e. Inr (cv_flag e = 1)))"

definition SetSaveFlag :: "core_cfg \<Rightarrow> int \<Rightarrow> bool \<Rightarrow> c_fault + core_cfg" where
  "SetSaveFlag c ref flag =
     (if ref < 0 \<or> ref \<ge> int (vv_size (cc_vec c)) then Inr c
      else bindE (vv_at (cc_vec c) ref) (\<lambda>e.
           bindE (vv_put (cc_vec c) ref (e\<lparr>cv_flag := of_bool flag\<rparr>)) (\<lambda>v. Inr (c\<lparr>cc_vec := v\<rparr>))))"

text \<open>\<open>release\<close> frees names and strings, but no structure; what is not alive cannot be freed.\<close>

fun release_strs :: "(u64 \<rightharpoonup> byte list) \<Rightarrow> cfg_value list \<Rightarrow> c_fault + (u64 \<rightharpoonup> byte list)" where
  "release_strs strs [] = Inr strs"
| "release_strs strs (e # es) =
     (if cv_type e = cfg_cstr \<and> cv_word e \<noteq> 0 then
        (if strs (cv_word e) = None then Inl UseAfterFree else release_strs (strs(cv_word e := None)) es)
      else release_strs strs es)"

definition release_cfg :: "core_cfg \<Rightarrow> c_fault + core_cfg" where
  "release_cfg c =
     bindE (read_all vv_at (cc_vec c) (vv_size (cc_vec c))) (\<lambda>es.
     if cc_names c < length es then Inl UseAfterFree
     else bindE (release_strs (cc_strs c) es) (\<lambda>strs.
       Inr (c\<lparr>cc_strs := strs, cc_names := cc_names c - length es, cc_vec := vv_clear (cc_vec c)\<rparr>)))"

end
