(* ===== verification/CoreCfgProofs.thy ===== *)
theory CoreCfgProofs
  imports CoreCfg
begin

text \<open>
  Correctness of the configuration store.  The store is read as a map from keys (names in lower case, cut to
  511 bytes) to types and bits; search, setters and getters are shown to implement it, and the typed
  accessors to meet the contract \<open>settings\<close>.
\<close>

section \<open>Search\<close>

definition key :: "byte list \<Rightarrow> byte list" where
  "key name = map tolower (take 511 name)"

lemma tolower_nonzero [simp]: "tolower c = 0 \<longleftrightarrow> c = 0"
proof -
  have "c + 32 \<noteq> 0" if "c \<le> 90" "65 \<le> c"
  proof
    assume "c + 32 = 0"
    then have "c = 224" by (simp add: add_eq_0_iff2)
    with that show False by simp
  qed
  then show ?thesis by (auto simp: tolower_def)
qed

lemma tolower_loop_ok:
  "length buf = 512 \<Longrightarrow> i \<le> 511 \<Longrightarrow>
     \<exists>buf'. tolower_loop cs buf i 512 = Inr buf' \<and> length buf' = 512 \<and>
       take (i + length (take (511 - i) cs)) buf' = take i buf @ map tolower (take (511 - i) cs)"
proof (induction cs arbitrary: buf i)
  case (Cons c cs)
  show ?case
  proof (cases "i < 511")
    case True
    let ?buf = "take i buf @ [tolower c] @ drop (i + 1) buf"
    have w: "mem_write buf i [tolower c] = Inr ?buf" "length ?buf = 512" using Cons.prems True by (simp_all add: mem_write_def)
    obtain buf' where b: "tolower_loop cs ?buf (i + 1) 512 = Inr buf'" "length buf' = 512"
      "take (i + 1 + length (take (511 - (i + 1)) cs)) buf' = take (i + 1) ?buf @ map tolower (take (511 - (i + 1)) cs)"
      using Cons.IH [OF w(2), of "i + 1"] True by auto
    have "take (511 - i) (c # cs) = c # take (511 - (i + 1)) cs" using True by (simp add: take_Cons')
    moreover have "take (i + 1) ?buf = take i buf @ [tolower c]" using Cons.prems by simp
    ultimately show ?thesis using b w True by simp
  qed (use Cons.prems in simp)
qed simp

lemma tolower_buf_ok:
  assumes "length buf = 512" "0 \<notin> set name"
  shows "\<exists>buf'. tolower_buf name buf 512 = Inr buf' \<and> length buf' = 512 \<and> c_string buf' = Inr (key name)"
proof -
  obtain b where b: "tolower_loop name buf 0 512 = Inr b" "length b = 512" "take (length (take 511 name)) b = key name"
    using tolower_loop_ok [OF assms(1), of 0 name] by (auto simp: key_def)
  let ?n = "length (take 511 name)"
  let ?b = "take ?n b @ [0] @ drop (?n + 1) b"
  have "tolower_buf name buf 512 = mem_write b ?n [0]" using b(1) by (auto simp: tolower_buf_def min_def)
  moreover have "mem_write b ?n [0] = Inr ?b" "length ?b = 512" using b(2) by (auto simp: mem_write_def)
  moreover have "0 \<notin> set (key name)" using assms(2) by (auto simp: key_def dest: in_set_takeD)
  then have "c_string ?b = Inr (key name)" unfolding b(3) by simp
  ultimately show ?thesis by metis
qed

fun index_of :: "byte list \<Rightarrow> cfg_value list \<Rightarrow> nat option" where
  "index_of k [] = None"
| "index_of k (e # es) = (if key (cv_name e) = k then Some 0 else map_option Suc (index_of k es))"

lemma index_of_Some: "index_of k es = Some j \<Longrightarrow> j < length es \<and> key (cv_name (es ! j)) = k"
  by (induction es arbitrary: j) (auto split: if_splits)

lemma index_of_drop:
  "i < length es \<Longrightarrow> index_of k (drop i es) =
     (if key (cv_name (es ! i)) = k then Some 0 else map_option Suc (index_of k (drop (Suc i) es)))"
  by (subst Cons_nth_drop_Suc [symmetric]) auto

lemma index_of_snoc: "index_of k (es @ [e]) =
    (case index_of k es of Some j \<Rightarrow> Some j | None \<Rightarrow> if key (cv_name e) = k then Some (length es) else None)"
  by (induction es) (auto split: option.splits)

lemma index_of_update: "j < length es \<Longrightarrow> cv_name e = cv_name (es ! j) \<Longrightarrow> index_of k (es[j := e]) = index_of k es"
  by (induction es arbitrary: j) (auto split: nat.splits)

lemma index_of_None: "index_of k es = None \<longleftrightarrow> k \<notin> set (map (\<lambda>e. key (cv_name e)) es)"
  by (induction es) auto

text \<open>
  Names are C strings, nothing sets an alias, no two settings have the same key, and every setting has its name and its
  structure in memory.
\<close>

definition names_ok :: "core_cfg \<Rightarrow> bool" where
  "names_ok c \<longleftrightarrow> vv_wf (cc_vec c) \<and> (\<forall>e\<in>set (vv_elems (cc_vec c)). 0 \<notin> set (cv_name e) \<and> cv_alias e = None) \<and>
     distinct (map (\<lambda>e. key (cv_name e)) (vv_elems (cc_vec c))) \<and>
     cc_names c = length (vv_elems (cc_vec c)) \<and> length (vv_elems (cc_vec c)) \<le> cc_values c"

definition ref_of :: "nat option \<Rightarrow> int" where
  "ref_of x = (case x of None \<Rightarrow> - 1 | Some j \<Rightarrow> int j)"

lemma Ref_loop_ok:
  assumes "vv_wf v" "\<forall>e\<in>set (vv_elems v). 0 \<notin> set (cv_name e)" "0 \<notin> set name"
  shows "length buf1 = 512 \<Longrightarrow> length buf2 = 512 \<Longrightarrow> i \<le> vv_size v \<Longrightarrow>
     Ref_loop v name None buf1 buf2 i = Inr (ref_of (map_option ((+) i) (index_of (key name) (drop i (vv_elems v)))))"
proof (induction "vv_size v - i" arbitrary: i buf1 buf2)
  case 0
  then show ?case using assms(1) by (subst Ref_loop.simps) (simp add: vv_size_def ref_of_def)
next
  case (Suc n)
  let ?e = "vv_elems v ! i"
  have i: "i < vv_end v" "i < length (vv_elems v)" using Suc.hyps(2) assms(1) by (simp_all add: vv_size_def)
  then have "0 \<notin> set (cv_name ?e)" using assms(2) by simp
  then obtain b1 where b1: "tolower_buf (cv_name ?e) buf1 512 = Inr b1" "length b1 = 512" "c_string b1 = Inr (key (cv_name ?e))"
    using tolower_buf_ok [OF Suc.prems(1)] by blast
  obtain b2 where b2: "tolower_buf name buf2 512 = Inr b2" "length b2 = 512" "c_string b2 = Inr (key name)"
    using tolower_buf_ok [OF Suc.prems(2) assms(3)] by blast
  have ih: "Ref_loop v name None b1 b2 (i + 1) = Inr (ref_of (map_option ((+) (i + 1)) (index_of (key name) (drop (i + 1) (vv_elems v)))))"
    using Suc.hyps(1) [of "i + 1" b1 b2] Suc.hyps(2) b1(2) b2(2) i by (simp add: vv_size_def)
  show ?case
    using b1 b2 ih i(1) index_of_drop [OF i(2), of "key name"]
    by (subst Ref_loop.simps) (auto simp: vv_size_def vv_at_elems [OF assms(1)] ref_of_def option.map_comp comp_def split: option.splits)
qed

lemma Ref_ok: "names_ok c \<Longrightarrow> 0 \<notin> set name \<Longrightarrow> Ref c name None = Inr (ref_of (index_of (key name) (vv_elems (cc_vec c))))"
  using Ref_loop_ok [of "cc_vec c" name "replicate 512 0" "replicate 512 0" 0]
  by (simp add: Ref_def names_ok_def) (cases "index_of (key name) (vv_elems (cc_vec c))"; simp)

text \<open>An accessor called without a remembered index, or with -1, searches.\<close>

definition unset_ref :: "int option \<Rightarrow> bool" where
  "unset_ref rp \<longleftrightarrow> rp = None \<or> rp = Some (- 1)"

lemma pick_ref_ok:
  assumes "names_ok c" "0 \<notin> set name" "unset_ref rp"
  shows "pick_ref c name rp None =
    Inr (ref_of (index_of (key name) (vv_elems (cc_vec c))), map_option (\<lambda>_. ref_of (index_of (key name) (vv_elems (cc_vec c)))) rp)"
  using assms Ref_ok [OF assms(1,2)] by (auto simp: pick_ref_def unset_ref_def)

section \<open>The store as a map\<close>

abbreviation settings_of :: "core_cfg \<Rightarrow> cfg_value list" where
  "settings_of c \<equiv> vv_elems (cc_vec c)"

definition cfg_abs :: "core_cfg \<Rightarrow> byte list \<Rightarrow> (cfg_type \<times> u64) option" where
  "cfg_abs c k = map_option (\<lambda>j. (cv_type (settings_of c ! j), cv_word (settings_of c ! j))) (index_of k (settings_of c))"

text \<open>Room for \<open>n\<close> more settings: allocations succeed and no length leaves \<open>int\<close>; \<open>_grown\<close> is 2.\<close>

definition cfg_room :: "cfg_env \<Rightarrow> core_cfg \<Rightarrow> nat \<Rightarrow> bool" where
  "cfg_room env c n \<longleftrightarrow> (\<forall>k. can_alloc (ce_heap env) k) \<and> vv_grown (cc_vec c) = 2 \<and>
     2 * (int (length (vv_cells (cc_vec c))) + 2 * int n) + 4 \<le> INT_MAX"

lemma cfg_room_vv: "cfg_room env c n \<Longrightarrow> vv_room (ce_heap env) (cc_vec c)"
  by (auto simp: cfg_room_def vv_room_def)

lemma push_back_cells:
  "push_back h v x = Inr v' \<Longrightarrow> vv_grown v = 2 \<Longrightarrow>
     vv_grown v' = 2 \<and> int (length (vv_cells v')) \<le> int (length (vv_cells v)) + 2"
  by (auto simp: push_back_def vv_grow_def bindE_Inr_iff mem_write_def Let_def split: if_splits)

lemma vv_put_cells: "vv_put v i x = Inr v' \<Longrightarrow> vv_grown v' = vv_grown v \<and> length (vv_cells v') = length (vv_cells v)"
  by (auto simp: vv_put_def bindE_Inr_iff mem_write_def split: if_splits)

lemma add_setting_ok:
  assumes "names_ok c" "0 \<notin> set name" "cfg_room env c (Suc n)" "index_of (key name) (settings_of c) = None"
  shows "\<exists>c' rp'. add_setting env c name t w rp = Inr (c', rp') \<and> names_ok c' \<and> cfg_room env c' n \<and>
    settings_of c' = settings_of c @ [\<lparr>cv_word = w, cv_alias = None, cv_name = name, cv_type = t, cv_flag = 0\<rparr>] \<and>
    cc_strs c' = cc_strs c \<and> cc_tmp c' = cc_tmp c \<and> cfg_abs c' = (cfg_abs c)(key name \<mapsto> (t, w))"
proof -
  let ?e = "\<lparr>cv_word = w, cv_alias = None, cv_name = name, cv_type = t, cv_flag = 0\<rparr>"
  have wf: "vv_wf (cc_vec c)" using assms(1) by (simp add: names_ok_def)
  obtain v where v: "push_back (ce_heap env) (cc_vec c) ?e = Inr v" "vv_wf v" "vv_elems v = settings_of c @ [?e]"
    using vv.push_elems [OF wf cfg_room_vv [OF assms(3)]] by blast
  let ?c = "c\<lparr>cc_vec := v, cc_names := cc_names c + 1, cc_values := cc_values c + 1\<rparr>"
  have "add_setting env c name t w rp = Inr (?c, map_option (\<lambda>_. int (vv_size v) - 1) rp)"
    using v(1) assms(3) by (simp add: add_setting_def cfg_room_def)
  moreover have "names_ok ?c" using v assms(1,2,4) by (auto simp: names_ok_def index_of_None)
  moreover have "cfg_room env ?c n" using push_back_cells [OF v(1)] assms(3) by (auto simp: cfg_room_def)
  moreover have "cfg_abs ?c k = ((cfg_abs c)(key name \<mapsto> (t, w))) k" for k
    using v(3) assms(4) by (auto simp: cfg_abs_def index_of_snoc nth_append split: option.splits dest: index_of_Some)
  ultimately show ?thesis using v(3) by auto
qed

lemma replace_setting_ok:
  assumes "names_ok c" "index_of (key name) (settings_of c) = Some j" "cv_name e = cv_name (settings_of c ! j)" "cfg_room env c n"
    and na: "cv_alias e = None"
  shows "\<exists>v. vv_put (cc_vec c) (int j) e = Inr v \<and> names_ok (c\<lparr>cc_vec := v\<rparr>) \<and> vv_elems v = (settings_of c)[j := e] \<and>
    cfg_room env (c\<lparr>cc_vec := v\<rparr>) n \<and> cfg_abs (c\<lparr>cc_vec := v\<rparr>) = (cfg_abs c)(key name \<mapsto> (cv_type e, cv_word e))"
proof -
  have j: "j < length (settings_of c)" "key (cv_name (settings_of c ! j)) = key name" using index_of_Some [OF assms(2)] by auto
  have wf: "vv_wf (cc_vec c)" using assms(1) by (simp add: names_ok_def)
  obtain v where v: "vv_put (cc_vec c) (int j) e = Inr v" "vv_wf v" "vv_elems v = (settings_of c)[j := e]"
    using vv.put_elems [OF wf j(1)] by blast
  have "0 \<notin> set (cv_name e)" using assms(1,3) j(1) by (simp add: names_ok_def)
  moreover have "map (\<lambda>e. key (cv_name e)) ((settings_of c)[j := e]) = map (\<lambda>e. key (cv_name e)) (settings_of c)"
    using assms(3) j(1) by (simp add: map_update list_update_same_conv)
  ultimately have "names_ok (c\<lparr>cc_vec := v\<rparr>)" using na v assms(1) set_update_subset_insert [of "settings_of c" j e]
    by (auto simp: names_ok_def)
  moreover have "cfg_abs (c\<lparr>cc_vec := v\<rparr>) k = ((cfg_abs c)(key name \<mapsto> (cv_type e, cv_word e))) k" for k
    using v(3) assms(2) j
    by (cases "index_of k (settings_of c)") (auto simp: cfg_abs_def index_of_update [OF j(1) assms(3)] nth_list_update dest: index_of_Some)
  moreover have "cfg_room env (c\<lparr>cc_vec := v\<rparr>) n" using vv_put_cells [OF v(1)] assms(4) by (simp add: cfg_room_def)
  ultimately show ?thesis using v by auto
qed

lemma setting_alias: "names_ok c \<Longrightarrow> index_of k (settings_of c) = Some j \<Longrightarrow> cv_alias (settings_of c ! j) = None"
  by (drule index_of_Some) (auto simp: names_ok_def)

lemma cfg_abs_index:
  "cfg_abs c k = Some (t, w) \<Longrightarrow> \<exists>j. index_of k (settings_of c) = Some j \<and> j < length (settings_of c) \<and>
     cv_type (settings_of c ! j) = t \<and> cv_word (settings_of c ! j) = w"
  by (auto simp: cfg_abs_def dest: index_of_Some)

text \<open>Every setter of a plain value updates the map; the type of an existing setting stays.\<close>

lemma store_setting_ok:
  assumes c: "names_ok c" "0 \<notin> set name" "unset_ref rp" "cfg_room env c (Suc n)"
  shows "\<exists>c' rp'. store_setting env c name rp t init upd = Inr (c', rp', map_option snd (cfg_abs c (key name))) \<and>
    names_ok c' \<and> cfg_room env c' n \<and> cc_strs c' = cc_strs c \<and> cc_tmp c' = cc_tmp c \<and>
    cfg_abs c' = (cfg_abs c)(key name \<mapsto> (case cfg_abs c (key name) of None \<Rightarrow> (t, init (ce_garbage env)) | Some (t', w) \<Rightarrow> (t', upd w)))"
proof (cases "index_of (key name) (settings_of c)")
  case None
  then have a: "cfg_abs c (key name) = None" by (simp add: cfg_abs_def)
  obtain c' rp' where "add_setting env c name t (init (ce_garbage env)) (map_option (\<lambda>_. - 1) rp) = Inr (c', rp')"
    "names_ok c'" "cfg_room env c' n" "cc_strs c' = cc_strs c \<and> cc_tmp c' = cc_tmp c" "cfg_abs c' = (cfg_abs c)(key name \<mapsto> (t, init (ce_garbage env)))"
    using add_setting_ok [OF c(1,2,4) None] by blast
  with a show ?thesis by (simp add: store_setting_def pick_ref_ok [OF c(1-3)] None ref_of_def)
next
  case (Some j)
  let ?e = "settings_of c ! j"
  have j: "j < vv_end (cc_vec c)" "vv_wf (cc_vec c)" using index_of_Some [OF Some] c(1) by (auto simp: names_ok_def)
  have a: "cfg_abs c (key name) = Some (cv_type ?e, cv_word ?e)" using Some by (simp add: cfg_abs_def)
  have room: "cfg_room env c n" using c(4) by (auto simp: cfg_room_def)
  obtain v where v: "vv_put (cc_vec c) (int j) (?e\<lparr>cv_word := upd (cv_word ?e)\<rparr>) = Inr v" "names_ok (c\<lparr>cc_vec := v\<rparr>)"
    "cfg_room env (c\<lparr>cc_vec := v\<rparr>) n" "cfg_abs (c\<lparr>cc_vec := v\<rparr>) = (cfg_abs c)(key name \<mapsto> (cv_type ?e, upd (cv_word ?e)))"
    using replace_setting_ok [OF c(1) Some _ room, of "?e\<lparr>cv_word := upd (cv_word ?e)\<rparr>"] setting_alias [OF c(1) Some] by auto
  have "store_setting env c name rp t init upd = Inr (c\<lparr>cc_vec := v\<rparr>, map_option (\<lambda>_. int j) rp, Some (cv_word ?e))"
    by (simp add: store_setting_def pick_ref_ok [OF c(1-3)] Some ref_of_def vv_at_elems [OF j(2,1)] v(1))
  with v a show ?thesis by auto
qed

lemma fetch_setting_ok:
  assumes c: "names_ok c" "0 \<notin> set name" "unset_ref rp"
  shows "fetch_setting c name rp None t = Inr (map_option (\<lambda>_. ref_of (index_of (key name) (settings_of c))) rp, case cfg_abs c (key name) of Some (t', w) \<Rightarrow> if t' = t then Some w else None | None \<Rightarrow> None)"
proof (cases "index_of (key name) (settings_of c)")
  case (Some j)
  have j: "j < vv_end (cc_vec c)" "vv_wf (cc_vec c)" using index_of_Some [OF Some] c(1) by (auto simp: names_ok_def)
  show ?thesis by (simp add: fetch_setting_def pick_ref_ok [OF c] Some ref_of_def vv_at_elems [OF j(2,1)] cfg_abs_def)
qed (simp add: fetch_setting_def pick_ref_ok [OF c] ref_of_def cfg_abs_def)

section \<open>Strings\<close>

text \<open>What is relied on of \<open>operator new\<close>: a new block is not null and not in use, and small heaps are not full.\<close>

definition env_ok :: "cfg_env \<Rightarrow> bool" where
  "env_ok env \<longleftrightarrow> (\<forall>strs n a. ce_new env strs n = Some a \<longrightarrow> a \<noteq> 0 \<and> strs a = None) \<and>
     (\<forall>strs n. card (dom strs) < 4294967296 \<longrightarrow> ce_new env strs n \<noteq> None)"

text \<open>
  The invariant: every string setting points to a live string of its own, every live string belongs to a
  setting, and the scratch buffer is well formed.
\<close>

definition string_ok :: "byte list \<Rightarrow> bool" where
  "string_ok s \<longleftrightarrow> 0 \<notin> set s \<and> length s + 11 < SIZE_MOD"

definition cfg_wf :: "core_cfg \<Rightarrow> bool" where
  "cfg_wf c \<longleftrightarrow> names_ok c \<and> fb_wf TMP (cc_tmp c) \<and>
     (\<forall>k w. cfg_abs c k = Some (cfg_cstr, w) \<longrightarrow> w \<noteq> 0 \<and> (\<exists>s. cc_strs c w = Some s \<and> string_ok s)) \<and>
     (\<forall>k k' w. cfg_abs c k = Some (cfg_cstr, w) \<longrightarrow> cfg_abs c k' = Some (cfg_cstr, w) \<longrightarrow> k = k') \<and>
     (\<forall>w\<in>dom (cc_strs c). \<exists>k. cfg_abs c k = Some (cfg_cstr, w))"

definition cfg_space :: "cfg_env \<Rightarrow> core_cfg \<Rightarrow> nat \<Rightarrow> bool" where
  "cfg_space env c n \<longleftrightarrow> cfg_room env c n \<and> card (dom (cc_strs c)) + n \<le> 4294967296"

text \<open>A name that is new or has the type.\<close>

definition usable :: "cfg_type \<Rightarrow> core_cfg \<Rightarrow> byte list \<Rightarrow> bool" where
  "usable t c k \<longleftrightarrow> (case cfg_abs c k of None \<Rightarrow> True | Some (t', _) \<Rightarrow> t' = t)"

lemma string_live: "cfg_wf c \<Longrightarrow> cfg_abs c k = Some (cfg_cstr, w) \<Longrightarrow> w \<noteq> 0 \<and> (\<exists>s. cc_strs c w = Some s \<and> string_ok s)"
  unfolding cfg_wf_def by blast

lemma string_inj: "cfg_wf c \<Longrightarrow> cfg_abs c k = Some (cfg_cstr, w) \<Longrightarrow> cfg_abs c k' = Some (cfg_cstr, w) \<Longrightarrow> k = k'"
  unfolding cfg_wf_def by blast

lemma string_owned: "cfg_wf c \<Longrightarrow> w \<in> dom (cc_strs c) \<Longrightarrow> \<exists>k. cfg_abs c k = Some (cfg_cstr, w)"
  unfolding cfg_wf_def by (elim conjE) (rule bspec)

lemma cfg_wfI:
  "names_ok c \<Longrightarrow> fb_wf TMP (cc_tmp c) \<Longrightarrow>
   (\<And>k w. cfg_abs c k = Some (cfg_cstr, w) \<Longrightarrow> w \<noteq> 0 \<and> (\<exists>s. cc_strs c w = Some s \<and> string_ok s)) \<Longrightarrow>
   (\<And>k k' w. cfg_abs c k = Some (cfg_cstr, w) \<Longrightarrow> cfg_abs c k' = Some (cfg_cstr, w) \<Longrightarrow> k = k') \<Longrightarrow>
   (\<And>w. w \<in> dom (cc_strs c) \<Longrightarrow> \<exists>k. cfg_abs c k = Some (cfg_cstr, w)) \<Longrightarrow> cfg_wf c"
  unfolding cfg_wf_def by blast

lemma cfg_wf_plain_update:
  assumes "cfg_wf c" "names_ok c'" "cfg_abs c' = (cfg_abs c)(k \<mapsto> (t, w))" "t \<noteq> cfg_cstr" "cc_strs c' = cc_strs c" "cc_tmp c' = cc_tmp c"
    and "usable t c k"
  shows "cfg_wf c'"
proof -
  have k: "cfg_abs c k \<noteq> Some (cfg_cstr, v)" for v using assms(4,7) by (auto simp: usable_def)
  have "\<exists>k'. cfg_abs c' k' = Some (cfg_cstr, v)" if v: "v \<in> dom (cc_strs c')" for v
  proof -
    obtain k' where "cfg_abs c k' = Some (cfg_cstr, v)" using string_owned [OF assms(1), of v] v assms(5) by auto
    with k assms(3) show ?thesis by (metis fun_upd_other)
  qed
  moreover have "cfg_abs c k' = Some (cfg_cstr, v)" if "cfg_abs c' k' = Some (cfg_cstr, v)" for k' v
    using that assms(3,4) by (auto split: if_splits)
  moreover have "fb_wf TMP (cc_tmp c')" using assms(1,6) by (simp add: cfg_wf_def)
  ultimately show ?thesis
    by (intro cfg_wfI) (use assms(2,5) string_live [OF assms(1)] string_inj [OF assms(1)] in metis)+
qed

section \<open>The contract of typed settings\<close>

text \<open>
  What a client of one type of setting relies on: a value that is set under a name is read back under every
  spelling of the name, and nothing else changes; a missing value reads as the default, which is stored.
  \<open>set_all\<close> is a client, the settings of a file applied in order.
\<close>

fun set_all :: "('c \<Rightarrow> byte list \<Rightarrow> 'v \<Rightarrow> c_fault + 'c) \<Rightarrow> 'c \<Rightarrow> (byte list \<times> 'v) list \<Rightarrow> c_fault + 'c" where
  "set_all set_to c [] = Inr c"
| "set_all set_to c ((name, v) # nvs) = bindE (set_to c name v) (\<lambda>c'. set_all set_to c' nvs)"

locale settings =
  fixes ok :: "'c \<Rightarrow> bool"
    and room :: "'c \<Rightarrow> nat \<Rightarrow> bool"
    and free :: "'c \<Rightarrow> byte list \<Rightarrow> bool"
    and good :: "'v \<Rightarrow> bool"
    and val :: "'c \<Rightarrow> byte list \<Rightarrow> 'v option"
    and set_to :: "'c \<Rightarrow> byte list \<Rightarrow> 'v \<Rightarrow> c_fault + 'c"
    and get :: "'c \<Rightarrow> byte list \<Rightarrow> 'v \<Rightarrow> c_fault + ('c \<times> 'v)"
  assumes set_ok: "ok c \<Longrightarrow> room c (Suc n) \<Longrightarrow> 0 \<notin> set name \<Longrightarrow> good v \<Longrightarrow> free c (key name) \<Longrightarrow>
      \<exists>c'. set_to c name v = Inr c' \<and> ok c' \<and> room c' n \<and> free c' = free c \<and> val c' = (val c)(key name \<mapsto> v)"
    and get_val: "ok c \<Longrightarrow> 0 \<notin> set name \<Longrightarrow> val c (key name) = Some v \<Longrightarrow> get c name d = Inr (c, v)"
    and get_default: "ok c \<Longrightarrow> room c (Suc n) \<Longrightarrow> 0 \<notin> set name \<Longrightarrow> good d \<Longrightarrow> free c (key name) \<Longrightarrow> val c (key name) = None \<Longrightarrow>
      \<exists>c'. get c name d = Inr (c', d) \<and> ok c' \<and> room c' n \<and> free c' = free c \<and> val c' = (val c)(key name \<mapsto> d)"
begin

lemma set_all_val:
  "ok c \<Longrightarrow> room c (length nvs) \<Longrightarrow> \<forall>(name, v) \<in> set nvs. 0 \<notin> set name \<and> good v \<and> free c (key name) \<Longrightarrow>
     \<exists>c'. set_all set_to c nvs = Inr c' \<and> ok c' \<and> room c' 0 \<and> val c' = val c ++ map_of (rev (map (\<lambda>(name, v). (key name, v)) nvs))"
proof (induction nvs arbitrary: c)
  case (Cons nv nvs)
  obtain name v where nv: "nv = (name, v)" by fastforce
  from Cons.prems obtain c1 where c1: "set_to c name v = Inr c1" "ok c1" "room c1 (length nvs)" "free c1 = free c"
    "val c1 = (val c)(key name \<mapsto> v)"
    using set_ok [of c "length nvs" name v] unfolding nv by auto
  have m: "m ++ map_of (rev (map (\<lambda>(name, v). (key name, v)) (nv # nvs))) =
      m(key name \<mapsto> v) ++ map_of (rev (map (\<lambda>(name, v). (key name, v)) nvs))" for m
    by (simp add: nv)
  have "\<forall>(name, v) \<in> set nvs. 0 \<notin> set name \<and> good v \<and> free c1 (key name)" using Cons.prems(3) c1(4) by auto
  then obtain c' where "set_all set_to c1 nvs = Inr c'" "ok c'" "room c' 0"
    "val c' = val c1 ++ map_of (rev (map (\<lambda>(name, v). (key name, v)) nvs))" using Cons.IH [OF c1(2,3)] by blast
  then show ?case unfolding m c1(5) [symmetric] using c1(1) by (auto simp: nv)
qed simp

lemma get_after_sets:
  assumes "ok c" "room c (length nvs)" "\<forall>(name, v) \<in> set nvs. 0 \<notin> set name \<and> good v \<and> free c (key name)" "0 \<notin> set name"
    and "map_of (rev (map (\<lambda>(name, v). (key name, v)) nvs)) (key name) = Some v"
  shows "\<exists>c'. set_all set_to c nvs = Inr c' \<and> get c' name d = Inr (c', v)"
proof -
  obtain c' where "set_all set_to c nvs = Inr c'" "ok c'" "val c' (key name) = Some v"
    using set_all_val [OF assms(1-3)] assms(5) map_add_find_right
      [of "map_of (rev (map (\<lambda>(name, v). (key name, v)) nvs))" "key name" v "val c"] by metis
  with get_val [OF _ assms(4)] show ?thesis by blast
qed

end

text \<open>The value of a setting seen through its type.\<close>

definition view :: "cfg_type \<Rightarrow> (u64 \<Rightarrow> 'v) \<Rightarrow> core_cfg \<Rightarrow> byte list \<Rightarrow> 'v option" where
  "view t rd c k = (case cfg_abs c k of Some (t', w) \<Rightarrow> if t' = t then Some (rd w) else None | None \<Rightarrow> None)"

text \<open>The accessors without a remembered index, as the contract has them.\<close>

definition setter :: "('c + ('d \<times> 'e \<times> 'f)) \<Rightarrow> 'c + 'd" where
  "setter r = bindE r (\<lambda>(c, _, _). Inr c)"

definition getter :: "('c + ('d \<times> 'e \<times> 'f)) \<Rightarrow> 'c + ('d \<times> 'f)" where
  "getter r = bindE r (\<lambda>(c, _, v). Inr (c, v))"

definition cfg_ok :: "cfg_env \<Rightarrow> core_cfg \<Rightarrow> bool" where
  "cfg_ok env c \<longleftrightarrow> cfg_wf c \<and> env_ok env"

text \<open>Every type of plain value meets the contract.\<close>

lemma plain_set_ok:
  assumes t: "t \<noteq> cfg_cstr" and rd: "\<And>v w. rd (init v w) = v" "\<And>v w. rd (upd v w) = v"
    and c: "cfg_ok env c" "cfg_space env c (Suc n)" "0 \<notin> set name" "usable t c (key name)" and rp: "unset_ref rp"
  shows "\<exists>c' rp' old. store_setting env c name rp t (init v) (upd v) = Inr (c', rp', old) \<and> cfg_ok env c' \<and> cfg_space env c' n \<and>
    usable t c' = usable t c \<and> view t rd c' = (view t rd c)(key name \<mapsto> v) \<and> cc_strs c' = cc_strs c \<and>
    (\<exists>w. cfg_abs c' = (cfg_abs c)(key name \<mapsto> (t, w)) \<and> rd w = v)"
proof -
  have names: "names_ok c" "cfg_room env c (Suc n)" using c by (auto simp: cfg_ok_def cfg_wf_def cfg_space_def)
  let ?x = "case cfg_abs c (key name) of None \<Rightarrow> (t, init v (ce_garbage env)) | Some (t', w) \<Rightarrow> (t', upd v w)"
  obtain c' rp' where s: "store_setting env c name rp t (init v) (upd v) = Inr (c', rp', map_option snd (cfg_abs c (key name)))"
    "names_ok c'" "cfg_room env c' n" "cc_strs c' = cc_strs c" "cc_tmp c' = cc_tmp c" "cfg_abs c' = (cfg_abs c)(key name \<mapsto> ?x)"
    using store_setting_ok [OF names(1) c(3) rp names(2), of t "init v" "upd v"] by blast
  have x: "fst ?x = t" "rd (snd ?x) = v" using c(4) rd by (auto simp: usable_def split: option.splits)
  have abs: "cfg_abs c' = (cfg_abs c)(key name \<mapsto> (t, snd ?x))" using s(6) x(1) by (metis prod.collapse)
  from cfg_wf_plain_update [OF _ s(2) abs t s(4,5) c(4)] c(1) have "cfg_ok env c'" by (simp add: cfg_ok_def)
  moreover have "cfg_space env c' n" using s(3,4) c(2) by (simp add: cfg_space_def)
  moreover have "usable t c' k = usable t c k" for k using s(6) x(1) c(4) by (auto simp: usable_def split: option.splits prod.splits)
  moreover have "view t rd c' k = ((view t rd c)(key name \<mapsto> v)) k" for k
    using s(6) x by (auto simp: view_def split: prod.splits)
  ultimately show ?thesis using s(1,4) abs x(2) by blast
qed

lemma plain_settings:
  assumes t: "t \<noteq> cfg_cstr" and rd: "\<And>v w. rd (init v w) = v" "\<And>v w. rd (upd v w) = v"
    and set_to: "\<And>c name v. set_to c name v = bindE (store_setting env c name None t (init v) (upd v)) (\<lambda>(c1, _, _). Inr c1)"
    and get: "\<And>c name d. get c name d = bindE (fetch_setting c name None None t) (\<lambda>(rp, found).
        case found of Some w \<Rightarrow> Inr (c, rd w)
        | None \<Rightarrow> bindE (store_setting env c name rp t (init d) (upd d)) (\<lambda>(c1, _, _). Inr (c1, d)))"
  shows "settings (cfg_ok env) (cfg_space env) (usable t) (\<lambda>_. True) (view t rd) set_to get"
proof
  fix c n name and v :: 'a
  show "\<exists>c'. set_to c name v = Inr c' \<and> cfg_ok env c' \<and> cfg_space env c' n \<and> usable t c' = usable t c \<and>
      view t rd c' = (view t rd c)(key name \<mapsto> v)"
    if "cfg_ok env c" "cfg_space env c (Suc n)" "0 \<notin> set name" "usable t c (key name)"
    using plain_set_ok [OF t, of rd init upd env c n name None v] rd that unfolding set_to by (auto simp: unset_ref_def)
  have f: "fetch_setting c name None None t =
      Inr (None, case cfg_abs c (key name) of Some (t', w) \<Rightarrow> if t' = t then Some w else None | None \<Rightarrow> None)"
    if "cfg_ok env c" "0 \<notin> set name"
    using fetch_setting_ok [of c name None t] that by (simp add: unset_ref_def cfg_ok_def cfg_wf_def)
  show "get c name d = Inr (c, v)" if "cfg_ok env c" "0 \<notin> set name" "view t rd c (key name) = Some v" for d
    using f [OF that(1,2)] that(3) unfolding get by (auto simp: view_def split: option.splits if_splits)
  show "\<exists>c'. get c name d = Inr (c', d) \<and> cfg_ok env c' \<and> cfg_space env c' n \<and> usable t c' = usable t c \<and>
      view t rd c' = (view t rd c)(key name \<mapsto> d)"
    if "cfg_ok env c" "cfg_space env c (Suc n)" "0 \<notin> set name" "usable t c (key name)" "view t rd c (key name) = None" for d
    using f [OF that(1,3)] plain_set_ok [OF t, of rd init upd env c n name None d] rd that unfolding get
    by (auto simp: view_def unset_ref_def split: option.splits if_splits)
qed

section \<open>String settings\<close>

definition str_val :: "core_cfg \<Rightarrow> byte list \<Rightarrow> byte list option" where
  "str_val c k = (case cfg_abs c k of Some (t, w) \<Rightarrow> if t = cfg_cstr then cc_strs c w else None | None \<Rightarrow> None)"

lemma vec_only:
  "names_ok (c\<lparr>cc_strs := s\<rparr>) = names_ok c" "cfg_room env (c\<lparr>cc_strs := s\<rparr>) n = cfg_room env c n" "cfg_abs (c\<lparr>cc_strs := s\<rparr>) = cfg_abs c"
  "names_ok (c\<lparr>cc_vec := v, cc_strs := s\<rparr>) = names_ok (c\<lparr>cc_vec := v\<rparr>)"
  "names_ok (c\<lparr>cc_vec := v, cc_strs := s, cc_tmp := b\<rparr>) = names_ok (c\<lparr>cc_vec := v\<rparr>)"
  "cfg_room env (c\<lparr>cc_vec := v, cc_strs := s, cc_tmp := b\<rparr>) n = cfg_room env (c\<lparr>cc_vec := v\<rparr>) n"
  "cfg_abs (c\<lparr>cc_vec := v, cc_strs := s, cc_tmp := b\<rparr>) = cfg_abs (c\<lparr>cc_vec := v\<rparr>)"
  by (simp_all add: names_ok_def cfg_room_def cfg_abs_def fun_eq_iff)

text \<open>A string setting that points to a block of its own keeps the invariant.\<close>

lemma cfg_wf_string_update:
  assumes wf: "cfg_wf c" and c': "names_ok c'" "fb_wf TMP (cc_tmp c')" "cfg_abs c' = (cfg_abs c)(k \<mapsto> (cfg_cstr, a))"
    and a: "a \<noteq> 0" "cc_strs c a = None" "cc_strs c' a = Some v" "string_ok v"
    and keep: "\<And>k' w. k' \<noteq> k \<Longrightarrow> cfg_abs c k' = Some (cfg_cstr, w) \<Longrightarrow> cc_strs c' w = cc_strs c w"
    and owned: "\<And>w. w \<in> dom (cc_strs c') \<Longrightarrow> w \<noteq> a \<Longrightarrow> w \<in> dom (cc_strs c) \<and> cfg_abs c k \<noteq> Some (cfg_cstr, w)"
  shows "cfg_wf c' \<and> str_val c' = (str_val c)(k \<mapsto> v)"
proof
  have fresh: "cfg_abs c k' \<noteq> Some (cfg_cstr, a)" for k' using string_live [OF wf, of k' a] a(2) by auto
  have "w \<noteq> 0 \<and> (\<exists>s. cc_strs c' w = Some s \<and> string_ok s)" if "cfg_abs c' k' = Some (cfg_cstr, w)" for k' w
    using that a c'(3) wf keep [of k' w] by (cases "k' = k") (auto simp: cfg_wf_def)
  moreover have "k1 = k2" if "cfg_abs c' k1 = Some (cfg_cstr, w)" "cfg_abs c' k2 = Some (cfg_cstr, w)" for k1 k2 w
    using that fresh wf unfolding c'(3) cfg_wf_def by (auto split: if_splits)
  moreover have "\<exists>k'. cfg_abs c' k' = Some (cfg_cstr, w)" if "w \<in> dom (cc_strs c')" for w
  proof (cases "w = a")
    case False
    with owned [OF that] wf obtain k' where "cfg_abs c k' = Some (cfg_cstr, w)" "k' \<noteq> k" unfolding cfg_wf_def by blast
    then show ?thesis using c'(3) by auto
  qed (use c'(3) in auto)
  ultimately show "cfg_wf c'" using c'(1,2) unfolding cfg_wf_def by blast
  have "str_val c' k' = ((str_val c)(k \<mapsto> v)) k'" for k'
    using a(3) keep [of k'] by (auto simp: str_val_def c'(3) split: option.splits)
  then show "str_val c' = (str_val c)(k \<mapsto> v)" by blast
qed

text \<open>The old string is saved in the scratch buffer.\<close>

lemma save_old_ok:
  assumes "fb_wf TMP b" "string_ok s" "\<forall>k. can_alloc h k"
  shows "\<exists>b1 b2 b3. fb_grow h TMP b (length s + 10) = Inr b1 \<and> fb_store TMP b1 0 (s @ [0]) = Inr b2 \<and>
    fb_setcplen TMP b2 (length s) = Inr b3 \<and> fb_wf TMP b3"
proof -
  have len: "length s + 10 + 1 < SIZE_MOD" using assms(2) by (simp add: string_ok_def)
  obtain b1 where b1: "fb_grow h TMP b (length s + 10) = Inr b1" "fb_wf TMP b1" "length s + 10 \<le> fb_alloc b1"
    using fb_grow_cases [OF assms(1) len, of h] assms(3) by (cases "fb_grow h TMP b (length s + 10)") auto
  obtain cells where "fb_buf TMP b1 = Some cells" using b1(2) by (auto elim: fb_wfE)
  with fb_store_ok [OF b1(2) this, of 0 "s @ [0]"] b1(3) obtain b2 where
    b2: "fb_store TMP b1 0 (s @ [0]) = Inr b2" "fb_wf TMP b2" "fb_alloc b2 = fb_alloc b1" by auto
  obtain cells2 where c2: "fb_buf TMP b2 = Some cells2" using b2(2) by (auto elim: fb_wfE)
  from fb_setcplen_ok [OF b2(2) c2, of "length s"] b1(3) b2(3) obtain b3 where
    "fb_setcplen TMP b2 (length s) = Inr b3" "fb_wf TMP b3" by auto
  with b1(1) b2(1) show ?thesis by blast
qed

lemma cpstr_ok:
  assumes "env_ok env" "card (dom strs) < 4294967296"
  shows "\<exists>a. cpstr env strs v = Inr (strs(a \<mapsto> v), a) \<and> a \<noteq> 0 \<and> strs a = None"
proof -
  obtain a where "ce_new env strs (length v + 1) = Some a" using assms unfolding env_ok_def by blast
  with assms(1) show ?thesis unfolding env_ok_def by (auto simp: cpstr_def)
qed

lemma SetCString_ok:
  assumes c: "cfg_ok env c" "cfg_space env c (Suc n)" "0 \<notin> set name" "string_ok v" "usable cfg_cstr c (key name)" and rp: "unset_ref rp"
  shows "\<exists>c' rp' old. SetCString env c name rp v = Inr (c', rp', old) \<and> cfg_ok env c' \<and> cfg_space env c' n \<and>
    usable cfg_cstr c' = usable cfg_cstr c \<and> str_val c' = (str_val c)(key name \<mapsto> v) \<and>
    (\<exists>a. cfg_abs c' = (cfg_abs c)(key name \<mapsto> (cfg_cstr, a)))"
proof -
  have wf: "cfg_wf c" "names_ok c" "env_ok env" "fb_wf TMP (cc_tmp c)" using c(1) by (auto simp: cfg_ok_def cfg_wf_def)
  have sp: "cfg_room env c (Suc n)" "card (dom (cc_strs c)) < 4294967296" "card (dom (cc_strs c)) + Suc n \<le> 4294967296"
    using c(2) by (auto simp: cfg_space_def)
  obtain a where a: "cpstr env (cc_strs c) v = Inr ((cc_strs c)(a \<mapsto> v), a)" "a \<noteq> 0" "cc_strs c a = None"
    using cpstr_ok [OF wf(3) sp(2)] by blast
  have usable: "usable cfg_cstr c' = usable cfg_cstr c" if "cfg_abs c' = (cfg_abs c)(key name \<mapsto> (cfg_cstr, w))" for c' w
    using that c(5) by (auto simp: usable_def fun_eq_iff)
  show ?thesis
  proof (cases "index_of (key name) (settings_of c)")
    case None
    let ?c = "c\<lparr>cc_strs := (cc_strs c)(a \<mapsto> v)\<rparr>"
    obtain c' rp' where add: "add_setting env ?c name cfg_cstr a (map_option (\<lambda>_. - 1) rp) = Inr (c', rp')" "names_ok c'" "cfg_room env c' n"
      "cc_strs c' = (cc_strs c)(a \<mapsto> v)" "cc_tmp c' = cc_tmp c" "cfg_abs c' = (cfg_abs c)(key name \<mapsto> (cfg_cstr, a))"
      using add_setting_ok [of ?c name env n cfg_cstr a "map_option (\<lambda>_. - 1) rp"] wf(2) c(3) sp(1) None by (auto simp: vec_only)
    have upd: "cfg_wf c' \<and> str_val c' = (str_val c)(key name \<mapsto> v)"
      by (rule cfg_wf_string_update [OF wf(1) add(2) _ add(6) a(2,3)])
        (use add(4,5) wf(4) c(4) a(3) string_live [OF wf(1)] None in \<open>auto simp: cfg_abs_def\<close>, fastforce)
    have "dom (cc_strs c') = insert a (dom (cc_strs c))" using add(4) by auto
    moreover have "card (insert a (dom (cc_strs c))) \<le> Suc (card (dom (cc_strs c)))" by (simp add: card_insert_if)
    ultimately have "cfg_space env c' n" using add(3) sp(3) by (simp add: cfg_space_def)
    moreover have "SetCString env c name rp v = Inr (c', rp', v)"
      using add(1) a(1) by (simp add: SetCString_def pick_ref_ok [OF wf(2) c(3) rp] None ref_of_def)
    ultimately show ?thesis using upd usable [OF add(6)] wf(3) add(6) by (auto simp: cfg_ok_def)
  next
    case (Some j)
    let ?e = "settings_of c ! j" and ?strs = "(cc_strs c)(a \<mapsto> v)"
    have j: "j < vv_end (cc_vec c)" "vv_wf (cc_vec c)" using index_of_Some [OF Some] wf(2) by (auto simp: names_ok_def)
    have abs: "cfg_abs c (key name) = Some (cv_type ?e, cv_word ?e)" using Some by (simp add: cfg_abs_def)
    with c(5) have ty: "cv_type ?e = cfg_cstr" by (simp add: usable_def)
    obtain s where s: "cv_word ?e \<noteq> 0" "cc_strs c (cv_word ?e) = Some s" "string_ok s" using string_live [OF wf(1)] abs ty by metis
    have ne: "cv_word ?e \<noteq> a" using s(2) a(3) by auto
    obtain b1 b2 b3 where b: "fb_grow (ce_heap env) TMP (cc_tmp c) (length s + 10) = Inr b1" "fb_store TMP b1 0 (s @ [0]) = Inr b2"
      "fb_setcplen TMP b2 (length s) = Inr b3" "fb_wf TMP b3"
      using save_old_ok [OF wf(4) s(3), of "ce_heap env"] sp(1) by (auto simp: cfg_room_def)
    obtain vec where vec: "vv_put (cc_vec c) (int j) (?e\<lparr>cv_word := a\<rparr>) = Inr vec" "names_ok (c\<lparr>cc_vec := vec\<rparr>)"
      "cfg_room env (c\<lparr>cc_vec := vec\<rparr>) n" "cfg_abs (c\<lparr>cc_vec := vec\<rparr>) = (cfg_abs c)(key name \<mapsto> (cfg_cstr, a))"
      using replace_setting_ok [OF wf(2) Some, of "?e\<lparr>cv_word := a\<rparr>" env n] setting_alias [OF wf(2) Some] sp(1) ty
      by (auto simp: cfg_room_def)
    let ?c = "c\<lparr>cc_vec := vec, cc_strs := ?strs(cv_word ?e := None), cc_tmp := b3\<rparr>"
    have set: "SetCString env c name rp v = Inr (?c, map_option (\<lambda>_. int j) rp, s)"
      using a(1) b s ne vec(1) setting_alias [OF wf(2) Some]
      by (simp add: SetCString_def pick_ref_ok [OF wf(2) c(3) rp] Some ref_of_def vv_at_elems [OF j(2,1)] Let_def)
    have abs': "cfg_abs ?c = (cfg_abs c)(key name \<mapsto> (cfg_cstr, a))" using vec(4) by (simp add: vec_only)
    have other: "w \<noteq> cv_word ?e \<and> w \<noteq> a" if "k' \<noteq> key name" "cfg_abs c k' = Some (cfg_cstr, w)" for k' w
      using wf(1) that abs ty a(3) unfolding cfg_wf_def by (metis option.distinct(1))
    have upd: "cfg_wf ?c \<and> str_val ?c = (str_val c)(key name \<mapsto> v)"
      by (rule cfg_wf_string_update [OF wf(1) _ _ abs' a(2,3)]) (use vec(2) b(4) ne c(4) other abs in \<open>auto simp: vec_only split: if_splits\<close>)
    have "dom (?strs(cv_word ?e := None)) = insert a (dom (cc_strs c)) - {cv_word ?e}" by auto
    moreover have "card (insert a (dom (cc_strs c)) - {cv_word ?e}) \<le> card (dom (cc_strs c))"
      using s(2) a(3) by (simp add: card_insert_if dom_def)
    ultimately have "cfg_space env ?c n" using vec(3) sp(3) by (simp add: cfg_space_def vec_only)
    with set upd usable [OF abs'] wf(3) abs' show ?thesis by (auto simp: cfg_ok_def)
  qed
qed

section \<open>The types of settings\<close>

lemma word_i_set [simp]: "word_i (set_word_i v w) = v"
  by (rule bit_word_eqI) (auto simp: word_i_def set_word_i_def bit_simps)

lemma word_b_set [simp]: "word_b (set_word_b v w) = v"
proof -
  have "(ucast ((w AND NOT (mask 8)) OR of_bool v) :: byte) = of_bool v"
    by (rule bit_word_eqI) (auto simp: bit_simps)
  then show ?thesis by (simp add: word_b_def set_word_b_def)
qed

lemma word_b_set_i [simp]: "word_b (set_word_i (of_bool v) w) = v"
proof -
  have "(ucast ((w AND NOT (mask 32)) OR ucast (of_bool v :: u32)) :: byte) = of_bool v"
    by (rule bit_word_eqI) (auto simp: bit_simps)
  then show ?thesis by (simp add: word_b_def set_word_i_def)
qed

lemma word_p_set [simp]: "set_word_p v w = v"
  by (simp add: set_word_p_def)

lemmas accessors = setter_def getter_def bindE_def

interpretation int_settings: settings "cfg_ok env" "cfg_space env" "usable cfg_i" "\<lambda>_. True" "view cfg_i word_i"
  "\<lambda>c name v. setter (SetInt env c name None v)" "\<lambda>c name d. getter (GetInt env c name None None d)" for env
  by (rule plain_settings [where init = set_word_i and upd = set_word_i])
    (auto simp: SetInt_def GetInt_def accessors split: sum.split option.split prod.split)

interpretation uint_settings: settings "cfg_ok env" "cfg_space env" "usable cfg_u" "\<lambda>_. True" "view cfg_u word_i"
  "\<lambda>c name v. setter (SetUint env c name None v)" "\<lambda>c name d. getter (GetUint env c name None None d)" for env
  by (rule plain_settings [where init = set_word_i and upd = set_word_i])
    (auto simp: SetUint_def GetUint_def accessors split: sum.split option.split prod.split)

interpretation float_settings: settings "cfg_ok env" "cfg_space env" "usable cfg_f" "\<lambda>_. True" "view cfg_f word_i"
  "\<lambda>c name v. setter (SetFloat env c name None v)" "\<lambda>c name d. getter (GetFloat env c name None None d)" for env
  by (rule plain_settings [where init = set_word_i and upd = set_word_i])
    (auto simp: SetFloat_def GetFloat_def accessors split: sum.split option.split prod.split)

interpretation bool_settings: settings "cfg_ok env" "cfg_space env" "usable cfg_b" "\<lambda>_. True" "view cfg_b word_b"
  "\<lambda>c name v. setter (SetBool env c name None v)" "\<lambda>c name d. getter (GetBool env c name None None d)" for env
  by (rule plain_settings [where init = "\<lambda>v. set_word_i (of_bool v)" and upd = set_word_b])
    (auto simp: SetBool_def GetBool_def accessors split: sum.split option.split prod.split)

interpretation obj_settings: settings "cfg_ok env" "cfg_space env" "usable cfg_p" "\<lambda>_. True" "view cfg_p (\<lambda>w. w)"
  "\<lambda>c name v. setter (SetObj env c name None v)" "\<lambda>c name d. getter (GetObj env c name None None d)" for env
  by (rule plain_settings [where init = set_word_p and upd = set_word_p])
    (auto simp: SetObj_def GetObj_def accessors split: sum.split option.split prod.split)

interpretation str_settings: settings "cfg_ok env" "cfg_space env" "usable cfg_cstr" string_ok str_val
  "\<lambda>c name v. setter (SetCString env c name None v)" "\<lambda>c name d. getter (GetCString env c name None None d)" for env
proof
  fix c n name v d
  show "\<exists>c'. setter (SetCString env c name None v) = Inr c' \<and> cfg_ok env c' \<and> cfg_space env c' n \<and>
      usable cfg_cstr c' = usable cfg_cstr c \<and> str_val c' = (str_val c)(key name \<mapsto> v)"
    if "cfg_ok env c" "cfg_space env c (Suc n)" "0 \<notin> set name" "string_ok v" "usable cfg_cstr c (key name)"
    using SetCString_ok [OF that, of None] by (auto simp: setter_def unset_ref_def)
  have f: "fetch_setting c name None None cfg_cstr =
      Inr (None, case cfg_abs c (key name) of Some (t', w) \<Rightarrow> if t' = cfg_cstr then Some w else None | None \<Rightarrow> None)"
    if "cfg_ok env c" "0 \<notin> set name"
    using fetch_setting_ok [of c name None cfg_cstr] that by (simp add: unset_ref_def cfg_ok_def cfg_wf_def)
  show "getter (GetCString env c name None None d) = Inr (c, v)" if "cfg_ok env c" "0 \<notin> set name" "str_val c (key name) = Some v"
    using f [OF that(1,2)] that(3) by (auto simp: GetCString_def getter_def str_val_def split: option.splits if_splits)
  show "\<exists>c'. getter (GetCString env c name None None d) = Inr (c', d) \<and> cfg_ok env c' \<and> cfg_space env c' n \<and>
      usable cfg_cstr c' = usable cfg_cstr c \<and> str_val c' = (str_val c)(key name \<mapsto> d)"
    if that: "cfg_ok env c" "cfg_space env c (Suc n)" "0 \<notin> set name" "string_ok d" "usable cfg_cstr c (key name)" "str_val c (key name) = None"
  proof -
    have "cfg_abs c (key name) = None"
      using that(5,6) string_live [of c "key name"] that(1) by (auto simp: usable_def str_val_def cfg_ok_def split: option.splits)
    with f [OF that(1,3)] SetCString_ok [OF that(1-5), of None] show ?thesis
      by (auto simp: GetCString_def getter_def unset_ref_def)
  qed
qed

section \<open>Release\<close>

lemma index_of_nth: "distinct (map (\<lambda>e. key (cv_name e)) es) \<Longrightarrow> j < length es \<Longrightarrow> index_of (key (cv_name (es ! j))) es = Some j"
proof (induction es arbitrary: j)
  case (Cons e es)
  then show ?case by (cases j) (auto simp: image_iff)
qed simp

lemma cfg_abs_elem: "names_ok c \<Longrightarrow> e \<in> set (settings_of c) \<Longrightarrow> cfg_abs c (key (cv_name e)) = Some (cv_type e, cv_word e)"
  by (auto simp: in_set_conv_nth cfg_abs_def names_ok_def index_of_nth)

abbreviation string_words :: "cfg_value list \<Rightarrow> u64 list" where
  "string_words es \<equiv> map cv_word (filter (\<lambda>e. cv_type e = cfg_cstr) es)"

lemma release_strs_ok:
  "distinct (string_words es) \<Longrightarrow> set (string_words es) \<subseteq> dom strs - {0} \<Longrightarrow>
     \<exists>strs'. release_strs strs es = Inr strs' \<and> dom strs' = dom strs - set (string_words es)"
proof (induction es arbitrary: strs)
  case (Cons e es)
  show ?case
  proof (cases "cv_type e = cfg_cstr")
    case True
    with Cons.prems have d: "distinct (string_words es)" "cv_word e \<notin> set (string_words es)" by simp_all
    have "set (string_words (e # es)) = insert (cv_word e) (set (string_words es))" using True by simp
    then have "set (string_words es) \<subseteq> dom (strs(cv_word e := None)) - {0}" using Cons.prems(2) d(2)
      unfolding dom_fun_upd by simp blast
    then obtain strs' where "release_strs (strs(cv_word e := None)) es = Inr strs'"
      "dom strs' = dom (strs(cv_word e := None)) - set (string_words es)" using Cons.IH [OF d(1)] by blast
    with True Cons.prems(2) show ?thesis by auto
  qed (use Cons in auto)
qed simp

lemma string_words_ok:
  assumes "cfg_wf c"
  shows "distinct (string_words (settings_of c)) \<and> set (string_words (settings_of c)) = dom (cc_strs c) \<and> 0 \<notin> dom (cc_strs c)"
proof -
  have n: "names_ok c" using assms by (simp add: cfg_wf_def)
  let ?es = "filter (\<lambda>e. cv_type e = cfg_cstr) (settings_of c)"
  have abs: "cfg_abs c (key (cv_name e)) = Some (cfg_cstr, cv_word e)" if "e \<in> set ?es" for e
    using cfg_abs_elem [OF n, of e] that by simp
  have inj: "key (cv_name e) = key (cv_name e')" if "e \<in> set ?es" "e' \<in> set ?es" "cv_word e = cv_word e'" for e e'
    by (rule string_inj [OF assms abs [OF that(1)]]) (simp add: abs [OF that(2)] that(3))
  have "distinct (map (\<lambda>e. key (cv_name e)) ?es)" using n by (simp add: names_ok_def distinct_map_filter)
  then have "distinct ?es" "inj_on cv_word (set ?es)"
    using inj unfolding distinct_map inj_on_def by blast+
  then have d: "distinct (map cv_word ?es)" by (simp add: distinct_map)
  have "w \<in> dom (cc_strs c) \<longleftrightarrow> w \<in> set (map cv_word ?es)" for w
  proof
    assume "w \<in> dom (cc_strs c)"
    then obtain k where "cfg_abs c k = Some (cfg_cstr, w)" using string_owned [OF assms] by blast
    then show "w \<in> set (map cv_word ?es)" using cfg_abs_index [of c k cfg_cstr w] by force
  next
    assume "w \<in> set (map cv_word ?es)"
    then show "w \<in> dom (cc_strs c)" using abs string_live [OF assms] by fastforce
  qed
  moreover have "0 \<notin> dom (cc_strs c)" using string_owned [OF assms, of 0] string_live [OF assms, of _ 0] by blast
  ultimately show ?thesis using d by blast
qed

lemma release_cfg_ok:
  assumes "cfg_wf c"
  shows "\<exists>c'. release_cfg c = Inr c' \<and> cc_strs c' = Map.empty \<and> cc_names c' = 0 \<and> settings_of c' = [] \<and> cfg_wf c' \<and>
    cc_values c' = cc_values c \<and> length (settings_of c) \<le> cc_values c"
proof -
  have n: "vv_wf (cc_vec c)" "fb_wf TMP (cc_tmp c)" "cc_names c = length (settings_of c)" "length (settings_of c) \<le> cc_values c"
    using assms unfolding cfg_wf_def names_ok_def by blast+
  have r: "read_all vv_at (cc_vec c) (vv_size (cc_vec c)) = Inr (settings_of c)"
    using vv.read_all_elems [OF n(1), of "vv_size (cc_vec c)"] n(1) by (simp add: vv_size_def)
  obtain strs where s: "release_strs (cc_strs c) (settings_of c) = Inr strs" "dom strs = {}"
    using release_strs_ok [of "settings_of c" "cc_strs c"] string_words_ok [OF assms] by auto
  let ?c = "c\<lparr>cc_strs := strs, cc_names := 0, cc_vec := vv_clear (cc_vec c)\<rparr>"
  have e: "vv_wf (vv_clear (cc_vec c))" "vv_elems (vv_clear (cc_vec c)) = []" by (simp_all add: vv_clear_def vv_wf_def vv_elems_def)
  then have "cfg_wf ?c" using s(2) n(2) by (simp add: cfg_wf_def names_ok_def cfg_abs_def)
  with r s e n(3,4) show ?thesis by (simp add: release_cfg_def)
qed

section \<open>A concrete environment\<close>

text \<open>An allocator that takes the first free address, and the store that the constructor gives.\<close>

fun first_free :: "nat \<Rightarrow> (u64 \<rightharpoonup> byte list) \<Rightarrow> u64 option" where
  "first_free 0 strs = None"
| "first_free (Suc n) strs = (if strs (word_of_nat (Suc n)) = None then Some (word_of_nat (Suc n)) else first_free n strs)"

definition demo_env :: cfg_env where
  "demo_env = \<lparr>ce_heap = \<lparr>can_alloc = \<lambda>_. True, fresh = \<lambda>_. 0\<rparr>, ce_new = \<lambda>strs _. first_free 4294967296 strs, ce_garbage = 77,
     ce_fmt_f = \<lambda>_. [48], ce_atof = \<lambda>_. 0\<rparr>"

definition empty_cfg :: core_cfg where
  "empty_cfg = \<lparr>cc_vec = \<lparr>vv_cells = [None], vv_end = 0, vv_grown = 2\<rparr>, cc_strs = Map.empty, cc_tmp = fb_new TMP, cc_names = 0, cc_values = 0\<rparr>"

lemma first_free_Some: "first_free n strs = Some a \<Longrightarrow> n < 2 ^ 64 \<Longrightarrow> a \<noteq> 0 \<and> strs a = None"
proof (induction n)
  case (Suc n)
  have "unat (word_of_nat (Suc n) :: u64) = Suc n" by (rule unat_of_nat_small) (use Suc.prems(2) in simp)
  then have "(word_of_nat (Suc n) :: u64) \<noteq> 0" by (metis nat.distinct(1) unsigned_0)
  with Suc show ?case by (auto split: if_splits)
qed simp

lemma first_free_None: "first_free n strs = None \<Longrightarrow> n < 2 ^ 64 \<Longrightarrow> n \<le> card (dom strs)"
proof -
  assume n: "first_free n strs = None" "n < 2 ^ 64"
  have "word_of_nat ` {1..n} \<subseteq> dom strs" using n(1)
    by (induction n) (auto simp: atLeastAtMostSuc_conv split: if_splits)
  moreover have "inj_on (word_of_nat :: nat \<Rightarrow> u64) {1..n}"
    using n(2) by (auto intro!: inj_onI dest: arg_cong [where f = unat] simp: unat_of_nat_small)
  ultimately have "card {1..n} \<le> card (dom strs)" by (metis card_image card_mono finite)
  then show ?thesis by simp
qed

lemma demo_env_ok: "env_ok demo_env"
proof -
  have "ce_new demo_env strs n \<noteq> None" if "card (dom strs) < 4294967296" for strs n
    using first_free_None [of 4294967296 strs] that by (auto simp: demo_env_def)
  moreover have "a \<noteq> 0 \<and> strs a = None" if "ce_new demo_env strs n = Some a" for strs n a
    using first_free_Some [of 4294967296 strs a] that by (simp add: demo_env_def)
  ultimately show ?thesis unfolding env_ok_def by blast
qed

lemma empty_cfg_new: "cfg_new demo_env = Inr empty_cfg"
  by (simp add: cfg_new_def vv_new_def demo_env_def empty_cfg_def vv_set_grown_def)

lemma empty_cfg_abs: "cfg_abs empty_cfg k = None" "settings_of empty_cfg = []"
  by (simp_all add: cfg_abs_def empty_cfg_def vv_elems_def)

lemma empty_cfg_ok: "cfg_ok demo_env empty_cfg" "n \<le> 1000 \<Longrightarrow> cfg_space demo_env empty_cfg n" "usable t empty_cfg k"
proof -
  have "names_ok empty_cfg" by (simp add: names_ok_def empty_cfg_abs) (simp add: empty_cfg_def vv_wf_def)
  moreover have "fb_wf TMP (cc_tmp empty_cfg)" using fb_new_wf [of TMP] by (simp add: empty_cfg_def TMP_def SIZE_MOD_def)
  moreover have "dom (cc_strs empty_cfg) = {}" by (simp add: empty_cfg_def)
  ultimately show "cfg_ok demo_env empty_cfg" using demo_env_ok by (simp add: cfg_ok_def cfg_wf_def empty_cfg_abs)
  show "n \<le> 1000 \<Longrightarrow> cfg_space demo_env empty_cfg n"
    by (simp add: cfg_space_def cfg_room_def demo_env_def empty_cfg_def INT_MAX_def)
  show "usable t empty_cfg k" by (simp add: usable_def empty_cfg_abs)
qed

section \<open>Properties\<close>

text \<open>
  C23: Releasing a store in which every name was used at one type frees every string and every name of a setting, each of them once, and
  leaves no string and no name alive; the store is then an empty store again.  The structures of the settings are not freed:
  as many are in memory afterwards as before, at least one for each setting that was there.
\<close>

theorem cfg_release_frees_all:
  assumes "cfg_wf c"
  shows "\<exists>c'. release_cfg c = Inr c' \<and> cc_strs c' = Map.empty \<and> cc_names c' = 0 \<and> settings_of c' = [] \<and> cfg_wf c' \<and>
    cc_values c' = cc_values c \<and> length (settings_of c) \<le> cc_values c"
  using assms by (rule release_cfg_ok)

theorem cfg_release_frees_all_witness:
  "\<exists>c c'. setter (SetCString demo_env empty_cfg [105, 112] None [49]) = Inr c \<and> release_cfg c = Inr c' \<and>
    cc_strs c' = Map.empty \<and> cc_names c' = 0 \<and> settings_of c' = [] \<and> cfg_wf c' \<and> cc_values c' = cc_values c"
proof -
  have "string_ok [49]" by (simp add: string_ok_def SIZE_MOD_def)
  then obtain c where "setter (SetCString demo_env empty_cfg [105, 112] None [49]) = Inr c" "cfg_ok demo_env c"
    using str_settings.set_ok [OF empty_cfg_ok(1,2), of 0 "[105, 112]" "[49]"] empty_cfg_ok(3) by auto
  with cfg_release_frees_all [of c] show ?thesis by (auto simp: cfg_ok_def)
qed

text \<open>
  C21: Whatever sequence of strings without zero bytes is stored in a well-formed store with room for them, under names that are new or
  hold strings, reading a name in any
  spelling (upper or lower case) gives the string that was last stored under it, and the strings under all other names are as before.
  Storing frees the replaced string and no other: afterwards the strings alive are exactly those of the string settings, one for each.
\<close>

theorem cfg_strings_read_back:
  assumes "cfg_ok env c" "cfg_space env c (length nvs)"
    and "\<forall>(name, v) \<in> set nvs. 0 \<notin> set name \<and> string_ok v \<and> usable cfg_cstr c (key name)" "0 \<notin> set name"
    and "map_of (rev (map (\<lambda>(name, v). (key name, v)) nvs)) (key name) = Some v"
  shows "\<exists>c'. set_all (\<lambda>c name v. setter (SetCString env c name None v)) c nvs = Inr c' \<and>
    getter (GetCString env c' name None None d) = Inr (c', v) \<and>
    (\<forall>k. k \<notin> key ` fst ` set nvs \<longrightarrow> str_val c' k = str_val c k) \<and>
    distinct (string_words (settings_of c')) \<and> dom (cc_strs c') = set (string_words (settings_of c'))"
proof -
  let ?new = "map_of (rev (map (\<lambda>(name, v). (key name, v)) nvs))"
  obtain c' where c': "set_all (\<lambda>c name v. setter (SetCString env c name None v)) c nvs = Inr c'" "cfg_ok env c'"
    "str_val c' = str_val c ++ ?new" using str_settings.set_all_val [OF assms(1-3)] by blast
  have "str_val c' (key name) = Some v" using c'(3) assms(5) by simp
  then have "getter (GetCString env c' name None None d) = Inr (c', v)" by (rule str_settings.get_val [OF c'(2) assms(4)])
  moreover have "str_val c' k = str_val c k" if "k \<notin> key ` fst ` set nvs" for k
  proof -
    have "?new k = None" using that by (force simp: map_of_eq_None_iff)
    then show ?thesis using c'(3) by (simp add: map_add_def)
  qed
  ultimately show ?thesis using c'(1,2) string_words_ok [of c'] by (auto simp: cfg_ok_def)
qed

theorem cfg_strings_read_back_witness:
  "\<exists>c'. set_all (\<lambda>c name v. setter (SetCString demo_env c name None v)) empty_cfg [([105, 112], [49]), ([73, 80], [50])] = Inr c' \<and>
    getter (GetCString demo_env c' [105, 112] None None [51]) = Inr (c', [50]) \<and> dom (cc_strs c') = set (string_words (settings_of c'))"
  using cfg_strings_read_back [OF empty_cfg_ok(1), of "[([105, 112], [49]), ([73, 80], [50])]" "[105, 112]" "[50]" "[51]"]
  by (auto simp: empty_cfg_ok string_ok_def SIZE_MOD_def key_def tolower_def)

text \<open>
  C36: A setter does not change the type of an existing setting: an integer stored under a name that holds a
  boolean is not read back, the getter returns its default instead and overwrites the value with it.
\<close>

theorem cfg_type_confusion:
  assumes "cfg_ok env c" "cfg_space env c 2" "0 \<notin> set name" "cfg_abs c (key name) = Some (cfg_b, w)"
  shows "\<exists>c1 c2. setter (SetInt env c name None v) = Inr c1 \<and> getter (GetInt env c1 name None None d) = Inr (c2, d) \<and>
    cfg_abs c1 (key name) = Some (cfg_b, set_word_i v w) \<and> cfg_abs c2 (key name) = Some (cfg_b, set_word_i d (set_word_i v w))"
proof -
  have n: "names_ok c" "cfg_room env c (Suc 1)" using assms by (auto simp: cfg_ok_def cfg_wf_def cfg_space_def numeral_2_eq_2)
  obtain c1 rp1 where c1: "store_setting env c name None cfg_i (set_word_i v) (set_word_i v) = Inr (c1, rp1, Some w)" "names_ok c1"
    "cfg_room env c1 (Suc 0)" "cfg_abs c1 = (cfg_abs c)(key name \<mapsto> (cfg_b, set_word_i v w))"
    using store_setting_ok [OF n(1) assms(3) _ n(2), of None cfg_i "set_word_i v" "set_word_i v"] assms(4) by (auto simp: unset_ref_def)
  have found: "fetch_setting c1 name None None cfg_i = Inr (None, None)"
    using fetch_setting_ok [OF c1(2) assms(3), of None cfg_i] c1(4) by (simp add: unset_ref_def)
  obtain c2 rp where "store_setting env c1 name None cfg_i (set_word_i d) (set_word_i d) = Inr (c2, rp, Some (set_word_i v w))"
    "cfg_abs c2 (key name) = Some (cfg_b, set_word_i d (set_word_i v w))"
    using store_setting_ok [OF c1(2) assms(3) _ c1(3), of None cfg_i "set_word_i d" "set_word_i d"] c1(4) by (auto simp: unset_ref_def)
  with c1 found show ?thesis by (auto simp: SetInt_def GetInt_def setter_def getter_def)
qed

theorem cfg_type_confusion_witness:
  "\<exists>c w c1 c2. setter (SetBool demo_env empty_cfg [97] None True) = Inr c \<and> setter (SetInt demo_env c [97] None 5) = Inr c1 \<and>
    getter (GetInt demo_env c1 [97] None None 9) = Inr (c2, 9) \<and> cfg_abs c2 (key [97]) = Some (cfg_b, set_word_i 9 (set_word_i 5 w))"
proof -
  obtain c where c: "setter (SetBool demo_env empty_cfg [97] None True) = Inr c" "cfg_ok demo_env c" "cfg_space demo_env c 2"
    "view cfg_b word_b c = (view cfg_b word_b empty_cfg)(key [97] \<mapsto> True)"
    using bool_settings.set_ok [OF empty_cfg_ok(1,2), of 2 "[97]" True] empty_cfg_ok(3) by auto
  from c(4) have "view cfg_b word_b c (key [97]) = Some True" by simp
  then obtain w where "cfg_abs c (key [97]) = Some (cfg_b, w)" by (auto simp: view_def split: option.splits if_splits)
  with cfg_type_confusion [OF c(2,3), of "[97]" w 5 9] c(1) show ?thesis by fastforce
qed

end
