(* ===== verification/CoreCfgFile.thy ===== *)
theory CoreCfgFile
  imports CoreCfgProofs
begin

text \<open>
  The text files of the configuration store: \<open>load\<close> reads a file in chunks of up to 1024 bytes and splits it into lines
  \<open>name=value\<close>, \<open>save\<close> writes one line per setting.  A file is the list of its bytes; \<open>fread\<close> gives the next bytes, as
  many as asked for or as are left.  Buffers on the stack are lists of cells, and leaving them is a fault.
\<close>

section \<open>Cutting strings\<close>

record string_parsing =
  sp_length :: nat
  sp_string :: "byte list"
  sp_position :: nat
  sp_isoverlow :: bool

definition CStringParsing :: "byte list \<Rightarrow> nat \<Rightarrow> string_parsing" where
  "CStringParsing str len = \<lparr>sp_length = len, sp_string = str, sp_position = 0, sp_isoverlow = False\<rparr>"

definition sp_Skip :: "string_parsing \<Rightarrow> nat \<Rightarrow> string_parsing" where
  "sp_Skip p offset = p\<lparr>sp_position := sp_position p + offset\<rparr>"

text \<open>\<open>_substring\<close> copies up to the separator, or to the end of the text, into a buffer; it gives the count.\<close>

definition sp_substring ::
  "string_parsing \<Rightarrow> byte list \<Rightarrow> nat \<Rightarrow> byte list option \<Rightarrow> c_fault + (string_parsing \<times> byte list \<times> nat)" where
  "sp_substring p buf len split =
     (if sp_position p \<ge> sp_length p then Inr (p\<lparr>sp_isoverlow := True\<rparr>, buf, 0)
      else
        let rest = drop (sp_position p) (sp_string p);
            k = (case split of
                   None \<Rightarrow> min (len - 1) (sp_length p - sp_position p)
                 | Some s \<Rightarrow> (case strstr rest s of
                      None \<Rightarrow> min (len - 1) (sp_length p - sp_position p)
                    | Some pp \<Rightarrow> min (len - 1) pp)) in
        bindE (mem_write buf 0 (take k rest @ [0])) (\<lambda>buf'. Inr (p, buf', k)))"

definition sp_advance :: "string_parsing \<Rightarrow> nat \<Rightarrow> byte list option \<Rightarrow> string_parsing" where
  "sp_advance p k split =
     (let p1 = p\<lparr>sp_position := sp_position p + k\<rparr> in
      case split of None \<Rightarrow> p1 | Some s \<Rightarrow> if sp_isoverlow p then p1 else p1\<lparr>sp_position := sp_position p1 + length s\<rparr>)"

definition sp_GetString ::
  "string_parsing \<Rightarrow> byte list \<Rightarrow> nat \<Rightarrow> byte list option \<Rightarrow> c_fault + (string_parsing \<times> byte list)" where
  "sp_GetString p buf len split = bindE (sp_substring p buf len split) (\<lambda>(p1, buf', k). Inr (sp_advance p1 k split, buf'))"

definition sp_GetInt :: "string_parsing \<Rightarrow> byte list option \<Rightarrow> c_fault + (string_parsing \<times> u32)" where
  "sp_GetInt p split =
     bindE (sp_substring p (replicate 64 0) 32 split) (\<lambda>(p1, buf, k).
     bindE (c_string buf) (\<lambda>s. bindE (atoi s) (\<lambda>v. Inr (sp_advance p1 k split, v))))"

definition sp_GetFloat :: "cfg_env \<Rightarrow> string_parsing \<Rightarrow> byte list option \<Rightarrow> c_fault + (string_parsing \<times> u32)" where
  "sp_GetFloat env p split =
     bindE (sp_substring p (replicate 64 0) 32 split) (\<lambda>(p1, buf, k).
     bindE (c_string buf) (\<lambda>s. Inr (sp_advance p1 k split, ce_atof env s)))"

section \<open>Reading a value\<close>

text \<open>\<open>_isnumber\<close> on the cells of the value: one point and one sign at most, at any place.\<close>

fun isnumber_loop :: "nat \<Rightarrow> nat \<Rightarrow> byte list \<Rightarrow> c_fault + bool" where
  "isnumber_loop d c [] = Inl OutOfBounds"
| "isnumber_loop d c (x # xs) =
     (if x = 0 then Inr True
      else if x = 46 then (if c + 1 \<ge> 2 then Inr False else isnumber_loop d (c + 1) xs)
      else if 48 \<le> x \<and> x \<le> 57 then isnumber_loop d c xs
      else if x = 45 \<or> x = 43 then (if d \<ge> 1 then Inr False else isnumber_loop (d + 1) c xs)
      else Inr False)"

definition isnumber :: "byte list \<Rightarrow> c_fault + bool" where
  "isnumber v = (case v of [] \<Rightarrow> Inl OutOfBounds | x # _ \<Rightarrow> if x = 0 then Inr False else isnumber_loop 0 0 v)"

text \<open>\<open>strcmp\<close> of cells with a literal, as far as it reads.\<close>

fun cells_eq :: "byte list \<Rightarrow> byte list \<Rightarrow> c_fault + bool" where
  "cells_eq [] lit = Inl OutOfBounds"
| "cells_eq (x # xs) [] = Inr (x = 0)"
| "cells_eq (x # xs) (l # ls) = (if x = l then cells_eq xs ls else Inr False)"

text \<open>The text between quotes: a backslash before a quote stands for the quote.\<close>

fun unquote :: "byte list \<Rightarrow> c_fault + byte list" where
  "unquote [] = Inl OutOfBounds"
| "unquote (x # xs) =
     (if x = 0 then Inr []
      else if x = 92 then
        (case xs of
           [] \<Rightarrow> Inl OutOfBounds
         | y # ys \<Rightarrow> if y = 34 then bindE (unquote ys) (\<lambda>v. Inr (34 # v)) else bindE (unquote xs) (\<lambda>v. Inr (92 # v)))
      else if x = 34 then Inr []
      else bindE (unquote xs) (\<lambda>v. Inr (x # v)))"

definition atol :: "byte list \<Rightarrow> c_fault + u32" where
  "atol s = bindE (atoll (chars s)) (\<lambda>v. Inr (ucast v))"

text \<open>The cells where the name begins: line ends and tabs before it are skipped.\<close>

definition skip_name :: "byte list \<Rightarrow> byte list" where
  "skip_name cells = dropWhile (\<lambda>c. c = 10 \<or> c = 13 \<or> c = 9) cells"

text \<open>
  The setting of a line, from the cells of its name and of its value: a boolean, a number, a quoted string, a number with
  a type letter, or the text as it is.
\<close>

definition load_value :: "cfg_env \<Rightarrow> core_cfg \<Rightarrow> byte list \<Rightarrow> byte list \<Rightarrow> c_fault + core_cfg" where
  "load_value env c name p =
     bindE (cells_eq p (bytes ''true'')) (\<lambda>is_true.
     if is_true then bindE (c_string name) (\<lambda>n. setter (SetBool env c n None True))
     else
     bindE (cells_eq p (bytes ''false'')) (\<lambda>is_false.
     if is_false then bindE (c_string name) (\<lambda>n. setter (SetBool env c n None False))
     else
     bindE (isnumber p) (\<lambda>is_num.
     if is_num then
       bindE (c_string p) (\<lambda>s.
       bindE (c_string name) (\<lambda>n.
         if strstr s [46] \<noteq> None then setter (SetFloat env c n None (ce_atof env s))
         else bindE (atoi s) (\<lambda>v. setter (SetInt env c n None v))))
     else if hd p = 34 then
       bindE (unquote (tl p)) (\<lambda>v.
       bindE (mem_write (replicate 512 0) 0 v) (\<lambda>cells.
       bindE (c_string cells) (\<lambda>v'.
       bindE (c_string name) (\<lambda>n. setter (SetCString env c n None v')))))
     else
     bindE (if hd p = 102 then isnumber (tl p) else Inr False) (\<lambda>is_f.
     if is_f then bindE (c_string (tl p)) (\<lambda>s. bindE (c_string name) (\<lambda>n. setter (SetFloat env c n None (ce_atof env s))))
     else
     bindE (if hd p = 105 then isnumber (tl p) else Inr False) (\<lambda>is_i.
     if is_i then
       bindE (c_string (tl p)) (\<lambda>s. bindE (c_string name) (\<lambda>n. bindE (atoi s) (\<lambda>v. setter (SetInt env c n None v))))
     else
     bindE (if hd p = 117 then isnumber (tl p) else Inr False) (\<lambda>is_u.
     if is_u then
       bindE (c_string (tl p)) (\<lambda>s. bindE (c_string name) (\<lambda>n. bindE (atol s) (\<lambda>v. setter (SetInt env c n None v))))
     else
       bindE (c_string p) (\<lambda>s. bindE (c_string name) (\<lambda>n. setter (SetCString env c n None s)))))))))"

section \<open>Reading a file\<close>

text \<open>
  One line, from the text at \<open>prev\<close>: it is cut at the line end, its name and value are copied into arrays of 256 bytes.  The
  loop that should skip blanks of the value runs before the value is copied and skips nothing.
\<close>

definition load_line :: "cfg_env \<Rightarrow> core_cfg \<Rightarrow> byte list \<Rightarrow> byte list \<Rightarrow> c_fault + core_cfg" where
  "load_line env c prev sep =
     bindE (sp_GetString (CStringParsing prev (length prev)) (replicate 2048 0) 1023 (Some sep)) (\<lambda>(_, line_cells).
     bindE (c_string line_cells) (\<lambda>line.
       case strstr line [61] of
         None \<Rightarrow> Inr c
       | Some eq \<Rightarrow>
           bindE (mem_write (replicate 256 0) 0 (take eq line)) (\<lambda>name.
           bindE (mem_write (replicate 256 0) 0 (drop (eq + 1) line)) (\<lambda>value.
             load_value env c (skip_name name) value))))"

text \<open>
  The lines of the buffer, from \<open>prev\<close> with the line end at \<open>pp\<close>; what follows the last line end is moved to the front.  The
  result is the store, the buffer and the number of bytes kept.
\<close>

function load_lines ::
  "cfg_env \<Rightarrow> byte list \<Rightarrow> core_cfg \<Rightarrow> byte list \<Rightarrow> nat \<Rightarrow> nat \<Rightarrow> c_fault + (core_cfg \<times> byte list \<times> nat)" where
  "load_lines env sep c buf prev pp =
     bindE (c_string (drop prev buf)) (\<lambda>text1.
     bindE (load_line env c text1 sep) (\<lambda>c1.
       let prev1 = pp + length sep in
       if prev1 \<le> prev then Inl Diverges
       else
         bindE (c_string (drop prev1 buf)) (\<lambda>text2.
           case strstr text2 sep of
             None \<Rightarrow>
               bindE (mem_write buf 0 (text2 @ [0])) (\<lambda>buf1. Inr (c1, buf1, length text2))
           | Some k \<Rightarrow> load_lines env sep c1 buf prev1 (prev1 + k))))"
  by pat_completeness auto
termination
proof (relation "measure (\<lambda>(env, sep, c, buf, prev, pp). length buf - prev)", simp)
  fix env sep c buf prev pp text1 c1 prev1 text2 k
  assume "c_string (drop prev buf) = Inr text1" "prev1 = pp + length sep" "\<not> prev1 \<le> prev"
  moreover from this(1) have "prev < length buf" using c_string_InrD [of "drop prev buf" text1] by (cases "prev < length buf") auto
  ultimately show "((env, sep, c1, buf, prev1, prev1 + k), env, sep, c, buf, prev, pp)
      \<in> measure (\<lambda>(env, sep, c, buf, prev, pp). length buf - prev)" by auto
qed

declare load_lines.simps [simp del]

text \<open>
  The chunks of the file.  A chunk that does not end in a line end gets one, if there is room, but no terminator after it.
  The line end is that of the whole chunk: CR LF where there is one, else LF.
\<close>

function load_chunks :: "cfg_env \<Rightarrow> core_cfg \<Rightarrow> byte list \<Rightarrow> nat \<Rightarrow> byte list \<Rightarrow> c_fault + core_cfg" where
  "load_chunks env c buf offset file =
     (if offset > 1024 then Inl OutOfBounds
      else
        let got = take (1024 - offset) file; n = offset + length got in
        if got = [] then Inr c
        else
          bindE (mem_write buf offset got) (\<lambda>buf1.
          bindE (c_string buf1) (\<lambda>_.
          bindE (mem_write buf1 n [0]) (\<lambda>buf2.
          bindE (if n + 2 < 1024 \<and> buf2 ! (n - 1) \<noteq> 10 then mem_write buf2 n [13, 10] else Inr buf2) (\<lambda>buf3.
          bindE (c_string buf3) (\<lambda>text1.
          let found = strstr text1 [13, 10];
              is_unix = (found = None);
              sep = (if is_unix then [10] else [13, 10]) in
          case (if is_unix then strstr text1 [10] else found) of
            None \<Rightarrow> load_chunks env c buf3 offset (drop (length got) file)
          | Some pp \<Rightarrow>
              bindE (load_lines env sep c buf3 0 pp) (\<lambda>(c1, buf4, offset1).
                load_chunks env c1 buf4 offset1 (drop (length got) file))))))))"
  by pat_completeness auto
termination by (relation "measure (\<lambda>(env, c, buf, offset, file). length file)") (auto split: if_splits)

declare load_chunks.simps [simp del]

definition load_cfg :: "cfg_env \<Rightarrow> core_cfg \<Rightarrow> byte list option \<Rightarrow> c_fault + (core_cfg \<times> bool)" where
  "load_cfg env c file =
     (case file of
        None \<Rightarrow> Inr (c, False)
      | Some content \<Rightarrow> bindE (load_chunks env c (replicate 2048 0) 0 content) (\<lambda>c1. Inr (c1, True)))"

section \<open>Writing a file\<close>

fun convert :: "byte list \<Rightarrow> byte list" where
  "convert [] = []"
| "convert (x # xs) = (if x = 34 then 92 # 34 # convert xs else x # convert xs)"

text \<open>
  The text of one setting in the array \<open>buf\<close>; a string is converted in the scratch buffer first.  A pointer setting prints
  nothing, so \<open>buf\<close> keeps the text of the setting before it.
\<close>

definition save_line :: "cfg_env \<Rightarrow> core_cfg \<Rightarrow> byte list \<Rightarrow> cfg_value \<Rightarrow> c_fault + (core_cfg \<times> byte list)" where
  "save_line env c buf e =
     (let print = (\<lambda>c s. bindE (mem_write buf 0 (cv_name e @ [61] @ s @ [13, 10, 0])) (\<lambda>buf'. Inr (c, buf'))) in
      case cv_type e of
        cfg_cstr \<Rightarrow>
          bindE (fb_grow (ce_heap env) TMP (cc_tmp c) 512) (\<lambda>t1.
          bindE (case cc_strs c (cv_word e) of None \<Rightarrow> Inl UseAfterFree | Some s \<Rightarrow> Inr s) (\<lambda>s.
          bindE (fb_store TMP t1 0 (convert s @ [0])) (\<lambda>t2.
            print (c\<lparr>cc_tmp := t2\<rparr>) ([34] @ convert s @ [34]))))
      | cfg_b \<Rightarrow> print c (if word_b (cv_word e) then bytes ''true'' else bytes ''false'')
      | cfg_f \<Rightarrow> print c ([102] @ ce_fmt_f env (word_i (cv_word e)))
      | cfg_i \<Rightarrow> print c ([105] @ bytes (show_int (sint (word_i (cv_word e)))))
      | cfg_u \<Rightarrow> print c ([117] @ bytes (show_int (uint (word_i (cv_word e)))))
      | _ \<Rightarrow> Inr (c, buf))"

fun save_loop :: "cfg_env \<Rightarrow> core_cfg \<Rightarrow> byte list \<Rightarrow> byte list \<Rightarrow> cfg_value list \<Rightarrow> c_fault + (core_cfg \<times> byte list)" where
  "save_loop env c buf out [] = Inr (c, out)"
| "save_loop env c buf out (e # es) =
     bindE (save_line env c buf e) (\<lambda>(c1, buf1).
     bindE (c_string buf1) (\<lambda>s. save_loop env c1 buf1 (out @ s) es))"

text \<open>\<open>save\<close>: the bytes written to the file, if it could be opened.\<close>

definition save_cfg :: "cfg_env \<Rightarrow> core_cfg \<Rightarrow> bool \<Rightarrow> c_fault + (core_cfg \<times> byte list option)" where
  "save_cfg env c opened =
     (if \<not> opened then Inr (c, None)
      else
        bindE (read_all vv_at (cc_vec c) (vv_size (cc_vec c))) (\<lambda>es.
        bindE (save_loop env c (replicate 1024 0) [] es) (\<lambda>(c1, out). Inr (c1, Some out))))"

end
