(* ===== verification/CoreCfgTermination.thy ===== *)
theory CoreCfgTermination
  imports CoreCfgFile
begin

text \<open>
  \<open>load\<close> returns for every file: the loop over the lines moves forward in the buffer in every round, and every chunk takes
  bytes from the file.  A round that did not move forward is the fault \<open>Diverges\<close> in the model of the loop, so
  that it returns is that this fault does not arise.
\<close>

definition ends :: "c_fault + 'a \<Rightarrow> bool" where
  "ends r \<longleftrightarrow> r \<noteq> Inl Diverges"

named_theorems ends_intros

lemma ends_Inr [simp, ends_intros]: "ends (Inr x)"
  by (simp add: ends_def)

lemma ends_Inl [simp]: "ends (Inl e) \<longleftrightarrow> e \<noteq> Diverges"
  by (simp add: ends_def)

lemma ends_bindE [ends_intros]: "ends m \<Longrightarrow> (\<And>x. m = Inr x \<Longrightarrow> ends (f x)) \<Longrightarrow> ends (bindE m f)"
  by (cases m) (auto simp: ends_def)

lemma ends_if [ends_intros]: "(b \<Longrightarrow> ends x) \<Longrightarrow> (\<not> b \<Longrightarrow> ends y) \<Longrightarrow> ends (if b then x else y)"
  by simp

lemma ends_prod [ends_intros]: "(\<And>a b. x = (a, b) \<Longrightarrow> ends (f a b)) \<Longrightarrow> ends (case x of (a, b) \<Rightarrow> f a b)"
  by (cases x) simp

lemma ends_option [ends_intros]: "(x = None \<Longrightarrow> ends n) \<Longrightarrow> (\<And>a. x = Some a \<Longrightarrow> ends (s a)) \<Longrightarrow> ends (case x of None \<Rightarrow> n | Some a \<Rightarrow> s a)"
  by (cases x) simp_all

lemma ends_list [ends_intros]: "(x = [] \<Longrightarrow> ends n) \<Longrightarrow> (\<And>a as. x = a # as \<Longrightarrow> ends (s a as)) \<Longrightarrow> ends (case x of [] \<Rightarrow> n | a # as \<Rightarrow> s a as)"
  by (cases x) simp_all

lemma ends_Let [ends_intros]: "(\<And>y. y = x \<Longrightarrow> ends (f y)) \<Longrightarrow> ends (let y = x in f y)"
  by simp

section \<open>Memory and library functions\<close>

lemma ends_memory [ends_intros]:
  "ends (mem_read xs i n)" "ends (mem_write xs i ys)" "ends (mem_get xs i)"
  by (simp_all add: mem_read_def mem_write_def mem_get_def)

lemma ends_strlen [ends_intros]: "ends (c_string xs)" "ends (strlen xs)" "ends (atoll s)" "ends (atoi t)" "ends (atol t)"
  by (auto simp: c_string_def strlen_def atoll_def atoi_def atol_def intro!: ends_intros)

lemma ends_containers [ends_intros]:
  "ends (vv_at v i)" "ends (vv_put v i x)" "ends (vv_grow h v)" "ends (push_back h v x)"
  by (auto simp: vv_at_def vv_put_def vv_grow_def push_back_def Let_def intro!: ends_intros)

lemma ends_buffer [ends_intros]: "ends (fb_load C b i n)" "ends (fb_store C b i zs)" "ends (fb_setcplen C b n)" "ends (fb_new_cells h n)" "ends (fb_grow h C b n)"
  by (auto simp: fb_load_def fb_store_def fb_setcplen_def fb_new_cells_def fb_grow_def intro!: ends_intros)

section \<open>The store\<close>

lemma ends_tolower_loop [ends_intros]: "ends (tolower_loop cs buf i n)"
  by (induction cs buf i n rule: tolower_loop.induct) (auto intro!: ends_intros)

lemma ends_tolower_buf [ends_intros]: "ends (tolower_buf name buf n)"
  by (auto simp: tolower_buf_def intro!: ends_intros)

lemma ends_Ref_loop [ends_intros]: "ends (Ref_loop v name al buf1 buf2 i)"
proof (induction "vv_size v - i" arbitrary: buf1 buf2 i rule: less_induct)
  case less
  have "ends (Ref_loop v name al buf1 buf2 (i + 1))" if "i < vv_size v" for buf1 buf2 using less that by simp
  then show ?case by (subst Ref_loop.simps) (intro ends_intros)
qed

lemma ends_store [ends_intros]:
  "ends (pick_ref c name rp al)" "ends (add_setting env c name t w rp)" "ends (store_setting env c name rp t init upd)" "ends (cpstr env strs s)"
  by (auto simp: pick_ref_def Ref_def add_setting_def store_setting_def cpstr_def Let_def intro!: ends_intros)

lemma ends_setters [ends_intros]:
  "ends (SetInt env c n rp i)" "ends (SetFloat env c n rp i)" "ends (SetBool env c n rp b)" "ends (SetCString env c n rp s)"
  by (auto simp: SetInt_def SetFloat_def SetBool_def SetCString_def Let_def intro!: ends_intros)

lemma ends_setter [ends_intros]: "ends r \<Longrightarrow> ends (setter r)"
  by (auto simp: setter_def intro!: ends_intros)

section \<open>Lines and chunks\<close>

lemma ends_isnumber_loop [ends_intros]: "ends (isnumber_loop d k v)"
  by (induction d k v rule: isnumber_loop.induct) (auto intro!: ends_intros)

lemma ends_cells_eq [ends_intros]: "ends (cells_eq v w)"
  by (induction v w rule: cells_eq.induct) (auto intro!: ends_intros)

lemma ends_isnumber [ends_intros]: "ends (isnumber v)"
  by (cases v) (auto simp: isnumber_def intro!: ends_intros)

lemma ends_unquote [ends_intros]: "ends (unquote v)"
proof (induction "length v" arbitrary: v rule: less_induct)
  case less
  show ?case
  proof (cases v)
    case (Cons x xs)
    have "ends (unquote xs)" "xs = y # ys \<Longrightarrow> ends (unquote ys)" for y ys using less Cons by simp_all
    then show ?thesis unfolding Cons unquote.simps(2) by (intro ends_intros) auto
  qed simp
qed

lemma ends_load_value [ends_intros]: "ends (load_value env c name v)"
  unfolding load_value_def by (intro ends_intros)

lemma ends_sp [ends_intros]: "ends (sp_substring p buf n split)" "ends (sp_GetString p buf n split)"
  by (auto simp: sp_substring_def sp_GetString_def Let_def intro!: ends_intros)

lemma ends_load_line [ends_intros]: "ends (load_line env c prev sep)"
  unfolding load_line_def by (intro ends_intros)

text \<open>The line end that is looked for lies at or behind the start of the line.\<close>

lemma ends_load_lines: "sep \<noteq> [] \<Longrightarrow> prev \<le> pp \<Longrightarrow> ends (load_lines env sep c buf prev pp)"
proof (induction "length buf - prev" arbitrary: c prev pp rule: less_induct)
  case less
  have fwd: "\<not> pp + length sep \<le> prev" using less.prems by (cases sep) auto
  have "ends (load_lines env sep c1 buf (pp + length sep) (pp + length sep + k))" if "c_string (drop prev buf) = Inr t" for c1 k t
  proof -
    have "prev < length buf" using c_string_InrD [OF that] by (cases "prev < length buf") auto
    with fwd less.hyps [of "pp + length sep"] less.prems(1) show ?thesis by simp
  qed
  then show ?case using fwd by (subst load_lines.simps) (intro ends_intros; simp)
qed

lemma ends_load_chunks [ends_intros]: "ends (load_chunks env c buf offset bs)"
proof (induction "length bs" arbitrary: c buf offset bs rule: less_induct)
  case less
  have "ends (load_chunks env c' buf' offset' (drop (length (take (1024 - offset) bs)) bs))" if "take (1024 - offset) bs \<noteq> []" for c' buf' offset'
    by (rule less) (use that in auto)
  then show ?case by (subst load_chunks.simps) (intro ends_intros ends_load_lines; simp)
qed

section \<open>Property\<close>

text \<open>
  C22: Loading a configuration file comes to an end whatever the file holds and whatever the store holds: no
  round of the loop over lines stays where it was.
\<close>

theorem cfg_load_ends: "load_cfg env c content \<noteq> Inl Diverges"
proof -
  have "ends (load_cfg env c content)" unfolding load_cfg_def by (intro ends_intros)
  then show ?thesis by (simp add: ends_def)
qed

end
