(* ===== verification/Snapshot.thy ===== *)
theory Snapshot
  imports CLib "HOL-Library.AList"
begin

text \<open>
  The heap snapshot of \<open>lae/source/snapshot.c\<close>: a walk over all Lua objects from the registry that records, for every object it
  meets, who refers to it and how, in the tables of a second Lua state \<open>dL\<close>, and then prints the records.  The Lua
  heap is a parameter: a function from pointers to objects, as the Lua 5.1 API shows them.  The walk works on the stacks of
  the states it is in, and what it has pushed there is part of the model: it decides when \<open>luaL_checkstack\<close> raises an error, and
  it is what the walk meets when it comes from another thread to the running one.
\<close>

section \<open>The Lua heap\<close>

type_synonym ptr = u64

text \<open>A number carries the text that \<open>%lg\<close> gives for it.\<close>

datatype sval = SNil | SBool bool | SNum "byte list" | SStr "byte list" | SLight ptr | SObj ptr

record lua_table =
  tb_meta :: "ptr option"
  tb_entries :: "(sval \<times> sval) list"

record lua_userdata =
  ud_meta :: "ptr option"
  ud_value :: sval

record lua_function =
  fn_env :: sval
  fn_upvalues :: "(byte list \<times> sval) list"
  fn_c :: bool
  fn_src :: "byte list"
  fn_line :: int

record lua_frame =
  fr_src :: "byte list"
  fr_line :: int
  fr_locals :: "(byte list \<times> sval) list"

record lua_thread =
  th_stack :: "sval list"
  th_frames :: "lua_frame list"

datatype lua_object = Table lua_table | Userdata lua_userdata | Function lua_function | Thread lua_thread

type_synonym lua_heap = "ptr \<Rightarrow> lua_object"

text \<open>The tables of \<open>dL\<close>; \<open>ptr_text\<close> is the text of \<open>%p\<close>.\<close>

datatype tidx = TABLE | FUNCTION | THREAD | USERDATA

record snap =
  sn_objs :: "tidx \<Rightarrow> ptr \<Rightarrow> (ptr \<times> byte list) list option"
  sn_source :: "ptr \<Rightarrow> byte list option"
  sn_mark :: "ptr set"

type_synonym ptr_text = "ptr \<Rightarrow> byte list"

definition tidx_of :: "lua_object \<Rightarrow> tidx" where
  "tidx_of obj = (case obj of Table _ \<Rightarrow> TABLE | Userdata _ \<Rightarrow> USERDATA | Function _ \<Rightarrow> FUNCTION | Thread _ \<Rightarrow> THREAD)"

section \<open>Recording an object\<close>

definition ismarked :: "snap \<Rightarrow> ptr \<Rightarrow> snap \<times> bool" where
  "ismarked sn p = (if p \<in> sn_mark sn then (sn, True) else (sn\<lparr>sn_mark := insert p (sn_mark sn)\<rparr>, False))"

text \<open>\<open>lua_rawsetp\<close> into one of the tables, and into the record of an object.\<close>

definition put_obj :: "snap \<Rightarrow> tidx \<Rightarrow> ptr \<Rightarrow> (ptr \<times> byte list) list \<Rightarrow> snap" where
  "put_obj sn t p refs = sn\<lparr>sn_objs := (sn_objs sn)(t := (sn_objs sn t)(p \<mapsto> refs))\<rparr>"

text \<open>An object that is met again gets one more referrer; the result is the pointer of an object that is met first.\<close>

definition readobject :: "lua_heap \<Rightarrow> snap \<Rightarrow> sval \<Rightarrow> ptr \<Rightarrow> byte list \<Rightarrow> snap \<times> ptr option" where
  "readobject hp sn v parent desc =
     (case v of
        SObj p \<Rightarrow>
          let t = tidx_of (hp p) in
          (case ismarked sn p of
             (sn1, True) \<Rightarrow>
               (case sn_objs sn1 t p of
                  None \<Rightarrow> (sn1, None)
                | Some refs \<Rightarrow> (put_obj sn1 t p (AList.update parent desc refs), None))
           | (sn1, False) \<Rightarrow> (put_obj sn1 t p [(parent, desc)], Some p))
      | _ \<Rightarrow> (sn, None))"

section \<open>What an object refers to\<close>

text \<open>The text of a \<open>sprintf\<close> into an array of \<open>n\<close> bytes.\<close>

definition sprintf_to :: "nat \<Rightarrow> byte list \<Rightarrow> c_fault + byte list" where
  "sprintf_to n s = (if length s < n then Inr s else Inl OutOfBounds)"

definition typename :: "lua_heap \<Rightarrow> sval \<Rightarrow> byte list" where
  "typename hp v =
     (case v of
        SNil \<Rightarrow> bytes ''nil'' | SBool _ \<Rightarrow> bytes ''boolean'' | SNum _ \<Rightarrow> bytes ''number'' | SStr _ \<Rightarrow> bytes ''string''
      | SLight _ \<Rightarrow> bytes ''userdata''
      | SObj p \<Rightarrow> (case tidx_of (hp p) of TABLE \<Rightarrow> bytes ''table'' | FUNCTION \<Rightarrow> bytes ''function'' | THREAD \<Rightarrow> bytes ''thread''
          | USERDATA \<Rightarrow> bytes ''userdata''))"

text \<open>\<open>keystring\<close>, into an array of 32 bytes; a string stands for itself up to its first NUL.\<close>

definition keystring :: "ptr_text \<Rightarrow> lua_heap \<Rightarrow> sval \<Rightarrow> c_fault + byte list" where
  "keystring pt hp v =
     (case v of
        SStr s \<Rightarrow> Inr (takeWhile (\<lambda>c. c \<noteq> 0) s)
      | SNum s \<Rightarrow> sprintf_to 32 ([91] @ s @ [93])
      | SBool b \<Rightarrow> sprintf_to 32 ([91] @ (if b then bytes ''true'' else bytes ''false'') @ [93])
      | SNil \<Rightarrow> sprintf_to 32 (bytes ''[nil]'')
      | SLight p \<Rightarrow> sprintf_to 32 ([91] @ typename hp v @ [58] @ pt p @ [93])
      | SObj p \<Rightarrow> sprintf_to 32 ([91] @ typename hp v @ [58] @ pt p @ [93]))"

text \<open>The mode of a weak table, from the \<open>__mode\<close> of its metatable: weak keys, weak values.\<close>

definition weak_mode :: "lua_heap \<Rightarrow> ptr option \<Rightarrow> bool \<times> bool" where
  "weak_mode hp meta =
     (case meta of
        None \<Rightarrow> (False, False)
      | Some m \<Rightarrow>
          (case hp m of
             Table mt \<Rightarrow>
               (case map_of (tb_entries mt) (SStr (bytes ''__mode'')) of
                  Some (SStr s) \<Rightarrow> (107 \<in> set (takeWhile (\<lambda>c. c \<noteq> 0) s), 118 \<in> set (takeWhile (\<lambda>c. c \<noteq> 0) s))
                | _ \<Rightarrow> (False, False))
           | _ \<Rightarrow> (False, False)))"

text \<open>
  A reference that a function marks: how it is described, the value it pushes, what lies on the stack between the object and
  that value (the key, in the loop over a table), and whether the stack is checked before, as \<open>mark_object\<close> does and
  \<open>mark_userdata\<close> does not.
\<close>

record reference =
  rf_desc :: "c_fault + byte list"
  rf_value :: sval
  rf_below :: "sval list"
  rf_checked :: bool

definition checked_ref :: "byte list \<Rightarrow> sval \<Rightarrow> reference" where
  "checked_ref desc v = \<lparr>rf_desc = Inr desc, rf_value = v, rf_below = [], rf_checked = True\<rparr>"

text \<open>
  The references of each kind of object, in the order in which they are marked.  The loop over the entries of a table marks the value
  unless values are weak, then the key unless keys are.
\<close>

definition entry_refs :: "ptr_text \<Rightarrow> lua_heap \<Rightarrow> bool \<Rightarrow> bool \<Rightarrow> sval \<times> sval \<Rightarrow> reference list" where
  "entry_refs pt hp weakk weakv kv =
     (if weakv then [] else [\<lparr>rf_desc = keystring pt hp (fst kv), rf_value = snd kv, rf_below = [fst kv], rf_checked = True\<rparr>]) @
     (if weakk then [] else [\<lparr>rf_desc = Inr (bytes ''[key]''), rf_value = fst kv, rf_below = [fst kv], rf_checked = True\<rparr>])"

definition meta_refs :: "bool \<Rightarrow> ptr option \<Rightarrow> reference list" where
  "meta_refs checked meta =
     (case meta of None \<Rightarrow> [] | Some m \<Rightarrow> [(checked_ref (bytes ''[metatable]'') (SObj m))\<lparr>rf_checked := checked\<rparr>])"

definition table_refs :: "ptr_text \<Rightarrow> lua_heap \<Rightarrow> lua_table \<Rightarrow> reference list" where
  "table_refs pt hp tb =
     (let (weakk, weakv) = weak_mode hp (tb_meta tb) in
      meta_refs True (tb_meta tb) @ concat (map (entry_refs pt hp weakk weakv) (tb_entries tb)))"

definition userdata_refs :: "lua_userdata \<Rightarrow> reference list" where
  "userdata_refs ud =
     meta_refs False (ud_meta ud) @
     (if ud_value ud = SNil then [] else [(checked_ref (bytes ''[uservalue]'') (ud_value ud))\<lparr>rf_checked := False\<rparr>])"

definition is_table :: "lua_heap \<Rightarrow> sval \<Rightarrow> bool" where
  "is_table hp v = (case v of SObj p \<Rightarrow> tidx_of (hp p) = TABLE | _ \<Rightarrow> False)"

definition function_refs :: "lua_heap \<Rightarrow> lua_function \<Rightarrow> reference list" where
  "function_refs hp fn =
     (if is_table hp (fn_env fn) then [checked_ref (bytes ''[environment]'') (fn_env fn)] else []) @
     map (\<lambda>(name, v). checked_ref (if name = [] then bytes ''[upvalue]'' else name) v) (fn_upvalues fn)"

definition function_source :: "lua_function \<Rightarrow> byte list" where
  "function_source fn = bytes ''func: '' @ fn_src fn @ [58] @ bytes (show_int (fn_line fn))"

section \<open>Threads and their stacks\<close>

text \<open>
  The values on the stack of each state above its base, bottom first.  A thread that the walk has not entered has those of
  the heap.  \<open>luaL_checkstack\<close> allows a C function \<open>LUAI_MAXCSTACK\<close> slots; the error it raises otherwise is raised in the state
  it is given, which has a handler if it is the running one.
\<close>

type_synonym stacks = "ptr \<Rightarrow> sval list"

definition LUA_MINSTACK :: nat where
  "LUA_MINSTACK = 20"

definition LUAI_MAXCSTACK :: nat where
  "LUAI_MAXCSTACK = 8000"

definition heap_stacks :: "lua_heap \<Rightarrow> stacks" where
  "heap_stacks hp p = (case hp p of Thread th \<Rightarrow> th_stack th | _ \<Rightarrow> [])"

definition push_values :: "stacks \<Rightarrow> ptr \<Rightarrow> sval list \<Rightarrow> stacks" where
  "push_values stks L vs = stks(L := stks L @ vs)"

definition luaL_checkstack :: "stacks \<Rightarrow> ptr \<Rightarrow> nat \<Rightarrow> c_fault + unit" where
  "luaL_checkstack stks L n = (if length (stks L) + n > LUAI_MAXCSTACK then Inl (LuaError ''stack overflow'') else Inr ())"

text \<open>
  A thread: its stack unless it is the state that the walk is in, then the locals of its active functions from level 0, or from 1 for
  that state.  Level 0 of the running thread is the function \<open>snapshot\<close>, and its locals are what the walk has on the stack.
  The description of a local is printed into an array of 128 bytes.
\<close>

definition stack_refs :: "sval list \<Rightarrow> reference list" where
  "stack_refs vs = map (\<lambda>(i, v). checked_ref ([91] @ bytes (show_int (int i + 1)) @ [93]) v) (enumerate 0 vs)"

definition local_ref :: "lua_frame \<Rightarrow> byte list \<times> sval \<Rightarrow> reference" where
  "local_ref fr nv =
     \<lparr>rf_desc = sprintf_to 128 (fst nv @ bytes '' : '' @ fr_src fr @ [58] @ bytes (show_int (fr_line fr))),
      rf_value = snd nv, rf_below = [], rf_checked = True\<rparr>"

definition frame_refs :: "lua_frame \<Rightarrow> reference list" where
  "frame_refs fr = map (local_ref fr) (fr_locals fr)"

definition active_frames :: "ptr \<Rightarrow> stacks \<Rightarrow> ptr \<Rightarrow> lua_thread \<Rightarrow> lua_frame list" where
  "active_frames running stks t th =
     (if t \<noteq> running then th_frames th
      else case th_frames th of
        [] \<Rightarrow> []
      | fr # frs \<Rightarrow> fr\<lparr>fr_locals := map (\<lambda>v. (bytes ''(*temporary)'', v)) (stks t)\<rparr> # frs)"

definition thread_refs :: "bool \<Rightarrow> sval list \<Rightarrow> lua_frame list \<Rightarrow> reference list" where
  "thread_refs same stack frames = (if same then [] else stack_refs stack) @ concat (map frame_refs (drop (if same then 1 else 0) frames))"

definition thread_source :: "bool \<Rightarrow> lua_frame list \<Rightarrow> byte list" where
  "thread_source same frames =
     concat (map (\<lambda>fr. fr_src fr @ (if fr_line fr \<ge> 0 then [58] @ bytes (show_int (fr_line fr)) @ [32] else []))
       (drop (if same then 1 else 0) frames)) @
     bytes ''thread: ''"

section \<open>The walk\<close>

text \<open>
  The functions for the kinds of objects.  All of them begin with \<open>readobject\<close> and return when it gives no pointer; that
  step is in \<open>mark_object\<close> here, and they take the pointer \<open>t\<close> it gave, with the object on the stack of \<open>L\<close>.  \<open>mark\<close> marks a list
  of references in order, for the stacks, a state, a record and a parent.  A function pops what it was given, so the stacks
  are as before when it returns.  Inside another thread the state is that thread.
\<close>

type_synonym marker = "stacks \<Rightarrow> ptr \<Rightarrow> snap \<Rightarrow> ptr \<Rightarrow> reference list \<Rightarrow> c_fault + snap"

definition mark_table :: "ptr_text \<Rightarrow> lua_heap \<Rightarrow> marker \<Rightarrow> stacks \<Rightarrow> ptr \<Rightarrow> snap \<Rightarrow> ptr \<Rightarrow> lua_table \<Rightarrow> c_fault + snap" where
  "mark_table pt hp mark stks L sn t tb = mark stks L sn t (table_refs pt hp tb)"

definition mark_userdata :: "marker \<Rightarrow> stacks \<Rightarrow> ptr \<Rightarrow> snap \<Rightarrow> ptr \<Rightarrow> lua_userdata \<Rightarrow> c_fault + snap" where
  "mark_userdata mark stks L sn t ud = mark stks L sn t (userdata_refs ud)"

definition put_source :: "snap \<Rightarrow> ptr \<Rightarrow> byte list \<Rightarrow> snap" where
  "put_source sn t s = sn\<lparr>sn_source := (sn_source sn)(t \<mapsto> s)\<rparr>"

definition mark_function :: "lua_heap \<Rightarrow> marker \<Rightarrow> stacks \<Rightarrow> ptr \<Rightarrow> snap \<Rightarrow> ptr \<Rightarrow> lua_function \<Rightarrow> c_fault + snap" where
  "mark_function hp mark stks L sn t fn =
     bindE (mark stks L sn t (function_refs hp fn)) (\<lambda>sn1. Inr (if fn_c fn then sn1 else put_source sn1 t (function_source fn)))"

definition mark_thread :: "ptr \<Rightarrow> marker \<Rightarrow> stacks \<Rightarrow> ptr \<Rightarrow> snap \<Rightarrow> ptr \<Rightarrow> lua_thread \<Rightarrow> c_fault + snap" where
  "mark_thread running mark stks L sn t th =
     (let frames = active_frames running stks t th in
      bindE (if t = L then Inr () else luaL_checkstack stks t 1) (\<lambda>_.
      bindE (mark stks t sn t (thread_refs (t = L) (stks t) frames)) (\<lambda>sn1.
        Inr (put_source sn1 t (thread_source (t = L) frames)))))"

definition mark_found :: "ptr_text \<Rightarrow> lua_heap \<Rightarrow> ptr \<Rightarrow> marker \<Rightarrow> stacks \<Rightarrow> ptr \<Rightarrow> snap \<Rightarrow> ptr \<Rightarrow> c_fault + snap" where
  "mark_found pt hp running mark stks L sn t =
     (case hp t of
        Table tb \<Rightarrow> mark_table pt hp mark stks L sn t tb
      | Userdata ud \<Rightarrow> mark_userdata mark stks L sn t ud
      | Function fn \<Rightarrow> mark_function hp mark stks L sn t fn
      | Thread th \<Rightarrow> mark_thread running mark stks L sn t th)"

text \<open>
  \<open>mark_object\<close> with a bound on the depth of the recursion: the description is printed, the value pushed, the stack checked, and the
  object read.
\<close>

function mark_object :: "ptr_text \<Rightarrow> lua_heap \<Rightarrow> ptr \<Rightarrow> nat \<Rightarrow> stacks \<Rightarrow> ptr \<Rightarrow> snap \<Rightarrow> ptr \<Rightarrow> reference \<Rightarrow> c_fault + snap"
  and mark_refs :: "ptr_text \<Rightarrow> lua_heap \<Rightarrow> ptr \<Rightarrow> nat \<Rightarrow> stacks \<Rightarrow> ptr \<Rightarrow> snap \<Rightarrow> ptr \<Rightarrow> reference list \<Rightarrow> c_fault + snap" where
  "mark_object pt hp running 0 stks L sn parent r = Inl Diverges"
| "mark_object pt hp running (Suc n) stks L sn parent r =
     bindE (rf_desc r) (\<lambda>desc.
       let stks1 = push_values stks L (rf_below r @ [rf_value r]) in
       bindE (if rf_checked r then luaL_checkstack stks1 L LUA_MINSTACK else Inr ()) (\<lambda>_.
         case readobject hp sn (rf_value r) parent desc of
           (sn1, None) \<Rightarrow> Inr sn1
         | (sn1, Some t) \<Rightarrow> mark_found pt hp running (mark_refs pt hp running n) stks1 L sn1 t))"
| "mark_refs pt hp running n stks L sn parent [] = Inr sn"
| "mark_refs pt hp running n stks L sn parent (r # rs) =
     bindE (mark_object pt hp running n stks L sn parent r) (\<lambda>sn1. mark_refs pt hp running n stks L sn1 parent rs)"
  by pat_completeness auto
termination
  by (relation "inv_image (less_than <*lex*> less_than)
      (\<lambda>x. case x of Inl (pt, hp, running, n, stks, L, sn, parent, r) \<Rightarrow> (n, 0)
         | Inr (pt, hp, running, n, stks, L, sn, parent, rs) \<Rightarrow> (n, Suc (length rs)))") auto

section \<open>The result\<close>

definition gen_table_desc :: "ptr_text \<Rightarrow> ptr \<times> byte list \<Rightarrow> byte list" where
  "gen_table_desc pt ref = pt (fst ref) @ bytes '' : '' @ snd ref @ [10]"

text \<open>The text of one object; \<open>next_order\<close> is the order in which \<open>lua_next\<close> gives the entries of a table.\<close>

definition obj_text ::
  "ptr_text \<Rightarrow> ((ptr \<times> byte list) list \<Rightarrow> (ptr \<times> byte list) list) \<Rightarrow> snap \<Rightarrow> tidx \<Rightarrow> byte list \<Rightarrow> ptr \<Rightarrow> (ptr \<times> byte list) list \<Rightarrow> byte list" where
  "obj_text pt next_order sn idx name key refs =
     (case idx of
        FUNCTION \<Rightarrow> (case sn_source sn key of None \<Rightarrow> bytes ''cfunction'' @ [10] | Some s \<Rightarrow> s @ [10])
      | THREAD \<Rightarrow> (case sn_source sn key of None \<Rightarrow> [10] | Some s \<Rightarrow> s @ [10])
      | _ \<Rightarrow> name @ [10]) @
     concat (map (gen_table_desc pt) (next_order refs))"

definition pdesc ::
  "ptr_text \<Rightarrow> ((ptr \<times> byte list) list \<Rightarrow> (ptr \<times> byte list) list) \<Rightarrow> snap \<Rightarrow> tidx \<Rightarrow> byte list \<Rightarrow> (ptr \<rightharpoonup> byte list) \<Rightarrow> ptr \<rightharpoonup> byte list" where
  "pdesc pt next_order sn idx name result =
     (\<lambda>p. case sn_objs sn idx p of None \<Rightarrow> result p | Some refs \<Rightarrow> Some (obj_text pt next_order sn idx name p refs))"

definition gen_result ::
  "ptr_text \<Rightarrow> ((ptr \<times> byte list) list \<Rightarrow> (ptr \<times> byte list) list) \<Rightarrow> snap \<Rightarrow> ptr \<rightharpoonup> byte list" where
  "gen_result pt next_order sn =
     pdesc pt next_order sn THREAD (bytes ''thread'')
    (pdesc pt next_order sn FUNCTION (bytes ''function'')
    (pdesc pt next_order sn USERDATA (bytes ''userdata'')
    (pdesc pt next_order sn TABLE (bytes ''table'') Map.empty)))"

definition empty_snap :: snap where
  "empty_snap = \<lparr>sn_objs = \<lambda>_ _. None, sn_source = \<lambda>_. None, sn_mark = {}\<rparr>"

text \<open>
  \<open>snapshot\<close>: the record of the walk from the registry, whose parent is the null pointer, and the table that Lua gets.  The walk begins in
  the running thread \<open>L\<close>.
\<close>

definition walk :: "ptr_text \<Rightarrow> lua_heap \<Rightarrow> nat \<Rightarrow> ptr \<Rightarrow> ptr \<Rightarrow> c_fault + snap" where
  "walk pt hp fuel L registry =
     mark_object pt hp L fuel (heap_stacks hp) L empty_snap 0 ((checked_ref (bytes ''[registry]'') (SObj registry))\<lparr>rf_checked := False\<rparr>)"

definition snapshot ::
  "ptr_text \<Rightarrow> ((ptr \<times> byte list) list \<Rightarrow> (ptr \<times> byte list) list) \<Rightarrow> lua_heap \<Rightarrow> nat \<Rightarrow> ptr \<Rightarrow> ptr \<Rightarrow> c_fault + (ptr \<rightharpoonup> byte list)" where
  "snapshot pt next_order hp fuel L registry = bindE (walk pt hp fuel L registry) (\<lambda>sn. Inr (gen_result pt next_order sn))"

end
