(* ===== verification/SnapshotProofs.thy ===== *)
theory SnapshotProofs
  imports Snapshot
begin

text \<open>
  The walk of \<open>snapshot.c\<close> against its purpose: the objects recorded are those that can be reached from the registry
  by strong references, and the referrers recorded for an object are all of its referrers among them.
\<close>

section \<open>References\<close>

text \<open>What an object refers to, when \<open>L\<close> is the running thread.\<close>

definition refs_of :: "ptr_text \<Rightarrow> lua_heap \<Rightarrow> ptr \<Rightarrow> ptr \<Rightarrow> reference list" where
  "refs_of pt hp L p =
     (case hp p of
        Table tb \<Rightarrow> table_refs pt hp tb
      | Userdata ud \<Rightarrow> userdata_refs ud
      | Function fn \<Rightarrow> function_refs hp fn
      | Thread th \<Rightarrow> thread_refs (p = L) (th_stack th) (th_frames th))"

definition objects :: "reference list \<Rightarrow> ptr set" where
  "objects rs = {q. SObj q \<in> rf_value ` set rs}"

text \<open>
  The strong references of an object, independently of the walk: metatable, values and keys unless weak, the environment
  of a function if it is a table, upvalues, the stack of a thread that is not running and the locals of its
  active functions (for the running one, of those below the function that takes the snapshot).
\<close>

definition refers :: "lua_heap \<Rightarrow> ptr \<Rightarrow> ptr \<Rightarrow> ptr \<Rightarrow> bool" where
  "refers hp L p q =
     (case hp p of
        Table tb \<Rightarrow> tb_meta tb = Some q \<or>
          (\<exists>k v. (k, v) \<in> set (tb_entries tb) \<and>
            (k = SObj q \<and> \<not> fst (weak_mode hp (tb_meta tb)) \<or> v = SObj q \<and> \<not> snd (weak_mode hp (tb_meta tb))))
      | Userdata ud \<Rightarrow> ud_meta ud = Some q \<or> ud_value ud = SObj q
      | Function fn \<Rightarrow> fn_env fn = SObj q \<and> (\<exists>tb. hp q = Table tb) \<or> (\<exists>name. (name, SObj q) \<in> set (fn_upvalues fn))
      | Thread th \<Rightarrow> p \<noteq> L \<and> SObj q \<in> set (th_stack th) \<or>
          (\<exists>fr\<in>set (if p = L then tl (th_frames th) else th_frames th). \<exists>name. (name, SObj q) \<in> set (fr_locals fr)))"

lemma objects_simps [simp]: "objects [] = {}" "objects (rs @ rs') = objects rs \<union> objects rs'"
  by (auto simp: objects_def)

lemma objects_Cons: "objects (r # rs) = (case rf_value r of SObj q \<Rightarrow> {q} | _ \<Rightarrow> {}) \<union> objects rs"
  by (cases "rf_value r") (auto simp: objects_def)

lemma objects_concat: "q \<in> objects (concat rss) \<longleftrightarrow> (\<exists>rs\<in>set rss. q \<in> objects rs)"
  by (induction rss) auto

lemma objects_map: "q \<in> objects (map f xs) \<longleftrightarrow> (\<exists>x\<in>set xs. rf_value (f x) = SObj q)"
  by (force simp: objects_def)

lemma checked_ref_simps [simp]:
  "rf_value (checked_ref desc v) = v" "rf_below (checked_ref desc v) = []" "rf_desc (checked_ref desc v) = Inr desc"
  "rf_checked (checked_ref desc v)"
  by (simp_all add: checked_ref_def)

text \<open>What the walk marks of an object are its strong references.\<close>

lemma entry_objects: "q \<in> objects (entry_refs pt hp weakk weakv kv) \<longleftrightarrow> fst kv = SObj q \<and> \<not> weakk \<or> snd kv = SObj q \<and> \<not> weakv"
  by (cases "fst kv"; cases "snd kv") (auto simp: entry_refs_def objects_Cons)

lemma meta_objects: "q \<in> objects (meta_refs checked meta) \<longleftrightarrow> meta = Some q"
  by (cases meta) (auto simp: meta_refs_def objects_Cons)

lemma frame_objects: "q \<in> objects (frame_refs fr) \<longleftrightarrow> (\<exists>name. (name, SObj q) \<in> set (fr_locals fr))"
  by (force simp: frame_refs_def objects_map local_ref_def)

lemma stack_objects: "q \<in> objects (stack_refs vs) \<longleftrightarrow> SObj q \<in> set vs"
proof -
  have "q \<in> objects (stack_refs vs) \<longleftrightarrow> SObj q \<in> snd ` set (enumerate 0 vs)" by (force simp: stack_refs_def objects_map image_iff split: prod.splits)
  also have "snd ` set (enumerate 0 vs) = set vs" by (metis list.set_map map_snd_enumerate)
  finally show ?thesis .
qed

lemma refs_refers: "q \<in> objects (refs_of pt hp L p) \<longleftrightarrow> refers hp L p q"
proof (cases "hp p")
  case (Table tb)
  obtain weakk weakv where w: "weak_mode hp (tb_meta tb) = (weakk, weakv)" by fastforce
  moreover have "(\<exists>kv\<in>set es. fst kv = SObj q \<and> \<not> weakk \<or> snd kv = SObj q \<and> \<not> weakv) \<longleftrightarrow>
      (\<exists>k v. (k, v) \<in> set es \<and> (k = SObj q \<and> \<not> weakk \<or> v = SObj q \<and> \<not> weakv))" for es
    by (metis fst_conv prod.collapse snd_conv)
  ultimately show ?thesis
    by (simp add: refs_of_def refers_def Table table_refs_def meta_objects objects_concat entry_objects)
next
  case (Userdata ud)
  then show ?thesis
    by (cases "ud_value ud") (auto simp: refers_def refs_of_def userdata_refs_def meta_objects objects_Cons)
next
  case (Function fn)
  have "is_table hp (SObj x) \<longleftrightarrow> (\<exists>tb. hp x = Table tb)" for x
    by (cases "hp x") (simp_all add: is_table_def tidx_of_def)
  moreover have "\<not> is_table hp v" if "\<forall>x. v \<noteq> SObj x" for v using that by (cases v) (simp_all add: is_table_def)
  moreover have "q \<in> objects (map (\<lambda>(name, v). checked_ref (if name = [] then bytes ''[upvalue]'' else name) v) (fn_upvalues fn)) \<longleftrightarrow>
      (\<exists>name. (name, SObj q) \<in> set (fn_upvalues fn))"
    by (force simp: objects_map)
  ultimately show ?thesis using Function
    by (cases "fn_env fn") (auto simp: refers_def refs_of_def function_refs_def objects_Cons)
next
  case (Thread th)
  then show ?thesis by (auto simp: refers_def refs_of_def thread_refs_def objects_concat frame_objects stack_objects drop_Suc)
qed

text \<open>At most the key of an entry lies between an object and a value that is marked for it.\<close>

lemma refs_below: "r \<in> set (refs_of pt hp L p) \<Longrightarrow> length (rf_below r) \<le> 1"
  by (auto simp: refs_of_def table_refs_def userdata_refs_def function_refs_def thread_refs_def meta_refs_def entry_refs_def stack_refs_def
      frame_refs_def local_ref_def split: lua_object.splits option.splits prod.splits if_splits)

section \<open>Records\<close>

text \<open>The tables of \<open>dL\<close> agree: an object has a record, in the table of its kind, if it is marked.\<close>

definition snap_ok :: "lua_heap \<Rightarrow> snap \<Rightarrow> bool" where
  "snap_ok hp sn \<longleftrightarrow> (\<forall>t p. sn_objs sn t p \<noteq> None \<longleftrightarrow> p \<in> sn_mark sn \<and> t = tidx_of (hp p))"

definition referrers :: "lua_heap \<Rightarrow> snap \<Rightarrow> ptr \<Rightarrow> ptr set" where
  "referrers hp sn q = (case sn_objs sn (tidx_of (hp q)) q of None \<Rightarrow> {} | Some refs \<Rightarrow> fst ` set refs)"

lemma set_update_keys: "fst ` set (AList.update k v xs) = insert k (fst ` set xs)"
  by (simp add: dom_update)

lemma readobject_plain: "\<forall>p. v \<noteq> SObj p \<Longrightarrow> readobject hp sn v parent desc = (sn, None)"
  by (cases v) (simp_all add: readobject_def)

lemma readobject_marked:
  assumes "snap_ok hp sn" "p \<in> sn_mark sn"
  shows "\<exists>sn'. readobject hp sn (SObj p) parent desc = (sn', None) \<and> snap_ok hp sn' \<and> sn_mark sn' = sn_mark sn \<and>
    referrers hp sn' = (referrers hp sn)(p := insert parent (referrers hp sn p))"
proof -
  obtain refs where refs: "sn_objs sn (tidx_of (hp p)) p = Some refs" using assms by (auto simp: snap_ok_def)
  let ?sn = "put_obj sn (tidx_of (hp p)) p (AList.update parent desc refs)"
  have "readobject hp sn (SObj p) parent desc = (?sn, None)" using assms(2) refs by (simp add: readobject_def ismarked_def Let_def)
  moreover have "snap_ok hp ?sn" using assms by (auto simp: snap_ok_def put_obj_def)
  moreover have "referrers hp ?sn q = ((referrers hp sn)(p := insert parent (referrers hp sn p))) q" for q
    using refs by (auto simp: referrers_def put_obj_def set_update_keys)
  ultimately show ?thesis by (intro exI [of _ ?sn]) (auto simp: put_obj_def)
qed

lemma readobject_new:
  assumes "snap_ok hp sn" "p \<notin> sn_mark sn"
  shows "\<exists>sn'. readobject hp sn (SObj p) parent desc = (sn', Some p) \<and> snap_ok hp sn' \<and> sn_mark sn' = insert p (sn_mark sn) \<and>
    referrers hp sn' = (referrers hp sn)(p := {parent})"
proof -
  let ?sn = "put_obj (sn\<lparr>sn_mark := insert p (sn_mark sn)\<rparr>) (tidx_of (hp p)) p [(parent, desc)]"
  have "snap_ok hp ?sn" using assms by (auto simp: snap_ok_def put_obj_def)
  moreover have "referrers hp ?sn q = ((referrers hp sn)(p := {parent})) q" for q by (auto simp: referrers_def put_obj_def)
  ultimately show ?thesis using assms(2) by (intro exI [of _ ?sn]) (auto simp: readobject_def ismarked_def Let_def put_obj_def)
qed

lemma put_source_simps [simp]:
  "sn_mark (put_source sn t s) = sn_mark sn" "snap_ok hp (put_source sn t s) = snap_ok hp sn" "referrers hp (put_source sn t s) = referrers hp sn"
  by (simp_all add: put_source_def snap_ok_def referrers_def fun_eq_iff)

section \<open>One call\<close>

text \<open>
  What a call does to the record: \<open>from\<close> are the objects it was given.  They are marked afterwards; the objects newly marked
  can be reached from them, and what those refer to is marked; and the referrers recorded in addition are
  the newly marked ones, and the parent for the given ones.
\<close>

definition walked :: "lua_heap \<Rightarrow> ptr \<Rightarrow> ptr \<Rightarrow> ptr set \<Rightarrow> snap \<Rightarrow> snap \<Rightarrow> bool" where
  "walked hp L parent given sn sn' \<longleftrightarrow> snap_ok hp sn' \<and> sn_mark sn \<subseteq> sn_mark sn' \<and> given \<subseteq> sn_mark sn' \<and>
     (\<forall>p\<in>sn_mark sn' - sn_mark sn. (\<exists>g\<in>given. (refers hp L)\<^sup>*\<^sup>* g p) \<and> (\<forall>q. refers hp L p q \<longrightarrow> q \<in> sn_mark sn')) \<and>
     (\<forall>p q. p \<in> referrers hp sn' q \<longleftrightarrow> p \<in> referrers hp sn q \<or> (p \<in> sn_mark sn' - sn_mark sn \<and> refers hp L p q) \<or>
        (p = parent \<and> q \<in> given))"

lemma walkedI:
  assumes "snap_ok hp sn'" "sn_mark sn \<subseteq> sn_mark sn'" "given \<subseteq> sn_mark sn'"
    and "\<And>p. p \<in> sn_mark sn' \<Longrightarrow> p \<notin> sn_mark sn \<Longrightarrow> \<exists>g\<in>given. (refers hp L)\<^sup>*\<^sup>* g p"
    and "\<And>p q. p \<in> sn_mark sn' \<Longrightarrow> p \<notin> sn_mark sn \<Longrightarrow> refers hp L p q \<Longrightarrow> q \<in> sn_mark sn'"
    and "\<And>p q. p \<in> referrers hp sn' q \<longleftrightarrow>
      p \<in> referrers hp sn q \<or> (p \<in> sn_mark sn' \<and> p \<notin> sn_mark sn \<and> refers hp L p q) \<or> (p = parent \<and> q \<in> given)"
  shows "walked hp L parent given sn sn'"
  using assms by (simp add: walked_def) blast

lemma walkedD:
  assumes "walked hp L parent given sn sn'"
  shows "snap_ok hp sn'" "sn_mark sn \<subseteq> sn_mark sn'" "given \<subseteq> sn_mark sn'"
    and "p \<in> sn_mark sn' \<Longrightarrow> p \<notin> sn_mark sn \<Longrightarrow> \<exists>g\<in>given. (refers hp L)\<^sup>*\<^sup>* g p"
    and "p \<in> sn_mark sn' \<Longrightarrow> p \<notin> sn_mark sn \<Longrightarrow> refers hp L p q \<Longrightarrow> q \<in> sn_mark sn'"
    and "p \<in> referrers hp sn' q \<longleftrightarrow>
      p \<in> referrers hp sn q \<or> (p \<in> sn_mark sn' \<and> p \<notin> sn_mark sn \<and> refers hp L p q) \<or> (p = parent \<and> q \<in> given)"
  using assms by (simp_all add: walked_def)

lemma walked_nothing: "snap_ok hp sn \<Longrightarrow> walked hp L parent {} sn sn"
  by (rule walkedI) auto

lemma walked_trans:
  assumes 1: "walked hp L parent g1 sn sn1" and 2: "walked hp L parent g2 sn1 sn2"
  shows "walked hp L parent (g1 \<union> g2) sn sn2"
proof (rule walkedI)
  note d1 = walkedD [OF 1] and d2 = walkedD [OF 2]
  show "snap_ok hp sn2" "sn_mark sn \<subseteq> sn_mark sn2" "g1 \<union> g2 \<subseteq> sn_mark sn2" using d1(2,3) d2(1-3) by auto
  fix p q
  show "\<exists>g\<in>g1 \<union> g2. (refers hp L)\<^sup>*\<^sup>* g p" if "p \<in> sn_mark sn2" "p \<notin> sn_mark sn"
    using that d1(4) [of p] d2(4) [of p] by (cases "p \<in> sn_mark sn1") auto
  show "q \<in> sn_mark sn2" if "p \<in> sn_mark sn2" "p \<notin> sn_mark sn" "refers hp L p q"
    using that d1(5) [of p q] d2(5) [of p q] d2(2) by (cases "p \<in> sn_mark sn1") auto
  show "p \<in> referrers hp sn2 q \<longleftrightarrow> p \<in> referrers hp sn q \<or> (p \<in> sn_mark sn2 \<and> p \<notin> sn_mark sn \<and> refers hp L p q) \<or>
      (p = parent \<and> q \<in> g1 \<union> g2)"
    unfolding d2(6) d1(6) using d1(2) d2(2) by auto
qed

text \<open>An object that is met first, from the walk over what it refers to.\<close>

lemma walked_object:
  assumes t: "t \<notin> sn_mark sn" "snap_ok hp sn"
    and sn1: "sn_mark sn1 = insert t (sn_mark sn)" "referrers hp sn1 = (referrers hp sn)(t := {parent})"
    and w: "walked hp L t (objects (refs_of pt hp L t)) sn1 sn2"
  shows "walked hp L parent {t} sn sn2"
proof (rule walkedI)
  note d = walkedD [OF w]
  let ?rs = "refs_of pt hp L t"
  have r: "refers hp L t q \<longleftrightarrow> q \<in> objects ?rs" for q using refs_refers by blast
  have "referrers hp sn t = {}" using t by (auto simp: referrers_def snap_ok_def split: option.splits)
  then have e: "p \<in> referrers hp sn1 q \<longleftrightarrow> p \<in> referrers hp sn q \<or> p = parent \<and> q = t" for p q using sn1(2) by auto
  show "snap_ok hp sn2" "sn_mark sn \<subseteq> sn_mark sn2" "{t} \<subseteq> sn_mark sn2" using d(1,2) sn1(1) by auto
  fix p q
  show "\<exists>g\<in>{t}. (refers hp L)\<^sup>*\<^sup>* g p" if "p \<in> sn_mark sn2" "p \<notin> sn_mark sn"
  proof (cases "p = t")
    case False
    with d(4) [of p] that sn1(1) obtain g where "g \<in> objects ?rs" "(refers hp L)\<^sup>*\<^sup>* g p" by auto
    then show ?thesis using r by (meson converse_rtranclp_into_rtranclp singletonI)
  qed simp
  show "q \<in> sn_mark sn2" if "p \<in> sn_mark sn2" "p \<notin> sn_mark sn" "refers hp L p q"
    using that d(5) [of p q] d(3) r sn1(1) by (cases "p = t") auto
  show "p \<in> referrers hp sn2 q \<longleftrightarrow> p \<in> referrers hp sn q \<or> (p \<in> sn_mark sn2 \<and> p \<notin> sn_mark sn \<and> refers hp L p q) \<or>
      (p = parent \<and> q \<in> {t})"
    unfolding d(6) e using d(2) sn1(1) r t(1) by auto
qed

section \<open>The walk\<close>

text \<open>The objects that can be reached from the registry by strong references.\<close>

definition live_objects :: "lua_heap \<Rightarrow> ptr \<Rightarrow> ptr \<Rightarrow> ptr set" where
  "live_objects hp L registry = {p. (refers hp L)\<^sup>*\<^sup>* registry p}"

text \<open>
  What the theorems need of the heap.  The descriptions of references fit the arrays they are printed into.  The running
  thread is met in its own state: an object that refers to it is the registry or cannot be reached from another thread.
\<close>

definition printable :: "ptr_text \<Rightarrow> lua_heap \<Rightarrow> ptr \<Rightarrow> ptr \<Rightarrow> bool" where
  "printable pt hp L p \<longleftrightarrow> (\<forall>r\<in>set (refs_of pt hp L p). \<exists>desc. rf_desc r = Inr desc)"

definition apart :: "lua_heap \<Rightarrow> ptr \<Rightarrow> ptr \<Rightarrow> bool" where
  "apart hp L registry \<longleftrightarrow>
     (\<forall>p\<in>live_objects hp L registry. refers hp L p L \<longrightarrow> p = registry \<or>
        (\<forall>t\<in>live_objects hp L registry. t \<noteq> L \<longrightarrow> tidx_of (hp t) = THREAD \<longrightarrow> \<not> (refers hp L)\<^sup>*\<^sup>* t p))"

text \<open>A heap for which no stack can become too long: two slots for each live object, and those of one call.\<close>

definition roomy :: "lua_heap \<Rightarrow> ptr \<Rightarrow> ptr \<Rightarrow> bool" where
  "roomy hp L registry \<longleftrightarrow>
     (\<forall>p\<in>insert L (live_objects hp L registry).
        length (heap_stacks hp p) + 2 * card (live_objects hp L registry) + 2 + LUA_MINSTACK \<le> LUAI_MAXCSTACK)"

text \<open>A call ends well, or with the error of a full stack, which needs a heap that is not roomy.\<close>

definition walk_ends :: "bool \<Rightarrow> c_fault + 'a \<Rightarrow> ('a \<Rightarrow> bool) \<Rightarrow> bool" where
  "walk_ends room x P \<longleftrightarrow> (case x of Inl e \<Rightarrow> e = LuaError ''stack overflow'' \<and> \<not> room | Inr y \<Rightarrow> P y)"

lemma walk_ends_simps [simp]: "walk_ends room (Inr y) P = P y" "walk_ends room (Inl e) P \<longleftrightarrow> e = LuaError ''stack overflow'' \<and> \<not> room"
  by (simp_all add: walk_ends_def)

lemma walk_ends_bindE: "walk_ends room x P \<Longrightarrow> (\<And>y. P y \<Longrightarrow> walk_ends room (f y) Q) \<Longrightarrow> walk_ends room (bindE x f) Q"
  by (cases x) simp_all

lemma walk_ends_mono: "walk_ends room x P \<Longrightarrow> (\<And>y. P y \<Longrightarrow> Q y) \<Longrightarrow> walk_ends room x Q"
  by (cases x) simp_all

text \<open>
  A call to mark references for a parent: \<open>L'\<close> is the state the walk is in, the running thread \<open>L\<close> or a marked one from which the parent can
  be reached.  Threads that are not marked have their stacks as in the heap.
\<close>

definition in_state :: "lua_heap \<Rightarrow> ptr \<Rightarrow> ptr \<Rightarrow> ptr \<Rightarrow> ptr set \<Rightarrow> ptr \<Rightarrow> reference list \<Rightarrow> bool" where
  "in_state hp L registry L' marked parent rs \<longleftrightarrow>
     L' = L \<or> registry \<in> marked \<and> L' \<in> marked \<and> L' \<in> live_objects hp L registry \<and> tidx_of (hp L') = THREAD \<and> parent \<in> live_objects hp L registry \<and>
       parent \<noteq> registry \<and> (refers hp L)\<^sup>*\<^sup>* L' parent \<and> objects rs \<subseteq> {q. refers hp L parent q}"

definition ready :: "lua_heap \<Rightarrow> ptr \<Rightarrow> ptr \<Rightarrow> nat \<Rightarrow> stacks \<Rightarrow> ptr \<Rightarrow> snap \<Rightarrow> ptr \<Rightarrow> reference list \<Rightarrow> bool" where
  "ready hp L registry n stks L' sn parent rs \<longleftrightarrow>
     snap_ok hp sn \<and> objects rs \<subseteq> live_objects hp L registry \<and> card (live_objects hp L registry - sn_mark sn) < n \<and>
     (registry \<in> sn_mark sn \<or> objects rs \<subseteq> {registry}) \<and> in_state hp L registry L' (sn_mark sn) parent rs \<and>
     (\<forall>r\<in>set rs. length (rf_below r) \<le> 1 \<and> (\<exists>desc. rf_desc r = Inr desc)) \<and>
     (\<forall>p. p \<notin> sn_mark sn \<longrightarrow> p \<noteq> L \<longrightarrow> stks p = heap_stacks hp p) \<and>
     (roomy hp L registry \<longrightarrow>
        length (stks L') + 2 * card (live_objects hp L registry - sn_mark sn) + 2 + LUA_MINSTACK \<le> LUAI_MAXCSTACK)"

lemma live_step: "p \<in> live_objects hp L registry \<Longrightarrow> refers hp L p q \<Longrightarrow> q \<in> live_objects hp L registry"
  unfolding live_objects_def by (auto intro: rtranclp.rtrancl_into_rtrancl)

lemma ready_head: "ready hp L registry n stks L' sn parent (r # rs) \<Longrightarrow> ready hp L registry n stks L' sn parent [r]"
  unfolding ready_def in_state_def objects_Cons [of r rs] objects_Cons [of r "[]"] by auto

lemma ready_tail:
  assumes r: "ready hp L registry n stks L' sn parent (r # rs)" and w: "walked hp L parent (objects [r]) sn sn1"
  shows "ready hp L registry n stks L' sn1 parent rs"
proof -
  note d = walkedD(1,2) [OF w]
  have "card (live_objects hp L registry - sn_mark sn1) \<le> card (live_objects hp L registry - sn_mark sn)" using d(2) by (intro card_mono) auto
  then show ?thesis using r d unfolding ready_def in_state_def objects_Cons [of r rs] by auto
qed

text \<open>An object that is met first: the call for its own references is ready, in the state it is made in.\<close>

lemma ready_found:
  assumes r: "ready hp L registry (Suc n) stks L' sn parent [r]" "rf_value r = SObj t" "t \<notin> sn_mark sn"
    and sn1: "snap_ok hp sn1" "sn_mark sn1 = insert t (sn_mark sn)" and p: "\<forall>p\<in>live_objects hp L registry. printable pt hp L p"
  shows "ready hp L registry n (push_values stks L' (rf_below r @ [rf_value r])) L' sn1 t (refs_of pt hp L t)"
proof -
  let ?R = "live_objects hp L registry"
  have o: "objects [r] = {t}" by (simp add: objects_Cons r(2))
  have R: "t \<in> ?R" using r(1) unfolding ready_def o by simp
  have "card (?R - sn_mark sn1) < card (?R - sn_mark sn)" using R r(3) sn1(2) by (intro psubset_card_mono) auto
  moreover have "objects (refs_of pt hp L t) \<subseteq> ?R" using refs_refers live_step [OF R] by blast
  moreover have "in_state hp L registry L' (sn_mark sn1) t (refs_of pt hp L t)"
    using r R refs_refers unfolding ready_def in_state_def o sn1(2) by (auto intro: rtranclp.rtrancl_into_rtrancl)
  moreover have "L' = L \<or> L' \<in> sn_mark sn" using r(1) unfolding ready_def in_state_def by blast
  moreover have "\<forall>r\<in>set (refs_of pt hp L t). length (rf_below r) \<le> 1 \<and> (\<exists>desc. rf_desc r = Inr desc)"
    using p R refs_below unfolding printable_def by blast
  ultimately show ?thesis using r sn1 unfolding ready_def o by (auto simp: push_values_def)
qed

text \<open>The same inside a thread other than the one the walk is in; its stack is still as in the heap.\<close>

lemma ready_thread:
  assumes r: "ready hp L registry (Suc n) stks L' sn parent [r]" "rf_value r = SObj t" "t \<notin> sn_mark sn"
    and sn1: "snap_ok hp sn1" "sn_mark sn1 = insert t (sn_mark sn)" and p: "\<forall>p\<in>live_objects hp L registry. printable pt hp L p"
    and t: "tidx_of (hp t) = THREAD" "t \<noteq> L'" and reg: "tidx_of (hp registry) = TABLE" and apart: "apart hp L registry"
  shows "t \<noteq> L" "push_values stks L' (rf_below r @ [rf_value r]) t = heap_stacks hp t"
    "ready hp L registry n (push_values stks L' (rf_below r @ [rf_value r])) t sn1 t (refs_of pt hp L t)"
    "roomy hp L registry \<longrightarrow> length (heap_stacks hp t) + 1 \<le> LUAI_MAXCSTACK"
proof -
  let ?R = "live_objects hp L registry"
  let ?stks = "push_values stks L' (rf_below r @ [rf_value r])"
  have o: "objects [r] = {t}" by (simp add: objects_Cons r(2))
  have R: "t \<in> ?R" using r(1) unfolding ready_def o by simp
  show L: "t \<noteq> L"
  proof (cases "L' = L")
    case False
    with r(1) have "L' \<in> ?R" "tidx_of (hp L') = THREAD" "parent \<in> ?R" "parent \<noteq> registry" "(refers hp L)\<^sup>*\<^sup>* L' parent" "refers hp L parent t"
      unfolding ready_def in_state_def o by simp_all
    with apart False show ?thesis unfolding apart_def by blast
  qed (use t(2) in simp)
  show stk: "?stks t = heap_stacks hp t" using r(1,3) t(2) L unfolding ready_def by (simp add: push_values_def)
  have nr: "t \<noteq> registry" using t(1) reg by auto
  then have mem: "registry \<in> sn_mark sn" using r(1) unfolding ready_def o by simp
  have "card (?R - sn_mark sn1) + 1 \<le> card ?R"
  proof -
    have "?R - sn_mark sn1 \<subset> ?R" using R sn1(2) by auto
    then have "card (?R - sn_mark sn1) < card ?R" by (rule psubset_card_mono [OF finite])
    then show ?thesis by simp
  qed
  then have room: "roomy hp L registry \<longrightarrow> length (heap_stacks hp t) + 2 * card (?R - sn_mark sn1) + 2 + LUA_MINSTACK \<le> LUAI_MAXCSTACK"
    using R by (fastforce simp: roomy_def)
  moreover have "in_state hp L registry t (sn_mark sn1) t (refs_of pt hp L t)"
    using R t(1) nr mem refs_refers unfolding in_state_def sn1(2) by auto
  ultimately show "ready hp L registry n ?stks t sn1 t (refs_of pt hp L t)"
    using ready_found [OF r sn1 p] room stk unfolding ready_def by simp
  show "roomy hp L registry \<longrightarrow> length (heap_stacks hp t) + 1 \<le> LUAI_MAXCSTACK" using R by (auto simp: roomy_def)
qed

definition marks :: "ptr_text \<Rightarrow> lua_heap \<Rightarrow> ptr \<Rightarrow> ptr \<Rightarrow> nat \<Rightarrow> bool" where
  "marks pt hp L registry n \<longleftrightarrow>
     (\<forall>stks L' sn parent r. ready hp L registry n stks L' sn parent [r] \<longrightarrow>
       walk_ends (roomy hp L registry) (mark_object pt hp L n stks L' sn parent r) (walked hp L parent (objects [r]) sn))"

lemma mark_refs_ok:
  assumes m: "marks pt hp L registry n"
  shows "ready hp L registry n stks L' sn parent rs \<Longrightarrow>
    walk_ends (roomy hp L registry) (mark_refs pt hp L n stks L' sn parent rs) (walked hp L parent (objects rs) sn)"
proof (induction rs arbitrary: sn)
  case Nil
  then show ?case by (simp add: walked_nothing ready_def)
next
  case (Cons r rs)
  have o: "objects (r # rs) = objects [r] \<union> objects rs" by (simp add: objects_Cons)
  have "walk_ends (roomy hp L registry) (mark_object pt hp L n stks L' sn parent r) (walked hp L parent (objects [r]) sn)"
    using m ready_head [OF Cons.prems] unfolding marks_def by blast
  then show ?case unfolding o mark_refs.simps
    by (rule walk_ends_bindE) (rule walk_ends_mono [OF Cons.IH [OF ready_tail [OF Cons.prems]]], assumption, erule walked_trans)
qed

lemma walked_put_source [simp]: "walked hp L t given sn (put_source sn' t s) = walked hp L t given sn sn'"
  by (simp add: walked_def)

lemma thread_refs_same:
  assumes "hp t = Thread th"
  shows "thread_refs (t = L) (heap_stacks hp t) (active_frames L stks t th) = refs_of pt hp L t"
  using assms by (cases "th_frames th") (auto simp: thread_refs_def refs_of_def active_frames_def heap_stacks_def)

lemma thread_refs_running: "thread_refs True stack frames = thread_refs True stack' frames"
  by (simp add: thread_refs_def)

lemma mark_found_ok:
  assumes m: "marks pt hp L registry n" and r: "ready hp L registry (Suc n) stks L' sn parent [r]" "rf_value r = SObj t" "t \<notin> sn_mark sn"
    and sn1: "snap_ok hp sn1" "sn_mark sn1 = insert t (sn_mark sn)" and p: "\<forall>p\<in>live_objects hp L registry. printable pt hp L p"
    and reg: "tidx_of (hp registry) = TABLE" and apart: "apart hp L registry"
  shows "walk_ends (roomy hp L registry)
    (mark_found pt hp L (mark_refs pt hp L n) (push_values stks L' (rf_below r @ [rf_value r])) L' sn1 t)
    (walked hp L t (objects (refs_of pt hp L t)) sn1)"
proof -
  note same = mark_refs_ok [OF m ready_found [OF r sn1 p]]
  show ?thesis
  proof (cases "hp t")
    case (Thread th)
    then have kind: "tidx_of (hp t) = THREAD" by (simp add: tidx_of_def)
    show ?thesis
    proof (cases "t = L'")
      case True
      with r have "L' = L" unfolding ready_def in_state_def by blast
      with True have "thread_refs True stack (active_frames L stks' t th) = refs_of pt hp L t" for stack stks'
        using thread_refs_same [of hp t th, OF Thread, of L stks' pt] thread_refs_running by simp metis
      with same True Thread show ?thesis
        by (auto simp: mark_found_def mark_thread_def Let_def elim: walk_ends_bindE)
    next
      case False
      note inside = ready_thread [OF r sn1 p kind False reg apart]
      let ?stks = "push_values stks L' (rf_below r @ [rf_value r])"
      have refs: "thread_refs False (?stks t) (active_frames L ?stks t th) = refs_of pt hp L t"
        using thread_refs_same [of hp t th, OF Thread, of L ?stks pt] inside(1,2) by simp
      have "walk_ends (roomy hp L registry) (luaL_checkstack ?stks t 1) (\<lambda>_. True)"
        using inside(4) by (auto simp: luaL_checkstack_def inside(2))
      with mark_refs_ok [OF m inside(3)] False Thread show ?thesis
        by (auto simp: mark_found_def mark_thread_def Let_def refs intro!: walk_ends_bindE elim: walk_ends_bindE)
    qed
  qed (use same in \<open>auto simp: mark_found_def refs_of_def mark_table_def mark_userdata_def mark_function_def elim: walk_ends_bindE\<close>)
qed

lemma mark_object_ok:
  assumes p: "\<forall>p\<in>live_objects hp L registry. printable pt hp L p"
    and reg: "tidx_of (hp registry) = TABLE" and apart: "apart hp L registry"
  shows "marks pt hp L registry n"
proof (induction n)
  case 0
  then show ?case by (simp add: marks_def ready_def)
next
  case (Suc n)
  show ?case unfolding marks_def
  proof (intro allI impI)
    fix stks L' sn parent r
    assume r: "ready hp L registry (Suc n) stks L' sn parent [r]"
    then have sn: "snap_ok hp sn" and below: "length (rf_below r) \<le> 1" by (simp_all add: ready_def)
    from r obtain desc where desc: "rf_desc r = Inr desc" by (auto simp: ready_def)
    let ?stks = "push_values stks L' (rf_below r @ [rf_value r])"
    have check: "walk_ends (roomy hp L registry) (if rf_checked r then luaL_checkstack ?stks L' LUA_MINSTACK else Inr ()) (\<lambda>_. True)"
      using r below by (auto simp: luaL_checkstack_def push_values_def ready_def)
    have "walk_ends (roomy hp L registry)
      (case readobject hp sn (rf_value r) parent desc of (sn1, None) \<Rightarrow> Inr sn1
        | (sn1, Some t) \<Rightarrow> mark_found pt hp L (mark_refs pt hp L n) ?stks L' sn1 t)
      (walked hp L parent (objects [r]) sn)"
    proof (cases "\<exists>t. rf_value r = SObj t")
      case False
      then have "objects [r] = {}" by (cases "rf_value r") (simp_all add: objects_Cons)
      with False show ?thesis using walked_nothing [OF sn] by (simp add: readobject_plain)
    next
      case True
      then obtain t where t: "rf_value r = SObj t" by blast
      then have o: "objects [r] = {t}" by (simp add: objects_Cons)
      show ?thesis
      proof (cases "t \<in> sn_mark sn")
        case True
        then obtain sn' where "readobject hp sn (SObj t) parent desc = (sn', None)" "snap_ok hp sn'" "sn_mark sn' = sn_mark sn"
          "referrers hp sn' = (referrers hp sn)(t := insert parent (referrers hp sn t))" using readobject_marked [OF sn] by blast
        moreover from this True have "walked hp L parent {t} sn sn'" by (intro walkedI) auto
        ultimately show ?thesis unfolding o by (simp add: t)
      next
        case False
        obtain sn1 where sn1: "readobject hp sn (SObj t) parent desc = (sn1, Some t)" "snap_ok hp sn1" "sn_mark sn1 = insert t (sn_mark sn)"
          "referrers hp sn1 = (referrers hp sn)(t := {parent})" using readobject_new [OF sn False] by blast
        have "walk_ends (roomy hp L registry) (mark_found pt hp L (mark_refs pt hp L n) ?stks L' sn1 t) (walked hp L parent {t} sn)"
          by (rule walk_ends_mono [OF mark_found_ok [OF Suc r t False sn1(2,3) p reg apart]])
            (rule walked_object [OF False sn sn1(3,4)])
        then show ?thesis unfolding o by (simp add: t sn1(1))
      qed
    qed
    with check show "walk_ends (roomy hp L registry) (mark_object pt hp L (Suc n) stks L' sn parent r) (walked hp L parent (objects [r]) sn)"
      by (auto simp: desc Let_def intro!: walk_ends_bindE)
  qed
qed

section \<open>Properties\<close>

lemma empty_snap_ok: "snap_ok hp empty_snap" "referrers hp empty_snap q = {}" "sn_mark empty_snap = {}"
  by (simp_all add: snap_ok_def empty_snap_def referrers_def)

text \<open>The whole walk.\<close>

lemma ready_registry:
  assumes "card (live_objects hp L registry) < fuel"
  shows "ready hp L registry fuel (heap_stacks hp) L empty_snap 0 [(checked_ref desc (SObj registry))\<lparr>rf_checked := False\<rparr>]"
  using assms by (auto simp: ready_def empty_snap_ok objects_Cons in_state_def roomy_def live_objects_def)

lemma walk_ok:
  assumes "tidx_of (hp registry) = TABLE" "\<forall>p\<in>live_objects hp L registry. printable pt hp L p" "apart hp L registry"
    and fuel: "card (live_objects hp L registry) < fuel"
  shows "walk_ends (roomy hp L registry) (walk pt hp fuel L registry) (\<lambda>sn. snap_ok hp sn \<and> sn_mark sn = live_objects hp L registry \<and>
    (\<forall>q. referrers hp sn q = {p. (p \<in> live_objects hp L registry \<and> refers hp L p q) \<or> (p = 0 \<and> q = registry)}))"
proof -
  let ?R = "live_objects hp L registry"
  have "walk_ends (roomy hp L registry) (walk pt hp fuel L registry) (walked hp L 0 {registry} empty_snap)"
    using mark_object_ok [OF assms(2,1,3), of fuel] ready_registry [OF fuel] unfolding marks_def walk_def by (fastforce simp: objects_Cons)
  then show ?thesis
  proof (rule walk_ends_mono)
    fix sn
    assume "walked hp L 0 {registry} empty_snap sn"
    note d = walkedD [OF this]
    have "p \<in> sn_mark sn" if "(refers hp L)\<^sup>*\<^sup>* registry p" for p
      using that
    proof (induction rule: rtranclp_induct)
      case (step y z)
      with d(5) [of y z] show ?case by (simp add: empty_snap_ok)
    qed (use d(3) in simp)
    then have "sn_mark sn = ?R" using d(4) by (auto simp: live_objects_def empty_snap_ok)
    then show "snap_ok hp sn \<and> sn_mark sn = ?R \<and>
        (\<forall>q. referrers hp sn q = {p. (p \<in> ?R \<and> refers hp L p q) \<or> (p = 0 \<and> q = registry)})"
      using d(1,6) by (auto simp: empty_snap_ok)
  qed
qed

lemma gen_result_dom:
  assumes "snap_ok hp sn"
  shows "p \<notin> sn_mark sn \<Longrightarrow> gen_result pt next_order sn p = None"
    and "p \<in> sn_mark sn \<Longrightarrow> \<exists>refs name. sn_objs sn (tidx_of (hp p)) p = Some refs \<and>
      gen_result pt next_order sn p = Some (obj_text pt next_order sn (tidx_of (hp p)) name p refs)"
proof -
  have none: "sn_objs sn t p = None" if "p \<notin> sn_mark sn \<or> t \<noteq> tidx_of (hp p)" for t using assms that unfolding snap_ok_def by blast
  then show "p \<notin> sn_mark sn \<Longrightarrow> gen_result pt next_order sn p = None"
    by (simp add: gen_result_def pdesc_def)
  assume "p \<in> sn_mark sn"
  then obtain refs where refs: "sn_objs sn (tidx_of (hp p)) p = Some refs" using assms unfolding snap_ok_def by blast
  then show "\<exists>refs name. sn_objs sn (tidx_of (hp p)) p = Some refs \<and>
      gen_result pt next_order sn p = Some (obj_text pt next_order sn (tidx_of (hp p)) name p refs)"
    using none by (cases "tidx_of (hp p)") (auto simp: gen_result_def pdesc_def)
qed

text \<open>
  C4: A snapshot of a heap has exactly the live objects, or fails because a stack is full.  The table that \<open>snapshot\<close> returns has an entry
  for an object if and only if it can be reached from the registry by strong references (metatables, values and keys unless weak,
  environments, upvalues, stacks and locals); and the only other end is the error \<open>stack overflow\<close> of \<open>luaL_checkstack\<close>, which cannot
  happen when every live thread and the running one have room on their stacks, of 8000 slots, for two slots per live object and 22 more.  The walk ends: a
  recursion depth of the number of live objects and one is enough.  Assumed of the heap: the registry is a table; the
  descriptions fit their arrays (31 bytes for a key that is not a string, 127 for a local variable with its source and line); and an
  object that refers to the running thread is the registry, or cannot be reached from another thread.
\<close>

theorem snapshot_live_objects:
  assumes "tidx_of (hp registry) = TABLE" "\<forall>p\<in>live_objects hp L registry. printable pt hp L p" "apart hp L registry"
    and "card (live_objects hp L registry) < fuel"
  shows "(\<exists>result. snapshot pt next_order hp fuel L registry = Inr result \<and> dom result = live_objects hp L registry) \<or>
    (snapshot pt next_order hp fuel L registry = Inl (LuaError ''stack overflow'') \<and> \<not> roomy hp L registry)"
proof (cases "walk pt hp fuel L registry")
  case (Inl e)
  then show ?thesis using walk_ok [OF assms] by (simp add: snapshot_def)
next
  case (Inr sn)
  then have sn: "snap_ok hp sn" "sn_mark sn = live_objects hp L registry" using walk_ok [OF assms] by simp_all
  have "gen_result pt next_order sn p \<noteq> None \<longleftrightarrow> p \<in> sn_mark sn" for p
    using gen_result_dom [OF sn(1), where p = p and pt = pt and next_order = next_order] by (cases "p \<in> sn_mark sn") auto
  then show ?thesis using Inr sn(2) by (auto simp: snapshot_def dom_def)
qed

text \<open>
  C20: In a heap with room on the stacks, the record of a live object names all of its referrers and no other: the live objects that refer to
  it, and the null pointer for the registry.  Room: every live thread and the running one have two free slots per live object and 22 more on their stacks of
  8000.  Assumed besides: the registry is a table, the descriptions fit their arrays, and an object that refers to the running thread
  is the registry, or cannot be reached from another thread (coming from another thread, the walk would take what it has itself on the stack of the
  running one for references).
\<close>

theorem snapshot_referrers:
  assumes "tidx_of (hp registry) = TABLE" "\<forall>p\<in>live_objects hp L registry. printable pt hp L p" "apart hp L registry"
    and "card (live_objects hp L registry) < fuel" "roomy hp L registry" "q \<in> live_objects hp L registry"
  shows "\<exists>sn refs. walk pt hp fuel L registry = Inr sn \<and> sn_objs sn (tidx_of (hp q)) q = Some refs \<and>
    fst ` set refs = {p. (p \<in> live_objects hp L registry \<and> refers hp L p q) \<or> (p = 0 \<and> q = registry)}"
proof -
  obtain sn where sn: "walk pt hp fuel L registry = Inr sn" "snap_ok hp sn" "sn_mark sn = live_objects hp L registry"
    "referrers hp sn q = {p. (p \<in> live_objects hp L registry \<and> refers hp L p q) \<or> (p = 0 \<and> q = registry)}"
    using walk_ok [OF assms(1-4)] assms(5) by (cases "walk pt hp fuel L registry") auto
  obtain refs where "sn_objs sn (tidx_of (hp q)) q = Some refs" using sn(2,3) assms(6) unfolding snap_ok_def by blast
  with sn show ?thesis by (auto simp: referrers_def)
qed

text \<open>
  A small heap: the registry 1 holds the table 2 as a value and as a key, the running thread 9 and a suspended thread 4 with table 2
  on its stack; table 3 refers to 2 and is not live.
\<close>

definition demo_heap :: lua_heap where
  "demo_heap p =
     (if p = 1 then Table \<lparr>tb_meta = None,
        tb_entries = [(SStr [97], SObj 2), (SObj 2, SBool True), (SStr (bytes ''mainthread''), SObj 9), (SStr [99], SObj 4)]\<rparr>
      else if p = 3 then Table \<lparr>tb_meta = None, tb_entries = [(SStr [98], SObj 2)]\<rparr>
      else if p = 4 then Thread \<lparr>th_stack = [SObj 2], th_frames = []\<rparr>
      else if p = 9 then Thread \<lparr>th_stack = [], th_frames = [\<lparr>fr_src = bytes ''[C]'', fr_line = -1, fr_locals = []\<rparr>]\<rparr>
      else Table \<lparr>tb_meta = None, tb_entries = []\<rparr>)"

definition demo_ptr :: ptr_text where
  "demo_ptr p = [48, 120, 49]"

lemma demo_refers:
  "refers demo_heap 9 1 q \<longleftrightarrow> q \<in> {2, 4, 9}" "\<not> refers demo_heap 9 2 q" "refers demo_heap 9 4 q \<longleftrightarrow> q = 2" "\<not> refers demo_heap 9 9 q"
  by (auto simp: refers_def demo_heap_def weak_mode_def)

lemma demo_live: "live_objects demo_heap 9 1 = {1, 2, 4, 9}"
proof -
  have "p \<in> {1, 2, 4, 9}" if "(refers demo_heap 9)\<^sup>*\<^sup>* 1 p" for p
    using that by (induction rule: rtranclp_induct) (auto simp: demo_refers)
  moreover have "(refers demo_heap 9)\<^sup>*\<^sup>* 1 q" if "q \<in> {2, 4, 9}" for q using that by (intro r_into_rtranclp) (simp add: demo_refers)
  ultimately show ?thesis unfolding live_objects_def by auto
qed

lemma demo_walkable:
  "tidx_of (demo_heap 1) = TABLE" "\<forall>p\<in>{1, 2, 4, 9}. printable demo_ptr demo_heap 9 p" "apart demo_heap 9 1" "roomy demo_heap 9 1"
proof -
  show "tidx_of (demo_heap 1) = TABLE" by (simp add: demo_heap_def tidx_of_def)
  show "\<forall>p\<in>{1, 2, 4, 9}. printable demo_ptr demo_heap 9 p"
    by (auto simp: printable_def refs_of_def demo_heap_def table_refs_def weak_mode_def entry_refs_def meta_refs_def keystring_def sprintf_to_def
        typename_def tidx_of_def demo_ptr_def bytes_def thread_refs_def stack_refs_def frame_refs_def local_ref_def)
  show "apart demo_heap 9 1" by (auto simp: apart_def demo_live demo_refers)
  show "roomy demo_heap 9 1" by (simp add: roomy_def demo_live heap_stacks_def demo_heap_def LUA_MINSTACK_def LUAI_MAXCSTACK_def)
qed

theorem snapshot_live_objects_witness:
  "\<exists>result. snapshot demo_ptr (\<lambda>refs. refs) demo_heap 5 9 1 = Inr result \<and> dom result = {1, 2, 4, 9}"
  using snapshot_live_objects [of demo_heap 1 9 demo_ptr 5 "\<lambda>refs. refs"] demo_walkable unfolding demo_live by simp

theorem snapshot_referrers_witness:
  "\<exists>sn refs. walk demo_ptr demo_heap 5 9 1 = Inr sn \<and> sn_objs sn TABLE 2 = Some refs \<and> fst ` set refs = {1, 4}"
proof -
  have "{p. (p \<in> {1, 2, 4, 9} \<and> refers demo_heap 9 p 2) \<or> (p = 0 \<and> (2 :: ptr) = 1)} = {1 :: ptr, 4}"
    by (auto simp: demo_refers)
  moreover have "tidx_of (demo_heap 2) = TABLE" by (simp add: demo_heap_def tidx_of_def)
  ultimately show ?thesis using snapshot_referrers [of demo_heap 1 9 demo_ptr 5 2] demo_walkable unfolding demo_live by simp
qed

section \<open>Deep heaps and long names\<close>

text \<open>
  A reference that is marked when its state has no \<open>LUA_MINSTACK\<close> free slots fails, whatever it refers to: so a chain of nested tables of some
  thousand links, each with its key and value on the stack, cannot be walked.
\<close>

lemma full_stack_fails:
  assumes "rf_checked r" "rf_desc r = Inr desc" "LUAI_MAXCSTACK < length (stks L) + length (rf_below r) + 1 + LUA_MINSTACK"
  shows "mark_object pt hp running (Suc n) stks L sn parent r = Inl (LuaError ''stack overflow'')"
  using assms by (simp add: luaL_checkstack_def push_values_def)

text \<open>
  A local variable whose name, source and line take 124 bytes or more together is printed past the end of the
  array, so a snapshot taken while such a function is active overruns it.
\<close>

lemma local_name_overruns:
  assumes "128 \<le> length name + 4 + length (fr_src fr) + length (show_int (fr_line fr))"
  shows "mark_object pt hp running (Suc n) stks L sn parent (local_ref fr (name, v)) = Inl OutOfBounds"
  using assms by (simp add: local_ref_def sprintf_to_def bytes_def)

end
