(* ===== verification/HostnameValidation.thy ===== *)
theory HostnameValidation
  imports CLib
begin

text \<open>
  The check of a server certificate in \<open>openssl_hostname_validation.c\<close>.  A certificate is what OpenSSL answers about it:
  \<open>x_san\<close> is the result of \<open>X509_get_ext_d2i\<close> for the subject alternative name extension, which is null not only for a certificate
  without that extension but also when the extension cannot be decoded or occurs more than once; the other fields are the steps
  that lead to the common name.  The text of an ASN.1 string is followed by a NUL that its length does not count.
\<close>

datatype HostnameValidationResult = MatchFound | MatchNotFound | NoSANPresent | MalformedCertificate | Error

datatype general_name = GEN_DNS "byte list" | GEN_other

record x509 =
  x_san :: "general_name list option"
  x_cn_loc :: int
  x_cn_entry :: "byte list option option"

text \<open>\<open>strcasecmp\<close> on strings, as far as it tells equality.\<close>

definition same_name :: "byte list \<Rightarrow> byte list \<Rightarrow> bool" where
  "same_name a b \<longleftrightarrow> map tolower a = map tolower b"

text \<open>\<open>x_cn_entry\<close> is the entry at the position of the common name, if there is one, and the string in it, if there is one.\<close>

definition matches_common_name :: "byte list \<Rightarrow> x509 \<Rightarrow> c_fault + HostnameValidationResult" where
  "matches_common_name hostname cert =
     (if x_cn_loc cert < 0 then Inr Error
      else
        (case x_cn_entry cert of
           None \<Rightarrow> Inr Error
         | Some None \<Rightarrow> Inr Error
         | Some (Some asn1) \<Rightarrow>
             bindE (c_string (asn1 @ [0])) (\<lambda>common_name_str.
               if length asn1 \<noteq> length common_name_str then Inr MalformedCertificate
               else if same_name hostname common_name_str then Inr MatchFound
               else Inr MatchNotFound)))"

fun check_names :: "byte list \<Rightarrow> general_name list \<Rightarrow> c_fault + HostnameValidationResult" where
  "check_names hostname [] = Inr MatchNotFound"
| "check_names hostname (GEN_other # names) = check_names hostname names"
| "check_names hostname (GEN_DNS asn1 # names) =
     bindE (c_string (asn1 @ [0])) (\<lambda>dns_name.
       if length asn1 \<noteq> length dns_name then Inr MalformedCertificate
       else if same_name hostname dns_name then Inr MatchFound
       else check_names hostname names)"

definition matches_subject_alternative_name :: "byte list \<Rightarrow> x509 \<Rightarrow> c_fault + HostnameValidationResult" where
  "matches_subject_alternative_name hostname cert =
     (case x_san cert of None \<Rightarrow> Inr NoSANPresent | Some names \<Rightarrow> check_names hostname names)"

definition validate_hostname :: "byte list option \<Rightarrow> x509 option \<Rightarrow> c_fault + HostnameValidationResult" where
  "validate_hostname hostname cert =
     (case (hostname, cert) of
        (Some h, Some c) \<Rightarrow>
          bindE (matches_subject_alternative_name h c) (\<lambda>result.
            if result = NoSANPresent then matches_common_name h c else Inr result)
      | _ \<Rightarrow> Inr Error)"

section \<open>Names\<close>

text \<open>A string of a certificate names a host: it has no NUL inside and is the host's name in any case of letters.\<close>

definition names_host :: "byte list \<Rightarrow> byte list \<Rightarrow> bool" where
  "names_host h asn1 \<longleftrightarrow> 0 \<notin> set asn1 \<and> same_name h asn1"

lemma asn1_whole: "0 \<notin> set asn1 \<Longrightarrow> c_string (asn1 @ [0]) = Inr asn1"
  by simp

lemma asn1_cut:
  assumes "0 \<in> set asn1"
  shows "\<exists>s. c_string (asn1 @ [0]) = Inr s \<and> length asn1 \<noteq> length s"
proof -
  obtain s rest where "asn1 = s @ 0 # rest" "0 \<notin> set s" using split_list_first [OF assms] by blast
  then show ?thesis using c_string_ok [of s "rest @ [0]"] by (intro exI [of _ s]) simp
qed

text \<open>The first name that decides: one with a NUL inside, or one that names the host.\<close>

definition decides :: "byte list \<Rightarrow> general_name \<Rightarrow> bool" where
  "decides h n = (case n of GEN_DNS asn1 \<Rightarrow> 0 \<in> set asn1 \<or> names_host h asn1 | GEN_other \<Rightarrow> False)"

definition verdict :: "byte list \<Rightarrow> general_name \<Rightarrow> HostnameValidationResult" where
  "verdict h n = (case n of GEN_DNS asn1 \<Rightarrow> if 0 \<in> set asn1 then MalformedCertificate else MatchFound | GEN_other \<Rightarrow> MatchNotFound)"

lemma decides_simps [simp]: "decides h (GEN_DNS asn1) \<longleftrightarrow> 0 \<in> set asn1 \<or> names_host h asn1" "\<not> decides h GEN_other"
  by (simp_all add: decides_def)

lemma names_host_whole: "0 \<notin> set asn1 \<Longrightarrow> names_host h asn1 \<longleftrightarrow> same_name h asn1"
  by (simp add: names_host_def)

lemma check_DNS:
  "check_names h (GEN_DNS asn1 # names) =
     (if 0 \<in> set asn1 then Inr MalformedCertificate else if names_host h asn1 then Inr MatchFound else check_names h names)"
proof (cases "0 \<in> set asn1")
  case True
  then obtain s where "c_string (asn1 @ [0]) = Inr s" "length asn1 \<noteq> length s" using asn1_cut by blast
  with True show ?thesis by simp
qed (simp add: names_host_whole)

lemma check_names_first: "check_names h names = Inr (case find (decides h) names of None \<Rightarrow> MatchNotFound | Some n \<Rightarrow> verdict h n)"
proof (induction names)
  case (Cons n names)
  then show ?case by (cases n) (auto simp: check_DNS verdict_def simp del: check_names.simps(3))
qed simp




section \<open>Properties\<close>


text \<open>
  The answer for a malformed certificate depends on the order of its names: a name with a NUL inside counts only when no name before it is
  the host's, while the comment says that any such name makes the certificate malformed.
\<close>

lemma malformed_after_match:
  assumes "x_san cert = Some [GEN_DNS good, GEN_DNS bad]" "names_host h good" "0 \<in> set bad"
  shows "validate_hostname (Some h) (Some cert) = Inr MatchFound"
    and "validate_hostname (Some h) (Some (cert\<lparr>x_san := Some [GEN_DNS bad, GEN_DNS good]\<rparr>)) = Inr MalformedCertificate"
  using assms by (auto simp: validate_hostname_def matches_subject_alternative_name_def check_names_first verdict_def names_host_def)

end
