(* ===== verification/MemFile.thy ===== *)
theory MemFile
  imports FastBuf
begin

text \<open>
  The memory stream \<open>CIMemFile\<close> of \<open>lae/include/IMemFile.h\<close> and \<open>lae/source/IMemFile.cpp\<close>, the
  implementation of the interface \<open>CISerial\<close> that archives and messages read and write through:
  a \<open>FastBufAlloc\<close> of 32 bytes, a position and an error code.  Positions and sizes are \<open>size_t\<close>
  and their sums wrap; the \<open>int\<close> results keep the low 32 bits.
\<close>

section \<open>State and operations\<close>

datatype serial_err = ERR_NO | ERR_HANDLE | ERR_READ | ERR_WRITE

record memfile =
  mf_buf :: fastbuf
  mf_pos :: nat
  mf_err :: serial_err

definition CACHE :: nat where
  "CACHE = 32"

definition ret_int :: "nat \<Rightarrow> int" where
  "ret_int n = (int n + 2147483648) mod 4294967296 - 2147483648"

lemma ret_int_small: "n < 2147483648 \<Longrightarrow> ret_int n = int n"
  by (simp add: ret_int_def)

definition mf_new :: memfile where
  "mf_new = \<lparr>mf_buf = fb_new CACHE, mf_pos = 0, mf_err = ERR_NO\<rparr>"

definition mf_Initial :: "c_heap \<Rightarrow> memfile \<Rightarrow> byte list \<Rightarrow> c_fault + memfile" where
  "mf_Initial h m xs =
     bindE (fb_grow h CACHE (mf_buf m) (length xs)) (\<lambda>b1.
     bindE (fb_store CACHE b1 0 xs) (\<lambda>b2.
     bindE (fb_setcplen CACHE b2 (length xs)) (\<lambda>b3.
       Inr (m\<lparr>mf_buf := b3, mf_err := ERR_NO\<rparr>))))"

definition mf_of_buffer :: "c_heap \<Rightarrow> byte list \<Rightarrow> c_fault + memfile" where
  "mf_of_buffer h xs =
     bindE (fb_grow h CACHE (fb_new CACHE) (length xs)) (\<lambda>b1.
     bindE (fb_store CACHE b1 0 xs) (\<lambda>b2.
     bindE (fb_setcplen CACHE b2 (length xs)) (\<lambda>b3.
       Inr \<lparr>mf_buf = b3, mf_pos = 0, mf_err = ERR_NO\<rparr>)))"

definition mf_Release :: "memfile \<Rightarrow> memfile" where
  "mf_Release m = m\<lparr>mf_buf := fb_release CACHE (mf_buf m), mf_pos := 0, mf_err := ERR_NO\<rparr>"

text \<open>
  \<open>Read\<close> gives the stream, the result and the bytes copied to the caller's buffer (\<open>None\<close> when
  nothing is copied).  The caller's buffer is the caller's concern.
\<close>

definition mf_Read :: "memfile \<Rightarrow> nat \<Rightarrow> c_fault + (memfile \<times> int \<times> byte list option)" where
  "mf_Read m nSize =
     (if size_add (mf_pos m) nSize \<le> fb_cplen (mf_buf m) then
        bindE (fb_load CACHE (mf_buf m) (mf_pos m) nSize) (\<lambda>xs.
          Inr (m\<lparr>mf_pos := size_add (mf_pos m) nSize\<rparr>, ret_int nSize, Some xs))
      else Inr (m\<lparr>mf_err := ERR_READ\<rparr>, - 1, None))"

definition mf_SetPos :: "memfile \<Rightarrow> nat \<Rightarrow> memfile \<times> nat" where
  "mf_SetPos m pos = (if pos \<le> fb_cplen (mf_buf m) then m\<lparr>mf_pos := pos\<rparr> else m, pos)"

definition mf_GetPos :: "memfile \<Rightarrow> nat" where
  "mf_GetPos m = mf_pos m"

definition mf_GetValidCount :: "memfile \<Rightarrow> int" where
  "mf_GetValidCount m = ret_int (fb_cplen (mf_buf m))"

definition mf_GetBuffer :: "memfile \<Rightarrow> byte list option" where
  "mf_GetBuffer m = fb_buf CACHE (mf_buf m)"

definition mf_GetBufferLen :: "memfile \<Rightarrow> int" where
  "mf_GetBufferLen m = ret_int (fb_alloc (mf_buf m))"

definition mf_grown :: "c_heap \<Rightarrow> memfile \<Rightarrow> nat \<Rightarrow> c_fault + memfile" where
  "mf_grown h m n = bindE (fb_grow h CACHE (mf_buf m) n) (\<lambda>b. Inr (m\<lparr>mf_buf := b\<rparr>))"

definition mf_removeHeadBuffer :: "memfile \<Rightarrow> nat \<Rightarrow> c_fault + memfile" where
  "mf_removeHeadBuffer m n =
     (if n \<ge> fb_cplen (mf_buf m) then
        bindE (fb_setcplen CACHE (mf_buf m) 0) (\<lambda>b. Inr (m\<lparr>mf_buf := b, mf_pos := 0\<rparr>))
      else
        bindE (fb_load CACHE (mf_buf m) n (fb_cplen (mf_buf m) - n)) (\<lambda>xs.
        bindE (fb_store CACHE (mf_buf m) 0 xs) (\<lambda>b1.
        bindE (fb_setcplen CACHE b1 (fb_cplen b1 - n)) (\<lambda>b2.
          Inr (m\<lparr>mf_buf := b2, mf_pos := 0\<rparr>)))))"

text \<open>The common end of the two branches of \<open>Write\<close>.\<close>

definition mf_put :: "memfile \<Rightarrow> byte list \<Rightarrow> c_fault + memfile" where
  "mf_put m xs =
     bindE (fb_store CACHE (mf_buf m) (mf_pos m) xs) (\<lambda>b1.
       let pos = size_add (mf_pos m) (length xs) in
       bindE (if pos > fb_cplen b1 then fb_setcplen CACHE b1 pos else Inr b1) (\<lambda>b2.
         Inr (m\<lparr>mf_buf := b2, mf_pos := pos\<rparr>)))"

definition mf_Write :: "c_heap \<Rightarrow> memfile \<Rightarrow> byte list \<Rightarrow> c_fault + (memfile \<times> int)" where
  "mf_Write h m xs =
     (if size_add (mf_pos m) (length xs) \<le> fb_alloc (mf_buf m)
      then bindE (mf_put m xs) (\<lambda>m'. Inr (m', ret_int (length xs)))
      else
        bindE (fb_grow h CACHE (mf_buf m)
                 (size_add (fb_alloc (mf_buf m)) (length xs) * 2 mod SIZE_MOD)) (\<lambda>b.
        bindE (mf_put (m\<lparr>mf_buf := b\<rparr>) xs) (\<lambda>m'. Inr (m', - 1))))"

definition mf_Error :: "memfile \<Rightarrow> serial_err" where
  "mf_Error m = mf_err m"

section \<open>Invariant and content\<close>

text \<open>
  The buffer is well-formed, the position is within the content, and the sizes stay below \<open>2 ^ 31\<close>,
  where the \<open>int\<close> results tell the truth.
\<close>

definition mf_wf :: "memfile \<Rightarrow> bool" where
  "mf_wf m \<longleftrightarrow> fb_wf CACHE (mf_buf m) \<and> mf_pos m \<le> fb_cplen (mf_buf m)"

definition mf_content :: "memfile \<Rightarrow> byte list" where
  "mf_content m = fb_text CACHE (mf_buf m)"

text \<open>
  Room for \<open>n\<close> more bytes, in one or several writes: memory is granted and no size can wrap.  A
  write at least doubles a capacity that it outgrows, to at most four times the new length.
\<close>

definition mf_room :: "c_heap \<Rightarrow> memfile \<Rightarrow> nat \<Rightarrow> bool" where
  "mf_room h m n \<longleftrightarrow> (\<forall>k. can_alloc h k) \<and>
     4 * max (fb_alloc (mf_buf m)) (4 * (fb_cplen (mf_buf m) + n)) + 1 < SIZE_MOD"

lemma mf_new_wf: "mf_wf mf_new \<and> mf_content mf_new = [] \<and> mf_pos mf_new = 0"
  using fb_new_wf [of CACHE] by (simp add: mf_wf_def mf_new_def mf_content_def CACHE_def SIZE_MOD_def)

lemma length_mf_content: "mf_wf m \<Longrightarrow> length (mf_content m) = fb_cplen (mf_buf m)"
  by (simp add: mf_wf_def mf_content_def length_fb_text)

text \<open>Overwriting part of the content, and extending it when the part reaches past the end.\<close>

definition overwrite :: "'a list \<Rightarrow> nat \<Rightarrow> 'a list \<Rightarrow> 'a list" where
  "overwrite ys p xs = take p ys @ xs @ drop (p + length xs) ys"

lemma mf_put_ok:
  assumes wf: "mf_wf m" and fit: "mf_pos m + length xs \<le> fb_alloc (mf_buf m)"
  shows "\<exists>m'. mf_put m xs = Inr m' \<and> mf_wf m' \<and> mf_content m' = overwrite (mf_content m) (mf_pos m) xs \<and>
    mf_pos m' = mf_pos m + length xs \<and> fb_alloc (mf_buf m') = fb_alloc (mf_buf m) \<and> mf_err m' = mf_err m"
proof -
  let ?b = "mf_buf m" and ?p = "mf_pos m" and ?n = "length xs"
  have b: "fb_wf CACHE ?b" "?p \<le> fb_cplen ?b" using wf by (auto simp: mf_wf_def)
  obtain cells where c: "fb_buf CACHE ?b = Some cells" "length cells = fb_alloc ?b + 1" "fb_cplen ?b \<le> fb_alloc ?b"
    "fb_alloc ?b + 1 < SIZE_MOD"
    using b(1) by (auto elim: fb_wfE)
  have pos: "size_add ?p ?n = ?p + ?n" using fit c(4) by (simp add: size_add_small)
  let ?cells = "take ?p cells @ xs @ drop (?p + ?n) cells"
  obtain b1 where b1: "fb_store CACHE ?b ?p xs = Inr b1" "fb_wf CACHE b1" "fb_cplen b1 = fb_cplen ?b"
    "fb_alloc b1 = fb_alloc ?b" "fb_buf CACHE b1 = Some ?cells"
    using fb_store_ok [OF b(1) c(1), of ?p xs] fit by auto
  have content: "mf_content m = take (fb_cplen ?b) cells" using c by (simp add: mf_content_def fb_text_def)
  show ?thesis
  proof (cases "?p + ?n > fb_cplen ?b")
    case True
    obtain b2 where b2: "fb_setcplen CACHE b1 (?p + ?n) = Inr b2" "fb_wf CACHE b2" "fb_cplen b2 = ?p + ?n"
      "fb_alloc b2 = fb_alloc b1" "fb_buf CACHE b2 = Some (?cells[?p + ?n := 0])"
      using fb_setcplen_ok [OF b1(2,5), of "?p + ?n"] b1 fit by auto
    then have "fb_text CACHE b2 = overwrite (mf_content m) ?p xs"
      using b c True by (simp add: fb_text_def content overwrite_def min_def)
    with b1 b2 True pos show ?thesis
      by (simp add: mf_put_def Let_def mf_wf_def mf_content_def [of "m\<lparr>mf_buf := b2, mf_pos := _\<rparr>"])
  next
    case False
    then have "fb_text CACHE b1 = overwrite (mf_content m) ?p xs"
      using b c b1 by (auto simp: fb_text_def content overwrite_def min_def drop_take dest: le_antisym)
    with b1 False pos show ?thesis
      by (simp add: mf_put_def Let_def mf_wf_def mf_content_def [of "m\<lparr>mf_buf := b1, mf_pos := _\<rparr>"])
  qed
qed

lemma mf_Write_cases:
  assumes wf: "mf_wf m" and size: "(fb_alloc (mf_buf m) + length xs) * 2 + 1 < SIZE_MOD"
  shows "case mf_Write h m xs of
      Inl e \<Rightarrow> e = Die ''bad_alloc'' \<and> \<not> (\<forall>k. can_alloc h k)
    | Inr (m', r) \<Rightarrow> mf_wf m' \<and> mf_content m' = overwrite (mf_content m) (mf_pos m) xs \<and>
        mf_pos m' = mf_pos m + length xs \<and> mf_err m' = mf_err m \<and>
        fb_alloc (mf_buf m') =
          (if mf_pos m + length xs \<le> fb_alloc (mf_buf m) then fb_alloc (mf_buf m)
           else (fb_alloc (mf_buf m) + length xs) * 2) \<and>
        r = (if mf_pos m + length xs \<le> fb_alloc (mf_buf m) then ret_int (length xs) else - 1)"
proof -
  let ?b = "mf_buf m" and ?n = "length xs"
  have b: "fb_wf CACHE ?b" "mf_pos m \<le> fb_cplen ?b" "fb_cplen ?b \<le> fb_alloc ?b"
    using wf by (auto simp: mf_wf_def elim: fb_wfE)
  have pos: "size_add (mf_pos m) ?n = mf_pos m + ?n" "size_add (fb_alloc ?b) ?n = fb_alloc ?b + ?n"
    "(fb_alloc ?b + ?n) * 2 mod SIZE_MOD = (fb_alloc ?b + ?n) * 2"
    using size b by (simp_all add: size_add_small)
  show ?thesis
  proof (cases "mf_pos m + ?n \<le> fb_alloc ?b")
    case True
    with mf_put_ok [OF wf, of xs] pos show ?thesis by (auto simp: mf_Write_def)
  next
    case False
    let ?s = "(fb_alloc ?b + ?n) * 2"
    note g = fb_grow_cases [OF b(1), of ?s h]
    show ?thesis
    proof (cases "fb_grow h CACHE ?b ?s")
      case (Inl e)
      with g size False pos show ?thesis by (auto simp: mf_Write_def)
    next
      case (Inr b1)
      with g size have b1: "fb_wf CACHE b1" "fb_cplen b1 = fb_cplen ?b" "fb_text CACHE b1 = fb_text CACHE ?b"
        "fb_alloc b1 = ?s" by (simp_all add: max_def split: if_splits)
      let ?m = "m\<lparr>mf_buf := b1\<rparr>"
      have "mf_wf ?m" "mf_content ?m = mf_content m" "mf_pos ?m + ?n \<le> fb_alloc (mf_buf ?m)"
        using b b1 by (auto simp: mf_wf_def mf_content_def)
      with mf_put_ok [of ?m xs] Inr False pos b1(4) show ?thesis by (auto simp: mf_Write_def)
    qed
  qed
qed

lemma mf_room_size: "mf_room h m n \<Longrightarrow> (fb_alloc (mf_buf m) + n) * 2 + 1 < SIZE_MOD"
  unfolding mf_room_def max_def by (auto split: if_splits)

lemma mf_room_mono: "mf_room h m n \<Longrightarrow> k \<le> n \<Longrightarrow> mf_room h m k"
  by (auto simp: mf_room_def max_def split: if_splits)

lemma length_overwrite: "p \<le> length ys \<Longrightarrow> length (overwrite ys p xs) = max (length ys) (p + length xs)"
  by (auto simp: overwrite_def)

lemma alloc_max_bound:
  fixes a a' c n k p :: nat
  assumes "a' = (if p + k \<le> a then a else (a + k) * 2)" "p \<le> c"
  shows "max a' (4 * (max c (p + k) + n)) \<le> max a (4 * (c + (k + n)))"
proof -
  have a': "a' \<le> max a (4 * (c + (k + n)))" using assms by (cases "p + k \<le> a") (auto simp: max_def)
  have "max c (p + k) + n \<le> c + (k + n)" using assms by simp
  then have "4 * (max c (p + k) + n) \<le> 4 * (c + (k + n))" by (rule mult_le_mono2)
  with a' show ?thesis by (meson max.bounded_iff max.coboundedI2)
qed

lemma mf_Write_ok:
  assumes wf: "mf_wf m" and room: "mf_room h m (length xs)"
  obtains m' r where "mf_Write h m xs = Inr (m', r)" "mf_wf m'"
    "mf_content m' = overwrite (mf_content m) (mf_pos m) xs" "mf_pos m' = mf_pos m + length xs"
    "\<And>n. mf_room h m (length xs + n) \<Longrightarrow> mf_room h m' n" "mf_err m' = mf_err m"
proof -
  obtain m' r where w: "mf_Write h m xs = Inr (m', r)" "mf_wf m'"
    "mf_content m' = overwrite (mf_content m) (mf_pos m) xs" "mf_pos m' = mf_pos m + length xs" "mf_err m' = mf_err m"
    and alloc: "fb_alloc (mf_buf m') =
          (if mf_pos m + length xs \<le> fb_alloc (mf_buf m) then fb_alloc (mf_buf m)
           else (fb_alloc (mf_buf m) + length xs) * 2)"
    using mf_Write_cases [OF wf mf_room_size [OF room], of h] room
    by (cases "mf_Write h m xs") (auto simp: mf_room_def)
  have pos: "mf_pos m \<le> fb_cplen (mf_buf m)" using wf by (simp add: mf_wf_def)
  have "fb_cplen (mf_buf m') = max (fb_cplen (mf_buf m)) (mf_pos m + length xs)"
    using length_mf_content [OF wf] length_mf_content [OF w(2)] w(3) length_overwrite [of "mf_pos m" "mf_content m" xs] pos
    by simp
  then have "max (fb_alloc (mf_buf m')) (4 * (fb_cplen (mf_buf m') + n)) \<le>
      max (fb_alloc (mf_buf m)) (4 * (fb_cplen (mf_buf m) + (length xs + n)))" for n
    using alloc_max_bound [OF alloc pos] by simp
  then have "mf_room h m (length xs + n) \<Longrightarrow> mf_room h m' n" for n
    unfolding mf_room_def by (meson add_le_mono1 le_less_trans mult_le_mono2)
  with w that show thesis by blast
qed

lemma mf_Read_ok:
  assumes wf: "mf_wf m" and n: "mf_pos m + n \<le> length (mf_content m)"
  shows "mf_Read m n = Inr (m\<lparr>mf_pos := mf_pos m + n\<rparr>, ret_int n, Some (take n (drop (mf_pos m) (mf_content m))))"
proof -
  obtain cells where c: "fb_buf CACHE (mf_buf m) = Some cells" "length cells = fb_alloc (mf_buf m) + 1"
    "fb_cplen (mf_buf m) \<le> fb_alloc (mf_buf m)" "fb_alloc (mf_buf m) + 1 < SIZE_MOD"
    using wf by (auto simp: mf_wf_def elim: fb_wfE)
  have le: "mf_pos m + n \<le> fb_cplen (mf_buf m)" using n wf by (simp add: length_mf_content)
  then have "size_add (mf_pos m) n = mf_pos m + n" using c by (simp add: size_add_small)
  moreover have "take n (drop (mf_pos m) cells) = take n (drop (mf_pos m) (mf_content m))"
    using c le by (simp add: mf_content_def fb_text_def drop_take min_def)
  ultimately show ?thesis using c le by (simp add: mf_Read_def fb_load_def mem_read_def)
qed

lemma mf_Read_short:
  assumes "mf_wf m" "length (mf_content m) < mf_pos m + n" "mf_pos m + n < SIZE_MOD"
  shows "mf_Read m n = Inr (m\<lparr>mf_err := ERR_READ\<rparr>, - 1, None)"
  using assms by (simp add: mf_Read_def size_add_small length_mf_content)

lemma mf_SetPos_ok:
  assumes "mf_wf m" "p \<le> length (mf_content m)"
  shows "mf_SetPos m p = (m\<lparr>mf_pos := p\<rparr>, p)" "mf_wf (m\<lparr>mf_pos := p\<rparr>)"
    "mf_content (m\<lparr>mf_pos := p\<rparr>) = mf_content m" "mf_room h (m\<lparr>mf_pos := p\<rparr>) n = mf_room h m n"
proof -
  have "p \<le> fb_cplen (mf_buf m)" using assms by (simp add: length_mf_content)
  then show "mf_SetPos m p = (m\<lparr>mf_pos := p\<rparr>, p)" "mf_wf (m\<lparr>mf_pos := p\<rparr>)"
    "mf_content (m\<lparr>mf_pos := p\<rparr>) = mf_content m" "mf_room h (m\<lparr>mf_pos := p\<rparr>) n = mf_room h m n"
    using assms(1) by (simp_all add: mf_SetPos_def mf_wf_def mf_content_def mf_room_def)
qed

section \<open>The contract of a stream\<close>

text \<open>
  What archives rely on (\<open>CISerial\<close>): a content and a position, writes that overwrite at the
  position and extend the content, reads that return the bytes at the position, and seeking.
\<close>

fun write_all :: "('s \<Rightarrow> byte list \<Rightarrow> c_fault + ('s \<times> int)) \<Rightarrow> 's \<Rightarrow> byte list list \<Rightarrow> c_fault + 's" where
  "write_all w s [] = Inr s"
| "write_all w s (xs # xss) = bindE (w s xs) (\<lambda>(s', _). write_all w s' xss)"

fun read_all :: "('s \<Rightarrow> nat \<Rightarrow> c_fault + ('s \<times> int \<times> byte list option)) \<Rightarrow> 's \<Rightarrow> nat list \<Rightarrow> c_fault + (byte list list \<times> 's)" where
  "read_all r s [] = Inr ([], s)"
| "read_all r s (n # ns) =
     bindE (r s n) (\<lambda>(s', _, got).
     bindE (read_all r s' ns) (\<lambda>(xss, s''). Inr ((case got of Some xs \<Rightarrow> xs | None \<Rightarrow> []) # xss, s'')))"

locale serial_stream =
  fixes invar :: "'s \<Rightarrow> bool"
    and content :: "'s \<Rightarrow> byte list"
    and pos :: "'s \<Rightarrow> nat"
    and room :: "'s \<Rightarrow> nat \<Rightarrow> bool"
    and wr :: "'s \<Rightarrow> byte list \<Rightarrow> c_fault + ('s \<times> int)"
    and rd :: "'s \<Rightarrow> nat \<Rightarrow> c_fault + ('s \<times> int \<times> byte list option)"
    and seek :: "'s \<Rightarrow> nat \<Rightarrow> 's \<times> nat"
  assumes pos_le: "invar s \<Longrightarrow> pos s \<le> length (content s)"
    and wr_ok: "invar s \<Longrightarrow> room s (length xs) \<Longrightarrow> \<exists>s' r. wr s xs = Inr (s', r) \<and> invar s' \<and>
        content s' = overwrite (content s) (pos s) xs \<and> pos s' = pos s + length xs \<and>
        (\<forall>n. room s (length xs + n) \<longrightarrow> room s' n)"
    and rd_ok: "invar s \<Longrightarrow> pos s + n \<le> length (content s) \<Longrightarrow> \<exists>s' r.
        rd s n = Inr (s', r, Some (take n (drop (pos s) (content s)))) \<and> invar s' \<and>
        content s' = content s \<and> pos s' = pos s + n"
    and seek_ok: "invar s \<Longrightarrow> p \<le> length (content s) \<Longrightarrow>
        invar (fst (seek s p)) \<and> content (fst (seek s p)) = content s \<and> pos (fst (seek s p)) = p"
    and room_mono: "room s n \<Longrightarrow> k \<le> n \<Longrightarrow> room s k"
begin

text \<open>A sequence of writes at the end of the content appends the concatenation.\<close>

lemma write_all_ok:
  "invar s \<Longrightarrow> pos s = length (content s) \<Longrightarrow> room s (length (concat xss)) \<Longrightarrow>
     \<exists>s'. write_all wr s xss = Inr s' \<and> invar s' \<and> content s' = content s @ concat xss \<and>
       pos s' = length (content s')"
proof (induction xss arbitrary: s)
  case (Cons xs xss)
  then have "room s (length xs)" using room_mono [of s "length (concat (xs # xss))" "length xs"] by simp
  with Cons.prems obtain s1 r where s1: "wr s xs = Inr (s1, r)" "invar s1"
    "content s1 = overwrite (content s) (pos s) xs" "pos s1 = pos s + length xs"
    "\<forall>n. room s (length xs + n) \<longrightarrow> room s1 n"
    using wr_ok by blast
  have c1: "content s1 = content s @ xs" using s1(3) Cons.prems(2) by (simp add: overwrite_def)
  moreover have "pos s1 = length (content s1)" using s1(4) c1 Cons.prems(2) by simp
  moreover have "room s1 (length (concat xss))" using s1(5) Cons.prems(3) by simp
  ultimately show ?case using Cons.IH [OF s1(2)] s1(1) by auto
qed simp

text \<open>Reading back the lengths of the pieces gives the pieces.\<close>

lemma read_all_ok:
  "invar s \<Longrightarrow> drop (pos s) (content s) = concat xss @ rest \<Longrightarrow>
     \<exists>s'. read_all rd s (map length xss) = Inr (xss, s') \<and> invar s' \<and> content s' = content s \<and>
       pos s' = pos s + length (concat xss)"
proof (induction xss arbitrary: s)
  case (Cons xs xss)
  have "length (drop (pos s) (content s)) = length (concat (xs # xss) @ rest)" using Cons.prems(2) by simp
  then have "pos s + length xs \<le> length (content s)" using pos_le [OF Cons.prems(1)] by simp
  with Cons.prems(1) obtain s1 r where s1: "rd s (length xs) = Inr (s1, r, Some (take (length xs) (drop (pos s) (content s))))"
    "invar s1" "content s1 = content s" "pos s1 = pos s + length xs"
    using rd_ok by blast
  have "drop (pos s1) (content s1) = drop (length xs) (drop (pos s) (content s))"
    using s1 by (simp add: add.commute)
  then have "drop (pos s1) (content s1) = concat xss @ rest" using Cons.prems(2) by simp
  with Cons.IH [OF s1(2)] s1 Cons.prems(2) show ?case by auto
qed simp

lemma write_seek_read:
  assumes "invar s" "pos s = length (content s)" "room s (length (concat xss))"
  shows "\<exists>s1 s2. write_all wr s xss = Inr s1 \<and>
    read_all rd (fst (seek s1 (pos s))) (map length xss) = Inr (xss, s2)"
proof -
  obtain s1 where s1: "write_all wr s xss = Inr s1" "invar s1" "content s1 = content s @ concat xss"
    using write_all_ok [OF assms] by blast
  then have "invar (fst (seek s1 (pos s)))" "content (fst (seek s1 (pos s))) = content s @ concat xss"
    "pos (fst (seek s1 (pos s))) = length (content s)"
    using seek_ok [of s1 "pos s"] assms(2) by auto
  then show ?thesis using read_all_ok [of "fst (seek s1 (pos s))" xss "[]"] s1(1) by auto
qed

end

interpretation mf: serial_stream mf_wf mf_content mf_pos "mf_room h" "mf_Write h" mf_Read mf_SetPos for h
proof unfold_locales
  fix s :: memfile and xs :: "byte list" and n k p :: nat
  show "mf_room h s n \<Longrightarrow> k \<le> n \<Longrightarrow> mf_room h s k" by (rule mf_room_mono)
  assume wf: "mf_wf s"
  then show "mf_pos s \<le> length (mf_content s)" by (simp add: length_mf_content) (simp add: mf_wf_def)
  show "\<exists>s' r. mf_Write h s xs = Inr (s', r) \<and> mf_wf s' \<and> mf_content s' = overwrite (mf_content s) (mf_pos s) xs \<and>
      mf_pos s' = mf_pos s + length xs \<and> (\<forall>n. mf_room h s (length xs + n) \<longrightarrow> mf_room h s' n)"
    if "mf_room h s (length xs)"
    using mf_Write_ok [OF wf that] by metis
  show "\<exists>s' r. mf_Read s n = Inr (s', r, Some (take n (drop (mf_pos s) (mf_content s)))) \<and> mf_wf s' \<and>
      mf_content s' = mf_content s \<and> mf_pos s' = mf_pos s + n" if "mf_pos s + n \<le> length (mf_content s)"
    using mf_Read_ok [OF wf that] mf_SetPos_ok(2,3) [OF wf that] by auto
  show "mf_wf (fst (mf_SetPos s p)) \<and> mf_content (fst (mf_SetPos s p)) = mf_content s \<and> mf_pos (fst (mf_SetPos s p)) = p"
    if "p \<le> length (mf_content s)"
    using mf_SetPos_ok [OF wf that] by simp
qed


section \<open>Properties\<close>

text \<open>A heap that grants every request, for the concrete instances.\<close>

definition open_heap :: c_heap where
  "open_heap = \<lparr>can_alloc = (\<lambda>_. True), fresh = (\<lambda>_. 0)\<rparr>"

lemma can_alloc_open_heap [simp]: "can_alloc open_heap k"
  by (simp add: open_heap_def)

lemma mf_room_new: "n < 1000000 \<Longrightarrow> mf_room open_heap mf_new n"
  by (simp add: mf_room_def mf_new_def fb_new_def CACHE_def SIZE_MOD_def)

text \<open>
  Bytes written at the end of a memory stream, in any number of writes, are read back piece by
  piece after seeking to where the writing began, as long as memory is granted; no access leaves
  the buffer.
\<close>

theorem mf_write_read_back:
  assumes "mf_wf m" "mf_pos m = length (mf_content m)" "mf_room h m (length (concat xss))"
  shows "\<exists>m1 m2. write_all (mf_Write h) m xss = Inr m1 \<and>
    read_all mf_Read (fst (mf_SetPos m1 (mf_pos m))) (map length xss) = Inr (xss, m2)"
  using assms by (rule mf.write_seek_read)

theorem mf_write_read_back_witness:
  "\<exists>m1 m2. write_all (mf_Write open_heap) mf_new [[1, 2], [3]] = Inr m1 \<and>
    read_all mf_Read (fst (mf_SetPos m1 0)) [2, 1] = Inr ([[1, 2], [3]], m2)"
proof -
  have m: "mf_wf mf_new" "mf_pos mf_new = length (mf_content mf_new)" and z: "mf_pos mf_new = 0"
    using mf_new_wf by auto
  have l: "map length [[1, 2], [3 :: byte]] = [2, 1]" by simp
  have "mf_room open_heap mf_new (length (concat [[1, 2], [3 :: byte]]))" by (rule mf_room_new) simp
  from mf_write_read_back [OF m this] show ?thesis unfolding l z .
qed

text \<open>
  \<open>Write\<close> stores all its bytes whether or not the buffer has to grow, and never sets the error
  code; but when the buffer grows it returns -1, the value that means failure in \<open>Read\<close>.
\<close>

theorem mf_Write_result:
  assumes "mf_wf m" "mf_room h m (length xs)"
  shows "\<exists>m' r. mf_Write h m xs = Inr (m', r) \<and> mf_wf m' \<and> mf_err m' = mf_err m \<and>
    mf_content m' = overwrite (mf_content m) (mf_pos m) xs \<and> mf_pos m' = mf_pos m + length xs \<and>
    r = (if mf_pos m + length xs \<le> fb_alloc (mf_buf m) then ret_int (length xs) else - 1)"
proof (cases "mf_Write h m xs")
  case (Inl e)
  with mf_Write_cases [OF assms(1) mf_room_size [OF assms(2)], of h] assms(2) show ?thesis by (simp add: mf_room_def)
next
  case (Inr p)
  with mf_Write_cases [OF assms(1) mf_room_size [OF assms(2)], of h] show ?thesis by (cases p) simp
qed

theorem mf_Write_result_witness:
  "\<exists>m' r. mf_Write open_heap mf_new (replicate 33 7) = Inr (m', r) \<and> mf_content m' = replicate 33 7 \<and> r = - 1"
proof -
  have "mf_content mf_new = []" "mf_pos mf_new = 0" "fb_alloc (mf_buf mf_new) = 32"
    using mf_new_wf by (auto simp: mf_new_def fb_new_def CACHE_def)
  with mf_Write_result [of mf_new open_heap "replicate 33 7"] mf_new_wf mf_room_new [of 33]
  show ?thesis by (auto simp: overwrite_def)
qed

text \<open>Dropping a prefix of the content rewinds the stream.\<close>

lemma mf_removeHeadBuffer_ok:
  assumes "mf_wf m"
  shows "\<exists>m'. mf_removeHeadBuffer m n = Inr m' \<and> mf_wf m' \<and> mf_pos m' = 0 \<and>
    mf_content m' = drop n (mf_content m)"
proof -
  let ?b = "mf_buf m"
  obtain cells where c: "fb_buf CACHE ?b = Some cells" "length cells = fb_alloc ?b + 1" "fb_cplen ?b \<le> fb_alloc ?b"
    and b: "fb_wf CACHE ?b"
    using assms by (auto simp: mf_wf_def elim: fb_wfE)
  have content: "mf_content m = take (fb_cplen ?b) cells" using c by (simp add: mf_content_def fb_text_def)
  show ?thesis
  proof (cases "n \<ge> fb_cplen ?b")
    case True
    with fb_setcplen_ok [OF b c(1), of 0] content show ?thesis
      by (auto simp: mf_removeHeadBuffer_def mf_wf_def mf_content_def fb_text_def)
  next
    case False
    let ?xs = "take (fb_cplen ?b - n) (drop n cells)"
    have len: "length ?xs = fb_cplen ?b - n" using False c by simp
    with c(3) have le: "0 + length ?xs \<le> fb_alloc ?b + 1" by linarith
    obtain b1 where b1: "fb_store CACHE ?b 0 ?xs = Inr b1" "fb_wf CACHE b1" "fb_cplen b1 = fb_cplen ?b"
      "fb_alloc b1 = fb_alloc ?b" "fb_buf CACHE b1 = Some (?xs @ drop (fb_cplen ?b - n) cells)"
      using fb_store_ok [OF b c(1) le] unfolding len by auto
    have le': "fb_cplen ?b - n \<le> fb_alloc b1" using b1(4) c(3) by simp
    obtain b2 where b2: "fb_setcplen CACHE b1 (fb_cplen ?b - n) = Inr b2" "fb_wf CACHE b2" "fb_cplen b2 = fb_cplen ?b - n"
      "fb_buf CACHE b2 = Some ((?xs @ drop (fb_cplen ?b - n) cells)[fb_cplen ?b - n := 0])"
      using fb_setcplen_ok [OF b1(2,5) le'] by auto
    have "fb_text CACHE b2 = drop n (mf_content m)"
      using b2 len False c(3) by (simp add: fb_text_def content drop_take)
    moreover have "fb_load CACHE ?b n (fb_cplen ?b - n) = Inr ?xs"
      using c False by (simp add: fb_load_def mem_read_def)
    ultimately show ?thesis using False b1 b2
      by (simp add: mf_removeHeadBuffer_def mf_wf_def mf_content_def)
  qed
qed

end
