(* ===== verification/Archive.thy ===== *)
theory Archive
  imports MemFile
begin

text \<open>
  The archive \<open>CIArchive\<close> of \<open>lae/include/IArchive.h\<close> and \<open>lae/source/IArchive.cpp\<close>: typed reads
  and writes on a memory stream, in either of two modes, with the byte order chosen by a set of
  function pointers.  Integers are kept at their width; a \<open>float\<close> is its bit pattern.  The host is
  little endian.  The stream that \<open>m_pISerial\<close> designates is the field \<open>ar_stream\<close>, which counts once
  the pointer is set (\<open>ar_bound\<close>); classes that derive from the archive extend the record.
\<close>

section \<open>Byte order\<close>

fun le_bytes :: "nat \<Rightarrow> 'a::len word \<Rightarrow> byte list" where
  "le_bytes 0 w = []"
| "le_bytes (Suc n) w = ucast w # le_bytes n (drop_bit 8 w)"

fun le_word :: "byte list \<Rightarrow> 'a::len word" where
  "le_word [] = 0"
| "le_word (b # bs) = ucast b OR push_bit 8 (le_word bs)"

definition ShortSwap :: "u16 \<Rightarrow> u16" where
  "ShortSwap l =
     (let b1 = ucast (l AND 255) :: byte; b2 = ucast (signed_drop_bit 8 l AND 255) :: byte
      in push_bit 8 (ucast b1) + ucast b2)"

definition ShortNoSwap :: "u16 \<Rightarrow> u16" where
  "ShortNoSwap l = l"

definition LongLongSwap :: "u64 \<Rightarrow> u64" where
  "LongLongSwap l =
     (let b1 = ucast (l AND 255) :: byte; b2 = ucast (drop_bit 8 l AND 255) :: byte;
          b3 = ucast (drop_bit 16 l AND 255) :: byte; b4 = ucast (drop_bit 24 l AND 255) :: byte;
          b5 = ucast (drop_bit 32 l AND 255) :: byte; b6 = ucast (drop_bit 40 l AND 255) :: byte;
          b7 = ucast (drop_bit 48 l AND 255) :: byte; b8 = ucast (drop_bit 56 l AND 255) :: byte
      in push_bit 56 (ucast b1) + push_bit 48 (ucast b2) + push_bit 40 (ucast b3) + push_bit 32 (ucast b4) +
         push_bit 24 (ucast b5) + push_bit 16 (ucast b6) + push_bit 8 (ucast b7) + ucast b8)"

definition LongLongNotSwap :: "u64 \<Rightarrow> u64" where
  "LongLongNotSwap l = l"

definition LongSwap :: "u32 \<Rightarrow> u32" where
  "LongSwap l =
     (let b1 = ucast (l AND 255) :: byte; b2 = ucast (signed_drop_bit 8 l AND 255) :: byte;
          b3 = ucast (signed_drop_bit 16 l AND 255) :: byte; b4 = ucast (signed_drop_bit 24 l AND 255) :: byte
      in push_bit 24 (ucast b1) + push_bit 16 (ucast b2) + push_bit 8 (ucast b3) + ucast b4)"

definition LongNoSwap :: "u32 \<Rightarrow> u32" where
  "LongNoSwap l = l"

definition FloatSwap :: "u32 \<Rightarrow> u32" where
  "FloatSwap f = LongSwap f"

definition FloatNoSwap :: "u32 \<Rightarrow> u32" where
  "FloatNoSwap f = f"

section \<open>State\<close>

datatype ser_mode = SM_WRITE | SM_READ

text \<open>The four function pointers are set together, so one record holds them.\<close>

record swaps =
  Short_Swap :: "u16 \<Rightarrow> u16"
  Float_Swap :: "u32 \<Rightarrow> u32"
  Long_Swap :: "u32 \<Rightarrow> u32"
  LongLong_Swap :: "u64 \<Rightarrow> u64"

definition swap_all :: swaps where
  "swap_all = \<lparr>Short_Swap = ShortSwap, Float_Swap = FloatSwap, Long_Swap = LongSwap, LongLong_Swap = LongLongSwap\<rparr>"

definition swap_none :: swaps where
  "swap_none =
     \<lparr>Short_Swap = ShortNoSwap, Float_Swap = FloatNoSwap, Long_Swap = LongNoSwap, LongLong_Swap = LongLongNotSwap\<rparr>"

record archive =
  ar_stream :: memfile
  ar_bound :: bool
  ar_func :: "ser_mode option"
  ar_mode :: ser_mode
  ar_addr :: "int list"
  ar_index :: nat
  ar_version :: byte
  ar_exec :: byte
  ar_swaps :: swaps

definition LXZWINDOW_VER :: byte where
  "LXZWINDOW_VER = 15"

definition ar_new :: archive where
  "ar_new = \<lparr>ar_stream = mf_new, ar_bound = False, ar_func = None, ar_mode = SM_READ, ar_addr = replicate 10 0,
     ar_index = 0, ar_version = LXZWINDOW_VER, ar_exec = 0, ar_swaps = swap_none\<rparr>"

definition ar_of_serial :: "memfile \<Rightarrow> ser_mode \<Rightarrow> archive" where
  "ar_of_serial m mode = \<lparr>ar_stream = m, ar_bound = True,
     ar_func = (if mode = SM_READ then Some SM_READ else Some SM_WRITE), ar_mode = mode, ar_addr = replicate 10 0,
     ar_index = 0, ar_version = LXZWINDOW_VER, ar_exec = 0, ar_swaps = swap_none\<rparr>"

text \<open>
  \<open>SetLittleEndian\<close>: the test of the host's byte order looks at the first byte of 0x12345678, which is
  0x78 on this host.
\<close>

definition SetLittleEndian :: "'z archive_scheme \<Rightarrow> bool \<Rightarrow> 'z archive_scheme" where
  "SetLittleEndian a isLittelEndian =
     (let c0 = hd (le_bytes 4 (0x12345678 :: u32)) in
      a\<lparr>ar_swaps := if isLittelEndian \<and> c0 = 0x12 \<or> \<not> isLittelEndian \<and> c0 = 0x78 then swap_all else swap_none\<rparr>)"

definition IsReading :: "'z archive_scheme \<Rightarrow> bool" where
  "IsReading a = (ar_mode a = SM_READ)"

definition IsWriting :: "'z archive_scheme \<Rightarrow> bool" where
  "IsWriting a = (ar_mode a = SM_WRITE)"

definition getError :: "'z archive_scheme \<Rightarrow> c_fault + serial_err" where
  "getError a = (if ar_bound a then Inr (mf_Error (ar_stream a)) else Inl NullDeref)"

definition ar_Initial :: "'z archive_scheme \<Rightarrow> memfile \<Rightarrow> ser_mode \<Rightarrow> 'z archive_scheme" where
  "ar_Initial a m mode =
     a\<lparr>ar_stream := fst (mf_SetPos m 0), ar_bound := True,
       ar_func := (if mode = SM_READ then Some SM_READ else Some SM_WRITE),
       ar_mode := (if mode = SM_READ then SM_READ else SM_WRITE)\<rparr>"

definition ar_setPos :: "'z archive_scheme \<Rightarrow> nat \<Rightarrow> c_fault + ('z archive_scheme \<times> nat)" where
  "ar_setPos a p =
     (if ar_bound a then (case mf_SetPos (ar_stream a) p of (m, r) \<Rightarrow> Inr (a\<lparr>ar_stream := m\<rparr>, r))
      else Inl NullDeref)"

definition ar_getPos :: "'z archive_scheme \<Rightarrow> c_fault + nat" where
  "ar_getPos a = (if ar_bound a then Inr (mf_GetPos (ar_stream a)) else Inl NullDeref)"

definition ar_setMode :: "'z archive_scheme \<Rightarrow> ser_mode \<Rightarrow> c_fault + 'z archive_scheme" where
  "ar_setMode a mode =
     bindE (ar_setPos a 0) (\<lambda>(a1, _).
       Inr (a1\<lparr>ar_func := (if mode = SM_READ then Some SM_READ else Some SM_WRITE),
               ar_mode := (if mode = SM_READ then SM_READ else SM_WRITE)\<rparr>))"

text \<open>A negative \<open>int\<close> converted to \<open>size_t\<close> wraps.\<close>

definition size_of_int :: "int \<Rightarrow> nat" where
  "size_of_int i = nat (i mod int SIZE_MOD)"

definition PushAddress :: "'z archive_scheme \<Rightarrow> c_fault + 'z archive_scheme" where
  "PushAddress a =
     (if ar_index a < 10 \<and> IsWriting a then
        bindE (ar_getPos a) (\<lambda>p.
          Inr (a\<lparr>ar_addr := (ar_addr a)[ar_index a := ret_int p], ar_index := ar_index a + 1\<rparr>))
      else Inr a)"

text \<open>An index outside the table only writes a log file.\<close>

definition setIndexPos :: "'z archive_scheme \<Rightarrow> int \<Rightarrow> c_fault + 'z archive_scheme" where
  "setIndexPos a index =
     (if 0 \<le> index \<and> index < 10
      then bindE (ar_setPos a (size_of_int (ar_addr a ! nat index))) (\<lambda>(a', _). Inr a')
      else Inr a)"

definition ResetAddress :: "'z archive_scheme \<Rightarrow> 'z archive_scheme" where
  "ResetAddress a = a\<lparr>ar_index := 0\<rparr>"

definition setVersion :: "'z archive_scheme \<Rightarrow> byte \<Rightarrow> 'z archive_scheme" where
  "setVersion a v = a\<lparr>ar_version := v\<rparr>"

definition execute :: "'z archive_scheme \<Rightarrow> 'z archive_scheme" where
  "execute a = a\<lparr>ar_exec := ar_exec a + 1\<rparr>"

definition resetExecuteCount :: "'z archive_scheme \<Rightarrow> 'z archive_scheme" where
  "resetExecuteCount a = a\<lparr>ar_exec := 0\<rparr>"

section \<open>Serialization\<close>

text \<open>
  \<open>(m_pISerial->*m_SerialFunc)(p, n)\<close> on the caller's block \<open>buf\<close> from \<open>p\<close> on: a read stores into the
  block, a write takes its bytes from it.
\<close>

definition SerialFunc ::
  "c_heap \<Rightarrow> 'z archive_scheme \<Rightarrow> byte list \<Rightarrow> nat \<Rightarrow> c_fault + ('z archive_scheme \<times> int \<times> byte list)" where
  "SerialFunc h a buf n =
     (if \<not> ar_bound a then Inl NullDeref
      else case ar_func a of
        None \<Rightarrow> Inl NullDeref
      | Some SM_READ \<Rightarrow>
          bindE (mf_Read (ar_stream a) n) (\<lambda>(m, r, got).
          bindE (case got of None \<Rightarrow> Inr buf | Some xs \<Rightarrow> mem_write buf 0 xs) (\<lambda>buf'.
            Inr (a\<lparr>ar_stream := m\<rparr>, r, buf')))
      | Some SM_WRITE \<Rightarrow>
          bindE (mem_read buf 0 n) (\<lambda>xs.
          bindE (mf_Write h (ar_stream a) xs) (\<lambda>(m, r).
            Inr (a\<lparr>ar_stream := m\<rparr>, r, buf))))"

definition Serial_int :: "c_heap \<Rightarrow> 'z archive_scheme \<Rightarrow> u32 \<Rightarrow> c_fault + ('z archive_scheme \<times> u32)" where
  "Serial_int h a l =
     (if IsReading a then
        bindE (SerialFunc h a (le_bytes 4 (0 :: u32)) 4) (\<lambda>(a', ret, v).
          Inr (a', if ret > 0 then Long_Swap (ar_swaps a) (le_word v) else l))
      else if IsWriting a then
        (let v = l; discarded = Long_Swap (ar_swaps a) v in
         bindE (SerialFunc h a (le_bytes 4 v) 4) (\<lambda>(a', _, _). Inr (a', l)))
      else Inr (a, l))"

definition Serial_uiboolean :: "c_heap \<Rightarrow> 'z archive_scheme \<Rightarrow> u32 \<Rightarrow> c_fault + ('z archive_scheme \<times> u32)" where
  "Serial_uiboolean h a l =
     (if IsReading a then
        bindE (SerialFunc h a (le_bytes 4 (0 :: u32)) 4) (\<lambda>(a', ret, v).
          Inr (a', if ret > 0 then (if Long_Swap (ar_swaps a) (le_word v) = 1 then 1 else 0) else l))
      else if IsWriting a then
        (let v = l; discarded = Long_Swap (ar_swaps a) v in
         bindE (SerialFunc h a (le_bytes 4 v) 4) (\<lambda>(a', _, _). Inr (a', l)))
      else Inr (a, l))"

definition Serial_bool :: "c_heap \<Rightarrow> 'z archive_scheme \<Rightarrow> bool \<Rightarrow> c_fault + ('z archive_scheme \<times> bool)" where
  "Serial_bool h a l =
     (if IsReading a then
        bindE (SerialFunc h a (le_bytes 4 (0 :: u32)) 4) (\<lambda>(a', ret, v).
          Inr (a', if ret > 0 then Long_Swap (ar_swaps a) (le_word v) = 1 else l))
      else if IsWriting a then
        (let v = (if l then 1 else 0 :: u32); discarded = Long_Swap (ar_swaps a) v in
         bindE (SerialFunc h a (le_bytes 4 v) 4) (\<lambda>(a', _, _). Inr (a', l)))
      else Inr (a, l))"

text \<open>
  The union of \<open>float\<close> and \<open>long\<close> is eight bytes wide and four of them stay indeterminate;
  \<open>Long_Swap\<close> takes the low half as an \<open>int\<close>.
\<close>

definition Serial_float :: "c_heap \<Rightarrow> 'z archive_scheme \<Rightarrow> u32 \<Rightarrow> c_fault + ('z archive_scheme \<times> u32)" where
  "Serial_float h a l =
     (if ar_mode a = SM_READ then
        bindE (SerialFunc h a (malloc_cells h 8) 4) (\<lambda>(a', ret, v).
          let fl = scast (Long_Swap (ar_swaps a) (ucast (le_word v :: u64))) :: u64 in
          Inr (a', if ret > 0 then ucast fl else l))
      else
        (let fl = le_bytes 4 l @ drop 4 (malloc_cells h 8);
             discarded = Long_Swap (ar_swaps a) (ucast (le_word fl :: u64)) in
         bindE (SerialFunc h a fl 4) (\<lambda>(a', _, _). Inr (a', l))))"

definition Serial_long :: "c_heap \<Rightarrow> 'z archive_scheme \<Rightarrow> u64 \<Rightarrow> c_fault + ('z archive_scheme \<times> u64)" where
  "Serial_long h a l =
     (if ar_mode a = SM_READ then
        bindE (SerialFunc h a (le_bytes 8 (0 :: u64)) 8) (\<lambda>(a', ret, v).
          Inr (a', if ret > 0 then scast (Long_Swap (ar_swaps a) (ucast (le_word v :: u64))) else l))
      else
        (let v = l; discarded = Long_Swap (ar_swaps a) (ucast v) in
         bindE (SerialFunc h a (le_bytes 8 v) 8) (\<lambda>(a', _, _). Inr (a', l))))"

text \<open>One byte, signed or unsigned, is read into the variable itself.\<close>

definition Serial_u8 :: "c_heap \<Rightarrow> 'z archive_scheme \<Rightarrow> byte \<Rightarrow> c_fault + ('z archive_scheme \<times> byte)" where
  "Serial_u8 h a l = bindE (SerialFunc h a [l] 1) (\<lambda>(a', _, v). Inr (a', hd v))"

definition Serial_s8 :: "c_heap \<Rightarrow> 'z archive_scheme \<Rightarrow> byte \<Rightarrow> c_fault + ('z archive_scheme \<times> byte)" where
  "Serial_s8 h a l = bindE (SerialFunc h a [l] 1) (\<lambda>(a', _, v). Inr (a', hd v))"

definition Serial_s16 :: "c_heap \<Rightarrow> 'z archive_scheme \<Rightarrow> u16 \<Rightarrow> c_fault + ('z archive_scheme \<times> u16)" where
  "Serial_s16 h a l =
     (if ar_mode a = SM_READ then
        bindE (SerialFunc h a (le_bytes 2 (0 :: u16)) 2) (\<lambda>(a', ret, v).
          Inr (a', if ret > 0 then Short_Swap (ar_swaps a) (le_word v) else l))
      else
        (let v = l; discarded = Short_Swap (ar_swaps a) v in
         bindE (SerialFunc h a (le_bytes 2 v) 2) (\<lambda>(a', _, _). Inr (a', l))))"

definition Serial_u16 :: "c_heap \<Rightarrow> 'z archive_scheme \<Rightarrow> u16 \<Rightarrow> c_fault + ('z archive_scheme \<times> u16)" where
  "Serial_u16 h a l =
     (if ar_mode a = SM_READ then
        bindE (SerialFunc h a (le_bytes 2 (0 :: u16)) 2) (\<lambda>(a', ret, v).
          Inr (a', if ret > 0 then Short_Swap (ar_swaps a) (le_word v) else l))
      else
        (let v = l; discarded = Short_Swap (ar_swaps a) v in
         bindE (SerialFunc h a (le_bytes 2 v) 2) (\<lambda>(a', _, _). Inr (a', l))))"

definition Serial_u32 :: "c_heap \<Rightarrow> 'z archive_scheme \<Rightarrow> u32 \<Rightarrow> c_fault + ('z archive_scheme \<times> u32)" where
  "Serial_u32 h a l =
     (if ar_mode a = SM_READ then
        bindE (SerialFunc h a (le_bytes 4 (0 :: u32)) 4) (\<lambda>(a', ret, v).
          Inr (a', if ret > 0 then Long_Swap (ar_swaps a) (le_word v) else l))
      else
        (let v = l; discarded = Long_Swap (ar_swaps a) v in
         bindE (SerialFunc h a (le_bytes 4 v) 4) (\<lambda>(a', _, _). Inr (a', l))))"

definition Serial_u64 :: "c_heap \<Rightarrow> 'z archive_scheme \<Rightarrow> u64 \<Rightarrow> c_fault + ('z archive_scheme \<times> u64)" where
  "Serial_u64 h a l =
     (if ar_mode a = SM_READ then
        bindE (SerialFunc h a (le_bytes 8 (0 :: u64)) 8) (\<lambda>(a', ret, v).
          Inr (a', if ret > 0 then LongLong_Swap (ar_swaps a) (le_word v) else l))
      else
        (let v = l; discarded = LongLong_Swap (ar_swaps a) v in
         bindE (SerialFunc h a (le_bytes 8 v) 8) (\<lambda>(a', _, _). Inr (a', l))))"

text \<open>\<open>Serial(char* str, int len, int nMaxBuf)\<close> on the caller's block \<open>str\<close>.\<close>

definition Serial_max ::
  "c_heap \<Rightarrow> 'z archive_scheme \<Rightarrow> byte list \<Rightarrow> int \<Rightarrow> int \<Rightarrow> c_fault + ('z archive_scheme \<times> byte list)" where
  "Serial_max h a str len nMaxBuf =
     (if IsReading a then
        bindE (mem_write str 0 (replicate (nat nMaxBuf) 0)) (\<lambda>str1.
        bindE (Serial_int h a 0) (\<lambda>(a1, l).
          if sint l \<le> nMaxBuf
          then bindE (SerialFunc h a1 str1 (size_of_int (sint l))) (\<lambda>(a2, _, str2). Inr (a2, str2))
          else Inr (a1, str1)))
      else
        bindE (Serial_int h a (word_of_int len)) (\<lambda>(a1, l).
        bindE (SerialFunc h a1 str (size_of_int (sint l))) (\<lambda>(a2, _, str2). Inr (a2, str2))))"

definition Serial_buf ::
  "c_heap \<Rightarrow> 'z archive_scheme \<Rightarrow> byte list \<Rightarrow> int \<Rightarrow> c_fault + ('z archive_scheme \<times> byte list)" where
  "Serial_buf h a str len =
     (if IsReading a then bindE (SerialFunc h a str (size_of_int len)) (\<lambda>(a', _, str'). Inr (a', str'))
      else bindE (SerialFunc h a str (size_of_int len)) (\<lambda>(a', _, str'). Inr (a', str')))"

definition store_at :: "byte list \<Rightarrow> int \<Rightarrow> byte \<Rightarrow> c_fault + byte list" where
  "store_at str i c = (if i < 0 then Inl OutOfBounds else mem_write str (nat i) [c])"

text \<open>
  \<open>Serial(char*& str)\<close>: a read allocates a block of its own, whose bytes are indeterminate; a length that
  \<open>new\<close> cannot serve throws.
\<close>

definition Serial_str ::
  "c_heap \<Rightarrow> 'z archive_scheme \<Rightarrow> byte list option \<Rightarrow> c_fault + ('z archive_scheme \<times> byte list option)" where
  "Serial_str h a str =
     (if IsReading a then
        bindE (Serial_int h a 0) (\<lambda>(a1, len).
        bindE (iadd (sint len) 1) (\<lambda>n.
        bindE (guardE (0 \<le> n \<and> can_alloc h n) (Die ''bad_alloc'')) (\<lambda>_.
        bindE (Serial_buf h a1 (malloc_cells h (nat n)) (sint len)) (\<lambda>(a2, s).
        bindE (store_at s (sint len) 0) (\<lambda>s'.
          Inr (a2, Some s'))))))
      else case str of
        None \<Rightarrow> Inl NullDeref
      | Some s \<Rightarrow>
          bindE (strlen s) (\<lambda>len.
          bindE (Serial_int h a (word_of_nat len)) (\<lambda>(a1, l).
          bindE (Serial_buf h a1 s (sint l)) (\<lambda>(a2, _). Inr (a2, str)))))"

definition ar_Write :: "c_heap \<Rightarrow> 'z archive_scheme \<Rightarrow> byte list \<Rightarrow> int \<Rightarrow> c_fault + 'z archive_scheme" where
  "ar_Write h a buf len =
     (if IsReading a then Inr a
      else bindE (SerialFunc h a buf (size_of_int len)) (\<lambda>(a', _, _). Inr a'))"

definition SerialStr ::
  "c_heap \<Rightarrow> 'z archive_scheme \<Rightarrow> byte list \<Rightarrow> int \<Rightarrow> c_fault + ('z archive_scheme \<times> byte list)" where
  "SerialStr h a str len =
     (if IsReading a then
        bindE (Serial_int h a 0) (\<lambda>(a1, l).
        bindE (if sint l < len
               then bindE (SerialFunc h a1 str (size_of_int (sint l))) (\<lambda>(a2, _, str'). Inr (a2, str'))
               else Inr (a1, str)) (\<lambda>(a2, str1).
        bindE (store_at str1 (sint l) 0) (\<lambda>str2. Inr (a2, str2))))
      else
        bindE (strlen str) (\<lambda>n.
        bindE (Serial_int h a (word_of_nat n)) (\<lambda>(a1, l).
        bindE (SerialFunc h a1 str (size_of_int (sint l))) (\<lambda>(a2, _, _). Inr (a2, str)))))"

text \<open>
  A pointer travels as its 64 bits; a variable that is not initialised has indeterminate bytes.
  \<open>strcmp\<close> stops at the end of \<open>name\<close>, whose \<open>len + 1\<close> bytes include the terminator.
\<close>

definition indeterminate :: "c_heap \<Rightarrow> u64" where
  "indeterminate h = le_word (malloc_cells h 8)"

definition SerialPtr :: "c_heap \<Rightarrow> 'z archive_scheme \<Rightarrow> u64 \<Rightarrow> c_fault + ('z archive_scheme \<times> u64)" where
  "SerialPtr h a ptr =
     (if IsReading a then Serial_u64 h a (indeterminate h)
      else bindE (Serial_u64 h a ptr) (\<lambda>(a', _). Inr (a', ptr)))"

definition SerialPtr_named ::
  "c_heap \<Rightarrow> 'z archive_scheme \<Rightarrow> u64 \<Rightarrow> byte list \<Rightarrow> c_fault + ('z archive_scheme \<times> u64)" where
  "SerialPtr_named h a ptr name =
     bindE (strlen name) (\<lambda>len.
       if IsReading a then
         bindE (Serial_max h a (replicate 32 0) 32 32) (\<lambda>(a1, buf).
         bindE (Serial_u64 h a1 (indeterminate h)) (\<lambda>(a2, v).
           if len < 32 then Inr (a2, if take (len + 1) buf = take (len + 1) name then v else 0)
           else Inr (a2, v)))
       else
         bindE (if len < 32
                then bindE (mem_write (replicate 32 0) 0 (take (len + 1) name)) (\<lambda>buf.
                     bindE (Serial_max h a buf 32 32) (\<lambda>(a1, _). Inr a1))
                else Inr a) (\<lambda>a1.
         bindE (Serial_u64 h a1 ptr) (\<lambda>(a2, _). Inr (a2, ptr))))"

section \<open>Byte order\<close>

lemma length_le_bytes [simp]: "length (le_bytes n w) = n"
  by (induction n arbitrary: w) auto

lemma le_word_le_bytes_take: "le_word (le_bytes n w) = take_bit (8 * n) w"
proof (induction n arbitrary: w)
  case (Suc n)
  show ?case unfolding le_bytes.simps le_word.simps Suc
    by (rule bit_word_eqI) (auto simp: bit_simps)
qed simp

lemma le_word_le_bytes: "LENGTH('a) = 8 * n \<Longrightarrow> le_word (le_bytes n (w :: 'a::len word)) = w"
  by (simp add: le_word_le_bytes_take take_bit_word_eq_self)

lemmas le_word_inverse = le_word_le_bytes [where ?'a = 16 and n = 2, simplified]
  le_word_le_bytes [where ?'a = 32 and n = 4, simplified] le_word_le_bytes [where ?'a = 64 and n = 8, simplified]

lemma le_word_Cons_arith: "le_word (b # bs) = (ucast b + 256 * le_word bs :: 'a::len word)"
proof -
  have "ucast b + push_bit 8 (le_word bs) = (ucast b OR push_bit 8 (le_word bs) :: 'a word)"
    by (rule disjunctive_add_eq_or) (auto simp: bit_eq_iff bit_simps dest: bit_imp_le_length)
  then show ?thesis by (simp add: push_bit_eq_mult mult.commute)
qed

lemma and_255: "w AND 255 = take_bit 8 (w :: 'a::len word)"
proof -
  have "(255 :: 'a word) = mask 8" by (simp add: mask_eq_exp_minus_1)
  then show ?thesis by (simp add: take_bit_eq_mask)
qed

lemma low_byte: "ucast (w AND 255) = (ucast w :: byte)"
  unfolding and_255 by (rule bit_word_eqI) (auto simp: bit_simps)

lemma signed_byte:
  fixes w :: "'a::len word"
  shows "k + 8 \<le> LENGTH('a) \<Longrightarrow> ucast (signed_drop_bit k w) = (ucast (drop_bit k w) :: byte)"
  by (rule bit_word_eqI) (auto simp: bit_simps)

lemma le_word_append: "(le_word (xs @ ys) :: 'a::len word) = le_word xs OR push_bit (8 * length xs) (le_word ys)"
proof (induction xs)
  case (Cons x xs)
  then show ?case by (simp add: push_bit_or ac_simps push_bit_push_bit)
qed simp

lemma ucast_le_word: "LENGTH('b) \<le> LENGTH('a) \<Longrightarrow> ucast (le_word bs :: 'a::len word) = (le_word bs :: 'b::len word)"
proof (induction bs)
  case (Cons b bs)
  have "ucast (ucast b OR push_bit 8 u) = (ucast b OR push_bit 8 (ucast u) :: 'b word)" for u :: "'a word"
    using Cons.prems by (intro bit_word_eqI) (auto simp: bit_simps)
  with Cons show ?case by simp
qed simp

lemma bit_le_word: "bit (le_word bs :: 'a::len word) i \<Longrightarrow> i < 8 * length bs"
proof (induction bs arbitrary: i)
  case (Cons b bs)
  then show ?case by (cases "i < 8") (auto simp: bit_simps dest: bit_imp_le_length Cons.IH)
qed simp

lemma le_bytes_numeral:
  "le_bytes 2 w = [ucast w, ucast (drop_bit 8 w)]"
  "le_bytes 4 w = [ucast w, ucast (drop_bit 8 w), ucast (drop_bit 16 w), ucast (drop_bit 24 w)]"
  "le_bytes 8 w = [ucast w, ucast (drop_bit 8 w), ucast (drop_bit 16 w), ucast (drop_bit 24 w),
     ucast (drop_bit 32 w), ucast (drop_bit 40 w), ucast (drop_bit 48 w), ucast (drop_bit 56 w)]"
proof -
  have n: "2 = Suc (Suc 0)" "4 = Suc (Suc (Suc (Suc 0)))" "8 = Suc (Suc (Suc (Suc (Suc (Suc (Suc (Suc 0)))))))" by simp_all
  show "le_bytes 2 w = [ucast w, ucast (drop_bit 8 w)]"
    "le_bytes 4 w = [ucast w, ucast (drop_bit 8 w), ucast (drop_bit 16 w), ucast (drop_bit 24 w)]"
    "le_bytes 8 w = [ucast w, ucast (drop_bit 8 w), ucast (drop_bit 16 w), ucast (drop_bit 24 w),
       ucast (drop_bit 32 w), ucast (drop_bit 40 w), ucast (drop_bit 48 w), ucast (drop_bit 56 w)]"
    by (simp_all only: n [THEN arg_cong [where f = "\<lambda>k. le_bytes k w"]] le_bytes.simps) simp_all
qed

lemma le_bytes_le_word: "length bs = n \<Longrightarrow> 8 * n \<le> LENGTH('a) \<Longrightarrow> le_bytes n (le_word bs :: 'a::len word) = bs"
proof (induction n arbitrary: bs)
  case (Suc n)
  then obtain b cs where bs: "bs = b # cs" "length cs = n" by (cases bs) auto
  have "ucast (le_word bs :: 'a word) = b"
    unfolding bs le_word.simps by (rule bit_word_eqI) (use Suc.prems in \<open>auto simp: bit_simps\<close>)
  moreover have "drop_bit 8 (le_word bs :: 'a word) = le_word cs"
    unfolding bs le_word.simps
    by (rule bit_word_eqI) (use Suc.prems bs in \<open>auto simp: bit_simps dest: bit_imp_le_length bit_le_word\<close>)
  ultimately show ?case using Suc bs by simp
qed simp

text \<open>The three swaps reverse the bytes of the value.\<close>

lemma ShortSwap_rev: "ShortSwap l = le_word (rev (le_bytes 2 l))"
  unfolding ShortSwap_def Let_def
  by (simp add: low_byte signed_byte le_bytes_numeral le_word_Cons_arith push_bit_eq_mult del: le_word.simps(2))

lemma LongSwap_rev: "LongSwap l = le_word (rev (le_bytes 4 l))"
  unfolding LongSwap_def Let_def
  by (simp add: low_byte signed_byte le_bytes_numeral le_word_Cons_arith push_bit_eq_mult algebra_simps
      del: le_word.simps(2))

lemma LongLongSwap_rev: "LongLongSwap l = le_word (rev (le_bytes 8 l))"
  unfolding LongLongSwap_def Let_def
  by (simp add: low_byte le_bytes_numeral le_word_Cons_arith push_bit_eq_mult algebra_simps del: le_word.simps(2))

lemma swaps_involutive:
  "ShortSwap (ShortSwap s) = s" "LongSwap (LongSwap l) = l" "LongLongSwap (LongLongSwap q) = q"
  by (simp_all add: ShortSwap_rev LongSwap_rev LongLongSwap_rev le_bytes_le_word le_word_inverse)

lemma swap_none_simps [simp]:
  "Short_Swap swap_none s = s" "Float_Swap swap_none f = f" "Long_Swap swap_none l = l" "LongLong_Swap swap_none q = q"
  by (simp_all add: swap_none_def ShortNoSwap_def FloatNoSwap_def LongNoSwap_def LongLongNotSwap_def)

lemma swap_all_simps [simp]:
  "Short_Swap swap_all = ShortSwap" "Long_Swap swap_all = LongSwap" "LongLong_Swap swap_all = LongLongSwap"
  by (simp_all add: swap_all_def)

lemma SetLittleEndian_swaps: "ar_swaps (SetLittleEndian a b) = (if b then swap_none else swap_all)"
proof -
  have "hd (le_bytes 4 (0x12345678 :: u32)) = 0x78" by (simp add: le_bytes_numeral)
  then show ?thesis by (simp add: SetLittleEndian_def)
qed

section \<open>The stream of an archive\<close>

text \<open>An archive ready to write, or to read, on a well-formed stream.\<close>

definition ar_ok :: "ser_mode \<Rightarrow> 'z archive_scheme \<Rightarrow> bool" where
  "ar_ok mode a \<longleftrightarrow> ar_bound a \<and> ar_mode a = mode \<and> ar_func a = Some mode \<and> mf_wf (ar_stream a)"

abbreviation ar_content :: "'z archive_scheme \<Rightarrow> byte list" where
  "ar_content a \<equiv> mf_content (ar_stream a)"

abbreviation ar_pos :: "'z archive_scheme \<Rightarrow> nat" where
  "ar_pos a \<equiv> mf_pos (ar_stream a)"

text \<open>
  \<open>puts h a xs a'\<close>: appending \<open>xs\<close> to the stream of \<open>a\<close> gives \<open>a'\<close>.  \<open>gets a xs a'\<close>: the stream of
  \<open>a\<close> has \<open>xs\<close> at its position and \<open>a'\<close> is past it.
\<close>

definition puts :: "c_heap \<Rightarrow> 'z archive_scheme \<Rightarrow> byte list \<Rightarrow> 'z archive_scheme \<Rightarrow> bool" where
  "puts h a xs a' \<longleftrightarrow> ar_ok SM_WRITE a' \<and> ar_content a' = ar_content a @ xs \<and> ar_pos a' = length (ar_content a') \<and>
     ar_swaps a' = ar_swaps a \<and> (\<forall>n. mf_room h (ar_stream a) (length xs + n) \<longrightarrow> mf_room h (ar_stream a') n)"

definition gets :: "'z archive_scheme \<Rightarrow> byte list \<Rightarrow> 'z archive_scheme \<Rightarrow> bool" where
  "gets a xs a' \<longleftrightarrow> a' = a\<lparr>ar_stream := (ar_stream a)\<lparr>mf_pos := ar_pos a + length xs\<rparr>\<rparr> \<and> ar_ok SM_READ a'"

lemma puts_trans: "puts h a xs b \<Longrightarrow> puts h b ys c \<Longrightarrow> puts h a (xs @ ys) c"
  by (simp add: puts_def add.assoc)

lemma SerialFunc_write:
  assumes "ar_ok SM_WRITE a" "ar_pos a = length (ar_content a)" "mf_room h (ar_stream a) n" "n \<le> length buf"
  shows "\<exists>a' r. SerialFunc h a buf n = Inr (a', r, buf) \<and> puts h a (take n buf) a'"
proof -
  have len: "length (take n buf) = n" using assms(4) by simp
  obtain m r where "mf_Write h (ar_stream a) (take n buf) = Inr (m, r)" "mf_wf m"
    "mf_content m = overwrite (ar_content a) (ar_pos a) (take n buf)" "mf_pos m = ar_pos a + n"
    "\<And>k. mf_room h (ar_stream a) (n + k) \<Longrightarrow> mf_room h m k"
    using mf_Write_ok [of "ar_stream a" h "take n buf"] assms(1,3) unfolding len ar_ok_def by metis
  with assms len show ?thesis
    by (auto simp: SerialFunc_def mem_read_def puts_def ar_ok_def overwrite_def)
qed

lemma SerialFunc_read:
  assumes a: "ar_ok SM_READ a" and xs: "drop (ar_pos a) (ar_content a) = xs @ rest"
    and n: "length xs = n" "n \<le> length buf" "n < 2147483648"
  shows "\<exists>a'. SerialFunc h a buf n = Inr (a', int n, xs @ drop n buf) \<and> gets a xs a' \<and>
    drop (ar_pos a') (ar_content a') = rest"
proof -
  have wf: "mf_wf (ar_stream a)" using a by (simp add: ar_ok_def)
  have "length (drop (ar_pos a) (ar_content a)) = n + length rest" unfolding xs by (simp add: n)
  then have le: "ar_pos a + n \<le> length (ar_content a)"
    using mf.pos_le [OF wf] by simp
  note r = mf_Read_ok [OF wf le] and s = mf_SetPos_ok(2,3) [OF wf le]
  have "take n (drop (ar_pos a) (ar_content a)) = xs" unfolding xs by (simp flip: n(1))
  moreover have "drop (ar_pos a + n) (ar_content a) = rest"
    unfolding drop_drop [symmetric, of n] add.commute [of _ n] xs by (simp flip: n(1))
  ultimately show ?thesis using a n r s
    by (simp add: SerialFunc_def ar_ok_def gets_def mem_write_def ret_int_small)
qed

lemma gets_trans: "gets a xs b \<Longrightarrow> gets b ys c \<Longrightarrow> gets a (xs @ ys) c"
  by (auto simp: gets_def add.assoc)

lemma gets_same: "gets a xs a' \<Longrightarrow> ar_swaps a' = ar_swaps a \<and> ar_content a' = ar_content a \<and> ar_ok SM_READ a'"
  by (auto simp: gets_def mf_content_def)

lemma ar_ok_modes [simp]:
  "ar_ok SM_WRITE a \<Longrightarrow> ar_mode a = SM_WRITE" "ar_ok SM_READ a \<Longrightarrow> ar_mode a = SM_READ"
  "ar_ok SM_WRITE a \<Longrightarrow> \<not> IsReading a" "ar_ok SM_WRITE a \<Longrightarrow> IsWriting a" "ar_ok SM_READ a \<Longrightarrow> IsReading a"
  by (simp_all add: ar_ok_def IsReading_def IsWriting_def)

lemma puts_ok: "puts h a xs a' \<Longrightarrow> ar_ok SM_WRITE a' \<and> ar_pos a' = length (ar_content a') \<and> ar_swaps a' = ar_swaps a"
  by (simp add: puts_def)

section \<open>Fields\<close>

text \<open>
  The values an archive carries, their encoding, and the calls that write and read them.  A read
  starts from a variable of the same type (\<open>blank\<close>); a string is written from a terminated block.
\<close>

datatype field =
    FInt u32 | FUiBool bool | FBool bool | FFloat u32 | FLong u64 | FS8 byte | FU8 byte
  | FS16 u16 | FU16 u16 | FU32 u32 | FU64 u64 | FPtr u64 | FStr "byte list"

fun blank :: "field \<Rightarrow> field" where
  "blank (FInt _) = FInt 0"
| "blank (FUiBool _) = FUiBool False"
| "blank (FBool _) = FBool False"
| "blank (FFloat _) = FFloat 0"
| "blank (FLong _) = FLong 0"
| "blank (FS8 _) = FS8 0"
| "blank (FU8 _) = FU8 0"
| "blank (FS16 _) = FS16 0"
| "blank (FU16 _) = FU16 0"
| "blank (FU32 _) = FU32 0"
| "blank (FU64 _) = FU64 0"
| "blank (FPtr _) = FPtr 0"
| "blank (FStr _) = FStr []"

fun enc :: "field \<Rightarrow> byte list" where
  "enc (FInt v) = le_bytes 4 v"
| "enc (FUiBool b) = le_bytes 4 (if b then 1 else 0 :: u32)"
| "enc (FBool b) = le_bytes 4 (if b then 1 else 0 :: u32)"
| "enc (FFloat v) = le_bytes 4 v"
| "enc (FLong v) = le_bytes 8 v"
| "enc (FS8 v) = [v]"
| "enc (FU8 v) = [v]"
| "enc (FS16 v) = le_bytes 2 v"
| "enc (FU16 v) = le_bytes 2 v"
| "enc (FU32 v) = le_bytes 4 v"
| "enc (FU64 v) = le_bytes 8 v"
| "enc (FPtr v) = le_bytes 8 v"
| "enc (FStr s) = le_bytes 4 (word_of_nat (length s) :: u32) @ s"

fun serial_field :: "c_heap \<Rightarrow> 'z archive_scheme \<Rightarrow> field \<Rightarrow> c_fault + ('z archive_scheme \<times> field)" where
  "serial_field h a (FInt v) = bindE (Serial_int h a v) (\<lambda>(a', v'). Inr (a', FInt v'))"
| "serial_field h a (FUiBool v) =
     bindE (Serial_uiboolean h a (if v then 1 else 0)) (\<lambda>(a', v'). Inr (a', FUiBool (v' = 1)))"
| "serial_field h a (FBool v) = bindE (Serial_bool h a v) (\<lambda>(a', v'). Inr (a', FBool v'))"
| "serial_field h a (FFloat v) = bindE (Serial_float h a v) (\<lambda>(a', v'). Inr (a', FFloat v'))"
| "serial_field h a (FLong v) = bindE (Serial_long h a v) (\<lambda>(a', v'). Inr (a', FLong v'))"
| "serial_field h a (FS8 v) = bindE (Serial_s8 h a v) (\<lambda>(a', v'). Inr (a', FS8 v'))"
| "serial_field h a (FU8 v) = bindE (Serial_u8 h a v) (\<lambda>(a', v'). Inr (a', FU8 v'))"
| "serial_field h a (FS16 v) = bindE (Serial_s16 h a v) (\<lambda>(a', v'). Inr (a', FS16 v'))"
| "serial_field h a (FU16 v) = bindE (Serial_u16 h a v) (\<lambda>(a', v'). Inr (a', FU16 v'))"
| "serial_field h a (FU32 v) = bindE (Serial_u32 h a v) (\<lambda>(a', v'). Inr (a', FU32 v'))"
| "serial_field h a (FU64 v) = bindE (Serial_u64 h a v) (\<lambda>(a', v'). Inr (a', FU64 v'))"
| "serial_field h a (FPtr v) = bindE (SerialPtr h a v) (\<lambda>(a', v'). Inr (a', FPtr v'))"
| "serial_field h a (FStr s) = bindE (Serial_str h a (Some (s @ [0]))) (\<lambda>(a', s').
     Inr (a', FStr (case s' of None \<Rightarrow> [] | Some b \<Rightarrow> takeWhile (\<lambda>c. c \<noteq> 0) b)))"

text \<open>What a reader with the swaps \<open>sw\<close> makes of an encoded field.\<close>

fun seen :: "swaps \<Rightarrow> field \<Rightarrow> field" where
  "seen sw (FInt v) = FInt (Long_Swap sw v)"
| "seen sw (FUiBool b) = FUiBool (Long_Swap sw (if b then 1 else 0) = 1)"
| "seen sw (FBool b) = FBool (Long_Swap sw (if b then 1 else 0) = 1)"
| "seen sw (FFloat v) = FFloat (Long_Swap sw v)"
| "seen sw (FLong v) = FLong (scast (Long_Swap sw (ucast v)))"
| "seen sw (FS16 v) = FS16 (Short_Swap sw v)"
| "seen sw (FU16 v) = FU16 (Short_Swap sw v)"
| "seen sw (FU32 v) = FU32 (Long_Swap sw v)"
| "seen sw (FU64 v) = FU64 (LongLong_Swap sw v)"
| "seen sw (FPtr v) = FPtr (LongLong_Swap sw v)"
| "seen sw f = f"

text \<open>A string fits when its length and a terminator are an \<open>int\<close> and it has no zero byte of its own.\<close>

fun sendable :: "field \<Rightarrow> bool" where
  "sendable (FStr s) = (0 \<notin> set s \<and> length s < 2147483647)"
| "sendable f = True"

lemma scalar_write:
  assumes "ar_ok SM_WRITE a" "ar_pos a = length (ar_content a)" "mf_room h (ar_stream a) n"
    "n \<le> length buf" "take n buf = xs"
  shows "\<exists>a'. bindE (SerialFunc h a buf n) (\<lambda>(a', _, buf'). Inr (a', l buf')) = Inr (a', l buf) \<and> puts h a xs a'"
proof -
  obtain a' r where "SerialFunc h a buf n = Inr (a', r, buf)" "puts h a (take n buf) a'"
    using SerialFunc_write [OF assms(1-4)] by blast
  with assms(5) show ?thesis by auto
qed

lemma Serial_int_write:
  assumes "ar_ok SM_WRITE a" "ar_pos a = length (ar_content a)" "mf_room h (ar_stream a) 4"
  shows "\<exists>a'. Serial_int h a v = Inr (a', v) \<and> puts h a (le_bytes 4 v) a'"
  using scalar_write [OF assms(1,2), of h 4 "le_bytes 4 v" _ "\<lambda>_. v"] assms by (simp add: Serial_int_def Let_def)

lemma Serial_int_read:
  assumes a: "ar_ok SM_READ a" and xs: "drop (ar_pos a) (ar_content a) = le_bytes 4 v @ rest"
  shows "\<exists>a'. Serial_int h a l = Inr (a', Long_Swap (ar_swaps a) v) \<and> gets a (le_bytes 4 v) a' \<and>
    drop (ar_pos a') (ar_content a') = rest"
  using SerialFunc_read [OF a xs, of 4 "le_bytes 4 (0 :: u32)" h] a by (auto simp: Serial_int_def le_word_inverse)

lemma takeWhile_terminated: "0 \<notin> set (s :: byte list) \<Longrightarrow> takeWhile (\<lambda>c. c \<noteq> 0) (s @ [0]) = s"
  by (induction s) auto

lemma Serial_str_write:
  assumes a: "ar_ok SM_WRITE a" "ar_pos a = length (ar_content a)" and room: "mf_room h (ar_stream a) (4 + length s)"
    and s: "0 \<notin> set s" "length s < 2147483647"
  shows "\<exists>a'. Serial_str h a (Some (s @ [0])) = Inr (a', Some (s @ [0])) \<and>
    puts h a (le_bytes 4 (word_of_nat (length s) :: u32) @ s) a'"
proof -
  let ?l = "word_of_nat (length s) :: u32"
  have l: "sint ?l = int (length s)" "size_of_int (int (length s)) = length s"
    using s(2) by (simp_all add: signed_of_nat signed_take_bit_int_eq_self size_of_int_def SIZE_MOD_def)
  have len: "strlen (s @ [0]) = Inr (length s)"
    using s(1) by (simp add: strlen_def takeWhile_terminated)
  obtain a1 where a1: "Serial_int h a ?l = Inr (a1, ?l)" "puts h a (le_bytes 4 ?l) a1"
    using Serial_int_write [OF a mf_room_mono [OF room]] by auto
  then have "mf_room h (ar_stream a1) (length s)" using room by (auto simp: puts_def)
  then obtain a2 r where a2: "SerialFunc h a1 (s @ [0]) (length s) = Inr (a2, r, s @ [0])" "puts h a1 s a2"
    using SerialFunc_write [of a1 h "length s" "s @ [0]"] puts_ok [OF a1(2)] by auto
  have "Serial_str h a (Some (s @ [0])) = Inr (a2, Some (s @ [0]))"
    using a a1 a2 l len by (simp add: Serial_str_def Serial_buf_def)
  with puts_trans [OF a1(2) a2(2)] show ?thesis by blast
qed

lemma Serial_str_read:
  assumes a: "ar_ok SM_READ a"
    and xs: "drop (ar_pos a) (ar_content a) = (le_bytes 4 (word_of_nat (length s) :: u32) @ s) @ rest"
    and s: "length s < 2147483647" and none: "ar_swaps a = swap_none" and h: "\<And>k. can_alloc h k"
  shows "\<exists>a'. Serial_str h a str = Inr (a', Some (s @ [0])) \<and>
    gets a (le_bytes 4 (word_of_nat (length s) :: u32) @ s) a' \<and> drop (ar_pos a') (ar_content a') = rest"
proof -
  let ?l = "word_of_nat (length s) :: u32" and ?n = "length s"
  have l: "sint ?l = int ?n" "size_of_int (int ?n) = ?n" "iadd (int ?n) 1 = Inr (int ?n + 1)" "nat (int ?n + 1) = Suc ?n"
    using s by (simp_all add: signed_of_nat signed_take_bit_int_eq_self size_of_int_def SIZE_MOD_def iadd_def
        fits_int_def INT_MIN_def INT_MAX_def)
  obtain a1 where a1: "Serial_int h a 0 = Inr (a1, ?l)" "gets a (le_bytes 4 ?l) a1" "drop (ar_pos a1) (ar_content a1) = s @ rest"
    using Serial_int_read [OF a, of ?l "s @ rest" h 0] xs none by auto
  have ok1: "ar_ok SM_READ a1" using gets_same [OF a1(2)] by simp
  obtain a2 where a2: "SerialFunc h a1 (malloc_cells h (Suc ?n)) ?n = Inr (a2, int ?n, s @ drop ?n (malloc_cells h (Suc ?n)))"
    "gets a1 s a2" "drop (ar_pos a2) (ar_content a2) = rest"
    using SerialFunc_read [OF ok1 a1(3), of ?n "malloc_cells h (Suc ?n)" h] s by auto
  have "store_at (s @ drop ?n (malloc_cells h (Suc ?n))) (int ?n) 0 = Inr (s @ [0])"
    by (simp add: store_at_def mem_write_def)
  then have "Serial_str h a str = Inr (a2, Some (s @ [0]))"
    using a ok1 a1 a2 l h by (simp add: Serial_str_def Serial_buf_def)
  with gets_trans [OF a1(2) a2(2)] a2(3) show ?thesis by blast
qed

lemmas scalar_defs = Serial_int_def Serial_uiboolean_def Serial_bool_def Serial_float_def Serial_long_def
  Serial_s8_def Serial_u8_def Serial_s16_def Serial_u16_def Serial_u32_def Serial_u64_def SerialPtr_def

lemma write_field:
  assumes a: "ar_ok SM_WRITE a" "ar_pos a = length (ar_content a)" and room: "mf_room h (ar_stream a) (length (enc f))"
    and f: "sendable f"
  shows "\<exists>a' f'. serial_field h a f = Inr (a', f') \<and> puts h a (enc f) a'"
proof (cases "\<exists>s. f = FStr s")
  case True
  with Serial_str_write [OF a] room f show ?thesis by fastforce
next
  case False
  define buf where "buf = enc f @ drop (length (enc f)) (malloc_cells h 8)"
  define buf' where "buf' = (case f of FFloat _ \<Rightarrow> buf | _ \<Rightarrow> enc f)"
  have "take (length (enc f)) buf' = enc f" "length (enc f) \<le> length buf'"
    by (simp_all add: buf_def buf'_def split: field.split)
  with SerialFunc_write [OF a room, of buf'] obtain a' r where w: "SerialFunc h a buf' (length (enc f)) = Inr (a', r, buf')"
    and p: "puts h a (enc f) a'" by auto
  from w False a have "\<exists>f'. serial_field h a f = Inr (a', f')"
    by (cases f) (auto simp: scalar_defs Let_def buf'_def buf_def)
  with p show ?thesis by blast
qed

lemma read_field:
  assumes a: "ar_ok SM_READ a" and xs: "drop (ar_pos a) (ar_content a) = enc f @ rest"
    and f: "sendable f" and str: "\<And>s. f = FStr s \<Longrightarrow> ar_swaps a = swap_none \<and> (\<forall>k. can_alloc h k)"
  shows "\<exists>a'. serial_field h a (blank f) = Inr (a', seen (ar_swaps a) f) \<and> gets a (enc f) a' \<and>
    drop (ar_pos a') (ar_content a') = rest"
proof -
  note r = SerialFunc_read [OF a xs, where h = h]
  note defs = scalar_defs le_word_inverse
  show ?thesis
  proof (cases f)
    case (FStr s)
    have "takeWhile (\<lambda>c. c \<noteq> 0) (s @ [0]) = s"
      using f FStr by (simp add: takeWhile_terminated)
    with Serial_str_read [OF a, of s rest h "Some [0]"] FStr xs f str show ?thesis by auto
  next
    case (FFloat v)
    have "ucast (le_word (le_bytes 4 v @ bs) :: u64) = v" for bs
      unfolding ucast_le_word [where ?'a = 64 and ?'b = 32, simplified] by (simp add: le_word_append le_word_inverse)
    moreover have "ucast (scast w :: u64) = w" for w :: u32 by (rule bit_word_eqI) (simp add: bit_simps)
    ultimately show ?thesis using r [of 4 "malloc_cells h 8"] FFloat a by (auto simp: defs)
  next
    case (FLong v)
    with r [of 8 "le_bytes 8 (0 :: u64)"] a show ?thesis by (auto simp: defs)
  next
    case (FInt v)
    with r [of 4 "le_bytes 4 (0 :: u32)"] a show ?thesis by (auto simp: defs)
  next
    case (FUiBool v)
    with r [of 4 "le_bytes 4 (0 :: u32)"] a show ?thesis by (auto simp: defs)
  next
    case (FBool v)
    with r [of 4 "le_bytes 4 (0 :: u32)"] a show ?thesis by (auto simp: defs)
  next
    case (FU32 v)
    with r [of 4 "le_bytes 4 (0 :: u32)"] a show ?thesis by (auto simp: defs)
  next
    case (FU64 v)
    with r [of 8 "le_bytes 8 (0 :: u64)"] a show ?thesis by (auto simp: defs)
  next
    case (FPtr v)
    with r [of 8 "le_bytes 8 (0 :: u64)"] a show ?thesis by (auto simp: defs)
  next
    case (FS8 v)
    with r [of 1 "[0]"] a show ?thesis by (auto simp: defs)
  next
    case (FU8 v)
    with r [of 1 "[0]"] a show ?thesis by (auto simp: defs)
  next
    case (FS16 v)
    with r [of 2 "le_bytes 2 (0 :: u16)"] a show ?thesis by (auto simp: defs)
  next
    case (FU16 v)
    with r [of 2 "le_bytes 2 (0 :: u16)"] a show ?thesis by (auto simp: defs)
  qed
qed

text \<open>Field after field, as the generated \<open>HelpSerial\<close> functions do.\<close>

fun serial_fields :: "c_heap \<Rightarrow> 'z archive_scheme \<Rightarrow> field list \<Rightarrow> c_fault + ('z archive_scheme \<times> field list)" where
  "serial_fields h a [] = Inr (a, [])"
| "serial_fields h a (f # fs) =
     bindE (serial_field h a f) (\<lambda>(a1, f').
     bindE (serial_fields h a1 fs) (\<lambda>(a2, fs'). Inr (a2, f' # fs')))"

definition enc_all :: "field list \<Rightarrow> byte list" where
  "enc_all fs = concat (map enc fs)"

lemma write_fields:
  "ar_ok SM_WRITE a \<Longrightarrow> ar_pos a = length (ar_content a) \<Longrightarrow> mf_room h (ar_stream a) (length (enc_all fs)) \<Longrightarrow>
     list_all sendable fs \<Longrightarrow> \<exists>a' fs'. serial_fields h a fs = Inr (a', fs') \<and> puts h a (enc_all fs) a'"
proof (induction fs arbitrary: a)
  case Nil
  then show ?case by (simp add: enc_all_def puts_def)
next
  case (Cons f fs)
  have len: "length (enc_all (f # fs)) = length (enc f) + length (enc_all fs)" by (simp add: enc_all_def)
  then obtain a1 f' where a1: "serial_field h a f = Inr (a1, f')" "puts h a (enc f) a1"
    using write_field [of a h f] Cons.prems mf_room_mono [OF Cons.prems(3), of "length (enc f)"] by auto
  then have "mf_room h (ar_stream a1) (length (enc_all fs))" using Cons.prems(3) len by (simp add: puts_def)
  with Cons.IH [of a1] Cons.prems(4) puts_ok [OF a1(2)] obtain a2 fs' where
    "serial_fields h a1 fs = Inr (a2, fs')" "puts h a1 (enc_all fs) a2" by auto
  with a1 puts_trans [OF a1(2)] show ?case by (auto simp: enc_all_def)
qed

lemma read_fields:
  "ar_ok SM_READ a \<Longrightarrow> drop (ar_pos a) (ar_content a) = enc_all fs @ rest \<Longrightarrow> list_all sendable fs \<Longrightarrow>
     (\<And>s. FStr s \<in> set fs \<Longrightarrow> ar_swaps a = swap_none \<and> (\<forall>k. can_alloc h k)) \<Longrightarrow>
     \<exists>a'. serial_fields h a (map blank fs) = Inr (a', map (seen (ar_swaps a)) fs)"
proof (induction fs arbitrary: a)
  case (Cons f fs)
  have "drop (ar_pos a) (ar_content a) = enc f @ enc_all fs @ rest" using Cons.prems(2) by (simp add: enc_all_def)
  from read_field [OF Cons.prems(1) this, of h] Cons.prems(3,4) obtain a1 where
    a1: "serial_field h a (blank f) = Inr (a1, seen (ar_swaps a) f)" "gets a (enc f) a1"
      "drop (ar_pos a1) (ar_content a1) = enc_all fs @ rest" by auto
  with Cons.IH [of a1] Cons.prems(3,4) gets_same [OF a1(2)] obtain a2 where
    "serial_fields h a1 (map blank fs) = Inr (a2, map (seen (ar_swaps a)) fs)" by auto
  with a1 show ?case by simp
qed simp

lemma ar_setMode_ok:
  assumes "ar_bound a" "mf_wf (ar_stream a)"
  shows "\<exists>a'. ar_setMode a mode = Inr a' \<and> ar_ok mode a' \<and> ar_pos a' = 0 \<and> ar_content a' = ar_content a \<and>
    ar_swaps a' = ar_swaps a"
proof -
  let ?m = "(ar_stream a)\<lparr>mf_pos := 0\<rparr>"
  have "fst (mf_SetPos (ar_stream a) 0) = ?m" "mf_wf ?m" "mf_content ?m = ar_content a"
    using mf_SetPos_ok(1-3) [OF assms(2), of 0] by simp_all
  moreover have "(if mode = SM_READ then SM_READ else SM_WRITE) = mode"
    "(if mode = SM_READ then Some SM_READ else Some SM_WRITE) = Some mode" by (cases mode; simp)+
  ultimately have "ar_setMode a mode = Inr (a\<lparr>ar_stream := ?m, ar_func := Some mode, ar_mode := mode\<rparr>)"
    "ar_ok mode (a\<lparr>ar_stream := ?m, ar_func := Some mode, ar_mode := mode\<rparr>)"
    using assms(1) by (simp_all add: ar_setMode_def ar_setPos_def ar_ok_def split_def del: ar_ok_modes)
  with \<open>mf_content ?m = ar_content a\<close> show ?thesis by simp
qed

text \<open>Writing fields, switching the mode and reading them back.\<close>

lemma write_then_read:
  assumes a: "ar_ok SM_WRITE a" "ar_content a = []" "ar_pos a = 0"
    and room: "mf_room h (ar_stream a) (length (enc_all fs))" and fs: "list_all sendable fs"
    and str: "\<And>s. FStr s \<in> set fs \<Longrightarrow> ar_swaps a = swap_none"
  shows "\<exists>a1 fs1 a2 a3. serial_fields h a fs = Inr (a1, fs1) \<and> ar_setMode a1 SM_READ = Inr a2 \<and>
    serial_fields h a2 (map blank fs) = Inr (a3, map (seen (ar_swaps a)) fs)"
proof -
  obtain a1 fs1 where a1: "serial_fields h a fs = Inr (a1, fs1)" "puts h a (enc_all fs) a1"
    using write_fields [OF a(1) _ room fs] a by auto
  then have "ar_content a1 = enc_all fs" "ar_ok SM_WRITE a1" "ar_swaps a1 = ar_swaps a" using a by (simp_all add: puts_def)
  moreover from this(2) obtain a2 where "ar_setMode a1 SM_READ = Inr a2" "ar_ok SM_READ a2" "ar_pos a2 = 0"
      "ar_content a2 = ar_content a1" "ar_swaps a2 = ar_swaps a1"
    using ar_setMode_ok [of a1 SM_READ] by (auto simp: ar_ok_def simp del: ar_ok_modes)
  moreover have "\<forall>k. can_alloc h k" using room by (simp add: mf_room_def)
  moreover have "drop (ar_pos a2) (ar_content a2) = enc_all fs @ []" using calculation by simp
  ultimately obtain a3 where "serial_fields h a2 (map blank fs) = Inr (a3, map (seen (ar_swaps a)) fs)"
    using read_fields [of a2 fs "[]" h] fs str by metis
  with a1(1) \<open>ar_setMode a1 SM_READ = Inr a2\<close> show ?thesis by blast
qed

section \<open>Properties\<close>

text \<open>Values that survive: a \<open>long\<close> must be in the range of \<open>int\<close>.\<close>

fun portable :: "field \<Rightarrow> bool" where
  "portable (FLong v) = (- 2147483648 \<le> sint v \<and> sint v < 2147483648)"
| "portable f = sendable f"

lemma scast_ucast_int:
  assumes "- 2147483648 \<le> sint (v :: u64)" "sint v < 2147483648"
  shows "scast (ucast v :: u32) = v"
proof -
  have "ucast v = (word_of_int (sint v) :: u32)" by (rule bit_word_eqI) (simp add: bit_simps)
  then have "sint (ucast v :: u32) = sint (word_of_int (sint v) :: u32)" by (rule arg_cong)
  also have "\<dots> = sint v" using assms by (simp only: signed_of_int) (simp add: signed_take_bit_int_eq_self)
  finally have "(word_of_int (sint (ucast v :: u32)) :: u64) = word_of_int (sint v)" by (rule arg_cong)
  then show ?thesis by simp
qed

lemma seen_none: "portable f \<Longrightarrow> seen swap_none f = f"
  by (cases f) (simp_all add: scast_ucast_int)

definition writing_archive :: archive where
  "writing_archive = ar_of_serial mf_new SM_WRITE"

lemma writing_archive_ok:
  "ar_ok SM_WRITE writing_archive" "ar_content writing_archive = []" "ar_pos writing_archive = 0"
  "ar_swaps writing_archive = swap_none" "ar_stream writing_archive = mf_new"
  using mf_new_wf by (simp_all add: writing_archive_def ar_of_serial_def ar_ok_def del: ar_ok_modes)

text \<open>
  C13: Fields of every type the archive knows, written one after the other and read back in the same
  order after the mode is switched, come back as they were, in the byte order of the host: integers
  of every width, booleans, floats by their bits, pointers and strings without zero bytes, and a
  \<open>long\<close> in the range of \<open>int\<close>.
\<close>

theorem archive_roundtrip:
  assumes "ar_ok SM_WRITE a" "ar_content a = []" "ar_pos a = 0" "ar_swaps a = swap_none"
    and "mf_room h (ar_stream a) (length (enc_all fs))" "list_all portable fs"
  shows "\<exists>a1 fs1 a2 a3. serial_fields h a fs = Inr (a1, fs1) \<and> ar_setMode a1 SM_READ = Inr a2 \<and>
    serial_fields h a2 (map blank fs) = Inr (a3, fs)"
proof -
  have "sendable f" if "portable f" for f using that by (cases f) auto
  with assms(6) have "list_all sendable fs" by (simp add: list.pred_mono_strong)
  moreover have "map (seen (ar_swaps a)) fs = fs"
    using assms(4,6) by (auto simp: list_all_iff seen_none intro: map_idI)
  ultimately show ?thesis using write_then_read [OF assms(1-3,5)] assms(4) by simp
qed

definition sample_fields :: "field list" where
  "sample_fields = [FInt 7, FStr [104, 105], FLong (- 2), FU16 513, FBool True]"

theorem archive_roundtrip_witness:
  "\<exists>a1 fs1 a2 a3. serial_fields open_heap writing_archive sample_fields = Inr (a1, fs1) \<and>
     ar_setMode a1 SM_READ = Inr a2 \<and>
     serial_fields open_heap a2 (map blank sample_fields) = Inr (a3, sample_fields)"
proof (rule archive_roundtrip)
  show "mf_room open_heap (ar_stream writing_archive) (length (enc_all sample_fields))"
    unfolding writing_archive_ok by (rule mf_room_new) (simp add: sample_fields_def enc_all_def)
  show "list_all portable sample_fields" by (simp add: sample_fields_def)
qed (rule writing_archive_ok)+

text \<open>
  With \<open>SetLittleEndian(false)\<close> on a little-endian host a value does not survive: the writer
  computes the swapped value, drops it and stores the host's bytes, while the reader swaps.  What
  is read is the value with its bytes reversed.
\<close>

theorem archive_swaps_once:
  assumes "ar_ok SM_WRITE a" "ar_content a = []" "ar_pos a = 0" "mf_room h (ar_stream a) 14"
  shows "\<exists>a1 fs1 a2 a3 l' s' q'.
    serial_fields h (SetLittleEndian a False) [FInt l, FU16 s, FU64 q] = Inr (a1, fs1) \<and>
    ar_setMode a1 SM_READ = Inr a2 \<and>
    serial_fields h a2 [FInt 0, FU16 0, FU64 0] = Inr (a3, [FInt l', FU16 s', FU64 q']) \<and>
    le_bytes 4 l' = rev (le_bytes 4 l) \<and> le_bytes 2 s' = rev (le_bytes 2 s) \<and> le_bytes 8 q' = rev (le_bytes 8 q)"
proof -
  let ?a = "SetLittleEndian a False"
  have a: "ar_ok SM_WRITE ?a" "ar_content ?a = []" "ar_pos ?a = 0" "ar_stream ?a = ar_stream a"
    using assms by (simp_all add: SetLittleEndian_def ar_ok_def Let_def del: ar_ok_modes)
  have "\<exists>a1 fs1 a2 a3. serial_fields h ?a [FInt l, FU16 s, FU64 q] = Inr (a1, fs1) \<and> ar_setMode a1 SM_READ = Inr a2 \<and>
      serial_fields h a2 (map blank [FInt l, FU16 s, FU64 q]) = Inr (a3, map (seen (ar_swaps ?a)) [FInt l, FU16 s, FU64 q])"
    by (rule write_then_read [OF a(1-3)]) (use assms(4) a(4) in \<open>simp_all add: enc_all_def\<close>)
  moreover have "map (seen (ar_swaps ?a)) [FInt l, FU16 s, FU64 q] = [FInt (LongSwap l), FU16 (ShortSwap s), FU64 (LongLongSwap q)]"
    by (simp add: SetLittleEndian_swaps)
  moreover have "le_bytes 4 (LongSwap l) = rev (le_bytes 4 l)" "le_bytes 2 (ShortSwap s) = rev (le_bytes 2 s)"
      "le_bytes 8 (LongLongSwap q) = rev (le_bytes 8 q)"
    by (simp_all add: ShortSwap_rev LongSwap_rev LongLongSwap_rev le_bytes_le_word)
  ultimately show ?thesis by (simp only: blank.simps list.map) blast
qed

theorem archive_swaps_once_witness:
  "\<exists>a1 fs1 a2 a3 l' s' q'.
    serial_fields open_heap (SetLittleEndian writing_archive False) [FInt 1, FU16 2, FU64 3] = Inr (a1, fs1) \<and>
    ar_setMode a1 SM_READ = Inr a2 \<and>
    serial_fields open_heap a2 [FInt 0, FU16 0, FU64 0] = Inr (a3, [FInt l', FU16 s', FU64 q']) \<and>
    le_bytes 4 l' = [0, 0, 0, 1] \<and> le_bytes 2 s' = [0, 2] \<and> le_bytes 8 q' = [0, 0, 0, 0, 0, 0, 0, 3]"
proof -
  have "mf_room open_heap (ar_stream writing_archive) 14"
    unfolding writing_archive_ok by (rule mf_room_new) simp
  note w = archive_swaps_once [OF writing_archive_ok(1-3) this, of 1 2 3]
  have e: "rev (le_bytes 4 (1 :: u32)) = [0, 0, 0, 1]" "rev (le_bytes 2 (2 :: u16)) = [0, 2]"
    "rev (le_bytes 8 (3 :: u64)) = [0, 0, 0, 0, 0, 0, 0, 3]" by (simp_all add: le_bytes_numeral)
  from w show ?thesis unfolding e .
qed

text \<open>
  A stored length that is negative passes the test against the size of the caller's buffer, and
  the position plus the length as \<open>size_t\<close> wraps past the test in \<open>Read\<close>: the copy leaves the
  stream's buffer.
\<close>

theorem Serial_max_negative_length:
  assumes a: "ar_ok SM_READ a" "ar_swaps a = swap_none" and v: "drop (ar_pos a) (ar_content a) = le_bytes 4 (v :: u32) @ rest"
    and neg: "sint v < 0" "- int (ar_pos a + 4) \<le> sint v" and buf: "0 \<le> nMaxBuf" "nat nMaxBuf \<le> length str"
  shows "Serial_max h a str len nMaxBuf = Inl OutOfBounds"
proof -
  obtain a1 where a1: "Serial_int h a 0 = Inr (a1, v)" "gets a (le_bytes 4 v) a1"
    using Serial_int_read [OF a(1) v, of h 0] a(2) by auto
  have p1: "ar_pos a1 = ar_pos a + 4" "ar_ok SM_READ a1" using a1(2) by (auto simp: gets_def)
  then have wf: "mf_wf (ar_stream a1)" and io: "ar_bound a1" "ar_func a1 = Some SM_READ" unfolding ar_ok_def by blast+
  from wf obtain cells where c: "fb_buf CACHE (mf_buf (ar_stream a1)) = Some cells"
      "length cells = fb_alloc (mf_buf (ar_stream a1)) + 1" "fb_alloc (mf_buf (ar_stream a1)) + 1 < SIZE_MOD"
    by (auto simp: mf_wf_def elim: fb_wfE)
  let ?n = "size_of_int (sint v)" and ?cp = "fb_cplen (mf_buf (ar_stream a1))"
  have "- 2147483648 \<le> sint v" using sint_greater_eq [of v] by simp
  then have "(int SIZE_MOD + sint v) mod int SIZE_MOD = int SIZE_MOD + sint v"
    using neg(1) by (intro mod_pos_pos_trivial) (simp_all add: SIZE_MOD_def)
  then have n: "int ?n = int SIZE_MOD + sint v"
    using \<open>- 2147483648 \<le> sint v\<close> by (simp add: size_of_int_def) (simp add: SIZE_MOD_def)
  have le: "ar_pos a1 \<le> ?cp" and cp: "?cp \<le> fb_alloc (mf_buf (ar_stream a1))"
    using wf by (auto simp: mf_wf_def elim: fb_wfE)
  have "int (size_add (ar_pos a1) ?n) = (int (ar_pos a1) + sint v) mod int SIZE_MOD"
    using n by (simp add: size_add_def zmod_int ac_simps)
  also have "\<dots> = int (ar_pos a1) + sint v" using neg p1 le cp c(3) by (simp add: mod_pos_pos_trivial)
  finally have "size_add (ar_pos a1) ?n \<le> ?cp" using neg(1) le by linarith
  moreover have "\<not> ar_pos a1 + ?n \<le> length cells" using n neg c p1 by linarith
  ultimately have "mf_Read (ar_stream a1) ?n = Inl OutOfBounds"
    using c by (simp add: mf_Read_def fb_load_def mem_read_def)
  then have "SerialFunc h a1 s ?n = Inl OutOfBounds" for s
    using io by (simp add: SerialFunc_def)
  then show ?thesis using a1 a buf neg by (simp add: Serial_max_def mem_write_def)
qed

definition hostile_archive :: archive where
  "hostile_archive = ar_of_serial
     (mf_new\<lparr>mf_buf := \<lparr>fb_heap = None, fb_arr = [255, 255, 255, 255] @ replicate 29 0, fb_cplen = 4, fb_alloc = 32\<rparr>\<rparr>) SM_READ"

theorem Serial_max_negative_length_witness:
  "Serial_max open_heap hostile_archive (replicate 32 0) 32 32 = Inl OutOfBounds"
proof (rule Serial_max_negative_length)
  let ?v = "0xFFFFFFFF :: u32"
  show "ar_ok SM_READ hostile_archive" "ar_swaps hostile_archive = swap_none"
    by (simp_all add: hostile_archive_def ar_of_serial_def ar_ok_def mf_new_def mf_wf_def fb_wf_def CACHE_def SIZE_MOD_def
        del: ar_ok_modes)
  show "drop (ar_pos hostile_archive) (ar_content hostile_archive) = le_bytes 4 ?v @ []"
    by (simp add: hostile_archive_def ar_of_serial_def mf_new_def mf_content_def fb_text_def fb_buf_def CACHE_def
        le_bytes_numeral)
  show "sint ?v < 0" "- int (ar_pos hostile_archive + 4) \<le> sint ?v"
    by (simp_all add: hostile_archive_def ar_of_serial_def mf_new_def)
qed simp_all

end
