(* ===== verification/Message.thy ===== *)
theory Message
  imports Archive
begin

text \<open>
  The message \<open>CLXZMessage\<close> of \<open>lae/include/LXZMessage.h\<close> and \<open>lae/source/LXZMessage.cpp\<close>: an archive
  on a memory stream of its own, with the application's data, WebSocket framing, a hexadecimal
  dump and the serialization of one message inside another archive.  The class derives from
  \<open>CIArchive\<close>, so its record extends the archive's; \<open>m_IMemStream\<close> is the archive's stream.
\<close>

section \<open>State\<close>

record lxz_message = archive +
  msg_test :: u32
  msg_data :: u32
  msg_sysdata :: u32
  msg_timer :: u32
  msg_event :: int
  msg_sock :: u32
  msg_app :: u64
  msg_app1 :: u64
  msg_luaref :: int

text \<open>The constructor takes the static counter \<open>msg_id\<close> and gives its new value.\<close>

definition message_new :: "u32 \<Rightarrow> lxz_message \<times> u32" where
  "message_new msg_id =
     (archive.extend ar_new
        (lxz_message.fields 123456 0 0 msg_id (- 1) 0 0 0 (- 1)), msg_id + 1)"

definition msg_setMode :: "lxz_message \<Rightarrow> ser_mode \<Rightarrow> lxz_message" where
  "msg_setMode m mode = ar_Initial m (ar_stream m) mode"

text \<open>The second constructor leaves \<open>m_pAppData1\<close> and \<open>m_u4SysData\<close> unset.\<close>

definition message_of_head :: "c_heap \<Rightarrow> byte list \<Rightarrow> c_fault + lxz_message" where
  "message_of_head h strHead =
     (let m = archive.extend ar_new
                (lxz_message.fields 123456 0 (ucast (indeterminate h)) 0 0 0 0 (indeterminate h) (- 1))
      in bindE (strlen strHead) (\<lambda>n.
         bindE (Serial_max h (msg_setMode m SM_WRITE) strHead (int n) (int n)) (\<lambda>(m', _). Inr m')))"

definition message_delete :: "lxz_message \<Rightarrow> u32 \<Rightarrow> lxz_message \<times> u32" where
  "message_delete m msg_id = (m\<lparr>msg_test := 111111\<rparr>, msg_id - 1)"

definition getBufferSize :: "lxz_message \<Rightarrow> int" where
  "getBufferSize m = mf_GetBufferLen (ar_stream m)"

definition getMsgSize :: "lxz_message \<Rightarrow> int" where
  "getMsgSize m = mf_GetValidCount (ar_stream m)"

definition getMsgPtr :: "lxz_message \<Rightarrow> byte list option" where
  "getMsgPtr m = mf_GetBuffer (ar_stream m)"

text \<open>The block that a pointer designates; using a null pointer is a fault.\<close>

definition deref :: "'a option \<Rightarrow> c_fault + 'a" where
  "deref p = (case p of None \<Rightarrow> Inl NullDeref | Some x \<Rightarrow> Inr x)"

text \<open>\<open>operator=\<close> of two distinct messages.\<close>

definition message_assign :: "c_heap \<Rightarrow> lxz_message \<Rightarrow> lxz_message \<Rightarrow> c_fault + lxz_message" where
  "message_assign h m other =
     (let m1 = msg_setMode (m\<lparr>msg_data := msg_data other\<rparr>) SM_WRITE in
      bindE (deref (getMsgPtr other)) (\<lambda>p.
      bindE (Serial_buf h m1 p (getMsgSize other)) (\<lambda>(m2, _).
        Inr (msg_setMode m2 (ar_mode other)))))"

definition setData :: "lxz_message \<Rightarrow> u32 \<Rightarrow> lxz_message" where
  "setData m d = m\<lparr>msg_data := d\<rparr>"

definition setTime :: "lxz_message \<Rightarrow> u32 \<Rightarrow> lxz_message" where
  "setTime m t = m\<lparr>msg_timer := t\<rparr>"

definition setEvent :: "lxz_message \<Rightarrow> int \<Rightarrow> lxz_message" where
  "setEvent m e = m\<lparr>msg_event := e\<rparr>"

definition setSockId :: "lxz_message \<Rightarrow> int \<Rightarrow> lxz_message" where
  "setSockId m s = m\<lparr>msg_sock := word_of_int s\<rparr>"

definition setAppData :: "lxz_message \<Rightarrow> u64 \<Rightarrow> lxz_message" where
  "setAppData m p = m\<lparr>msg_app := p\<rparr>"

definition setAppData1 :: "lxz_message \<Rightarrow> u64 \<Rightarrow> lxz_message" where
  "setAppData1 m p = m\<lparr>msg_app1 := p\<rparr>"

definition SetLuaRef :: "lxz_message \<Rightarrow> int \<Rightarrow> lxz_message" where
  "SetLuaRef m r = m\<lparr>msg_luaref := r\<rparr>"

definition setSystemData :: "lxz_message \<Rightarrow> u32 \<Rightarrow> lxz_message" where
  "setSystemData m d = m\<lparr>msg_sysdata := d\<rparr>"

definition msg_grown :: "c_heap \<Rightarrow> lxz_message \<Rightarrow> nat \<Rightarrow> c_fault + lxz_message" where
  "msg_grown h m n = bindE (mf_grown h (ar_stream m) n) (\<lambda>s. Inr (m\<lparr>ar_stream := s\<rparr>))"

definition rollback :: "lxz_message \<Rightarrow> int \<Rightarrow> lxz_message" where
  "rollback m offset =
     m\<lparr>ar_stream := fst (mf_SetPos (ar_stream m)
        (nat ((int (mf_GetPos (ar_stream m)) - offset) mod int SIZE_MOD)))\<rparr>"

definition ReleaseMemory :: "lxz_message \<Rightarrow> lxz_message" where
  "ReleaseMemory m = m\<lparr>ar_stream := mf_Release (ar_stream m)\<rparr>"

definition msg_removeHeadBuffer :: "lxz_message \<Rightarrow> nat \<Rightarrow> c_fault + lxz_message" where
  "msg_removeHeadBuffer m n = bindE (mf_removeHeadBuffer (ar_stream m) n) (\<lambda>s. Inr (m\<lparr>ar_stream := s\<rparr>))"

section \<open>WebSocket frames\<close>

datatype WebSocketFrameType =
    ERROR_FRAME | INCOMPLETE_FRAME | OPENING_FRAME | CLOSING_FRAME | INCOMPLETE_TEXT_FRAME | INCOMPLETE_BINARY_FRAME
  | TEXT_FRAME | BINARY_FRAME | PING_FRAME | PONG_FRAME

fun frame_code :: "WebSocketFrameType \<Rightarrow> u32" where
  "frame_code ERROR_FRAME = 0xFF00"
| "frame_code INCOMPLETE_FRAME = 0xFE00"
| "frame_code OPENING_FRAME = 0x3300"
| "frame_code CLOSING_FRAME = 0x3400"
| "frame_code INCOMPLETE_TEXT_FRAME = 0x01"
| "frame_code INCOMPLETE_BINARY_FRAME = 0x02"
| "frame_code TEXT_FRAME = 0x81"
| "frame_code BINARY_FRAME = 0x82"
| "frame_code PING_FRAME = 0x19"
| "frame_code PONG_FRAME = 0x1A"

text \<open>Consecutive calls of \<open>Serial\<close> with one byte each.\<close>

fun serial_bytes :: "c_heap \<Rightarrow> 'z archive_scheme \<Rightarrow> byte list \<Rightarrow> c_fault + 'z archive_scheme" where
  "serial_bytes h a [] = Inr a"
| "serial_bytes h a (b # bs) = bindE (Serial_u8 h a b) (\<lambda>(a', _). serial_bytes h a' bs)"

text \<open>Byte \<open>i\<close> of the length, \<open>(msg_length >> 8 * i) & 0xFF\<close>.\<close>

definition length_byte :: "int \<Rightarrow> nat \<Rightarrow> byte" where
  "length_byte msg_length i = word_of_int (drop_bit (8 * i) msg_length AND 255)"

definition frame_length :: "int \<Rightarrow> byte list" where
  "frame_length msg_length =
     (if msg_length \<le> 125 then [word_of_int msg_length]
      else if msg_length \<le> 65535 then [126, length_byte msg_length 1, length_byte msg_length 0]
      else [127, 0, 0, 0, 0, length_byte msg_length 3, length_byte msg_length 2, length_byte msg_length 1,
            length_byte msg_length 0])"

text \<open>Of the frame type only the low byte is written.\<close>

definition set_frame :: "c_heap \<Rightarrow> lxz_message \<Rightarrow> byte \<Rightarrow> byte list \<Rightarrow> int \<Rightarrow> c_fault + (lxz_message \<times> int)" where
  "set_frame h m first msg msg_length =
     bindE (Serial_u8 h m first) (\<lambda>(m1, _).
     bindE (serial_bytes h m1 (frame_length msg_length)) (\<lambda>m2.
     bindE (ar_Write h m2 msg msg_length) (\<lambda>m3. Inr (m3, getMsgSize m3))))"

definition SetWebSocketFrame ::
  "c_heap \<Rightarrow> lxz_message \<Rightarrow> WebSocketFrameType \<Rightarrow> byte list \<Rightarrow> int \<Rightarrow> c_fault + (lxz_message \<times> int)" where
  "SetWebSocketFrame h m frame_type msg msg_length = set_frame h m (ucast (frame_code frame_type)) msg msg_length"

text \<open>
  The payload's length from the header: an \<open>int\<close> shifted by 32 or more in the 64-bit form is
  undefined.  The second component is \<open>pos\<close>.
\<close>

definition payload_field :: "byte list \<Rightarrow> c_fault + (int \<times> nat)" where
  "payload_field buf =
     bindE (mem_get buf 1) (\<lambda>b1.
       let length_field = uint (b1 AND 0x7F) in
       if length_field \<le> 125 then Inr (length_field, 2)
       else if length_field = 126 then
         bindE (mem_get buf 2) (\<lambda>b2. bindE (mem_get buf 3) (\<lambda>b3.
           Inr (push_bit 8 (uint b2) OR uint b3, 4)))
       else bindE (mem_get buf 2) (\<lambda>_. Inl BadShift))"

text \<open>The loop that unmasks the payload; \<open>c\<close> starts at \<open>in_buffer + pos\<close>.\<close>

fun unmask_loop :: "c_heap \<Rightarrow> 'z archive_scheme \<Rightarrow> byte list \<Rightarrow> byte list \<Rightarrow> nat \<Rightarrow> nat \<Rightarrow> c_fault + 'z archive_scheme" where
  "unmask_loop h a c msk i 0 = Inr a"
| "unmask_loop h a c msk i (Suc n) =
     bindE (mem_get c i) (\<lambda>x.
     bindE (mem_get msk (i mod 4)) (\<lambda>k.
     bindE (Serial_u8 h a (x XOR k)) (\<lambda>(a', _). unmask_loop h a' c msk (Suc i) n)))"

definition frame_kind :: "byte \<Rightarrow> WebSocketFrameType" where
  "frame_kind b0 =
     (let msg_opcode = b0 AND 0x0F; msg_fin = drop_bit 7 b0 AND 1 in
      if msg_opcode = 0 then (if msg_fin \<noteq> 0 then TEXT_FRAME else INCOMPLETE_TEXT_FRAME)
      else if msg_opcode = 1 then (if msg_fin \<noteq> 0 then TEXT_FRAME else INCOMPLETE_TEXT_FRAME)
      else if msg_opcode = 2 then (if msg_fin \<noteq> 0 then BINARY_FRAME else INCOMPLETE_BINARY_FRAME)
      else if msg_opcode = 9 then PING_FRAME
      else if msg_opcode = 0xA then PONG_FRAME
      else ERROR_FRAME)"

text \<open>The result with the new value of \<open>out_len\<close>, which an incomplete frame leaves alone.\<close>

definition GetWebSocketFrame ::
  "c_heap \<Rightarrow> lxz_message \<Rightarrow> byte list \<Rightarrow> int \<Rightarrow> c_fault + (lxz_message \<times> WebSocketFrameType \<times> int option)" where
  "GetWebSocketFrame h m in_buffer in_length =
     (if in_length < 3 then Inr (m, INCOMPLETE_FRAME, None)
      else
        bindE (mem_get in_buffer 0) (\<lambda>b0.
        bindE (mem_get in_buffer 1) (\<lambda>b1.
        bindE (payload_field in_buffer) (\<lambda>(payload_length, pos).
          if in_length < payload_length + int pos then Inr (m, INCOMPLETE_FRAME, None)
          else if drop_bit 7 b1 AND 1 \<noteq> 0 then
            bindE (mem_read in_buffer pos 4) (\<lambda>msk.
            bindE (unmask_loop h m (drop (pos + 4) in_buffer) msk 0 (nat payload_length)) (\<lambda>m'.
              Inr (m', frame_kind b0, Some (int (pos + 4) + payload_length))))
          else
            bindE (ar_Write h m (drop pos in_buffer) payload_length) (\<lambda>m'.
              Inr (m', frame_kind b0, Some (int pos + payload_length)))))))"

section \<open>Dump and serialization\<close>

definition hex_digit :: "nat \<Rightarrow> byte" where
  "hex_digit d = (if d < 10 then word_of_nat (48 + d) else word_of_nat (87 + d))"

text \<open>\<open>sprintf(&buf[i * 2], "%02x", pData[i])\<close> stores two digits and a terminator.\<close>

fun tohex_loop :: "byte list \<Rightarrow> byte list \<Rightarrow> nat \<Rightarrow> nat \<Rightarrow> c_fault + byte list" where
  "tohex_loop buf pData i 0 = Inr buf"
| "tohex_loop buf pData i (Suc n) =
     bindE (mem_get pData i) (\<lambda>x.
     bindE (mem_write buf (i * 2) [hex_digit (unat x div 16), hex_digit (unat x mod 16), 0]) (\<lambda>buf'.
       tohex_loop buf' pData (Suc i) n))"

definition tohex :: "lxz_message \<Rightarrow> byte list \<Rightarrow> nat \<Rightarrow> c_fault + byte list" where
  "tohex m buf buf_size =
     bindE (mem_write buf 0 (replicate buf_size 0)) (\<lambda>buf1.
     let half = buf_size div 2; msg_size = size_of_int (getMsgSize m);
         hex_size = (if msg_size \<le> half then msg_size else half) in
     bindE (deref (getMsgPtr m)) (\<lambda>pData. tohex_loop buf1 pData 0 hex_size))"

definition SerialMsg ::
  "c_heap \<Rightarrow> lxz_message \<Rightarrow> 'z archive_scheme \<Rightarrow> c_fault + (lxz_message \<times> 'z archive_scheme)" where
  "SerialMsg h m ar =
     (let m0 = setVersion m (ar_version ar) in
      if IsReading ar then
        bindE (Serial_int h ar 0) (\<lambda>(ar1, len).
        bindE
          (if 0 \<le> sint len \<and> sint len < 104857600 then
             if sint len > 0 then
               bindE (guardE (can_alloc h (sint len)) (Die ''bad_alloc'')) (\<lambda>_.
               bindE (Serial_max h ar1 (malloc_cells h (nat (sint len))) (sint len) (sint len)) (\<lambda>(ar2, buf).
               bindE (ar_setMode m0 SM_WRITE) (\<lambda>m1.
               bindE (Serial_buf h m1 buf (sint len)) (\<lambda>(m2, _). Inr (m2, ar2)))))
             else Inr (m0, ar1)
           else
             bindE (mf_Read (ar_stream m0) 0x0FFFFFFF) (\<lambda>(s, _, got).
             bindE (case got of None \<Rightarrow> Inr () | Some _ \<Rightarrow> Inl NullDeref) (\<lambda>_.
               Inr (m0\<lparr>ar_stream := s\<rparr>, ar1)))) (\<lambda>(m3, ar3).
        bindE (ar_setMode m3 SM_READ) (\<lambda>m4. Inr (m4, ar3))))
      else
        (let len = getMsgSize m0 in
         bindE (Serial_int h ar (word_of_int len)) (\<lambda>(ar1, _).
           if len > 0 then
             bindE (deref (getMsgPtr m0)) (\<lambda>p.
             bindE (Serial_max h ar1 p len len) (\<lambda>(ar2, _). Inr (m0, ar2)))
           else Inr (m0, ar1))))"

section \<open>Writing bytes\<close>

lemma size_of_int_nat [simp]: "n < SIZE_MOD \<Longrightarrow> size_of_int (int n) = n"
  by (simp add: size_of_int_def)

lemma mf_room_SIZE: "mf_room h m n \<Longrightarrow> n < SIZE_MOD"
  unfolding mf_room_def max_def by (auto split: if_splits)

lemma puts_refl: "ar_ok SM_WRITE a \<Longrightarrow> ar_pos a = length (ar_content a) \<Longrightarrow> puts h a [] a"
  by (simp add: puts_def)

text \<open>The shape in which the lemmas on writing are chained: an archive at the end of its content.\<close>

definition at_end :: "c_heap \<Rightarrow> 'z archive_scheme \<Rightarrow> nat \<Rightarrow> bool" where
  "at_end h a n \<longleftrightarrow> ar_ok SM_WRITE a \<and> ar_pos a = length (ar_content a) \<and> mf_room h (ar_stream a) n"

lemma at_end_puts: "at_end h a (length xs + n) \<Longrightarrow> puts h a xs a' \<Longrightarrow> at_end h a' n"
  by (simp add: at_end_def puts_def)

lemma at_end_mono: "at_end h a n \<Longrightarrow> k \<le> n \<Longrightarrow> at_end h a k"
  by (auto simp: at_end_def intro: mf_room_mono)

lemma Serial_u8_write:
  assumes "at_end h a (Suc n)"
  shows "\<exists>a'. Serial_u8 h a b = Inr (a', b) \<and> puts h a [b] a' \<and> at_end h a' n"
proof -
  have "mf_room h (ar_stream a) 1" using assms by (auto simp: at_end_def intro: mf_room_mono)
  with SerialFunc_write [of a h 1 "[b]"] assms obtain a' r where "SerialFunc h a [b] 1 = Inr (a', r, [b])" "puts h a [b] a'"
    by (auto simp: at_end_def)
  with at_end_puts [of h a "[b]" n a'] assms show ?thesis by (simp add: Serial_u8_def)
qed

lemma serial_bytes_ok:
  "at_end h a (length bs + n) \<Longrightarrow> \<exists>a'. serial_bytes h a bs = Inr a' \<and> puts h a bs a' \<and> at_end h a' n"
proof (induction bs arbitrary: a)
  case Nil
  then show ?case by (simp add: at_end_def puts_refl)
next
  case (Cons b bs)
  then obtain a1 where a1: "Serial_u8 h a b = Inr (a1, b)" "puts h a [b] a1" "at_end h a1 (length bs + n)"
    using Serial_u8_write [of h a "length bs + n" b] by auto
  with Cons.IH puts_trans [OF a1(2)] show ?case by fastforce
qed

lemma ar_Write_ok:
  assumes "at_end h a (k + n)" "k \<le> length buf"
  shows "\<exists>a'. ar_Write h a buf (int k) = Inr a' \<and> puts h a (take k buf) a' \<and> at_end h a' n"
proof -
  have room: "mf_room h (ar_stream a) k" using assms(1) by (auto simp: at_end_def intro: mf_room_mono)
  with SerialFunc_write [of a h k buf] assms obtain a' r where a': "SerialFunc h a buf k = Inr (a', r, buf)" "puts h a (take k buf) a'"
    by (auto simp: at_end_def)
  have "at_end h a' n" by (rule at_end_puts [OF _ a'(2)]) (use assms in simp)
  with a' assms mf_room_SIZE [OF room] show ?thesis by (simp add: ar_Write_def at_end_def)
qed

definition xor_mask :: "byte list \<Rightarrow> byte list \<Rightarrow> byte list" where
  "xor_mask k xs = map (\<lambda>i. xs ! i XOR k ! (i mod 4)) [0..<length xs]"

lemma length_xor_mask [simp]: "length (xor_mask k xs) = length xs"
  by (simp add: xor_mask_def)

lemma unmask_loop_ok:
  "at_end h a n \<Longrightarrow> i + n \<le> length c \<Longrightarrow> length msk = 4 \<Longrightarrow>
     \<exists>a'. unmask_loop h a c msk i n = Inr a' \<and> puts h a (map (\<lambda>j. c ! j XOR msk ! (j mod 4)) [i..<i + n]) a'"
proof (induction n arbitrary: a i)
  case 0
  then show ?case by (simp add: at_end_def puts_refl)
next
  case (Suc n)
  then obtain a1 where a1: "Serial_u8 h a (c ! i XOR msk ! (i mod 4)) = Inr (a1, c ! i XOR msk ! (i mod 4))"
    "puts h a [c ! i XOR msk ! (i mod 4)] a1" "at_end h a1 n"
    using Serial_u8_write by blast
  then obtain a2 where "unmask_loop h a1 c msk (Suc i) n = Inr a2"
    "puts h a1 (map (\<lambda>j. c ! j XOR msk ! (j mod 4)) [Suc i..<Suc i + n]) a2"
    using Suc.IH [of a1 "Suc i"] Suc.prems by auto
  with a1 puts_trans [OF a1(2)] Suc.prems show ?case
    by (fastforce simp: mem_get_def upt_conv_Cons simp del: upt_Suc)
qed

text \<open>The loop stops at the end of the block, after it has written what the block has.\<close>

lemma unmask_loop_overrun:
  "at_end h a n \<Longrightarrow> i \<le> length c \<Longrightarrow> length c < i + n \<Longrightarrow> length msk = 4 \<Longrightarrow>
     unmask_loop h a c msk i n = Inl OutOfBounds"
proof (induction n arbitrary: a i)
  case (Suc n)
  show ?case
  proof (cases "i < length c")
    case True
    obtain a1 where "Serial_u8 h a (c ! i XOR msk ! (i mod 4)) = Inr (a1, c ! i XOR msk ! (i mod 4))" "at_end h a1 n"
      using Serial_u8_write [OF Suc.prems(1)] by blast
    with True Suc.IH [of a1 "Suc i"] Suc.prems show ?thesis by (simp add: mem_get_def)
  next
    case False
    then show ?thesis by (simp add: mem_get_def)
  qed
qed simp

section \<open>Frames\<close>

text \<open>
  The layout of RFC 6455 for payloads of up to 65535 bytes: the first byte, the length with the mask
  bit, the masking key if there is one, and the payload.
\<close>

definition ws_length :: "byte \<Rightarrow> nat \<Rightarrow> byte list" where
  "ws_length m n = (if n \<le> 125 then [m + word_of_nat n] else [m + 126, word_of_nat (n div 256), word_of_nat (n mod 256)])"

definition ws_plain :: "byte \<Rightarrow> byte list \<Rightarrow> byte list" where
  "ws_plain b0 xs = b0 # ws_length 0 (length xs) @ xs"

definition ws_masked :: "byte \<Rightarrow> byte list \<Rightarrow> byte list \<Rightarrow> byte list" where
  "ws_masked b0 k xs = b0 # ws_length 128 (length xs) @ k @ xor_mask k xs"

lemma header_byte:
  fixes m :: byte
  assumes "k < 128" "m = 0 \<or> m = 128"
  shows "uint ((m + word_of_nat k) AND 0x7F) = int k" "drop_bit 7 (m + word_of_nat k) AND 1 \<noteq> 0 \<longleftrightarrow> m = 128"
proof -
  have w: "m + word_of_nat k = word_of_nat (unat m + k)" by simp
  have u: "unat (m + word_of_nat k) = unat m + k" unfolding w using assms by (intro unat_of_nat_small) auto
  have "(0x7F :: byte) = mask 7" by (simp add: mask_eq_exp_minus_1)
  then have "unat ((m + word_of_nat k) AND 0x7F) = (unat m + k) mod 128" by (simp only: unat_and_mask u) simp
  also have "\<dots> = k" using assms by auto
  finally show "uint ((m + word_of_nat k) AND 0x7F) = int k" by (metis uint_nat)
  have "unat (drop_bit 7 (m + word_of_nat k)) = (unat m + k) div 128" by (simp only: unat_drop_bit u) simp
  also have "\<dots> = (if m = 128 then 1 else 0)" using assms by auto
  finally have "drop_bit 7 (m + word_of_nat k) = (if m = 128 then 1 else 0 :: byte)"
    by (metis unat_0 unat_1 unat_inject)
  then show "drop_bit 7 (m + word_of_nat k) AND 1 \<noteq> 0 \<longleftrightarrow> m = 128" by simp
qed

lemma payload_field_ok:
  assumes "n \<le> 65535" "m = 0 \<or> m = 128"
  shows "payload_field (b0 # ws_length m n @ ys) = Inr (int n, Suc (length (ws_length m n)))"
    "drop_bit 7 ((b0 # ws_length m n @ ys) ! 1) AND 1 \<noteq> 0 \<longleftrightarrow> m = 128"
proof -
  have "push_bit 8 (int (n div 256)) OR int (n mod 256) = int n"
  proof -
    have t: "int (n mod 256) = take_bit 8 (int n)" by (simp add: take_bit_eq_mod zmod_int)
    have "push_bit 8 (int (n div 256)) OR int (n mod 256) = push_bit 8 (int (n div 256)) + int (n mod 256)"
      by (rule disjunctive_add_eq_or [symmetric]) (simp add: t bit_eq_iff bit_simps)
    also have "\<dots> = int (n div 256 * 256 + n mod 256)" by (simp only: push_bit_eq_mult of_nat_add of_nat_mult) simp
    finally show ?thesis by (simp only: div_mult_mod_eq)
  qed
  moreover have "uint (word_of_nat (n div 256) :: byte) = int (n div 256)" "uint (word_of_nat (n mod 256) :: byte) = int (n mod 256)"
    using assms(1) by (simp_all add: uint_nat unat_of_nat_small)
  ultimately show "payload_field (b0 # ws_length m n @ ys) = Inr (int n, Suc (length (ws_length m n)))"
    using header_byte(1) [of n m] header_byte(1) [of 126 m] assms
    by (simp add: payload_field_def ws_length_def mem_get_def Let_def)
  show "drop_bit 7 ((b0 # ws_length m n @ ys) ! 1) AND 1 \<noteq> 0 \<longleftrightarrow> m = 128"
    using header_byte(2) [of n m] header_byte(2) [of 126 m] assms by (simp add: ws_length_def)
qed

lemma length_ws_length: "length (ws_length m n) = (if n \<le> 125 then 1 else 3)"
  by (simp add: ws_length_def)

text \<open>The decoder on a buffer that starts with a header: the mask bit selects the branch.\<close>

lemma GetWebSocketFrame_header:
  assumes "n \<le> 65535" "m = 0 \<or> m = 128" "3 \<le> in_length"
  defines "pos \<equiv> Suc (length (ws_length m n))"
  shows "GetWebSocketFrame h msg (b0 # ws_length m n @ ys) in_length =
     (if in_length < int n + int pos then Inr (msg, INCOMPLETE_FRAME, None)
      else if m = 128 then
        bindE (mem_read ys 0 4) (\<lambda>msk.
        bindE (unmask_loop h msg (drop 4 ys) msk 0 n) (\<lambda>m'. Inr (m', frame_kind b0, Some (int (pos + 4) + int n))))
      else bindE (ar_Write h msg ys (int n)) (\<lambda>m'. Inr (m', frame_kind b0, Some (int pos + int n))))"
proof -
  let ?buf = "b0 # ws_length m n @ ys"
  note pf = payload_field_ok [OF assms(1,2), of b0 ys]
  have "mem_get ?buf 0 = Inr b0" "mem_get ?buf 1 = Inr (?buf ! 1)"
    by (simp_all add: mem_get_def length_ws_length)
  moreover have d: "drop pos ?buf = ys" by (simp add: pos_def)
  moreover have "drop (pos + 4) ?buf = drop 4 (drop pos ?buf)" by (simp add: add.commute)
  moreover have "mem_read ?buf pos 4 = mem_read ys 0 4" unfolding mem_read_def d by (simp add: pos_def)
  ultimately show ?thesis
    using pf assms(3) unfolding GetWebSocketFrame_def pos_def [symmetric] by (cases "m = 128"; simp)
qed

lemma GetWebSocketFrame_plain:
  assumes m: "at_end h m (length xs)" and n: "0 < length xs" "length xs \<le> 65535"
  shows "\<exists>m'. GetWebSocketFrame h m (ws_plain b0 xs @ rest) (int (length (ws_plain b0 xs @ rest))) =
      Inr (m', frame_kind b0, Some (int (length (ws_plain b0 xs)))) \<and> puts h m xs m'"
proof -
  have buf: "ws_plain b0 xs @ rest = b0 # ws_length 0 (length xs) @ (xs @ rest)" by (simp add: ws_plain_def)
  have "3 \<le> int (length (ws_plain b0 xs @ rest))" using n(1) by (cases xs) (simp_all add: ws_plain_def length_ws_length)
  note g = GetWebSocketFrame_header [OF n(2) disjI1 [OF refl] this, of h m b0 "xs @ rest", folded buf]
  obtain m' where w: "ar_Write h m (xs @ rest) (int (length xs)) = Inr m'" "puts h m xs m'"
    using ar_Write_ok [of h m "length xs" 0 "xs @ rest"] m by auto
  show ?thesis unfolding g using w by (simp add: ws_plain_def)
qed

lemma GetWebSocketFrame_masked:
  assumes m: "at_end h m (length xs)" and n: "length xs \<le> 65535" and k: "length k = 4"
  shows "\<exists>m'. GetWebSocketFrame h m (ws_masked b0 k xs @ rest) (int (length (ws_masked b0 k xs @ rest))) =
      Inr (m', frame_kind b0, Some (int (length (ws_masked b0 k xs)))) \<and> puts h m xs m'"
proof -
  let ?ys = "k @ xor_mask k xs @ rest"
  have buf: "ws_masked b0 k xs @ rest = b0 # ws_length 128 (length xs) @ ?ys" by (simp add: ws_masked_def)
  have "3 \<le> int (length (ws_masked b0 k xs @ rest))" using k by (simp add: ws_masked_def length_ws_length)
  note g = GetWebSocketFrame_header [OF n disjI2 [OF refl] this, of h m b0 ?ys, folded buf]
  have "map (\<lambda>j. (xor_mask k xs @ rest) ! j XOR k ! (j mod 4)) [0..<0 + length xs] = xs"
    by (rule nth_equalityI) (simp_all add: nth_append xor_mask_def xor.assoc)
  with unmask_loop_ok [OF m, of 0 "xor_mask k xs @ rest" k] k obtain m' where
    "unmask_loop h m (xor_mask k xs @ rest) k 0 (length xs) = Inr m'" "puts h m xs m'" by auto
  with k show ?thesis unfolding g by (simp add: ws_masked_def mem_read_def)
qed

text \<open>What the encoder writes is that layout.\<close>

lemma frame_length_ws: "n \<le> 65535 \<Longrightarrow> frame_length (int n) = ws_length 0 n"
proof -
  assume n: "n \<le> 65535"
  have "(255 :: int) = mask 8" by (simp add: mask_eq_exp_minus_1)
  then have and255: "i AND 255 = i mod 256" for i :: int by (simp only: take_bit_eq_mask [symmetric]) (simp add: take_bit_eq_mod)
  have z: "int k mod 256 = int (k mod 256)" "int k div 256 = int (k div 256)" for k by (simp_all add: zmod_int zdiv_int)
  have "length_byte (int n) 0 = word_of_nat (n mod 256)" "length_byte (int n) 1 = word_of_nat (n div 256)"
    using n z [of n] by (simp_all add: length_byte_def drop_bit_eq_div and255)
  with n show ?thesis by (simp add: frame_length_def ws_length_def)
qed

lemma SetWebSocketFrame_ok:
  assumes m: "at_end h m (length (ws_plain (ucast (frame_code t)) xs))" and n: "length xs \<le> 65535"
  shows "\<exists>m' r. SetWebSocketFrame h m t (xs @ ys) (int (length xs)) = Inr (m', r) \<and>
    puts h m (ws_plain (ucast (frame_code t)) xs) m'"
proof -
  let ?b = "ucast (frame_code t) :: byte" and ?l = "ws_length 0 (length xs)"
  obtain m1 where m1: "Serial_u8 h m ?b = Inr (m1, ?b)" "puts h m [?b] m1" "at_end h m1 (length ?l + length xs)"
    using Serial_u8_write [of h m "length ?l + length xs" ?b] m by (auto simp: ws_plain_def)
  obtain m2 where m2: "serial_bytes h m1 ?l = Inr m2" "puts h m1 ?l m2" "at_end h m2 (length xs)"
    using serial_bytes_ok [OF m1(3)] by blast
  obtain m3 where m3: "ar_Write h m2 (xs @ ys) (int (length xs)) = Inr m3" "puts h m2 xs m3"
    using ar_Write_ok [of h m2 "length xs" 0 "xs @ ys"] m2(3) by auto
  have "puts h m ([?b] @ ?l @ xs) m3" by (rule puts_trans [OF m1(2) puts_trans [OF m2(2) m3(2)]])
  with m1 m2 m3 n show ?thesis by (simp add: SetWebSocketFrame_def set_frame_def frame_length_ws ws_plain_def)
qed

lemma frame_kind_code:
  "t \<in> {TEXT_FRAME, BINARY_FRAME, INCOMPLETE_TEXT_FRAME, INCOMPLETE_BINARY_FRAME, PING_FRAME, PONG_FRAME} \<Longrightarrow>
     frame_kind (ucast (frame_code t)) = t"
  by (auto simp: frame_kind_def Let_def)

definition message_new_writing :: lxz_message where
  "message_new_writing = msg_setMode (fst (message_new 0)) SM_WRITE"

lemma message_new_stream: "ar_stream (fst (message_new i)) = mf_new"
  by (simp add: message_new_def archive.defs lxz_message.defs ar_new_def)

lemma msg_setMode_ok:
  assumes "mf_wf (ar_stream m)"
  shows "ar_ok mode (msg_setMode m mode) \<and> ar_pos (msg_setMode m mode) = 0 \<and> ar_content (msg_setMode m mode) = ar_content m \<and>
    ar_swaps (msg_setMode m mode) = ar_swaps m \<and> mf_room h (ar_stream (msg_setMode m mode)) n = mf_room h (ar_stream m) n"
proof -
  let ?s = "(ar_stream m)\<lparr>mf_pos := 0\<rparr>"
  have "fst (mf_SetPos (ar_stream m) 0) = ?s" "mf_wf ?s" "mf_content ?s = ar_content m"
    "mf_room h ?s n = mf_room h (ar_stream m) n"
    using mf_SetPos_ok [OF assms, of 0] by simp_all
  then show ?thesis
    by (cases mode) (simp_all add: msg_setMode_def ar_Initial_def ar_ok_def del: ar_ok_modes)
qed

lemma message_new_writing_ok: "n < 1000000 \<Longrightarrow> at_end open_heap message_new_writing n"
  "ar_content message_new_writing = []"
  using msg_setMode_ok [of "fst (message_new 0)" SM_WRITE open_heap n] mf_new_wf mf_room_new [of n]
  by (simp_all add: message_new_stream at_end_def message_new_writing_def)

section \<open>Properties\<close>

text \<open>
  C9: A text, binary, incomplete text, incomplete binary, ping or pong frame that \<open>SetWebSocketFrame\<close> appends to a message,
  with a payload of 1 to 65535 bytes, is what \<open>GetWebSocketFrame\<close> decodes from the received bytes, whatever follows it: the same frame
  type, the length of the whole frame, and the payload appended to the receiving message.  Both messages are at their end and have room.  (The
  other frame types, among them closing frames, are not covered.)
\<close>

theorem websocket_roundtrip:
  assumes t: "t \<in> {TEXT_FRAME, BINARY_FRAME, INCOMPLETE_TEXT_FRAME, INCOMPLETE_BINARY_FRAME, PING_FRAME, PONG_FRAME}"
    and n: "0 < length xs" "length xs \<le> 65535"
    and m: "at_end h m (length (ws_plain (ucast (frame_code t)) xs))" and r: "at_end h r (length xs)"
  shows "\<exists>m' sz frame r'. SetWebSocketFrame h m t xs (int (length xs)) = Inr (m', sz) \<and>
    ar_content m' = ar_content m @ frame \<and>
    GetWebSocketFrame h r (frame @ rest) (int (length (frame @ rest))) = Inr (r', t, Some (int (length frame))) \<and>
    ar_content r' = ar_content r @ xs"
proof -
  let ?f = "ws_plain (ucast (frame_code t)) xs"
  obtain m' sz where "SetWebSocketFrame h m t xs (int (length xs)) = Inr (m', sz)" "puts h m ?f m'"
    using SetWebSocketFrame_ok [OF m n(2), of "[]"] by auto
  moreover obtain r' where "GetWebSocketFrame h r (?f @ rest) (int (length (?f @ rest))) = Inr (r', t, Some (int (length ?f)))"
    "puts h r xs r'"
    using GetWebSocketFrame_plain [OF r n, of "ucast (frame_code t)" rest] unfolding frame_kind_code [OF t] by blast
  ultimately show ?thesis unfolding puts_def by blast
qed

theorem websocket_roundtrip_witness:
  "\<exists>m' sz frame r'. SetWebSocketFrame open_heap message_new_writing TEXT_FRAME [104, 105] (int (length [104, 105 :: byte])) = Inr (m', sz) \<and>
    ar_content m' = ar_content message_new_writing @ frame \<and>
    GetWebSocketFrame open_heap message_new_writing (frame @ [7]) (int (length (frame @ [7]))) =
      Inr (r', TEXT_FRAME, Some (int (length frame))) \<and>
    ar_content r' = ar_content message_new_writing @ [104, 105]"
  by (rule websocket_roundtrip) (simp_all add: message_new_writing_ok ws_plain_def ws_length_def)

text \<open>
  A frame from a client, with its payload masked by any 4-byte key, is decoded to the payload;
  the length covers header, key and payload, so the next frame starts where this one ends.
\<close>

theorem websocket_masked_decode:
  assumes "at_end h m (length xs)" "length xs \<le> 65535" "length k = 4"
  shows "\<exists>m'. GetWebSocketFrame h m (ws_masked b0 k xs @ rest) (int (length (ws_masked b0 k xs @ rest))) =
      Inr (m', frame_kind b0, Some (int (length (ws_masked b0 k xs)))) \<and> ar_content m' = ar_content m @ xs"
  using GetWebSocketFrame_masked [OF assms] unfolding puts_def by blast

theorem websocket_masked_decode_witness:
  "\<exists>m'. GetWebSocketFrame open_heap message_new_writing (ws_masked 0x81 [1, 2, 3, 4] [104, 105] @ [])
      (int (length (ws_masked 0x81 [1, 2, 3, 4] [104, 105] @ []))) =
      Inr (m', frame_kind 0x81, Some (int (length (ws_masked 0x81 [1, 2, 3, 4] [104, 105])))) \<and>
      ar_content m' = ar_content message_new_writing @ [104, 105]"
  by (rule websocket_masked_decode) (simp_all add: message_new_writing_ok)

text \<open>
  The test for a complete frame forgets the masking key.  Of a masked frame whose last four
  bytes have not arrived the decoder reads on past the end of the received bytes.
\<close>

theorem websocket_masked_overread:
  assumes m: "at_end h m (length xs)" and n: "0 < length xs" "length xs \<le> 65535" and k: "length k = 4"
    and buf: "buf = take (length (ws_masked b0 k xs) - 4) (ws_masked b0 k xs)"
  shows "GetWebSocketFrame h m buf (int (length buf)) = Inl OutOfBounds"
proof -
  let ?ys = "take (length xs) (k @ xor_mask k xs)"
  have b: "buf = b0 # ws_length 128 (length xs) @ ?ys" unfolding buf ws_masked_def using k by simp
  have "3 \<le> int (length buf)" using n(1) unfolding b by (cases xs) (simp_all add: length_ws_length k)
  note g = GetWebSocketFrame_header [OF n(2) disjI2 [OF refl] this, of h m b0 ?ys, folded b]
  have "length ?ys = length xs" using k by simp
  then have lt: "length (drop 4 ?ys) < 0 + length xs" using n(1) by (simp only: length_drop)
  have "unmask_loop h m (drop 4 ?ys) k 0 (length xs) = Inl OutOfBounds"
    by (rule unmask_loop_overrun [OF m _ lt k]) simp
  moreover have "mem_read ?ys 0 4 = (if length xs < 4 then Inl OutOfBounds else Inr k)" using k by (simp add: mem_read_def)
  moreover have "\<not> int (length buf) < int (length xs) + int (Suc (length (ws_length 128 (length xs))))"
    using k by (simp add: b)
  ultimately show ?thesis unfolding g by simp
qed

theorem websocket_masked_overread_witness:
  "GetWebSocketFrame open_heap message_new_writing
     (take (length (ws_masked 0x81 [1, 2, 3, 4] [104, 105]) - 4) (ws_masked 0x81 [1, 2, 3, 4] [104, 105]))
     (int (length (take (length (ws_masked 0x81 [1, 2, 3, 4] [104, 105]) - 4) (ws_masked 0x81 [1, 2, 3, 4] [104, 105])))) =
     Inl OutOfBounds"
  by (rule websocket_masked_overread [where xs = "[104, 105]"]) (simp_all add: message_new_writing_ok)

section \<open>Hexadecimal dump\<close>

definition hex2 :: "byte \<Rightarrow> byte list" where
  "hex2 x = [hex_digit (unat x div 16), hex_digit (unat x mod 16)]"

lemma hex_store:
  assumes "length pre = 2 * i" "3 \<le> k"
  shows "mem_write (pre @ replicate k 0) (i * 2) [x, y, 0] = Inr ((pre @ [x, y]) @ replicate (k - 2) 0)"
proof -
  obtain j where "k = 3 + j" using assms(2) le_Suc_ex by blast
  then have k: "k = Suc (Suc (Suc j))" by simp
  show ?thesis using assms(1) by (simp add: mem_write_def k mult.commute)
qed

lemma tohex_loop_ok:
  "length pre = 2 * i \<Longrightarrow> 2 * n < k \<Longrightarrow> i + n \<le> length pData \<Longrightarrow>
     tohex_loop (pre @ replicate k 0) pData i n =
       Inr (pre @ concat (map hex2 (take n (drop i pData))) @ replicate (k - 2 * n) 0)"
proof (induction n arbitrary: pre i k)
  case (Suc n)
  have d: "drop i pData = pData ! i # drop (Suc i) pData" using Suc.prems(3) by (simp add: Cons_nth_drop_Suc)
  have "tohex_loop ((pre @ hex2 (pData ! i)) @ replicate (k - 2) 0) pData (Suc i) n =
      Inr ((pre @ hex2 (pData ! i)) @ concat (map hex2 (take n (drop (Suc i) pData))) @ replicate (k - 2 - 2 * n) 0)"
    by (rule Suc.IH) (use Suc.prems in \<open>auto simp: hex2_def\<close>)
  with Suc.prems hex_store [OF Suc.prems(1), of k] show ?case
    unfolding d by (simp add: mem_get_def hex2_def [of "pData ! i"])
qed simp

lemma tohex_loop_overrun:
  "length pre = 2 * i \<Longrightarrow> 0 < n \<Longrightarrow> i + n \<le> length pData \<Longrightarrow>
     tohex_loop (pre @ replicate (2 * n) 0) pData i n = Inl OutOfBounds"
proof (induction n arbitrary: pre i)
  case (Suc n)
  show ?case
  proof (cases n)
    case 0
    with Suc.prems show ?thesis by (simp add: mem_get_def mem_write_def)
  next
    case (Suc j)
    with Suc.prems hex_store [OF Suc.prems(1), of "2 * Suc n"] Suc.IH [of "pre @ [_, _]" "Suc i"] show ?thesis
      by (simp add: mem_get_def)
  qed
qed simp

lemma message_size:
  assumes "mf_wf (ar_stream m)" "length (ar_content m) < 2147483648"
  shows "getMsgSize m = int (length (ar_content m))"
    "\<exists>p. getMsgPtr m = Some (ar_content m @ p)"
proof -
  show "getMsgSize m = int (length (ar_content m))"
    using assms by (simp add: getMsgSize_def mf_GetValidCount_def length_mf_content ret_int_small)
  obtain cells where "fb_buf CACHE (mf_buf (ar_stream m)) = Some cells"
    using assms(1) by (auto simp: mf_wf_def elim: fb_wfE)
  then have "getMsgPtr m = Some (ar_content m @ drop (fb_cplen (mf_buf (ar_stream m))) cells)"
    by (simp add: getMsgPtr_def mf_GetBuffer_def mf_content_def fb_text_def)
  then show "\<exists>p. getMsgPtr m = Some (ar_content m @ p)" by blast
qed

text \<open>
  \<open>tohex\<close> prints a message of n bytes as 2n hexadecimal digits and a terminator when the block has room for them, even where
  the size it is told leaves none for the terminator; in a block of exactly 2n bytes the last \<open>sprintf\<close> stores its
  terminator past the end.
\<close>

lemma tohex_start:
  assumes "mf_wf (ar_stream m)" "length (ar_content m) < 2147483648" "2 * length (ar_content m) \<le> n" "n \<le> length buf"
  shows "\<exists>p. tohex m buf n = tohex_loop (replicate n 0 @ drop n buf) (ar_content m @ p) 0 (length (ar_content m))"
proof -
  let ?xs = "ar_content m"
  obtain p where p: "getMsgPtr m = Some (?xs @ p)" using message_size(2) [OF assms(1,2)] by blast
  have sz: "size_of_int (getMsgSize m) = length ?xs"
    unfolding message_size(1) [OF assms(1,2)] using assms(2) by (intro size_of_int_nat) (simp add: SIZE_MOD_def)
  have "length ?xs \<le> n div 2" using assms(3) by linarith
  with p assms(4) have "tohex m buf n = tohex_loop (replicate n 0 @ drop n buf) (?xs @ p) 0 (length ?xs)"
    by (simp add: tohex_def sz mem_write_def deref_def Let_def)
  then show ?thesis by blast
qed

theorem tohex_result:
  assumes m: "mf_wf (ar_stream m)" "length (ar_content m) < 2147483648" "ar_content m \<noteq> []"
    and b: "2 * length (ar_content m) \<le> length buf"
  shows "tohex m buf (length buf) =
     (if length buf = 2 * length (ar_content m) then Inl OutOfBounds
      else Inr (concat (map hex2 (ar_content m)) @ replicate (length buf - 2 * length (ar_content m)) 0))"
proof -
  let ?xs = "ar_content m"
  obtain p where t: "tohex m buf (length buf) = tohex_loop ([] @ replicate (length buf) 0) (?xs @ p) 0 (length ?xs)"
    using tohex_start [OF m(1,2) b order_refl] by auto
  show ?thesis
  proof (cases "length buf = 2 * length ?xs")
    case True
    with tohex_loop_overrun [of "[]" 0 "length ?xs" "?xs @ p"] m(3) show ?thesis unfolding t by simp
  next
    case False
    with tohex_loop_ok [of "[]" 0 "length ?xs" "length buf" "?xs @ p"] b show ?thesis unfolding t by simp
  qed
qed

definition hi_message :: lxz_message where
  "hi_message = message_new_writing\<lparr>ar_stream := mf_new\<lparr>mf_buf :=
     \<lparr>fb_heap = None, fb_arr = [104, 105] @ replicate 31 0, fb_cplen = 2, fb_alloc = 32\<rparr>\<rparr>\<rparr>"

lemma hi_message_ok:
  "mf_wf (ar_stream hi_message)" "ar_content hi_message = [104, 105]"
  by (simp_all add: hi_message_def mf_new_def mf_wf_def fb_wf_def mf_content_def fb_text_def fb_buf_def CACHE_def SIZE_MOD_def)

theorem tohex_result_witness:
  "tohex hi_message [0, 0, 0, 0] 4 = Inl OutOfBounds \<and>
   tohex hi_message [0, 0, 0, 0, 0] 5 = Inr [54, 56, 54, 57, 0]"
proof -
  have l: "length [0, 0, 0, 0 :: byte] = 4" "length [0, 0, 0, 0, 0 :: byte] = 5" by simp_all
  show ?thesis
    using tohex_result [of hi_message "[0, 0, 0, 0]"] tohex_result [of hi_message "[0, 0, 0, 0, 0]"]
    unfolding l by (simp add: hi_message_ok hex2_def hex_digit_def)
qed

section \<open>Copying messages\<close>

text \<open>
  Assigning a message copies the other's content over the start of its own and does not shorten
  it: when the target was longer, its old tail stays in the message.
\<close>

theorem message_assign_keeps_tail:
  assumes m: "mf_wf (ar_stream m)" and other: "mf_wf (ar_stream other)" "length (ar_content other) < 2147483648"
    and room: "mf_room h (ar_stream m) (length (ar_content other))"
  shows "\<exists>m'. message_assign h m other = Inr m' \<and> ar_ok (ar_mode other) m' \<and> msg_data m' = msg_data other \<and>
    ar_content m' = ar_content other @ drop (length (ar_content other)) (ar_content m)"
proof -
  let ?m1 = "msg_setMode (m\<lparr>msg_data := msg_data other\<rparr>) SM_WRITE" and ?xs = "ar_content other"
  have m1: "ar_ok SM_WRITE ?m1" "ar_pos ?m1 = 0" "ar_content ?m1 = ar_content m" "mf_room h (ar_stream ?m1) (length ?xs)"
    "msg_data ?m1 = msg_data other"
    using msg_setMode_ok [of "m\<lparr>msg_data := msg_data other\<rparr>" SM_WRITE h "length ?xs"] m room
    by (simp_all add: msg_setMode_def ar_Initial_def)
  obtain p where p: "getMsgPtr other = Some (?xs @ p)" using message_size(2) [OF other] by blast
  have sz: "size_of_int (getMsgSize other) = length ?xs"
    unfolding message_size(1) [OF other] using other(2) by (intro size_of_int_nat) (simp add: SIZE_MOD_def)
  obtain s r where s: "mf_Write h (ar_stream ?m1) ?xs = Inr (s, r)" "mf_wf s" "mf_content s = overwrite (ar_content m) 0 ?xs"
    using mf_Write_ok [of "ar_stream ?m1" h ?xs] m1 unfolding ar_ok_def by metis
  have "Serial_buf h ?m1 (?xs @ p) (getMsgSize other) = Inr (?m1\<lparr>ar_stream := s\<rparr>, ?xs @ p)"
    using m1(1) s(1) by (simp add: Serial_buf_def SerialFunc_def sz mem_read_def ar_ok_def del: ar_ok_modes)
  moreover have "ar_ok (ar_mode other) (msg_setMode (?m1\<lparr>ar_stream := s\<rparr>) (ar_mode other))"
    "ar_content (msg_setMode (?m1\<lparr>ar_stream := s\<rparr>) (ar_mode other)) = mf_content s"
    using msg_setMode_ok [of "?m1\<lparr>ar_stream := s\<rparr>" "ar_mode other"] s(2) by simp_all
  moreover have "msg_data (msg_setMode (?m1\<lparr>ar_stream := s\<rparr>) (ar_mode other)) = msg_data other"
    using m1(5) by (simp add: msg_setMode_def ar_Initial_def)
  ultimately show ?thesis using p s(3) by (simp add: message_assign_def deref_def Let_def overwrite_def)
qed

theorem message_assign_keeps_tail_witness:
  "\<exists>m'. message_assign open_heap hi_message message_new_writing = Inr m' \<and> ar_content m' = [104, 105]"
proof -
  have "mf_room open_heap (ar_stream hi_message) (length (ar_content message_new_writing))"
    by (simp add: message_new_writing_ok hi_message_def mf_new_def mf_room_def SIZE_MOD_def)
  moreover have "mf_wf (ar_stream message_new_writing)"
    using message_new_writing_ok(1) [of 0] unfolding at_end_def ar_ok_def by simp
  ultimately show ?thesis
    using message_assign_keeps_tail [of hi_message message_new_writing open_heap] hi_message_ok
    by (auto simp: message_new_writing_ok)
qed

section \<open>A message inside an archive\<close>

lemma Serial_max_write:
  assumes a: "at_end h a (4 + length xs)" and n: "length xs < 2147483648"
  shows "\<exists>a' s. Serial_max h a (xs @ ys) (int (length xs)) k = Inr (a', s) \<and>
    puts h a (le_bytes 4 (word_of_nat (length xs) :: u32) @ xs) a'"
proof -
  let ?l = "word_of_nat (length xs) :: u32"
  have l: "sint ?l = int (length xs)" using n by (simp add: signed_of_nat signed_take_bit_int_eq_self)
  have room: "mf_room h (ar_stream a) 4" using a by (auto simp: at_end_def intro: mf_room_mono)
  obtain a1 where a1: "Serial_int h a ?l = Inr (a1, ?l)" "puts h a (le_bytes 4 ?l) a1"
    using Serial_int_write [OF _ _ room, of ?l] a by (auto simp: at_end_def)
  have e1: "at_end h a1 (length xs)" by (rule at_end_puts [OF _ a1(2)]) (use a in simp)
  then obtain a2 r where "SerialFunc h a1 (xs @ ys) (length xs) = Inr (a2, r, xs @ ys)" "puts h a1 xs a2"
    using SerialFunc_write [of a1 h "length xs" "xs @ ys"] by (auto simp: at_end_def)
  with a a1 l n puts_trans [OF a1(2)] show ?thesis
    by (simp add: Serial_max_def at_end_def SIZE_MOD_def)
qed

lemma Serial_max_gets:
  assumes a: "ar_ok SM_READ a" "ar_swaps a = swap_none"
    and xs: "drop (ar_pos a) (ar_content a) = (le_bytes 4 (word_of_nat (length xs) :: u32) @ xs) @ rest"
    and n: "length xs < 2147483648" and s: "length xs \<le> length s"
  shows "\<exists>a'. Serial_max h a s k (int (length xs)) = Inr (a', xs @ drop (length xs) s) \<and>
    gets a (le_bytes 4 (word_of_nat (length xs) :: u32) @ xs) a' \<and> drop (ar_pos a') (ar_content a') = rest"
proof -
  let ?l = "word_of_nat (length xs) :: u32"
  let ?s = "replicate (length xs) 0 @ drop (length xs) s"
  have l: "sint ?l = int (length xs)" using n by (simp add: signed_of_nat signed_take_bit_int_eq_self)
  obtain a1 where a1: "Serial_int h a 0 = Inr (a1, ?l)" "gets a (le_bytes 4 ?l) a1" "drop (ar_pos a1) (ar_content a1) = xs @ rest"
    using Serial_int_read [OF a(1), of ?l "xs @ rest" h 0] xs a(2) by auto
  obtain a2 where a2: "SerialFunc h a1 ?s (length xs) = Inr (a2, int (length xs), xs @ drop (length xs) s)" "gets a1 xs a2"
    "drop (ar_pos a2) (ar_content a2) = rest"
    using SerialFunc_read [of a1 xs rest "length xs" ?s h] gets_same [OF a1(2)] a1(3) n s by auto
  with gets_trans [OF a1(2) a2(2)] show ?thesis using a a1 l n s by (simp add: Serial_max_def mem_write_def SIZE_MOD_def)
qed

lemma Serial_max_read:
  assumes a: "ar_ok SM_READ a" "ar_swaps a = swap_none"
    and xs: "drop (ar_pos a) (ar_content a) = (le_bytes 4 (word_of_nat (length xs) :: u32) @ xs) @ rest"
    and n: "length xs < 2147483648" and s: "length s = length xs"
  shows "\<exists>a'. Serial_max h a s k (int (length xs)) = Inr (a', xs) \<and> ar_ok SM_READ a' \<and>
    drop (ar_pos a') (ar_content a') = rest"
  using Serial_max_gets [OF a xs n, of s h k] s by (auto dest: gets_same)

lemma ar_setMode_room: "ar_setMode a mode = Inr a' \<Longrightarrow> mf_room h (ar_stream a') n = mf_room h (ar_stream a) n"
  by (auto simp: ar_setMode_def ar_setPos_def mf_SetPos_def mf_room_def split: if_splits)

text \<open>The length, and when there is content the length again and the content.\<close>

definition msg_text :: "byte list \<Rightarrow> byte list" where
  "msg_text xs = (let l = le_bytes 4 (word_of_nat (length xs) :: u32) in if xs = [] then l else l @ l @ xs)"

lemma setVersion_same [simp]:
  "ar_stream (setVersion m v) = ar_stream m" "ar_bound (setVersion m v) = ar_bound m"
  "getMsgSize (setVersion m v) = getMsgSize m" "getMsgPtr (setVersion m v) = getMsgPtr m"
  by (simp_all add: setVersion_def getMsgSize_def getMsgPtr_def)

lemma SerialMsg_write:
  assumes m: "mf_wf (ar_stream m)" "length (ar_content m) < 104857600"
    and a: "at_end h a (length (msg_text (ar_content m)))"
  shows "\<exists>a'. SerialMsg h m a = Inr (setVersion m (ar_version a), a') \<and> puts h a (msg_text (ar_content m)) a'"
proof -
  let ?xs = "ar_content m" let ?l = "word_of_nat (length ?xs) :: u32"
  have n: "length ?xs < 2147483648" using m(2) by simp
  note sz = message_size(1) [OF m(1) n]
  have w: "ar_ok SM_WRITE a" using a by (simp add: at_end_def)
  have room: "mf_room h (ar_stream a) 4"
    using a by (auto simp: at_end_def msg_text_def Let_def split: if_splits intro: mf_room_mono)
  obtain a1 where a1: "Serial_int h a ?l = Inr (a1, ?l)" "puts h a (le_bytes 4 ?l) a1"
    using Serial_int_write [OF w _ room, of ?l] a by (auto simp: at_end_def)
  show ?thesis
  proof (cases "?xs = []")
    case True
    with a1 w sz show ?thesis by (simp add: SerialMsg_def Let_def msg_text_def)
  next
    case False
    obtain p where p: "getMsgPtr m = Some (?xs @ p)" using message_size(2) [OF m(1) n] by blast
    have "at_end h a1 (4 + length ?xs)"
      by (rule at_end_puts [OF _ a1(2)]) (use a False in \<open>simp add: msg_text_def Let_def\<close>)
    then obtain a2 s where "Serial_max h a1 (?xs @ p) (int (length ?xs)) (int (length ?xs)) = Inr (a2, s)"
      "puts h a1 (le_bytes 4 ?l @ ?xs) a2"
      using Serial_max_write n by blast
    with a1 w sz p False puts_trans [OF a1(2)] show ?thesis
      by (simp add: SerialMsg_def Let_def msg_text_def deref_def)
  qed
qed

lemma SerialMsg_read:
  assumes a: "ar_ok SM_READ a" "ar_swaps a = swap_none" "drop (ar_pos a) (ar_content a) = msg_text xs @ rest"
    and n: "length xs < 104857600" and m: "ar_bound m" "mf_wf (ar_stream m)" "ar_content m = []"
    and room: "mf_room h (ar_stream m) (length xs)"
  shows "\<exists>m' a'. SerialMsg h m a = Inr (m', a') \<and> ar_content m' = xs \<and> ar_ok SM_READ m' \<and>
    drop (ar_pos a') (ar_content a') = rest"
proof -
  let ?l = "word_of_nat (length xs) :: u32" and ?m0 = "setVersion m (ar_version a)"
  have l: "sint ?l = int (length xs)" using n by (simp add: signed_of_nat signed_take_bit_int_eq_self)
  have alloc: "can_alloc h k" for k using room by (simp add: mf_room_def)
  obtain ys where ys: "msg_text xs @ rest = le_bytes 4 ?l @ ys" "xs = [] \<longrightarrow> ys = rest"
    "xs \<noteq> [] \<longrightarrow> ys = (le_bytes 4 ?l @ xs) @ rest"
    by (cases "xs = []") (simp_all add: msg_text_def Let_def)
  obtain a1 where a1: "Serial_int h a 0 = Inr (a1, ?l)" "gets a (le_bytes 4 ?l) a1" "drop (ar_pos a1) (ar_content a1) = ys"
    using Serial_int_read [OF a(1), of ?l ys h 0] ys(1) a(2,3) by auto
  have ok1: "ar_ok SM_READ a1" "ar_swaps a1 = swap_none" using gets_same [OF a1(2)] a(2) by simp_all
  show ?thesis
  proof (cases "xs = []")
    case True
    with ar_setMode_ok [of ?m0 SM_READ] m a1 a ys(2) l show ?thesis by (auto simp: SerialMsg_def Let_def)
  next
    case False
    have n': "length xs < 2147483648" using n by simp
    have "length (malloc_cells h (length xs)) = length xs" by simp
    from Serial_max_read [OF ok1 _ n' this, of rest h] ys(3) False a1(3) obtain a2 where
      a2: "Serial_max h a1 (malloc_cells h (length xs)) (int (length xs)) (int (length xs)) = Inr (a2, xs)"
        "drop (ar_pos a2) (ar_content a2) = rest" by blast
    obtain m1 where m1: "ar_setMode ?m0 SM_WRITE = Inr m1" "ar_ok SM_WRITE m1" "ar_pos m1 = 0" "ar_content m1 = []"
      "mf_room h (ar_stream m1) (length xs)"
      using ar_setMode_ok [of ?m0 SM_WRITE] ar_setMode_room [of ?m0 SM_WRITE] m room by auto
    then obtain m2 r where "SerialFunc h m1 xs (length xs) = Inr (m2, r, xs)" "puts h m1 xs m2"
      using SerialFunc_write [of m1 h "length xs" xs] by auto
    then have m2: "Serial_buf h m1 xs (int (length xs)) = Inr (m2, xs)" "ar_ok SM_WRITE m2" "ar_content m2 = xs"
      using n m1(4) by (simp_all add: Serial_buf_def SIZE_MOD_def puts_def)
    obtain m3 where m3: "ar_setMode m2 SM_READ = Inr m3" "ar_ok SM_READ m3" "ar_content m3 = xs"
      using ar_setMode_ok [of m2 SM_READ] m2(2,3) unfolding ar_ok_def by auto
    show ?thesis using a a1 a2 m1 m2 m3 l n False alloc by (auto simp: SerialMsg_def Let_def)
  qed
qed

text \<open>
  C28: A message of less than 100 MB written into an empty archive, in host byte order and with room for it, with \<open>SerialMsg\<close> is read back from it into an
  empty message with the same content, ready to be read; the sender's content is unchanged and
  the archive is left exactly behind the message.
\<close>

theorem SerialMsg_roundtrip:
  assumes m: "mf_wf (ar_stream m)" "length (ar_content m) < 104857600"
    and a: "at_end h a (length (msg_text (ar_content m)))" "ar_content a = []" "ar_swaps a = swap_none"
    and r: "ar_bound r" "mf_wf (ar_stream r)" "ar_content r = []" "mf_room h (ar_stream r) (length (ar_content m))"
  shows "\<exists>m1 a1 a2 r' a3. SerialMsg h m a = Inr (m1, a1) \<and> ar_content m1 = ar_content m \<and>
    ar_setMode a1 SM_READ = Inr a2 \<and> SerialMsg h r a2 = Inr (r', a3) \<and>
    ar_content r' = ar_content m \<and> ar_ok SM_READ r' \<and> drop (ar_pos a3) (ar_content a3) = []"
proof -
  obtain a1 where a1: "SerialMsg h m a = Inr (setVersion m (ar_version a), a1)" "puts h a (msg_text (ar_content m)) a1"
    using SerialMsg_write [OF m a(1)] by blast
  then have "ar_ok SM_WRITE a1" "ar_content a1 = msg_text (ar_content m)" "ar_swaps a1 = swap_none"
    using a by (simp_all add: puts_def)
  moreover from this(1) obtain a2 where "ar_setMode a1 SM_READ = Inr a2" "ar_ok SM_READ a2" "ar_pos a2 = 0"
      "ar_content a2 = ar_content a1" "ar_swaps a2 = ar_swaps a1"
    using ar_setMode_ok [of a1 SM_READ] unfolding ar_ok_def by auto
  ultimately show ?thesis
    using SerialMsg_read [of a2 "ar_content m" "[]" r h] m(2) r a1(1) by fastforce
qed

theorem SerialMsg_roundtrip_witness:
  "\<exists>m1 a1 a2 r' a3. SerialMsg open_heap hi_message writing_archive = Inr (m1, a1) \<and> ar_content m1 = [104, 105] \<and>
    ar_setMode a1 SM_READ = Inr a2 \<and> SerialMsg open_heap message_new_writing a2 = Inr (r', a3) \<and>
    ar_content r' = [104, 105] \<and> ar_ok SM_READ r' \<and> drop (ar_pos a3) (ar_content a3) = []"
proof -
  have "at_end open_heap writing_archive (length (msg_text (ar_content hi_message)))"
    using writing_archive_ok mf_room_new [of 10] by (simp add: at_end_def hi_message_ok msg_text_def Let_def)
  moreover have "ar_bound message_new_writing" "mf_wf (ar_stream message_new_writing)"
    "mf_room open_heap (ar_stream message_new_writing) (length (ar_content hi_message))"
    using message_new_writing_ok(1) [of "Suc (Suc 0)"] unfolding at_end_def ar_ok_def by (simp_all add: hi_message_ok)
  moreover have "length (ar_content hi_message) < 104857600" by (simp add: hi_message_ok)
  ultimately show ?thesis
    using SerialMsg_roundtrip [of hi_message open_heap writing_archive message_new_writing]
      hi_message_ok(1) writing_archive_ok(2,4) message_new_writing_ok(2) unfolding hi_message_ok(2) by blast
qed

end
