(* ===== verification/Crc16.thy ===== *)
theory Crc16
  imports Prelude
begin

text \<open>
  The table-driven parts of \<open>lae/source/LuaLXZMessage.cpp\<close>: the CRC-16 of Modbus, and the two byte maps that scramble and restore the
  bytes of a message.
\<close>

section \<open>Tables\<close>

definition auchCRCHi :: "byte list" where
  "auchCRCHi = [
   0, 193, 129, 64, 1, 192, 128, 65, 1, 192, 128, 65, 0, 193, 129, 64,
   1, 192, 128, 65, 0, 193, 129, 64, 0, 193, 129, 64, 1, 192, 128, 65,
   1, 192, 128, 65, 0, 193, 129, 64, 0, 193, 129, 64, 1, 192, 128, 65,
   0, 193, 129, 64, 1, 192, 128, 65, 1, 192, 128, 65, 0, 193, 129, 64,
   1, 192, 128, 65, 0, 193, 129, 64, 0, 193, 129, 64, 1, 192, 128, 65,
   0, 193, 129, 64, 1, 192, 128, 65, 1, 192, 128, 65, 0, 193, 129, 64,
   0, 193, 129, 64, 1, 192, 128, 65, 1, 192, 128, 65, 0, 193, 129, 64,
   1, 192, 128, 65, 0, 193, 129, 64, 0, 193, 129, 64, 1, 192, 128, 65,
   1, 192, 128, 65, 0, 193, 129, 64, 0, 193, 129, 64, 1, 192, 128, 65,
   0, 193, 129, 64, 1, 192, 128, 65, 1, 192, 128, 65, 0, 193, 129, 64,
   0, 193, 129, 64, 1, 192, 128, 65, 1, 192, 128, 65, 0, 193, 129, 64,
   1, 192, 128, 65, 0, 193, 129, 64, 0, 193, 129, 64, 1, 192, 128, 65,
   0, 193, 129, 64, 1, 192, 128, 65, 1, 192, 128, 65, 0, 193, 129, 64,
   1, 192, 128, 65, 0, 193, 129, 64, 0, 193, 129, 64, 1, 192, 128, 65,
   1, 192, 128, 65, 0, 193, 129, 64, 0, 193, 129, 64, 1, 192, 128, 65,
   0, 193, 129, 64, 1, 192, 128, 65, 1, 192, 128, 65, 0, 193, 129, 64]"

definition auchCRCLo :: "byte list" where
  "auchCRCLo = [
   0, 192, 193, 1, 195, 3, 2, 194, 198, 6, 7, 199, 5, 197, 196, 4,
   204, 12, 13, 205, 15, 207, 206, 14, 10, 202, 203, 11, 201, 9, 8, 200,
   216, 24, 25, 217, 27, 219, 218, 26, 30, 222, 223, 31, 221, 29, 28, 220,
   20, 212, 213, 21, 215, 23, 22, 214, 210, 18, 19, 211, 17, 209, 208, 16,
   240, 48, 49, 241, 51, 243, 242, 50, 54, 246, 247, 55, 245, 53, 52, 244,
   60, 252, 253, 61, 255, 63, 62, 254, 250, 58, 59, 251, 57, 249, 248, 56,
   40, 232, 233, 41, 235, 43, 42, 234, 238, 46, 47, 239, 45, 237, 236, 44,
   228, 36, 37, 229, 39, 231, 230, 38, 34, 226, 227, 35, 225, 33, 32, 224,
   160, 96, 97, 161, 99, 163, 162, 98, 102, 166, 167, 103, 165, 101, 100, 164,
   108, 172, 173, 109, 175, 111, 110, 174, 170, 106, 107, 171, 105, 169, 168, 104,
   120, 184, 185, 121, 187, 123, 122, 186, 190, 126, 127, 191, 125, 189, 188, 124,
   180, 116, 117, 181, 119, 183, 182, 118, 114, 178, 179, 115, 177, 113, 112, 176,
   80, 144, 145, 81, 147, 83, 82, 146, 150, 86, 87, 151, 85, 149, 148, 84,
   156, 92, 93, 157, 95, 159, 158, 94, 90, 154, 155, 91, 153, 89, 88, 152,
   136, 72, 73, 137, 75, 139, 138, 74, 78, 142, 143, 79, 141, 77, 76, 140,
   68, 132, 133, 69, 135, 71, 70, 134, 130, 66, 67, 131, 65, 129, 128, 64]"

definition g_SendByteMap :: "byte list" where
  "g_SendByteMap = [
   112, 47, 64, 95, 68, 142, 110, 69, 126, 171, 44, 31, 180, 172, 157, 145,
   13, 54, 155, 11, 212, 196, 57, 116, 191, 35, 22, 20, 6, 235, 4, 62,
   18, 92, 139, 188, 97, 99, 246, 165, 225, 101, 216, 245, 90, 7, 240, 19,
   242, 32, 107, 74, 36, 89, 137, 100, 215, 66, 106, 94, 61, 10, 119, 224,
   128, 39, 184, 197, 140, 14, 250, 138, 213, 41, 86, 87, 108, 83, 103, 65,
   232, 0, 26, 206, 134, 131, 176, 34, 40, 77, 63, 38, 70, 79, 111, 43,
   114, 58, 241, 141, 151, 149, 73, 132, 229, 227, 121, 143, 81, 16, 168, 130,
   198, 221, 255, 252, 228, 207, 179, 9, 93, 234, 156, 52, 249, 23, 159, 218,
   135, 248, 21, 5, 60, 211, 164, 133, 46, 251, 238, 71, 59, 239, 55, 127,
   147, 175, 105, 12, 113, 49, 222, 33, 117, 160, 170, 186, 124, 56, 2, 183,
   129, 1, 253, 231, 29, 204, 205, 189, 27, 122, 42, 173, 102, 190, 85, 51,
   3, 219, 136, 178, 30, 78, 185, 230, 194, 247, 203, 125, 201, 98, 195, 166,
   220, 167, 80, 181, 75, 148, 192, 146, 76, 17, 91, 120, 217, 177, 237, 25,
   233, 161, 28, 182, 50, 153, 163, 118, 158, 123, 109, 154, 48, 214, 169, 37,
   199, 174, 150, 53, 208, 187, 210, 200, 162, 8, 243, 209, 115, 244, 72, 45,
   144, 202, 226, 88, 193, 24, 82, 254, 223, 104, 152, 84, 236, 96, 67, 15]"

definition g_RecvByteMap :: "byte list" where
  "g_RecvByteMap = [
   81, 161, 158, 176, 30, 131, 28, 45, 233, 119, 61, 19, 147, 16, 69, 255,
   109, 201, 32, 47, 27, 130, 26, 125, 245, 207, 82, 168, 210, 164, 180, 11,
   49, 151, 87, 25, 52, 223, 91, 65, 88, 73, 170, 95, 10, 239, 136, 1,
   220, 149, 212, 175, 123, 227, 17, 142, 157, 22, 97, 140, 132, 60, 31, 90,
   2, 79, 57, 254, 4, 7, 92, 139, 238, 102, 51, 196, 200, 89, 181, 93,
   194, 108, 246, 77, 251, 174, 74, 75, 243, 53, 44, 202, 33, 120, 59, 3,
   253, 36, 189, 37, 55, 41, 172, 78, 249, 146, 58, 50, 76, 218, 6, 94,
   0, 148, 96, 236, 23, 152, 215, 62, 203, 106, 169, 217, 156, 187, 8, 143,
   64, 160, 111, 85, 103, 135, 84, 128, 178, 54, 71, 34, 68, 99, 5, 107,
   240, 15, 199, 144, 197, 101, 226, 100, 250, 213, 219, 18, 122, 14, 216, 126,
   153, 209, 232, 214, 134, 39, 191, 193, 110, 222, 154, 9, 13, 171, 225, 145,
   86, 205, 179, 118, 12, 195, 211, 159, 66, 182, 155, 229, 35, 167, 173, 24,
   198, 244, 184, 190, 21, 67, 112, 224, 231, 188, 241, 186, 165, 166, 83, 117,
   228, 235, 230, 133, 20, 72, 221, 56, 42, 204, 127, 177, 192, 113, 150, 248,
   63, 40, 242, 105, 116, 104, 183, 163, 80, 208, 121, 29, 252, 206, 138, 141,
   46, 98, 48, 234, 237, 43, 38, 185, 129, 124, 70, 137, 115, 162, 247, 114]"

section \<open>CRC\<close>

text \<open>
  \<open>CRC16\<close> over the first \<open>usDataLen\<close> bytes at a pointer; reading past the end is a fault.
\<close>

fun CRC16_loop :: "byte list \<Rightarrow> nat \<Rightarrow> byte \<Rightarrow> byte \<Rightarrow> c_fault + (byte \<times> byte)" where
  "CRC16_loop msg 0 uchCRCHi uchCRCLo = Inr (uchCRCHi, uchCRCLo)"
| "CRC16_loop [] (Suc n) uchCRCHi uchCRCLo = Inl OutOfBounds"
| "CRC16_loop (b # msg) (Suc n) uchCRCHi uchCRCLo =
     (let uIndex = uchCRCHi XOR b in
      CRC16_loop msg n (uchCRCLo XOR auchCRCHi ! unat uIndex) (auchCRCLo ! unat uIndex))"

definition CRC16 :: "byte list \<Rightarrow> u16 \<Rightarrow> c_fault + u16" where
  "CRC16 puchMsg usDataLen =
     bindE (CRC16_loop puchMsg (unat usDataLen) 255 255) (\<lambda>(uchCRCHi, uchCRCLo). Inr (push_bit 8 (ucast uchCRCLo) OR ucast uchCRCHi))"

section \<open>The reference\<close>

text \<open>The polynomial \<open>x^16 + x^15 + x^2 + 1\<close> in reflected form, one bit at a time.\<close>

definition crc_bit :: "u16 \<Rightarrow> u16" where
  "crc_bit w = (if bit w 0 then drop_bit 1 w XOR 40961 else drop_bit 1 w)"

definition crc_byte :: "u16 \<Rightarrow> byte \<Rightarrow> u16" where
  "crc_byte w b = (crc_bit ^^ 8) (w XOR ucast b)"

definition crc16 :: "byte list \<Rightarrow> u16" where
  "crc16 msg = fold (\<lambda>b w. crc_byte w b) msg 65535"

section \<open>Equivalence\<close>

text \<open>The tables hold the powers of two as the reference gives them, and are linear.\<close>

lemma crc_basis:
  "map (\<lambda>k. (crc_bit ^^ 8) (push_bit k 1)) [0..<8] =
     map (\<lambda>k. push_bit 8 (ucast (auchCRCLo ! (2 ^ k))) OR ucast (auchCRCHi ! (2 ^ k))) [0..<8]"
  by code_simp

definition linear_table :: "byte list \<Rightarrow> bool" where
  "linear_table t \<longleftrightarrow> list_all (\<lambda>k. drop (2 ^ k) (take (2 ^ Suc k) t) = map (\<lambda>x. x XOR t ! (2 ^ k)) (take (2 ^ k) t)) [0..<8]"

lemma linear_tables: "linear_table auchCRCHi" "linear_table auchCRCLo"
  by code_simp+

lemma tables_length: "length auchCRCHi = 256" "length auchCRCLo = 256"
  by (simp_all add: auchCRCHi_def auchCRCLo_def)

text \<open>The entries as the state they stand for.\<close>

definition crc_entry :: "nat \<Rightarrow> u16" where
  "crc_entry i = push_bit 8 (ucast (auchCRCLo ! i)) OR ucast (auchCRCHi ! i)"

lemma linear_nth:
  assumes "linear_table t" "length t = 256" "k < 8" "j < 2 ^ k"
  shows "t ! (2 ^ k + j) = t ! j XOR t ! (2 ^ k)"
proof -
  have e: "drop (2 ^ k) (take (2 ^ Suc k) t) = map (\<lambda>x. x XOR t ! (2 ^ k)) (take (2 ^ k) t)"
    using assms(1,3) by (simp add: linear_table_def list_all_iff)
  have "(2 :: nat) ^ Suc k \<le> 2 ^ 8" using assms(3) by (intro power_increasing) auto
  then have l: "2 ^ k + j < length t" "(2 :: nat) ^ k + j < 2 ^ Suc k" using assms(2,4) by simp_all
  then have "drop (2 ^ k) (take (2 ^ Suc k) t) ! j = t ! (2 ^ k + j)" by (subst nth_drop) auto
  then show ?thesis using arg_cong [OF e, of "\<lambda>xs. xs ! j"] l assms(4) by simp
qed

lemma join_xor: "push_bit 8 (ucast (a XOR c)) OR ucast (b XOR d) = (push_bit 8 (ucast a) OR ucast b) XOR (push_bit 8 (ucast c) OR (ucast d :: u16))"
  for a b c d :: byte
  by (rule bit_word_eqI) (auto simp: bit_simps dest: bit_imp_le_length)

lemma crc_entry_linear: "k < 8 \<Longrightarrow> j < 2 ^ k \<Longrightarrow> crc_entry (2 ^ k + j) = crc_entry j XOR crc_entry (2 ^ k)"
  using linear_nth [OF linear_tables(1) tables_length(1)] linear_nth [OF linear_tables(2) tables_length(2)] by (simp add: crc_entry_def join_xor)

lemma crc_bit_xor: "crc_bit (a XOR b) = crc_bit a XOR crc_bit b"
  by (auto simp: crc_bit_def bit_xor_iff drop_bit_xor xor.assoc xor.left_commute xor.commute)

lemma crc_bits_xor: "(crc_bit ^^ n) (a XOR b) = (crc_bit ^^ n) a XOR (crc_bit ^^ n) b"
  by (induction n) (simp_all add: crc_bit_xor)

lemma crc_bits_high: "(\<And>i. i < n \<Longrightarrow> \<not> bit w i) \<Longrightarrow> (crc_bit ^^ n) w = drop_bit n w"
proof (induction n)
  case (Suc n)
  then have "(crc_bit ^^ n) w = drop_bit n w" "\<not> bit w n" by simp_all
  moreover from this(2) have "crc_bit (drop_bit n w) = drop_bit (Suc n) w" by (simp add: crc_bit_def bit_drop_bit_eq drop_bit_drop_bit)
  ultimately show ?case by simp
qed simp

lemma split_low: "j < 2 ^ k \<Longrightarrow> (word_of_nat (2 ^ k + j) :: u16) = word_of_nat j XOR push_bit k 1"
proof -
  assume "j < 2 ^ k"
  then have "\<not> bit j k" by (simp add: bit_iff_odd)
  then have "j AND 2 ^ k = 0" by (intro bit_eqI) (auto simp: bit_simps)
  then have "2 ^ k + j = j XOR 2 ^ k" using disjunctive_add_eq_xor [of j "2 ^ k"] by simp
  then show ?thesis by (simp add: of_nat_xor_eq push_bit_eq_mult)
qed

lemma crc_entry_zero: "crc_entry 0 = 0"
  by (simp add: crc_entry_def auchCRCHi_def auchCRCLo_def)

lemma crc_bits_zero: "(crc_bit ^^ n) 0 = 0"
  by (simp add: crc_bits_high)

lemma crc_entry_power: "k < 8 \<Longrightarrow> (crc_bit ^^ 8) (push_bit k 1) = crc_entry (2 ^ k)"
  using nth_map [of k "[0..<8]" "\<lambda>k. (crc_bit ^^ 8) (push_bit k 1)"] unfolding crc_basis by (simp add: crc_entry_def)

lemma crc_low: "k \<le> 8 \<Longrightarrow> i < 2 ^ k \<Longrightarrow> (crc_bit ^^ 8) (word_of_nat i) = crc_entry i"
proof (induction k arbitrary: i)
  case 0
  then show ?case by (simp add: crc_entry_zero crc_bits_zero)
next
  case (Suc k)
  show ?case
  proof (cases "i < 2 ^ k")
    case False
    then obtain j where j: "i = 2 ^ k + j" "j < 2 ^ k" using Suc.prems(2) by (metis add.commute le_Suc_ex linorder_not_less mult_2 nat_add_left_cancel_less power_Suc)
    have "(crc_bit ^^ 8) (word_of_nat i) = (crc_bit ^^ 8) (word_of_nat j) XOR (crc_bit ^^ 8) (push_bit k 1)"
      unfolding j(1) split_low [OF j(2)] by (rule crc_bits_xor)
    also have "\<dots> = crc_entry j XOR crc_entry (2 ^ k)" using Suc j(2) crc_entry_power [of k] by simp
    also have "\<dots> = crc_entry i" using crc_entry_linear [of k j] Suc.prems(1) j by simp
    finally show ?thesis .
  qed (use Suc in simp)
qed

text \<open>Eight steps of the reference are one look-up.\<close>

lemma crc_bits_entry: "(crc_bit ^^ 8) w = drop_bit 8 w XOR crc_entry (unat (ucast w :: byte))"
proof -
  let ?h = "w AND NOT (mask 8)" and ?l = "w AND mask 8"
  have w: "w = ?h XOR ?l" by (rule bit_word_eqI) (auto simp: bit_simps)
  have "?l = word_of_nat (unat (ucast w :: byte))" by (rule bit_word_eqI) (auto simp: bit_simps)
  moreover have "unat (ucast w :: byte) < 2 ^ 8" using unat_byte_less [of "ucast w :: byte"] by simp
  ultimately have "(crc_bit ^^ 8) ?l = crc_entry (unat (ucast w :: byte))" using crc_low [OF order_refl, of "unat (ucast w :: byte)"] by (simp only:)
  moreover have "(crc_bit ^^ 8) ?h = drop_bit 8 ?h" by (rule crc_bits_high) (auto simp: bit_simps)
  moreover have "drop_bit 8 ?h = drop_bit 8 w" by (rule bit_word_eqI) (auto simp: bit_simps dest: bit_imp_le_length)
  ultimately show ?thesis using arg_cong [OF w, of "crc_bit ^^ 8"] by (simp add: crc_bits_xor)
qed

lemma crc_byte_table:
  "crc_byte (push_bit 8 (ucast lo) OR ucast hi) b =
     (let i = hi XOR b in push_bit 8 (ucast (auchCRCLo ! unat i)) OR ucast (lo XOR auchCRCHi ! unat i))" for lo hi b :: byte
proof -
  let ?w = "(push_bit 8 (ucast lo) OR ucast hi) XOR ucast b :: u16"
  have "ucast ?w = hi XOR b" by (rule bit_word_eqI) (auto simp: bit_simps)
  moreover have "drop_bit 8 ?w = ucast lo" by (rule bit_word_eqI) (auto simp: bit_simps dest: bit_imp_le_length)
  moreover have "ucast lo XOR (push_bit 8 (ucast x) OR ucast y) = push_bit 8 (ucast x) OR (ucast (lo XOR y) :: u16)" for x y :: byte
    by (rule bit_word_eqI) (auto simp: bit_simps dest: bit_imp_le_length)
  ultimately show ?thesis by (simp add: crc_byte_def crc_bits_entry crc_entry_def Let_def)
qed

lemma CRC16_loop_ok:
  "n \<le> length msg \<Longrightarrow> \<exists>hi' lo'. CRC16_loop msg n hi lo = Inr (hi', lo') \<and>
     push_bit 8 (ucast lo') OR (ucast hi' :: u16) = fold (\<lambda>b w. crc_byte w b) (take n msg) (push_bit 8 (ucast lo) OR ucast hi)"
  by (induction msg n hi lo rule: CRC16_loop.induct) (auto simp: Let_def crc_byte_table)

section \<open>Properties\<close>

lemma CRC16_is_crc16:
  assumes "unat len \<le> length msg"
  shows "CRC16 msg len = Inr (crc16 (take (unat len) msg))"
proof -
  have "push_bit 8 (ucast (255 :: byte)) OR ucast (255 :: byte) = (65535 :: u16)" by simp
  then show ?thesis using CRC16_loop_ok [OF assms, of 255 255] by (auto simp: CRC16_def crc16_def)
qed

section \<open>Byte maps\<close>

lemma maps_length: "length g_SendByteMap = 256" "length g_RecvByteMap = 256"
  by (simp_all add: g_SendByteMap_def g_RecvByteMap_def)

lemma maps_inverse_all: "list_all (\<lambda>i. g_RecvByteMap ! unat (g_SendByteMap ! i) = word_of_nat i) [0..<256]"
  by code_simp

lemma maps_inverse: "g_RecvByteMap ! unat (g_SendByteMap ! unat b) = b"
proof -
  have "unat b < 256" by (rule unat_byte_less)
  then show ?thesis using maps_inverse_all by (simp add: list_all_iff)
qed

end
