(* ===== verification/LuaMessage.thy ===== *)
theory LuaMessage
  imports Message Crc16 CLib
begin

text \<open>
  The Lua binding of messages, \<open>lae/source/LuaLXZMessage.cpp\<close>: the functions a script calls on a \<open>CLXZMessage\<close>.  The
  functions that make and delete messages are in \<open>MessagePool\<close>.

  A function of the binding takes the message that \<open>tolua_tousertype\<close> finds at argument 1 and the values that the \<open>tolua_to\<close>
  functions give for the other arguments: the integral part of a number, which is what every conversion to an integer type
  keeps, a truth value, or a string.  It gives the message and the value it pushes.  The \<open>CHECK_\<close> macros are empty in a
  build without \<open>DEBUG\<close>.
\<close>

section \<open>Values\<close>

datatype lua_push =
    NoValue | PushNumber int | PushFloat u32 | PushBoolean bool | PushString "byte list" | PushUser u64 | PushArgument

text \<open>
  A number converted to an integer type: out of the type's range the conversion is undefined.  A local variable that the
  code leaves uninitialised holds what the heap parameter says.
\<close>

definition number_to :: "int \<Rightarrow> int \<Rightarrow> int \<Rightarrow> c_fault + int" where
  "number_to lo hi v = (if lo \<le> v \<and> v \<le> hi then Inr v else Inl SignedOverflow)"

definition number_to_int :: "int \<Rightarrow> c_fault + u32" where
  "number_to_int v = bindE (number_to (- 2147483648) 2147483647 v) (\<lambda>i. Inr (word_of_int i))"

definition number_to_u32 :: "int \<Rightarrow> c_fault + u32" where
  "number_to_u32 v = bindE (number_to 0 4294967295 v) (\<lambda>i. Inr (word_of_int i))"

definition number_to_size :: "int \<Rightarrow> c_fault + nat" where
  "number_to_size v = bindE (number_to 0 18446744073709551615 v) (\<lambda>i. Inr (nat i))"

definition stack_u32 :: "c_heap \<Rightarrow> u32" where
  "stack_u32 h = ucast (indeterminate h)"

definition stack_u16 :: "c_heap \<Rightarrow> u16" where
  "stack_u16 h = ucast (indeterminate h)"

definition stack_u8 :: "c_heap \<Rightarrow> byte" where
  "stack_u8 h = ucast (indeterminate h)"

text \<open>\<open>new char[n]\<close>; a negative \<open>n\<close> throws, as a block that cannot be had does.\<close>

definition new_cells :: "c_heap \<Rightarrow> int \<Rightarrow> c_fault + byte list" where
  "new_cells h n = bindE (guardE (0 \<le> n \<and> can_alloc h n) (Die ''bad_alloc'')) (\<lambda>_. Inr (malloc_cells h (nat n)))"

section \<open>Numbers and truth values\<close>

definition LuaMessage_IsReading :: "lxz_message \<Rightarrow> lua_push" where
  "LuaMessage_IsReading m = PushBoolean (IsReading m)"

definition LuaMessage_IsWriting :: "lxz_message \<Rightarrow> lua_push" where
  "LuaMessage_IsWriting m = PushBoolean (IsWriting m)"

definition LuaMessage_Serial_uiboolean :: "c_heap \<Rightarrow> lxz_message \<Rightarrow> int \<Rightarrow> c_fault + (lxz_message \<times> lua_push)" where
  "LuaMessage_Serial_uiboolean h m a2 =
     (if \<not> IsReading m then
        bindE (number_to_int a2) (\<lambda>v.
        bindE (Serial_uiboolean h m v) (\<lambda>(m', b). Inr (m', PushNumber (uint b))))
      else bindE (Serial_uiboolean h m (stack_u32 h)) (\<lambda>(m', v). Inr (m', PushNumber (uint v))))"

definition LuaMessage_Serial_bool :: "c_heap \<Rightarrow> lxz_message \<Rightarrow> bool \<Rightarrow> c_fault + (lxz_message \<times> lua_push)" where
  "LuaMessage_Serial_bool h m a2 =
     (if \<not> IsReading m then bindE (Serial_bool h m a2) (\<lambda>(m', _). Inr (m', PushBoolean a2))
      else bindE (Serial_bool h m (bit (indeterminate h) 0)) (\<lambda>(m', v). Inr (m', PushBoolean v)))"

definition LuaMessage_Serial_int :: "c_heap \<Rightarrow> lxz_message \<Rightarrow> int \<Rightarrow> c_fault + (lxz_message \<times> lua_push)" where
  "LuaMessage_Serial_int h m a2 =
     (if \<not> IsReading m then
        bindE (number_to_int a2) (\<lambda>v.
        bindE (Serial_int h m v) (\<lambda>(m', v'). Inr (m', PushNumber (sint v'))))
      else bindE (Serial_int h m (stack_u32 h)) (\<lambda>(m', v). Inr (m', PushNumber (sint v))))"

definition LuaMessage_Serial_sint8 :: "c_heap \<Rightarrow> lxz_message \<Rightarrow> int \<Rightarrow> c_fault + (lxz_message \<times> lua_push)" where
  "LuaMessage_Serial_sint8 h m a2 =
     (if \<not> IsReading m then
        bindE (number_to (- 128) 127 a2) (\<lambda>v.
        bindE (Serial_s8 h m (word_of_int v)) (\<lambda>(m', v'). Inr (m', PushNumber (sint v'))))
      else bindE (Serial_s8 h m (stack_u8 h)) (\<lambda>(m', v). Inr (m', PushNumber (sint v))))"

definition LuaMessage_Serial_uint8 :: "c_heap \<Rightarrow> lxz_message \<Rightarrow> int \<Rightarrow> c_fault + (lxz_message \<times> lua_push)" where
  "LuaMessage_Serial_uint8 h m a2 =
     (if \<not> IsReading m then
        bindE (number_to 0 255 a2) (\<lambda>v.
        bindE (Serial_u8 h m (word_of_int v)) (\<lambda>(m', v'). Inr (m', PushNumber (uint v'))))
      else bindE (Serial_u8 h m (stack_u8 h)) (\<lambda>(m', v). Inr (m', PushNumber (uint v))))"

definition LuaMessage_Serial_sint16 :: "c_heap \<Rightarrow> lxz_message \<Rightarrow> int \<Rightarrow> c_fault + (lxz_message \<times> lua_push)" where
  "LuaMessage_Serial_sint16 h m a2 =
     (if \<not> IsReading m then
        bindE (number_to (- 32768) 32767 a2) (\<lambda>v.
        bindE (Serial_s16 h m (word_of_int v)) (\<lambda>(m', v'). Inr (m', PushNumber (sint v'))))
      else bindE (Serial_s16 h m (stack_u16 h)) (\<lambda>(m', v). Inr (m', PushNumber (sint v))))"

definition LuaMessage_Serial_uint16 :: "c_heap \<Rightarrow> lxz_message \<Rightarrow> int \<Rightarrow> c_fault + (lxz_message \<times> lua_push)" where
  "LuaMessage_Serial_uint16 h m a2 =
     (if \<not> IsReading m then
        bindE (number_to 0 65535 a2) (\<lambda>v.
        bindE (Serial_u16 h m (word_of_int v)) (\<lambda>(m', v'). Inr (m', PushNumber (uint v'))))
      else bindE (Serial_u16 h m (stack_u16 h)) (\<lambda>(m', v). Inr (m', PushNumber (uint v))))"

text \<open>The value is pushed as \<open>(int)v\<close>.\<close>

definition LuaMessage_Serial_uint32 :: "c_heap \<Rightarrow> lxz_message \<Rightarrow> int \<Rightarrow> c_fault + (lxz_message \<times> lua_push)" where
  "LuaMessage_Serial_uint32 h m a2 =
     (if \<not> IsReading m then
        bindE (number_to_u32 a2) (\<lambda>v.
        bindE (Serial_u32 h m v) (\<lambda>(m', v'). Inr (m', PushNumber (sint v'))))
      else bindE (Serial_u32 h m (stack_u32 h)) (\<lambda>(m', v). Inr (m', PushNumber (sint v))))"

text \<open>A \<open>float\<close> by its bits; the conversion from the number's \<open>double\<close> is the caller's.\<close>

definition LuaMessage_Serial_float :: "c_heap \<Rightarrow> lxz_message \<Rightarrow> u32 \<Rightarrow> c_fault + (lxz_message \<times> lua_push)" where
  "LuaMessage_Serial_float h m a2 =
     (if \<not> IsReading m then bindE (Serial_float h m a2) (\<lambda>(m', v). Inr (m', PushFloat v))
      else bindE (Serial_float h m (stack_u32 h)) (\<lambda>(m', v). Inr (m', PushFloat v)))"

text \<open>
  \<open>sprintf(buf, "%I64u", v)\<close>: in glibc \<open>I\<close> selects the locale's digits, and \<open>64u\<close> is an \<open>unsigned int\<close> in a field of 64
  characters; \<open>%I64d\<close> likewise with an \<open>int\<close>.
\<close>

definition sprintf_padded :: "byte list \<Rightarrow> string \<Rightarrow> c_fault + byte list" where
  "sprintf_padded buf t =
     mem_write buf 0 (replicate (64 - length t) 32 @ map (\<lambda>c. word_of_nat (of_char c)) t @ [0])"

definition LuaMessage_Serial_uint64 :: "c_heap \<Rightarrow> lxz_message \<Rightarrow> byte list \<Rightarrow> c_fault + (lxz_message \<times> lua_push)" where
  "LuaMessage_Serial_uint64 h m vs =
     (if \<not> IsReading m then
        bindE (atoll (chars (takeWhile (\<lambda>c. c \<noteq> 0) vs))) (\<lambda>v.
        bindE (Serial_u64 h m v) (\<lambda>(m', _). Inr (m', NoValue)))
      else
        bindE (Serial_u64 h m (indeterminate h)) (\<lambda>(m', v).
        bindE (sprintf_padded (malloc_cells h 64) (show_int (uint (ucast v :: u32)))) (\<lambda>buf.
        bindE (c_string buf) (\<lambda>s. Inr (m', PushString s)))))"

definition LuaMessage_Serial_int64 :: "c_heap \<Rightarrow> lxz_message \<Rightarrow> byte list \<Rightarrow> c_fault + (lxz_message \<times> lua_push)" where
  "LuaMessage_Serial_int64 h m vs =
     (if \<not> IsReading m then
        bindE (atoll (chars (takeWhile (\<lambda>c. c \<noteq> 0) vs))) (\<lambda>v.
        bindE (Serial_u64 h m v) (\<lambda>(m', _). Inr (m', NoValue)))
      else
        bindE (Serial_u64 h m (indeterminate h)) (\<lambda>(m', v).
        bindE (sprintf_padded (malloc_cells h 64) (show_int (sint (ucast v :: u32)))) (\<lambda>buf.
        bindE (c_string buf) (\<lambda>s. Inr (m', PushString s)))))"

section \<open>Strings\<close>

text \<open>
  The C string of a Lua string is its bytes and a terminator; an absent string is a null pointer.
  \<open>SerialStr\<close> takes its own length from the string when it writes.
\<close>

definition lua_cstr :: "byte list option \<Rightarrow> c_fault + byte list" where
  "lua_cstr s = bindE (deref s) (\<lambda>xs. Inr (xs @ [0]))"

definition LuaMessage_Serial_cstring ::
  "c_heap \<Rightarrow> lxz_message \<Rightarrow> byte list option \<Rightarrow> c_fault + (lxz_message \<times> lua_push)" where
  "LuaMessage_Serial_cstring h m a2 =
     (if \<not> IsReading m then
        bindE (lua_cstr a2) (\<lambda>v.
        bindE (strlen v) (\<lambda>n.
          let len = (if 255 < ret_int n then 255 else ret_int n) in
          bindE (SerialStr h m v len) (\<lambda>(m', _). Inr (m', NoValue))))
      else
        bindE (SerialStr h m (malloc_cells h 256) 255) (\<lambda>(m', str).
        bindE (c_string str) (\<lambda>s. Inr (m', PushString s))))"

text \<open>In a write argument 3 is the size, in a read argument 2.\<close>

definition LuaMessage_Serial_cstring_len ::
  "c_heap \<Rightarrow> lxz_message \<Rightarrow> byte list \<Rightarrow> int \<Rightarrow> c_fault + (lxz_message \<times> lua_push)" where
  "LuaMessage_Serial_cstring_len h m v sz =
     bindE (number_to_size sz) (\<lambda>n.
       if \<not> IsReading m then
         bindE (new_cells h (int n)) (\<lambda>buf.
         bindE (mem_write buf 0 (replicate n 0)) (\<lambda>buf1.
         bindE (mem_read (v @ [0]) 0 (min (length v) n)) (\<lambda>xs.
         bindE (mem_write buf1 0 xs) (\<lambda>buf2.
         bindE (Serial_buf h m buf2 (ret_int n)) (\<lambda>(m', _). Inr (m', NoValue))))))
       else
         bindE (new_cells h (int (size_add n 1))) (\<lambda>buf.
         bindE (mem_write buf 0 (replicate (size_add n 1) 0)) (\<lambda>buf1.
         bindE (Serial_buf h m buf1 (ret_int n)) (\<lambda>(m', buf2).
         bindE (c_string buf2) (\<lambda>s. Inr (m', PushString s))))))"

definition LuaMessage_Serial_string ::
  "c_heap \<Rightarrow> lxz_message \<Rightarrow> byte list option \<Rightarrow> c_fault + (lxz_message \<times> lua_push)" where
  "LuaMessage_Serial_string h m a2 =
     (if \<not> IsReading m then
        bindE (lua_cstr a2) (\<lambda>v.
        bindE (strlen v) (\<lambda>n.
        bindE (iadd (ret_int n) 1) (\<lambda>k.
        bindE (new_cells h k) (\<lambda>buf.
        bindE (mem_write buf 0 (replicate (nat k) 0)) (\<lambda>buf1.
        bindE (mem_write buf1 0 (take (n + 1) v)) (\<lambda>buf2.
        bindE (Serial_int h m (word_of_int (ret_int n))) (\<lambda>(m1, len).
        bindE (Serial_max h m1 buf2 (sint len) (sint len)) (\<lambda>(m2, _). Inr (m2, NoValue)))))))))
      else
        bindE (Serial_int h m (stack_u32 h)) (\<lambda>(m1, len).
        bindE (iadd (sint len) 1) (\<lambda>k.
        bindE (new_cells h k) (\<lambda>buf.
        bindE (mem_write buf 0 (replicate (nat k) 0)) (\<lambda>buf1.
        bindE (Serial_max h m1 buf1 (sint len) (sint len)) (\<lambda>(m2, buf2).
        bindE (c_string buf2) (\<lambda>s. Inr (m2, PushString s))))))))"

text \<open>The length is argument 3 when that is a number, else the string's.\<close>

definition LuaMessage_Serial_Write ::
  "c_heap \<Rightarrow> lxz_message \<Rightarrow> byte list \<Rightarrow> int option \<Rightarrow> c_fault + (lxz_message \<times> lua_push)" where
  "LuaMessage_Serial_Write h m v a3 =
     (if \<not> IsReading m then
        (case a3 of
           Some n \<Rightarrow>
             bindE (number_to_int n) (\<lambda>len.
             bindE (ar_Write h m (v @ [0]) (sint len)) (\<lambda>m'. Inr (m', NoValue)))
         | None \<Rightarrow> bindE (ar_Write h m (v @ [0]) (ret_int (length v))) (\<lambda>m'. Inr (m', NoValue)))
      else Inr (m, NoValue))"

definition LuaMessage_Serial_lstring ::
  "c_heap \<Rightarrow> lxz_message \<Rightarrow> byte list option \<Rightarrow> int \<Rightarrow> c_fault + (lxz_message \<times> lua_push)" where
  "LuaMessage_Serial_lstring h m s a =
     bindE (number_to_int a) (\<lambda>type.
       if \<not> IsReading m then
         bindE (deref s) (\<lambda>v.
         let len = ret_int (length v) in
         bindE (new_cells h (int (size_add (length v) 1))) (\<lambda>buf.
         bindE (mem_write buf 0 v) (\<lambda>buf1.
         bindE (mem_write buf1 (length v) [0]) (\<lambda>buf2.
         bindE (if type = 1 then bindE (Serial_u8 h m (word_of_int len)) (\<lambda>(m', _). Inr (m', len))
                else if type = 2 then bindE (Serial_u16 h m (word_of_int len)) (\<lambda>(m', _). Inr (m', len))
                else Inr (m, sint type)) (\<lambda>(m1, len1).
         bindE (Serial_buf h m1 buf2 len1) (\<lambda>(m2, _). Inr (m2, NoValue)))))))
       else
         bindE (if type = 1 then bindE (Serial_u8 h m (stack_u8 h)) (\<lambda>(m', u8). Inr (m', uint u8))
                else if type = 2 then bindE (Serial_u16 h m (stack_u16 h)) (\<lambda>(m', u16). Inr (m', uint u16))
                else Inr (m, sint type)) (\<lambda>(m1, len).
         bindE (iadd len 1) (\<lambda>k.
         bindE (new_cells h k) (\<lambda>buf.
         bindE (mem_write buf 0 (replicate (nat k) 0)) (\<lambda>buf1.
         bindE (Serial_buf h m1 buf1 len) (\<lambda>(m2, buf2).
         bindE (mem_read buf2 0 (size_of_int len)) (\<lambda>xs. Inr (m2, PushString xs))))))))"

text \<open>A user type travels as its pointer; argument 2 is the type's name.\<close>

definition LuaMessage_Serial_Ptr ::
  "c_heap \<Rightarrow> lxz_message \<Rightarrow> byte list \<Rightarrow> u64 \<Rightarrow> c_fault + (lxz_message \<times> lua_push)" where
  "LuaMessage_Serial_Ptr h m name pObj =
     (if \<not> IsReading m then bindE (SerialPtr_named h m pObj (name @ [0])) (\<lambda>(m', p). Inr (m', PushUser p))
      else bindE (SerialPtr_named h m 0 (name @ [0])) (\<lambda>(m', p). Inr (m', PushUser p)))"

section \<open>State of a message\<close>

definition LuaMessage_getExecuteCount :: "lxz_message \<Rightarrow> lua_push" where
  "LuaMessage_getExecuteCount m = PushNumber (uint (ar_exec m))"

definition LuaMessage_ReleaseMemory :: "lxz_message \<Rightarrow> lxz_message" where
  "LuaMessage_ReleaseMemory m = ReleaseMemory m"

definition LuaMessage_removeHeadBuffer :: "lxz_message \<Rightarrow> int \<Rightarrow> c_fault + lxz_message" where
  "LuaMessage_removeHeadBuffer m a2 = bindE (number_to_size a2) (\<lambda>n. msg_removeHeadBuffer m n)"

definition mode_number :: "ser_mode \<Rightarrow> int" where
  "mode_number mode = (case mode of SM_WRITE \<Rightarrow> 0 | SM_READ \<Rightarrow> 1)"

definition LuaMessage_getMode :: "lxz_message \<Rightarrow> lua_push" where
  "LuaMessage_getMode m = PushNumber (mode_number (ar_mode m))"

text \<open>Every mode but \<open>SM_READ\<close> is writing.\<close>

definition LuaMessage_setMode :: "lxz_message \<Rightarrow> int \<Rightarrow> c_fault + lxz_message" where
  "LuaMessage_setMode m a2 =
     bindE (number_to_int a2) (\<lambda>mode. Inr (msg_setMode m (if mode = 1 then SM_READ else SM_WRITE)))"

definition LuaMessage_setLittleEndian :: "lxz_message \<Rightarrow> bool \<Rightarrow> lxz_message" where
  "LuaMessage_setLittleEndian m a2 = SetLittleEndian m a2"

definition LuaMessage_getSystemData :: "lxz_message \<Rightarrow> lua_push" where
  "LuaMessage_getSystemData m = PushNumber (uint (msg_sysdata m))"

definition LuaMessage_getData :: "lxz_message \<Rightarrow> lua_push" where
  "LuaMessage_getData m = PushNumber (uint (msg_data m))"

definition LuaMessage_getAppData :: "lxz_message \<Rightarrow> lua_push" where
  "LuaMessage_getAppData m = PushUser (msg_app m)"

definition LuaMessage_getMsgPtr :: "lxz_message \<Rightarrow> c_fault + lua_push" where
  "LuaMessage_getMsgPtr m =
     bindE (deref (getMsgPtr m)) (\<lambda>p.
     bindE (mem_read p 0 (size_of_int (getMsgSize m))) (\<lambda>xs. Inr (PushString xs)))"

definition LuaMessage_getIndex :: "lxz_message \<Rightarrow> lua_push" where
  "LuaMessage_getIndex m = PushNumber (int (ar_index m))"

definition LuaMessage_getMsgSize :: "lxz_message \<Rightarrow> lua_push" where
  "LuaMessage_getMsgSize m = PushNumber (getMsgSize m)"

definition LuaMessage_getMsgPos :: "lxz_message \<Rightarrow> c_fault + lua_push" where
  "LuaMessage_getMsgPos m = bindE (ar_getPos m) (\<lambda>p. Inr (PushNumber (int p)))"

definition LuaMessage_setMsgPos :: "lxz_message \<Rightarrow> int \<Rightarrow> c_fault + lxz_message" where
  "LuaMessage_setMsgPos m a2 =
     bindE (number_to_u32 a2) (\<lambda>pos. bindE (ar_setPos m (unat pos)) (\<lambda>(m', _). Inr m'))"

definition LuaMessage_setData :: "lxz_message \<Rightarrow> int \<Rightarrow> c_fault + lxz_message" where
  "LuaMessage_setData m a2 = bindE (number_to_u32 a2) (\<lambda>d. Inr (setData m d))"

definition LuaMessage_setIndexPos :: "lxz_message \<Rightarrow> int \<Rightarrow> c_fault + lxz_message" where
  "LuaMessage_setIndexPos m a2 = bindE (number_to_int a2) (\<lambda>index. setIndexPos m (sint index))"

definition LuaMessage_PushAddress :: "lxz_message \<Rightarrow> c_fault + lxz_message" where
  "LuaMessage_PushAddress m = PushAddress m"

definition LuaMessage_ResetAddress :: "lxz_message \<Rightarrow> lxz_message" where
  "LuaMessage_ResetAddress m = ResetAddress m"

definition LuaMessage_grown :: "c_heap \<Rightarrow> lxz_message \<Rightarrow> int \<Rightarrow> c_fault + lxz_message" where
  "LuaMessage_grown h m a2 = bindE (number_to_size a2) (\<lambda>n. msg_grown h m n)"

section \<open>Frames, checksums, byte maps\<close>

definition LuaMessage_SetWebSocketFrame :: "c_heap \<Rightarrow> lxz_message \<Rightarrow> int \<Rightarrow> byte list \<Rightarrow> c_fault + lxz_message" where
  "LuaMessage_SetWebSocketFrame h m a2 s =
     bindE (number_to 0 255 a2) (\<lambda>frameType.
     bindE (set_frame h m (word_of_int frameType) (s @ [0]) (ret_int (length s))) (\<lambda>(m', _). Inr m'))"

text \<open>The two numbers pushed; \<open>out_len\<close> starts at 0.\<close>

definition LuaMessage_GetWebSocketFrame ::
  "c_heap \<Rightarrow> lxz_message \<Rightarrow> byte list \<Rightarrow> c_fault + (lxz_message \<times> lua_push \<times> lua_push)" where
  "LuaMessage_GetWebSocketFrame h m s =
     bindE (GetWebSocketFrame h m (s @ [0]) (ret_int (length s))) (\<lambda>(m', kind, out_len).
       Inr (m', PushNumber (uint (frame_code kind)), PushNumber (case out_len of None \<Rightarrow> 0 | Some n \<Rightarrow> n)))"

text \<open>A pointer \<open>from\<close> bytes into a block.\<close>

definition ptr_add :: "byte list \<Rightarrow> nat \<Rightarrow> c_fault + byte list" where
  "ptr_add p from_pos = (if from_pos \<le> length p then Inr (drop from_pos p) else Inl OutOfBounds)"

definition LuaMessage_CRC16 :: "lxz_message \<Rightarrow> int \<Rightarrow> int \<Rightarrow> c_fault + lua_push" where
  "LuaMessage_CRC16 m a2 a3 =
     bindE (number_to_u32 a2) (\<lambda>from_pos.
     bindE (number_to_u32 a3) (\<lambda>len.
     bindE (deref (getMsgPtr m)) (\<lambda>p.
     bindE (ptr_add p (unat from_pos)) (\<lambda>q.
     bindE (CRC16 q (ucast len)) (\<lambda>sum. Inr (PushNumber (uint sum)))))))"

text \<open>
  The four tests are not exclusive in form but only one can hold; when none does, nothing is pushed and the value on top of the
  stack, the last argument, is the result.
\<close>

definition LuaMessage_bitop :: "int \<Rightarrow> int \<Rightarrow> byte list \<Rightarrow> c_fault + lua_push" where
  "LuaMessage_bitop a2 a3 op =
     bindE (number_to_u32 a2) (\<lambda>s32.
     bindE (number_to_u32 a3) (\<lambda>m32.
       let src = ucast s32 :: byte; mask = ucast m32 :: byte; c = hd (op @ [0]) in
       Inr (if c = 94 then PushNumber (uint (src XOR mask))
            else if c = 38 then PushNumber (uint (src AND mask))
            else if c = 126 then PushNumber (uint (NOT src))
            else if c = 124 then PushNumber (uint (src OR mask))
            else PushArgument)))"

fun map_loop :: "byte list \<Rightarrow> byte list \<Rightarrow> nat \<Rightarrow> nat \<Rightarrow> c_fault + byte list" where
  "map_loop pMap pBuffer i 0 = Inr pBuffer"
| "map_loop pMap pBuffer i (Suc n) =
     bindE (mem_get pBuffer i) (\<lambda>b.
     bindE (mem_get pMap (unat b)) (\<lambda>c.
     bindE (mem_write pBuffer i [c]) (\<lambda>pBuffer'. map_loop pMap pBuffer' (Suc i) n)))"

text \<open>The loop works in place on the message's block.\<close>

definition msg_set_block :: "lxz_message \<Rightarrow> byte list \<Rightarrow> lxz_message" where
  "msg_set_block m cells =
     m\<lparr>ar_stream := (ar_stream m)\<lparr>mf_buf := fb_set_buf CACHE (mf_buf (ar_stream m)) cells\<rparr>\<rparr>"

definition LuaMessage_MapKind :: "lxz_message \<Rightarrow> int \<Rightarrow> int \<Rightarrow> bool \<Rightarrow> c_fault + lxz_message" where
  "LuaMessage_MapKind m a2 a3 a4 =
     bindE (number_to_u32 a2) (\<lambda>from_pos.
     bindE (number_to_u32 a3) (\<lambda>len.
       let pMap = (if \<not> a4 then g_SendByteMap else g_RecvByteMap) in
       if len = 0 then Inr m
       else
         bindE (deref (getMsgPtr m)) (\<lambda>pBuffer.
         bindE (map_loop pMap pBuffer (unat from_pos) (unat len)) (\<lambda>pBuffer'. Inr (msg_set_block m pBuffer')))))"

text \<open>A local \<open>FastBufAlloc<char, 128>\<close> takes the digits.\<close>

definition LuaMessage_tohex :: "c_heap \<Rightarrow> lxz_message \<Rightarrow> c_fault + lua_push" where
  "LuaMessage_tohex h m =
     bindE (iadd (getMsgSize m) (getMsgSize m)) (\<lambda>n.
     bindE (iadd n 1) (\<lambda>k.
     bindE (fb_grow h 128 (fb_new 128) (size_of_int k)) (\<lambda>b.
     bindE (deref (fb_buf 128 b)) (\<lambda>cells.
     bindE (tohex m cells (size_of_int n)) (\<lambda>cells'.
     bindE (mem_read cells' 0 (size_of_int n)) (\<lambda>xs. Inr (PushString xs)))))))"

end
