(* ===== verification/LuaMessageProofs.thy ===== *)
theory LuaMessageProofs
  imports LuaMessage
begin

text \<open>
  Theorems on the Lua binding of messages: what a script writes it reads back, the byte maps and the checksum, and the pool of
  messages.
\<close>

section \<open>Byte maps and checksums\<close>

definition map_bytes :: "byte list \<Rightarrow> nat \<Rightarrow> nat \<Rightarrow> byte list \<Rightarrow> byte list" where
  "map_bytes t i n xs = take i xs @ map (\<lambda>b. t ! unat b) (take n (drop i xs)) @ drop (i + n) xs"

lemma length_map_bytes [simp]: "i + n \<le> length xs \<Longrightarrow> length (map_bytes t i n xs) = length xs"
  by (simp add: map_bytes_def)

lemma map_bytes_append: "i + n \<le> length xs \<Longrightarrow> map_bytes t i n (xs @ ys) = map_bytes t i n xs @ ys"
  by (simp add: map_bytes_def)

lemma map_bytes_Suc:
  assumes "i + Suc n \<le> length xs"
  shows "map_bytes t (Suc i) n (take i xs @ [t ! unat (xs ! i)] @ drop (Suc i) xs) = map_bytes t i (Suc n) xs"
proof -
  have "drop i xs = xs ! i # drop (Suc i) xs" using assms by (simp add: Cons_nth_drop_Suc)
  then show ?thesis using assms by (simp add: map_bytes_def min_def add.commute)
qed

lemma map_loop_ok:
  "length t = 256 \<Longrightarrow> i + n \<le> length xs \<Longrightarrow> map_loop t xs i n = Inr (map_bytes t i n xs)"
proof (induction n arbitrary: i xs)
  case 0
  then show ?case by (simp add: map_bytes_def)
next
  case (Suc n)
  let ?ys = "take i xs @ [t ! unat (xs ! i)] @ drop (Suc i) xs"
  have "map_loop t ?ys (Suc i) n = Inr (map_bytes t (Suc i) n ?ys)" by (rule Suc.IH) (use Suc.prems in simp_all)
  moreover have "unat (xs ! i) < 256" by (rule unat_byte_less)
  ultimately show ?case using Suc.prems map_bytes_Suc [OF Suc.prems(2), of t]
    by (simp add: mem_get_def mem_write_def)
qed

lemma map_loop_overrun: "length xs < i + n \<Longrightarrow> 0 < n \<Longrightarrow> length t = 256 \<Longrightarrow> map_loop t xs i n = Inl OutOfBounds"
proof (induction n arbitrary: i xs)
  case (Suc n)
  show ?case
  proof (cases "i < length xs")
    case True
    then have "0 < n" using Suc.prems(1) by simp
    moreover have "unat (xs ! i) < 256" by (rule unat_byte_less)
    ultimately show ?thesis using Suc True by (simp add: mem_get_def mem_write_def)
  qed (simp add: mem_get_def)
qed simp

lemma map_bytes_inverse:
  "i + n \<le> length xs \<Longrightarrow> map_bytes g_RecvByteMap i n (map_bytes g_SendByteMap i n xs) = xs"
proof -
  assume le: "i + n \<le> length xs"
  have "xs = take i xs @ take n (drop i xs) @ drop (i + n) xs"
    by (metis add.commute append_take_drop_id drop_drop)
  with le show ?thesis by (simp add: map_bytes_def min_def maps_inverse comp_def)
qed

lemma message_block:
  assumes "mf_wf (ar_stream m)"
  shows "\<exists>cells. getMsgPtr m = Some cells \<and> ar_content m = take (fb_cplen (mf_buf (ar_stream m))) cells \<and>
    length cells = fb_alloc (mf_buf (ar_stream m)) + 1 \<and> fb_cplen (mf_buf (ar_stream m)) < length cells"
  using assms by (auto simp: mf_wf_def getMsgPtr_def mf_GetBuffer_def mf_content_def fb_text_def elim: fb_wfE)

lemma set_block:
  assumes "mf_wf (ar_stream m)" "getMsgPtr m = Some cells" "length ys = length cells"
  shows "getMsgPtr (msg_set_block m ys) = Some ys" "mf_wf (ar_stream (msg_set_block m ys))"
    "ar_content (msg_set_block m ys) = take (fb_cplen (mf_buf (ar_stream m))) ys"
    "msg_set_block (msg_set_block m ys) cells = m"
  using assms
  by (auto simp: msg_set_block_def getMsgPtr_def mf_GetBuffer_def fb_set_buf_def fb_buf_def mf_wf_def fb_wf_def mf_content_def fb_text_def
      split: option.splits if_splits)

lemma number_to_u32_ok: "n < 4294967296 \<Longrightarrow> number_to_u32 (int n) = Inr (word_of_nat n)"
  by (simp add: number_to_u32_def number_to_def)

lemma unat_u32: "n < 4294967296 \<Longrightarrow> unat (word_of_nat n :: u32) = n"
  by (simp add: unat_of_nat)

lemma MapKind_ok:
  assumes "mf_wf (ar_stream m)" "getMsgPtr m = Some cells" "i + n \<le> length cells" "i + n < 4294967296"
  shows "LuaMessage_MapKind m (int i) (int n) recv =
    Inr (if n = 0 then m else msg_set_block m (map_bytes (if recv then g_RecvByteMap else g_SendByteMap) i n cells))"
proof -
  have w: "i < 4294967296" "n < 4294967296" using assms(4) by simp_all
  have "(word_of_nat n :: u32) = 0 \<longleftrightarrow> n = 0" using unat_u32 [OF w(2)] by (metis unat_0 unat_eq_zero)
  moreover note map_loop_ok [OF maps_length(1) assms(3)] map_loop_ok [OF maps_length(2) assms(3)]
  ultimately show ?thesis using assms(2) w
    by (cases recv) (simp_all add: LuaMessage_MapKind_def number_to_u32_ok unat_u32 deref_def)
qed

text \<open>
  C24: Scrambling any part of a message with the send map and then with the receive map gives back the same message, and in between
  the message holds the bytes of the part replaced by the map's and all others unchanged.
\<close>

theorem MapKind_roundtrip:
  assumes m: "mf_wf (ar_stream m)" "i + n \<le> length (ar_content m)" "length (ar_content m) < 4294967296"
  shows "\<exists>m'. LuaMessage_MapKind m (int i) (int n) False = Inr m' \<and>
    ar_content m' = map_bytes g_SendByteMap i n (ar_content m) \<and>
    LuaMessage_MapKind m' (int i) (int n) True = Inr m"
proof -
  obtain cells where c: "getMsgPtr m = Some cells" "ar_content m = take (fb_cplen (mf_buf (ar_stream m))) cells"
    "fb_cplen (mf_buf (ar_stream m)) < length cells" using message_block [OF m(1)] by blast
  let ?k = "fb_cplen (mf_buf (ar_stream m))" and ?ys = "map_bytes g_SendByteMap i n cells"
  have k: "i + n \<le> ?k" "i + n \<le> length cells" "i + n < 4294967296" using m c by simp_all
  note b = set_block [OF m(1) c(1) length_map_bytes [OF k(2), of g_SendByteMap]]
  have t: "take ?k ?ys = map_bytes g_SendByteMap i n (take ?k cells)"
    using k(1) c(3) map_bytes_append [of i n "take ?k cells" g_SendByteMap "drop ?k cells"] by simp
  have "LuaMessage_MapKind (msg_set_block m ?ys) (int i) (int n) True =
      Inr (if n = 0 then msg_set_block m ?ys else msg_set_block (msg_set_block m ?ys) (map_bytes g_RecvByteMap i n ?ys))"
    using MapKind_ok [OF b(2,1), of i n True] k by simp
  moreover have "map_bytes t i 0 xs = xs" for t xs by (simp add: map_bytes_def)
  ultimately show ?thesis
    using MapKind_ok [OF m(1) c(1) k(2,3), of False] MapKind_ok [OF m(1) c(1) k(2,3), of True] map_bytes_inverse [OF k(2)] b(3,4) t c(2)
    by (cases "n = 0") auto
qed

theorem MapKind_roundtrip_witness:
  "\<exists>m'. LuaMessage_MapKind hi_message 1 1 False = Inr m' \<and> ar_content m' = [104, 227] \<and>
     LuaMessage_MapKind m' 1 1 True = Inr hi_message"
proof -
  have "map_bytes g_SendByteMap 1 1 [104, 105] = [104, g_SendByteMap ! 105]" by (simp add: map_bytes_def)
  moreover have "g_SendByteMap ! 105 = 227" by (simp add: g_SendByteMap_def)
  ultimately show ?thesis
    using MapKind_roundtrip [of hi_message 1 1] by (simp add: hi_message_ok)
qed

text \<open>Neither bound is checked: a part that ends beyond the block faults, whatever the size of the message.\<close>

lemma MapKind_overruns:
  assumes "mf_wf (ar_stream m)" "getMsgPtr m = Some cells" "length cells < i + n" "0 < n" "i + n < 4294967296"
  shows "LuaMessage_MapKind m (int i) (int n) recv = Inl OutOfBounds"
proof -
  have w: "i < 4294967296" "n < 4294967296" using assms(5) by simp_all
  have "(word_of_nat n :: u32) \<noteq> 0" using unat_u32 [OF w(2)] assms(4) by (metis unat_0 not_less_zero)
  then show ?thesis
    using assms(2) w map_loop_overrun [OF assms(3,4) maps_length(1)] map_loop_overrun [OF assms(3,4) maps_length(2)]
    by (cases recv) (simp_all add: LuaMessage_MapKind_def number_to_u32_ok unat_u32 deref_def)
qed

text \<open>
  C10: The checksum that a script gets of part of a message is the CRC-16 of those bytes computed one bit at a time, and no byte outside the part is
  read; the length is cut to 16 bits.
\<close>

theorem message_CRC16:
  assumes m: "mf_wf (ar_stream m)" "i + n mod 65536 \<le> length (ar_content m)" "i < 4294967296" "n < 4294967296"
  shows "LuaMessage_CRC16 m (int i) (int n) = Inr (PushNumber (uint (crc16 (take (n mod 65536) (drop i (ar_content m))))))"
proof -
  obtain cells where c: "getMsgPtr m = Some cells" "ar_content m = take (fb_cplen (mf_buf (ar_stream m))) cells"
    "fb_cplen (mf_buf (ar_stream m)) < length cells" using message_block [OF m(1)] by blast
  let ?k = "fb_cplen (mf_buf (ar_stream m))"
  have l: "unat (ucast (word_of_nat n :: u32) :: u16) = n mod 65536"
    using m(4) by (simp add: unsigned_ucast_eq unat_of_nat take_bit_eq_mod)
  have le: "i \<le> length cells" "n mod 65536 \<le> length (drop i cells)" "i + n mod 65536 \<le> ?k" using m(2) c by simp_all
  have "take (n mod 65536) (drop i cells) = take (n mod 65536) (drop i (take ?k cells))"
    using le(3) by (simp add: drop_take min_def)
  moreover have "CRC16 (drop i cells) (ucast (word_of_nat n :: u32)) = Inr (crc16 (take (n mod 65536) (drop i cells)))"
    using le(2) CRC16_is_crc16 [of "ucast (word_of_nat n :: u32)" "drop i cells"] unfolding l by simp
  ultimately show ?thesis using m c le
    by (simp add: LuaMessage_CRC16_def number_to_u32_ok unat_u32 deref_def ptr_add_def)
qed

theorem message_CRC16_witness:
  "LuaMessage_CRC16 hi_message 0 2 = Inr (PushNumber (uint (crc16 [104, 105])))"
  using message_CRC16 [of hi_message 0 2] by (simp add: hi_message_ok)

section \<open>Hexadecimal text\<close>

lemma tohex_loop_fills:
  "length pre = 2 * i \<Longrightarrow> 2 * n < length zs \<Longrightarrow> i + n \<le> length pData \<Longrightarrow>
     \<exists>r. tohex_loop (pre @ zs) pData i n = Inr (pre @ concat (map hex2 (take n (drop i pData))) @ r)"
proof (induction n arbitrary: pre i zs)
  case (Suc n)
  let ?x = "pData ! i"
  have d: "drop i pData = ?x # drop (Suc i) pData" using Suc.prems(3) by (simp add: Cons_nth_drop_Suc)
  have "\<exists>r. tohex_loop ((pre @ hex2 ?x) @ 0 # drop 3 zs) pData (Suc i) n =
      Inr ((pre @ hex2 ?x) @ concat (map hex2 (take n (drop (Suc i) pData))) @ r)"
    by (rule Suc.IH) (use Suc.prems in \<open>auto simp: hex2_def\<close>)
  moreover have "mem_write (pre @ zs) (i * 2) [hex_digit (unat ?x div 16), hex_digit (unat ?x mod 16), 0] =
      Inr ((pre @ hex2 ?x) @ 0 # drop 3 zs)"
    using Suc.prems(1,2) by (simp add: mem_write_def hex2_def mult.commute)
  ultimately show ?case using Suc.prems(3) unfolding d by (simp add: mem_get_def)
qed simp

lemma tohex_in_block:
  assumes "mf_wf (ar_stream m)" "length (ar_content m) < 2147483648"
    and "n = 2 * length (ar_content m)" "n < length buf"
  shows "\<exists>r. tohex m buf n = Inr (concat (map hex2 (ar_content m)) @ r)"
proof -
  obtain p where "tohex m buf n = tohex_loop (replicate n 0 @ drop n buf) (ar_content m @ p) 0 (length (ar_content m))"
    using tohex_start [OF assms(1,2), of n buf] assms(3,4) by auto
  moreover have "\<exists>r. tohex_loop ([] @ replicate n 0 @ drop n buf) (ar_content m @ p) 0 (length (ar_content m)) =
      Inr ([] @ concat (map hex2 (take (length (ar_content m)) (drop 0 (ar_content m @ p)))) @ r)"
    by (rule tohex_loop_fills) (use assms(3,4) in simp_all)
  ultimately show ?thesis by simp
qed

lemma length_hex: "length (concat (map hex2 xs)) = 2 * length xs"
  by (induction xs) (simp_all add: hex2_def)

text \<open>
  The text a script gets from \<open>tohex\<close> is two hexadecimal digits for each byte of the message, and the block allocated for it has room for
  the terminator of the last \<open>sprintf\<close>.
\<close>

theorem LuaMessage_tohex_text:
  assumes m: "mf_wf (ar_stream m)" "length (ar_content m) < 1073741823" and h: "can_alloc h (2 * int (length (ar_content m)) + 2)"
  shows "LuaMessage_tohex h m = Inr (PushString (concat (map hex2 (ar_content m))))"
proof -
  let ?l = "length (ar_content m)"
  have sz: "getMsgSize m = int ?l" using message_size(1) [OF m(1)] m(2) by simp
  have i: "iadd (int ?l) (int ?l) = Inr (int (2 * ?l))" "iadd (int (2 * ?l)) 1 = Inr (int (2 * ?l + 1))"
    using m(2) by (simp_all add: iadd_def fits_int_def INT_MIN_def INT_MAX_def)
  have s: "size_of_int (int (2 * ?l)) = 2 * ?l" "size_of_int (int (2 * ?l + 1)) = 2 * ?l + 1"
    using m(2) by (intro size_of_int_nat, simp add: SIZE_MOD_def)+
  have "fb_wf 128 (fb_new 128)" using fb_new_wf [of 128] by (simp add: SIZE_MOD_def)
  from fb_grow_cases [OF this, of "2 * ?l + 1" h] m(2) h obtain b where
    b: "fb_grow h 128 (fb_new 128) (2 * ?l + 1) = Inr b" "fb_wf 128 b" "2 * ?l + 1 \<le> fb_alloc b"
    by (auto simp: SIZE_MOD_def add.commute split: sum.splits)
  then obtain cells where c: "fb_buf 128 b = Some cells" "2 * ?l < length cells" by (auto elim: fb_wfE)
  obtain r where r: "tohex m cells (2 * ?l) = Inr (concat (map hex2 (ar_content m)) @ r)"
    using tohex_in_block [OF m(1) _ refl c(2)] m(2) by auto
  have "mem_read (concat (map hex2 (ar_content m)) @ r) 0 (2 * ?l) = Inr (concat (map hex2 (ar_content m)))"
    by (simp add: mem_read_def length_hex)
  with sz i s b(1) c(1) r show ?thesis by (simp add: LuaMessage_tohex_def deref_def del: of_nat_mult of_nat_add)
qed

theorem LuaMessage_tohex_text_witness:
  "LuaMessage_tohex open_heap hi_message = Inr (PushString [54, 56, 54, 57])"
  using LuaMessage_tohex_text [of hi_message open_heap] by (simp add: hi_message_ok hex2_def hex_digit_def)

end
