(* ===== verification/LuaMessageRoundtrip.thy ===== *)
theory LuaMessageRoundtrip
  imports LuaMessageProofs
begin

text \<open>
  What a script writes into a message with the functions of the binding, it reads back with the same functions in the same order.
\<close>

section \<open>Calls\<close>

text \<open>A call of the binding with its argument, the bytes it stands for, and what a reader is given for it.\<close>

datatype lua_call =
    CallUiboolean bool | CallBool bool | CallInt int | CallSint8 int | CallUint8 int | CallSint16 int | CallUint16 int
  | CallUint32 int | CallFloat u32 | CallString "byte list" | CallCstring "byte list" | CallCstringLen "byte list" nat
  | CallLstring8 "byte list" | CallLstring16 "byte list" | CallLstringFixed "byte list"

definition drop_push :: "c_fault + (lxz_message \<times> lua_push) \<Rightarrow> c_fault + lxz_message" where
  "drop_push r = bindE r (\<lambda>(m, _). Inr m)"

fun lua_write :: "c_heap \<Rightarrow> lxz_message \<Rightarrow> lua_call \<Rightarrow> c_fault + lxz_message" where
  "lua_write h m (CallUiboolean b) = drop_push (LuaMessage_Serial_uiboolean h m (if b then 1 else 0))"
| "lua_write h m (CallBool b) = drop_push (LuaMessage_Serial_bool h m b)"
| "lua_write h m (CallInt v) = drop_push (LuaMessage_Serial_int h m v)"
| "lua_write h m (CallSint8 v) = drop_push (LuaMessage_Serial_sint8 h m v)"
| "lua_write h m (CallUint8 v) = drop_push (LuaMessage_Serial_uint8 h m v)"
| "lua_write h m (CallSint16 v) = drop_push (LuaMessage_Serial_sint16 h m v)"
| "lua_write h m (CallUint16 v) = drop_push (LuaMessage_Serial_uint16 h m v)"
| "lua_write h m (CallUint32 v) = drop_push (LuaMessage_Serial_uint32 h m v)"
| "lua_write h m (CallFloat v) = drop_push (LuaMessage_Serial_float h m v)"
| "lua_write h m (CallString s) = drop_push (LuaMessage_Serial_string h m (Some s))"
| "lua_write h m (CallCstring s) = drop_push (LuaMessage_Serial_cstring h m (Some s))"
| "lua_write h m (CallCstringLen s n) = drop_push (LuaMessage_Serial_cstring_len h m s (int n))"
| "lua_write h m (CallLstring8 s) = drop_push (LuaMessage_Serial_lstring h m (Some s) 1)"
| "lua_write h m (CallLstring16 s) = drop_push (LuaMessage_Serial_lstring h m (Some s) 2)"
| "lua_write h m (CallLstringFixed s) = drop_push (LuaMessage_Serial_lstring h m (Some s) (int (length s)))"

fun lua_read :: "c_heap \<Rightarrow> lxz_message \<Rightarrow> lua_call \<Rightarrow> c_fault + (lxz_message \<times> lua_push)" where
  "lua_read h m (CallUiboolean _) = LuaMessage_Serial_uiboolean h m 0"
| "lua_read h m (CallBool _) = LuaMessage_Serial_bool h m False"
| "lua_read h m (CallInt _) = LuaMessage_Serial_int h m 0"
| "lua_read h m (CallSint8 _) = LuaMessage_Serial_sint8 h m 0"
| "lua_read h m (CallUint8 _) = LuaMessage_Serial_uint8 h m 0"
| "lua_read h m (CallSint16 _) = LuaMessage_Serial_sint16 h m 0"
| "lua_read h m (CallUint16 _) = LuaMessage_Serial_uint16 h m 0"
| "lua_read h m (CallUint32 _) = LuaMessage_Serial_uint32 h m 0"
| "lua_read h m (CallFloat _) = LuaMessage_Serial_float h m 0"
| "lua_read h m (CallString _) = LuaMessage_Serial_string h m None"
| "lua_read h m (CallCstring _) = LuaMessage_Serial_cstring h m None"
| "lua_read h m (CallCstringLen _ n) = LuaMessage_Serial_cstring_len h m [] (int n)"
| "lua_read h m (CallLstring8 _) = LuaMessage_Serial_lstring h m None 1"
| "lua_read h m (CallLstring16 _) = LuaMessage_Serial_lstring h m None 2"
| "lua_read h m (CallLstringFixed s) = LuaMessage_Serial_lstring h m None (int (length s))"

abbreviation len32 :: "byte list \<Rightarrow> byte list" where
  "len32 s \<equiv> le_bytes 4 (word_of_nat (length s) :: u32)"

fun call_bytes :: "lua_call \<Rightarrow> byte list" where
  "call_bytes (CallUiboolean b) = le_bytes 4 (if b then 1 else 0 :: u32)"
| "call_bytes (CallBool b) = le_bytes 4 (if b then 1 else 0 :: u32)"
| "call_bytes (CallInt v) = le_bytes 4 (word_of_int v :: u32)"
| "call_bytes (CallSint8 v) = [word_of_int v]"
| "call_bytes (CallUint8 v) = [word_of_int v]"
| "call_bytes (CallSint16 v) = le_bytes 2 (word_of_int v :: u16)"
| "call_bytes (CallUint16 v) = le_bytes 2 (word_of_int v :: u16)"
| "call_bytes (CallUint32 v) = le_bytes 4 (word_of_int v :: u32)"
| "call_bytes (CallFloat v) = le_bytes 4 v"
| "call_bytes (CallString s) = len32 s @ len32 s @ s"
| "call_bytes (CallCstring s) = len32 s @ s"
| "call_bytes (CallCstringLen s n) = take n s @ replicate (n - length s) 0"
| "call_bytes (CallLstring8 s) = word_of_nat (length s) # s"
| "call_bytes (CallLstring16 s) = le_bytes 2 (word_of_nat (length s) :: u16) @ s"
| "call_bytes (CallLstringFixed s) = s"

text \<open>The values that survive: numbers in the range of their type, a \<open>uint32\<close> below \<open>2 ^ 31\<close>, strings that fit their length field.\<close>

fun call_fits :: "lua_call \<Rightarrow> bool" where
  "call_fits (CallInt v) \<longleftrightarrow> - 2147483648 \<le> v \<and> v \<le> 2147483647"
| "call_fits (CallSint8 v) \<longleftrightarrow> - 128 \<le> v \<and> v \<le> 127"
| "call_fits (CallUint8 v) \<longleftrightarrow> 0 \<le> v \<and> v \<le> 255"
| "call_fits (CallSint16 v) \<longleftrightarrow> - 32768 \<le> v \<and> v \<le> 32767"
| "call_fits (CallUint16 v) \<longleftrightarrow> 0 \<le> v \<and> v \<le> 65535"
| "call_fits (CallUint32 v) \<longleftrightarrow> 0 \<le> v \<and> v \<le> 2147483647"
| "call_fits (CallString s) \<longleftrightarrow> 0 \<notin> set s \<and> length s < 2147483647"
| "call_fits (CallCstring s) \<longleftrightarrow> 0 \<notin> set s \<and> length s < 255"
| "call_fits (CallCstringLen s n) \<longleftrightarrow> 0 \<notin> set s \<and> length s \<le> n \<and> n < 2147483647"
| "call_fits (CallLstring8 s) \<longleftrightarrow> length s \<le> 255"
| "call_fits (CallLstring16 s) \<longleftrightarrow> length s \<le> 65535"
| "call_fits (CallLstringFixed s) \<longleftrightarrow> 2 < length s \<and> length s < 2147483647"
| "call_fits c \<longleftrightarrow> True"

fun call_value :: "lua_call \<Rightarrow> lua_push" where
  "call_value (CallUiboolean b) = PushNumber (if b then 1 else 0)"
| "call_value (CallBool b) = PushBoolean b"
| "call_value (CallInt v) = PushNumber v"
| "call_value (CallSint8 v) = PushNumber v"
| "call_value (CallUint8 v) = PushNumber v"
| "call_value (CallSint16 v) = PushNumber v"
| "call_value (CallUint16 v) = PushNumber v"
| "call_value (CallUint32 v) = PushNumber v"
| "call_value (CallFloat v) = PushFloat v"
| "call_value (CallString s) = PushString s"
| "call_value (CallCstring s) = PushString s"
| "call_value (CallCstringLen s n) = PushString s"
| "call_value (CallLstring8 s) = PushString s"
| "call_value (CallLstring16 s) = PushString s"
| "call_value (CallLstringFixed s) = PushString s"

section \<open>Writing\<close>

text \<open>What one write has to show.\<close>

definition wrote :: "c_heap \<Rightarrow> lxz_message \<Rightarrow> byte list \<Rightarrow> c_fault + lxz_message \<Rightarrow> bool" where
  "wrote h m xs r \<longleftrightarrow> (\<exists>m'. r = Inr m' \<and> puts h m xs m')"

lemma drop_push_simps [simp]: "drop_push (Inr (m, v)) = Inr m" "drop_push (Inl e) = Inl e"
  by (simp_all add: drop_push_def)

lemma SerialFunc_at_end:
  "at_end h m n \<Longrightarrow> n \<le> length buf \<Longrightarrow> take n buf = xs \<Longrightarrow> \<exists>m' r. SerialFunc h m buf n = Inr (m', r, buf) \<and> puts h m xs m'"
  using SerialFunc_write [of m h n buf] by (auto simp: at_end_def)

lemma at_end_modes: "at_end h m n \<Longrightarrow> \<not> IsReading m \<and> IsWriting m \<and> ar_mode m \<noteq> SM_READ"
  by (simp add: at_end_def)

lemma scalar_call_writes:
  assumes "at_end h m (length (call_bytes c))" "call_fits c"
    and "c \<in> range CallUiboolean \<union> range CallBool \<union> range CallInt \<union> range CallSint8 \<union> range CallUint8 \<union> range CallSint16 \<union>
      range CallUint16 \<union> range CallUint32 \<union> range CallFloat"
  shows "wrote h m (call_bytes c) (lua_write h m c)"
proof -
  note modes = at_end_modes [OF assms(1)]
  define buf where "buf = (case c of CallFloat _ \<Rightarrow> call_bytes c @ drop 4 (malloc_cells h 8) | _ \<Rightarrow> call_bytes c)"
  have "take (length (call_bytes c)) buf = call_bytes c" "length (call_bytes c) \<le> length buf"
    using assms(3) by (auto simp: buf_def)
  with SerialFunc_at_end [OF assms(1)] obtain m' r where "SerialFunc h m buf (length (call_bytes c)) = Inr (m', r, buf)"
    "puts h m (call_bytes c) m'" by blast
  with assms(2,3) modes show ?thesis
    by (auto simp: wrote_def buf_def scalar_defs Let_def number_to_int_def number_to_u32_def number_to_def
        LuaMessage_Serial_uiboolean_def LuaMessage_Serial_bool_def LuaMessage_Serial_int_def LuaMessage_Serial_sint8_def
        LuaMessage_Serial_uint8_def LuaMessage_Serial_sint16_def LuaMessage_Serial_uint16_def LuaMessage_Serial_uint32_def
        LuaMessage_Serial_float_def)
qed

lemma new_cells_ok: "\<forall>k. can_alloc h k \<Longrightarrow> new_cells h (int n) = Inr (malloc_cells h n)"
  by (simp add: new_cells_def)

lemma clear_cells: "mem_write (malloc_cells h n) 0 (replicate n 0) = Inr (replicate n 0)"
  by (simp add: mem_write_def)

lemma iadd_Suc: "n < 2147483647 \<Longrightarrow> iadd (int n) 1 = Inr (int (Suc n))"
  by (simp add: iadd_def fits_int_def INT_MIN_def INT_MAX_def)

lemma sint_length: "n < 2147483648 \<Longrightarrow> sint (word_of_nat n :: u32) = int n"
  by (simp add: signed_of_nat signed_take_bit_int_eq_self)

lemma at_end_alloc: "at_end h m n \<Longrightarrow> can_alloc h k"
  by (simp add: at_end_def mf_room_def)

lemma string_writes:
  assumes "at_end h m (length (call_bytes (CallString s)))" "0 \<notin> set s" "length s < 2147483647"
  shows "wrote h m (call_bytes (CallString s)) (lua_write h m (CallString s))"
proof -
  let ?n = "length s" and ?l = "word_of_nat (length s) :: u32"
  note modes = at_end_modes [OF assms(1)]
  have e: "at_end h m (length (le_bytes 4 ?l) + (4 + ?n))" using assms(1) by simp
  then have "mf_room h (ar_stream m) 4" by (auto simp: at_end_def intro: mf_room_mono)
  then obtain m1 where m1: "Serial_int h m ?l = Inr (m1, ?l)" "puts h m (le_bytes 4 ?l) m1"
    using Serial_int_write [of m h ?l] assms(1) by (auto simp: at_end_def)
  obtain m2 b where m2: "Serial_max h m1 (s @ [0]) (int ?n) (int ?n) = Inr (m2, b)" "puts h m1 (len32 s @ s) m2"
    using Serial_max_write [OF at_end_puts [OF e m1(2)], of "[0]" "int ?n"] assms(3) by auto
  have "mem_write (malloc_cells h (Suc ?n)) 0 (replicate (Suc ?n) 0) = Inr (replicate (Suc ?n) 0)" by (rule clear_cells)
  moreover have "mem_write (replicate (Suc ?n) 0) 0 (s @ [0]) = Inr (s @ [0])" by (simp add: mem_write_def)
  ultimately have "lua_write h m (CallString s) = Inr m2"
    using assms m1(1) m2(1) modes at_end_alloc [OF assms(1)]
    by (simp add: LuaMessage_Serial_string_def lua_cstr_def deref_def strlen_terminated ret_int_small iadd_Suc
        new_cells_ok sint_length del: of_nat_Suc replicate_Suc)
  with puts_trans [OF m1(2) m2(2)] show ?thesis by (simp add: wrote_def)
qed

lemma cstring_writes:
  assumes "at_end h m (length (call_bytes (CallCstring s)))" "0 \<notin> set s" "length s < 2147483647"
  shows "wrote h m (call_bytes (CallCstring s)) (lua_write h m (CallCstring s))"
proof -
  let ?n = "length s" and ?l = "word_of_nat (length s) :: u32"
  note modes = at_end_modes [OF assms(1)]
  have e: "at_end h m (length (le_bytes 4 ?l) + ?n)" using assms(1) by simp
  then have "mf_room h (ar_stream m) 4" by (auto simp: at_end_def intro: mf_room_mono)
  then obtain m1 where m1: "Serial_int h m ?l = Inr (m1, ?l)" "puts h m (le_bytes 4 ?l) m1"
    using Serial_int_write [of m h ?l] assms(1) by (auto simp: at_end_def)
  obtain m2 r where m2: "SerialFunc h m1 (s @ [0]) ?n = Inr (m2, r, s @ [0])" "puts h m1 s m2"
    using SerialFunc_at_end [OF at_end_puts [OF e m1(2)], of "s @ [0]" s] by auto
  have "SerialStr h m (s @ [0]) k = Inr (m2, s @ [0])" for k
    using modes m1(1) m2(1) assms(2,3) by (simp add: SerialStr_def strlen_terminated sint_length SIZE_MOD_def)
  then have "lua_write h m (CallCstring s) = Inr m2"
    using assms modes by (simp add: LuaMessage_Serial_cstring_def lua_cstr_def deref_def strlen_terminated Let_def)
  with puts_trans [OF m1(2) m2(2)] show ?thesis by (simp add: wrote_def)
qed

lemma Serial_buf_writes:
  assumes "at_end h m n" "n \<le> length buf" "n < 2147483648" "take n buf = xs"
  shows "\<exists>m' b. Serial_buf h m buf (int n) = Inr (m', b) \<and> puts h m xs m'"
proof -
  have "size_of_int (int n) = n" using assms(3) by (simp add: SIZE_MOD_def)
  with SerialFunc_at_end [OF assms(1,2,4)] at_end_modes [OF assms(1)] show ?thesis by (auto simp: Serial_buf_def)
qed

lemma cstring_len_writes:
  assumes "at_end h m (length (call_bytes (CallCstringLen s n)))" "length s \<le> n" "n < 2147483647"
  shows "wrote h m (call_bytes (CallCstringLen s n)) (lua_write h m (CallCstringLen s n))"
proof -
  let ?b = "s @ replicate (n - length s) 0"
  note modes = at_end_modes [OF assms(1)]
  have "call_bytes (CallCstringLen s n) = ?b" "length ?b = n" using assms(2) by simp_all
  with assms(1,3) obtain m' b where m': "Serial_buf h m ?b (int n) = Inr (m', b)" "puts h m ?b m'"
    using Serial_buf_writes [of h m n ?b ?b] by auto
  have "mem_read (s @ [0]) 0 (min (length s) n) = Inr s" "mem_write (replicate n 0) 0 s = Inr ?b"
    using assms(2) by (simp_all add: mem_read_def mem_write_def min_def)
  with m'(1) assms modes at_end_alloc [OF assms(1)] have "lua_write h m (CallCstringLen s n) = Inr m'"
    by (simp add: LuaMessage_Serial_cstring_len_def number_to_size_def number_to_def new_cells_ok clear_cells ret_int_small)
  with m'(2) assms(2) show ?thesis by (simp add: wrote_def)
qed

text \<open>The length field of an \<open>lstring\<close>, if any, comes before its bytes.\<close>

lemma lstring_writes:
  assumes "at_end h m (length (call_bytes c))" "call_fits c"
    and "c \<in> {CallLstring8 s, CallLstring16 s, CallLstringFixed s}"
  shows "wrote h m (call_bytes c) (lua_write h m c)"
proof -
  let ?n = "length s"
  note modes = at_end_modes [OF assms(1)]
  have n: "?n < 2147483647" using assms(2,3) by auto
  have cells: "mem_write (malloc_cells h (Suc ?n)) 0 s = Inr (s @ drop ?n (malloc_cells h (Suc ?n)))"
    "mem_write (s @ drop ?n (malloc_cells h (Suc ?n))) ?n [0] = Inr (s @ [0])"
    by (simp_all add: mem_write_def)
  have common: "LuaMessage_Serial_lstring h m (Some s) a = bindE (bindE
      (if (word_of_int a :: u32) = 1 then bindE (Serial_u8 h m (word_of_nat ?n)) (\<lambda>(m', _). Inr (m', int ?n))
       else if (word_of_int a :: u32) = 2 then bindE (Serial_u16 h m (word_of_nat ?n)) (\<lambda>(m', _). Inr (m', int ?n))
       else Inr (m, sint (word_of_int a :: u32))) (\<lambda>(m1, len). Serial_buf h m1 (s @ [0]) len)) (\<lambda>(m2, _). Inr (m2, NoValue))"
    if "0 \<le> a" "a \<le> 2147483647" for a
    using that modes n cells at_end_alloc [OF assms(1)]
    by (simp add: LuaMessage_Serial_lstring_def number_to_int_def number_to_def deref_def ret_int_small new_cells_ok
        size_add_small SIZE_MOD_def Let_def bindE_assoc split_def del: of_nat_Suc flip: of_nat_Suc)
  consider "c = CallLstring8 s" | "c = CallLstring16 s" | "c = CallLstringFixed s" using assms(3) by blast
  then show ?thesis
  proof cases
    case 1
    then obtain m1 where m1: "Serial_u8 h m (word_of_nat ?n) = Inr (m1, word_of_nat ?n)" "puts h m [word_of_nat ?n] m1" "at_end h m1 ?n"
      using Serial_u8_write [of h m ?n "word_of_nat ?n"] assms(1) by auto
    obtain m2 b where "Serial_buf h m1 (s @ [0]) (int ?n) = Inr (m2, b)" "puts h m1 s m2"
      using Serial_buf_writes [OF m1(3), of "s @ [0]" s] n by auto
    with m1(1) puts_trans [OF m1(2)] 1 show ?thesis by (auto simp: wrote_def common)
  next
    case 2
    then obtain m1 r where m1: "SerialFunc h m (le_bytes 2 (word_of_nat ?n :: u16)) 2 = Inr (m1, r, le_bytes 2 (word_of_nat ?n :: u16))"
        "puts h m (le_bytes 2 (word_of_nat ?n :: u16)) m1"
      using SerialFunc_at_end [OF at_end_mono [OF assms(1)], of 2 "le_bytes 2 (word_of_nat ?n :: u16)"] by auto
    have "at_end h m1 ?n" by (rule at_end_puts [OF _ m1(2)]) (use assms(1) 2 in simp)
    then obtain m2 b where "Serial_buf h m1 (s @ [0]) (int ?n) = Inr (m2, b)" "puts h m1 s m2"
      using Serial_buf_writes [of h m1 ?n "s @ [0]" s] n by auto
    with m1(1) puts_trans [OF m1(2)] 2 modes show ?thesis by (auto simp: wrote_def common Serial_u16_def Let_def)
  next
    case 3
    then have "(word_of_int (int ?n) :: u32) \<noteq> 1" "(word_of_int (int ?n) :: u32) \<noteq> 2"
      using unat_u32 [of ?n] assms(2) by auto
    moreover obtain m2 b where "Serial_buf h m (s @ [0]) (int ?n) = Inr (m2, b)" "puts h m s m2"
      using Serial_buf_writes [of h m ?n "s @ [0]" s] n 3 assms(1) by auto
    ultimately show ?thesis using 3 n by (auto simp: wrote_def common sint_length)
  qed
qed

lemma call_writes:
  assumes "at_end h m (length (call_bytes c))" "call_fits c"
  shows "wrote h m (call_bytes c) (lua_write h m c)"
proof (cases c)
  case (CallString s)
  then show ?thesis using string_writes assms by simp
next
  case (CallCstring s)
  then show ?thesis using cstring_writes assms by simp
next
  case (CallCstringLen s n)
  then show ?thesis using cstring_len_writes assms by simp
next
  case (CallLstring8 s)
  then show ?thesis using lstring_writes [OF assms] by simp
next
  case (CallLstring16 s)
  then show ?thesis using lstring_writes [OF assms] by simp
next
  case (CallLstringFixed s)
  then show ?thesis using lstring_writes [OF assms] by simp
qed (use scalar_call_writes [OF assms] in auto)

section \<open>Reading\<close>

definition gave :: "lxz_message \<Rightarrow> byte list \<Rightarrow> byte list \<Rightarrow> lua_push \<Rightarrow> c_fault + (lxz_message \<times> lua_push) \<Rightarrow> bool" where
  "gave m xs rest v r \<longleftrightarrow> (\<exists>m'. r = Inr (m', v) \<and> gets m xs m' \<and> drop (ar_pos m') (ar_content m') = rest)"

text \<open>A message open for reading with \<open>xs\<close> and then \<open>rest\<close> before it.\<close>

definition ahead :: "lxz_message \<Rightarrow> byte list \<Rightarrow> byte list \<Rightarrow> bool" where
  "ahead m xs rest \<longleftrightarrow> ar_ok SM_READ m \<and> ar_swaps m = swap_none \<and> drop (ar_pos m) (ar_content m) = xs @ rest"

lemma ahead_modes: "ahead m xs rest \<Longrightarrow> IsReading m \<and> ar_mode m = SM_READ \<and> ar_swaps m = swap_none"
  by (simp add: ahead_def)

lemma ahead_SerialFunc:
  assumes "ahead m (xs @ ys) rest" "length xs = n" "n \<le> length buf" "n < 2147483648"
  shows "\<exists>m'. SerialFunc h m buf n = Inr (m', int n, xs @ drop n buf) \<and> gets m xs m' \<and> ahead m' ys rest"
proof -
  have m: "ar_ok SM_READ m" "drop (ar_pos m) (ar_content m) = xs @ ys @ rest" using assms(1) by (simp_all add: ahead_def)
  from SerialFunc_read [OF m assms(2-4), of h] obtain m' where "SerialFunc h m buf n = Inr (m', int n, xs @ drop n buf)"
    "gets m xs m'" "drop (ar_pos m') (ar_content m') = ys @ rest" by auto
  moreover from gets_same [OF this(2)] have "ahead m' ys rest" using assms(1) calculation(3) by (simp add: ahead_def)
  ultimately show ?thesis by blast
qed

lemma sint_in_range:
  "- 2147483648 \<le> v \<Longrightarrow> v \<le> 2147483647 \<Longrightarrow> sint (word_of_int v :: u32) = v"
  "- 32768 \<le> v \<Longrightarrow> v \<le> 32767 \<Longrightarrow> sint (word_of_int v :: u16) = v"
  "- 128 \<le> v \<Longrightarrow> v \<le> 127 \<Longrightarrow> sint (word_of_int v :: byte) = v"
  by (simp_all only: signed_of_int) (simp_all add: signed_take_bit_int_eq_self)

lemma uint_in_range:
  "0 \<le> v \<Longrightarrow> v \<le> 255 \<Longrightarrow> uint (word_of_int v :: byte) = v" "0 \<le> v \<Longrightarrow> v \<le> 65535 \<Longrightarrow> uint (word_of_int v :: u16) = v"
  by (simp_all add: unsigned_of_int take_bit_int_eq_self)

lemma float_bits:
  "ucast (le_word (le_bytes 4 v @ bs) :: u64) = (v :: u32)" "ucast (scast w :: u64) = (w :: u32)"
proof -
  show "ucast (le_word (le_bytes 4 v @ bs) :: u64) = (v :: u32)"
    unfolding ucast_le_word [where ?'a = 64 and ?'b = 32, simplified] by (simp add: le_word_append le_word_inverse)
  show "ucast (scast w :: u64) = (w :: u32)" by (rule bit_word_eqI) (simp add: bit_simps)
qed

lemma scalar_call_reads:
  assumes "ahead m (call_bytes c) rest" "call_fits c"
    and "c \<in> range CallUiboolean \<union> range CallBool \<union> range CallInt \<union> range CallSint8 \<union> range CallUint8 \<union> range CallSint16 \<union>
      range CallUint16 \<union> range CallUint32 \<union> range CallFloat"
  shows "gave m (call_bytes c) rest (call_value c) (lua_read h m c)"
proof -
  let ?n = "length (call_bytes c)"
  have small: "?n < 2147483648" "?n \<le> 8" using assms(3) by auto
  have "\<exists>m'. SerialFunc h m buf ?n = Inr (m', int ?n, call_bytes c @ drop ?n buf) \<and> gets m (call_bytes c) m' \<and>
      drop (ar_pos m') (ar_content m') = rest" if "?n \<le> length buf" for buf
    using ahead_SerialFunc [of m "call_bytes c" "[]" rest ?n buf h] assms(1) that small by (auto simp: ahead_def)
  note r = this [of "le_bytes ?n (0 :: u64)"] this [of "malloc_cells h 8"] this [of "[stack_u8 h]"]
  have z: "le_bytes 4 (0 :: u64) = le_bytes 4 (0 :: u32)" "le_bytes 2 (0 :: u64) = le_bytes 2 (0 :: u16)"
    by (simp_all add: le_bytes_numeral)
  show ?thesis using r assms(2,3) small ahead_modes [OF assms(1)]
    by (auto simp: gave_def z scalar_defs le_word_inverse sint_in_range uint_in_range float_bits
        LuaMessage_Serial_uiboolean_def LuaMessage_Serial_bool_def LuaMessage_Serial_int_def LuaMessage_Serial_sint8_def
        LuaMessage_Serial_uint8_def LuaMessage_Serial_sint16_def LuaMessage_Serial_uint16_def LuaMessage_Serial_uint32_def
        LuaMessage_Serial_float_def)
qed

lemma ahead_Serial_int:
  assumes "ahead m (le_bytes 4 (v :: u32) @ ys) rest"
  shows "\<exists>m'. Serial_int h m l = Inr (m', v) \<and> gets m (le_bytes 4 v) m' \<and> ahead m' ys rest"
  using ahead_SerialFunc [OF assms, of 4 "le_bytes 4 (0 :: u32)" h] ahead_modes [OF assms]
  by (auto simp: Serial_int_def le_word_inverse)

lemma replicate_one: "replicate (Suc 0) x = [x]"
  by simp

lemma string_reads:
  assumes m: "ahead m (call_bytes (CallString s)) rest" and s: "0 \<notin> set s" "length s < 2147483647" and h: "\<forall>k. can_alloc h k"
  shows "gave m (call_bytes (CallString s)) rest (PushString s) (lua_read h m (CallString s))"
proof -
  let ?n = "length s" and ?l = "word_of_nat (length s) :: u32"
  obtain m1 where m1: "Serial_int h m (stack_u32 h) = Inr (m1, ?l)" "gets m (le_bytes 4 ?l) m1" "ahead m1 (len32 s @ s) rest"
    using ahead_Serial_int [of m ?l "len32 s @ s" rest h] m by auto
  from Serial_max_gets [of m1 s rest "replicate (Suc ?n) 0" h "int ?n"] m1(3) s(2) obtain m2 where
    m2: "Serial_max h m1 (replicate (Suc ?n) 0) (int ?n) (int ?n) = Inr (m2, s @ [0])" "gets m1 (len32 s @ s) m2"
      "drop (ar_pos m2) (ar_content m2) = rest"
    by (auto simp: ahead_def replicate_one simp del: replicate_Suc)
  have "lua_read h m (CallString s) = Inr (m2, PushString s)"
    using ahead_modes [OF m] m1(1) m2(1) s h c_string_terminated [OF s(1), of "[]"]
    by (simp add: LuaMessage_Serial_string_def sint_length iadd_Suc new_cells_ok clear_cells del: of_nat_Suc replicate_Suc)
  with gets_trans [OF m1(2) m2(2)] m2(3) show ?thesis by (simp add: gave_def)
qed

lemma cstring_reads:
  assumes m: "ahead m (call_bytes (CallCstring s)) rest" and s: "0 \<notin> set s" "length s < 255"
  shows "gave m (call_bytes (CallCstring s)) rest (PushString s) (lua_read h m (CallCstring s))"
proof -
  let ?n = "length s" and ?l = "word_of_nat (length s) :: u32"
  obtain m1 where m1: "Serial_int h m 0 = Inr (m1, ?l)" "gets m (le_bytes 4 ?l) m1" "ahead m1 (s @ []) rest"
    using ahead_Serial_int [of m ?l s rest h 0] m by auto
  from ahead_SerialFunc [OF m1(3), of ?n "malloc_cells h 256" h] s(2) obtain m2 where
    m2: "SerialFunc h m1 (malloc_cells h 256) ?n = Inr (m2, int ?n, s @ drop ?n (malloc_cells h 256))" "gets m1 s m2" "ahead m2 [] rest"
    by auto
  have "store_at (s @ drop ?n (malloc_cells h 256)) (int ?n) 0 = Inr (s @ 0 # drop (Suc ?n) (malloc_cells h 256))"
    using s(2) by (simp add: store_at_def mem_write_def)
  with m1(1) m2(1) s ahead_modes [OF m] have "lua_read h m (CallCstring s) = Inr (m2, PushString s)"
    by (simp add: LuaMessage_Serial_cstring_def SerialStr_def sint_length SIZE_MOD_def c_string_terminated)
  with gets_trans [OF m1(2) m2(2)] m2(3) show ?thesis by (simp add: gave_def ahead_def)
qed

lemma Serial_buf_reads:
  assumes "ahead m (xs @ []) rest" "length xs < 2147483648" "length xs \<le> length buf"
  shows "\<exists>m'. Serial_buf h m buf (int (length xs)) = Inr (m', xs @ drop (length xs) buf) \<and> gets m xs m' \<and> ahead m' [] rest"
  using ahead_SerialFunc [OF assms(1) refl assms(3,2), of h] ahead_modes [OF assms(1)] assms(2)
  by (auto simp: Serial_buf_def SIZE_MOD_def)

lemma cstring_len_reads:
  assumes m: "ahead m (call_bytes (CallCstringLen s n)) rest" and s: "0 \<notin> set s" "length s \<le> n" "n < 2147483647"
    and h: "\<forall>k. can_alloc h k"
  shows "gave m (call_bytes (CallCstringLen s n)) rest (PushString s) (lua_read h m (CallCstringLen s n))"
proof -
  let ?b = "s @ replicate (n - length s) 0"
  have b: "call_bytes (CallCstringLen s n) = ?b" "length ?b = n" using s(2) by simp_all
  from Serial_buf_reads [of m ?b rest "replicate (Suc n) 0" h] m s b obtain m' where
    m': "Serial_buf h m (replicate (Suc n) 0) (int n) = Inr (m', ?b @ [0])" "gets m ?b m'" "ahead m' [] rest"
    by (auto simp: replicate_one simp del: replicate_Suc)
  have "c_string (?b @ [0]) = Inr s"
    using c_string_terminated [OF s(1)] by (cases "n - length s") simp_all
  with m'(1) s h ahead_modes [OF m] have "lua_read h m (CallCstringLen s n) = Inr (m', PushString s)"
    by (simp add: LuaMessage_Serial_cstring_len_def number_to_size_def number_to_def size_add_small SIZE_MOD_def new_cells_ok
        clear_cells ret_int_small del: of_nat_Suc replicate_Suc)
  with m' b show ?thesis by (simp add: gave_def ahead_def)
qed

lemma lstring_reads:
  assumes m: "ahead m (call_bytes c) rest" and fits: "call_fits c" and h: "\<forall>k. can_alloc h k"
    and c: "c \<in> {CallLstring8 s, CallLstring16 s, CallLstringFixed s}"
  shows "gave m (call_bytes c) rest (PushString s) (lua_read h m c)"
proof -
  let ?n = "length s"
  note modes = ahead_modes [OF m]
  have n: "?n < 2147483647" using fits c by auto
  have body: "\<exists>m2. bindE (new_cells h (int (Suc ?n))) (\<lambda>buf. bindE (mem_write buf 0 (replicate (nat (int (Suc ?n))) 0)) (\<lambda>buf1.
        bindE (Serial_buf h m1 buf1 (int ?n)) (\<lambda>(m2, buf2).
        bindE (mem_read buf2 0 (size_of_int (int ?n))) (\<lambda>xs. Inr (m2, PushString xs))))) = Inr (m2, PushString s) \<and>
      gets m1 s m2 \<and> drop (ar_pos m2) (ar_content m2) = rest" if "ahead m1 (s @ []) rest" for m1
    using Serial_buf_reads [OF that, of "replicate (Suc ?n) 0" h] n h
    by (auto simp: new_cells_ok clear_cells mem_read_def SIZE_MOD_def ahead_def simp del: of_nat_Suc replicate_Suc)
  consider "c = CallLstring8 s" | "c = CallLstring16 s" | "c = CallLstringFixed s" using c by blast
  then show ?thesis
  proof cases
    case 1
    then have "ahead m ([word_of_nat ?n] @ s) rest" "uint (word_of_nat ?n :: byte) = int ?n"
      using m fits by (simp_all add: unsigned_of_nat take_bit_nat_eq_self)
    moreover from ahead_SerialFunc [OF this(1), of 1 "[stack_u8 h]" h] obtain m1 where
      "SerialFunc h m [stack_u8 h] 1 = Inr (m1, 1, [word_of_nat ?n])" "gets m [word_of_nat ?n] m1" "ahead m1 (s @ []) rest" by auto
    ultimately show ?thesis using body [of m1] gets_trans [of m "[word_of_nat ?n]" m1 s] 1 modes n
      by (auto simp: gave_def LuaMessage_Serial_lstring_def number_to_int_def number_to_def Serial_u8_def iadd_Suc
          simp del: of_nat_Suc)
  next
    case 2
    let ?l = "word_of_nat ?n :: u16"
    have "ahead m (le_bytes 2 ?l @ s) rest" "uint ?l = int ?n"
      using m fits 2 by (simp_all add: unsigned_of_nat take_bit_nat_eq_self)
    moreover from ahead_SerialFunc [OF this(1), of 2 "le_bytes 2 (0 :: u16)" h] obtain m1 where
      "SerialFunc h m (le_bytes 2 (0 :: u16)) 2 = Inr (m1, 2, le_bytes 2 ?l)" "gets m (le_bytes 2 ?l) m1" "ahead m1 (s @ []) rest" by auto
    ultimately show ?thesis using body [of m1] gets_trans [of m "le_bytes 2 ?l" m1 s] 2 modes n
      by (auto simp: gave_def LuaMessage_Serial_lstring_def number_to_int_def number_to_def Serial_u16_def iadd_Suc le_word_inverse
          simp del: of_nat_Suc)
  next
    case 3
    then have "(word_of_int (int ?n) :: u32) \<noteq> 1" "(word_of_int (int ?n) :: u32) \<noteq> 2"
      using unat_u32 [of ?n] fits by auto
    then show ?thesis using body [of m] 3 m modes n
      by (auto simp: gave_def LuaMessage_Serial_lstring_def number_to_int_def number_to_def iadd_Suc sint_length simp del: of_nat_Suc)
  qed
qed

lemma call_reads:
  assumes "ahead m (call_bytes c) rest" "call_fits c" "\<forall>k. can_alloc h k"
  shows "gave m (call_bytes c) rest (call_value c) (lua_read h m c)"
proof (cases c)
  case (CallString s)
  then show ?thesis using string_reads assms by simp
next
  case (CallCstring s)
  then show ?thesis using cstring_reads assms by simp
next
  case (CallCstringLen s n)
  then show ?thesis using cstring_len_reads assms by simp
next
  case (CallLstring8 s)
  then show ?thesis using lstring_reads [OF assms] by simp
next
  case (CallLstring16 s)
  then show ?thesis using lstring_reads [OF assms] by simp
next
  case (CallLstringFixed s)
  then show ?thesis using lstring_reads [OF assms] by simp
qed (use scalar_call_reads [OF assms(1,2)] in auto)

section \<open>Scripts\<close>

fun lua_writes :: "c_heap \<Rightarrow> lxz_message \<Rightarrow> lua_call list \<Rightarrow> c_fault + lxz_message" where
  "lua_writes h m [] = Inr m"
| "lua_writes h m (c # cs) = bindE (lua_write h m c) (\<lambda>m'. lua_writes h m' cs)"

fun lua_reads :: "c_heap \<Rightarrow> lxz_message \<Rightarrow> lua_call list \<Rightarrow> c_fault + (lxz_message \<times> lua_push list)" where
  "lua_reads h m [] = Inr (m, [])"
| "lua_reads h m (c # cs) =
     bindE (lua_read h m c) (\<lambda>(m', v). bindE (lua_reads h m' cs) (\<lambda>(m'', vs). Inr (m'', v # vs)))"

definition calls_bytes :: "lua_call list \<Rightarrow> byte list" where
  "calls_bytes cs = concat (map call_bytes cs)"

lemma calls_bytes_simps [simp]: "calls_bytes [] = []" "calls_bytes (c # cs) = call_bytes c @ calls_bytes cs"
  by (simp_all add: calls_bytes_def)

lemma script_writes:
  "at_end h m (length (calls_bytes cs)) \<Longrightarrow> list_all call_fits cs \<Longrightarrow> \<exists>m'. lua_writes h m cs = Inr m' \<and> puts h m (calls_bytes cs) m'"
proof (induction cs arbitrary: m)
  case Nil
  then show ?case by (simp add: at_end_def puts_refl)
next
  case (Cons c cs)
  have "wrote h m (call_bytes c) (lua_write h m c)"
    by (rule call_writes [OF at_end_mono [OF Cons.prems(1)]]) (use Cons.prems(2) in simp_all)
  then obtain m1 where m1: "lua_write h m c = Inr m1" "puts h m (call_bytes c) m1" by (auto simp: wrote_def)
  have "at_end h m1 (length (calls_bytes cs))" by (rule at_end_puts [OF _ m1(2)]) (use Cons.prems(1) in simp)
  with Cons.IH Cons.prems(2) obtain m2 where "lua_writes h m1 cs = Inr m2" "puts h m1 (calls_bytes cs) m2" by auto
  with m1 puts_trans [OF m1(2)] show ?case by auto
qed

lemma script_reads:
  "ahead m (calls_bytes cs) rest \<Longrightarrow> list_all call_fits cs \<Longrightarrow> \<forall>k. can_alloc h k \<Longrightarrow>
     \<exists>m'. lua_reads h m cs = Inr (m', map call_value cs)"
proof (induction cs arbitrary: m)
  case (Cons c cs)
  have "ahead m (call_bytes c) (calls_bytes cs @ rest)" using Cons.prems(1) by (simp add: ahead_def)
  from call_reads [OF this] Cons.prems(2,3) obtain m1 where m1: "lua_read h m c = Inr (m1, call_value c)" "gets m (call_bytes c) m1"
    "drop (ar_pos m1) (ar_content m1) = calls_bytes cs @ rest" by (auto simp: gave_def)
  have "ahead m1 (calls_bytes cs) rest" using gets_same [OF m1(2)] m1(3) Cons.prems(1) by (simp add: ahead_def)
  with Cons.IH Cons.prems(2,3) m1(1) show ?case by fastforce
qed simp

text \<open>
  C14: A script that writes values into an empty message in host byte order, with room for them, switches it to reading and reads them in the
  same order gets every value back.  The values are truth values; integers of 8, 16 and 32 bits in the range of their type, a \<open>uint32\<close>
  below \<open>2 ^ 31\<close>; floats; strings without zero bytes, those of \<open>Serial_cstring\<close> with fewer than 255 bytes; and strings of any bytes under
  a length field of 8 or 16 bits that holds their length, or of a fixed length above 2.  The 64-bit integers, pointers and raw bytes of the
  binding are not among them.
\<close>

theorem lua_message_roundtrip:
  assumes m: "at_end h m (length (calls_bytes cs))" "ar_content m = []" "ar_swaps m = swap_none"
    and cs: "list_all call_fits cs"
  shows "\<exists>m1 m2 m3. lua_writes h m cs = Inr m1 \<and> LuaMessage_setMode m1 1 = Inr m2 \<and>
    lua_reads h m2 cs = Inr (m3, map call_value cs)"
proof -
  obtain m1 where m1: "lua_writes h m cs = Inr m1" "puts h m (calls_bytes cs) m1" using script_writes [OF m(1) cs] by blast
  have "LuaMessage_setMode m1 1 = Inr (msg_setMode m1 SM_READ)"
    by (simp add: LuaMessage_setMode_def number_to_int_def number_to_def)
  moreover have "mf_wf (ar_stream m1)" using m1(2) by (simp add: puts_def ar_ok_def del: ar_ok_modes)
  then have "ahead (msg_setMode m1 SM_READ) (calls_bytes cs) []"
    using msg_setMode_ok [of m1 SM_READ] m1(2) m(2,3) by (simp add: ahead_def puts_def)
  moreover have "\<forall>k. can_alloc h k" using m(1) by (simp add: at_end_def mf_room_def)
  ultimately show ?thesis using m1(1) script_reads [OF _ cs] by blast
qed

definition sample_calls :: "lua_call list" where
  "sample_calls = [CallInt (- 7), CallUint16 513, CallBool True, CallString [104, 105], CallLstring8 [0, 255], CallCstringLen [65] 3]"

theorem lua_message_roundtrip_witness:
  "\<exists>m1 m2 m3. lua_writes open_heap message_new_writing sample_calls = Inr m1 \<and> LuaMessage_setMode m1 1 = Inr m2 \<and>
     lua_reads open_heap m2 sample_calls = Inr (m3, [PushNumber (- 7), PushNumber 513, PushBoolean True, PushString [104, 105],
       PushString [0, 255], PushString [65]])"
proof -
  have "ar_swaps message_new_writing = swap_none"
    by (simp add: message_new_writing_def msg_setMode_def ar_Initial_def message_new_def archive.defs lxz_message.defs ar_new_def)
  then show ?thesis
    using lua_message_roundtrip [OF message_new_writing_ok(1) message_new_writing_ok(2), of sample_calls]
    by (simp add: sample_calls_def)
qed

section \<open>Values that do not survive\<close>

text \<open>
  A \<open>uint32\<close> from \<open>2 ^ 31\<close> on comes back negative: both branches push it as an \<open>int\<close>.
\<close>

lemma uint32_reads_negative:
  assumes "ahead m (le_bytes 4 (word_of_int v :: u32)) rest" "2147483648 \<le> v" "v \<le> 4294967295"
  shows "\<exists>m'. LuaMessage_Serial_uint32 h m 0 = Inr (m', PushNumber (v - 4294967296))"
proof -
  have "word_of_int v = (word_of_int (v - 4294967296) :: u32)" by (simp add: word_of_int_eq_iff take_bit_eq_mod)
  moreover have "sint (word_of_int (v - 4294967296) :: u32) = v - 4294967296" by (rule sint_in_range(1)) (use assms(2,3) in simp_all)
  ultimately have "sint (word_of_int v :: u32) = v - 4294967296" by (simp only:)
  with ahead_SerialFunc [of m "le_bytes 4 (word_of_int v :: u32)" "[]" rest 4 "le_bytes 4 (0 :: u32)" h] assms(1) ahead_modes [OF assms(1)]
  show ?thesis by (auto simp: LuaMessage_Serial_uint32_def Serial_u32_def le_word_inverse)
qed

text \<open>
  Reading a 64-bit number prints it into a field of 64 characters and a terminator, one byte more than the buffer has, whatever the number.
\<close>

lemma uint64_read_overruns:
  assumes "ahead m (le_bytes 8 (v :: u64)) rest"
  shows "LuaMessage_Serial_uint64 h m vs = Inl OutOfBounds"
proof -
  have "unat (ucast w :: u32) < 10 ^ 10" for w :: u64 using unsigned_less [of "ucast w :: u32", where ?'a = nat] by simp
  then have "length (show_int (uint (ucast w :: u32))) \<le> 10" for w :: u64
    using dec_digits_length [of "unat (ucast w :: u32)" 10] by (simp add: show_int_def)
  then have "sprintf_padded (malloc_cells h 64) (show_int (uint (ucast w :: u32))) = Inl OutOfBounds" for w :: u64
    by (simp add: sprintf_padded_def mem_write_def le_diff_conv)
  with ahead_SerialFunc [of m "le_bytes 8 v" "[]" rest 8 "le_bytes 8 (0 :: u64)" h] assms ahead_modes [OF assms]
  show ?thesis by (auto simp: LuaMessage_Serial_uint64_def Serial_u64_def)
qed

text \<open>A negative length is a huge one for the stream: the read fails or is out of bounds.\<close>

lemma mf_Read_negative:
  assumes "mf_wf f" "length (mf_content f) < 2147483648" "- 2147483648 \<le> l" "l < 0"
  shows "mf_Read f (size_of_int l) \<in> {Inl OutOfBounds, Inr (f\<lparr>mf_err := ERR_READ\<rparr>, - 1, None)}"
proof -
  let ?b = "mf_buf f"
  obtain cells where c: "fb_buf CACHE ?b = Some cells" "length cells = fb_alloc ?b + 1" "fb_alloc ?b + 1 < SIZE_MOD"
    using assms(1) by (auto simp: mf_wf_def elim: fb_wfE)
  have "l mod int SIZE_MOD = (l + int SIZE_MOD) mod int SIZE_MOD" by simp
  also have "\<dots> = l + int SIZE_MOD" using assms(3,4) by (intro mod_pos_pos_trivial) (simp_all add: SIZE_MOD_def)
  finally have n: "int (size_of_int l) = l + int SIZE_MOD" using assms(3) by (simp add: size_of_int_def SIZE_MOD_def)
  have "mf_pos f < 2147483648" "fb_cplen ?b < 2147483648" using assms(1,2) by (simp_all add: mf_wf_def length_mf_content)
  have "length cells < mf_pos f + size_of_int l" if "size_add (mf_pos f) (size_of_int l) \<le> fb_cplen ?b"
  proof (rule ccontr)
    assume "\<not> length cells < mf_pos f + size_of_int l"
    then have "mf_pos f + size_of_int l < SIZE_MOD" using c by simp
    then show False using that \<open>fb_cplen ?b < 2147483648\<close> n assms(3) by (simp add: size_add_small SIZE_MOD_def)
  qed
  then show ?thesis using c(1) by (auto simp: mf_Read_def fb_load_def mem_read_def)
qed

text \<open>
  C38: Reading a C string with \<open>Serial_cstring\<close>, from a message of less than \<open>2 ^ 31\<close> bytes in host byte order, stores the terminator at the length that the message gives, which nothing checks: when that
  is 256 or more, or negative, the read writes outside its array of 256 bytes.  So the sender of a message can make the reader overrun
  its stack.
\<close>

theorem cstring_terminator_overruns:
  assumes m: "ahead m (le_bytes 4 (l :: u32)) rest" "length (ar_content m) < 2147483648" and l: "255 < sint l \<or> sint l < 0"
  shows "LuaMessage_Serial_cstring h m None = Inl OutOfBounds"
proof -
  obtain m1 where m1: "Serial_int h m 0 = Inr (m1, l)" "gets m (le_bytes 4 l) m1" "ahead m1 [] rest"
    using ahead_Serial_int [of m l "[]" rest h 0] m(1) by auto
  have store: "length str = 256 \<Longrightarrow> store_at str (sint l) 0 = Inl OutOfBounds" for str
    using l by (auto simp: store_at_def mem_write_def)
  show ?thesis
  proof (cases "sint l < 0")
    case True
    have "- 2147483648 \<le> sint l" using sint_ge [of l] by simp
    moreover have "mf_wf (ar_stream m1)" "length (ar_content m1) < 2147483648" "ar_bound m1" "ar_func m1 = Some SM_READ"
      using gets_same [OF m1(2)] m(2) m1(3) by (simp_all add: ahead_def ar_ok_def del: ar_ok_modes)
    ultimately show ?thesis using mf_Read_negative [of "ar_stream m1" "sint l"] True m1(1) ahead_modes [OF m(1)] store
      by (auto simp: LuaMessage_Serial_cstring_def SerialStr_def SerialFunc_def)
  next
    case False
    with m1(1) l ahead_modes [OF m(1)] store show ?thesis
      by (simp add: LuaMessage_Serial_cstring_def SerialStr_def)
  qed
qed

definition long_cstring :: lxz_message where
  "long_cstring = msg_setMode (message_new_writing\<lparr>ar_stream := mf_new\<lparr>mf_buf :=
     \<lparr>fb_heap = None, fb_arr = [0, 1, 0, 0] @ replicate 29 0, fb_cplen = 4, fb_alloc = 32\<rparr>\<rparr>\<rparr>) SM_READ"

theorem cstring_terminator_overruns_witness: "LuaMessage_Serial_cstring open_heap long_cstring None = Inl OutOfBounds"
proof (rule cstring_terminator_overruns [where l = 256 and rest = "[]"])
  let ?s = "mf_new\<lparr>mf_buf := \<lparr>fb_heap = None, fb_arr = [0, 1, 0, 0] @ replicate 29 0, fb_cplen = 4, fb_alloc = 32\<rparr>\<rparr>"
  let ?m = "message_new_writing\<lparr>ar_stream := ?s\<rparr>"
  have s: "mf_wf ?s" "mf_content ?s = [0, 1, 0, 0]"
    by (simp_all add: mf_new_def mf_wf_def fb_wf_def mf_content_def fb_text_def fb_buf_def CACHE_def SIZE_MOD_def)
  have "ar_swaps ?m = swap_none"
    by (simp add: message_new_writing_def msg_setMode_def ar_Initial_def message_new_def archive.defs lxz_message.defs ar_new_def)
  with s msg_setMode_ok [of ?m SM_READ] show "ahead long_cstring (le_bytes 4 (256 :: u32)) []" "length (ar_content long_cstring) < 2147483648"
    by (simp_all add: long_cstring_def ahead_def le_bytes_numeral)
qed simp

end
