(* ===== verification/MessagePool.thy ===== *)
theory MessagePool
  imports Message
begin

text \<open>
  The pool of \<open>lae/source/LuaLXZMessage.cpp\<close> from which scripts get messages and to which \<open>delete\<close> and the garbage collector return
  them, and the results that \<open>setResult\<close> attaches.
\<close>

section \<open>The pool\<close>

text \<open>
  A message in memory, with the result that \<open>setResult\<close> attached to it: the archive's destructor deletes that too.  The address of
  a message is its index; a deleted one stays in the list as \<open>None\<close>.  \<open>mp_id\<close> is the static counter of live messages.  \<open>s_pool_lock\<close>
  makes each use of \<open>s_pool\<close> one step.
\<close>

record msg_object =
  mo_msg :: lxz_message
  mo_result :: "nat option"

record msg_pool =
  mp_heap :: "msg_object option list"
  mp_id :: u32
  s_pool :: "nat list"

definition pool_init :: msg_pool where
  "pool_init = \<lparr>mp_heap = [], mp_id = 0, s_pool = []\<rparr>"

definition object_at :: "msg_object option list \<Rightarrow> nat \<Rightarrow> c_fault + msg_object" where
  "object_at heap p =
     (if p < length heap then (case heap ! p of None \<Rightarrow> Inl UseAfterFree | Some ob \<Rightarrow> Inr ob) else Inl UseAfterFree)"

definition live_count :: "msg_object option list \<Rightarrow> nat" where
  "live_count heap = length (filter (\<lambda>x. x \<noteq> None) heap)"

lemma live_count_update: "p < length heap \<Longrightarrow> heap ! p = Some ob \<Longrightarrow> live_count (heap[p := None]) < live_count heap"
proof (induction heap arbitrary: p)
  case (Cons x heap)
  then show ?case by (cases p) (auto simp: live_count_def)
qed simp

text \<open>\<open>delete\<close>: the message's destructor, then the archive's.\<close>

function delete_message :: "msg_object option list \<Rightarrow> u32 \<Rightarrow> nat \<Rightarrow> c_fault + (msg_object option list \<times> u32)" where
  "delete_message heap i p =
     (case object_at heap p of
        Inl e \<Rightarrow> Inl e
      | Inr ob \<Rightarrow>
          (let i' = snd (message_delete (mo_msg ob) i) in
           case mo_result ob of
             None \<Rightarrow> Inr (heap[p := None], i')
           | Some r \<Rightarrow> delete_message (heap[p := None]) i' r))"
  by pat_completeness auto
termination
  by (relation "measure (\<lambda>(heap, i, p). live_count heap)")
    (auto simp: object_at_def live_count_update split: if_splits option.splits)

declare delete_message.simps [simp del]

text \<open>The common part of \<open>new\<close> and \<open>new_local\<close>: the head of the pool, or a message made for it.\<close>

definition pool_take :: "msg_pool \<Rightarrow> c_fault + (msg_pool \<times> nat)" where
  "pool_take s =
     (let s1 = (if s_pool s = []
                then (case message_new (mp_id s) of (m, i) \<Rightarrow>
                        s\<lparr>mp_heap := mp_heap s @ [Some \<lparr>mo_msg = m, mo_result = None\<rparr>], mp_id := i,
                          s_pool := s_pool s @ [length (mp_heap s)]\<rparr>)
                else s);
          p = hd (s_pool s1); s2 = s1\<lparr>s_pool := tl (s_pool s1)\<rparr> in
      bindE (object_at (mp_heap s2) p) (\<lambda>ob.
        let m = msg_setMode (ReleaseMemory (mo_msg ob)) SM_WRITE in
        Inr (s2\<lparr>mp_heap := (mp_heap s2)[p := Some (ob\<lparr>mo_msg := m\<rparr>)]\<rparr>, p)))"

text \<open>The second result says whether Lua's collector owns the message.\<close>

definition LuaMessage_Serial_new :: "msg_pool \<Rightarrow> c_fault + (msg_pool \<times> nat \<times> bool)" where
  "LuaMessage_Serial_new s = bindE (pool_take s) (\<lambda>(s', p). Inr (s', p, False))"

definition LuaMessage_Serial_new_local :: "msg_pool \<Rightarrow> c_fault + (msg_pool \<times> nat \<times> bool)" where
  "LuaMessage_Serial_new_local s = bindE (pool_take s) (\<lambda>(s', p). Inr (s', p, True))"

definition LuaLXZCLXZMessage_collect :: "msg_pool \<Rightarrow> nat \<Rightarrow> c_fault + msg_pool" where
  "LuaLXZCLXZMessage_collect s pt1 =
     (let q = s_pool s @ [pt1] in
      if length q \<ge> 10
      then bindE (delete_message (mp_heap s) (mp_id s) (hd q)) (\<lambda>(heap, i).
             Inr (s\<lparr>mp_heap := heap, mp_id := i, s_pool := tl q\<rparr>))
      else Inr (s\<lparr>s_pool := q\<rparr>))"

definition LuaMessage_setResult :: "msg_pool \<Rightarrow> nat \<Rightarrow> nat option \<Rightarrow> c_fault + msg_pool" where
  "LuaMessage_setResult s p r =
     bindE (object_at (mp_heap s) p) (\<lambda>ob. Inr (s\<lparr>mp_heap := (mp_heap s)[p := Some (ob\<lparr>mo_result := r\<rparr>)]\<rparr>))"

definition LuaMessage_getResult :: "msg_pool \<Rightarrow> nat \<Rightarrow> c_fault + nat option" where
  "LuaMessage_getResult s p = bindE (object_at (mp_heap s) p) (\<lambda>ob. Inr (mo_result ob))"

section \<open>Disciplined use\<close>

text \<open>
  Runs of the pool in which a script returns a message only while it holds it, and never attaches results: \<open>held\<close> are the messages that
  scripts hold.  What a script does to a message that it holds keeps the message's stream well-formed.
\<close>

inductive pool_run :: "msg_pool \<Rightarrow> nat set \<Rightarrow> bool" where
  start: "pool_run pool_init {}"
| new: "pool_run s held \<Longrightarrow> LuaMessage_Serial_new s = Inr (s', p, gc) \<Longrightarrow> pool_run s' (insert p held)"
| new_local: "pool_run s held \<Longrightarrow> LuaMessage_Serial_new_local s = Inr (s', p, gc) \<Longrightarrow> pool_run s' (insert p held)"
| use: "pool_run s held \<Longrightarrow> p \<in> held \<Longrightarrow> mp_heap s ! p = Some ob \<Longrightarrow> mf_wf (ar_stream m) \<Longrightarrow>
    pool_run (s\<lparr>mp_heap := (mp_heap s)[p := Some (ob\<lparr>mo_msg := m\<rparr>)]\<rparr>) held"
| collect: "pool_run s held \<Longrightarrow> p \<in> held \<Longrightarrow> LuaLXZCLXZMessage_collect s p = Inr s' \<Longrightarrow> pool_run s' (held - {p})"

definition live :: "msg_object option list \<Rightarrow> nat \<Rightarrow> bool" where
  "live heap p \<longleftrightarrow> p < length heap \<and> (\<exists>m. heap ! p = Some \<lparr>mo_msg = m, mo_result = None\<rparr> \<and> mf_wf (ar_stream m))"

definition pool_inv :: "msg_pool \<Rightarrow> nat set \<Rightarrow> bool" where
  "pool_inv s held \<longleftrightarrow> distinct (s_pool s) \<and> set (s_pool s) \<inter> held = {} \<and> length (s_pool s) < 10 \<and>
     (\<forall>p \<in> set (s_pool s) \<union> held. live (mp_heap s) p)"

text \<open>A message fresh from the pool: nothing in it, open for writing at its start.\<close>

definition blank_message :: "lxz_message \<Rightarrow> bool" where
  "blank_message m \<longleftrightarrow> ar_ok SM_WRITE m \<and> ar_content m = [] \<and> ar_pos m = 0"

lemma release_blank:
  assumes "mf_wf (ar_stream m)"
  shows "blank_message (msg_setMode (ReleaseMemory m) SM_WRITE)"
proof -
  have "mf_wf (ar_stream (ReleaseMemory m)) \<and> ar_content (ReleaseMemory m) = []"
    using assms fb_release_wf [of CACHE "mf_buf (ar_stream m)"]
    by (simp add: ReleaseMemory_def mf_Release_def mf_wf_def mf_content_def fb_release_def)
  with msg_setMode_ok [of "ReleaseMemory m" SM_WRITE undefined undefined] show ?thesis by (simp add: blank_message_def)
qed

lemma live_object: "live heap p \<Longrightarrow> \<exists>m. object_at heap p = Inr \<lparr>mo_msg = m, mo_result = None\<rparr> \<and> mf_wf (ar_stream m)"
  by (auto simp: live_def object_at_def)

lemma live_update:
  "live heap q \<Longrightarrow> q \<noteq> p \<Longrightarrow> live (heap[p := x]) q"
  "p < length heap \<Longrightarrow> mf_wf (ar_stream m) \<Longrightarrow> live (heap[p := Some \<lparr>mo_msg = m, mo_result = None\<rparr>]) p"
  by (auto simp: live_def)

lemma pool_take_ok:
  assumes "pool_inv s held"
  shows "\<exists>s' p m. pool_take s = Inr (s', p) \<and> p \<notin> held \<and> pool_inv s' (insert p held) \<and>
    mp_heap s' ! p = Some \<lparr>mo_msg = m, mo_result = None\<rparr> \<and> blank_message m \<and> (\<forall>q \<in> held. mp_heap s' ! q = mp_heap s ! q)"
proof -
  define s1 where "s1 = (if s_pool s = []
      then (case message_new (mp_id s) of (m, i) \<Rightarrow>
        s\<lparr>mp_heap := mp_heap s @ [Some \<lparr>mo_msg = m, mo_result = None\<rparr>], mp_id := i, s_pool := s_pool s @ [length (mp_heap s)]\<rparr>)
      else s)"
  have wf: "mf_wf (ar_stream (fst (message_new i)))" for i using mf_new_wf by (simp add: message_new_stream)
  have "\<forall>q \<in> held. q < length (mp_heap s)" using assms by (auto simp: pool_inv_def live_def)
  moreover have lv: "live (h @ [x]) q" if "live h q" for h x q using that by (auto simp: live_def nth_append)
  moreover have "live (h @ [Some \<lparr>mo_msg = fst (message_new i), mo_result = None\<rparr>]) (length h)" for h i
    using wf by (simp add: live_def)
  ultimately have inv: "pool_inv s1 held" and ne: "s_pool s1 \<noteq> []" and same: "\<forall>q \<in> held. mp_heap s1 ! q = mp_heap s ! q"
    using assms by (auto simp: s1_def pool_inv_def split_def nth_append)
  obtain p ps where p: "s_pool s1 = p # ps" using ne by (cases "s_pool s1") auto
  then have "live (mp_heap s1) p" using inv by (simp add: pool_inv_def)
  then obtain m where m: "object_at (mp_heap s1) p = Inr \<lparr>mo_msg = m, mo_result = None\<rparr>" "mf_wf (ar_stream m)" "p < length (mp_heap s1)"
    using live_object live_def by blast
  let ?m = "msg_setMode (ReleaseMemory m) SM_WRITE"
  let ?s = "s1\<lparr>s_pool := ps, mp_heap := (mp_heap s1)[p := Some \<lparr>mo_msg = ?m, mo_result = None\<rparr>]\<rparr>"
  have t: "pool_take s = Inr (?s, p)" unfolding pool_take_def s1_def [symmetric] using m(1) p by (simp add: Let_def)
  have b: "blank_message ?m" by (rule release_blank [OF m(2)])
  then have "mf_wf (ar_stream ?m)" by (simp add: blank_message_def ar_ok_def del: ar_ok_modes)
  then have "pool_inv ?s (insert p held)" "p \<notin> held"
    using inv p m(3) by (auto simp: pool_inv_def intro: live_update)
  moreover from this(2) have "h[p := x] ! q = h ! q" if "q \<in> held" for h :: "msg_object option list" and x q using that by (metis nth_list_update_neq)
  ultimately show ?thesis using t b same m(3) by (auto intro!: exI [of _ ?s])
qed

lemma collect_ok:
  assumes "pool_inv s held" "p \<in> held"
  shows "\<exists>s'. LuaLXZCLXZMessage_collect s p = Inr s' \<and> pool_inv s' (held - {p}) \<and> (\<forall>q \<in> held - {p}. mp_heap s' ! q = mp_heap s ! q)"
proof (cases "length (s_pool s @ [p]) \<ge> 10")
  case True
  then obtain q qs where q: "s_pool s = q # qs" using assms(1) by (cases "s_pool s") auto
  then obtain m where m: "object_at (mp_heap s) q = Inr \<lparr>mo_msg = m, mo_result = None\<rparr>"
    using assms(1) live_object by (fastforce simp: pool_inv_def)
  have "q \<notin> held" "q \<notin> set qs" "length qs < 9" using assms(1) q by (auto simp: pool_inv_def)
  moreover from this(1) have "h[q := x] ! r = h ! r" if "r \<in> held" for h :: "msg_object option list" and x r
    using that by (metis nth_list_update_neq)
  ultimately show ?thesis using True q m assms
    by (auto simp: LuaLXZCLXZMessage_collect_def delete_message.simps [of _ _ q] Let_def pool_inv_def intro!: live_update)
next
  case False
  with assms show ?thesis by (auto simp: LuaLXZCLXZMessage_collect_def pool_inv_def)
qed

lemma pool_run_inv: "pool_run s held \<Longrightarrow> pool_inv s held"
proof (induction rule: pool_run.induct)
  case start
  then show ?case by (simp add: pool_inv_def pool_init_def)
next
  case (new s held s' p gc)
  with pool_take_ok [of s held] show ?case by (auto simp: LuaMessage_Serial_new_def)
next
  case (new_local s held s' p gc)
  with pool_take_ok [of s held] show ?case by (auto simp: LuaMessage_Serial_new_local_def)
next
  case (use s held p ob m)
  then have "live (mp_heap s) p" by (simp add: pool_inv_def)
  with use(3) have "ob\<lparr>mo_msg := m\<rparr> = \<lparr>mo_msg = m, mo_result = None\<rparr>" "p < length (mp_heap s)" by (auto simp: live_def)
  then have "live ((mp_heap s)[p := Some (ob\<lparr>mo_msg := m\<rparr>)]) q" if "live (mp_heap s) q" for q
    using use(4) that live_update by (cases "q = p") auto
  with use show ?case by (simp add: pool_inv_def)
next
  case (collect s held p s')
  with collect_ok [of s held p] show ?case by auto
qed

text \<open>
  C16: When scripts return only messages that they hold and never attach a result to one with \<open>setResult\<close>, and whatever else they do to a
  message that they hold leaves its stream well formed, making a message never fails: \<open>new\<close> gives one that no script holds, empty and
  open for writing, and leaves the messages in use as they are; \<open>delete\<close> of a message that is held always succeeds, and the
  pool keeps fewer than ten messages.
\<close>

theorem pool_hands_out_unused:
  assumes "pool_run s held"
  shows "(\<exists>s' p m. LuaMessage_Serial_new s = Inr (s', p, False) \<and> LuaMessage_Serial_new_local s = Inr (s', p, True) \<and> p \<notin> held \<and>
      mp_heap s' ! p = Some \<lparr>mo_msg = m, mo_result = None\<rparr> \<and> blank_message m \<and> (\<forall>q \<in> held. mp_heap s' ! q = mp_heap s ! q)) \<and>
    (\<forall>p \<in> held. \<exists>s'. LuaLXZCLXZMessage_collect s p = Inr s' \<and> length (s_pool s') < 10 \<and>
      (\<forall>q \<in> held - {p}. mp_heap s' ! q = mp_heap s ! q))"
proof (intro conjI ballI)
  note inv = pool_run_inv [OF assms]
  from pool_take_ok [OF inv] show "\<exists>s' p m. LuaMessage_Serial_new s = Inr (s', p, False) \<and>
      LuaMessage_Serial_new_local s = Inr (s', p, True) \<and> p \<notin> held \<and> mp_heap s' ! p = Some \<lparr>mo_msg = m, mo_result = None\<rparr> \<and>
      blank_message m \<and> (\<forall>q \<in> held. mp_heap s' ! q = mp_heap s ! q)"
    by (auto simp: LuaMessage_Serial_new_def LuaMessage_Serial_new_local_def)
  fix p assume "p \<in> held"
  from collect_ok [OF inv this] show "\<exists>s'. LuaLXZCLXZMessage_collect s p = Inr s' \<and> length (s_pool s') < 10 \<and>
      (\<forall>q \<in> held - {p}. mp_heap s' ! q = mp_heap s ! q)"
    by (auto simp: pool_inv_def)
qed

theorem pool_hands_out_unused_witness:
  "\<exists>s1 s2 s3 p q m. LuaMessage_Serial_new pool_init = Inr (s1, p, False) \<and> LuaMessage_Serial_new_local s1 = Inr (s2, q, True) \<and>
     q \<noteq> p \<and> mp_heap s2 ! q = Some \<lparr>mo_msg = m, mo_result = None\<rparr> \<and> blank_message m \<and> LuaLXZCLXZMessage_collect s1 p = Inr s3"
proof -
  obtain s1 p where 1: "LuaMessage_Serial_new pool_init = Inr (s1, p, False)"
    using pool_hands_out_unused [OF pool_run.start] by blast
  have "pool_run s1 {p}" using pool_run.new [OF pool_run.start 1] .
  from pool_hands_out_unused [OF this] 1 show ?thesis by fastforce
qed

section \<open>Misuse\<close>

text \<open>
  A message from the pool keeps everything of its former owner but the bytes: the byte order, the table of addresses, the
  application's data and the attached result.
\<close>

theorem recycled_keeps_settings:
  assumes "s_pool s = p # ps" "object_at (mp_heap s) p = Inr ob"
  shows "\<exists>s' ob'. LuaMessage_Serial_new s = Inr (s', p, False) \<and> object_at (mp_heap s') p = Inr ob' \<and>
    ar_swaps (mo_msg ob') = ar_swaps (mo_msg ob) \<and> ar_addr (mo_msg ob') = ar_addr (mo_msg ob) \<and>
    ar_index (mo_msg ob') = ar_index (mo_msg ob) \<and> msg_data (mo_msg ob') = msg_data (mo_msg ob) \<and>
    msg_app (mo_msg ob') = msg_app (mo_msg ob) \<and> mo_result ob' = mo_result ob"
proof -
  have "p < length (mp_heap s)" using assms(2) by (auto simp: object_at_def split: if_splits)
  with assms show ?thesis
    by (simp add: LuaMessage_Serial_new_def pool_take_def object_at_def msg_setMode_def ar_Initial_def ReleaseMemory_def)
qed

definition used_pool :: msg_pool where
  "used_pool = \<lparr>mp_heap = [Some \<lparr>mo_msg = SetLittleEndian message_new_writing False, mo_result = None\<rparr>], mp_id = 1, s_pool = [0]\<rparr>"

theorem recycled_keeps_settings_witness:
  "\<exists>s' ob'. LuaMessage_Serial_new used_pool = Inr (s', 0, False) \<and> object_at (mp_heap s') 0 = Inr ob' \<and>
     ar_swaps (mo_msg ob') = swap_all"
  using recycled_keeps_settings [of used_pool 0 "[]"] by (auto simp: used_pool_def object_at_def SetLittleEndian_swaps)

text \<open>
  C39: Returning a message twice while the pool is empty, as \<open>delete\<close> and then the garbage collector do for a message of \<open>new_local\<close>, puts it
  into the pool twice: the next two messages that scripts ask for are one and the same.
\<close>

theorem double_delete_shares:
  assumes "pool_run s held" "p \<in> held" "s_pool s = []"
  shows "\<exists>s1 s2 s3 s4. LuaLXZCLXZMessage_collect s p = Inr s1 \<and> LuaLXZCLXZMessage_collect s1 p = Inr s2 \<and>
    LuaMessage_Serial_new s2 = Inr (s3, p, False) \<and> LuaMessage_Serial_new s3 = Inr (s4, p, False)"
proof -
  have "live (mp_heap s) p" using pool_run_inv [OF assms(1)] assms(2) by (simp add: pool_inv_def)
  with assms(3) show ?thesis
    by (auto simp: LuaLXZCLXZMessage_collect_def LuaMessage_Serial_new_def pool_take_def object_at_def live_def Let_def)
qed

theorem double_delete_shares_witness:
  "\<exists>s p s1 s2 s3 s4. LuaMessage_Serial_new pool_init = Inr (s, p, False) \<and> LuaLXZCLXZMessage_collect s p = Inr s1 \<and>
     LuaLXZCLXZMessage_collect s1 p = Inr s2 \<and> LuaMessage_Serial_new s2 = Inr (s3, p, False) \<and>
     LuaMessage_Serial_new s3 = Inr (s4, p, False)"
proof -
  obtain s where s: "LuaMessage_Serial_new pool_init = Inr (s, 0, False)" "s_pool s = []"
    by (auto simp: LuaMessage_Serial_new_def pool_take_def pool_init_def object_at_def split_def Let_def)
  from double_delete_shares [OF pool_run.new [OF pool_run.start s(1)] _ s(2)] s(1) show ?thesis by blast
qed

text \<open>
  A result attached to a message is deleted with the message.  When the script has also returned the result to the pool, the
  pool is left with a deleted message at its head, and the next \<open>new\<close> uses it.
\<close>

theorem attached_result_dangles:
  assumes "s_pool s = p # r # ps" "length ps = 7" "r \<noteq> p"
    and "object_at (mp_heap s) p = Inr ob" "mo_result ob = Some r"
    and "object_at (mp_heap s) r = Inr res" "mo_result res = None"
  shows "\<exists>s'. LuaLXZCLXZMessage_collect s x = Inr s' \<and> LuaMessage_Serial_new s' = Inl UseAfterFree"
proof -
  have "object_at ((mp_heap s)[p := None]) r = Inr res" "r < length (mp_heap s)"
    using assms(3,6) by (auto simp: object_at_def split: if_splits)
  with assms show ?thesis
    by (simp add: LuaLXZCLXZMessage_collect_def delete_message.simps [of _ _ p] delete_message.simps [of _ _ r] Let_def
        LuaMessage_Serial_new_def pool_take_def object_at_def [of _ r])
qed

definition full_pool :: msg_pool where
  "full_pool = \<lparr>mp_heap = Some \<lparr>mo_msg = message_new_writing, mo_result = Some 1\<rparr> #
     replicate 9 (Some \<lparr>mo_msg = message_new_writing, mo_result = None\<rparr>), mp_id = 10, s_pool = [0..<9]\<rparr>"

theorem attached_result_dangles_witness:
  "\<exists>s'. LuaLXZCLXZMessage_collect full_pool 9 = Inr s' \<and> LuaMessage_Serial_new s' = Inl UseAfterFree"
  by (rule attached_result_dangles [where p = 0 and r = 1 and ps = "[2..<9]" and
        ob = "\<lparr>mo_msg = message_new_writing, mo_result = Some 1\<rparr>" and res = "\<lparr>mo_msg = message_new_writing, mo_result = None\<rparr>"])
    (simp_all add: full_pool_def object_at_def upt_rec [of 0] upt_rec [of "Suc 0"] numeral_2_eq_2)

end
