(* ===== verification/LuaThreads.thy ===== *)
theory LuaThreads
  imports Message "HOL-Library.Multiset"
begin

text \<open>
  The worker threads of \<open>LuaThread.cpp\<close> and \<open>LuaThreadMgr.cpp\<close>: the main thread posts Lua code to a
  worker's queue, the worker runs it and hands tasks that have a waiting coroutine back through a
  shared queue, and the main thread resumes the coroutines.  Each section between two lock
  operations, or around one semaphore operation, is one step of a relation, so that its reachable
  states are all interleavings.  What the Lua interpreter does with the posted code and with a
  resumed coroutine is not determined: the steps take it as an argument that may be anything.
\<close>

section \<open>State\<close>

text \<open>A task is designated by its number in the order of creation, which stands for its address.\<close>

type_synonym task_id = nat

record lua_task =
  lt_main :: nat
  lt_cmdbuf :: fastbuf
  lt_retbuf :: fastbuf
  lt_co :: "nat option"
  lt_time :: u32
  lt_ref :: int
  lt_ok :: bool
  lt_user_ret :: bool

definition TASKBUF :: nat where
  "TASKBUF = 128"

text \<open>
  Where a worker is in \<open>WorkProc\<close>: before \<open>Initialize\<close>, at the top of the loop, in \<open>Wait\<close>, with a task
  taken, with its result stored, about to call \<open>user_trigger\<close>, or out of the loop.
\<close>

datatype worker_pc = Starting | Top | Waiting | Running task_id | Finished task_id | Triggering | Stopped

text \<open>\<open>wk_sem\<close> is the counter of the semaphore, \<open>None\<close> while \<open>pSem\<close> is null.\<close>

record worker =
  wk_id :: nat
  wk_max :: nat
  wk_now :: "task_id option"
  wk_sem :: "nat option"
  wk_tasks :: "task_id list"
  wk_pc :: worker_pc

text \<open>Where the main thread is in \<open>PostTask\<close>: between its two critical sections, or before \<open>SetEvent\<close>.\<close>

datatype post_pc = NotPosting | Checked nat "byte list" "nat option" nat | Pushed nat

text \<open>
  The tasks, the workers in the order of \<open>_pools\<close>, the queue \<open>_poolsRet\<close>, the list that \<open>Update\<close> works
  on with a mark for a first task already resumed, whether the user event is pending, and the record
  of the resumed coroutines with what they were given.
\<close>

record threads =
  th_heap :: "task_id \<rightharpoonup> lua_task"
  th_next :: task_id
  th_pools :: "worker list"
  th_ret :: "task_id list"
  th_upd :: "task_id list"
  th_resumed :: bool
  th_trigger :: bool
  th_post :: post_pc
  th_log :: "(task_id \<times> nat \<times> bool \<times> byte list) list"

definition mgr_new :: threads where
  "mgr_new = \<lparr>th_heap = Map.empty, th_next = 0, th_pools = [], th_ret = [], th_upd = [], th_resumed = False,
     th_trigger = False, th_post = NotPosting, th_log = []\<rparr>"

section \<open>Operations of the main thread\<close>

definition thread_new :: worker where
  "thread_new = \<lparr>wk_id = 18446744073709551615, wk_max = 10000, wk_now = None, wk_sem = None, wk_tasks = [], wk_pc = Starting\<rparr>"

fun find_thread :: "worker list \<Rightarrow> nat \<Rightarrow> nat \<Rightarrow> nat option" where
  "find_thread [] threadid i = None"
| "find_thread (w # ws) threadid i = (if wk_id w = threadid then Some i else find_thread ws threadid (i + 1))"

definition GetThread :: "threads \<Rightarrow> nat \<Rightarrow> bool \<Rightarrow> threads \<times> nat option" where
  "GetThread s threadid create =
     (case find_thread (th_pools s) threadid 0 of
        Some i \<Rightarrow> (s, Some i)
      | None \<Rightarrow>
          if \<not> create then (s, None)
          else (s\<lparr>th_pools := th_pools s @ [thread_new\<lparr>wk_id := threadid\<rparr>]\<rparr>, Some (length (th_pools s))))"

definition set_worker :: "threads \<Rightarrow> nat \<Rightarrow> worker \<Rightarrow> threads" where
  "set_worker s i w = s\<lparr>th_pools := (th_pools s)[i := w]\<rparr>"

definition SetMaxTask :: "threads \<Rightarrow> nat \<Rightarrow> nat \<Rightarrow> threads \<times> nat" where
  "SetMaxTask s i max_tasks =
     (set_worker s i ((th_pools s ! i)\<lparr>wk_max := max_tasks\<rparr>), wk_max (th_pools s ! i))"

definition GetTaskCount :: "threads \<Rightarrow> nat \<Rightarrow> nat" where
  "GetTaskCount s i = length (wk_tasks (th_pools s ! i))"

text \<open>\<open>PostTask\<close> up to the test of the limit, with its result when the queue is full.\<close>

definition post_check :: "threads \<Rightarrow> nat \<Rightarrow> byte list \<Rightarrow> nat option \<Rightarrow> nat \<Rightarrow> threads \<times> nat option" where
  "post_check s i code co main =
     (let size_tasks = GetTaskCount s i in
      if size_tasks \<ge> wk_max (th_pools s ! i) then (s, Some size_tasks)
      else (s\<lparr>th_post := Checked i code co main\<rparr>, None))"

text \<open>The new task; \<open>user_ret\<close> is not initialised here.  \<open>tick\<close> and \<open>ref\<close> come from the system and from Lua.\<close>

definition task_new :: "c_heap \<Rightarrow> byte list \<Rightarrow> nat option \<Rightarrow> nat \<Rightarrow> u32 \<Rightarrow> int \<Rightarrow> c_fault + lua_task" where
  "task_new h code co main tick ref =
     bindE (fb_grow h TASKBUF (fb_new TASKBUF) (size_add (length code) 1)) (\<lambda>b1.
     bindE (fb_store TASKBUF b1 0 code) (\<lambda>b2.
     bindE (fb_setcplen TASKBUF b2 (length code)) (\<lambda>b3.
       Inr \<lparr>lt_main = main, lt_cmdbuf = b3, lt_retbuf = fb_new TASKBUF, lt_co = co, lt_time = tick,
            lt_ref = (if co = None then - 1 else ref), lt_ok = False, lt_user_ret = (indeterminate h \<noteq> 0)\<rparr>)))"

definition post_push :: "c_heap \<Rightarrow> threads \<Rightarrow> u32 \<Rightarrow> int \<Rightarrow> c_fault + threads" where
  "post_push h s tick ref =
     (case th_post s of
        Checked i code co main \<Rightarrow>
          bindE (task_new h code co main tick ref) (\<lambda>t.
            let a = th_next s; w = th_pools s ! i in
            Inr (set_worker (s\<lparr>th_heap := (th_heap s)(a \<mapsto> t), th_next := a + 1, th_post := Pushed i\<rparr>) i
                   (w\<lparr>wk_tasks := wk_tasks w @ [a]\<rparr>)))
      | _ \<Rightarrow> Inr s)"

text \<open>\<open>SetEvent\<close> posts the semaphore once the worker has created it.\<close>

definition post_event :: "threads \<Rightarrow> threads" where
  "post_event s =
     (case th_post s of
        Pushed i \<Rightarrow>
          let w = th_pools s ! i in
          set_worker (s\<lparr>th_post := NotPosting\<rparr>) i (w\<lparr>wk_sem := map_option Suc (wk_sem w)\<rparr>)
      | _ \<Rightarrow> s)"

text \<open>The whole of \<open>PostTask\<close>, uninterrupted.\<close>

definition PostTask ::
  "c_heap \<Rightarrow> threads \<Rightarrow> nat \<Rightarrow> byte list \<Rightarrow> nat option \<Rightarrow> nat \<Rightarrow> u32 \<Rightarrow> int \<Rightarrow> c_fault + (threads \<times> nat)" where
  "PostTask h s i code co main tick ref =
     (case post_check s i code co main of
        (s', Some r) \<Rightarrow> Inr (s', r)
      | (s', None) \<Rightarrow> bindE (post_push h s' tick ref) (\<lambda>s''. Inr (post_event s'', GetTaskCount s i)))"

section \<open>Operations of a worker\<close>

text \<open>\<open>Initialize\<close>: \<open>ok\<close> tells whether \<open>sem_init\<close> succeeds.\<close>

definition work_init :: "threads \<Rightarrow> nat \<Rightarrow> bool \<Rightarrow> threads" where
  "work_init s i ok =
     (let w = th_pools s ! i in
      set_worker s i (w\<lparr>wk_sem := (if ok then Some 0 else None), wk_pc := Top\<rparr>))"

definition work_take :: "threads \<Rightarrow> nat \<Rightarrow> threads" where
  "work_take s i =
     (let w = th_pools s ! i in
      case wk_tasks w of
        [] \<Rightarrow> set_worker s i (w\<lparr>wk_pc := Waiting\<rparr>)
      | a # as \<Rightarrow> set_worker s i (w\<lparr>wk_tasks := as, wk_pc := Running a\<rparr>))"

text \<open>
  \<open>Wait\<close> returns when the counter is positive, fails when the semaphore was never created or when
  \<open>sem_wait\<close> is interrupted (\<open>interrupted\<close>), and blocks otherwise.
\<close>

definition work_wait :: "threads \<Rightarrow> nat \<Rightarrow> bool \<Rightarrow> threads option" where
  "work_wait s i interrupted =
     (let w = th_pools s ! i in
      case wk_sem w of
        None \<Rightarrow> Some (set_worker s i (w\<lparr>wk_pc := Stopped\<rparr>))
      | Some n \<Rightarrow>
          if interrupted then Some (set_worker s i (w\<lparr>wk_pc := Stopped\<rparr>))
          else case n of
            0 \<Rightarrow> None
          | Suc k \<Rightarrow> Some (set_worker s i (w\<lparr>wk_sem := Some k, wk_pc := Top\<rparr>)))"

text \<open>
  What running the code came to: the argument of a call of \<open>SetUserResult\<close> if there was one, the
  status, and the string on top of the stack, \<open>None\<close> when there is no string.
\<close>

record run_result =
  rr_user :: "byte list option"
  rr_status :: int
  rr_top :: "byte list option"

text \<open>\<open>SetUserResult\<close> on the current task: the buffer receives the bytes, its length is not set.\<close>

definition SetUserResult :: "c_heap \<Rightarrow> lua_task \<Rightarrow> byte list \<Rightarrow> c_fault + lua_task" where
  "SetUserResult h t code =
     bindE (fb_grow h TASKBUF (lt_retbuf t) (length code)) (\<lambda>b1.
     bindE (fb_store TASKBUF b1 0 code) (\<lambda>b2.
       Inr (t\<lparr>lt_retbuf := b2, lt_user_ret := True\<rparr>)))"

definition store_result :: "c_heap \<Rightarrow> lua_task \<Rightarrow> byte list \<Rightarrow> c_fault + lua_task" where
  "store_result h t szRet =
     bindE (fb_grow h TASKBUF (lt_retbuf t) (size_add (length szRet) 1)) (\<lambda>b1.
     bindE (fb_store TASKBUF b1 0 szRet) (\<lambda>b2.
     bindE (fb_store TASKBUF b2 (length szRet) [0]) (\<lambda>b3.
     bindE (fb_setcplen TASKBUF b3 (length szRet)) (\<lambda>b4.
       Inr (t\<lparr>lt_retbuf := b4\<rparr>)))))"

text \<open>An error object that is no string makes \<open>luaL_checklstring\<close> raise outside any protected call.\<close>

definition run_task :: "c_heap \<Rightarrow> lua_task \<Rightarrow> run_result \<Rightarrow> c_fault + lua_task" where
  "run_task h t r =
     bindE (case rr_user r of
              None \<Rightarrow> Inr (t\<lparr>lt_user_ret := False\<rparr>)
            | Some code \<Rightarrow> SetUserResult h (t\<lparr>lt_user_ret := False\<rparr>) code) (\<lambda>t1.
       if lt_user_ret t1 then Inr (t1\<lparr>lt_ok := False\<rparr>)
       else if rr_status r \<noteq> 0 then
         (case rr_top r of
            None \<Rightarrow> Inl (Die ''PANIC: unprotected error in call to Lua API'')
          | Some szRet \<Rightarrow> bindE (store_result h t1 szRet) (\<lambda>t2. Inr (t2\<lparr>lt_ok := False\<rparr>)))
       else
         (case (lt_co t1, rr_top r) of
            (Some _, Some szRet) \<Rightarrow> store_result h (t1\<lparr>lt_ok := True\<rparr>) szRet
          | _ \<Rightarrow> Inr (t1\<lparr>lt_ok := True\<rparr>)))"

definition work_run :: "c_heap \<Rightarrow> threads \<Rightarrow> nat \<Rightarrow> run_result \<Rightarrow> c_fault + threads" where
  "work_run h s i r =
     (let w = th_pools s ! i in
      case wk_pc w of
        Running a \<Rightarrow>
          (case th_heap s a of
             None \<Rightarrow> Inl NullDeref
           | Some t \<Rightarrow>
               bindE (run_task h t r) (\<lambda>t'.
                 Inr (set_worker (s\<lparr>th_heap := (th_heap s)(a \<mapsto> t')\<rparr>) i
                        (w\<lparr>wk_now := Some a, wk_pc := Finished a\<rparr>))))
      | _ \<Rightarrow> Inr s)"

definition PostTaskReturn :: "threads \<Rightarrow> task_id \<Rightarrow> threads" where
  "PostTaskReturn s a = s\<lparr>th_ret := th_ret s @ [a]\<rparr>"

definition work_finish :: "threads \<Rightarrow> nat \<Rightarrow> c_fault + threads" where
  "work_finish s i =
     (let w = th_pools s ! i in
      case wk_pc w of
        Finished a \<Rightarrow>
          (case th_heap s a of
             None \<Rightarrow> Inl NullDeref
           | Some t \<Rightarrow>
               let s' = (if lt_co t \<noteq> None then PostTaskReturn s a else s\<lparr>th_heap := (th_heap s)(a := None)\<rparr>)
               in Inr (set_worker s' i (w\<lparr>wk_pc := Triggering\<rparr>)))
      | _ \<Rightarrow> Inr s)"

definition work_trigger :: "threads \<Rightarrow> nat \<Rightarrow> threads" where
  "work_trigger s i = set_worker (s\<lparr>th_trigger := True\<rparr>) i ((th_pools s ! i)\<lparr>wk_pc := Top\<rparr>)"

section \<open>Update\<close>

text \<open>The callback of the user event takes all returned tasks at once.\<close>

definition upd_swap :: "threads \<Rightarrow> threads" where
  "upd_swap s = s\<lparr>th_trigger := False, th_upd := th_ret s, th_ret := []\<rparr>"

text \<open>
  The first task of the list: \<open>yielded\<close> is \<open>lua_status(co) == LUA_YIELD\<close>, \<open>status\<close> and \<open>msg\<close> are what
  \<open>lua_resume\<close> and \<open>lua_tostring\<close> return; LUA_YIELD is 1.  An error message is printed into 256 bytes.
\<close>

definition upd_resume :: "threads \<Rightarrow> bool \<Rightarrow> int \<Rightarrow> byte list option \<Rightarrow> c_fault + threads" where
  "upd_resume s yielded status msg =
     (case th_upd s of
        [] \<Rightarrow> Inr s
      | a # _ \<Rightarrow>
          (case th_heap s a of
             None \<Rightarrow> Inl NullDeref
           | Some t \<Rightarrow>
               (case lt_co t of
                  None \<Rightarrow> Inr (s\<lparr>th_resumed := True\<rparr>)
                | Some co \<Rightarrow>
                    if yielded then
                      bindE (fb_load TASKBUF (lt_retbuf t) 0 (fb_cplen (lt_retbuf t))) (\<lambda>ret.
                      bindE (if status \<noteq> 1 \<and> status \<noteq> 0
                             then (case msg of
                                     None \<Rightarrow> Inl NullDeref
                                   | Some m \<Rightarrow> mem_write (replicate 256 0) 0 (bytes ''ERROR: '' @ m @ [0]))
                             else Inr []) (\<lambda>_.
                        Inr (s\<lparr>th_resumed := True, th_log := th_log s @ [(a, co, lt_ok t, ret)]\<rparr>)))
                    else Inr (s\<lparr>th_resumed := True\<rparr>))))"

definition upd_delete :: "threads \<Rightarrow> threads" where
  "upd_delete s =
     (case th_upd s of
        [] \<Rightarrow> s
      | a # as \<Rightarrow> s\<lparr>th_heap := (th_heap s)(a := None), th_upd := as, th_resumed := False\<rparr>)"

section \<open>Interleavings\<close>

text \<open>
  One step of one thread.  The main thread is the only one that posts, creates workers and runs
  \<open>Update\<close>; a resumed coroutine may post, so posting steps may come between the resumption of a
  task and its deletion.
\<close>

inductive lt_step :: "c_heap \<Rightarrow> threads \<Rightarrow> threads \<Rightarrow> bool" for h where
  get_thread: "th_post s = NotPosting \<Longrightarrow> lt_step h s (fst (GetThread s threadid create))"
| set_max: "th_post s = NotPosting \<Longrightarrow> i < length (th_pools s) \<Longrightarrow> lt_step h s (fst (SetMaxTask s i n))"
| check: "th_post s = NotPosting \<Longrightarrow> i < length (th_pools s) \<Longrightarrow> lt_step h s (fst (post_check s i code co main))"
| push: "th_post s = Checked i code co main \<Longrightarrow> post_push h s tick ref = Inr s' \<Longrightarrow> lt_step h s s'"
| event: "th_post s = Pushed i \<Longrightarrow> lt_step h s (post_event s)"
| init: "i < length (th_pools s) \<Longrightarrow> wk_pc (th_pools s ! i) = Starting \<Longrightarrow> lt_step h s (work_init s i ok)"
| take: "i < length (th_pools s) \<Longrightarrow> wk_pc (th_pools s ! i) = Top \<Longrightarrow> lt_step h s (work_take s i)"
| wait: "i < length (th_pools s) \<Longrightarrow> wk_pc (th_pools s ! i) = Waiting \<Longrightarrow> work_wait s i interrupted = Some s' \<Longrightarrow> lt_step h s s'"
| run: "i < length (th_pools s) \<Longrightarrow> wk_pc (th_pools s ! i) = Running a \<Longrightarrow> work_run h s i r = Inr s' \<Longrightarrow> lt_step h s s'"
| finish: "i < length (th_pools s) \<Longrightarrow> wk_pc (th_pools s ! i) = Finished a \<Longrightarrow> work_finish s i = Inr s' \<Longrightarrow> lt_step h s s'"
| trigger: "i < length (th_pools s) \<Longrightarrow> wk_pc (th_pools s ! i) = Triggering \<Longrightarrow> lt_step h s (work_trigger s i)"
| swap: "th_post s = NotPosting \<Longrightarrow> th_upd s = [] \<Longrightarrow> th_trigger s \<Longrightarrow> lt_step h s (upd_swap s)"
| resume: "th_post s = NotPosting \<Longrightarrow> th_upd s \<noteq> [] \<Longrightarrow> \<not> th_resumed s \<Longrightarrow> upd_resume s yielded status msg = Inr s' \<Longrightarrow> lt_step h s s'"
| delete: "th_post s = NotPosting \<Longrightarrow> th_upd s \<noteq> [] \<Longrightarrow> th_resumed s \<Longrightarrow> lt_step h s (upd_delete s)"

definition lt_reachable :: "c_heap \<Rightarrow> threads \<Rightarrow> bool" where
  "lt_reachable h s \<longleftrightarrow> (lt_step h)\<^sup>*\<^sup>* mgr_new s"

lemma lt_reachable_induct [consumes 1, case_names new step]:
  assumes "lt_reachable h s" "P mgr_new" "\<And>s s'. lt_reachable h s \<Longrightarrow> P s \<Longrightarrow> lt_step h s s' \<Longrightarrow> P s'"
  shows "P s"
  using assms(1) unfolding lt_reachable_def
proof (induction rule: rtranclp_induct)
  case (step s s')
  then show ?case using assms(3) by (simp add: lt_reachable_def)
qed (rule assms(2))

section \<open>Every task is in one place\<close>

definition held :: "worker \<Rightarrow> task_id list" where
  "held w = (case wk_pc w of Running a \<Rightarrow> [a] | Finished a \<Rightarrow> [a] | _ \<Rightarrow> [])"

definition worker_tasks :: "worker \<Rightarrow> task_id list" where
  "worker_tasks w = held w @ wk_tasks w"

definition placed :: "threads \<Rightarrow> task_id multiset" where
  "placed s = mset (concat (map worker_tasks (th_pools s))) + mset (th_ret s) + mset (th_upd s)"

text \<open>
  The tasks in existence are exactly those in a queue, in a worker's hands, among the returned tasks
  or in \<open>Update\<close>'s list, each in one place and once.
\<close>

definition owned :: "threads \<Rightarrow> bool" where
  "owned s \<longleftrightarrow> finite (dom (th_heap s)) \<and> placed s = mset_set (dom (th_heap s)) \<and> (\<forall>a\<in>dom (th_heap s). a < th_next s)"

lemma mset_concat_update:
  "i < length ws \<Longrightarrow> mset (concat (map f (ws[i := w]))) + mset (f (ws ! i)) = mset (concat (map f ws)) + mset (f w)"
proof (induction ws arbitrary: i)
  case (Cons v ws)
  then show ?case by (cases i) (auto simp: ac_simps)
qed simp

lemma placed_set_worker:
  assumes "i < length (th_pools s)"
  shows "placed (set_worker s i w) + mset (worker_tasks (th_pools s ! i)) = placed s + mset (worker_tasks w)"
  using mset_concat_update [OF assms, of worker_tasks w] by (simp add: placed_def set_worker_def ac_simps)

lemma placed_worker_same:
  "i < length (th_pools s) \<Longrightarrow> mset (worker_tasks w) = mset (worker_tasks (th_pools s ! i)) \<Longrightarrow>
     placed (set_worker s i w) = placed s"
  using placed_set_worker [of i s w] by simp

lemma owned_move:
  "owned s \<Longrightarrow> placed s' = placed s \<Longrightarrow> dom (th_heap s') = dom (th_heap s) \<Longrightarrow> th_next s \<le> th_next s' \<Longrightarrow> owned s'"
  by (auto simp: owned_def intro: less_le_trans)

lemma set_worker_simps [simp]:
  "th_heap (set_worker s i w) = th_heap s" "th_next (set_worker s i w) = th_next s" "th_ret (set_worker s i w) = th_ret s"
  "th_upd (set_worker s i w) = th_upd s" "th_post (set_worker s i w) = th_post s" "th_trigger (set_worker s i w) = th_trigger s"
  "th_resumed (set_worker s i w) = th_resumed s" "th_log (set_worker s i w) = th_log s"
  "th_pools (set_worker s i w) = (th_pools s)[i := w]"
  by (simp_all add: set_worker_def)

lemma placed_cong: "th_pools s' = th_pools s \<Longrightarrow> th_ret s' = th_ret s \<Longrightarrow> th_upd s' = th_upd s \<Longrightarrow> placed s' = placed s"
  by (simp add: placed_def)

lemma owned_add:
  assumes "owned s" "placed s' = add_mset (th_next s) (placed s)" "th_heap s' = (th_heap s)(th_next s \<mapsto> t)"
    "th_next s' = th_next s + 1"
  shows "owned s'"
proof -
  have "th_next s \<notin> dom (th_heap s)" using assms(1) by (auto simp: owned_def)
  with assms show ?thesis by (auto simp: owned_def less_Suc_eq simp del: mset_set_empty_iff)
qed

lemma owned_remove:
  assumes "owned s" "placed s = add_mset a (placed s')" "th_heap s' = (th_heap s)(a := None)" "th_next s' = th_next s"
  shows "owned s'"
proof -
  have fin: "finite (dom (th_heap s))" using assms(1) by (simp add: owned_def)
  have eq: "add_mset a (placed s') = mset_set (dom (th_heap s))" using assms(1,2) by (simp add: owned_def)
  then have "a \<in> dom (th_heap s)" using fin by (metis finite_set_mset_mset_set union_single_eq_member)
  then have "mset_set (dom (th_heap s)) = add_mset a (mset_set (dom (th_heap s) - {a}))"
    using fin by (simp add: mset_set.remove)
  with eq have "placed s' = mset_set (dom (th_heap s) - {a})" by simp
  with assms fin show ?thesis by (auto simp: owned_def)
qed

lemma owned_mem: "owned s \<Longrightarrow> a \<in># placed s \<Longrightarrow> \<exists>t. th_heap s a = Some t"
  by (auto simp: owned_def)

lemma held_placed: "i < length (th_pools s) \<Longrightarrow> a \<in> set (worker_tasks (th_pools s ! i)) \<Longrightarrow> a \<in># placed s"
  by (auto simp: placed_def dest: nth_mem)

text \<open>The task in a worker's hands exists: nobody deletes it before the worker is done with it.\<close>

lemma held_exists:
  assumes "owned s" "i < length (th_pools s)" "wk_pc (th_pools s ! i) = Running a \<or> wk_pc (th_pools s ! i) = Finished a"
  shows "\<exists>t. th_heap s a = Some t"
  using assms by (intro owned_mem [OF assms(1)] held_placed [OF assms(2)]) (auto simp: worker_tasks_def held_def)

lemmas op_defs = GetThread_def SetMaxTask_def post_check_def post_push_def post_event_def work_init_def work_take_def
  work_wait_def work_run_def work_finish_def work_trigger_def upd_swap_def upd_resume_def upd_delete_def Let_def

lemma owned_get_thread: "owned s \<Longrightarrow> owned (fst (GetThread s threadid create))"
  by (rule owned_move [of s]) (auto simp: GetThread_def placed_def worker_tasks_def held_def thread_new_def split: option.splits)

lemma owned_worker:
  "owned s \<Longrightarrow> i < length (th_pools s) \<Longrightarrow> mset (worker_tasks w) = mset (worker_tasks (th_pools s ! i)) \<Longrightarrow>
     owned (set_worker s i w)"
  by (rule owned_move [of s]) (simp_all add: placed_worker_same)

lemma owned_push:
  assumes "owned s" "th_post s = Checked i code co main" "i < length (th_pools s)" "post_push h s tick ref = Inr s'"
  shows "owned s'"
proof -
  let ?w = "th_pools s ! i" and ?a = "th_next s"
  obtain t where s': "s' = set_worker (s\<lparr>th_heap := (th_heap s)(?a \<mapsto> t), th_next := ?a + 1, th_post := Pushed i\<rparr>) i
      (?w\<lparr>wk_tasks := wk_tasks ?w @ [?a]\<rparr>)"
    using assms(2,4) by (auto simp: post_push_def Let_def bindE_Inr_iff)
  let ?s1 = "s\<lparr>th_heap := (th_heap s)(?a \<mapsto> t), th_next := ?a + 1, th_post := Pushed i\<rparr>"
  have "placed s' + mset (worker_tasks ?w) = placed ?s1 + mset (worker_tasks (?w\<lparr>wk_tasks := wk_tasks ?w @ [?a]\<rparr>))"
    unfolding s' using placed_set_worker [of i ?s1 "?w\<lparr>wk_tasks := wk_tasks ?w @ [?a]\<rparr>"] assms(3) by simp
  moreover have "placed ?s1 = placed s" by (rule placed_cong) simp_all
  ultimately have "placed s' = add_mset ?a (placed s)" by (simp add: worker_tasks_def held_def)
  with assms(1) show ?thesis by (rule owned_add) (simp_all add: s')
qed

lemma owned_finish:
  assumes o: "owned s" and i: "i < length (th_pools s)" and pc: "wk_pc (th_pools s ! i) = Finished a"
    and s': "work_finish s i = Inr s'"
  shows "owned s'"
proof -
  let ?w = "th_pools s ! i" let ?w' = "?w\<lparr>wk_pc := Triggering\<rparr>"
  obtain t where t: "th_heap s a = Some t" using held_exists [OF o i] pc by blast
  have wt: "worker_tasks ?w = a # worker_tasks ?w'" using pc by (simp add: worker_tasks_def held_def)
  show ?thesis
  proof (cases "lt_co t")
    case None
    then have e: "s' = set_worker (s\<lparr>th_heap := (th_heap s)(a := None)\<rparr>) i ?w'"
      using s' pc t by (simp add: work_finish_def Let_def)
    have "placed s' + mset (worker_tasks ?w) = placed s + mset (worker_tasks ?w')"
      unfolding e using placed_set_worker [of i "s\<lparr>th_heap := (th_heap s)(a := None)\<rparr>" ?w'] i
      by (simp add: placed_def)
    then have "placed s = add_mset a (placed s')" unfolding wt by simp
    with o show ?thesis by (rule owned_remove) (simp_all add: e)
  next
    case (Some co)
    then have e: "s' = set_worker (PostTaskReturn s a) i ?w'" using s' pc t by (simp add: work_finish_def Let_def)
    have "placed s' + mset (worker_tasks ?w) = placed (PostTaskReturn s a) + mset (worker_tasks ?w')"
      unfolding e using placed_set_worker [of i "PostTaskReturn s a" ?w'] i by (simp add: PostTaskReturn_def)
    then have "placed s' = placed s" unfolding wt by (simp add: PostTaskReturn_def placed_def)
    with o show ?thesis by (rule owned_move) (simp_all add: e PostTaskReturn_def)
  qed
qed

section \<open>The other invariants\<close>

text \<open>Between the two critical sections of \<open>PostTask\<close> the queue stays below the limit.\<close>

definition posting_ok :: "threads \<Rightarrow> bool" where
  "posting_ok s \<longleftrightarrow>
     (case th_post s of
        NotPosting \<Rightarrow> True
      | Checked i _ _ _ \<Rightarrow> i < length (th_pools s) \<and> length (wk_tasks (th_pools s ! i)) < wk_max (th_pools s ! i)
      | Pushed i \<Rightarrow> i < length (th_pools s))"

text \<open>
  A worker that waits on a semaphore at zero has nothing to do, or the main thread is about to post
  its semaphore.
\<close>

definition awake :: "threads \<Rightarrow> nat \<Rightarrow> bool" where
  "awake s i \<longleftrightarrow>
     (let w = th_pools s ! i in
      wk_pc w = Waiting \<longrightarrow> wk_sem w = Some 0 \<longrightarrow> wk_tasks w \<noteq> [] \<longrightarrow> th_post s = Pushed i)"

definition wakeup_ok :: "threads \<Rightarrow> bool" where
  "wakeup_ok s \<longleftrightarrow> (\<forall>i<length (th_pools s). awake s i)"

text \<open>
  Returned tasks have a coroutine to resume, and while there are any the user event is pending or a
  worker is about to trigger it.
\<close>

definition returned_ok :: "threads \<Rightarrow> bool" where
  "returned_ok s \<longleftrightarrow> (\<forall>a\<in>set (th_ret s) \<union> set (th_upd s). \<exists>t. th_heap s a = Some t \<and> lt_co t \<noteq> None) \<and>
     (th_ret s \<noteq> [] \<longrightarrow> th_trigger s \<or> (\<exists>w\<in>set (th_pools s). wk_pc w = Triggering))"

text \<open>A worker takes its tasks in the order in which they were posted.\<close>

definition fifo_ok :: "threads \<Rightarrow> bool" where
  "fifo_ok s \<longleftrightarrow> (\<forall>w\<in>set (th_pools s). sorted_wrt (<) (worker_tasks w))"

lemma posting_ok_worker:
  assumes "posting_ok s" "i < length (th_pools s)" "length (wk_tasks w) \<le> length (wk_tasks (th_pools s ! i))"
    "wk_max w = wk_max (th_pools s ! i)"
  shows "posting_ok (set_worker s i w)"
  using assms by (auto simp: posting_ok_def nth_list_update split: post_pc.splits)

lemma wakeup_ok_worker:
  assumes "wakeup_ok s" "\<And>j. th_post s = Pushed j \<Longrightarrow> j \<noteq> i \<Longrightarrow> th_post s' = Pushed j" "th_pools s' = (th_pools s)[i := w]"
    "i < length (th_pools s)" "wk_pc w = Waiting \<Longrightarrow> wk_sem w = Some 0 \<Longrightarrow> wk_tasks w \<noteq> [] \<Longrightarrow> th_post s' = Pushed i"
  shows "wakeup_ok s'"
  using assms unfolding wakeup_ok_def awake_def by (auto simp: nth_list_update Let_def)

lemma fifo_ok_worker:
  "fifo_ok s \<Longrightarrow> th_pools s' = (th_pools s)[i := w] \<Longrightarrow> sorted_wrt (<) (worker_tasks w) \<Longrightarrow> fifo_ok s'"
  by (auto simp: fifo_ok_def dest: set_update_subset_insert [THEN subsetD])

lemma fifo_okD: "fifo_ok s \<Longrightarrow> i < length (th_pools s) \<Longrightarrow> sorted_wrt (<) (worker_tasks (th_pools s ! i))"
  by (simp add: fifo_ok_def)

lemma run_task_co: "run_task h t r = Inr t' \<Longrightarrow> lt_co t' = lt_co t"
  by (auto simp: run_task_def bindE_Inr_iff SetUserResult_def store_result_def split: option.splits if_splits prod.splits)

lemma owned_once: "owned s \<Longrightarrow> placed s = add_mset a M \<Longrightarrow> a \<notin># M"
proof
  assume "owned s" "placed s = add_mset a M" "a \<in># M"
  then have "mset_set (dom (th_heap s)) = add_mset a M" "a \<in># M" by (simp_all add: owned_def)
  moreover have "count (mset_set (dom (th_heap s))) a \<le> 1"
    by (cases "finite (dom (th_heap s))"; cases "a \<in> dom (th_heap s)") simp_all
  ultimately show False by (simp add: count_eq_zero_iff)
qed

lemma triggering_update:
  assumes "i < length ws" "wk_pc (ws ! i) = Triggering \<Longrightarrow> wk_pc v = Triggering" "\<exists>w\<in>set ws. wk_pc w = Triggering"
  shows "\<exists>w\<in>set (ws[i := v]). wk_pc w = Triggering"
proof -
  obtain j where j: "j < length ws" "wk_pc (ws ! j) = Triggering" using assms(3) by (auto simp: in_set_conv_nth)
  then have "wk_pc (ws[i := v] ! j) = Triggering" using assms(2) by (cases "j = i") auto
  with j(1) show ?thesis by (metis length_list_update nth_mem)
qed

lemma returned_ok_heap:
  assumes "returned_ok s" "th_pools s' = th_pools s" "th_ret s' = th_ret s" "th_upd s' = th_upd s" "th_trigger s' = th_trigger s"
    and "\<And>a t. a \<in> set (th_ret s) \<union> set (th_upd s) \<Longrightarrow> th_heap s a = Some t \<Longrightarrow> lt_co t \<noteq> None \<Longrightarrow>
      \<exists>t'. th_heap s' a = Some t' \<and> lt_co t' \<noteq> None"
  shows "returned_ok s'"
  using assms unfolding returned_ok_def by metis

lemma returned_ok_worker:
  assumes "returned_ok s" "i < length (th_pools s)" "wk_pc (th_pools s ! i) = Triggering \<Longrightarrow> wk_pc w = Triggering"
    and "th_pools s' = (th_pools s)[i := w]" "th_ret s' = th_ret s" "th_upd s' = th_upd s" "th_trigger s' = th_trigger s"
    and "\<And>a t. a \<in> set (th_ret s) \<union> set (th_upd s) \<Longrightarrow> th_heap s a = Some t \<Longrightarrow> lt_co t \<noteq> None \<Longrightarrow>
      \<exists>t'. th_heap s' a = Some t' \<and> lt_co t' \<noteq> None"
  shows "returned_ok s'"
  using assms(1,5-8) triggering_update [OF assms(2,3)] unfolding returned_ok_def assms(4) by metis

lemma pools_cong:
  "th_post s' = th_post s \<Longrightarrow> th_pools s' = th_pools s \<Longrightarrow>
     posting_ok s' = posting_ok s \<and> wakeup_ok s' = wakeup_ok s \<and> fifo_ok s' = fifo_ok s"
  by (auto simp: posting_ok_def wakeup_ok_def awake_def fifo_ok_def split: post_pc.splits)

definition lt_inv :: "threads \<Rightarrow> bool" where
  "lt_inv s \<longleftrightarrow> owned s \<and> posting_ok s \<and> wakeup_ok s \<and> returned_ok s \<and> fifo_ok s"

lemma lt_inv_new: "lt_inv mgr_new"
  by (simp add: lt_inv_def mgr_new_def owned_def placed_def posting_ok_def wakeup_ok_def returned_ok_def fifo_ok_def)

lemma lt_inv_get_thread:
  assumes "lt_inv s" "th_post s = NotPosting"
  shows "lt_inv (fst (GetThread s threadid create))"
proof -
  consider "fst (GetThread s threadid create) = s"
    | v where "fst (GetThread s threadid create) = s\<lparr>th_pools := th_pools s @ [v]\<rparr>" "wk_pc v = Starting" "wk_tasks v = []"
  proof (cases "find_thread (th_pools s) threadid 0 = None \<and> create")
    case True
    show thesis by (rule that(2) [of "thread_new\<lparr>wk_id := threadid\<rparr>"]) (use True in \<open>simp_all add: GetThread_def thread_new_def\<close>)
  next
    case False
    then show thesis by (intro that(1)) (auto simp: GetThread_def split: option.splits)
  qed
  then show ?thesis
  proof cases
    case 2
    have "owned (fst (GetThread s threadid create))" using assms by (simp add: lt_inv_def owned_get_thread)
    with 2 assms show ?thesis
      by (auto simp: lt_inv_def posting_ok_def wakeup_ok_def awake_def returned_ok_def fifo_ok_def worker_tasks_def
          held_def nth_append Let_def)
  qed (use assms in simp)
qed

text \<open>A step that only changes one worker, and not what it has to do.\<close>

lemma lt_inv_worker:
  assumes inv: "lt_inv s" and i: "i < length (th_pools s)" "wk_pc (th_pools s ! i) \<noteq> Triggering"
    and w: "worker_tasks w = worker_tasks (th_pools s ! i)" "length (wk_tasks w) \<le> length (wk_tasks (th_pools s ! i))"
      "wk_max w = wk_max (th_pools s ! i)"
    and wake: "wk_pc w = Waiting \<Longrightarrow> wk_tasks w = []"
  shows "lt_inv (set_worker s i w)"
proof -
  have "wakeup_ok (set_worker s i w)"
    by (rule wakeup_ok_worker [of s i]) (use inv i wake in \<open>auto simp: lt_inv_def\<close>)
  moreover have "fifo_ok (set_worker s i w)"
    by (rule fifo_ok_worker [of s _ i w]) (use inv i w in \<open>auto simp: lt_inv_def fifo_okD\<close>)
  ultimately show ?thesis
    using inv i w by (auto simp: lt_inv_def owned_worker posting_ok_worker intro: returned_ok_worker [of s i])
qed

lemma lt_inv_set_max:
  assumes "lt_inv s" "th_post s = NotPosting" "i < length (th_pools s)"
  shows "lt_inv (fst (SetMaxTask s i n))"
proof -
  let ?w = "(th_pools s ! i)\<lparr>wk_max := n\<rparr>"
  have wt: "worker_tasks ?w = worker_tasks (th_pools s ! i)" by (simp add: worker_tasks_def held_def)
  have "wakeup_ok (set_worker s i ?w)"
    by (rule wakeup_ok_worker [of s i]) (use assms in \<open>auto simp: lt_inv_def wakeup_ok_def awake_def Let_def\<close>)
  moreover have "fifo_ok (set_worker s i ?w)"
    by (rule fifo_ok_worker [of s _ i ?w]) (use assms wt in \<open>auto simp: lt_inv_def fifo_okD\<close>)
  moreover have "returned_ok (set_worker s i ?w)"
    by (rule returned_ok_worker [of s i ?w]) (use assms in \<open>auto simp: lt_inv_def\<close>)
  ultimately show ?thesis
    using assms wt by (simp add: SetMaxTask_def lt_inv_def owned_worker posting_ok_def)
qed

lemma lt_inv_push:
  assumes inv: "lt_inv s" and c: "th_post s = Checked i code co main" and s': "post_push h s tick ref = Inr s'"
  shows "lt_inv s'"
proof -
  let ?w = "th_pools s ! i" and ?a = "th_next s"
  have i: "i < length (th_pools s)" using inv c by (simp add: lt_inv_def posting_ok_def)
  obtain t where e: "s' = set_worker (s\<lparr>th_heap := (th_heap s)(?a \<mapsto> t), th_next := ?a + 1, th_post := Pushed i\<rparr>) i
      (?w\<lparr>wk_tasks := wk_tasks ?w @ [?a]\<rparr>)"
    using c s' by (auto simp: post_push_def Let_def bindE_Inr_iff)
  have o: "owned s" using inv by (simp add: lt_inv_def)
  then have fresh: "th_heap s ?a = None" by (auto simp: owned_def)
  from o have "\<forall>a\<in>set (worker_tasks ?w). a < ?a" using owned_mem [OF o] held_placed [OF i] unfolding owned_def by fastforce
  moreover have "sorted_wrt (<) (worker_tasks ?w)" using inv i by (simp add: lt_inv_def fifo_okD)
  ultimately have "sorted_wrt (<) (worker_tasks ?w @ [?a])" by (simp add: sorted_wrt_append)
  then have st: "sorted_wrt (<) (worker_tasks (?w\<lparr>wk_tasks := wk_tasks ?w @ [?a]\<rparr>))" by (simp add: worker_tasks_def held_def)
  have "th_pools s' = (th_pools s)[i := ?w\<lparr>wk_tasks := wk_tasks ?w @ [?a]\<rparr>]" by (simp add: e)
  with inv st have "fifo_ok s'" using fifo_ok_worker unfolding lt_inv_def by blast
  moreover have "wakeup_ok s'"
    by (rule wakeup_ok_worker [of s i]) (use inv i c in \<open>auto simp: e lt_inv_def\<close>)
  moreover have "returned_ok s'"
    by (rule returned_ok_worker [of s i "?w\<lparr>wk_tasks := wk_tasks ?w @ [?a]\<rparr>"]) (use inv i fresh in \<open>auto simp: e lt_inv_def\<close>)
  moreover have "owned s'" by (rule owned_push [OF o c i s'])
  moreover have "posting_ok s'" using i by (simp add: e posting_ok_def)
  ultimately show ?thesis by (simp add: lt_inv_def)
qed

lemma lt_inv_event:
  assumes inv: "lt_inv s" and p: "th_post s = Pushed i"
  shows "lt_inv (post_event s)"
proof -
  let ?w = "(th_pools s ! i)\<lparr>wk_sem := map_option Suc (wk_sem (th_pools s ! i))\<rparr>"
  have i: "i < length (th_pools s)" using inv p by (simp add: lt_inv_def posting_ok_def)
  have e: "post_event s = set_worker (s\<lparr>th_post := NotPosting\<rparr>) i ?w" using p by (simp add: post_event_def Let_def)
  have wt: "worker_tasks ?w = worker_tasks (th_pools s ! i)" by (simp add: worker_tasks_def held_def)
  have "owned (s\<lparr>th_post := NotPosting\<rparr>)" by (rule owned_move [of s]) (use inv in \<open>simp_all add: lt_inv_def placed_def\<close>)
  then have "owned (post_event s)" unfolding e using i wt by (simp add: owned_worker)
  moreover have "wakeup_ok (post_event s)"
    by (rule wakeup_ok_worker [of s i _ ?w]) (use inv i p in \<open>auto simp: e lt_inv_def\<close>)
  moreover have "fifo_ok (post_event s)"
    by (rule fifo_ok_worker [of s _ i ?w]) (use inv i wt in \<open>auto simp: e lt_inv_def fifo_okD\<close>)
  moreover have "returned_ok (post_event s)"
    by (rule returned_ok_worker [of s i ?w]) (use inv i in \<open>auto simp: e lt_inv_def\<close>)
  ultimately show ?thesis by (simp add: lt_inv_def e posting_ok_def)
qed

lemma lt_inv_take:
  assumes inv: "lt_inv s" and i: "i < length (th_pools s)" and pc: "wk_pc (th_pools s ! i) = Top"
  shows "lt_inv (work_take s i)"
proof (cases "wk_tasks (th_pools s ! i)")
  case Nil
  with inv i pc show ?thesis
    by (simp add: work_take_def Let_def) (rule lt_inv_worker, simp_all add: worker_tasks_def held_def)
next
  case (Cons a as)
  with inv i pc show ?thesis
    by (simp add: work_take_def Let_def) (rule lt_inv_worker, simp_all add: worker_tasks_def held_def)
qed

lemma lt_inv_wait:
  assumes inv: "lt_inv s" and i: "i < length (th_pools s)" and pc: "wk_pc (th_pools s ! i) = Waiting"
    and s': "work_wait s i b = Some s'"
  shows "lt_inv s'"
proof -
  obtain w where "s' = set_worker s i w" "worker_tasks w = worker_tasks (th_pools s ! i)" "wk_tasks w = wk_tasks (th_pools s ! i)"
    "wk_max w = wk_max (th_pools s ! i)" "wk_pc w \<noteq> Waiting"
    using s' pc by (auto simp: work_wait_def Let_def worker_tasks_def held_def split: option.splits if_splits nat.splits)
  with inv i pc show ?thesis by (auto intro: lt_inv_worker)
qed

lemma lt_inv_run:
  assumes inv: "lt_inv s" and i: "i < length (th_pools s)" and pc: "wk_pc (th_pools s ! i) = Running a"
    and s': "work_run h s i r = Inr s'"
  shows "lt_inv s'"
proof -
  let ?w = "(th_pools s ! i)\<lparr>wk_now := Some a, wk_pc := Finished a\<rparr>"
  obtain t t' where t: "th_heap s a = Some t" "run_task h t r = Inr t'"
    and e: "s' = set_worker (s\<lparr>th_heap := (th_heap s)(a \<mapsto> t')\<rparr>) i ?w"
    using s' pc by (auto simp: work_run_def Let_def bindE_Inr_iff split: option.splits)
  have co: "lt_co t' = lt_co t" using t by (simp add: run_task_co)
  let ?s = "s\<lparr>th_heap := (th_heap s)(a \<mapsto> t')\<rparr>"
  have "lt_inv ?s"
  proof -
    have "owned ?s" by (rule owned_move [of s]) (use inv t in \<open>auto simp: lt_inv_def placed_def\<close>)
    moreover have "returned_ok ?s" by (rule returned_ok_heap [of s]) (use inv t(1) co in \<open>auto simp: lt_inv_def\<close>)
    ultimately show ?thesis using inv pools_cong [of ?s s] by (simp add: lt_inv_def)
  qed
  then show ?thesis unfolding e using i pc
    by (intro lt_inv_worker) (simp_all add: worker_tasks_def held_def)
qed

lemma lt_inv_finish:
  assumes inv: "lt_inv s" and i: "i < length (th_pools s)" and pc: "wk_pc (th_pools s ! i) = Finished a"
    and s': "work_finish s i = Inr s'"
  shows "lt_inv s'"
proof -
  let ?w = "(th_pools s ! i)\<lparr>wk_pc := Triggering\<rparr>"
  have o: "owned s" using inv by (simp add: lt_inv_def)
  obtain t where t: "th_heap s a = Some t" using held_exists [OF o i] pc by blast
  let ?s = "if lt_co t \<noteq> None then PostTaskReturn s a else s\<lparr>th_heap := (th_heap s)(a := None)\<rparr>"
  have e: "s' = set_worker ?s i ?w" using s' pc t by (simp add: work_finish_def Let_def)
  have same: "th_pools s' = (th_pools s)[i := ?w]" "th_post s' = th_post s" "th_upd s' = th_upd s"
    by (simp_all add: e PostTaskReturn_def)
  have trig: "\<exists>w\<in>set (th_pools s'). wk_pc w = Triggering"
    unfolding same using i by (intro bexI [of _ ?w]) (simp_all add: set_update_memI)
  have "a \<notin> set (th_ret s) \<union> set (th_upd s)"
  proof -
    have "a \<in># mset (concat (map worker_tasks (th_pools s)))"
      using i pc by (auto simp: worker_tasks_def held_def intro!: bexI [of _ "th_pools s ! i"])
    then obtain M where "mset (concat (map worker_tasks (th_pools s))) = add_mset a M" by (meson multi_member_split)
    then have "placed s = add_mset a (M + mset (th_ret s) + mset (th_upd s))" by (simp add: placed_def)
    from owned_once [OF o this] show ?thesis by simp
  qed
  moreover have "\<forall>x\<in>set (th_ret s) \<union> set (th_upd s). \<exists>t. th_heap s x = Some t \<and> lt_co t \<noteq> None"
    using inv by (simp add: lt_inv_def returned_ok_def)
  ultimately have "\<forall>x\<in>set (th_ret s') \<union> set (th_upd s'). \<exists>t. th_heap s' x = Some t \<and> lt_co t \<noteq> None"
    using t by (auto simp: e PostTaskReturn_def)
  with trig have "returned_ok s'" by (simp add: returned_ok_def)
  moreover have "owned s'" by (rule owned_finish [OF o i pc s'])
  moreover have "wakeup_ok s'"
    by (rule wakeup_ok_worker [of s i s' ?w]) (use inv i same in \<open>auto simp: lt_inv_def\<close>)
  moreover have "sorted_wrt (<) (worker_tasks ?w)"
    using fifo_okD [OF _ i] inv pc by (auto simp: lt_inv_def worker_tasks_def held_def)
  then have "fifo_ok s'" using fifo_ok_worker [OF _ same(1)] inv by (simp add: lt_inv_def)
  moreover have "posting_ok s'"
  proof -
    have "posting_ok (set_worker s i ?w)" using inv i by (simp add: lt_inv_def posting_ok_worker)
    then show ?thesis using pools_cong [of s' "set_worker s i ?w"] same by simp
  qed
  ultimately show ?thesis by (simp add: lt_inv_def)
qed

lemma lt_inv_trigger:
  assumes inv: "lt_inv s" and i: "i < length (th_pools s)" and pc: "wk_pc (th_pools s ! i) = Triggering"
  shows "lt_inv (work_trigger s i)"
proof -
  let ?w = "(th_pools s ! i)\<lparr>wk_pc := Top\<rparr>"
  have e: "work_trigger s i = set_worker (s\<lparr>th_trigger := True\<rparr>) i ?w" by (simp add: work_trigger_def)
  have wt: "worker_tasks ?w = worker_tasks (th_pools s ! i)" using pc by (simp add: worker_tasks_def held_def)
  have "owned (s\<lparr>th_trigger := True\<rparr>)" by (rule owned_move [of s]) (use inv in \<open>simp_all add: lt_inv_def placed_def\<close>)
  then have "owned (work_trigger s i)" unfolding e using i wt by (simp add: owned_worker)
  moreover have "wakeup_ok (work_trigger s i)"
    by (rule wakeup_ok_worker [of s i _ ?w]) (use inv i in \<open>auto simp: e lt_inv_def\<close>)
  moreover have "fifo_ok (work_trigger s i)"
    by (rule fifo_ok_worker [of s _ i ?w]) (use inv i wt in \<open>auto simp: e lt_inv_def fifo_okD\<close>)
  moreover have "returned_ok (work_trigger s i)" using inv by (auto simp: e lt_inv_def returned_ok_def)
  moreover have "posting_ok (work_trigger s i)"
  proof -
    have "posting_ok (set_worker s i ?w)" using inv i by (simp add: lt_inv_def posting_ok_worker)
    then show ?thesis using pools_cong [of "work_trigger s i" "set_worker s i ?w"] by (simp add: e)
  qed
  ultimately show ?thesis by (simp add: lt_inv_def)
qed

lemma lt_inv_update:
  assumes inv: "lt_inv s"
  shows "th_upd s = [] \<Longrightarrow> lt_inv (upd_swap s)" "lt_inv (upd_delete s)"
    "upd_resume s yielded status msg = Inr s' \<Longrightarrow> lt_inv s'"
proof -
  have o: "owned s" and ret: "returned_ok s" using inv by (simp_all add: lt_inv_def)
  show "lt_inv (upd_swap s)" if "th_upd s = []"
  proof -
    have "owned (upd_swap s)" by (rule owned_move [OF o]) (simp_all add: upd_swap_def placed_def that)
    with ret show ?thesis using inv pools_cong [of "upd_swap s" s] by (auto simp: lt_inv_def upd_swap_def returned_ok_def)
  qed
  show "lt_inv (upd_delete s)"
  proof (cases "th_upd s")
    case (Cons a as)
    then have p: "placed s = add_mset a (placed (upd_delete s))" by (simp add: placed_def upd_delete_def)
    then have "owned (upd_delete s)" by (intro owned_remove [OF o p]) (simp_all add: upd_delete_def Cons)
    moreover have "a \<notin> set (th_ret s) \<union> set as" using owned_once [OF o p] by (auto simp: placed_def upd_delete_def Cons)
    ultimately show ?thesis using ret inv pools_cong [of "upd_delete s" s]
      by (auto simp: lt_inv_def upd_delete_def Cons returned_ok_def)
  qed (use inv in \<open>simp add: upd_delete_def\<close>)
  show "lt_inv s'" if "upd_resume s yielded status msg = Inr s'"
  proof -
    have same: "th_pools s' = th_pools s" "th_post s' = th_post s" "th_heap s' = th_heap s" "th_ret s' = th_ret s"
      "th_upd s' = th_upd s" "th_next s' = th_next s" "th_trigger s' = th_trigger s"
      using that by (auto simp: upd_resume_def bindE_Inr_iff split: list.splits option.splits if_splits)
    have "owned s'" by (rule owned_move [OF o]) (simp_all add: same placed_def)
    moreover have "returned_ok s'" by (rule returned_ok_heap [OF ret]) (simp_all add: same)
    ultimately show ?thesis using inv pools_cong [of s' s] same by (simp add: lt_inv_def)
  qed
qed

lemma lt_inv_step: "lt_step h s s' \<Longrightarrow> lt_inv s \<Longrightarrow> lt_inv s'"
proof (induction rule: lt_step.induct)
  case (check s i code co main)
  then show ?case
    using pools_cong [of "s\<lparr>th_post := Checked i code co main\<rparr>" s]
    by (auto simp: post_check_def Let_def lt_inv_def posting_ok_def wakeup_ok_def awake_def returned_ok_def fifo_ok_def
        owned_def placed_def GetTaskCount_def)
next
  case (init i s ok)
  then show ?case
    unfolding work_init_def Let_def by (intro lt_inv_worker) (simp_all add: worker_tasks_def held_def)
qed (auto intro: lt_inv_get_thread lt_inv_set_max lt_inv_push lt_inv_event lt_inv_take lt_inv_wait lt_inv_run
    lt_inv_finish lt_inv_trigger lt_inv_update)

lemma lt_inv_reachable: "lt_reachable h s \<Longrightarrow> lt_inv s"
  by (induction rule: lt_reachable_induct) (auto intro: lt_inv_new lt_inv_step)

section \<open>What a coroutine is resumed with\<close>

text \<open>A task that has not been run: it is in a queue, or its worker has just taken it.\<close>

definition unrun :: "threads \<Rightarrow> task_id \<Rightarrow> bool" where
  "unrun s a \<longleftrightarrow> (\<exists>w\<in>set (th_pools s). a \<in> set (wk_tasks w) \<or> wk_pc w = Running a)"

text \<open>
  What the waiting coroutine has to get for a task whose code came to \<open>r\<close>: whether it succeeded, with the string it returned or
  the message of the error.  A result that was set by \<open>SetUserResult\<close> counts as a failure without a text.
\<close>

definition answer_of :: "run_result \<Rightarrow> bool \<times> byte list" where
  "answer_of r =
     (case rr_user r of
        Some _ \<Rightarrow> (False, [])
      | None \<Rightarrow> (rr_status r = 0, case rr_top r of None \<Rightarrow> [] | Some ret \<Rightarrow> ret))"

text \<open>Code whose result can be stored: there is memory for it, and an error has a message.\<close>

definition result_ok :: "c_heap \<Rightarrow> run_result \<Rightarrow> bool" where
  "result_ok h r \<longleftrightarrow>
     (case rr_user r of
        Some code \<Rightarrow> length code + 1 < SIZE_MOD \<and> can_alloc h (int (length code) + 1)
      | None \<Rightarrow>
          (case rr_top r of
             None \<Rightarrow> rr_status r = 0
           | Some ret \<Rightarrow> length ret + 2 < SIZE_MOD \<and> can_alloc h (int (length ret) + 2)))"

lemma store_result_ok:
  assumes wf: "fb_wf TASKBUF (lt_retbuf t)" and size: "length szRet + 2 < SIZE_MOD" "can_alloc h (int (length szRet) + 2)"
  shows "\<exists>b. store_result h t szRet = Inr (t\<lparr>lt_retbuf := b\<rparr>) \<and> fb_wf TASKBUF b \<and> fb_text TASKBUF b = szRet"
proof -
  let ?n = "length szRet"
  have sz: "size_add ?n (Suc 0) = Suc ?n" using size by (simp add: size_add_small)
  obtain b1 where b1: "fb_grow h TASKBUF (lt_retbuf t) (Suc ?n) = Inr b1" "fb_wf TASKBUF b1" "?n + 1 \<le> fb_alloc b1"
    using fb_grow_cases [OF wf, of "Suc ?n" h] size by (auto simp: add.commute split: sum.splits)
  obtain c1 where c1: "fb_buf TASKBUF b1 = Some c1" using b1(2) by (auto elim: fb_wfE)
  obtain b2 where b2: "fb_store TASKBUF b1 0 szRet = Inr b2" "fb_wf TASKBUF b2" "fb_alloc b2 = fb_alloc b1"
    "fb_buf TASKBUF b2 = Some (szRet @ drop ?n c1)" using fb_store_ok [OF b1(2) c1, of 0 szRet] b1(3) by auto
  obtain b3 where b3: "fb_store TASKBUF b2 ?n [0] = Inr b3" "fb_wf TASKBUF b3" "fb_alloc b3 = fb_alloc b1"
    "fb_buf TASKBUF b3 = Some (szRet @ 0 # drop (Suc ?n) (szRet @ drop ?n c1))" using fb_store_ok [OF b2(2,4), of ?n "[0]"] b2(3) b1(3) by auto
  obtain b4 where "fb_setcplen TASKBUF b3 ?n = Inr b4" "fb_wf TASKBUF b4" "fb_cplen b4 = ?n"
    "fb_buf TASKBUF b4 = Some ((szRet @ 0 # drop (Suc ?n) (szRet @ drop ?n c1))[?n := 0])"
    using fb_setcplen_ok [OF b3(2,4), of ?n] b3(3) b1(3) by auto
  then show ?thesis using b1(1) b2(1) b3(1) by (intro exI [of _ b4]) (simp add: store_result_def sz fb_text_def)
qed

lemma SetUserResult_ok:
  assumes wf: "fb_wf TASKBUF (lt_retbuf t)" and size: "length code + 1 < SIZE_MOD" "can_alloc h (int (length code) + 1)"
  shows "\<exists>b. SetUserResult h t code = Inr (t\<lparr>lt_retbuf := b, lt_user_ret := True\<rparr>) \<and> fb_wf TASKBUF b \<and> fb_cplen b = fb_cplen (lt_retbuf t)"
proof -
  obtain b1 where b1: "fb_grow h TASKBUF (lt_retbuf t) (length code) = Inr b1" "fb_wf TASKBUF b1" "length code \<le> fb_alloc b1"
    "fb_cplen b1 = fb_cplen (lt_retbuf t)"
    using fb_grow_cases [OF wf size(1), of h] size(2) by (auto simp: add.commute split: sum.splits)
  obtain c1 where "fb_buf TASKBUF b1 = Some c1" using b1(2) by (auto elim: fb_wfE)
  then show ?thesis using fb_store_ok [OF b1(2), of c1 0 code] b1 by (auto simp: SetUserResult_def)
qed

text \<open>Running a new task stores its answer.\<close>

lemma run_task_answer:
  assumes t: "lt_retbuf t = fb_new TASKBUF" and r: "result_ok h r"
  shows "\<exists>t'. run_task h t r = Inr t' \<and> fb_wf TASKBUF (lt_retbuf t') \<and> lt_co t' = lt_co t \<and>
    (lt_co t \<noteq> None \<longrightarrow> (lt_ok t', fb_text TASKBUF (lt_retbuf t')) = answer_of r)"
proof -
  have wf: "fb_wf TASKBUF (fb_new TASKBUF)" "fb_text TASKBUF (fb_new TASKBUF) = []" "fb_cplen (fb_new TASKBUF) = 0"
    using fb_new_wf [of TASKBUF] by (simp_all add: TASKBUF_def SIZE_MOD_def fb_new_def)
  let ?t = "t\<lparr>lt_user_ret := False\<rparr>"
  have stored: "\<exists>b. store_result h t0 szRet = Inr (t0\<lparr>lt_retbuf := b\<rparr>) \<and> fb_wf TASKBUF b \<and> fb_text TASKBUF b = szRet"
    if "lt_retbuf t0 = fb_new TASKBUF" "rr_user r = None" "rr_top r = Some szRet" for t0 szRet
    using store_result_ok [of t0 szRet h] that wf(1) r by (simp add: result_ok_def)
  show ?thesis
  proof (cases "rr_user r")
    case (Some code)
    obtain b where b: "SetUserResult h ?t code = Inr (?t\<lparr>lt_retbuf := b, lt_user_ret := True\<rparr>)" "fb_wf TASKBUF b" "fb_cplen b = 0"
      using SetUserResult_ok [of ?t code h] t wf r Some by (auto simp: result_ok_def)
    moreover from b(2,3) have "fb_text TASKBUF b = []" using length_fb_text by fastforce
    ultimately show ?thesis using Some by (simp add: run_task_def answer_of_def)
  next
    case None
    show ?thesis
    proof (cases "rr_top r")
      case top: None
      then show ?thesis using None r t wf by (cases "lt_co t") (simp_all add: run_task_def answer_of_def result_ok_def)
    next
      case (Some szRet)
      show ?thesis
        using stored [of ?t szRet] stored [of "?t\<lparr>lt_ok := True\<rparr>" szRet] None Some t wf
        by (cases "lt_co t"; cases "rr_status r = 0") (auto simp: run_task_def answer_of_def)
    qed
  qed
qed

text \<open>A task that is in a worker's hands and run, or in \<open>Update\<close>'s list, is not among those still to be run.\<close>

lemma unrun_placed: "unrun s a \<Longrightarrow> a \<in># mset (concat (map worker_tasks (th_pools s)))"
  by (auto simp: unrun_def worker_tasks_def held_def intro!: bexI)

lemma upd_not_unrun: "owned s \<Longrightarrow> th_upd s = a # as \<Longrightarrow> \<not> unrun s a"
  using owned_once [of s a "mset (concat (map worker_tasks (th_pools s))) + mset (th_ret s) + mset as"] unrun_placed [of s a]
  by (auto simp: placed_def)

lemma finished_not_unrun:
  assumes o: "owned s" and i: "i < length (th_pools s)" and pc: "wk_pc (th_pools s ! i) = Finished a"
  shows "\<not> unrun s a"
proof
  assume "unrun s a"
  then obtain j where j: "j < length (th_pools s)" "a \<in> set (wk_tasks (th_pools s ! j)) \<or> wk_pc (th_pools s ! j) = Running a"
    unfolding unrun_def by (metis in_set_conv_nth)
  let ?s = "set_worker s i thread_new"
  have "worker_tasks thread_new = []" "worker_tasks (th_pools s ! i) = a # wk_tasks (th_pools s ! i)"
    by (simp_all add: worker_tasks_def held_def thread_new_def pc)
  with placed_set_worker [OF i, of thread_new] have p: "placed s = add_mset a (mset (wk_tasks (th_pools s ! i)) + placed ?s)"
    by (simp add: add.commute)
  then have notin: "a \<notin> set (wk_tasks (th_pools s ! i))" "a \<notin># placed ?s" using owned_once [OF o p] by auto
  show False
  proof (cases "j = i")
    case False
    with j have "a \<in> set (worker_tasks (th_pools ?s ! j))" by (auto simp: worker_tasks_def held_def)
    then show False using held_placed [of j ?s a] j(1) notin(2) by simp
  qed (use j pc notin(1) in auto)
qed

text \<open>The result buffer of a task that has not been run is new.\<close>

definition fresh_ok :: "threads \<Rightarrow> bool" where
  "fresh_ok s \<longleftrightarrow> (\<forall>a t. unrun s a \<longrightarrow> th_heap s a = Some t \<longrightarrow> lt_retbuf t = fb_new TASKBUF)"

lemma fresh_okI:
  assumes "fresh_ok s" "\<And>a. unrun s' a \<Longrightarrow> unrun s a" "\<And>a t. unrun s' a \<Longrightarrow> th_heap s' a = Some t \<Longrightarrow> th_heap s a = Some t"
  shows "fresh_ok s'"
  using assms unfolding fresh_ok_def by blast

lemma unrun_worker:
  assumes "i < length (th_pools s)" "th_pools s' = (th_pools s)[i := w]"
    and "set (wk_tasks w) \<subseteq> set (wk_tasks (th_pools s ! i))" "\<And>a. wk_pc w = Running a \<Longrightarrow> wk_pc (th_pools s ! i) = Running a \<or> a \<in> set (wk_tasks (th_pools s ! i))"
  shows "unrun s' a \<Longrightarrow> unrun s a"
  using assms nth_mem [OF assms(1)] by (auto simp: unrun_def dest!: set_update_subset_insert [THEN subsetD])

lemma fresh_worker:
  assumes "fresh_ok s" "i < length (th_pools s)" "th_pools s' = (th_pools s)[i := w]"
    and "set (wk_tasks w) \<subseteq> set (wk_tasks (th_pools s ! i))" "\<And>a. wk_pc w = Running a \<Longrightarrow> wk_pc (th_pools s ! i) = Running a \<or> a \<in> set (wk_tasks (th_pools s ! i))"
    and "th_heap s' \<subseteq>\<^sub>m th_heap s"
  shows "fresh_ok s'"
  using assms(1)
proof (rule fresh_okI)
  show "unrun s a" if "unrun s' a" for a using unrun_worker [OF assms(2-5) that] .
  show "th_heap s a = Some t" if "th_heap s' a = Some t" for a t using assms(6) that by (auto simp: map_le_def dom_def)
qed

lemma fresh_same:
  assumes "fresh_ok s" "th_pools s' = th_pools s" "th_heap s' \<subseteq>\<^sub>m th_heap s"
  shows "fresh_ok s'"
  using assms(1)
proof (rule fresh_okI)
  show "unrun s a" if "unrun s' a" for a using that assms(2) by (simp add: unrun_def)
  show "th_heap s a = Some t" if "th_heap s' a = Some t" for a t using assms(3) that by (auto simp: map_le_def dom_def)
qed

lemma fresh_push:
  assumes f: "fresh_ok s" and p: "th_post s = Checked i code co main" "post_push h s tick ref = Inr s'"
  shows "fresh_ok s'"
proof -
  obtain t where t: "task_new h code co main tick ref = Inr t" "lt_retbuf t = fb_new TASKBUF"
    and s': "th_heap s' = (th_heap s)(th_next s \<mapsto> t)"
      "th_pools s' = (th_pools s)[i := (th_pools s ! i)\<lparr>wk_tasks := wk_tasks (th_pools s ! i) @ [th_next s]\<rparr>]"
    using p by (auto simp: post_push_def Let_def bindE_Inr_iff task_new_def)
  have "unrun s a" if "unrun s' a" "a \<noteq> th_next s" for a
    using that s'(2) by (cases "i < length (th_pools s)") (auto simp: unrun_def list_update_beyond dest!: set_update_subset_insert [THEN subsetD] intro: nth_mem)
  with f t(2) show ?thesis unfolding fresh_ok_def s'(1) by auto
qed

lemma fresh_run:
  assumes inv: "lt_inv s'" and f: "fresh_ok s" and i: "i < length (th_pools s)" "wk_pc (th_pools s ! i) = Running a" "work_run h s i r = Inr s'"
  shows "fresh_ok s'"
proof -
  let ?w = "(th_pools s ! i)\<lparr>wk_now := Some a, wk_pc := Finished a\<rparr>"
  obtain t' where s': "th_heap s' = (th_heap s)(a \<mapsto> t')" "th_pools s' = (th_pools s)[i := ?w]"
    using i by (auto simp: work_run_def Let_def bindE_Inr_iff split: option.splits)
  then have "\<not> unrun s' a" using finished_not_unrun [of s' i a] inv i(1) by (simp add: lt_inv_def)
  moreover have "unrun s' b \<Longrightarrow> unrun s b" for b by (rule unrun_worker [OF i(1) s'(2)]) auto
  ultimately show ?thesis using f unfolding fresh_ok_def s'(1) by (metis fun_upd_other)
qed

lemma fresh_step:
  assumes "lt_step h s s'" "lt_inv s" "fresh_ok s"
  shows "fresh_ok s'"
  using assms
proof cases
  case (get_thread threadid create)
  then show ?thesis using assms(3)
    by (auto simp: GetThread_def fresh_ok_def unrun_def thread_new_def split: option.splits)
next
  case (set_max i n)
  then show ?thesis using assms(3)
    by (intro fresh_worker [OF _ set_max(3), of s' "(th_pools s ! i)\<lparr>wk_max := n\<rparr>"]) (auto simp: SetMaxTask_def)
next
  case (check i code co main)
  then show ?thesis by (intro fresh_same [OF assms(3)]) (auto simp: post_check_def Let_def)
next
  case (push i code co main tick ref)
  then show ?thesis using fresh_push assms(3) by blast
next
  case (event i)
  moreover have "i < length (th_pools s)" using assms(2) event(2) by (simp add: lt_inv_def posting_ok_def)
  ultimately show ?thesis using assms(3)
    by (intro fresh_worker [of s i s' "(th_pools s ! i)\<lparr>wk_sem := map_option Suc (wk_sem (th_pools s ! i))\<rparr>"]) (auto simp: post_event_def Let_def)
next
  case (init i ok)
  then show ?thesis using assms(3)
    by (intro fresh_worker [of s i s' "(th_pools s ! i)\<lparr>wk_sem := (if ok then Some 0 else None), wk_pc := Top\<rparr>"]) (auto simp: work_init_def Let_def)
next
  case (take i)
  let ?w = "th_pools s ! i"
  show ?thesis using take assms(3)
    by (intro fresh_worker [of s i s' "case wk_tasks ?w of [] \<Rightarrow> ?w\<lparr>wk_pc := Waiting\<rparr> | a # as \<Rightarrow> ?w\<lparr>wk_tasks := as, wk_pc := Running a\<rparr>"])
      (auto simp: work_take_def Let_def split: list.splits)
next
  case (wait i interrupted)
  obtain w where "s' = set_worker s i w" "wk_tasks w = wk_tasks (th_pools s ! i)" "\<forall>a. wk_pc w \<noteq> Running a"
    using wait by (auto simp: work_wait_def Let_def split: option.splits if_splits nat.splits)
  then show ?thesis using wait assms(3) by (intro fresh_worker [of s i s' w]) auto
next
  case (run i a r)
  then show ?thesis using fresh_run lt_inv_step assms by blast
next
  case (finish i a)
  obtain w where w: "th_pools s' = (th_pools s)[i := w]" "wk_tasks w = wk_tasks (th_pools s ! i)" "\<forall>a. wk_pc w \<noteq> Running a" "th_heap s' \<subseteq>\<^sub>m th_heap s"
    using finish by (auto simp: work_finish_def Let_def PostTaskReturn_def map_le_def split: option.splits if_splits)
  then show ?thesis using finish assms(3) by (intro fresh_worker [of s i s' w]) auto
next
  case (trigger i)
  then show ?thesis using assms(3) by (intro fresh_worker [of s i s' "(th_pools s ! i)\<lparr>wk_pc := Top\<rparr>"]) (auto simp: work_trigger_def)
next
  case swap
  then show ?thesis by (intro fresh_same [OF assms(3)]) (auto simp: upd_swap_def)
next
  case (resume yielded status msg)
  then have "th_pools s' = th_pools s \<and> th_heap s' = th_heap s"
    by (auto simp: upd_resume_def bindE_Inr_iff split: list.splits option.splits if_splits)
  then show ?thesis by (intro fresh_same [OF assms(3)]) simp_all
next
  case delete
  then show ?thesis by (intro fresh_same [OF assms(3)]) (auto simp: upd_delete_def map_le_def split: list.splits)
qed

lemma fresh_reachable: "lt_reachable h s \<Longrightarrow> fresh_ok s"
proof (induction rule: lt_reachable_induct)
  case new
  then show ?case by (simp add: fresh_ok_def mgr_new_def)
next
  case (step s s')
  then show ?case using fresh_step lt_inv_reachable by blast
qed

section \<open>Progress\<close>

text \<open>
  The work left in a state: every step of the workers and of \<open>Update\<close>, and the end of a post, makes it
  smaller.
\<close>

definition pc_work :: "worker_pc \<Rightarrow> nat" where
  "pc_work pc = (case pc of Starting \<Rightarrow> 2 | Top \<Rightarrow> 1 | Waiting \<Rightarrow> 0 | Running _ \<Rightarrow> 7 | Finished _ \<Rightarrow> 6 | Triggering \<Rightarrow> 2 | Stopped \<Rightarrow> 0)"

definition worker_work :: "worker \<Rightarrow> nat" where
  "worker_work w = 8 * length (wk_tasks w) + 2 * (case wk_sem w of None \<Rightarrow> 0 | Some n \<Rightarrow> n) + pc_work (wk_pc w)"

definition work_left :: "threads \<Rightarrow> nat" where
  "work_left s = sum_list (map worker_work (th_pools s)) + 3 * length (th_ret s) +
     (2 * length (th_upd s) - (if th_resumed s then 1 else 0)) + (case th_post s of Pushed _ \<Rightarrow> 3 | _ \<Rightarrow> 0)"

text \<open>Workers that have not stopped and whose semaphore could be created.\<close>

definition alive :: "threads \<Rightarrow> bool" where
  "alive s \<longleftrightarrow> (\<forall>w\<in>set (th_pools s). wk_pc w \<noteq> Stopped \<and> (wk_pc w \<noteq> Starting \<longrightarrow> wk_sem w \<noteq> None)) \<and>
     (th_upd s = [] \<longrightarrow> \<not> th_resumed s) \<and> (\<forall>i code co main. th_post s \<noteq> Checked i code co main) \<and>
     (\<forall>t\<in>ran (th_heap s). fb_wf TASKBUF (lt_retbuf t))"

text \<open>
  Coroutine \<open>co\<close> waits for the answer of task \<open>a\<close>; what the log has for a task; and what will be added to it, when running the code
  of a task \<open>b\<close> comes to \<open>rr b\<close>.
\<close>

definition pending :: "threads \<Rightarrow> task_id \<Rightarrow> nat \<Rightarrow> bool" where
  "pending s a co \<longleftrightarrow> (\<exists>t. th_heap s a = Some t \<and> lt_co t = Some co) \<and> \<not> (th_resumed s \<and> hd (th_upd s) = a)"

definition answers :: "threads \<Rightarrow> task_id \<Rightarrow> (nat \<times> bool \<times> byte list) list" where
  "answers s a = map snd (filter (\<lambda>e. fst e = a) (th_log s))"

definition stored_answer :: "lua_task \<Rightarrow> bool \<times> byte list" where
  "stored_answer t = (lt_ok t, fb_text TASKBUF (lt_retbuf t))"

definition answer_due :: "(task_id \<Rightarrow> run_result) \<Rightarrow> threads \<Rightarrow> task_id \<Rightarrow> bool \<times> byte list" where
  "answer_due rr s a = (if unrun s a then answer_of (rr a) else case th_heap s a of None \<Rightarrow> (False, []) | Some t \<Rightarrow> stored_answer t)"

definition owed :: "(task_id \<Rightarrow> run_result) \<Rightarrow> threads \<Rightarrow> task_id \<Rightarrow> (nat \<times> bool \<times> byte list) list" where
  "owed rr s a =
     (if th_resumed s \<and> hd (th_upd s) = a then []
      else case th_heap s a of
        None \<Rightarrow> []
      | Some t \<Rightarrow> (case lt_co t of None \<Rightarrow> [] | Some co \<Rightarrow> [(co, answer_due rr s a)]))"

definition ledger :: "(task_id \<Rightarrow> run_result) \<Rightarrow> threads \<Rightarrow> task_id \<Rightarrow> (nat \<times> bool \<times> byte list) list" where
  "ledger rr s a = answers s a @ owed rr s a"

lemma ledger_same:
  assumes "th_log s' = th_log s" "th_resumed s' = th_resumed s" "th_upd s' = th_upd s" "th_heap s' = th_heap s" "unrun s' a = unrun s a"
  shows "ledger rr s' a = ledger rr s a"
  using assms by (simp add: ledger_def owed_def answers_def answer_due_def split: option.split)

lemma unrun_update:
  assumes "i < length (th_pools s)" "th_pools s' = (th_pools s)[i := w]"
    and "a \<in> set (wk_tasks w) \<or> wk_pc w = Running a \<longleftrightarrow> a \<in> set (wk_tasks (th_pools s ! i)) \<or> wk_pc (th_pools s ! i) = Running a"
  shows "unrun s' a = unrun s a"
proof -
  have ex: "(\<exists>w\<in>set ws. P w) \<longleftrightarrow> (\<exists>j<length ws. P (ws ! j))" for ws and P :: "worker \<Rightarrow> bool" by (metis in_set_conv_nth)
  show ?thesis unfolding unrun_def ex assms(2) using assms(1,3) by (auto simp: nth_list_update)
qed

lemma sum_list_update_less:
  fixes f :: "'a \<Rightarrow> nat"
  assumes "i < length xs"
  shows "sum_list (map f (xs[i := x])) + f (xs ! i) = sum_list (map f xs) + f x"
  using assms
proof (induction xs arbitrary: i)
  case (Cons y ys)
  then show ?case by (cases i) auto
qed simp

lemma worker_progress:
  assumes "i < length (th_pools s)" "th_pools s' = (th_pools s)[i := w]" "th_upd s' = th_upd s" "th_resumed s' = th_resumed s"
    "th_post s' = th_post s" "worker_work w + 3 * length (th_ret s') < worker_work (th_pools s ! i) + 3 * length (th_ret s)"
  shows "work_left s' < work_left s"
  using sum_list_update_less [OF assms(1), of worker_work w] assms(2-6) by (simp add: work_left_def)

text \<open>One step of progress: smaller, still alive, and no answer is lost, changed or given twice.\<close>

definition progress :: "c_heap \<Rightarrow> (task_id \<Rightarrow> run_result) \<Rightarrow> threads \<Rightarrow> threads \<Rightarrow> bool" where
  "progress h rr s s' \<longleftrightarrow> lt_step h s s' \<and> work_left s' < work_left s \<and> alive s' \<and> (\<forall>a. ledger rr s' a = ledger rr s a)"

lemma alive_worker:
  assumes "alive s" "i < length (th_pools s)" "wk_pc w \<noteq> Stopped" "wk_pc w \<noteq> Starting \<longrightarrow> wk_sem w \<noteq> None"
    and "th_pools s' = (th_pools s)[i := w]" "th_upd s' = th_upd s" "th_resumed s' = th_resumed s"
      "th_post s' = th_post s" "\<And>t. t \<in> ran (th_heap s') \<Longrightarrow> fb_wf TASKBUF (lt_retbuf t)"
  shows "alive s'"
  using assms(1,3-9) unfolding alive_def by (auto dest: set_update_subset_insert [THEN subsetD])

lemma progress_worker_step:
  assumes st: "lt_step h s s'" and al: "alive s" and i: "i < length (th_pools s)"
    and w: "wk_pc w \<noteq> Stopped" "wk_pc w \<noteq> Starting" "wk_sem w \<noteq> None"
    and same: "th_pools s' = (th_pools s)[i := w]" "th_upd s' = th_upd s" "th_resumed s' = th_resumed s"
      "th_post s' = th_post s"
    and less: "worker_work w + 3 * length (th_ret s') < worker_work (th_pools s ! i) + 3 * length (th_ret s)"
    and buf: "\<And>t. t \<in> ran (th_heap s') \<Longrightarrow> fb_wf TASKBUF (lt_retbuf t)"
    and led: "\<And>a. ledger rr s' a = ledger rr s a"
  shows "progress h rr s s'"
proof -
  have "alive s'" by (rule alive_worker [OF al i]) (use w same buf in auto)
  moreover have "work_left s' < work_left s" by (rule worker_progress [OF i same less])
  ultimately show ?thesis using st led by (simp add: progress_def)
qed

text \<open>A step of a worker that leaves the tasks alone and does not run one.\<close>

lemma progress_worker_plain:
  assumes st: "lt_step h s s'" and al: "alive s" and i: "i < length (th_pools s)"
    and w: "wk_pc w \<noteq> Stopped" "wk_pc w \<noteq> Starting" "wk_sem w \<noteq> None"
    and same: "th_pools s' = (th_pools s)[i := w]" "th_upd s' = th_upd s" "th_resumed s' = th_resumed s"
      "th_post s' = th_post s" "th_log s' = th_log s" "th_heap s' = th_heap s" "th_ret s' = th_ret s"
    and less: "worker_work w < worker_work (th_pools s ! i)"
    and tasks: "\<And>a. a \<in> set (wk_tasks w) \<or> wk_pc w = Running a \<longleftrightarrow> a \<in> set (wk_tasks (th_pools s ! i)) \<or> wk_pc (th_pools s ! i) = Running a"
  shows "progress h rr s s'"
proof (rule progress_worker_step [OF st al i w same(1-4)])
  show "worker_work w + 3 * length (th_ret s') < worker_work (th_pools s ! i) + 3 * length (th_ret s)" using less same(7) by simp
  show "fb_wf TASKBUF (lt_retbuf t)" if "t \<in> ran (th_heap s')" for t using that al same(6) unfolding alive_def by simp
  show "ledger rr s' a = ledger rr s a" for a by (rule ledger_same) (use same unrun_update [OF i same(1) tasks] in auto)
qed

lemma progress_run:
  assumes inv: "lt_inv s" and f: "fresh_ok s" and al: "alive s" and i: "i < length (th_pools s)" and rr: "\<forall>a. result_ok h (rr a)"
    and pc: "wk_pc (th_pools s ! i) = Running a"
  shows "\<exists>s'. progress h rr s s'"
proof -
  let ?w = "th_pools s ! i"
  have in_w: "?w \<in> set (th_pools s)" using i by simp
  obtain t where t: "th_heap s a = Some t" using held_exists [of s i a] inv i pc by (auto simp: lt_inv_def)
  have un: "unrun s a" using in_w pc by (auto simp: unrun_def)
  then have "lt_retbuf t = fb_new TASKBUF" using f t unfolding fresh_ok_def by blast
  then obtain t' where t': "run_task h t (rr a) = Inr t'" "fb_wf TASKBUF (lt_retbuf t')" "lt_co t' = lt_co t"
    "lt_co t \<noteq> None \<longrightarrow> stored_answer t' = answer_of (rr a)" using run_task_answer [of t h "rr a"] rr unfolding stored_answer_def by blast
  let ?v = "?w\<lparr>wk_now := Some a, wk_pc := Finished a\<rparr>"
  let ?s = "set_worker (s\<lparr>th_heap := (th_heap s)(a \<mapsto> t')\<rparr>) i ?v"
  have st: "lt_step h s ?s"
    by (rule lt_step.run [OF i pc, of h "rr a"]) (simp add: work_run_def Let_def pc t t'(1))
  have over: "\<not> unrun ?s a" using finished_not_unrun [of ?s i a] lt_inv_step [OF st inv] i by (simp add: lt_inv_def)
  have others: "unrun ?s b = unrun s b" if "b \<noteq> a" for b
    by (rule unrun_update [OF i, where w = ?v]) (use that pc in auto)
  have buf: "fb_wf TASKBUF (lt_retbuf u)" if "u \<in> ran (th_heap s)" for u using that al unfolding alive_def by blast
  have "progress h rr s ?s"
  proof (rule progress_worker_step [OF st al i, where w = ?v])
    show "wk_sem ?v \<noteq> None" using al in_w pc unfolding alive_def by auto
    show "fb_wf TASKBUF (lt_retbuf u)" if "u \<in> ran (th_heap ?s)" for u
      using that t'(2) buf by (auto simp: ran_def split: if_splits)
    show "ledger rr ?s b = ledger rr s b" for b
    proof (cases "b = a")
      case True
      then show ?thesis using t t'(3,4) un over by (cases "lt_co t") (simp_all add: ledger_def owed_def answers_def answer_due_def)
    next
      case False
      then show ?thesis using others [OF False] by (simp add: ledger_def owed_def answers_def answer_due_def split: option.split)
    qed
  qed (simp_all add: worker_work_def pc_work_def pc)
  then show ?thesis by blast
qed

lemma progress_finish:
  assumes inv: "lt_inv s" and al: "alive s" and i: "i < length (th_pools s)" and pc: "wk_pc (th_pools s ! i) = Finished a"
  shows "\<exists>s'. progress h rr s s'"
proof -
  let ?w = "th_pools s ! i"
  have in_w: "?w \<in> set (th_pools s)" using i by simp
  obtain t where t: "th_heap s a = Some t" using held_exists [of s i a] inv i pc by (auto simp: lt_inv_def)
  let ?v = "?w\<lparr>wk_pc := Triggering\<rparr>"
  let ?s0 = "if lt_co t \<noteq> None then PostTaskReturn s a else s\<lparr>th_heap := (th_heap s)(a := None)\<rparr>"
  let ?s = "set_worker ?s0 i ?v"
  have st: "lt_step h s ?s"
    by (rule lt_step.finish [OF i pc]) (simp add: work_finish_def Let_def pc t)
  have un: "unrun ?s b = unrun s b" for b by (rule unrun_update [OF i, where w = ?v]) (simp_all add: PostTaskReturn_def pc)
  have "progress h rr s ?s"
  proof (rule progress_worker_step [OF st al i, where w = ?v])
    show "wk_sem ?v \<noteq> None" using al in_w pc unfolding alive_def by auto
    show "fb_wf TASKBUF (lt_retbuf u)" if "u \<in> ran (th_heap ?s)" for u
    proof -
      have "u \<in> ran (th_heap s)" using that by (auto simp: PostTaskReturn_def ran_def split: if_splits)
      then show ?thesis using al unfolding alive_def by blast
    qed
    show "ledger rr ?s b = ledger rr s b" for b
      using un [of b] t by (auto simp: ledger_def owed_def answers_def answer_due_def PostTaskReturn_def split: option.split)
  qed (simp_all add: worker_work_def pc_work_def pc PostTaskReturn_def)
  then show ?thesis by blast
qed

lemma progress_worker:
  assumes inv: "lt_inv s" and f: "fresh_ok s" and al: "alive s" and i: "i < length (th_pools s)" and rr: "\<forall>a. result_ok h (rr a)"
    and ready: "wk_pc (th_pools s ! i) = Waiting \<Longrightarrow> wk_sem (th_pools s ! i) \<noteq> Some 0"
  shows "\<exists>s'. progress h rr s s'"
proof -
  let ?w = "th_pools s ! i"
  have in_w: "?w \<in> set (th_pools s)" using i by simp
  then have sem: "wk_pc ?w \<noteq> Starting \<Longrightarrow> wk_sem ?w \<noteq> None" and nstop: "wk_pc ?w \<noteq> Stopped"
    using al unfolding alive_def by blast+
  note P = progress_worker_plain [OF _ al i]
  show ?thesis
  proof (cases "wk_pc ?w")
    case Starting
    have "progress h rr s (work_init s i True)"
      by (rule P [OF lt_step.init [OF i Starting], where w = "?w\<lparr>wk_sem := Some 0, wk_pc := Top\<rparr>"])
        (use Starting in \<open>auto simp: work_init_def worker_work_def pc_work_def split: option.splits\<close>)
    then show ?thesis by blast
  next
    case Top
    have st: "lt_step h s (work_take s i)" by (rule lt_step.take [OF i Top])
    have "progress h rr s (work_take s i)"
    proof (cases "wk_tasks ?w")
      case Nil
      show ?thesis by (rule P [OF st, where w = "?w\<lparr>wk_pc := Waiting\<rparr>"])
        (use Nil Top sem in \<open>auto simp: work_take_def worker_work_def pc_work_def Let_def\<close>)
    next
      case (Cons a as)
      show ?thesis by (rule P [OF st, where w = "?w\<lparr>wk_tasks := as, wk_pc := Running a\<rparr>"])
        (use Cons Top sem in \<open>auto simp: work_take_def worker_work_def pc_work_def Let_def\<close>)
    qed
    then show ?thesis by blast
  next
    case Waiting
    then obtain n where n: "wk_sem ?w = Some (Suc n)" using sem ready by (cases "wk_sem ?w") (auto simp: gr0_conv_Suc)
    let ?v = "?w\<lparr>wk_sem := Some n, wk_pc := Top\<rparr>"
    have st: "lt_step h s (set_worker s i ?v)"
      by (rule lt_step.wait [OF i Waiting, of False]) (simp add: work_wait_def Let_def n)
    have "progress h rr s (set_worker s i ?v)"
      by (rule P [OF st, where w = ?v]) (use Waiting n in \<open>auto simp: worker_work_def pc_work_def\<close>)
    then show ?thesis by blast
  next
    case (Running a)
    then show ?thesis by (rule progress_run [OF inv f al i rr])
  next
    case (Finished a)
    then show ?thesis by (rule progress_finish [OF inv al i])
  next
    case Triggering
    have "progress h rr s (work_trigger s i)"
      by (rule P [OF lt_step.trigger [OF i Triggering], where w = "?w\<lparr>wk_pc := Top\<rparr>"])
        (use Triggering sem in \<open>auto simp: work_trigger_def worker_work_def pc_work_def\<close>)
    then show ?thesis by blast
  qed (use nstop in simp)
qed

lemma progress_post:
  assumes inv: "lt_inv s" and al: "alive s" and p: "th_post s = Pushed i"
  shows "\<exists>s'. progress h rr s s'"
proof -
  let ?w = "th_pools s ! i" let ?v = "?w\<lparr>wk_sem := map_option Suc (wk_sem ?w)\<rparr>"
  have i: "i < length (th_pools s)" using inv p by (simp add: lt_inv_def posting_ok_def)
  have e: "post_event s = set_worker (s\<lparr>th_post := NotPosting\<rparr>) i ?v" using p by (simp add: post_event_def Let_def)
  have "alive (s\<lparr>th_post := NotPosting\<rparr>)" using al by (simp add: alive_def)
  moreover have "?w \<in> set (th_pools s)" using i by simp
  then have "wk_pc ?w \<noteq> Stopped \<and> (wk_pc ?w \<noteq> Starting \<longrightarrow> wk_sem ?w \<noteq> None)" using al unfolding alive_def by blast
  moreover have "\<And>t. t \<in> ran (th_heap s) \<Longrightarrow> fb_wf TASKBUF (lt_retbuf t)" using al unfolding alive_def by blast
  ultimately have "alive (post_event s)"
    unfolding e using i by - (rule alive_worker [of "s\<lparr>th_post := NotPosting\<rparr>" i ?v], simp_all)
  moreover have "worker_work ?v \<le> worker_work ?w + 2" by (auto simp: worker_work_def split: option.splits)
  then have "work_left (post_event s) < work_left s"
    using sum_list_update_less [OF i, of worker_work ?v] p by (simp add: work_left_def e)
  moreover have "ledger rr (post_event s) a = ledger rr s a" for a
    by (rule ledger_same) (simp_all add: e unrun_update [OF i, where w = ?v])
  ultimately show ?thesis using lt_step.event [OF p, of h] by (auto simp: progress_def)
qed

lemma progress_update:
  assumes inv: "lt_inv s" and al: "alive s" and np: "th_post s = NotPosting"
    and todo: "th_upd s \<noteq> [] \<or> th_ret s \<noteq> [] \<and> th_trigger s"
  shows "\<exists>s'. progress h rr s s'"
proof (cases "th_upd s")
  case Nil
  then have "\<not> th_resumed s" "th_ret s \<noteq> []" "th_trigger s" using al todo by (auto simp: alive_def)
  moreover have "alive (upd_swap s)" using al \<open>\<not> th_resumed s\<close> by (simp add: alive_def upd_swap_def)
  moreover have "ledger rr (upd_swap s) a = ledger rr s a" for a
    using \<open>\<not> th_resumed s\<close> by (simp add: ledger_def owed_def answers_def answer_due_def unrun_def upd_swap_def split: option.split)
  ultimately have "progress h rr s (upd_swap s)"
    using lt_step.swap [OF np Nil, of h] Nil by (auto simp: progress_def work_left_def upd_swap_def)
  then show ?thesis by blast
next
  case (Cons a as)
  then obtain t co where t: "th_heap s a = Some t" "lt_co t = Some co"
    using inv by (fastforce simp: lt_inv_def returned_ok_def)
  have un: "\<not> unrun s a" using upd_not_unrun [OF _ Cons] inv by (simp add: lt_inv_def)
  show ?thesis
  proof (cases "th_resumed s")
    case True
    have "alive (upd_delete s)" using al by (auto simp: alive_def upd_delete_def Cons ran_def split: if_splits)
    moreover have "ledger rr (upd_delete s) b = ledger rr s b" for b
      using True Cons by (auto simp: ledger_def owed_def answers_def answer_due_def unrun_def upd_delete_def split: option.split)
    ultimately have "progress h rr s (upd_delete s)"
      using lt_step.delete [OF np _ True, of h] Cons True by (auto simp: progress_def work_left_def upd_delete_def)
    then show ?thesis by blast
  next
    case False
    have "fb_wf TASKBUF (lt_retbuf t)" using al t(1) unfolding alive_def by (blast intro: ranI)
    then have "fb_load TASKBUF (lt_retbuf t) 0 (fb_cplen (lt_retbuf t)) = Inr (fb_text TASKBUF (lt_retbuf t))"
      by (elim fb_wfE) (simp add: fb_load_def mem_read_def fb_text_def)
    moreover define s1 where "s1 = s\<lparr>th_resumed := True, th_log := th_log s @ [(a, co, stored_answer t)]\<rparr>"
    ultimately have "upd_resume s True 0 None = Inr s1" using Cons t by (simp add: upd_resume_def stored_answer_def s1_def)
    then have "lt_step h s s1" using lt_step.resume [OF np _ False] Cons by simp
    moreover have "alive s1" using al Cons by (simp add: alive_def s1_def)
    moreover have "ledger rr s1 b = ledger rr s b" for b
      using Cons t False un by (auto simp: ledger_def owed_def answers_def answer_due_def unrun_def s1_def split: option.split)
    ultimately have "progress h rr s s1" using Cons False by (auto simp: progress_def work_left_def s1_def)
    then show ?thesis by blast
  qed
qed

text \<open>As long as there is a task some thread can make progress.\<close>

lemma progress_or_quiet:
  assumes inv: "lt_inv s" and f: "fresh_ok s" and al: "alive s" and rr: "\<forall>a. result_ok h (rr a)"
  shows "(\<exists>s'. progress h rr s s') \<or> th_heap s = Map.empty"
proof (rule ccontr)
  assume "\<not> ?thesis"
  then have stuck: "\<nexists>s'. progress h rr s s'" and ne: "th_heap s \<noteq> Map.empty" by auto
  have np: "th_post s = NotPosting"
    using progress_post [OF inv al] al stuck by (cases "th_post s") (auto simp: alive_def)
  have upd: "th_upd s = []" "th_ret s \<noteq> [] \<longrightarrow> \<not> th_trigger s" using progress_update [OF inv al np] stuck by blast+
  have idle: "wk_pc w = Waiting \<and> wk_tasks w = []" if w: "w \<in> set (th_pools s)" for w
  proof -
    obtain i where i: "i < length (th_pools s)" "th_pools s ! i = w" using w by (auto simp: in_set_conv_nth)
    then have "wk_pc w = Waiting" "wk_sem w = Some 0" using progress_worker [OF inv f al i(1) rr] stuck by auto
    moreover have "awake s i" using inv i(1) by (simp add: lt_inv_def wakeup_ok_def)
    ultimately show ?thesis using i(2) np by (auto simp: awake_def Let_def)
  qed
  then have "th_ret s = []" using inv upd by (fastforce simp: lt_inv_def returned_ok_def)
  moreover have "concat (map worker_tasks (th_pools s)) = []" using idle by (auto simp: worker_tasks_def held_def)
  ultimately have "placed s = {#}" using upd(1) by (simp add: placed_def)
  with inv have "mset_set (dom (th_heap s)) = {#}" "finite (dom (th_heap s))" by (simp_all add: lt_inv_def owned_def)
  with ne show False by (simp add: mset_set_empty_iff)
qed

lemma drains:
  assumes rr: "\<forall>a. result_ok h (rr a)"
  shows "lt_inv s \<Longrightarrow> fresh_ok s \<Longrightarrow> alive s \<Longrightarrow>
    \<exists>s'. (lt_step h)\<^sup>*\<^sup>* s s' \<and> th_heap s' = Map.empty \<and> (\<forall>a. ledger rr s' a = ledger rr s a)"
proof (induction "work_left s" arbitrary: s rule: less_induct)
  case less
  show ?case
  proof (cases "th_heap s = Map.empty")
    case False
    then obtain s1 where s1: "progress h rr s s1" using progress_or_quiet [OF less.prems rr] by blast
    then have "lt_inv s1" "fresh_ok s1" using lt_inv_step fresh_step less.prems(1,2) by (auto simp: progress_def)
    with less.hyps [of s1] s1 obtain s' where "(lt_step h)\<^sup>*\<^sup>* s1 s'" "th_heap s' = Map.empty" "\<forall>a. ledger rr s' a = ledger rr s1 a"
      by (auto simp: progress_def)
    with s1 show ?thesis unfolding progress_def by (metis converse_rtranclp_into_rtranclp)
  qed auto
qed

section \<open>Properties\<close>

text \<open>
  C6: In every state that any interleaving of the threads reaches, the tasks that exist are exactly
  those in a worker's queue, in a worker's hands, among the returned tasks or in the list that
  \<open>Update\<close> works on, each of them once: no task is lost, run twice, deleted twice or used after it
  is deleted; and a worker has its tasks in the order of posting.
\<close>

theorem threads_own_tasks:
  assumes "lt_reachable h s"
  shows "placed s = mset_set (dom (th_heap s)) \<and> (\<forall>w\<in>set (th_pools s). sorted_wrt (<) (worker_tasks w)) \<and>
    (\<forall>a. wk_pc (th_pools s ! i) = Finished a \<longrightarrow> i < length (th_pools s) \<longrightarrow> (\<exists>s'. work_finish s i = Inr s'))"
proof -
  have inv: "lt_inv s" using assms by (rule lt_inv_reachable)
  have "\<exists>s'. work_finish s i = Inr s'" if "wk_pc (th_pools s ! i) = Finished a" "i < length (th_pools s)" for a
    using held_exists [of s i a] inv that by (auto simp: lt_inv_def work_finish_def Let_def)
  with inv show ?thesis by (simp add: lt_inv_def owned_def fifo_ok_def)
qed

definition one_worker :: threads where
  "one_worker = fst (GetThread mgr_new 1 True)"

lemma one_worker_reachable: "lt_reachable h one_worker"
  unfolding lt_reachable_def one_worker_def
  by (intro r_into_rtranclp lt_step.get_thread) (simp add: mgr_new_def)

text \<open>
  C29: No wakeup is lost: a worker that is blocked on its semaphore while its queue has a task is about
  to be woken, because the main thread is between queueing the task and posting the semaphore.
\<close>

theorem no_lost_wakeup:
  assumes "lt_reachable h s" "i < length (th_pools s)" "wk_pc (th_pools s ! i) = Waiting" "wk_sem (th_pools s ! i) = Some 0"
  shows "wk_tasks (th_pools s ! i) = [] \<or> th_post s = Pushed i"
  using lt_inv_reachable [OF assms(1)] assms(2-4) by (auto simp: lt_inv_def wakeup_ok_def awake_def Let_def)

definition waiting_worker :: threads where
  "waiting_worker = work_take (work_init one_worker 0 True) 0"

lemma waiting_worker_reachable: "lt_reachable h waiting_worker"
proof -
  have p: "th_pools one_worker = [thread_new\<lparr>wk_id := 1\<rparr>]" by (simp add: one_worker_def GetThread_def mgr_new_def)
  have "lt_step h one_worker (work_init one_worker 0 True)"
    by (rule lt_step.init) (simp_all add: p thread_new_def)
  moreover have "lt_step h (work_init one_worker 0 True) waiting_worker"
    unfolding waiting_worker_def by (rule lt_step.take) (simp_all add: p work_init_def Let_def)
  ultimately show ?thesis
    using one_worker_reachable [of h] unfolding lt_reachable_def by (meson rtranclp.rtrancl_into_rtrancl)
qed

lemma waiting_worker_pools:
  "th_pools waiting_worker = [thread_new\<lparr>wk_id := 1, wk_sem := Some 0, wk_pc := Waiting\<rparr>]"
  "th_post waiting_worker = NotPosting" "th_upd waiting_worker = []" "\<not> th_resumed waiting_worker" "th_heap waiting_worker = Map.empty"
  by (simp_all add: waiting_worker_def work_take_def work_init_def one_worker_def GetThread_def mgr_new_def thread_new_def Let_def)

theorem no_lost_wakeup_witness:
  "wk_tasks (th_pools waiting_worker ! 0) = [] \<or> th_post waiting_worker = Pushed 0"
  by (rule no_lost_wakeup [OF waiting_worker_reachable]) (simp_all add: waiting_worker_pools)




text \<open>
  C7: From every reachable state in which no worker has stopped, those that have started have a semaphore, no post is between its two critical
  sections and the result buffers are well formed, and whatever running the tasks comes to, as long as the results can be stored and errors have a
  message, the threads can run to a state without tasks; and then every coroutine that was waiting for
  a task has been resumed exactly once for it, with what the task came to: success and the string it returned, failure and the message of the error,
  or, for a task that had been run before, what is stored for it.  (A result set with \<open>SetUserResult\<close> arrives as a failure with the empty string.)
  Nothing can get stuck, and no answer is lost or exchanged.
\<close>

theorem threads_drain:
  assumes "lt_reachable h s" "alive s" "\<forall>a. result_ok h (rr a)"
  shows "\<exists>s'. (lt_step h)\<^sup>*\<^sup>* s s' \<and> th_heap s' = Map.empty \<and>
    (\<forall>a co. pending s a co \<longrightarrow>
      answers s' a = answers s a @ [(co, if unrun s a then answer_of (rr a) else stored_answer (the (th_heap s a)))])"
proof -
  obtain s' where s': "(lt_step h)\<^sup>*\<^sup>* s s'" "th_heap s' = Map.empty" "\<forall>a. ledger rr s' a = ledger rr s a"
    using drains [OF assms(3) lt_inv_reachable [OF assms(1)] fresh_reachable [OF assms(1)] assms(2)] by blast
  have "owed rr s' a = []" for a using s'(2) by (simp add: owed_def)
  then have "answers s' a = answers s a @ owed rr s a" for a using s'(3) by (simp add: ledger_def)
  moreover have "owed rr s a = [(co, if unrun s a then answer_of (rr a) else stored_answer (the (th_heap s a)))]" if "pending s a co" for a co
    using that by (auto simp: pending_def owed_def answer_due_def)
  ultimately show ?thesis using s'(1,2) by auto
qed

text \<open>A worker with one task queued for a waiting coroutine.\<close>

lemma posted_state:
  "\<exists>s. lt_reachable open_heap s \<and> alive s \<and> pending s 0 5 \<and> unrun s 0 \<and> answers s 0 = []"
proof -
  let ?s = "waiting_worker" and ?w = "thread_new\<lparr>wk_id := 1, wk_sem := Some 0, wk_pc := Waiting\<rparr>"
  obtain t where t: "task_new open_heap [] (Some 5) 0 0 7 = Inr t" "lt_co t = Some 5" "lt_retbuf t = fb_new TASKBUF"
    by (auto simp: task_new_def fb_grow_def fb_new_def TASKBUF_def size_add_def SIZE_MOD_def fb_store_def
        fb_buf_def mem_write_def fb_setcplen_def fb_set_buf_def)
  let ?s1 = "?s\<lparr>th_post := Checked 0 [] (Some 5) 0\<rparr>"
  let ?s2 = "?s\<lparr>th_heap := [0 \<mapsto> t], th_next := 1, th_post := Pushed 0, th_pools := [?w\<lparr>wk_tasks := [0]\<rparr>]\<rparr>"
  have n: "th_next ?s = 0"
    by (simp add: waiting_worker_def work_take_def work_init_def one_worker_def GetThread_def mgr_new_def thread_new_def Let_def)
  have "fst (post_check ?s 0 [] (Some 5) 0) = ?s1"
    by (simp add: post_check_def waiting_worker_pools GetTaskCount_def thread_new_def)
  then have 1: "lt_step open_heap ?s ?s1"
    using lt_step.check [of ?s 0 open_heap "[]" "Some 5" 0] by (simp add: waiting_worker_pools)
  have "post_push open_heap ?s1 0 7 = Inr ?s2"
    by (simp add: post_push_def t(1) waiting_worker_pools n set_worker_def thread_new_def)
  then have 2: "lt_step open_heap ?s1 ?s2" by (intro lt_step.push [of _ 0 "[]" "Some 5" 0]) simp_all
  have "(lt_step open_heap)\<^sup>*\<^sup>* mgr_new ?s" using waiting_worker_reachable [of open_heap] unfolding lt_reachable_def .
  then have "lt_reachable open_heap ?s2"
    unfolding lt_reachable_def using 1 2 by (meson rtranclp.rtrancl_into_rtrancl)
  moreover have "alive ?s2"
    using fb_new_wf [of TASKBUF] t(3)
    by (auto simp: alive_def waiting_worker_pools thread_new_def ran_def TASKBUF_def SIZE_MOD_def split: if_splits)
  moreover have "pending ?s2 0 5" "unrun ?s2 0" using t(2) by (simp_all add: pending_def unrun_def waiting_worker_pools)
  moreover have "answers ?s2 0 = []"
    by (simp add: answers_def waiting_worker_def work_take_def work_init_def one_worker_def GetThread_def mgr_new_def thread_new_def Let_def)
  ultimately show ?thesis by blast
qed

theorem threads_own_tasks_witness:
  "\<exists>s. lt_reachable open_heap s \<and> pending s 0 5 \<and> placed s = mset_set (dom (th_heap s))"
proof -
  obtain s where "lt_reachable open_heap s" "pending s 0 5" using posted_state by blast
  with threads_own_tasks [of open_heap s 0] show ?thesis by blast
qed

definition ok_result :: run_result where
  "ok_result = \<lparr>rr_user = None, rr_status = 0, rr_top = Some [111, 107]\<rparr>"

theorem threads_drain_witness:
  "\<exists>s s'. pending s 0 5 \<and> (lt_step open_heap)\<^sup>*\<^sup>* s s' \<and> th_heap s' = Map.empty \<and> answers s' 0 = [(5, True, [111, 107])]"
proof -
  obtain s where s: "lt_reachable open_heap s" "alive s" "pending s 0 5" "unrun s 0" "answers s 0 = []" using posted_state by blast
  have "\<forall>a. result_ok open_heap ((\<lambda>_. ok_result) a)" by (simp add: result_ok_def ok_result_def open_heap_def SIZE_MOD_def)
  from threads_drain [OF s(1,2) this] s(3-5) show ?thesis by (fastforce simp: answer_of_def ok_result_def)
qed

text \<open>
  A result that the code sets with \<open>SetUserResult\<close> does not arrive: the length of the result buffer
  is not set, so the waiting coroutine is resumed with \<open>false\<close> and the empty string.
\<close>

theorem SetUserResult_lost:
  assumes t: "lt_co t = Some co" "lt_retbuf t = fb_new TASKBUF" and r: "rr_user r = Some code" "run_task h t r = Inr t'"
    and s: "th_upd s = a # as" "th_heap s a = Some t'"
  shows "upd_resume s True 0 msg = Inr (s\<lparr>th_resumed := True, th_log := th_log s @ [(a, co, False, [])]\<rparr>)"
proof -
  obtain b1 b2 where b: "fb_grow h TASKBUF (fb_new TASKBUF) (length code) = Inr b1" "fb_store TASKBUF b1 0 code = Inr b2"
    and t': "t' = t\<lparr>lt_user_ret := True, lt_retbuf := b2, lt_ok := False\<rparr>"
    using r t by (auto simp: run_task_def SetUserResult_def bindE_Inr_iff)
  have "fb_cplen b1 = 0" using b(1) by (auto simp: fb_grow_def bindE_Inr_iff fb_new_def split: if_splits option.splits)
  moreover have "\<exists>cells. fb_buf TASKBUF b1 = Some cells"
    using b(2) by (auto simp: fb_store_def split: option.splits)
  ultimately have "fb_cplen b2 = 0" "\<exists>cells. fb_buf TASKBUF b2 = Some cells"
    using b(2) by (auto simp: fb_store_def bindE_Inr_iff fb_set_buf_def fb_buf_def split: if_splits)
  then have "fb_load TASKBUF b2 0 (fb_cplen b2) = Inr []" by (auto simp: fb_load_def mem_read_def)
  with t s t' show ?thesis by (simp add: upd_resume_def)
qed

definition user_result :: run_result where
  "user_result = \<lparr>rr_user = Some [104, 105], rr_status = 0, rr_top = None\<rparr>"

definition co_task :: lua_task where
  "co_task = \<lparr>lt_main = 0, lt_cmdbuf = fb_new TASKBUF, lt_retbuf = fb_new TASKBUF, lt_co = Some 5, lt_time = 0, lt_ref = 0,
     lt_ok = False, lt_user_ret = False\<rparr>"

theorem SetUserResult_lost_witness:
  "\<exists>t'. run_task open_heap co_task user_result = Inr t' \<and>
    th_log (projr (upd_resume (mgr_new\<lparr>th_heap := [0 \<mapsto> t'], th_upd := [0]\<rparr>) True 0 None)) = [(0, 5, False, [])]"
proof -
  obtain t' where t': "run_task open_heap co_task user_result = Inr t'"
    by (auto simp: run_task_def co_task_def user_result_def SetUserResult_def fb_grow_def fb_new_def TASKBUF_def fb_store_def
        fb_buf_def mem_write_def fb_set_buf_def)
  let ?s = "mgr_new\<lparr>th_heap := [0 \<mapsto> t'], th_upd := [0]\<rparr>"
  have "upd_resume ?s True 0 None = Inr (?s\<lparr>th_resumed := True, th_log := th_log ?s @ [(0, 5, False, [])]\<rparr>)"
    by (rule SetUserResult_lost [OF _ _ _ t']) (simp_all add: co_task_def user_result_def)
  with t' show ?thesis by (simp add: mgr_new_def)
qed

end
