(* ===== verification/Connections.thy ===== *)
theory Connections
  imports Message
begin

text \<open>
  The socket callbacks of \<open>EventServer.cpp\<close>: every connection is a libevent \<open>bufferevent\<close> whose callback
  argument is a message; received bytes go into the message, which Lua then reads.  libevent itself is
  not modelled: \<open>bufferevent_read\<close> is an argument \<open>rd\<close> of the callbacks, a function on an abstract
  connection state, and \<open>drains\<close> states what its documentation promises.
\<close>

section \<open>Received data\<close>

definition MAX_LINE :: nat where
  "MAX_LINE = 1023"

text \<open>The loop that both read callbacks share; \<open>line\<close> is an array of \<open>MAX_LINE + 1\<close> bytes.\<close>

partial_function (option) read_loop ::
  "('b \<Rightarrow> nat \<Rightarrow> byte list \<times> 'b) \<Rightarrow> c_heap \<Rightarrow> 'b \<Rightarrow> lxz_message \<Rightarrow> (c_fault + (lxz_message \<times> 'b)) option" where
  "read_loop rd h b msg =
     (let line = fst (rd b MAX_LINE); b1 = snd (rd b MAX_LINE) in
      if line = [] then Some (Inr (msg, b1))
      else if length line > MAX_LINE then Some (Inl OutOfBounds)
      else
        (case ar_Write h msg line (int (length line)) of
           Inl e \<Rightarrow> Some (Inl e)
         | Inr msg' \<Rightarrow> read_loop rd h b1 msg'))"

text \<open>The callbacks' result: the message, the connection, and whether Lua is called.\<close>

definition read_cb ::
  "('b \<Rightarrow> nat \<Rightarrow> byte list \<times> 'b) \<Rightarrow> c_heap \<Rightarrow> 'b \<Rightarrow> lxz_message \<Rightarrow> (c_fault + (lxz_message \<times> 'b \<times> bool)) option" where
  "read_cb rd h b msg =
     (let old_mode = ar_mode msg; pos = getMsgSize msg in
      case ar_getPos msg of
        Inl e \<Rightarrow> Some (Inl e)
      | Inr p \<Rightarrow>
          let old_pos = ret_int p in
          (case ar_setPos (msg_setMode msg SM_WRITE) (size_of_int pos) of
             Inl e \<Rightarrow> Some (Inl e)
           | Inr (msg1, _) \<Rightarrow>
               map_option (\<lambda>r. bindE r (\<lambda>(msg2, b').
                 bindE (ar_setPos (msg_setMode msg2 old_mode) (size_of_int old_pos)) (\<lambda>(msg3, _).
                   Inr (msg3, b', getMsgSize msg3 > 0)))) (read_loop rd h b msg1)))"

definition read_cb2 ::
  "('b \<Rightarrow> nat \<Rightarrow> byte list \<times> 'b) \<Rightarrow> c_heap \<Rightarrow> 'b \<Rightarrow> lxz_message \<Rightarrow> (c_fault + (lxz_message \<times> 'b \<times> bool)) option" where
  "read_cb2 rd h b msg =
     (let old_mode = ar_mode msg; pos = getMsgSize msg in
      case ar_getPos msg of
        Inl e \<Rightarrow> Some (Inl e)
      | Inr p \<Rightarrow>
          let old_pos = ret_int p in
          map_option (\<lambda>r. bindE r (\<lambda>(msg2, b').
            bindE (ar_setPos (msg_setMode msg2 old_mode) (size_of_int old_pos)) (\<lambda>(msg3, _).
              Inr (msg3, b', getMsgSize msg3 > 0)))) (read_loop rd h b (msg_setMode msg SM_WRITE)))"

section \<open>Connections\<close>

text \<open>What the callbacks use of a \<open>bufferevent\<close>: its output and its callback argument.\<close>

record bufferevent =
  bev_output :: "byte list"
  bev_cbarg :: "lxz_message option"

definition Send2Client :: "bufferevent option \<Rightarrow> lxz_message option \<Rightarrow> c_fault + (bufferevent option \<times> lxz_message option)" where
  "Send2Client bev msg =
     (case (bev, msg) of
        (Some b, Some m) \<Rightarrow>
          bindE (deref (getMsgPtr m)) (\<lambda>p.
          bindE (mem_read p 0 (size_of_int (getMsgSize m))) (\<lambda>xs.
            Inr (Some (b\<lparr>bev_output := bev_output b @ xs\<rparr>), Some (ReleaseMemory m))))
      | _ \<Rightarrow> Inr (bev, msg))"

definition SendData2Client :: "bufferevent option \<Rightarrow> byte list \<Rightarrow> nat \<Rightarrow> c_fault + bufferevent option" where
  "SendData2Client bev buf len =
     (case bev of
        None \<Rightarrow> Inr None
      | Some b \<Rightarrow> bindE (mem_read buf 0 len) (\<lambda>xs. Inr (Some (b\<lparr>bev_output := bev_output b @ xs\<rparr>))))"

text \<open>\<open>CloseClient\<close>: the Lua references it drops; message and connection are freed.\<close>

definition CloseClient :: "bufferevent \<Rightarrow> int list" where
  "CloseClient bev =
     (case bev_cbarg bev of
        None \<Rightarrow> []
      | Some m \<Rightarrow> (if msg_event m \<noteq> - 1 then [msg_event m] else []) @ (if msg_luaref m \<noteq> - 1 then [msg_luaref m] else []))"

text \<open>
  \<open>accept_cb\<close>: \<open>fd\<close> is what \<open>accept\<close> returns and \<open>nodelay\<close> whether the socket option could be set; the two
  references come from Lua, \<open>this\<close> is the server's address.
\<close>

datatype accepted = NotAccepted | AcceptClosed | Accepted bufferevent

definition accept_cb :: "int \<Rightarrow> bool \<Rightarrow> u32 \<Rightarrow> u64 \<Rightarrow> int \<Rightarrow> int \<Rightarrow> accepted" where
  "accept_cb fd nodelay msg_id this ref bev_ref =
     (if fd < 0 then NotAccepted
      else if \<not> nodelay then AcceptClosed
      else
        (let m = msg_setMode (fst (message_new msg_id)) SM_WRITE;
             m1 = setEvent (SetLuaRef (setAppData m this) ref) bev_ref
         in Accepted \<lparr>bev_output = [], bev_cbarg = Some m1\<rparr>))"

text \<open>The events of a connection, and which command the Lua handler is called with.\<close>

datatype bev_event = EvTimeout | EvEof | EvError | EvConnected | EvOther

datatype lua_cmd = CMD_EVENT_ERROR | CMD_EVENT_ERROR2 | CMD_EVENT_CONNECTED

definition error_cb :: "bev_event list \<Rightarrow> lua_cmd" where
  "error_cb event =
     (if EvTimeout \<in> set event then CMD_EVENT_ERROR
      else if EvEof \<in> set event then CMD_EVENT_ERROR
      else if EvError \<in> set event then CMD_EVENT_ERROR
      else if EvConnected \<in> set event then CMD_EVENT_CONNECTED
      else CMD_EVENT_ERROR)"

definition error_cb2 :: "bev_event list \<Rightarrow> lua_cmd" where
  "error_cb2 event =
     (if EvTimeout \<in> set event then CMD_EVENT_ERROR2
      else if EvEof \<in> set event then CMD_EVENT_ERROR2
      else if EvError \<in> set event then CMD_EVENT_ERROR2
      else if EvConnected \<in> set event then CMD_EVENT_CONNECTED
      else CMD_EVENT_ERROR2)"

section \<open>Notifications\<close>

text \<open>
  The implicit copy constructor of a message copies every member: the stream with the buffer's copy
  constructor, and the pointer to the stream as it is, so that the copy's archive still works on
  the original's stream.  Here the copy is only held in the queue and its own buffer looked at.
\<close>

definition message_copy :: "c_heap \<Rightarrow> nat \<Rightarrow> lxz_message \<Rightarrow> c_fault + lxz_message" where
  "message_copy h garbage m =
     bindE (fb_copy h CACHE garbage (mf_buf (ar_stream m))) (\<lambda>b.
       Inr (m\<lparr>ar_stream := (ar_stream m)\<lparr>mf_buf := b\<rparr>\<rparr>))"

definition Notify :: "c_heap \<Rightarrow> nat \<Rightarrow> lxz_message list \<Rightarrow> int \<Rightarrow> lxz_message \<Rightarrow> c_fault + lxz_message list" where
  "Notify h garbage vvMsg code msg =
     bindE (message_copy h garbage msg) (\<lambda>pMsg. Inr (vvMsg @ [setSystemData pMsg (word_of_int code)]))"

text \<open>The queue afterwards, and the calls of the Lua handler in order: message and code.\<close>

definition notify_timer_cb :: "lxz_message list \<Rightarrow> lxz_message list \<times> (lxz_message \<times> u32) list" where
  "notify_timer_cb vvMsg = ([], map (\<lambda>m. (m, msg_sysdata m)) vvMsg)"

section \<open>Reading everything\<close>

text \<open>
  What libevent's documentation says of \<open>bufferevent_read\<close>: it moves up to the given number of bytes from
  the input buffer.  \<open>waiting\<close> is the content of that buffer.
\<close>

definition drains :: "('b \<Rightarrow> nat \<Rightarrow> byte list \<times> 'b) \<Rightarrow> ('b \<Rightarrow> byte list) \<Rightarrow> bool" where
  "drains rd waiting \<longleftrightarrow> (\<forall>b n. fst (rd b n) = take n (waiting b) \<and> waiting (snd (rd b n)) = drop n (waiting b))"

lemma overwrite_overwrite:
  "p \<le> length ys \<Longrightarrow> overwrite (overwrite ys p xs) (p + length xs) zs = overwrite ys p (xs @ zs)"
  by (simp add: overwrite_def ac_simps)

lemma overwrite_nil: "overwrite ys p [] = ys"
  by (simp add: overwrite_def)

text \<open>A write in the middle of the content or at its end.\<close>

lemma ar_Write_overwrite:
  assumes a: "ar_ok SM_WRITE a" and room: "mf_room h (ar_stream a) (length xs + n)"
  shows "\<exists>a'. ar_Write h a xs (int (length xs)) = Inr a' \<and> ar_ok SM_WRITE a' \<and>
    ar_content a' = overwrite (ar_content a) (ar_pos a) xs \<and> ar_pos a' = ar_pos a + length xs \<and>
    mf_room h (ar_stream a') n \<and> a' = a\<lparr>ar_stream := ar_stream a'\<rparr>"
proof -
  have io: "ar_bound a" "ar_func a = Some SM_WRITE" "ar_mode a = SM_WRITE" "mf_wf (ar_stream a)"
    using a unfolding ar_ok_def by blast+
  have r1: "mf_room h (ar_stream a) (length xs)" by (rule mf_room_mono [OF room]) simp
  obtain m r where m: "mf_Write h (ar_stream a) xs = Inr (m, r)" "mf_wf m"
    "mf_content m = overwrite (ar_content a) (ar_pos a) xs" "mf_pos m = ar_pos a + length xs"
    "\<And>k. mf_room h (ar_stream a) (length xs + k) \<Longrightarrow> mf_room h m k"
    using mf_Write_ok [OF io(4) r1] by metis
  have "ar_Write h a xs (int (length xs)) = Inr (a\<lparr>ar_stream := m\<rparr>)"
    using io m(1) mf_room_SIZE [OF r1] by (simp add: ar_Write_def IsReading_def SerialFunc_def mem_read_def)
  with io m room show ?thesis by (simp add: ar_ok_def del: ar_ok_modes)
qed

text \<open>The loop returns, and has put everything that waited into the message.\<close>

lemma read_loop_ok:
  "drains rd waiting \<Longrightarrow> ar_ok SM_WRITE m \<Longrightarrow> mf_room h (ar_stream m) (length (waiting b) + k) \<Longrightarrow>
     ar_pos m \<le> length (ar_content m) \<Longrightarrow>
     \<exists>m' b'. read_loop rd h b m = Some (Inr (m', b')) \<and> waiting b' = [] \<and> ar_ok SM_WRITE m' \<and> mf_room h (ar_stream m') k \<and>
       ar_content m' = overwrite (ar_content m) (ar_pos m) (waiting b) \<and> m' = m\<lparr>ar_stream := ar_stream m'\<rparr>"
proof (induction "length (waiting b)" arbitrary: b m rule: less_induct)
  case less
  let ?line = "fst (rd b MAX_LINE)" and ?b = "snd (rd b MAX_LINE)"
  have line: "?line = take MAX_LINE (waiting b)" "waiting ?b = drop MAX_LINE (waiting b)"
    using less.prems(1) by (auto simp: drains_def)
  show ?case
  proof (cases "waiting b = []")
    case True
    with line less.prems(2,3) show ?thesis by (subst read_loop.simps) (auto simp: overwrite_nil)
  next
    case False
    then have ne: "?line \<noteq> []" "length ?line \<le> MAX_LINE" and shorter: "length (waiting ?b) < length (waiting b)"
      and split: "waiting b = ?line @ waiting ?b"
      using line by (auto simp: MAX_LINE_def)
    have "mf_room h (ar_stream m) (length ?line + (length (waiting ?b) + k))"
      using less.prems(3) split by (metis length_append add.assoc)
    then obtain m1 where m1: "ar_Write h m ?line (int (length ?line)) = Inr m1" "ar_ok SM_WRITE m1"
      "ar_content m1 = overwrite (ar_content m) (ar_pos m) ?line" "ar_pos m1 = ar_pos m + length ?line"
      "mf_room h (ar_stream m1) (length (waiting ?b) + k)" "m1 = m\<lparr>ar_stream := ar_stream m1\<rparr>"
      using ar_Write_overwrite [OF less.prems(2)] by blast
    have "ar_pos m1 \<le> length (ar_content m1)" using m1(3,4) length_overwrite [OF less.prems(4)] by simp
    with less.hyps [OF shorter less.prems(1) m1(2,5)] obtain m' b' where
      "read_loop rd h ?b m1 = Some (Inr (m', b'))" "waiting b' = []" "ar_ok SM_WRITE m'" "mf_room h (ar_stream m') k"
      "ar_content m' = overwrite (ar_content m1) (ar_pos m1) (waiting ?b)" "m' = m1\<lparr>ar_stream := ar_stream m'\<rparr>" by blast
    moreover have "read_loop rd h b m = read_loop rd h ?b m1"
      using ne m1(1) by (subst read_loop.simps) (simp add: Let_def)
    moreover have "overwrite (ar_content m1) (ar_pos m1) (waiting ?b) = overwrite (ar_content m) (ar_pos m) (waiting b)"
      unfolding m1(3,4) by (subst split) (rule overwrite_overwrite [OF less.prems(4)])
    moreover have "m1\<lparr>ar_stream := s\<rparr> = m\<lparr>ar_stream := s\<rparr>" for s by (subst m1(6)) simp
    ultimately show ?thesis by metis
  qed
qed

text \<open>The position after a seek that stays in the content.\<close>

lemma ar_setPos_ok:
  assumes "ar_bound a" "mf_wf (ar_stream a)" "p \<le> length (ar_content a)"
  shows "ar_setPos a p = Inr (a\<lparr>ar_stream := (ar_stream a)\<lparr>mf_pos := p\<rparr>\<rparr>, p)"
    "mf_wf ((ar_stream a)\<lparr>mf_pos := p\<rparr>)" "mf_content ((ar_stream a)\<lparr>mf_pos := p\<rparr>) = ar_content a"
    "mf_room h ((ar_stream a)\<lparr>mf_pos := p\<rparr>) n = mf_room h (ar_stream a) n"
  using mf_SetPos_ok [OF assms(2,3)] assms(1) by (simp_all add: ar_setPos_def)

text \<open>Both callbacks end by restoring mode and position.\<close>

lemma restore_ok:
  assumes "mf_wf (ar_stream m)" "p \<le> length (ar_content m)" "length (ar_content m) < 2147483648"
  shows "\<exists>m'. bindE (ar_setPos (msg_setMode m mode) (size_of_int (ret_int p))) (\<lambda>(m', _). Inr (m', b, getMsgSize m' > 0)) =
      Inr (m', b, ar_content m \<noteq> []) \<and> ar_ok mode m' \<and> ar_content m' = ar_content m \<and> ar_pos m' = p \<and>
      ar_swaps m' = ar_swaps m \<and> mf_room h (ar_stream m') k = mf_room h (ar_stream m) k"
proof -
  let ?m = "msg_setMode m mode"
  have m: "ar_ok mode ?m" "ar_content ?m = ar_content m" "ar_swaps ?m = ar_swaps m"
    "mf_room h (ar_stream ?m) k = mf_room h (ar_stream m) k"
    using msg_setMode_ok [OF assms(1), of mode h k] by blast+
  then have b: "ar_bound ?m" "mf_wf (ar_stream ?m)" "ar_func ?m = Some mode" "ar_mode ?m = mode" unfolding ar_ok_def by blast+
  have p: "size_of_int (ret_int p) = p" using assms(2,3) by (simp add: ret_int_small size_of_int_def SIZE_MOD_def)
  have le: "p \<le> length (ar_content ?m)" using assms(2) m(2) by simp
  let ?m' = "?m\<lparr>ar_stream := (ar_stream ?m)\<lparr>mf_pos := p\<rparr>\<rparr>"
  note s = ar_setPos_ok [OF b(1,2) le]
  have ok: "ar_ok mode ?m'" using b s by (simp add: ar_ok_def del: ar_ok_modes)
  have c: "ar_content ?m' = ar_content m" using s m(2) by simp
  have "getMsgSize ?m' > 0 \<longleftrightarrow> ar_content m \<noteq> []"
    using message_size(1) [of ?m'] s c assms(3) by simp
  with s ok c p m(3,4) show ?thesis by (intro exI [of _ ?m']) simp
qed

text \<open>The read callback, with what it keeps of the message.\<close>

lemma read_cb_ok:
  assumes rd: "drains rd waiting" and m: "ar_bound m" "mf_wf (ar_stream m)"
    and room: "mf_room h (ar_stream m) (length (waiting b) + k)"
    and size: "length (ar_content m) + length (waiting b) < 2147483648"
  shows "\<exists>m' b'. read_cb rd h b m = Some (Inr (m', b', ar_content m @ waiting b \<noteq> [])) \<and> waiting b' = [] \<and>
    ar_content m' = ar_content m @ waiting b \<and> ar_pos m' = ar_pos m \<and> ar_ok (ar_mode m) m' \<and>
    ar_swaps m' = ar_swaps m \<and> mf_room h (ar_stream m') k"
proof -
  let ?w = "msg_setMode m SM_WRITE" and ?n = "length (ar_content m)"
  have w: "ar_ok SM_WRITE ?w" "ar_content ?w = ar_content m" "mf_room h (ar_stream ?w) (length (waiting b) + k)" "ar_swaps ?w = ar_swaps m"
    using msg_setMode_ok [OF m(2), of SM_WRITE h] room by blast+
  have wb: "ar_bound ?w" "mf_wf (ar_stream ?w)" "ar_func ?w = Some SM_WRITE" "ar_mode ?w = SM_WRITE" using w(1) unfolding ar_ok_def by blast+
  have sz: "size_of_int (getMsgSize m) = ?n"
    using message_size(1) [OF m(2)] size by (simp add: SIZE_MOD_def)
  let ?m1 = "?w\<lparr>ar_stream := (ar_stream ?w)\<lparr>mf_pos := ?n\<rparr>\<rparr>"
  have le: "?n \<le> length (ar_content ?w)" using w(2) by simp
  note s = ar_setPos_ok [OF wb(1,2) le]
  have m1: "ar_ok SM_WRITE ?m1" "mf_room h (ar_stream ?m1) (length (waiting b) + k)" "ar_pos ?m1 \<le> length (ar_content ?m1)"
    using wb s w by (simp_all add: ar_ok_def del: ar_ok_modes)
  obtain m2 b' where l: "read_loop rd h b ?m1 = Some (Inr (m2, b'))" "waiting b' = []" "ar_ok SM_WRITE m2"
    "ar_content m2 = overwrite (ar_content ?m1) (ar_pos ?m1) (waiting b)" "mf_room h (ar_stream m2) k" "m2 = ?m1\<lparr>ar_stream := ar_stream m2\<rparr>"
    using read_loop_ok [OF rd m1] by blast
  have sw: "ar_swaps m2 = ar_swaps m" by (subst l(6)) (simp add: w(4))
  have c2: "ar_content m2 = ar_content m @ waiting b" using l(4) s(3) w(2) by (simp add: overwrite_def)
  have wf2: "mf_wf (ar_stream m2)" using l(3) unfolding ar_ok_def by blast
  have p: "ar_pos m \<le> length (ar_content m2)" using mf.pos_le [OF m(2)] c2 by simp
  have "length (ar_content m2) < 2147483648" using c2 size by simp
  from restore_ok [OF wf2 p this, of "ar_mode m" b' h k] obtain m3 where
    r: "bindE (ar_setPos (msg_setMode m2 (ar_mode m)) (size_of_int (ret_int (ar_pos m))))
      (\<lambda>(m', _). Inr (m', b', getMsgSize m' > 0)) = Inr (m3, b', ar_content m2 \<noteq> [])"
    "ar_ok (ar_mode m) m3" "ar_content m3 = ar_content m2" "ar_pos m3 = ar_pos m"
    "ar_swaps m3 = ar_swaps m2" "mf_room h (ar_stream m3) k" using l(5) by blast
  have "read_cb rd h b m = Some (Inr (m3, b', ar_content m2 \<noteq> []))"
    using l(1) m(1) s(1) sz r(1) by (simp add: read_cb_def Let_def ar_getPos_def mf_GetPos_def del: ar_ok_modes)
  with r(2-) l(2) show ?thesis unfolding c2 sw by blast
qed

section \<open>Properties\<close>

text \<open>
  C17: The read callback of an accepted connection returns; it appends everything that waits on the
  connection to the message, whatever has been read of the message before, keeps its mode and its
  position, and calls Lua if the message is not empty.
\<close>

theorem read_cb_appends:
  assumes rd: "drains rd waiting" and m: "ar_bound m" "mf_wf (ar_stream m)"
    and room: "mf_room h (ar_stream m) (length (waiting b))"
    and size: "length (ar_content m) + length (waiting b) < 2147483648"
  shows "\<exists>m' b'. read_cb rd h b m = Some (Inr (m', b', ar_content m @ waiting b \<noteq> [])) \<and> waiting b' = [] \<and>
    ar_content m' = ar_content m @ waiting b \<and> ar_pos m' = ar_pos m \<and> ar_ok (ar_mode m) m'"
proof -
  have "mf_room h (ar_stream m) (length (waiting b) + 0)" using room by simp
  from read_cb_ok [OF rd m this size] show ?thesis by blast
qed

text \<open>A connection whose state is its input buffer.\<close>

definition take_input :: "byte list \<Rightarrow> nat \<Rightarrow> byte list \<times> byte list" where
  "take_input b n = (take n b, drop n b)"

lemma take_input_drains: "drains take_input (\<lambda>b. b)"
  by (simp add: drains_def take_input_def)

lemma hi_message_room: "n < 1000000 \<Longrightarrow> mf_room open_heap (ar_stream hi_message) n"
  by (simp add: hi_message_def mf_new_def mf_room_def SIZE_MOD_def max_def)

lemma hi_message_bound: "ar_bound hi_message"
  by (simp add: hi_message_def message_new_writing_def msg_setMode_def ar_Initial_def)

theorem read_cb_appends_witness:
  "\<exists>m' b'. read_cb take_input open_heap [33, 34] hi_message = Some (Inr (m', b', ar_content hi_message @ [33, 34] \<noteq> [])) \<and>
    b' = [] \<and> ar_content m' = ar_content hi_message @ [33, 34] \<and> ar_pos m' = ar_pos hi_message \<and>
    ar_ok (ar_mode hi_message) m'"
  by (rule read_cb_appends [OF take_input_drains hi_message_bound hi_message_ok(1)])
    (simp_all add: hi_message_room hi_message_ok(2))

text \<open>
  The read callback of a connection that the server opened itself does not move to the end of the
  message first: new bytes replace the start of the message, where bytes from an earlier event that
  Lua has not consumed yet are lost.
\<close>

theorem read_cb2_overwrites:
  assumes rd: "drains rd waiting" and m: "ar_bound m" "mf_wf (ar_stream m)"
    and room: "mf_room h (ar_stream m) (length (waiting b))"
    and size: "length (ar_content m) + length (waiting b) < 2147483648"
  shows "\<exists>m' b' called. read_cb2 rd h b m = Some (Inr (m', b', called)) \<and> waiting b' = [] \<and>
    ar_content m' = waiting b @ drop (length (waiting b)) (ar_content m)"
proof -
  let ?w = "msg_setMode m SM_WRITE"
  have w: "ar_ok SM_WRITE ?w" "ar_pos ?w = 0" "ar_content ?w = ar_content m" "mf_room h (ar_stream ?w) (length (waiting b))"
    using msg_setMode_ok [OF m(2), of SM_WRITE h] room by blast+
  have "ar_pos ?w \<le> length (ar_content ?w)" using w(2) by simp
  then obtain m2 b' where l: "read_loop rd h b ?w = Some (Inr (m2, b'))" "waiting b' = []" "ar_ok SM_WRITE m2"
    "ar_content m2 = overwrite (ar_content ?w) (ar_pos ?w) (waiting b)"
    using read_loop_ok [OF rd w(1), of h b 0] w(4) by auto
  have c2: "ar_content m2 = waiting b @ drop (length (waiting b)) (ar_content m)" using l(4) w(2,3) by (simp add: overwrite_def)
  have wf2: "mf_wf (ar_stream m2)" using l(3) unfolding ar_ok_def by blast
  have p: "ar_pos m \<le> length (ar_content m2)" using mf.pos_le [OF m(2)] c2 by simp
  have "length (ar_content m2) < 2147483648" using c2 size by simp
  from restore_ok [OF wf2 p this, of "ar_mode m" b'] obtain m3 where
    r: "bindE (ar_setPos (msg_setMode m2 (ar_mode m)) (size_of_int (ret_int (ar_pos m))))
      (\<lambda>(m', _). Inr (m', b', getMsgSize m' > 0)) = Inr (m3, b', ar_content m2 \<noteq> [])" "ar_content m3 = ar_content m2" by blast
  have "read_cb2 rd h b m = Some (Inr (m3, b', ar_content m2 \<noteq> []))"
    using l(1) m(1) r(1) by (simp add: read_cb2_def Let_def ar_getPos_def mf_GetPos_def del: ar_ok_modes)
  with r(2) l(2) show ?thesis unfolding c2 by blast
qed

theorem read_cb2_overwrites_witness:
  "\<exists>m' b' called. read_cb2 take_input open_heap [33] hi_message = Some (Inr (m', b', called)) \<and> b' = [] \<and>
    ar_content m' = [33] @ drop (length [33 :: byte]) (ar_content hi_message)"
  by (rule read_cb2_overwrites [OF take_input_drains hi_message_bound hi_message_ok(1)])
    (simp_all add: hi_message_room hi_message_ok(2))

text \<open>
  A message of at most 32 bytes does not survive \<open>Notify\<close>: the copy constructor of its buffer leaves
  the capacity unset, and unless the unset value happens to be small, the queued copy's bytes are
  looked up through an unset pointer.
\<close>

theorem Notify_copy_unset:
  assumes "fb_heap (mf_buf (ar_stream m)) = None" "CACHE < garbage"
  shows "\<exists>c. Notify h garbage q code m = Inr (q @ [c]) \<and> getMsgSize c = getMsgSize m \<and> getMsgPtr c = None"
  using assms by (simp add: Notify_def message_copy_def fb_copy_def setSystemData_def getMsgSize_def mf_GetValidCount_def
      getMsgPtr_def mf_GetBuffer_def fb_buf_def Let_def)

theorem Notify_copy_unset_witness:
  "\<exists>c. Notify open_heap 99 [] 7 hi_message = Inr ([] @ [c]) \<and> getMsgSize c = getMsgSize hi_message \<and> getMsgPtr c = None"
  by (rule Notify_copy_unset) (simp_all add: hi_message_def mf_new_def CACHE_def)

text \<open>Sending hands over the message's bytes and empties the message.\<close>

lemma Send2Client_ok:
  assumes "mf_wf (ar_stream m)" "length (ar_content m) < 2147483648"
  shows "\<exists>m'. Send2Client (Some b) (Some m) = Inr (Some (b\<lparr>bev_output := bev_output b @ ar_content m\<rparr>), Some m') \<and>
    ar_content m' = [] \<and> ar_pos m' = 0"
proof -
  obtain p where p: "getMsgPtr m = Some (ar_content m @ p)" using message_size(2) [OF assms] by blast
  have "size_of_int (getMsgSize m) = length (ar_content m)"
    unfolding message_size(1) [OF assms] using assms(2) by (intro size_of_int_nat) (simp add: SIZE_MOD_def)
  moreover have "fb_text CACHE (fb_release CACHE (mf_buf (ar_stream m))) = []"
    using assms(1) fb_release_wf by (auto simp: mf_wf_def)
  ultimately show ?thesis
    using p by (simp add: Send2Client_def deref_def mem_read_def ReleaseMemory_def mf_Release_def mf_content_def)
qed

end
