(* ===== verification/HttpClient.thy ===== *)
theory HttpClient
  imports Connections
begin

text \<open>
  The HTTP client of \<open>EventServer.cpp\<close>: a request object that starts a libevent request, follows
  redirections, hands the answer to Lua (to a waiting coroutine, or to the dispatcher) and is freed.
  libevent and Lua are not modelled: the parsed parts of a URL, whether its constructors succeed,
  what \<open>evhttp_make_request\<close> returns, whether the coroutine is suspended and whether the dispatcher is
  a function are arguments.  The state
  counts the objects alive and records what was sent, who was resumed and what was dispatched.
\<close>

section \<open>State\<close>

text \<open>The parts of a parsed URL, \<open>None\<close> where libevent returns a null pointer.\<close>

record evhttp_uri =
  uri_host :: "byte list option"
  uri_port :: int
  uri_path :: "byte list option"
  uri_query :: "byte list option"

text \<open>
  What libevent answers while a request is started: whether \<open>evhttp_connection_base_new\<close> and
  \<open>evhttp_request_new\<close> give an object, and the result of \<open>evhttp_make_request\<close>.
\<close>

record ev_result =
  ev_cn :: bool
  ev_req :: bool
  ev_made :: int

datatype req_flag = REQUEST_POST_FLAG | REQUEST_GET_FLAG

record http_request =
  hq_thread :: "nat option"
  hq_thread_ref :: int
  hq_respone_msg :: "lxz_message option"
  hq_event_server :: bool
  hq_uri :: "evhttp_uri option"
  hq_cn :: bool
  hq_req :: bool
  hq_content_type :: "byte list option"
  hq_post_data :: "byte list option"

text \<open>A request as libevent sends it: \<open>sr_host\<close> is the host it is sent to and the value of its header \<open>Host\<close>.\<close>

record sent_request =
  sr_flag :: req_flag
  sr_host :: "byte list option"
  sr_port :: int
  sr_target :: "byte list"
  sr_body :: "byte list"

text \<open>Objects alive, and the history: requests, resumed coroutines with code and body, dispatched codes.\<close>

record http_world =
  hw_reqs :: int
  hw_uris :: int
  hw_cns :: int
  hw_msgs :: int
  hw_strs :: int
  hw_sent :: "sent_request list"
  hw_resumed :: "(nat \<times> int \<times> byte list) list"
  hw_unrefs :: "int list"
  hw_dispatched :: "(int \<times> byte list) list"

section \<open>Starting a request\<close>

text \<open>
  The target of a GET request: \<open>sprintf\<close> into a block of \<open>len + 2\<close> bytes, or a slash when path and query
  are both missing or empty.
\<close>

definition get_target :: "evhttp_uri \<Rightarrow> c_fault + byte list" where
  "get_target uri =
     (let query = uri_query uri; path = uri_path uri;
          len = (case query of Some q \<Rightarrow> length q | None \<Rightarrow> 0) + (case path of Some p \<Rightarrow> length p | None \<Rightarrow> 0) + 1 in
      if len > 1 then
        (case path of
           None \<Rightarrow> Inl NullDeref
         | Some p \<Rightarrow>
             let printed = (case query of Some q \<Rightarrow> p @ bytes ''?'' @ q | None \<Rightarrow> p) in
             bindE (mem_write (replicate (len + 2) 0) 0 (printed @ [0])) (\<lambda>_. Inr printed))
      else Inr (bytes ''/''))"

text \<open>\<open>start_url_request\<close> closes the previous connection and opens one to the host of the URL; the result is its
  return value.  libevent frees a request that \<open>evhttp_make_request\<close> refuses; the POST branch goes on using it.\<close>

definition start_url_request ::
  "http_world \<Rightarrow> http_request \<Rightarrow> req_flag \<Rightarrow> ev_result \<Rightarrow> c_fault + (http_world \<times> http_request \<times> int)" where
  "start_url_request w r flag ev =
     (let w1 = (if hq_cn r then w\<lparr>hw_cns := hw_cns w - 1\<rparr> else w) in
      case hq_uri r of
        None \<Rightarrow> Inl NullDeref
      | Some uri \<Rightarrow>
          let port = (if uri_port uri = - 1 then 80 else uri_port uri);
              w2 = w1\<lparr>hw_cns := hw_cns w1 + (if ev_cn ev then 1 else 0)\<rparr>;
              r1 = r\<lparr>hq_cn := ev_cn ev, hq_req := ev_req ev\<rparr> in
          if \<not> ev_req ev then Inr (w2, r1, 0)
          else
            (case flag of
               REQUEST_POST_FLAG \<Rightarrow>
                 let path = (case uri_path uri of Some p \<Rightarrow> p | None \<Rightarrow> bytes ''/'') in
                 bindE (guardE (ev_cn ev) NullDeref) (\<lambda>_.
                 bindE (guardE (ev_made ev = 0) UseAfterFree) (\<lambda>_.
                 bindE (deref (hq_post_data r)) (\<lambda>body.
                   Inr (w2\<lparr>hw_sent := hw_sent w2 @ [\<lparr>sr_flag = flag, sr_host = uri_host uri, sr_port = port, sr_target = path, sr_body = body\<rparr>]\<rparr>, r1, 0))))
             | REQUEST_GET_FLAG \<Rightarrow>
                 bindE (get_target uri) (\<lambda>target.
                 bindE (guardE (ev_cn ev) NullDeref) (\<lambda>_.
                   if ev_made ev \<noteq> 0 then Inr (w2, r1, ev_made ev)
                   else Inr (w2\<lparr>hw_sent := hw_sent w2 @ [\<lparr>sr_flag = flag, sr_host = uri_host uri, sr_port = port, sr_target = target, sr_body = []\<rparr>]\<rparr>, r1, 0)))))"

definition HTTP_CONTENT_TYPE_URL_ENCODED :: "byte list" where
  "HTTP_CONTENT_TYPE_URL_ENCODED = bytes ''application/x-www-form-urlencoded''"

text \<open>\<open>http_request_new\<close> with the parsed URL; a URL that does not parse gives a null pointer.\<close>

definition http_request_new ::
  "http_world \<Rightarrow> evhttp_uri option \<Rightarrow> req_flag \<Rightarrow> byte list option \<Rightarrow> byte list option \<Rightarrow> http_world \<times> http_request" where
  "http_request_new w uri flag content_type data =
     (let r = \<lparr>hq_thread = None, hq_thread_ref = 0, hq_respone_msg = None, hq_event_server = False, hq_uri = uri,
               hq_cn = False, hq_req = False, hq_content_type = None, hq_post_data = None\<rparr>;
          w1 = w\<lparr>hw_reqs := hw_reqs w + 1, hw_uris := hw_uris w + (if uri = None then 0 else 1)\<rparr> in
      case flag of
        REQUEST_GET_FLAG \<Rightarrow> (w1, r)
      | REQUEST_POST_FLAG \<Rightarrow>
          let ct = (case content_type of None \<Rightarrow> HTTP_CONTENT_TYPE_URL_ENCODED | Some c \<Rightarrow> c) in
          (w1\<lparr>hw_strs := hw_strs w1 + 1 + (if data = None then 0 else 1)\<rparr>,
           r\<lparr>hq_content_type := Some ct, hq_post_data := data\<rparr>))"

text \<open>\<open>http_request_free\<close>: a null connection or URL is not accepted by libevent.\<close>

definition http_request_free :: "http_world \<Rightarrow> http_request \<Rightarrow> req_flag \<Rightarrow> c_fault + http_world" where
  "http_request_free w r flag =
     bindE (case hq_respone_msg r of
              None \<Rightarrow> Inr w
            | Some msg \<Rightarrow>
                if msg_luaref msg \<noteq> - 1 \<and> msg_app msg = 0 then Inl NullDeref
                else Inr (w\<lparr>hw_msgs := hw_msgs w - 1,
                            hw_unrefs := hw_unrefs w @ (if msg_luaref msg \<noteq> - 1 then [msg_luaref msg] else [])\<rparr>)) (\<lambda>w1.
     bindE (guardE (hq_cn r \<and> hq_uri r \<noteq> None) NullDeref) (\<lambda>_.
       let w2 = w1\<lparr>hw_cns := hw_cns w1 - 1, hw_uris := hw_uris w1 - 1, hw_reqs := hw_reqs w1 - 1\<rparr> in
       case flag of
         REQUEST_GET_FLAG \<Rightarrow> Inr w2
       | REQUEST_POST_FLAG \<Rightarrow>
           Inr (w2\<lparr>hw_strs := hw_strs w2 - (if hq_content_type r = None then 0 else 1) - (if hq_post_data r = None then 0 else 1)\<rparr>)))"

definition start_http_requset ::
  "http_world \<Rightarrow> evhttp_uri option \<Rightarrow> req_flag \<Rightarrow> byte list option \<Rightarrow> byte list option \<Rightarrow> ev_result \<Rightarrow>
     c_fault + (http_world \<times> http_request)" where
  "start_http_requset w uri flag content_type data ev =
     (case http_request_new w uri flag content_type data of
        (w1, r) \<Rightarrow> bindE (start_url_request w1 r flag ev) (\<lambda>(w2, r1, _). Inr (w2, r1)))"

text \<open>
  \<open>send_http_get\<close> and \<open>send_http_post\<close>: without a request object the structure alone is freed.  \<open>ref\<close> is Lua's
  reference to the coroutine.
\<close>

definition send_http_get ::
  "http_world \<Rightarrow> evhttp_uri option \<Rightarrow> nat option \<Rightarrow> int \<Rightarrow> u32 \<Rightarrow> ev_result \<Rightarrow>
     c_fault + (http_world \<times> http_request option \<times> int)" where
  "send_http_get w uri co ref msg_id ev =
     bindE (start_http_requset w uri REQUEST_GET_FLAG None None ev) (\<lambda>(w1, r).
       if \<not> hq_req r then Inr (w1\<lparr>hw_reqs := hw_reqs w1 - 1\<rparr>, None, - 1)
       else Inr (w1\<lparr>hw_msgs := hw_msgs w1 + 1\<rparr>,
                 Some (r\<lparr>hq_thread := co, hq_thread_ref := (if co = None then - 1 else ref), hq_event_server := True,
                         hq_respone_msg := Some (msg_setMode (fst (message_new msg_id)) SM_WRITE)\<rparr>), 0))"

definition send_http_post ::
  "http_world \<Rightarrow> evhttp_uri option \<Rightarrow> byte list option \<Rightarrow> nat option \<Rightarrow> int \<Rightarrow> u32 \<Rightarrow> ev_result \<Rightarrow>
     c_fault + (http_world \<times> http_request option \<times> int)" where
  "send_http_post w uri data co ref msg_id ev =
     bindE (start_http_requset w uri REQUEST_POST_FLAG (Some HTTP_CONTENT_TYPE_URL_ENCODED) data ev) (\<lambda>(w1, r).
       if \<not> hq_req r then Inr (w1\<lparr>hw_reqs := hw_reqs w1 - 1\<rparr>, None, - 1)
       else Inr (w1\<lparr>hw_msgs := hw_msgs w1 + 1\<rparr>,
                 Some (r\<lparr>hq_thread := co, hq_thread_ref := (if co = None then - 1 else ref), hq_event_server := True,
                         hq_respone_msg := Some (msg_setMode (fst (message_new msg_id)) SM_WRITE)\<rparr>), 0))"

section \<open>Answers\<close>

text \<open>
  \<open>_lua_proc\<close> as the client uses it: without a coroutine the dispatcher is called, if it is a function; a
  coroutine that is suspended is resumed with the code and the message, and its reference dropped.  \<open>ready\<close> is the
  answer of \<open>lua_isfunction\<close> or of \<open>lua_status\<close>.  \<open>proc_cb\<close> hands a whole request to the dispatcher.
\<close>

definition lua_proc_http :: "http_world \<Rightarrow> lxz_message \<Rightarrow> int \<Rightarrow> nat option \<Rightarrow> int \<Rightarrow> bool \<Rightarrow> http_world" where
  "lua_proc_http w msg code co ref ready =
     (case co of
        None \<Rightarrow> if ready then w\<lparr>hw_dispatched := hw_dispatched w @ [(code, ar_content msg)]\<rparr> else w
      | Some c \<Rightarrow>
          if ready then
            w\<lparr>hw_resumed := hw_resumed w @ [(c, code, ar_content msg)],
              hw_unrefs := hw_unrefs w @ (if ref \<noteq> - 1 then [ref] else [])\<rparr>
          else w)"

text \<open>
  A response: status code, body, and the parsed \<open>Location\<close> header.  The callbacks give the request that is
  still alive, if any; \<open>ev\<close> is for the request that a redirection starts.
\<close>

record http_response =
  rs_code :: int
  rs_body :: "byte list"
  rs_location :: "evhttp_uri option"

definition proc_cb :: "http_world \<Rightarrow> http_response \<Rightarrow> bool \<Rightarrow> http_world" where
  "proc_cb w rs ready = (if ready then w\<lparr>hw_dispatched := hw_dispatched w @ [(rs_code rs, rs_body rs)]\<rparr> else w)"

definition get_cb ::
  "c_heap \<Rightarrow> http_world \<Rightarrow> http_request \<Rightarrow> http_response \<Rightarrow> bool \<Rightarrow> ev_result \<Rightarrow>
     c_fault + (http_world \<times> http_request option)" where
  "get_cb h w r rs ready ev =
     (if rs_code rs = 200 then
        bindE (deref (hq_respone_msg r)) (\<lambda>msg.
        bindE (ar_Write h (msg_setMode msg SM_WRITE) (rs_body rs) (int (length (rs_body rs)))) (\<lambda>msg1.
        bindE (http_request_free (lua_proc_http w msg1 200 (hq_thread r) (hq_thread_ref r) ready)
                 (r\<lparr>hq_respone_msg := Some msg1\<rparr>) REQUEST_GET_FLAG) (\<lambda>w1. Inr (w1, None))))
      else if rs_code rs = 301 \<or> rs_code rs = 302 then
        bindE (start_url_request (w\<lparr>hw_uris := hw_uris w - (if hq_uri r = None then 0 else 1) + (if rs_location rs = None then 0 else 1)\<rparr>)
                 (r\<lparr>hq_uri := rs_location rs\<rparr>) REQUEST_GET_FLAG ev) (\<lambda>(w1, r1, _). Inr (w1, Some r1))
      else
        bindE (deref (hq_respone_msg r)) (\<lambda>msg.
        bindE (http_request_free (lua_proc_http w msg (rs_code rs) (hq_thread r) (hq_thread_ref r) ready) r REQUEST_GET_FLAG) (\<lambda>w1.
          Inr (w1, None))))"

text \<open>\<open>post_cb\<close> calls the dispatcher with the request; the waiting coroutine is not resumed.\<close>

definition post_cb ::
  "http_world \<Rightarrow> http_request \<Rightarrow> http_response \<Rightarrow> bool \<Rightarrow> ev_result \<Rightarrow> c_fault + (http_world \<times> http_request option)" where
  "post_cb w r rs ready ev =
     (if rs_code rs = 200 then
        bindE (http_request_free (proc_cb w rs ready) r REQUEST_POST_FLAG) (\<lambda>w1. Inr (w1, None))
      else if rs_code rs = 301 then
        bindE (http_request_free w r REQUEST_POST_FLAG) (\<lambda>w1. Inr (w1, None))
      else if rs_code rs = 302 then
        bindE (start_url_request (w\<lparr>hw_uris := hw_uris w - (if hq_uri r = None then 0 else 1) + (if rs_location rs = None then 0 else 1)\<rparr>)
                 (r\<lparr>hq_uri := rs_location rs\<rparr>) REQUEST_POST_FLAG ev) (\<lambda>(w1, r1, _). Inr (w1, Some r1))
      else
        bindE (http_request_free (proc_cb w rs ready) r REQUEST_POST_FLAG) (\<lambda>w1. Inr (w1, None)))"

text \<open>The callbacks registered with libevent: it passes a null request when the exchange failed.\<close>

definition http_requset_get_cb ::
  "c_heap \<Rightarrow> http_world \<Rightarrow> http_request \<Rightarrow> http_response option \<Rightarrow> bool \<Rightarrow> ev_result \<Rightarrow>
     c_fault + (http_world \<times> http_request option)" where
  "http_requset_get_cb h w r req ready ev =
     (case req of
        Some rs \<Rightarrow> if hq_event_server r then get_cb h w r rs ready ev else Inl NullDeref
      | None \<Rightarrow> Inr (w, Some (r\<lparr>hq_req := False\<rparr>)))"

definition http_requset_post_cb ::
  "http_world \<Rightarrow> http_request \<Rightarrow> http_response option \<Rightarrow> bool \<Rightarrow> ev_result \<Rightarrow> c_fault + (http_world \<times> http_request option)" where
  "http_requset_post_cb w r req ready ev =
     (case req of
        Some rs \<Rightarrow> if hq_event_server r then post_cb w r rs ready ev else Inl NullDeref
      | None \<Rightarrow> Inr (w, Some (r\<lparr>hq_req := False\<rparr>)))"

section \<open>Accounting\<close>

text \<open>The objects alive: requests, URLs, connections, messages, copied strings.\<close>

definition live :: "http_world \<Rightarrow> int list" where
  "live w = [hw_reqs w, hw_uris w, hw_cns w, hw_msgs w, hw_strs w]"

definition ev_fine :: "ev_result \<Rightarrow> bool" where
  "ev_fine ev \<longleftrightarrow> ev_cn ev \<and> ev_req ev \<and> ev_made ev = 0"

definition url_fine :: "evhttp_uri option \<Rightarrow> bool" where
  "url_fine uri \<longleftrightarrow> (case uri of Some u \<Rightarrow> uri_path u \<noteq> None | None \<Rightarrow> False)"

text \<open>A redirection whose target parses and whose request libevent accepts.\<close>

definition redirect_fine :: "http_response \<times> ev_result \<Rightarrow> bool" where
  "redirect_fine a \<longleftrightarrow> rs_code (fst a) \<in> {301, 302} \<and> url_fine (rs_location (fst a)) \<and> ev_fine (snd a)"

text \<open>The answers of a GET request, one after the other, until the request is gone.\<close>

fun get_answers ::
  "c_heap \<Rightarrow> bool \<Rightarrow> http_world \<Rightarrow> http_request option \<Rightarrow> (http_response \<times> ev_result) list \<Rightarrow>
     c_fault + (http_world \<times> http_request option)" where
  "get_answers h ready w r [] = Inr (w, r)"
| "get_answers h ready w None (a # as) = Inl UseAfterFree"
| "get_answers h ready w (Some r) (a # as) =
     bindE (http_requset_get_cb h w r (Some (fst a)) ready (snd a)) (\<lambda>(w1, r1). get_answers h ready w1 r1 as)"

text \<open>
  A request under way in \<open>w\<close> that was started in \<open>w0\<close>: it has exactly one request, URL, connection and message
  alive, its message is still empty, and nobody has been told anything.
\<close>

definition under_way :: "http_world \<Rightarrow> nat option \<Rightarrow> int \<Rightarrow> lxz_message \<Rightarrow> http_world \<Rightarrow> http_request \<Rightarrow> bool" where
  "under_way w0 co ref msg w r \<longleftrightarrow>
     hw_reqs w = hw_reqs w0 + 1 \<and> hw_uris w = hw_uris w0 + 1 \<and> hw_cns w = hw_cns w0 + 1 \<and> hw_msgs w = hw_msgs w0 + 1 \<and>
     hw_strs w = hw_strs w0 \<and> hw_resumed w = hw_resumed w0 \<and> hw_unrefs w = hw_unrefs w0 \<and> hw_dispatched w = hw_dispatched w0 \<and>
     hq_cn r \<and> hq_uri r \<noteq> None \<and> hq_event_server r \<and> hq_thread r = co \<and> hq_thread_ref r = ref \<and> hq_respone_msg r = Some msg"

text \<open>The target of a GET fits its block.\<close>

lemma get_target_path:
  "uri_path u = Some p \<Longrightarrow> get_target u = Inr
     (case uri_query u of None \<Rightarrow> (if p = [] then bytes ''/'' else p) | Some q \<Rightarrow> if p = [] \<and> q = [] then bytes ''/'' else p @ bytes ''?'' @ q)"
  by (auto simp: get_target_def mem_write_def bytes_def split: option.splits)

lemma start_get_ok:
  assumes "url_fine (hq_uri r)" "ev_fine ev"
  obtains t where "start_url_request w r REQUEST_GET_FLAG ev =
    Inr (w\<lparr>hw_cns := hw_cns w + (if hq_cn r then 0 else 1), hw_sent := hw_sent w @ [t]\<rparr>, r\<lparr>hq_cn := True, hq_req := True\<rparr>, 0)"
proof -
  from assms(1) obtain u p where u: "hq_uri r = Some u" "uri_path u = Some p" by (auto simp: url_fine_def split: option.splits)
  show thesis using assms(2) u(1)
    by (cases "hq_cn r") (rule that, simp add: start_url_request_def ev_fine_def get_target_path [OF u(2)] Let_def)+
qed

lemma send_http_get_under_way:
  assumes "url_fine uri" "ev_fine ev"
  shows "\<exists>w' r t. send_http_get w uri co ref msg_id ev = Inr (w', Some r, 0) \<and> hw_sent w' = hw_sent w @ [t] \<and>
    under_way w co (if co = None then - 1 else ref) (msg_setMode (fst (message_new msg_id)) SM_WRITE) w' r"
proof -
  obtain w1 r where new: "http_request_new w uri REQUEST_GET_FLAG None None = (w1, r)" by fastforce
  then have r: "hq_uri r = uri" "\<not> hq_cn r" and w1: "w1 = w\<lparr>hw_reqs := hw_reqs w + 1, hw_uris := hw_uris w + 1\<rparr>"
    using assms(1) by (auto simp: http_request_new_def Let_def url_fine_def split: option.splits)
  obtain t where "start_url_request w1 r REQUEST_GET_FLAG ev =
    Inr (w1\<lparr>hw_cns := hw_cns w1 + 1, hw_sent := hw_sent w1 @ [t]\<rparr>, r\<lparr>hq_cn := True, hq_req := True\<rparr>, 0)"
    using start_get_ok [of r ev w1] assms r by auto
  with new r assms(1) show ?thesis
    by (auto simp: send_http_get_def start_http_requset_def under_way_def w1 url_fine_def split: option.splits)
qed

lemma redirect_under_way:
  assumes "under_way w0 co ref msg w r" "redirect_fine a"
  shows "\<exists>w' r' t. http_requset_get_cb h w r (Some (fst a)) ready (snd a) = Inr (w', Some r') \<and> hw_sent w' = hw_sent w @ [t] \<and>
    under_way w0 co ref msg w' r'"
proof -
  let ?r = "r\<lparr>hq_uri := rs_location (fst a)\<rparr>"
  have a: "rs_code (fst a) = 301 \<or> rs_code (fst a) = 302" "url_fine (hq_uri ?r)" "ev_fine (snd a)" "rs_location (fst a) \<noteq> None"
    using assms(2) by (auto simp: redirect_fine_def url_fine_def split: option.splits)
  from assms(1) have r: "hq_uri r \<noteq> None" "hq_cn ?r" "hq_event_server r" by (auto simp: under_way_def)
  obtain t where "start_url_request (w\<lparr>hw_uris := hw_uris w - 1 + 1\<rparr>) ?r REQUEST_GET_FLAG (snd a) =
    Inr (w\<lparr>hw_uris := hw_uris w - 1 + 1, hw_cns := hw_cns w, hw_sent := hw_sent w @ [t]\<rparr>, ?r\<lparr>hq_cn := True, hq_req := True\<rparr>, 0)"
    using start_get_ok [OF a(2,3), of "w\<lparr>hw_uris := hw_uris w - 1 + 1\<rparr>"] r(2) by auto
  then have "http_requset_get_cb h w r (Some (fst a)) ready (snd a) =
    Inr (w\<lparr>hw_uris := hw_uris w - 1 + 1, hw_cns := hw_cns w, hw_sent := hw_sent w @ [t]\<rparr>, Some (?r\<lparr>hq_cn := True, hq_req := True\<rparr>))"
    using a(1,4) r by (auto simp: http_requset_get_cb_def get_cb_def)
  with a(4) assms(1) show ?thesis by (auto simp: under_way_def)
qed

lemma redirects_under_way:
  "under_way w0 co ref msg w r \<Longrightarrow> list_all redirect_fine hops \<Longrightarrow>
     \<exists>w' r'. get_answers h ready w (Some r) (hops @ as) = get_answers h ready w' (Some r') as \<and>
       length (hw_sent w') = length (hw_sent w) + length hops \<and> under_way w0 co ref msg w' r'"
proof (induction hops arbitrary: w r)
  case (Cons a hops)
  from redirect_under_way [OF Cons.prems(1), of a h ready] Cons.prems(2) obtain w1 r1 t where
    1: "http_requset_get_cb h w r (Some (fst a)) ready (snd a) = Inr (w1, Some r1)" "hw_sent w1 = hw_sent w @ [t]"
      "under_way w0 co ref msg w1 r1" by auto
  with Cons.IH [OF 1(3)] Cons.prems(2) show ?case by auto
qed auto

text \<open>The last answer ends the request; its body is kept when the code is 200.\<close>

lemma last_answer:
  assumes uw: "under_way w0 (Some c) ref msg w r" and code: "rs_code rs \<notin> {301, 302}"
    and msg: "mf_wf (ar_stream msg)" "ar_content msg = []" "msg_luaref msg = - 1" "mf_room h (ar_stream msg) (length (rs_body rs))"
  shows "\<exists>w'. http_requset_get_cb h w r (Some rs) True ev = Inr (w', None) \<and> live w' = live w0 \<and> hw_sent w' = hw_sent w \<and>
    hw_resumed w' = hw_resumed w0 @ [(c, rs_code rs, if rs_code rs = 200 then rs_body rs else [])] \<and>
    hw_unrefs w' = hw_unrefs w0 @ (if ref \<noteq> - 1 then [ref] else [])"
proof -
  let ?m = "msg_setMode msg SM_WRITE"
  have m: "ar_ok SM_WRITE ?m" "ar_content ?m = []" "ar_pos ?m = 0" "mf_room h (ar_stream ?m) (length (rs_body rs) + 0)"
    using msg_setMode_ok [OF msg(1), of SM_WRITE h] msg by auto
  obtain m1 where m1: "ar_Write h ?m (rs_body rs) (int (length (rs_body rs))) = Inr m1"
    "ar_content m1 = rs_body rs" "m1 = ?m\<lparr>ar_stream := ar_stream m1\<rparr>"
    using ar_Write_overwrite [OF m(1,4)] m(2,3) by (auto simp: overwrite_def)
  have "msg_luaref m1 = - 1" by (subst m1(3)) (simp add: msg_setMode_def ar_Initial_def msg(3))
  with m1(1,2) uw code msg(2,3) show ?thesis
    by (auto simp: http_requset_get_cb_def get_cb_def under_way_def deref_def http_request_free_def lua_proc_http_def live_def)
qed

section \<open>Properties\<close>

text \<open>
  C15: A GET request for a suspended coroutine that is redirected any number of times (to URLs that parse, over connections
  that open) and then answered leaves no object alive: request, URL, connection, message and strings are all
  freed; one request was sent per hop; and the coroutine was resumed exactly once, with the code of the last answer
  and, for code 200, with the whole body, and its reference dropped.
\<close>

theorem http_get_balance:
  assumes "url_fine uri" "ev_fine ev" "list_all redirect_fine hops" "rs_code rs \<notin> {301, 302}"
    and "mf_room h mf_new (length (rs_body rs))"
  shows "\<exists>w1 r w2. send_http_get w uri (Some c) ref msg_id ev = Inr (w1, Some r, 0) \<and>
    get_answers h True w1 (Some r) (hops @ [(rs, ev')]) = Inr (w2, None) \<and> live w2 = live w \<and>
    length (hw_sent w2) = length (hw_sent w) + 1 + length hops \<and>
    hw_resumed w2 = hw_resumed w @ [(c, rs_code rs, if rs_code rs = 200 then rs_body rs else [])] \<and>
    hw_unrefs w2 = hw_unrefs w @ (if ref \<noteq> - 1 then [ref] else [])"
proof -
  let ?new = "fst (message_new msg_id)"
  let ?msg = "msg_setMode ?new SM_WRITE"
  have st: "ar_stream ?new = mf_new" "msg_luaref ?new = - 1"
    by (simp_all add: message_new_def ar_new_def archive.defs lxz_message.defs)
  then have msg: "mf_wf (ar_stream ?msg)" "ar_content ?msg = []" "msg_luaref ?msg = - 1"
      "mf_room h (ar_stream ?msg) (length (rs_body rs))"
    using msg_setMode_ok [of ?new SM_WRITE h "length (rs_body rs)"] mf_new_wf assms(5)
    by (simp_all add: ar_ok_def msg_setMode_def ar_Initial_def del: ar_ok_modes)
  obtain w1 r t where send: "send_http_get w uri (Some c) ref msg_id ev = Inr (w1, Some r, 0)" "hw_sent w1 = hw_sent w @ [t]"
    "under_way w (Some c) ref ?msg w1 r" using send_http_get_under_way [OF assms(1,2), of w "Some c"] by fastforce
  obtain w2 r2 where hop: "get_answers h True w1 (Some r) (hops @ [(rs, ev')]) = get_answers h True w2 (Some r2) [(rs, ev')]"
    "length (hw_sent w2) = length (hw_sent w1) + length hops" "under_way w (Some c) ref ?msg w2 r2"
    using redirects_under_way [OF send(3) assms(3)] by blast
  from last_answer [OF hop(3) assms(4) msg, of ev'] send(1,2) hop(1,2) show ?thesis by auto
qed

definition sample_url :: evhttp_uri where
  "sample_url = \<lparr>uri_host = Some (bytes ''h''), uri_port = - 1, uri_path = Some [], uri_query = Some (bytes ''a'')\<rparr>"

definition idle_world :: http_world where
  "idle_world = \<lparr>hw_reqs = 0, hw_uris = 0, hw_cns = 0, hw_msgs = 0, hw_strs = 0, hw_sent = [], hw_resumed = [], hw_unrefs = [],
     hw_dispatched = []\<rparr>"

definition ev_good :: ev_result where
  "ev_good = \<lparr>ev_cn = True, ev_req = True, ev_made = 0\<rparr>"

theorem http_get_balance_witness:
  "\<exists>w1 r w2. send_http_get idle_world (Some sample_url) (Some 5) 9 1 ev_good = Inr (w1, Some r, 0) \<and>
    get_answers open_heap True w1 (Some r)
      ([(\<lparr>rs_code = 302, rs_body = [], rs_location = Some sample_url\<rparr>, ev_good)] @
       [(\<lparr>rs_code = 200, rs_body = [104, 105], rs_location = None\<rparr>, ev_good)]) = Inr (w2, None) \<and>
    live w2 = live idle_world \<and> length (hw_sent w2) = 2 \<and> hw_resumed w2 = [(5, 200, [104, 105])] \<and> hw_unrefs w2 = [9]"
  using http_get_balance [of "Some sample_url" ev_good "[(\<lparr>rs_code = 302, rs_body = [], rs_location = Some sample_url\<rparr>, ev_good)]"
      "\<lparr>rs_code = 200, rs_body = [104, 105], rs_location = None\<rparr>" open_heap idle_world 5 9 1 ev_good] mf_room_new [of 2]
  by (simp add: url_fine_def ev_fine_def redirect_fine_def sample_url_def ev_good_def idle_world_def numeral_2_eq_2)

text \<open>
  The target of a GET request never overruns the block it is printed into: for a URL with a path it is the
  path, a question mark and the query, or a slash when there is neither.  When the path is empty and the query is
  not, the target starts with the question mark, without a slash.
\<close>

theorem get_target_result:
  assumes "uri_path u = Some p"
  shows "get_target u = Inr
     (case uri_query u of None \<Rightarrow> (if p = [] then bytes ''/'' else p)
      | Some q \<Rightarrow> if p = [] \<and> q = [] then bytes ''/'' else p @ bytes ''?'' @ q)"
  using assms by (rule get_target_path)

theorem get_target_result_witness:
  "get_target sample_url = Inr (bytes ''?a'')"
  using get_target_result [of sample_url "[]"] by (simp add: sample_url_def bytes_def)

text \<open>
  When the exchange fails, libevent calls back with a null request: nothing is freed and nobody is told, so one
  request, URL, connection and message stay alive and the coroutine stays suspended.
\<close>

lemma http_get_failure_leaks:
  assumes "url_fine uri" "ev_fine ev"
  shows "\<exists>w1 r w2. send_http_get w uri (Some c) ref msg_id ev = Inr (w1, Some r, 0) \<and>
    http_requset_get_cb h w1 r None True ev' = Inr (w2, Some (r\<lparr>hq_req := False\<rparr>)) \<and> hw_resumed w2 = hw_resumed w \<and>
    live w2 = [hw_reqs w + 1, hw_uris w + 1, hw_cns w + 1, hw_msgs w + 1, hw_strs w]"
  using send_http_get_under_way [OF assms, of w "Some c" ref msg_id]
  by (auto simp: http_requset_get_cb_def under_way_def live_def)

end
