(* ===== verification/EventTools.thy ===== *)
theory EventTools
  imports Message LuaValue
begin

text \<open>
  The Lua functions of \<open>EventServer.cpp\<close> that compute: 64-bit arithmetic on decimal strings, the
  string hash, the truncation of UTF-8 text, slices of a string, byte order and the split of a delay
  into seconds and microseconds.  Numbers are \<open>LXZuint64\<close>, \<open>LXZuint32\<close> and \<open>unsigned int\<close> words.
\<close>

section \<open>64-bit arithmetic\<close>

text \<open>The results: a string printed with \<open>%lld\<close>, a boolean, or nothing.\<close>

datatype op_result = OpString string | OpBool bool | OpNothing

definition lld :: "u64 \<Rightarrow> string" where
  "lld w = show_int (sint w)"

text \<open>Division by zero is a signal.\<close>

definition int64_op :: "string \<Rightarrow> string \<Rightarrow> string \<Rightarrow> c_fault + op_result" where
  "int64_op src opr dst =
     bindE (atoll src) (\<lambda>srcD.
     bindE (atoll dst) (\<lambda>dstD.
       let op0 = (case opr of c # _ \<Rightarrow> c | [] \<Rightarrow> CHR 0x00) in
       if op0 = CHR ''+'' then Inr (OpString (lld (srcD + dstD)))
       else if op0 = CHR ''-'' then Inr (OpString (lld (srcD - dstD)))
       else if op0 = CHR ''*'' then Inr (OpString (lld (srcD * dstD)))
       else if op0 = CHR ''/'' then (if dstD = 0 then Inl (Die ''SIGFPE'') else Inr (OpString (lld (srcD div dstD))))
       else if op0 = CHR ''%'' then (if dstD = 0 then Inl (Die ''SIGFPE'') else Inr (OpString (lld (srcD mod dstD))))
       else if op0 = CHR ''|'' then Inr (OpString (lld (srcD OR dstD)))
       else if op0 = CHR ''^'' then Inr (OpString (lld (srcD XOR dstD)))
       else if op0 = CHR ''&'' then Inr (OpString (lld (srcD AND dstD)))
       else if op0 = CHR ''~'' then Inr (OpString (lld (NOT srcD)))
       else if op0 = CHR ''<'' then Inr (OpBool (srcD < dstD))
       else if opr = ''<='' then Inr (OpBool (srcD \<le> dstD))
       else if op0 = CHR ''>'' then Inr (OpBool (srcD > dstD))
       else if opr = ''>='' then Inr (OpBool (srcD \<ge> dstD))
       else if opr = ''=='' then Inr (OpBool (srcD = dstD))
       else Inr OpNothing))"

definition int64_2_uint64 :: "string \<Rightarrow> c_fault + string" where
  "int64_2_uint64 src = bindE (atoll src) (\<lambda>srcD. Inr (show_int (uint srcD)))"

section \<open>Hash\<close>

text \<open>The loop of \<open>lua_S_hash\<close>; \<open>step\<close> is at least one.\<close>

function lua_S_hash_loop :: "byte list \<Rightarrow> nat \<Rightarrow> nat \<Rightarrow> u32 \<Rightarrow> c_fault + u32" where
  "lua_S_hash_loop str step l h =
     (if step = 0 then Inl Diverges
      else if l \<ge> step then
        bindE (mem_get str (l - 1)) (\<lambda>c.
          lua_S_hash_loop str step (l - step) (h XOR (push_bit 5 h + drop_bit 2 h + ucast c)))
      else Inr h)"
  by pat_completeness auto
termination by (relation "measure (\<lambda>(_, _, l, _). l)") auto

declare lua_S_hash_loop.simps [simp del]

definition lua_S_hash :: "byte list \<Rightarrow> nat \<Rightarrow> u32 \<Rightarrow> c_fault + u32" where
  "lua_S_hash str l seed = lua_S_hash_loop str (drop_bit 5 l + 1) l (seed XOR word_of_nat l)"

section \<open>Truncation of UTF-8\<close>

definition utf8_size :: "byte \<Rightarrow> nat" where
  "utf8_size a =
     (if a < 0x80 then 1
      else if 192 \<le> a \<and> a \<le> 223 then 2
      else if 224 \<le> a \<and> a \<le> 239 then 3
      else if 240 \<le> a \<and> a \<le> 247 then 4
      else if 248 \<le> a \<and> a \<le> 251 then 5
      else 6)"

lemma utf8_size_pos: "0 < utf8_size a"
  by (simp add: utf8_size_def)

text \<open>The loop of \<open>set_char_zero\<close>: the buffer and the final offset.\<close>

function set_char_zero_loop :: "byte list \<Rightarrow> nat \<Rightarrow> nat \<Rightarrow> c_fault + (byte list \<times> nat)" where
  "set_char_zero_loop utf8Buf nLen offset =
     (if nLen > offset then
        bindE (mem_get utf8Buf offset) (\<lambda>a.
          if nLen < offset + utf8_size a
          then bindE (mem_write utf8Buf offset (replicate (nLen - offset) 0)) (\<lambda>buf. Inr (buf, offset))
          else set_char_zero_loop utf8Buf nLen (offset + utf8_size a))
      else Inr (utf8Buf, offset))"
  by pat_completeness auto
termination
  by (relation "measure (\<lambda>(_, nLen, offset). nLen - offset)") (auto simp: utf8_size_pos diff_less_mono2)

declare set_char_zero_loop.simps [simp del]

definition set_char_zero :: "byte list \<Rightarrow> nat \<Rightarrow> c_fault + (byte list \<times> nat)" where
  "set_char_zero utf8Buf nLen = set_char_zero_loop utf8Buf nLen 0"

text \<open>\<open>lua_set_char_zero\<close> works on a copy with a terminator and returns its first \<open>size\<close> bytes.\<close>

definition lua_set_char_zero :: "byte list \<Rightarrow> c_fault + byte list" where
  "lua_set_char_zero str =
     bindE (set_char_zero (str @ [0]) (length str)) (\<lambda>(buff, size). mem_read buff 0 size)"

section \<open>Slices, byte order, delays\<close>

text \<open>
  \<open>lua_string_to_table\<close>: \<open>v\<close> is the string with its terminator; the count is the difference of two
  \<open>LXZuint32\<close> read as an \<open>int\<close>, and the pointer starts one before \<open>start\<close>.
\<close>

fun table_bytes :: "byte list \<Rightarrow> int \<Rightarrow> nat \<Rightarrow> c_fault + byte list" where
  "table_bytes v p 0 = Inr []"
| "table_bytes v p (Suc n) =
     bindE (if p < 0 then Inl OutOfBounds else mem_get v (nat p)) (\<lambda>c.
     bindE (table_bytes v (p + 1) n) (\<lambda>cs. Inr (c # cs)))"

definition string_to_table :: "byte list \<Rightarrow> u32 \<Rightarrow> u32 \<Rightarrow> c_fault + byte list" where
  "string_to_table str start stop =
     table_bytes (str @ [0]) (uint start - 1) (nat (sint (stop - start)))"

text \<open>
  \<open>to_little_endian\<close>: a new message, \<open>Write\<close> before any \<open>setMode\<close>, then one or two 32-bit reads.  \<open>None\<close>
  when it returns nothing.
\<close>

definition to_little_endian :: "c_heap \<Rightarrow> byte list \<Rightarrow> c_fault + u64 option" where
  "to_little_endian h v =
     (if v = [] then Inr (Some 0)
      else
        bindE (ar_Write h (fst (message_new 0)) v (int (length v))) (\<lambda>msg.
          let m = msg_setMode msg SM_READ in
          if length v = 4 then bindE (Serial_u32 h m 0) (\<lambda>(_, d). Inr (Some (ucast d)))
          else if length v = 8 then
            bindE (Serial_u32 h m 0) (\<lambda>(m1, d).
            bindE (Serial_u32 h m1 0) (\<lambda>(_, dd). Inr (Some (push_bit 32 (ucast dd) OR ucast d))))
          else Inr None))"

text \<open>The delay of \<open>lua_wait_time\<close> in milliseconds as \<open>tv_sec\<close> and \<open>tv_usec\<close>; no timer for zero.\<close>

definition wait_time :: "nat \<Rightarrow> (nat \<times> nat) option" where
  "wait_time timer = (if timer > 0 then Some (timer div 1000, timer mod 1000 * 1000) else None)"

section \<open>Properties\<close>

text \<open>The longest prefix of whole characters, by the sizes that their first bytes announce.\<close>

function whole_chars :: "byte list \<Rightarrow> byte list" where
  "whole_chars [] = []"
| "whole_chars (a # as) =
     (if length (a # as) < utf8_size a then []
      else take (utf8_size a) (a # as) @ whole_chars (drop (utf8_size a) (a # as)))"
  by pat_completeness auto
termination by (relation "measure length") (auto simp: utf8_size_pos)

declare whole_chars.simps(2) [simp del]

lemma set_char_zero_loop_whole:
  "offset \<le> n \<Longrightarrow> n \<le> length buf \<Longrightarrow> \<exists>buf' k. set_char_zero_loop buf n offset = Inr (buf', k) \<and>
     k \<le> length buf' \<and> take k buf' = take offset buf @ whole_chars (drop offset (take n buf))"
proof (induction buf n offset rule: set_char_zero_loop.induct)
  case (1 buf n offset)
  show ?case
  proof (cases "offset < n")
    case False
    with 1(2,3) show ?thesis by (subst set_char_zero_loop.simps) simp
  next
    case True
    let ?a = "buf ! offset" and ?rest = "drop offset (take n buf)"
    have g: "mem_get buf offset = Inr ?a" using True 1(3) by (simp add: mem_get_def)
    have r: "?rest = ?a # drop (Suc offset) (take n buf)"
      using True 1(3) by (metis Cons_nth_drop_Suc length_take min.absorb2 nth_take)
    have len: "length ?rest = n - offset" using 1(3) by simp
    show ?thesis
    proof (cases "n < offset + utf8_size ?a")
      case short: True
      then have "whole_chars ?rest = []" unfolding r by (subst whole_chars.simps) (use short len r in simp)
      with True short g 1(3) show ?thesis
        by (subst set_char_zero_loop.simps) (simp add: mem_write_def)
    next
      case False
      let ?k = "utf8_size ?a"
      have w: "whole_chars ?rest = take ?k ?rest @ whole_chars (drop ?k ?rest)"
        unfolding r by (subst whole_chars.simps) (use False len r in simp)
      have "take (offset + ?k) buf = take offset buf @ take ?k ?rest"
        using False 1(3) by (simp add: take_add drop_take min_def)
      with 1(1) [OF True g False] False True g 1(3) w show ?thesis
        by (subst set_char_zero_loop.simps) (simp add: add.commute)
    qed
  qed
qed

text \<open>
  \<open>SetCharZero\<close> returns the longest prefix of its argument that consists of whole UTF-8 characters,
  by the size that each character's first byte announces; no access leaves the copy it works on.
\<close>

theorem set_char_zero_whole: "lua_set_char_zero str = Inr (whole_chars str)"
proof -
  obtain buf' k where "set_char_zero_loop (str @ [0]) (length str) 0 = Inr (buf', k)" "k \<le> length buf'"
    "take k buf' = whole_chars str"
    using set_char_zero_loop_whole [of 0 "length str" "str @ [0]"] by auto
  then show ?thesis by (simp add: lua_set_char_zero_def set_char_zero_def mem_read_def)
qed

text \<open>Reading from an empty message leaves the variable as it is.\<close>

lemma Serial_u32_empty:
  assumes a: "ar_ok SM_READ a" "ar_content a = []"
  shows "\<exists>a'. Serial_u32 h a d = Inr (a', d) \<and> ar_ok SM_READ a' \<and> ar_content a' = []"
proof -
  let ?m = "(ar_stream a)\<lparr>mf_err := ERR_READ\<rparr>"
  have wf: "mf_wf (ar_stream a)" and io: "ar_bound a" "ar_func a = Some SM_READ" "ar_mode a = SM_READ"
    using a(1) unfolding ar_ok_def by blast+
  have "ar_pos a = 0" using mf.pos_le [OF wf] a(2) by simp
  then have "mf_Read (ar_stream a) 4 = Inr (?m, - 1, None)"
    using a(2) by (intro mf_Read_short [OF wf]) (simp_all add: SIZE_MOD_def)
  then have "Serial_u32 h a d = Inr (a\<lparr>ar_stream := ?m\<rparr>, d)" using io by (simp add: Serial_u32_def SerialFunc_def del: ar_ok_modes)
  moreover have "mf_wf ?m" "mf_content ?m = []" using wf a(2) by (simp_all add: mf_wf_def mf_content_def)
  ultimately show ?thesis using io by (simp add: ar_ok_def del: ar_ok_modes)
qed

text \<open>
  \<open>c_le_uint_to_num\<close> gives zero for every string of four or eight bytes: the message it writes to is
  still in reading mode, where \<open>Write\<close> does nothing, so the reads find an empty message.
\<close>

theorem to_little_endian_zero:
  assumes "length v = 4 \<or> length v = 8"
  shows "to_little_endian h v = Inr (Some 0)"
proof -
  let ?new = "fst (message_new 0)" let ?m = "msg_setMode ?new SM_READ"
  have "ar_mode ?new = SM_READ" by (simp add: message_new_def archive.defs lxz_message.defs ar_new_def)
  then have w: "ar_Write h ?new v (int (length v)) = Inr ?new" by (simp add: ar_Write_def IsReading_def)
  have m: "ar_ok SM_READ ?m" "ar_content ?m = []"
    using msg_setMode_ok [of ?new SM_READ h 0] mf_new_wf by (simp_all add: message_new_stream)
  obtain m1 where m1: "Serial_u32 h ?m 0 = Inr (m1, 0)" "ar_ok SM_READ m1" "ar_content m1 = []"
    using Serial_u32_empty [OF m] by blast
  obtain m2 where "Serial_u32 h m1 0 = Inr (m2, 0)" using Serial_u32_empty [OF m1(2,3)] by blast
  with assms w m1 show ?thesis by (auto simp: to_little_endian_def Let_def)
qed

theorem to_little_endian_zero_witness: "to_little_endian open_heap [1, 2, 3, 4] = Inr (Some 0)"
  by (rule to_little_endian_zero) simp

text \<open>The mixing step of the hash.\<close>

definition hash_step :: "byte \<Rightarrow> u32 \<Rightarrow> u32" where
  "hash_step c h = h XOR (push_bit 5 h + drop_bit 2 h + ucast c)"

lemma lua_S_hash_loop_one:
  "l \<le> length str \<Longrightarrow> lua_S_hash_loop str 1 l h = Inr (fold hash_step (rev (take l str)) h)"
proof (induction l arbitrary: h)
  case 0
  then show ?case by (subst lua_S_hash_loop.simps) simp
next
  case (Suc l)
  have "lua_S_hash_loop str 1 (Suc l) h = lua_S_hash_loop str 1 l (hash_step (str ! l) h)"
    using Suc.prems by (subst lua_S_hash_loop.simps) (simp add: mem_get_def hash_step_def)
  with Suc show ?case by (simp add: take_Suc_conv_app_nth)
qed

lemma lua_S_hash_loop_safe:
  "0 < step \<Longrightarrow> l \<le> length str \<Longrightarrow> \<exists>r. lua_S_hash_loop str step l h = Inr r"
proof (induction str step l h rule: lua_S_hash_loop.induct)
  case (1 str step l h)
  show ?case
  proof (cases "step \<le> l")
    case True
    have g: "mem_get str (l - 1) = Inr (str ! (l - 1))" using 1(2,3) True by (simp add: mem_get_def)
    have "\<exists>r. lua_S_hash_loop str step (l - step) (h XOR (push_bit 5 h + drop_bit 2 h + ucast (str ! (l - 1)))) = Inr r"
      by (rule 1(1) [OF _ True g]) (use 1(2,3) in auto)
    with g 1(2) True show ?thesis by (subst lua_S_hash_loop.simps) simp
  qed (use 1(2) in \<open>subst lua_S_hash_loop.simps, simp\<close>)
qed

text \<open>
  The string hash always returns and never reads outside the string; below 32 bytes it mixes in
  every byte, from the last to the first.
\<close>

theorem lua_S_hash_correct:
  "(\<exists>r. lua_S_hash str (length str) seed = Inr r) \<and>
   (length str < 32 \<longrightarrow> lua_S_hash str (length str) seed = Inr (fold hash_step (rev str) (seed XOR word_of_nat (length str))))"
proof -
  have "drop_bit 5 (length str) = 0" if "length str < 32" using that by (simp add: drop_bit_eq_div)
  then show ?thesis
    using lua_S_hash_loop_safe [of "drop_bit 5 (length str) + 1" "length str" str "seed XOR word_of_nat (length str)"]
      lua_S_hash_loop_one [of "length str" str "seed XOR word_of_nat (length str)"]
    by (simp add: lua_S_hash_def)
qed

theorem lua_S_hash_correct_witness:
  "lua_S_hash [97, 98] (length [97, 98 :: byte]) 7 =
     Inr (fold hash_step (rev [97, 98]) (7 XOR word_of_nat (length [97, 98 :: byte])))"
  using lua_S_hash_correct [of "[97, 98]" 7] by simp

text \<open>Comparison with an operator that starts with a less-than sign is strict and unsigned.\<close>

lemma int64_op_less:
  assumes "atoll a = Inr x" "atoll b = Inr y" "opr = ''<'' \<or> opr = ''<=''"
  shows "int64_op a opr b = Inr (OpBool (unat x < unat y))"
  using assms by (auto simp: int64_op_def Let_def word_less_nat_alt)

text \<open>
  In \<open>evhttp_int64_op\<close> the operator \<open><=\<close> is never reached, its first character selects the strict
  comparison; and the comparison is of unsigned numbers: 5 is not at most 5, and -1 is not less than 1.
\<close>

theorem int64_op_le_is_less:
  "int64_op ''5'' ''<='' ''5'' = Inr (OpBool False) \<and> int64_op ''-1'' ''<'' ''1'' = Inr (OpBool False) \<and>
   (\<forall>a b x y. atoll a = Inr x \<longrightarrow> atoll b = Inr y \<longrightarrow> int64_op a ''<='' b = Inr (OpBool (unat x < unat y)))"
proof -
  have five: "atoll ''5'' = Inr 5" and m1: "atoll ''-1'' = Inr (- 1)" and one: "atoll ''1'' = Inr 1"
    by (simp_all add: atoll_def decimal_def is_digit_def of_char_def)
  have "unat (- 1 :: u64) = 18446744073709551615" by (simp add: unsigned_minus_1_eq_mask mask_eq_exp_minus_1)
  then show ?thesis using int64_op_less [OF five five] int64_op_less [OF m1 one] int64_op_less by auto
qed

theorem int64_op_le_is_less_witness:
  "int64_op ''5'' ''<='' ''5'' = Inr (OpBool False)"
  using int64_op_le_is_less by blast

lemma wait_time_split: "wait_time t = Some (s, u) \<Longrightarrow> s * 1000000 + u = t * 1000 \<and> u < 1000000"
proof -
  assume "wait_time t = Some (s, u)"
  then have "s = t div 1000" "u = t mod 1000 * 1000" by (auto simp: wait_time_def split: if_splits)
  moreover have "(t div 1000 * 1000 + t mod 1000) * 1000 = t * 1000" by simp
  ultimately show ?thesis by (simp only: add_mult_distrib) simp
qed

lemma table_bytes_ok:
  "p + n \<le> length v \<Longrightarrow> table_bytes v (int p) n = Inr (take n (drop p v))"
proof (induction n arbitrary: p)
  case (Suc n)
  have "table_bytes v (int p + 1) n = Inr (take n (drop (Suc p) v))" using Suc.IH [of "Suc p"] Suc.prems by (simp add: add.commute)
  with Suc.prems show ?case by (simp add: mem_get_def flip: Cons_nth_drop_Suc)
qed simp

end
