(* ===== verification/CoreCfgRoundtrip.thy ===== *)
theory CoreCfgRoundtrip
  imports CoreCfgFile
begin

text \<open>
  Correctness of the configuration files: what \<open>save\<close> writes for settings with plain names and values is read back by \<open>load\<close>
  into an equal store.
\<close>

section \<open>Text of numbers\<close>

lemma chars_bytes [simp]: "chars (bytes s) = s"
proof -
  have "char_of (unat (of_char c :: byte)) = c" for c
  proof -
    have "(of_char c :: byte) = word_of_nat (of_char c)" by (simp add: of_nat_of_char)
    moreover have "(of_char c :: nat) < 2 ^ LENGTH(8)" by simp
    ultimately show ?thesis by (metis char_of_char unat_of_nat_small)
  qed
  then show ?thesis by (simp add: chars_def bytes_def comp_def)
qed

lemma atoi_show_int: "atoi (bytes (show_int (sint (v :: u32)))) = Inr v"
proof -
  have "fits_int (sint v)" using sint_ge [of v] sint_lt [of v] by (simp add: fits_int_def INT_MIN_def INT_MAX_def)
  then show ?thesis by (simp add: atoi_def decimal_show_int)
qed

definition digit_byte :: "byte \<Rightarrow> bool" where
  "digit_byte b \<longleftrightarrow> 48 \<le> b \<and> b \<le> 57"

lemma digit_byte_char: "is_digit c \<Longrightarrow> digit_byte (of_char c)"
proof -
  assume c: "is_digit c"
  have "(of_char c :: byte) = word_of_nat (of_char c)" by (simp add: of_nat_of_char)
  then have "unat (of_char c :: byte) = of_char c" using unat_of_nat_small [of "of_char c", where ?'a = 8] by simp
  with c show ?thesis by (simp add: digit_byte_def is_digit_def word_le_nat_alt)
qed

lemma isnumber_loop_digits: "list_all digit_byte ds \<Longrightarrow> isnumber_loop d c (ds @ 0 # rest) = Inr True"
  by (induction ds) (auto simp: digit_byte_def)

lemma show_int_bytes:
  "\<exists>sign ds. bytes (show_int i) = sign @ ds \<and> (sign = [] \<or> sign = [45]) \<and> list_all digit_byte ds \<and> ds \<noteq> []"
proof -
  have d: "list_all digit_byte (bytes (dec_digits n)) \<and> bytes (dec_digits n) \<noteq> []" for n
    using dec_digits_value [of n] digit_byte_char by (auto simp: bytes_def list_all_iff)
  show ?thesis
  proof (cases "i < 0")
    case True
    then have "bytes (show_int i) = [45] @ bytes (dec_digits (nat (- i)))" by (simp add: show_int_def bytes_def of_char_def)
    with d show ?thesis by blast
  next
    case False
    then have "bytes (show_int i) = [] @ bytes (dec_digits (nat i))" by (simp add: show_int_def)
    with d show ?thesis by blast
  qed
qed

lemma isnumber_show_int: "isnumber (bytes (show_int i) @ 0 # rest) = Inr True"
proof -
  obtain sign ds where s: "bytes (show_int i) = sign @ ds" "sign = [] \<or> sign = [45]" "list_all digit_byte ds" "ds \<noteq> []"
    using show_int_bytes by blast
  obtain x xs where x: "sign @ ds = x # xs" using s(4) by (cases "sign @ ds") auto
  have "x \<noteq> 0" using s(2,3,4) x by (cases ds) (auto simp: digit_byte_def)
  then have "isnumber ((sign @ ds) @ 0 # rest) = isnumber_loop 0 0 ((sign @ ds) @ 0 # rest)" unfolding x by (simp add: isnumber_def)
  moreover have "isnumber_loop 0 0 ((sign @ ds) @ 0 # rest) = Inr True" using s(2) isnumber_loop_digits [OF s(3)] by auto
  ultimately show ?thesis unfolding s(1) by simp
qed

lemma show_int_plain: "b \<in> set (bytes (show_int i)) \<Longrightarrow> b = 45 \<or> digit_byte b"
  using show_int_bytes [of i] by (auto simp: list_all_iff)

section \<open>Reading one value\<close>

lemma cells_eq_ok: "0 \<notin> set v \<Longrightarrow> 0 \<notin> set lit \<Longrightarrow> cells_eq (v @ 0 # rest) lit = Inr (v = lit)"
proof (induction v arbitrary: lit)
  case Nil
  then show ?case by (cases lit) auto
next
  case (Cons x v)
  then show ?case by (cases lit) auto
qed

lemma unquote_convert: "92 \<notin> set s \<Longrightarrow> 0 \<notin> set s \<Longrightarrow> unquote (convert s @ 34 # rest) = Inr s"
  by (induction s) auto

text \<open>A setting as data: what it means outside this store.\<close>

datatype cfg_datum = DInt u32 | DFloat u32 | DBool bool | DStr "byte list" | DUint u32 | DObj u64 | DNone

definition datum_of :: "(u64 \<rightharpoonup> byte list) \<Rightarrow> cfg_type \<Rightarrow> u64 \<Rightarrow> cfg_datum" where
  "datum_of strs t w =
     (case t of
        cfg_i \<Rightarrow> DInt (word_i w)
      | cfg_f \<Rightarrow> DFloat (word_i w)
      | cfg_b \<Rightarrow> DBool (word_b w)
      | cfg_u \<Rightarrow> DUint (word_i w)
      | cfg_p \<Rightarrow> DObj w
      | cfg_cstr \<Rightarrow> (case strs w of Some s \<Rightarrow> DStr s | None \<Rightarrow> DNone)
      | cfg_null \<Rightarrow> DNone)"

definition datum :: "core_cfg \<Rightarrow> byte list \<Rightarrow> cfg_datum option" where
  "datum c k = map_option (\<lambda>(t, w). datum_of (cc_strs c) t w) (cfg_abs c k)"

text \<open>The text of a datum in a file, and the data that survive it.\<close>

fun datum_text :: "cfg_env \<Rightarrow> cfg_datum \<Rightarrow> byte list" where
  "datum_text env (DInt v) = 105 # bytes (show_int (sint v))"
| "datum_text env (DFloat v) = 102 # ce_fmt_f env v"
| "datum_text env (DBool b) = (if b then bytes ''true'' else bytes ''false'')"
| "datum_text env (DStr s) = 34 # convert s @ [34]"
| "datum_text env _ = []"

fun savable :: "cfg_env \<Rightarrow> cfg_datum \<Rightarrow> bool" where
  "savable env (DInt v) = True"
| "savable env (DFloat v) = (ce_atof env (ce_fmt_f env v) = v \<and> isnumber (ce_fmt_f env v @ [0]) = Inr True \<and> 0 \<notin> set (ce_fmt_f env v))"
| "savable env (DBool b) = True"
| "savable env (DStr s) = (0 \<notin> set s \<and> 92 \<notin> set s)"
| "savable env _ = False"

definition put_datum :: "cfg_env \<Rightarrow> core_cfg \<Rightarrow> byte list \<Rightarrow> cfg_datum \<Rightarrow> c_fault + core_cfg" where
  "put_datum env c n d =
     (case d of
        DInt v \<Rightarrow> setter (SetInt env c n None v)
      | DFloat v \<Rightarrow> setter (SetFloat env c n None v)
      | DBool b \<Rightarrow> setter (SetBool env c n None b)
      | DStr s \<Rightarrow> setter (SetCString env c n None s)
      | _ \<Rightarrow> Inr c)"

lemma isnumber_loop_rest: "isnumber_loop d c (v @ [0]) = Inr True \<Longrightarrow> 0 \<notin> set v \<Longrightarrow> isnumber_loop d c (v @ 0 # rest) = Inr True"
  by (induction v arbitrary: d c) (auto split: if_splits)

lemma isnumber_rest: "isnumber (v @ [0]) = Inr True \<Longrightarrow> 0 \<notin> set v \<Longrightarrow> isnumber (v @ 0 # rest) = Inr True"
  by (cases v) (auto simp: isnumber_def dest: isnumber_loop_rest split: if_splits)

lemma isnumber_not: "x \<noteq> 46 \<Longrightarrow> \<not> digit_byte x \<Longrightarrow> x \<noteq> 45 \<Longrightarrow> x \<noteq> 43 \<Longrightarrow> isnumber (x # xs) = Inr False"
  by (auto simp: isnumber_def digit_byte_def)

lemma true_false: "bytes ''true'' = [116, 114, 117, 101]" "bytes ''false'' = [102, 97, 108, 115, 101]"
  by (simp_all add: bytes_def of_char_def)

lemma zero_cells: "length s < N \<Longrightarrow> mem_write (replicate N 0) 0 s = Inr (s @ 0 # replicate (N - 1 - length s) (0 :: byte))"
proof -
  assume "length s < N"
  then have "N - length s = Suc (N - 1 - length s)" by simp
  with \<open>length s < N\<close> show ?thesis by (simp add: mem_write_def)
qed

lemma drop_prefix: "drop (length a) (a @ b) = b"
  by simp

lemma mem_write_mid: "length xs = length ys \<Longrightarrow> mem_write (a @ ys @ b) (length a) xs = Inr (a @ xs @ b)"
  by (simp add: mem_write_def)

lemma mem_write_first: "b \<noteq> [] \<Longrightarrow> mem_write b 0 [x] = Inr (x # tl b)"
  by (cases b) (simp_all add: mem_write_def)

lemma length_convert: "length s \<le> length (convert s)"
  by (induction s) auto

lemma load_value_ok:
  assumes d: "savable env d" "length (datum_text env d) \<le> 255" and n: "0 \<notin> set n"
  shows "load_value env c (n @ 0 # r) (datum_text env d @ 0 # r') = put_datum env c n d"
proof (cases d)
  case (DInt v)
  let ?s = "bytes (show_int (sint v))"
  have z: "0 \<notin> set (105 # ?s)" using show_int_no_zero by simp
  have "cells_eq (105 # ?s @ 0 # r') (bytes ''true'') = Inr False" "cells_eq (105 # ?s @ 0 # r') (bytes ''false'') = Inr False"
    by (simp_all add: true_false)
  moreover have "isnumber (105 # ?s @ 0 # r') = Inr False" by (rule isnumber_not) (simp_all add: digit_byte_def)
  ultimately show ?thesis
    using z n isnumber_show_int [of "sint v" r'] by (simp add: load_value_def DInt put_datum_def atoi_show_int)
next
  case (DFloat v)
  let ?s = "ce_fmt_f env v"
  have "cells_eq (102 # ?s @ 0 # r') (bytes ''true'') = Inr False" "isnumber (102 # ?s @ 0 # r') = Inr False"
    by (simp_all add: true_false isnumber_not digit_byte_def)
  moreover have "cells_eq (102 # ?s @ 0 # r') (bytes ''false'') = Inr False"
    using d(1) DFloat isnumber_not [of 97] by (cases ?s) (auto simp: true_false isnumber_def digit_byte_def)
  moreover have "isnumber (?s @ 0 # r') = Inr True" using d(1) DFloat by (auto intro: isnumber_rest)
  ultimately show ?thesis using n d(1) by (simp add: load_value_def DFloat put_datum_def)
next
  case (DBool b)
  then show ?thesis using n cells_eq_ok [of "datum_text env d"] by (auto simp: load_value_def put_datum_def true_false)
next
  case (DStr str)
  let ?p = "34 # convert str @ [34] @ 0 # r'"
  have "cells_eq ?p (bytes ''true'') = Inr False" "cells_eq ?p (bytes ''false'') = Inr False" "isnumber ?p = Inr False"
    by (simp_all add: true_false isnumber_not digit_byte_def)
  moreover have "unquote (convert str @ 34 # 0 # r') = Inr str" using d(1) DStr by (intro unquote_convert) auto
  moreover have "mem_write (replicate 512 0) 0 str = Inr (str @ 0 # replicate (511 - length str) 0)"
    using d(2) DStr length_convert [of str] zero_cells [of str 512] by simp
  ultimately show ?thesis using n d(1) by (simp add: load_value_def DStr put_datum_def)
qed (use d(1) in simp_all)

section \<open>Reading lines\<close>

definition plain_name :: "byte list \<Rightarrow> bool" where
  "plain_name n \<longleftrightarrow> {0, 10, 13, 61} \<inter> set n = {} \<and> length n \<le> 255 \<and> (n = [] \<or> hd n \<noteq> 9)"

definition plain_datum :: "cfg_env \<Rightarrow> cfg_datum \<Rightarrow> bool" where
  "plain_datum env d \<longleftrightarrow> savable env d \<and> {0, 10, 13} \<inter> set (datum_text env d) = {} \<and> length (datum_text env d) \<le> 255"

definition setting_line :: "cfg_env \<Rightarrow> byte list \<times> cfg_datum \<Rightarrow> byte list" where
  "setting_line env nd = fst nd @ [61] @ datum_text env (snd nd) @ [13, 10]"

lemma setting_line_ne [simp]: "setting_line env nd \<noteq> []"
  by (simp add: setting_line_def)

lemma bindE_Inr [simp]: "bindE m Inr = m"
  by (cases m) auto

definition plain_setting :: "cfg_env \<Rightarrow> byte list \<times> cfg_datum \<Rightarrow> bool" where
  "plain_setting env nd \<longleftrightarrow> plain_name (fst nd) \<and> plain_datum env (snd nd)"

lemma plain_line:
  assumes "plain_setting env nd"
  shows "0 \<notin> set (setting_line env nd)" "length (setting_line env nd) \<le> 513"
    "strstr (setting_line env nd @ tail) [13, 10] = Some (length (setting_line env nd) - 2)"
proof -
  let ?l = "fst nd @ [61] @ datum_text env (snd nd)"
  have l: "13 \<notin> set ?l" "0 \<notin> set ?l" "length ?l \<le> 511" using assms by (auto simp: plain_setting_def plain_name_def plain_datum_def)
  have e: "setting_line env nd = ?l @ [13, 10]" by (simp add: setting_line_def)
  show "0 \<notin> set (setting_line env nd)" "length (setting_line env nd) \<le> 513" using l unfolding e by auto
  show "strstr (setting_line env nd @ tail) [13, 10] = Some (length (setting_line env nd) - 2)"
    unfolding e using strstr_first [OF l(1), of "[10]" tail] by simp
qed

text \<open>How a line of up to 1022 bytes is cut at its first equals sign.\<close>

lemma load_line_split:
  assumes l: "{0, 13} \<inter> set (n @ [61] @ v) = {}" "61 \<notin> set n" "length (n @ [61] @ v) \<le> 1022"
  shows "load_line env c (n @ [61] @ v @ [13, 10] @ tail) [13, 10] =
    bindE (mem_write (replicate 256 0) 0 n) (\<lambda>name.
    bindE (mem_write (replicate 256 0) 0 v) (\<lambda>value. load_value env c (skip_name name) value))"
proof -
  let ?l = "n @ [61] @ v"
  let ?t = "?l @ [13, 10] @ tail"
  have z: "0 \<notin> set ?l" "13 \<notin> set ?l" using l(1) by auto
  have s: "strstr ?t [13, 10] = Some (length ?l)" using strstr_first [OF z(2), of "[10]" tail] by simp
  have w: "mem_write (replicate 2048 0) 0 (?l @ [0]) = Inr (?l @ 0 # replicate (2047 - length ?l) 0)"
    using l(3) by (simp add: mem_write_def)
  have tk: "take (Suc (length n + length v)) (n @ 61 # v @ 13 # 10 # tail) = n @ 61 # v" by simp
  have get: "sp_GetString (CStringParsing ?t (length ?t)) (replicate 2048 0) 1023 (Some [13, 10]) =
      Inr (sp_advance (CStringParsing ?t (length ?t)) (length ?l) (Some [13, 10]), ?l @ 0 # replicate (2047 - length ?l) 0)"
    using l(3) s w tk by (simp add: sp_GetString_def sp_substring_def CStringParsing_def Let_def min.absorb2)
  have eq: "strstr ?l [61] = Some (length n)" using strstr_first [OF l(2), of "[]" v] by simp
  then show ?thesis
    using get c_string_ok [OF z(1), of "replicate (2047 - length ?l) 0"] by (simp add: load_line_def)
qed

lemma load_line_cells:
  assumes l: "{0, 13} \<inter> set (n @ [61] @ v) = {}" "61 \<notin> set n" "length n \<le> 255" "length v \<le> 255" "n = [] \<or> hd n \<notin> {9, 10}"
  shows "load_line env c (n @ [61] @ v @ [13, 10] @ tail) [13, 10] =
    load_value env c (n @ 0 # replicate (255 - length n) 0) (v @ 0 # replicate (255 - length v) 0)"
proof -
  have "skip_name (n @ 0 # r) = n @ 0 # r" for r using l(1,5) by (cases n) (auto simp: skip_name_def)
  with load_line_split [OF l(1,2), of env c tail] l(3,4) zero_cells [of n 256] zero_cells [of v 256] show ?thesis by simp
qed

lemma load_line_ok:
  assumes "plain_setting env nd"
  shows "load_line env c (setting_line env nd @ tail) [13, 10] = put_datum env c (fst nd) (snd nd)"
proof -
  let ?n = "fst nd" and ?v = "datum_text env (snd nd)"
  have l: "{0, 13} \<inter> set (?n @ [61] @ ?v) = {}" "61 \<notin> set ?n" "length ?n \<le> 255" "length ?v \<le> 255" "?n = [] \<or> hd ?n \<notin> {9, 10}"
    using assms by (cases "fst nd"; auto simp: plain_setting_def plain_name_def plain_datum_def)+
  have "0 \<notin> set ?n" "savable env (snd nd)" using assms by (auto simp: plain_setting_def plain_name_def plain_datum_def)
  then show ?thesis
    using load_line_cells [OF l, of env c tail] load_value_ok [OF _ l(4), of ?n c] by (simp add: setting_line_def)
qed

fun put_data :: "cfg_env \<Rightarrow> core_cfg \<Rightarrow> (byte list \<times> cfg_datum) list \<Rightarrow> c_fault + core_cfg" where
  "put_data env c [] = Inr c"
| "put_data env c (nd # nds) = bindE (put_datum env c (fst nd) (snd nd)) (\<lambda>c'. put_data env c' nds)"

definition file_text :: "cfg_env \<Rightarrow> (byte list \<times> cfg_datum) list \<Rightarrow> byte list" where
  "file_text env nds = concat (map (setting_line env) nds)"

lemma file_text_no_zero: "list_all (plain_setting env) nds \<Longrightarrow> 0 \<notin> set (file_text env nds)"
  using plain_line(1) by (fastforce simp: file_text_def list_all_iff)

lemma load_lines_ok:
  "list_all (plain_setting env) (nd # nds) \<Longrightarrow> buf = pre @ file_text env (nd # nds) @ 0 # rest \<Longrightarrow>
     load_lines env [13, 10] c buf (length pre) (length pre + (length (setting_line env nd) - 2)) =
     bindE (put_data env c (nd # nds)) (\<lambda>c'. Inr (c', 0 # tl buf, 0))"
proof (induction nds arbitrary: nd pre c)
  case Nil
  let ?l = "setting_line env nd"
  have l: "plain_setting env nd" "2 \<le> length ?l" using Nil by (simp_all add: setting_line_def)
  have t1: "c_string (drop (length pre) buf) = Inr ?l" using Nil plain_line(1) [OF l(1)] by (simp add: file_text_def)
  have t2: "c_string (drop (length pre + length ?l) buf) = Inr []" using Nil(2) c_string_ok [of "[]" rest] by (simp add: file_text_def)
  have w: "mem_write buf 0 [0] = Inr (0 # tl buf)"  by (rule mem_write_first) (use Nil(2) in simp)
  have line: "load_line env c ?l [13, 10] = put_datum env c (fst nd) (snd nd)" using load_line_ok [OF l(1), of c "[]"] by simp
  have p: "Suc (Suc (length pre + length ?l - 2)) = length pre + length ?l" using l(2) by simp
  show ?case using t1 t2 w line l(2) by (subst load_lines.simps) (simp add: bindE_assoc Let_def p)
next
  case (Cons nd2 nds)
  let ?l = "setting_line env nd" and ?t = "file_text env (nd2 # nds)"
  have l: "plain_setting env nd" "plain_setting env nd2" "2 \<le> length ?l" "2 \<le> length (setting_line env nd2)"
    using Cons.prems by (simp_all add: setting_line_def)
  have z: "0 \<notin> set ?t" "0 \<notin> set (?l @ ?t)" using file_text_no_zero [of env "nd2 # nds"] plain_line(1) [OF l(1)] Cons.prems(1) by auto
  have b: "buf = (pre @ ?l) @ ?t @ 0 # rest" using Cons.prems(2) by (simp add: file_text_def)
  have t1: "c_string (drop (length pre) buf) = Inr (?l @ ?t)" using c_string_ok [OF z(2), of rest] unfolding b by simp
  have t2: "c_string (drop (length pre + length ?l) buf) = Inr ?t" using c_string_ok [OF z(1), of rest] unfolding b by simp
  have s: "strstr ?t [13, 10] = Some (length (setting_line env nd2) - 2)" using plain_line(3) [OF l(2)] by (simp add: file_text_def)
  have "load_lines env [13, 10] c' buf (length pre + length ?l) (length pre + length ?l + (length (setting_line env nd2) - 2)) =
      bindE (put_data env c' (nd2 # nds)) (\<lambda>c'. Inr (c', 0 # tl buf, 0))" for c'
    using Cons.IH [of nd2 "pre @ ?l" c'] Cons.prems(1) b by simp
  moreover have p: "Suc (Suc (length pre + length ?l - 2)) = length pre + length ?l" using l(3) by simp
  ultimately show ?case using t1 t2 s load_line_ok [OF l(1), of c ?t] l(3)
    by (subst load_lines.simps) (simp add: bindE_assoc Let_def p)
qed

text \<open>A file of at most one chunk is read line by line.\<close>

lemma load_chunks_ok:
  assumes "list_all (plain_setting env) nds" "length (file_text env nds) \<le> 1024"
  shows "load_chunks env c (replicate 2048 0) 0 (file_text env nds) = put_data env c nds"
proof (cases nds)
  case Nil
  then show ?thesis by (subst load_chunks.simps) (simp add: file_text_def)
next
  case (Cons nd nds')
  let ?f = "file_text env nds"
  let ?n = "length ?f"
  obtain pre nd' where "nds = pre @ [nd']" using Cons by (metis list.distinct(1) rev_exhaust)
  then have "?f = (file_text env pre @ fst nd' @ [61] @ datum_text env (snd nd') @ [13]) @ [10]"
    by (simp add: file_text_def setting_line_def)
  then have "?f \<noteq> []" "last ?f = 10" by simp_all
  then have ne: "?f \<noteq> []" "?f ! (?n - 1) = 10" by (simp_all add: last_conv_nth)
  let ?buf = "?f @ 0 # replicate (2047 - ?n) 0"
  have b1: "mem_write (replicate 2048 0) 0 ?f = Inr ?buf" using zero_cells [of ?f 2048] assms(2) by simp
  have b2: "mem_write ?buf ?n [0] = Inr ?buf" by (simp add: mem_write_def)
  have z: "0 \<notin> set ?f" using file_text_no_zero [OF assms(1)] .
  have s: "strstr ?f [13, 10] = Some (length (setting_line env nd) - 2)"
    using plain_line(3) [of env nd] assms(1) by (simp add: Cons file_text_def)
  have last: "?buf ! (?n - 1) = 10" using ne by (simp add: nth_append)
  have lines: "load_lines env [13, 10] c ?buf 0 (length (setting_line env nd) - 2) =
      bindE (put_data env c nds) (\<lambda>c'. Inr (c', 0 # tl ?buf, 0))"
    using load_lines_ok [of env nd nds' ?buf "[]"] assms(1) by (simp add: Cons)
  have stop: "load_chunks env c' b 0 [] = Inr c'" for c' b by (subst load_chunks.simps) simp
  show ?thesis using b1 b2 z s last lines ne assms(2) stop
    by (subst load_chunks.simps) (simp add: Let_def bindE_assoc)
qed

section \<open>Storing data\<close>

lemma datum_plain_update:
  assumes "cfg_abs c' = (cfg_abs c)(k \<mapsto> (t, w))" "cc_strs c' = cc_strs c"
  shows "datum c' = (datum c)(k \<mapsto> datum_of (cc_strs c) t w)"
  using assms by (auto simp: datum_def)

lemma datum_by_type:
  "datum c k = (case cfg_abs c k of None \<Rightarrow> None | Some (t, w) \<Rightarrow>
     Some (if t = cfg_cstr then (case str_val c k of Some s \<Rightarrow> DStr s | None \<Rightarrow> DNone) else datum_of Map.empty t w))"
  by (auto simp: datum_def datum_of_def str_val_def split: option.splits cfg_type.splits)

lemma put_plain_ok:
  assumes "t \<noteq> cfg_cstr" "\<And>v w. rd (init v w) = v" "\<And>v w. rd (upd v w) = v"
    and c: "cfg_ok env c" "cfg_space env c (Suc n)" "0 \<notin> set name" "cfg_abs c (key name) = None"
    and d: "put_datum env c name d = bindE (store_setting env c name None t (init v) (upd v)) (\<lambda>(c1, _, _). Inr c1)"
      "\<And>strs w. rd w = v \<Longrightarrow> datum_of strs t w = d"
  shows "\<exists>c'. put_datum env c name d = Inr c' \<and> cfg_ok env c' \<and> cfg_space env c' n \<and> datum c' = (datum c)(key name \<mapsto> d) \<and>
    dom (cfg_abs c') = insert (key name) (dom (cfg_abs c))"
proof -
  have u: "usable t c (key name)" "unset_ref None" using c(4) by (simp_all add: usable_def unset_ref_def)
  obtain c' rp' old w where c': "store_setting env c name None t (init v) (upd v) = Inr (c', rp', old)" "cfg_ok env c'" "cfg_space env c' n"
    "cc_strs c' = cc_strs c" "cfg_abs c' = (cfg_abs c)(key name \<mapsto> (t, w))" "rd w = v"
    using plain_set_ok [where rd = rd and init = init and upd = upd, OF assms(1-3) c(1-3) u, of v] by blast
  with datum_plain_update [OF c'(5,4)] d show ?thesis by simp
qed

lemma put_int_ok:
  assumes c: "cfg_ok env c" "cfg_space env c (Suc n)" "0 \<notin> set name" "cfg_abs c (key name) = None"
  shows "\<exists>c'. put_datum env c name (DInt v) = Inr c' \<and> cfg_ok env c' \<and> cfg_space env c' n \<and> datum c' = (datum c)(key name \<mapsto> DInt v) \<and>
    dom (cfg_abs c') = insert (key name) (dom (cfg_abs c))"
  by (rule put_plain_ok [OF _ _ _ c, of cfg_i word_i set_word_i set_word_i _ v])
    (auto simp: put_datum_def SetInt_def datum_of_def accessors split: sum.split prod.split)

lemma put_string_ok:
  assumes c: "cfg_ok env c" "cfg_space env c (Suc n)" "0 \<notin> set name" "cfg_abs c (key name) = None" and str: "string_ok str"
  shows "\<exists>c'. put_datum env c name (DStr str) = Inr c' \<and> cfg_ok env c' \<and> cfg_space env c' n \<and> datum c' = (datum c)(key name \<mapsto> DStr str) \<and>
    dom (cfg_abs c') = insert (key name) (dom (cfg_abs c))"
proof -
  have u: "usable cfg_cstr c (key name)" "unset_ref None" using c(4) by (simp_all add: usable_def unset_ref_def)
  obtain c' rp' old a where c': "SetCString env c name None str = Inr (c', rp', old)" "cfg_ok env c'" "cfg_space env c' n"
    "str_val c' = (str_val c)(key name \<mapsto> str)" "cfg_abs c' = (cfg_abs c)(key name \<mapsto> (cfg_cstr, a))"
    using SetCString_ok [OF c(1-3) str u] by blast
  have "datum c' k = ((datum c)(key name \<mapsto> DStr str)) k" for k
  proof (cases "k = key name")
    case False
    then have "str_val c' k = str_val c k" "cfg_abs c' k = cfg_abs c k" using c'(4,5) by simp_all
    with False show ?thesis unfolding datum_by_type by (auto split: option.splits)
  qed (simp add: datum_by_type c'(4,5))
  with c' show ?thesis by (auto simp: put_datum_def setter_def)
qed

lemma put_datum_ok:
  assumes c: "cfg_ok env c" "cfg_space env c (Suc n)" "0 \<notin> set name" "cfg_abs c (key name) = None" and d: "plain_datum env d"
  shows "\<exists>c'. put_datum env c name d = Inr c' \<and> cfg_ok env c' \<and> cfg_space env c' n \<and> datum c' = (datum c)(key name \<mapsto> d) \<and>
    dom (cfg_abs c') = insert (key name) (dom (cfg_abs c))"
proof (cases d)
  case (DInt v)
  show ?thesis unfolding DInt by (rule put_int_ok [OF c])
next
  case (DFloat v)
  show ?thesis by (rule put_plain_ok [OF _ _ _ c, of cfg_f word_i set_word_i set_word_i _ v])
      (auto simp: DFloat put_datum_def SetFloat_def datum_of_def accessors split: sum.split prod.split)
next
  case (DBool b)
  show ?thesis by (rule put_plain_ok [OF _ _ _ c, of cfg_b word_b "\<lambda>v. set_word_i (of_bool v)" set_word_b _ b])
      (auto simp: DBool put_datum_def SetBool_def datum_of_def accessors split: sum.split prod.split)
next
  case (DStr str)
  from DStr have "length (convert str) \<le> 255" "0 \<notin> set str" using d by (auto simp: plain_datum_def)
  then have "string_ok str" using length_convert [of str] by (simp add: string_ok_def SIZE_MOD_def)
  then show ?thesis unfolding DStr by (rule put_string_ok [OF c])
qed (use d in \<open>simp_all add: plain_datum_def\<close>)

lemma put_data_ok:
  "cfg_ok env c \<Longrightarrow> cfg_space env c (length nds + k) \<Longrightarrow> list_all (plain_setting env) nds \<Longrightarrow>
     distinct (map (\<lambda>nd. key (fst nd)) nds) \<Longrightarrow> dom (cfg_abs c) \<inter> set (map (\<lambda>nd. key (fst nd)) nds) = {} \<Longrightarrow>
     \<exists>c'. put_data env c nds = Inr c' \<and> cfg_ok env c' \<and> cfg_space env c' k \<and>
       datum c' = datum c ++ map_of (map (\<lambda>nd. (key (fst nd), snd nd)) nds)"
proof (induction nds arbitrary: c)
  case (Cons nd nds)
  have n: "0 \<notin> set (fst nd)" "plain_datum env (snd nd)" "cfg_abs c (key (fst nd)) = None"
    using Cons.prems(3,5) by (auto simp: plain_setting_def plain_name_def)
  obtain c1 where c1: "put_datum env c (fst nd) (snd nd) = Inr c1" "cfg_ok env c1" "cfg_space env c1 (length nds + k)"
    "datum c1 = (datum c)(key (fst nd) \<mapsto> snd nd)" "dom (cfg_abs c1) = insert (key (fst nd)) (dom (cfg_abs c))"
    using put_datum_ok [OF Cons.prems(1) _ n(1,3,2), of "length nds + k"] Cons.prems(2) by auto
  have "dom (cfg_abs c1) \<inter> set (map (\<lambda>nd. key (fst nd)) nds) = {}" using c1(5) Cons.prems(4,5) by auto
  then obtain c' where c': "put_data env c1 nds = Inr c'" "cfg_ok env c'" "cfg_space env c' k"
    "datum c' = datum c1 ++ map_of (map (\<lambda>nd. (key (fst nd), snd nd)) nds)"
    using Cons.IH [OF c1(2,3)] Cons.prems(3,4) by auto
  have "map_of (map (\<lambda>nd. (key (fst nd), snd nd)) nds) (key (fst nd)) = None"
    using Cons.prems(4) by (auto simp: map_of_eq_None_iff image_iff)
  then have "datum c' k = (datum c ++ map_of (map (\<lambda>nd. (key (fst nd), snd nd)) (nd # nds))) k" for k
    unfolding c'(4) c1(4) by (auto simp: map_add_def split: option.splits)
  then have "datum c' = datum c ++ map_of (map (\<lambda>nd. (key (fst nd), snd nd)) (nd # nds))" by (rule ext)
  then show ?case using c1(1) c'(1-3) by (metis bindE_simps(2) put_data.simps(2))
qed simp

section \<open>Writing lines\<close>

text \<open>The settings of a store as names and data, in order.\<close>

definition data_of :: "core_cfg \<Rightarrow> (byte list \<times> cfg_datum) list" where
  "data_of c = map (\<lambda>e. (cv_name e, datum_of (cc_strs c) (cv_type e) (cv_word e))) (settings_of c)"

lemma index_of_map_of:
  "map_option (\<lambda>j. f (es ! j)) (index_of k es) = map_of (map (\<lambda>e. (key (cv_name e), f e)) es) k"
  by (induction es) (auto simp: option.map_comp comp_def)

lemma datum_data_of: "datum c = map_of (map (\<lambda>nd. (key (fst nd), snd nd)) (data_of c))"
proof
  fix k
  show "datum c k = map_of (map (\<lambda>nd. (key (fst nd), snd nd)) (data_of c)) k"
    using index_of_map_of [of "\<lambda>e. datum_of (cc_strs c) (cv_type e) (cv_word e)" "settings_of c" k]
    by (simp add: datum_def cfg_abs_def data_of_def option.map_comp comp_def)
qed

text \<open>One line of the file; only the scratch buffer changes.\<close>

lemma save_line_ok:
  assumes d: "plain_setting env (cv_name e, datum_of (cc_strs c) (cv_type e) (cv_word e))"
    and c: "fb_wf TMP (cc_tmp c)" "\<forall>k. can_alloc (ce_heap env) k" and buf: "length buf = 1024"
  shows "\<exists>t buf'. save_line env c buf e = Inr (c\<lparr>cc_tmp := t\<rparr>, buf') \<and> fb_wf TMP t \<and> length buf' = 1024 \<and>
    c_string buf' = Inr (setting_line env (cv_name e, datum_of (cc_strs c) (cv_type e) (cv_word e)))"
proof -
  let ?d = "datum_of (cc_strs c) (cv_type e) (cv_word e)"
  let ?l = "setting_line env (cv_name e, ?d)"
  let ?buf = "?l @ 0 # drop (length ?l + 1) buf"
  have l: "0 \<notin> set ?l" "length ?l \<le> 513" using plain_line [OF d] by auto
  then have w: "mem_write buf 0 (?l @ [0]) = Inr ?buf" "length ?buf = 1024" "c_string ?buf = Inr ?l"
    using buf by (simp_all add: mem_write_def)
  have plain: ?thesis if "save_line env c buf e = bindE (mem_write buf 0 (?l @ [0])) (\<lambda>buf'. Inr (c, buf'))"
    using that w c(1) by (intro exI [of _ "cc_tmp c"] exI [of _ ?buf]) simp
  have sv: "savable env ?d" "length (datum_text env ?d) \<le> 255" using d by (simp_all add: plain_setting_def plain_datum_def)
  show ?thesis
  proof (cases "cv_type e")
    case cfg_cstr
    with sv(1) obtain s where s: "cc_strs c (cv_word e) = Some s" by (cases "cc_strs c (cv_word e)") (auto simp: datum_of_def)
    then have ds: "?d = DStr s" by (simp add: datum_of_def cfg_cstr)
    obtain t1 where t1: "fb_grow (ce_heap env) TMP (cc_tmp c) 512 = Inr t1" "fb_wf TMP t1" "512 \<le> fb_alloc t1"
      using fb_grow_cases [OF c(1), of 512 "ce_heap env"] c(2)
      by (cases "fb_grow (ce_heap env) TMP (cc_tmp c) 512") (auto simp: SIZE_MOD_def)
    obtain cells where cells: "fb_buf TMP t1 = Some cells" using t1(2) by (auto elim: fb_wfE)
    obtain t2 where t2: "fb_store TMP t1 0 (convert s @ [0]) = Inr t2" "fb_wf TMP t2"
      using fb_store_ok [OF t1(2) cells, of 0 "convert s @ [0]"] t1(3) sv(2) ds by auto
    have e': "cv_name e @ 61 # 34 # convert s @ [34, 13, 10, 0] = setting_line env (cv_name e, DStr s) @ [0]"
      by (simp add: setting_line_def)
    have "save_line env c buf e = Inr (c\<lparr>cc_tmp := t2\<rparr>, ?buf)"
      using t1(1) t2(1) s w(1) unfolding ds by (simp add: save_line_def cfg_cstr e')
    with t2(2) w show ?thesis by blast
  qed (rule plain; use sv(1) in \<open>simp add: save_line_def datum_of_def setting_line_def\<close>)+
qed

lemma save_loop_ok:
  assumes "\<forall>k. can_alloc (ce_heap env) k"
  shows "\<forall>e\<in>set es. plain_setting env (cv_name e, datum_of (cc_strs c) (cv_type e) (cv_word e)) \<Longrightarrow> fb_wf TMP (cc_tmp c) \<Longrightarrow>
     length buf = 1024 \<Longrightarrow>
     \<exists>c'. save_loop env c buf out es =
       Inr (c', out @ file_text env (map (\<lambda>e. (cv_name e, datum_of (cc_strs c) (cv_type e) (cv_word e))) es))"
proof (induction es arbitrary: c buf out)
  case (Cons e es)
  obtain t buf' where t: "save_line env c buf e = Inr (c\<lparr>cc_tmp := t\<rparr>, buf')" "fb_wf TMP t" "length buf' = 1024"
    "c_string buf' = Inr (setting_line env (cv_name e, datum_of (cc_strs c) (cv_type e) (cv_word e)))"
    using save_line_ok [OF _ Cons.prems(2) assms Cons.prems(3)] Cons.prems(1) by (meson list.set_intros(1))
  let ?s = "setting_line env (cv_name e, datum_of (cc_strs c) (cv_type e) (cv_word e))"
  obtain c' where "save_loop env (c\<lparr>cc_tmp := t\<rparr>) buf' (out @ ?s) es =
      Inr (c', (out @ ?s) @ file_text env (map (\<lambda>e. (cv_name e, datum_of (cc_strs c) (cv_type e) (cv_word e))) es))"
    using Cons.IH [of "c\<lparr>cc_tmp := t\<rparr>" buf' "out @ ?s"] Cons.prems(1) t(2,3) by auto
  with t(1,4) show ?case by (simp add: file_text_def)
qed (simp add: file_text_def)

section \<open>Properties\<close>

text \<open>
  C11: What \<open>save\<close> writes, \<open>load\<close> reads back: for settings whose names and values are plain (integers, booleans,
  floats whose text reads back, strings without backslash and line ends; names without line ends and equals
  signs that do not begin with a tab; at most 255 bytes each) and a file of at most 1024 bytes, loading the saved file into an empty store gives
  a store with the same data under the same names.
\<close>

theorem cfg_save_load:
  assumes "cfg_ok env c" "cfg_space env c 0" "list_all (plain_setting env) (data_of c)" "length (file_text env (data_of c)) \<le> 1024"
    and "cfg_ok env c0" "cfg_space env c0 (length (data_of c))" "cfg_abs c0 = Map.empty"
  shows "\<exists>c1 file c2. save_cfg env c True = Inr (c1, Some file) \<and> load_cfg env c0 (Some file) = Inr (c2, True) \<and> datum c2 = datum c"
proof -
  have n: "names_ok c" "fb_wf TMP (cc_tmp c)" "vv_wf (cc_vec c)" using assms(1) unfolding cfg_ok_def cfg_wf_def names_ok_def by blast+
  have r: "read_all vv_at (cc_vec c) (vv_size (cc_vec c)) = Inr (settings_of c)"
    using vv.read_all_elems [OF n(3), of "vv_size (cc_vec c)"] n(3) by (simp add: vv_size_def)
  obtain c1 where "save_loop env c (replicate 1024 0) [] (settings_of c) = Inr (c1, file_text env (data_of c))"
    using save_loop_ok [of env "settings_of c" c "replicate 1024 0" "[]"] assms(2,3) n(2)
    by (auto simp: cfg_space_def cfg_room_def data_of_def list_all_iff)
  then have save: "save_cfg env c True = Inr (c1, Some (file_text env (data_of c)))" using r by (simp add: save_cfg_def)
  have keys: "map (\<lambda>nd. key (fst nd)) (data_of c) = map (\<lambda>e. key (cv_name e)) (settings_of c)" by (simp add: data_of_def)
  obtain c2 where "put_data env c0 (data_of c) = Inr c2" "datum c2 = datum c0 ++ datum c"
    using put_data_ok [OF assms(5) _ assms(3), of 0] assms(6) n(1) assms(7) unfolding keys datum_data_of [of c, symmetric] by (auto simp: names_ok_def)
  moreover have "datum c0 = Map.empty" using assms(7) by (simp add: datum_def fun_eq_iff)
  ultimately show ?thesis using save load_chunks_ok [OF assms(3,4), of c0] by (simp add: load_cfg_def)
qed

definition demo_cfg :: core_cfg where
  "demo_cfg = empty_cfg\<lparr>cc_vec := \<lparr>vv_cells = [Some \<lparr>cv_word = 8, cv_alias = None, cv_name = [112], cv_type = cfg_i, cv_flag = 0\<rparr>],
     vv_end = 1, vv_grown = 2\<rparr>, cc_names := 1, cc_values := 1\<rparr>"

lemma demo_cfg_facts:
  "settings_of demo_cfg = [\<lparr>cv_word = 8, cv_alias = None, cv_name = [112], cv_type = cfg_i, cv_flag = 0\<rparr>]"
  "cfg_ok demo_env demo_cfg" "cfg_space demo_env demo_cfg 0" "data_of demo_cfg = [([112], DInt 8)]"
proof -
  show s: "settings_of demo_cfg = [\<lparr>cv_word = 8, cv_alias = None, cv_name = [112], cv_type = cfg_i, cv_flag = 0\<rparr>]"
    by (simp add: demo_cfg_def vv_elems_def)
  have abs: "cfg_abs demo_cfg k \<noteq> Some (cfg_cstr, w)" for k w by (auto simp: cfg_abs_def s split: if_splits)
  have "vv_wf (cc_vec demo_cfg)" by (simp add: demo_cfg_def vv_wf_def)
  then have "names_ok demo_cfg" by (simp add: names_ok_def s) (simp add: demo_cfg_def)
  moreover have "fb_wf TMP (cc_tmp demo_cfg)" "dom (cc_strs demo_cfg) = {}"
    using empty_cfg_ok(1) by (simp_all add: demo_cfg_def cfg_ok_def cfg_wf_def empty_cfg_def)
  ultimately have "cfg_wf demo_cfg" using abs by (auto intro!: cfg_wfI)
  then show "cfg_ok demo_env demo_cfg" using demo_env_ok by (simp add: cfg_ok_def)
  show "cfg_space demo_env demo_cfg 0"
    by (simp add: cfg_space_def cfg_room_def demo_env_def demo_cfg_def empty_cfg_def INT_MAX_def)
  show "data_of demo_cfg = [([112], DInt 8)]" by (simp add: data_of_def s datum_of_def word_i_def)
qed

theorem cfg_save_load_witness:
  "\<exists>c1 file c2. save_cfg demo_env demo_cfg True = Inr (c1, Some file) \<and> load_cfg demo_env empty_cfg (Some file) = Inr (c2, True) \<and>
    datum c2 = datum demo_cfg"
proof -
  have t: "datum_text demo_env (DInt 8) = [105, 56]" by (simp add: show_int_def dec_digits.simps bytes_def of_char_def char_of_def bit_0)
  show ?thesis
    by (rule cfg_save_load [OF demo_cfg_facts(2,3) _ _ empty_cfg_ok(1)])
      (simp_all add: demo_cfg_facts(4) plain_setting_def plain_name_def plain_datum_def t file_text_def setting_line_def empty_cfg_ok
        empty_cfg_abs fun_eq_iff del: datum_text.simps)
qed

text \<open>
  The arrays for the name and the value of a line are not guarded: a line of up to 1022 bytes whose name has more than 256
  bytes, or whose value has, is copied past the end of its array.
\<close>

theorem cfg_line_overflow:
  assumes "{0, 13} \<inter> set (n @ [61] @ v) = {}" "61 \<notin> set n" "length (n @ [61] @ v) \<le> 1022" "length n > 256 \<or> length v > 256"
  shows "load_line env c (n @ [61] @ v @ [13, 10] @ tail) [13, 10] = Inl OutOfBounds"
  using load_line_split [OF assms(1-3), of env c tail] assms(4) by (auto simp: mem_write_def)

theorem cfg_line_overflow_witness:
  "load_line demo_env empty_cfg (replicate 300 65 @ [61] @ [49] @ [13, 10] @ []) [13, 10] = Inl OutOfBounds"
  by (rule cfg_line_overflow) (auto simp: set_replicate_conv_if)

section \<open>Files without a final line end\<close>

lemma isnumber_loop_bad:
  "0 \<notin> set v \<Longrightarrow> 10 \<in> set v \<Longrightarrow> isnumber_loop d c (v @ 0 # rest) = Inr False"
  by (induction v arbitrary: d c) auto

lemma load_value_text:
  assumes "0 \<notin> set v" "10 \<in> set v" "v \<noteq> []" "digit_byte (hd v)" "0 \<notin> set n"
  shows "load_value env c (n @ 0 # r) (v @ 0 # r') = setter (SetCString env c n None v)"
proof -
  obtain x xs where v: "v = x # xs" using assms(3) by (cases v) auto
  have x: "x \<noteq> 116" "x \<noteq> 102" "x \<noteq> 34" "x \<noteq> 105" "x \<noteq> 117" "x \<noteq> 0" using assms(1,4) by (auto simp: v digit_byte_def)
  have "isnumber (v @ 0 # r') = Inr False" using isnumber_loop_bad [OF assms(1,2), of 0 0 r'] x by (simp add: isnumber_def v)
  moreover have "c_string (v @ 0 # r') = Inr v" using assms(1) by simp
  ultimately show ?thesis using x assms(5) by (simp add: load_value_def true_false v)
qed

text \<open>
  A file with LF line ends whose last line has none is read as one line: the line end that is added is CR LF, which then is
  the line end of the whole chunk.  The first name gets the rest of the file as its value, the other settings are lost.
\<close>

theorem cfg_unix_unterminated:
  assumes "plain_name n" "{0, 13} \<inter> set v = {}" "10 \<in> set v" "digit_byte (hd v)" "last v \<noteq> 10" "length v \<le> 255"
  shows "load_cfg env c (Some (n @ [61] @ v)) = bindE (setter (SetCString env c n None v)) (\<lambda>c'. Inr (c', True))"
proof -
  let ?f = "n @ [61] @ v"
  let ?n = "length ?f"
  have ne: "v \<noteq> []" "0 \<notin> set n" "0 \<notin> set v" using assms(1-3) by (auto simp: plain_name_def)
  have z: "0 \<notin> set ?f" "13 \<notin> set ?f" "?n \<le> 511" "61 \<notin> set n" "length n \<le> 255" "n = [] \<or> hd n \<notin> {9, 10}"
    using assms(1,2,6) by (cases n; auto simp: plain_name_def)+
  let ?b1 = "?f @ 0 # replicate (2047 - ?n) 0" and ?b3 = "?f @ [13, 10] @ 0 # replicate (2045 - ?n) 0"
  have b1: "mem_write (replicate 2048 0) 0 ?f = Inr ?b1" using zero_cells [of ?f 2048] z(3) by simp
  have b2: "mem_write ?b1 ?n [0] = Inr ?b1" by (simp add: mem_write_def)
  have nth: "?b1 ! (?n - 1) \<noteq> 10"
  proof -
    have "?b1 ! (?n - 1) = last ?f" using ne(1) by (simp add: nth_append last_conv_nth)
    then show ?thesis using assms(5) ne(1) by simp
  qed
  have b3: "mem_write ?b1 ?n [13, 10] = Inr ?b3"
  proof -
    have "2047 - ?n = Suc (Suc (2045 - ?n))" using z(3) by simp
    then have "?b1 = ?f @ [0, 0] @ 0 # replicate (2045 - ?n) 0" by simp
    then show ?thesis using mem_write_mid [of "[13, 10]" "[0, 0]" ?f] by simp
  qed
  have t: "c_string ?b3 = Inr (?f @ [13, 10])" using c_string_ok [of "?f @ [13, 10]"] z(1) by simp
  have s: "strstr (?f @ [13, 10]) [13, 10] = Some ?n" using strstr_first [OF z(2), of "[10]" "[]"] by simp
  have line: "load_line env c (?f @ [13, 10]) [13, 10] = setter (SetCString env c n None v)"
    using load_line_cells [of n v env c "[]"] load_value_text [OF ne(3) assms(3) ne(1) assms(4) ne(2)] z assms(2,6) by auto
  have rest: "c_string (drop (?n + length [13, 10 :: byte]) ?b3) = Inr []"
    using drop_prefix [of "?f @ [13, 10]" "0 # replicate (2045 - ?n) 0"] c_string_ok [of "[]"] by (metis append_Nil append_assoc empty_iff length_append list.set(1))
  have w: "mem_write ?b3 0 [0] = Inr (0 # tl ?b3)" by (rule mem_write_first) simp
  have lines: "load_lines env [13, 10] c ?b3 0 ?n = bindE (setter (SetCString env c n None v)) (\<lambda>c'. Inr (c', 0 # tl ?b3, 0))"
    using w by (subst load_lines.simps) (simp only: t line rest drop_0 bindE_simps Let_def bindE_assoc, simp)
  have stop: "load_chunks env c' b 0 [] = Inr c'" for c' b by (subst load_chunks.simps) simp
  have "load_chunks env c (replicate 2048 0) 0 ?f = setter (SetCString env c n None v)"
    using b1 b2 b3 nth t s lines stop z(3) c_string_ok [OF z(1), of "replicate (2047 - ?n) 0"] by (subst load_chunks.simps) (simp add: Let_def bindE_assoc)
  then show ?thesis by (simp add: load_cfg_def)
qed

theorem cfg_unix_unterminated_witness:
  "load_cfg demo_env empty_cfg (Some ([97] @ [61] @ [49, 10, 98, 61, 50])) =
     bindE (setter (SetCString demo_env empty_cfg [97] None [49, 10, 98, 61, 50])) (\<lambda>c'. Inr (c', True))"
  by (rule cfg_unix_unterminated) (simp_all add: plain_name_def digit_byte_def)

end
