(* ===== verification/ServerSetup.thy ===== *)
theory ServerSetup
  imports CoreCfgRoundtrip Connections
begin

text \<open>
  The life of a server in \<open>EventServer.cpp\<close>: \<open>Start\<close> remembers the name of the configuration file and starts a thread,
  which runs \<open>DoProc\<close>: it loads the file, runs the Lua script, opens the TCP and HTTP ports, sets the timers, runs the event
  loop until \<open>Stop\<close> and cleans up.  \<open>Connect\<close> opens an outgoing connection.  What the operating system,
  libevent, Lua and OpenSSL answer is a parameter; what the server asks of them is the list of calls in the
  result.  The build is the one of Linux.
\<close>

section \<open>State\<close>

record event_server =
  es_cfg :: core_cfg
  es_destroy :: bool
  es_base :: bool
  es_state :: bool
  es_lua_ref :: int
  es_cfg_name :: "byte list"
  es_http :: bool
  es_ctx_client :: bool
  es_thread :: nat

text \<open>
  The answers: the content of a file, the result of running a script and of \<open>lua_ref\<close>, whether \<open>bind\<close>, \<open>listen\<close>, the HTTP
  functions and a named OpenSSL function succeed, what the callbacks of the event loop do to the members of the
  server, and whether the build has OpenSSL.
\<close>

record server_env =
  sv_file :: "byte list \<Rightarrow> byte list option"
  sv_dofile :: "byte list \<Rightarrow> int"
  sv_ref :: int
  sv_base :: bool
  sv_bind :: "u16 \<Rightarrow> bool"
  sv_listen :: bool
  sv_evhttp_new :: bool
  sv_evhttp_bind :: "byte list \<Rightarrow> u16 \<Rightarrow> bool"
  sv_ssl :: "string \<Rightarrow> bool"
  sv_dispatch :: "event_server \<Rightarrow> event_server"
  sv_have_openssl :: bool

datatype server_call =
    LuaOpen | LuaFile "byte list" | LuaClose | BaseNew
  | Bind u16 | Listen nat | AcceptEvent
  | HttpBind "byte list" u16 | HttpCerts "byte list" "byte list" | HttpHandler
  | ClientCerts "byte list" "byte list"
  | UserTimer int int | UserTrigger | NotifyTimer int int | Dispatch | UserTimerDel | NotifyTimerDel | DeleteThis

definition MAX_CFG_NAMELEN :: nat where "MAX_CFG_NAMELEN = 256"

definition event_server_new :: "cfg_env \<Rightarrow> bool \<Rightarrow> c_fault + event_server" where
  "event_server_new env http_garbage =
     bindE (cfg_new env) (\<lambda>c.
       Inr \<lparr>es_cfg = c, es_destroy = False, es_base = False, es_state = False, es_lua_ref = - 1,
            es_cfg_name = replicate (MAX_CFG_NAMELEN + 1) 0, es_http = http_garbage, es_ctx_client = False, es_thread = 0\<rparr>)"

text \<open>\<open>Start\<close>: the server, the result, and whether a thread was started; \<open>thread\<close> is its identifier.\<close>

definition Start :: "event_server \<Rightarrow> byte list \<Rightarrow> nat \<Rightarrow> c_fault + (event_server \<times> int \<times> bool)" where
  "Start s cfgName thread =
     (if es_base s then Inr (s, - 1, False)
      else
        let len = (if length cfgName > MAX_CFG_NAMELEN then MAX_CFG_NAMELEN else length cfgName) in
        bindE (mem_write (es_cfg_name s) 0 (take len cfgName)) (\<lambda>cells.
        bindE (mem_write cells len [0]) (\<lambda>cells'.
          Inr (s\<lparr>es_cfg_name := cells', es_thread := thread\<rparr>, 0, True))))"

text \<open>\<open>Stop\<close>: whether the loop is told to exit; the argument is ignored.\<close>

definition Stop :: "event_server \<Rightarrow> bool \<Rightarrow> event_server \<times> bool \<times> int" where
  "Stop s destroy = (if es_base s then (s\<lparr>es_destroy := True\<rparr>, True, 0) else (s, False, 0))"

section \<open>Ports\<close>

text \<open>\<open>_listen\<close>: the address is not used, and the port is cut to 16 bits by \<open>htons\<close>.\<close>

definition listen_tcp :: "server_env \<Rightarrow> byte list \<Rightarrow> u32 \<Rightarrow> int \<times> server_call list" where
  "listen_tcp sv ip port =
     (let p = ucast port :: u16 in
      if \<not> sv_bind sv p then (1, [Bind p])
      else if \<not> sv_listen sv then (1, [Bind p, Listen 1000])
      else (0, [Bind p, Listen 1000, AcceptEvent]))"

text \<open>A failing OpenSSL call ends the process.\<close>

definition must_ssl :: "server_env \<Rightarrow> string \<Rightarrow> c_fault + unit" where
  "must_ssl sv f = (if sv_ssl sv f then Inr () else Inl (Die f))"

definition server_setup_certs :: "server_env \<Rightarrow> byte list \<Rightarrow> byte list \<Rightarrow> c_fault + server_call list" where
  "server_setup_certs sv certificate_chain private_key =
     bindE (must_ssl sv ''SSL_CTX_use_certificate_chain_file'') (\<lambda>_.
     bindE (must_ssl sv ''SSL_CTX_use_PrivateKey_file'') (\<lambda>_.
     bindE (must_ssl sv ''SSL_CTX_check_private_key'') (\<lambda>_. Inr [HttpCerts certificate_chain private_key])))"

definition as_http_server ::
  "server_env \<Rightarrow> event_server \<Rightarrow> u32 \<Rightarrow> byte list \<Rightarrow> u32 \<Rightarrow> c_fault + (event_server \<times> int \<times> server_call list)" where
  "as_http_server sv s use_https ip port =
     (let s1 = s\<lparr>es_http := sv_evhttp_new sv\<rparr>; p = ucast port :: u16 in
      if \<not> sv_evhttp_new sv then Inr (s1, - 1, [])
      else if \<not> sv_evhttp_bind sv ip p then Inr (s1, - 1, [HttpBind ip p])
      else
        bindE (if sv_have_openssl sv \<and> use_https \<noteq> 0
               then bindE (must_ssl sv ''EC_KEY_new_by_curve_name'') (\<lambda>_.
                    bindE (must_ssl sv ''SSL_CTX_set_tmp_ecdh'') (\<lambda>_.
                      server_setup_certs sv (bytes ''server.pem'') (bytes ''server.key'')))
               else Inr []) (\<lambda>certs.
          Inr (s1, 0, [HttpBind ip p] @ certs @ [HttpHandler])))"

section \<open>The thread of the server\<close>

record server_settings =
  st_https :: u32
  st_timer :: u32
  st_port :: u32
  st_httpport :: u32
  st_ip :: "byte list"
  st_httpip :: "byte list"
  st_lua :: "byte list"

definition read_settings :: "cfg_env \<Rightarrow> core_cfg \<Rightarrow> c_fault + (core_cfg \<times> server_settings)" where
  "read_settings env c =
     bindE (GetInt env c (bytes ''https'') None None 0) (\<lambda>(c, _, https).
     bindE (GetInt env c (bytes ''timer'') None None (- 1)) (\<lambda>(c, _, timer).
     bindE (GetInt env c (bytes ''port'') None None 8888) (\<lambda>(c, _, port).
     bindE (GetInt env c (bytes ''httpport'') None None 0) (\<lambda>(c, _, httpport).
     bindE (GetCString env c (bytes ''ip'') None None (bytes ''127.0.0.1'')) (\<lambda>(c, _, ip).
     bindE (GetCString env c (bytes ''httpip'') None None (bytes ''localhost'')) (\<lambda>(c, _, httpip).
     bindE (GetCString env c (bytes ''lua'') None None (bytes ''game_server.lua'')) (\<lambda>(c, _, lua).
       Inr (c, \<lparr>st_https = https, st_timer = timer, st_port = port, st_httpport = httpport, st_ip = ip, st_httpip = httpip,
                st_lua = lua\<rparr>))))))))"

text \<open>The context of outgoing SSL connections; nothing is returned when a step fails.\<close>

definition client_context :: "server_env \<Rightarrow> event_server \<Rightarrow> event_server \<times> server_call list option" where
  "client_context sv s =
     (if \<not> sv_have_openssl sv then (s, Some [])
      else let s1 = s\<lparr>es_ctx_client := sv_ssl sv ''SSL_CTX_new''\<rparr> in
        if \<not> sv_ssl sv ''SSL_CTX_new'' \<or> \<not> sv_ssl sv ''SSL_CTX_load_verify_locations'' \<or> \<not> sv_ssl sv ''SSL_CTX_use_certificate_file''
        then (s1, None) else (s1, Some [ClientCerts (bytes ''ca.crt'') (bytes ''client.crt'')]))"

text \<open>The user timer, from milliseconds.\<close>

definition user_timer :: "u32 \<Rightarrow> server_call list" where
  "user_timer timer = (if sint timer > 0 then [UserTimer (sint timer div 1000) (sint timer mod 1000 * 1000)] else [])"

text \<open>
  The timers, the event loop and the end of the thread.  After \<open>delete this\<close>, which releases the settings, there is no
  server any more, here \<open>None\<close>.
\<close>

definition run_loop :: "server_env \<Rightarrow> event_server \<Rightarrow> u32 \<Rightarrow> c_fault + (event_server option \<times> int \<times> server_call list)" where
  "run_loop sv s timer =
     (let s1 = sv_dispatch sv s;
          calls = user_timer timer @ [UserTrigger, NotifyTimer 1 0, Dispatch] @
            (if sint timer > 0 then [UserTimerDel] else []) @ [NotifyTimerDel, LuaClose];
          s2 = s1\<lparr>es_state := False\<rparr> in
      if es_destroy s2 then bindE (release_cfg (es_cfg s2)) (\<lambda>_. Inr (None, 0, calls @ [DeleteThis]))
      else Inr (Some s2, 0, calls))"

text \<open>
  From the settings on.  An event base that could not be made is used all the same, here a fault.  The
  results of opening the ports are ignored.
\<close>

definition serve :: "server_env \<Rightarrow> event_server \<Rightarrow> server_settings \<Rightarrow> c_fault + (event_server option \<times> int \<times> server_call list)" where
  "serve sv s st =
     (let s1 = s\<lparr>es_state := True\<rparr>; calls1 = [LuaOpen, LuaFile (st_lua st)] in
      if sv_dofile sv (st_lua st) \<noteq> 0 then Inr (Some (s1\<lparr>es_state := False\<rparr>), - 2, calls1 @ [LuaClose])
      else let s2 = s1\<lparr>es_lua_ref := sv_ref sv\<rparr> in
      if sv_ref sv = - 1 then Inr (Some (s2\<lparr>es_state := False\<rparr>), - 3, calls1 @ [LuaClose])
      else if \<not> sv_base sv then Inl NullDeref
      else
        let s3 = s2\<lparr>es_base := True\<rparr>;
            tcp = (if sint (st_port st) > 0 then snd (listen_tcp sv (st_ip st) (st_port st)) else []) in
        bindE (if sint (st_httpport st) > 0 then as_http_server sv s3 (st_https st) (st_httpip st) (st_httpport st)
               else Inr (s3, 0, [])) (\<lambda>(s4, _, http).
          let calls2 = calls1 @ [BaseNew] @ tcp @ http in
          case client_context sv s4 of
            (s5, None) \<Rightarrow> Inr (Some s5, - 1, calls2)
          | (s5, Some ssl) \<Rightarrow> bindE (run_loop sv s5 (st_timer st)) (\<lambda>(s6, r, calls3). Inr (s6, r, calls2 @ ssl @ calls3))))"

definition DoProc :: "cfg_env \<Rightarrow> server_env \<Rightarrow> event_server \<Rightarrow> c_fault + (event_server option \<times> int \<times> server_call list)" where
  "DoProc env sv s =
     bindE (c_string (es_cfg_name s)) (\<lambda>name.
     bindE (load_cfg env (es_cfg s) (sv_file sv name)) (\<lambda>(c, loaded).
       if \<not> loaded then Inr (Some (s\<lparr>es_cfg := c\<rparr>), - 1, [])
       else bindE (read_settings env c) (\<lambda>(c1, st). serve sv (s\<lparr>es_cfg := c1\<rparr>) st)))"

text \<open>A call of a member function through a pointer to the server.\<close>

definition use_server :: "event_server option \<Rightarrow> (event_server \<Rightarrow> c_fault + 'a) \<Rightarrow> c_fault + 'a" where
  "use_server sp f = (case sp of None \<Rightarrow> Inl UseAfterFree | Some s \<Rightarrow> f s)"

section \<open>Outgoing connections\<close>

text \<open>
  What \<open>Connect\<close> is answered: whether the first and the second \<open>bufferevent_socket_new\<close> succeed, the SSL functions, the
  resolver, \<open>inet_pton\<close> and \<open>bufferevent_socket_connect\<close>.
\<close>

record connect_env =
  cn_new1 :: bool
  cn_new2 :: bool
  cn_ssl_new :: bool
  cn_ssl_socket :: bool
  cn_hostname :: int
  cn_pton :: "byte list \<Rightarrow> int"
  cn_connect :: int

datatype connect_call =
    SocketMade | SslMade | DnsBase | ConnectHost "byte list" u32 | ConnectAddr "byte list" u16 | BevFree | SetCallbacks

text \<open>The part of \<open>Connect\<close> before the address is looked at: the connection, if any, and what was made on the way.\<close>

definition new_socket :: "connect_env \<Rightarrow> bool \<Rightarrow> bool \<times> connect_call list" where
  "new_socket cn ssl =
     (if \<not> ssl then (cn_new2 cn, (if cn_new1 cn then [SocketMade] else []) @ (if cn_new2 cn then [SocketMade] else []))
      else if \<not> cn_ssl_new cn then (False, [])
      else (cn_ssl_socket cn, [SslMade] @ (if cn_ssl_socket cn then [SocketMade] else [])))"

text \<open>A name is resolved, an address that begins with a digit is parsed.\<close>

definition open_connection :: "connect_env \<Rightarrow> byte list \<Rightarrow> u32 \<Rightarrow> bool \<times> connect_call list" where
  "open_connection cn ip port =
     (let ch = (case ip of [] \<Rightarrow> 0 | c # _ \<Rightarrow> sint c) in
      if ch < 48 \<or> ch > 57 then
        (if cn_hostname cn \<noteq> 0 then (False, [DnsBase, ConnectHost ip port, BevFree]) else (True, [DnsBase, ConnectHost ip port]))
      else if cn_pton cn ip \<le> 0 then (False, [])
      else if cn_connect cn < 0 then (False, [ConnectAddr ip (ucast port), BevFree])
      else (True, [ConnectAddr ip (ucast port)]))"

definition Connect ::
  "connect_env \<Rightarrow> byte list \<Rightarrow> u32 \<Rightarrow> bool \<Rightarrow> u32 \<Rightarrow> u64 \<Rightarrow> u64 \<Rightarrow> int \<Rightarrow> int \<Rightarrow> bufferevent option \<times> connect_call list" where
  "Connect cn ip port ssl_flag msg_id this ssl ref bev_ref =
     (case new_socket cn ssl_flag of
        (False, calls) \<Rightarrow> (None, calls)
      | (True, calls) \<Rightarrow>
          (case open_connection cn ip port of
             (False, calls1) \<Rightarrow> (None, calls @ calls1)
           | (True, calls1) \<Rightarrow>
               let m = setAppData (msg_setMode (fst (message_new msg_id)) SM_WRITE) this;
                   m1 = setAppData1 (setEvent (SetLuaRef m ref) bev_ref) (if ssl_flag then ssl else 0) in
               (Some \<lparr>bev_output = [], bev_cbarg = Some m1\<rparr>, calls @ calls1 @ [SetCallbacks])))"

section \<open>Reading the settings\<close>

lemma cfg_space_mono: "cfg_space env c n \<Longrightarrow> m \<le> n \<Longrightarrow> cfg_space env c m"
  by (auto simp: cfg_space_def cfg_room_def)

lemma datum_None: "datum c k = None \<longleftrightarrow> cfg_abs c k = None"
  by (auto simp: datum_def)

lemma datum_DInt: "datum c k = Some (DInt v) \<longleftrightarrow> view cfg_i word_i c k = Some v"
  by (auto simp: datum_def datum_of_def view_def split: option.splits cfg_type.splits)

lemma datum_DStr: "datum c k = Some (DStr v) \<longleftrightarrow> str_val c k = Some v"
  by (auto simp: datum_def datum_of_def str_val_def split: option.splits cfg_type.splits)

lemma fetch_None:
  assumes "cfg_ok env c" "0 \<notin> set name" "datum c (key name) = None"
  shows "fetch_setting c name None None t = Inr (None, None)"
  using fetch_setting_ok [of c name None t] assms by (simp add: unset_ref_def cfg_ok_def cfg_wf_def datum_None)

text \<open>The value of a setting among data, by its name and with a default.\<close>

definition int_value :: "(byte list \<rightharpoonup> cfg_datum) \<Rightarrow> string \<Rightarrow> u32 \<Rightarrow> u32" where
  "int_value m n d = (case m (key (bytes n)) of Some (DInt v) \<Rightarrow> v | _ \<Rightarrow> d)"

definition str_value :: "(byte list \<rightharpoonup> cfg_datum) \<Rightarrow> string \<Rightarrow> string \<Rightarrow> byte list" where
  "str_value m n d = (case m (key (bytes n)) of Some (DStr v) \<Rightarrow> v | _ \<Rightarrow> bytes d)"

definition int_name :: "(byte list \<rightharpoonup> cfg_datum) \<Rightarrow> string \<Rightarrow> bool" where
  "int_name m n \<longleftrightarrow> (case m (key (bytes n)) of None \<Rightarrow> True | Some (DInt v) \<Rightarrow> True | _ \<Rightarrow> False)"

definition str_name :: "(byte list \<rightharpoonup> cfg_datum) \<Rightarrow> string \<Rightarrow> bool" where
  "str_name m n \<longleftrightarrow> (case m (key (bytes n)) of None \<Rightarrow> True | Some (DStr v) \<Rightarrow> True | _ \<Rightarrow> False)"

lemma GetInt_datum:
  assumes c: "cfg_ok env c" "cfg_space env c (Suc n)" "0 \<notin> set (bytes name)" and d: "int_name (datum c) name"
  shows "\<exists>c' rp. GetInt env c (bytes name) None None def = Inr (c', rp, int_value (datum c) name def) \<and>
    cfg_ok env c' \<and> cfg_space env c' n \<and> datum c' = (datum c)(key (bytes name) \<mapsto> DInt (int_value (datum c) name def))"
proof (cases "datum c (key (bytes name))")
  case None
  then obtain c' where c': "put_datum env c (bytes name) (DInt def) = Inr c'" "cfg_ok env c'" "cfg_space env c' n"
    "datum c' = (datum c)(key (bytes name) \<mapsto> DInt def)"
    using put_int_ok [OF c, of def] by (auto simp: datum_None)
  then obtain rp old where "SetInt env c (bytes name) None def = Inr (c', rp, old)" by (auto simp: put_datum_def setter_def bindE_Inr_iff)
  then show ?thesis using c' fetch_None [OF c(1,3) None] None by (simp add: GetInt_def int_value_def)
next
  case (Some x)
  with d obtain v where v: "datum c (key (bytes name)) = Some (DInt v)" by (cases x) (auto simp: int_name_def)
  then have "getter (GetInt env c (bytes name) None None def) = Inr (c, v)" using int_settings.get_val [OF c(1,3)] by (simp add: datum_DInt)
  moreover have "datum c = (datum c)(key (bytes name) \<mapsto> DInt v)" using v by auto
  ultimately show ?thesis using c(1) cfg_space_mono [OF c(2), of n] v by (auto simp: getter_def bindE_Inr_iff int_value_def)
qed

lemma GetCString_datum:
  assumes c: "cfg_ok env c" "cfg_space env c (Suc n)" "0 \<notin> set (bytes name)" and d: "str_name (datum c) name" "string_ok (bytes def)"
  shows "\<exists>c' rp. GetCString env c (bytes name) None None (bytes def) = Inr (c', rp, str_value (datum c) name def) \<and>
    cfg_ok env c' \<and> cfg_space env c' n \<and> datum c' = (datum c)(key (bytes name) \<mapsto> DStr (str_value (datum c) name def))"
proof (cases "datum c (key (bytes name))")
  case None
  then obtain c' where c': "put_datum env c (bytes name) (DStr (bytes def)) = Inr c'" "cfg_ok env c'" "cfg_space env c' n"
    "datum c' = (datum c)(key (bytes name) \<mapsto> DStr (bytes def))"
    using put_string_ok [OF c _ d(2)] by (auto simp: datum_None)
  then obtain rp old where "SetCString env c (bytes name) None (bytes def) = Inr (c', rp, old)"
    by (auto simp: put_datum_def setter_def bindE_Inr_iff)
  then show ?thesis using c' fetch_None [OF c(1,3) None] None by (simp add: GetCString_def str_value_def)
next
  case (Some x)
  with d obtain v where v: "datum c (key (bytes name)) = Some (DStr v)" by (cases x) (auto simp: str_name_def)
  then have "getter (GetCString env c (bytes name) None None (bytes def)) = Inr (c, v)"
    using str_settings.get_val [OF c(1,3)] by (simp add: datum_DStr)
  moreover have "datum c = (datum c)(key (bytes name) \<mapsto> DStr v)" using v by auto
  ultimately show ?thesis using c(1) cfg_space_mono [OF c(2), of n] v by (auto simp: getter_def bindE_Inr_iff str_value_def)
qed

definition settings_in :: "(byte list \<rightharpoonup> cfg_datum) \<Rightarrow> server_settings" where
  "settings_in m = \<lparr>st_https = int_value m ''https'' 0, st_timer = int_value m ''timer'' (- 1), st_port = int_value m ''port'' 8888,
     st_httpport = int_value m ''httpport'' 0, st_ip = str_value m ''ip'' ''127.0.0.1'', st_httpip = str_value m ''httpip'' ''localhost'',
     st_lua = str_value m ''lua'' ''game_server.lua''\<rparr>"

definition well_typed :: "(byte list \<rightharpoonup> cfg_datum) \<Rightarrow> bool" where
  "well_typed m \<longleftrightarrow> list_all (int_name m) [''https'', ''timer'', ''port'', ''httpport''] \<and> list_all (str_name m) [''ip'', ''httpip'', ''lua'']"

lemma server_keys:
  "key (bytes ''https'') = [104, 116, 116, 112, 115]" "key (bytes ''timer'') = [116, 105, 109, 101, 114]"
  "key (bytes ''port'') = [112, 111, 114, 116]" "key (bytes ''httpport'') = [104, 116, 116, 112, 112, 111, 114, 116]"
  "key (bytes ''ip'') = [105, 112]" "key (bytes ''httpip'') = [104, 116, 116, 112, 105, 112]" "key (bytes ''lua'') = [108, 117, 97]"
  by (simp_all add: key_def bytes_def of_char_def tolower_def)

text \<open>A store in which only the names of \<open>D\<close> may differ from the data \<open>m\<close>, with room for \<open>n\<close> more settings.\<close>

definition reading :: "cfg_env \<Rightarrow> (byte list \<rightharpoonup> cfg_datum) \<Rightarrow> nat \<Rightarrow> byte list set \<Rightarrow> core_cfg \<Rightarrow> bool" where
  "reading env m n D c \<longleftrightarrow> cfg_ok env c \<and> cfg_space env c n \<and> (\<forall>k. k \<notin> D \<longrightarrow> datum c k = m k)"

lemma GetInt_step:
  assumes "reading env m (Suc n) D c" "0 \<notin> set (bytes name)" "int_name m name" "key (bytes name) \<notin> D"
  shows "\<exists>c' rp. GetInt env c (bytes name) None None def = Inr (c', rp, int_value m name def) \<and>
    reading env m n (insert (key (bytes name)) D) c'"
proof -
  have e: "datum c (key (bytes name)) = m (key (bytes name))" using assms(1,4) by (simp add: reading_def)
  then have "int_name (datum c) name" "int_value (datum c) name def = int_value m name def"
    using assms(3) by (simp_all add: int_name_def int_value_def)
  with GetInt_datum [OF _ _ assms(2), of env c n def] assms(1) show ?thesis by (auto simp: reading_def)
qed

lemma GetCString_step:
  assumes "reading env m (Suc n) D c" "0 \<notin> set (bytes name)" "str_name m name" "key (bytes name) \<notin> D" "string_ok (bytes def)"
  shows "\<exists>c' rp. GetCString env c (bytes name) None None (bytes def) = Inr (c', rp, str_value m name def) \<and>
    reading env m n (insert (key (bytes name)) D) c'"
proof -
  have e: "datum c (key (bytes name)) = m (key (bytes name))" using assms(1,4) by (simp add: reading_def)
  then have "str_name (datum c) name" "str_value (datum c) name def = str_value m name def"
    using assms(3) by (simp_all add: str_name_def str_value_def)
  with GetCString_datum [OF _ _ assms(2) _ assms(5), of env c n] assms(1) show ?thesis by (auto simp: reading_def)
qed

lemma server_defaults:
  "string_ok (bytes ''127.0.0.1'')" "string_ok (bytes ''localhost'')" "string_ok (bytes ''game_server.lua'')"
  by (simp_all add: string_ok_def bytes_def of_char_def SIZE_MOD_def)

lemma server_names:
  "0 \<notin> set (bytes ''https'')" "0 \<notin> set (bytes ''timer'')" "0 \<notin> set (bytes ''port'')" "0 \<notin> set (bytes ''httpport'')"
  "0 \<notin> set (bytes ''ip'')" "0 \<notin> set (bytes ''httpip'')" "0 \<notin> set (bytes ''lua'')"
  by (simp_all add: bytes_def of_char_def)

lemma well_typedD:
  assumes "well_typed m"
  shows "int_name m ''https''" "int_name m ''timer''" "int_name m ''port''" "int_name m ''httpport''" "str_name m ''ip''" "str_name m ''httpip''" "str_name m ''lua''"
  using assms by (simp_all add: well_typed_def)

lemma read_settings_ok:
  assumes c: "cfg_ok env c" "cfg_space env c 7" and t: "well_typed (datum c)"
  shows "\<exists>c'. read_settings env c = Inr (c', settings_in (datum c)) \<and> cfg_ok env c'"
proof -
  let ?m = "datum c" and ?k = "\<lambda>n. key (bytes n)"
  note t' = well_typedD [OF t] and n = server_names
  have r0: "reading env ?m (Suc (Suc (Suc (Suc (Suc (Suc (Suc 0))))))) {} c" using c by (simp add: reading_def eval_nat_numeral)
  have k1: "?k ''https'' \<notin> {}" by (simp add: server_keys)
  obtain c1 r1 where c1: "GetInt env c (bytes ''https'') None None 0 = Inr (c1, r1, int_value ?m ''https'' 0)"
    "reading env ?m (Suc (Suc (Suc (Suc (Suc (Suc 0)))))) {?k ''https''} c1"
    using GetInt_step [OF r0 n(1) t'(1) k1] by blast
  have k2: "?k ''timer'' \<notin> {?k ''https''}" by (simp add: server_keys)
  obtain c2 r2 where c2: "GetInt env c1 (bytes ''timer'') None None (- 1) = Inr (c2, r2, int_value ?m ''timer'' (- 1))"
    "reading env ?m (Suc (Suc (Suc (Suc (Suc 0))))) {?k ''timer'', ?k ''https''} c2"
    using GetInt_step [OF c1(2) n(2) t'(2) k2] by blast
  have k3: "?k ''port'' \<notin> {?k ''timer'', ?k ''https''}" by (simp add: server_keys)
  obtain c3 r3 where c3: "GetInt env c2 (bytes ''port'') None None 8888 = Inr (c3, r3, int_value ?m ''port'' 8888)"
    "reading env ?m (Suc (Suc (Suc (Suc 0)))) {?k ''port'', ?k ''timer'', ?k ''https''} c3"
    using GetInt_step [OF c2(2) n(3) t'(3) k3] by blast
  have k4: "?k ''httpport'' \<notin> {?k ''port'', ?k ''timer'', ?k ''https''}" by (simp add: server_keys)
  obtain c4 r4 where c4: "GetInt env c3 (bytes ''httpport'') None None 0 = Inr (c4, r4, int_value ?m ''httpport'' 0)"
    "reading env ?m (Suc (Suc (Suc 0))) {?k ''httpport'', ?k ''port'', ?k ''timer'', ?k ''https''} c4"
    using GetInt_step [OF c3(2) n(4) t'(4) k4] by blast
  have k5: "?k ''ip'' \<notin> {?k ''httpport'', ?k ''port'', ?k ''timer'', ?k ''https''}" by (simp add: server_keys)
  obtain c5 r5 where c5: "GetCString env c4 (bytes ''ip'') None None (bytes ''127.0.0.1'') = Inr (c5, r5, str_value ?m ''ip'' ''127.0.0.1'')"
    "reading env ?m (Suc (Suc 0)) {?k ''ip'', ?k ''httpport'', ?k ''port'', ?k ''timer'', ?k ''https''} c5"
    using GetCString_step [OF c4(2) n(5) t'(5) k5 server_defaults(1)] by blast
  have k6: "?k ''httpip'' \<notin> {?k ''ip'', ?k ''httpport'', ?k ''port'', ?k ''timer'', ?k ''https''}" by (simp add: server_keys)
  obtain c6 r6 where c6: "GetCString env c5 (bytes ''httpip'') None None (bytes ''localhost'') = Inr (c6, r6, str_value ?m ''httpip'' ''localhost'')"
    "reading env ?m (Suc 0) {?k ''httpip'', ?k ''ip'', ?k ''httpport'', ?k ''port'', ?k ''timer'', ?k ''https''} c6"
    using GetCString_step [OF c5(2) n(6) t'(6) k6 server_defaults(2)] by blast
  have k7: "?k ''lua'' \<notin> {?k ''httpip'', ?k ''ip'', ?k ''httpport'', ?k ''port'', ?k ''timer'', ?k ''https''}" by (simp add: server_keys)
  obtain c7 r7 where c7: "GetCString env c6 (bytes ''lua'') None None (bytes ''game_server.lua'') = Inr (c7, r7, str_value ?m ''lua'' ''game_server.lua'')"
    "reading env ?m 0 {?k ''lua'', ?k ''httpip'', ?k ''ip'', ?k ''httpport'', ?k ''port'', ?k ''timer'', ?k ''https''} c7"
    using GetCString_step [OF c6(2) n(7) t'(7) k7 server_defaults(3)] by blast
  show ?thesis using c1(1) c2(1) c3(1) c4(1) c5(1) c6(1) c7(1) c7(2) by (simp add: read_settings_def settings_in_def reading_def)
qed

section \<open>Starting\<close>

text \<open>A server that has been constructed: the array for the name of the file has 257 cells.\<close>

definition name_array :: "event_server \<Rightarrow> bool" where
  "name_array s \<longleftrightarrow> length (es_cfg_name s) = MAX_CFG_NAMELEN + 1"

lemma event_server_new_array: "event_server_new env g = Inr s \<Longrightarrow> name_array s \<and> \<not> es_base s"
  by (auto simp: event_server_new_def bindE_Inr_iff name_array_def)

lemma Start_name:
  assumes "name_array s" "\<not> es_base s" "0 \<notin> set cfgName"
  shows "\<exists>cells. Start s cfgName th = Inr (s\<lparr>es_cfg_name := cells, es_thread := th\<rparr>, 0, True) \<and> length cells = MAX_CFG_NAMELEN + 1 \<and>
    c_string cells = Inr (take MAX_CFG_NAMELEN cfgName)"
proof -
  let ?len = "min MAX_CFG_NAMELEN (length cfgName)" and ?n = "take (min MAX_CFG_NAMELEN (length cfgName)) cfgName"
  have l: "length (es_cfg_name s) = 257" "?len \<le> 256" using assms(1) by (simp_all add: name_array_def MAX_CFG_NAMELEN_def)
  have len: "(if length cfgName > MAX_CFG_NAMELEN then MAX_CFG_NAMELEN else length cfgName) = ?len" "take MAX_CFG_NAMELEN cfgName = ?n" by (auto simp: min_def)
  have w1: "mem_write (es_cfg_name s) 0 ?n = Inr (?n @ drop ?len (es_cfg_name s))"
    using l by (simp add: mem_write_def MAX_CFG_NAMELEN_def min.commute)
  have w2: "mem_write (?n @ drop ?len (es_cfg_name s)) ?len [0] = Inr (?n @ 0 # drop (Suc ?len) (es_cfg_name s))"
    using l by (simp add: mem_write_def min.commute)
  have "0 \<notin> set ?n" using assms(3) by (meson in_set_takeD)
  then have "c_string (?n @ 0 # drop (Suc ?len) (es_cfg_name s)) = Inr ?n" by simp
  moreover have "length (?n @ 0 # drop (Suc ?len) (es_cfg_name s)) = MAX_CFG_NAMELEN + 1"
    using l by (simp add: MAX_CFG_NAMELEN_def min.commute)
  moreover have "Start s cfgName th = Inr (s\<lparr>es_cfg_name := ?n @ 0 # drop (Suc ?len) (es_cfg_name s), es_thread := th\<rparr>, 0, True)"
    unfolding Start_def Let_def len(1) using assms(2) w1 w2 by simp
  ultimately show ?thesis unfolding len(2) by blast
qed

section \<open>Serving\<close>

text \<open>The calls up to the event loop that the settings ask for.\<close>

definition http_calls :: "bool \<Rightarrow> server_settings \<Rightarrow> server_call list" where
  "http_calls have_ssl st =
     (if sint (st_httpport st) > 0
      then [HttpBind (st_httpip st) (ucast (st_httpport st))] @
        (if have_ssl \<and> st_https st \<noteq> 0 then [HttpCerts (bytes ''server.pem'') (bytes ''server.key'')] else []) @ [HttpHandler]
      else [])"

definition asked_calls :: "bool \<Rightarrow> server_settings \<Rightarrow> server_call list \<Rightarrow> server_call list" where
  "asked_calls have_ssl st timer_calls =
     [LuaOpen, LuaFile (st_lua st), BaseNew] @
     (if sint (st_port st) > 0 then [Bind (ucast (st_port st)), Listen 1000, AcceptEvent] else []) @
     http_calls have_ssl st @
     (if have_ssl then [ClientCerts (bytes ''ca.crt'') (bytes ''client.crt'')] else []) @
     timer_calls @ [UserTrigger, NotifyTimer 1 0, Dispatch]"

text \<open>
  A timer of so many milliseconds: a number of seconds and one of microseconds below a million that make up that time, and no timer for a
  number that is not positive.
\<close>

definition timer_set :: "int \<Rightarrow> server_call list \<Rightarrow> bool" where
  "timer_set ms calls \<longleftrightarrow>
     (if ms > 0
      then \<exists>sec usec. calls = [UserTimer sec usec] \<and> 0 \<le> usec \<and> usec < 1000000 \<and> sec * 1000000 + usec = ms * 1000
      else calls = [])"

lemma user_timer_set: "timer_set (sint timer) (user_timer timer)"
proof -
  have "sint timer div 1000 * 1000000 + sint timer mod 1000 * 1000 = sint timer * 1000"
    using div_mult_mod_eq [of "sint timer" 1000] by linarith
  moreover have "0 \<le> sint timer mod 1000" "sint timer mod 1000 < 1000" by simp_all
  ultimately show ?thesis by (auto simp: timer_set_def user_timer_def)
qed

text \<open>The calls that end the thread.\<close>

definition closing_calls :: "u32 \<Rightarrow> bool \<Rightarrow> server_call list" where
  "closing_calls timer destroyed =
     (if sint timer > 0 then [UserTimerDel] else []) @ [NotifyTimerDel, LuaClose] @ (if destroyed then [DeleteThis] else [])"

text \<open>Everything the server asks for is granted, and the callbacks of the loop keep the store well formed.\<close>

definition granted :: "cfg_env \<Rightarrow> server_env \<Rightarrow> bool" where
  "granted env sv \<longleftrightarrow> (\<forall>f. sv_dofile sv f = 0) \<and> sv_ref sv \<noteq> - 1 \<and> sv_base sv \<and> (\<forall>p. sv_bind sv p) \<and> sv_listen sv \<and>
     sv_evhttp_new sv \<and> (\<forall>ip p. sv_evhttp_bind sv ip p) \<and> (\<forall>f. sv_ssl sv f) \<and>
     (\<forall>s. cfg_ok env (es_cfg s) \<longrightarrow> cfg_ok env (es_cfg (sv_dispatch sv s)))"

text \<open>What is left of the server: nothing if it was stopped while the loop ran, otherwise a server without a Lua state.\<close>

definition ended :: "server_env \<Rightarrow> event_server option \<Rightarrow> bool \<Rightarrow> bool" where
  "ended sv sp destroyed \<longleftrightarrow> (\<exists>s. destroyed = es_destroy (sv_dispatch sv s)) \<and>
     (case sp of None \<Rightarrow> destroyed | Some s \<Rightarrow> \<not> destroyed \<and> \<not> es_state s)"

lemma run_loop_ok:
  assumes g: "granted env sv" and c: "cfg_ok env (es_cfg s)"
  shows "\<exists>sp destroyed. run_loop sv s timer = Inr (sp, 0, user_timer timer @ [UserTrigger, NotifyTimer 1 0, Dispatch] @
    closing_calls timer destroyed) \<and> ended sv sp destroyed"
proof -
  have "cfg_ok env (es_cfg (sv_dispatch sv s))" using g c by (simp add: granted_def)
  then obtain c' where "release_cfg (es_cfg (sv_dispatch sv s)) = Inr c'" using release_cfg_ok by (auto simp: cfg_ok_def)
  then show ?thesis
    by (cases "es_destroy (sv_dispatch sv s)") (auto simp: run_loop_def Let_def closing_calls_def ended_def intro: exI [of _ s] exI [of _ False] exI [of _ True])
qed

lemma as_http_server_ok:
  assumes "granted env sv"
  shows "as_http_server sv s https ip port = Inr (s\<lparr>es_http := True\<rparr>, 0, [HttpBind ip (ucast port)] @
    (if sv_have_openssl sv \<and> https \<noteq> 0 then [HttpCerts (bytes ''server.pem'') (bytes ''server.key'')] else []) @ [HttpHandler])"
  using assms by (simp add: granted_def as_http_server_def server_setup_certs_def must_ssl_def)

lemma http_part:
  assumes "granted env sv"
  shows "\<exists>t'. (if sint (st_httpport st) > 0 then as_http_server sv t (st_https st) (st_httpip st) (st_httpport st) else Inr (t, 0, [])) =
    Inr (t', 0, http_calls (sv_have_openssl sv) st) \<and> es_cfg t' = es_cfg t"
  by (cases "sint (st_httpport st) > 0") (simp_all add: as_http_server_ok [OF assms] http_calls_def)

lemma serve_ok:
  assumes g: "granted env sv" and c: "cfg_ok env (es_cfg s)"
  shows "\<exists>sp destroyed. serve sv s st =
      Inr (sp, 0, asked_calls (sv_have_openssl sv) st (user_timer (st_timer st)) @ closing_calls (st_timer st) destroyed) \<and> ended sv sp destroyed"
proof -
  have loop: "\<exists>s' destroyed. run_loop sv t (st_timer st) = Inr (s', 0, user_timer (st_timer st) @ [UserTrigger, NotifyTimer 1 0, Dispatch] @
      closing_calls (st_timer st) destroyed) \<and> ended sv s' destroyed" if "es_cfg t = es_cfg s" for t
    using run_loop_ok [OF g, of t] c that by simp
  have client: "\<exists>t'. client_context sv t = (t', Some (if sv_have_openssl sv then [ClientCerts (bytes ''ca.crt'') (bytes ''client.crt'')] else [])) \<and>
      es_cfg t' = es_cfg t" for t
    using g by (simp add: client_context_def granted_def)
  have tcp: "snd (listen_tcp sv ip port) = [Bind (ucast port), Listen 1000, AcceptEvent]" for ip port
    using g by (simp add: listen_tcp_def granted_def)
  let ?t = "s\<lparr>es_state := True, es_lua_ref := sv_ref sv, es_base := True\<rparr>"
  obtain t where http: "(if sint (st_httpport st) > 0 then as_http_server sv ?t (st_https st) (st_httpip st) (st_httpport st)
      else Inr (?t, 0, [])) = Inr (t, 0, http_calls (sv_have_openssl sv) st)" "es_cfg t = es_cfg s"
    using http_part [OF g, of st ?t] by auto
  obtain t1 where t1: "client_context sv t = (t1, Some (if sv_have_openssl sv then [ClientCerts (bytes ''ca.crt'') (bytes ''client.crt'')] else []))"
    "es_cfg t1 = es_cfg s" using client [of t] http(2) by auto
  obtain s' destroyed where s': "run_loop sv t1 (st_timer st) = Inr (s', 0, user_timer (st_timer st) @ [UserTrigger, NotifyTimer 1 0, Dispatch] @
      closing_calls (st_timer st) destroyed)" "ended sv s' destroyed" using loop [OF t1(2)] by blast
  have "sv_dofile sv (st_lua st) = 0" "sv_ref sv \<noteq> - 1" "sv_base sv" using g by (simp_all add: granted_def)
  then have "serve sv s st = Inr (s', 0, asked_calls (sv_have_openssl sv) st (user_timer (st_timer st)) @ closing_calls (st_timer st) destroyed)"
    using http(1) t1(1) s'(1) by (simp add: serve_def Let_def tcp asked_calls_def)
  with s'(2) show ?thesis by blast
qed

text \<open>The data of a file.\<close>

abbreviation file_data :: "(byte list \<times> cfg_datum) list \<Rightarrow> byte list \<rightharpoonup> cfg_datum" where
  "file_data nds \<equiv> map_of (map (\<lambda>nd. (key (fst nd), snd nd)) nds)"

lemma DoProc_settings:
  assumes f: "c_string (es_cfg_name s) = Inr name" "sv_file sv name = Some (file_text env nds)"
    and nds: "list_all (plain_setting env) nds" "length (file_text env nds) \<le> 1024" "distinct (map (\<lambda>nd. key (fst nd)) nds)"
      "well_typed (file_data nds)"
    and c: "cfg_ok env (es_cfg s)" "cfg_space env (es_cfg s) (length nds + 7)" "cfg_abs (es_cfg s) = Map.empty"
  shows "\<exists>c'. DoProc env sv s = serve sv (s\<lparr>es_cfg := c'\<rparr>) (settings_in (file_data nds)) \<and> cfg_ok env c'"
proof -
  obtain c1 where c1: "put_data env (es_cfg s) nds = Inr c1" "cfg_ok env c1" "cfg_space env c1 7"
    "datum c1 = datum (es_cfg s) ++ file_data nds"
    using put_data_ok [OF c(1,2) nds(1,3)] c(3) by auto
  have "datum (es_cfg s) = Map.empty" using c(3) by (simp add: datum_def fun_eq_iff)
  then have d: "datum c1 = file_data nds" using c1(4) by simp
  obtain c2 where "read_settings env c1 = Inr (c2, settings_in (file_data nds))" "cfg_ok env c2"
    using read_settings_ok [OF c1(2,3)] nds(4) unfolding d by blast
  then show ?thesis using f load_chunks_ok [OF nds(1,2), of "es_cfg s"] c1(1) by (auto simp: DoProc_def load_cfg_def)
qed

lemma started_server:
  assumes "name_array s" "\<not> es_base s" "0 \<notin> set cfgName" "length cfgName \<le> 256" "sv_file sv cfgName = Some (file_text env nds)"
    and "list_all (plain_setting env) nds" "length (file_text env nds) \<le> 1024" "distinct (map (\<lambda>nd. key (fst nd)) nds)"
      "well_typed (file_data nds)"
    and "cfg_ok env (es_cfg s)" "cfg_space env (es_cfg s) (length nds + 7)" "cfg_abs (es_cfg s) = Map.empty" "granted env sv"
  shows "\<exists>s1 sp timer_calls destroyed. Start s cfgName th = Inr (s1, 0, True) \<and>
    DoProc env sv s1 = Inr (sp, 0, asked_calls (sv_have_openssl sv) (settings_in (file_data nds)) timer_calls @
      closing_calls (int_value (file_data nds) ''timer'' (- 1)) destroyed) \<and>
    timer_set (sint (int_value (file_data nds) ''timer'' (- 1))) timer_calls \<and> ended sv sp destroyed"
proof -
  obtain cells where cells: "Start s cfgName th = Inr (s\<lparr>es_cfg_name := cells, es_thread := th\<rparr>, 0, True)" "c_string cells = Inr cfgName"
    using Start_name [OF assms(1-3), of th] assms(4) by (auto simp: MAX_CFG_NAMELEN_def)
  let ?s = "s\<lparr>es_cfg_name := cells, es_thread := th\<rparr>"
  obtain c where c: "DoProc env sv ?s = serve sv (?s\<lparr>es_cfg := c\<rparr>) (settings_in (file_data nds))" "cfg_ok env c"
    using DoProc_settings [of ?s cfgName sv env nds] assms(5-12) cells(2) by auto
  let ?timer = "st_timer (settings_in (file_data nds))"
  obtain sp destroyed where "serve sv (?s\<lparr>es_cfg := c\<rparr>) (settings_in (file_data nds)) =
      Inr (sp, 0, asked_calls (sv_have_openssl sv) (settings_in (file_data nds)) (user_timer ?timer) @ closing_calls ?timer destroyed)"
      "ended sv sp destroyed"
    using serve_ok [OF assms(13), of "?s\<lparr>es_cfg := c\<rparr>" "settings_in (file_data nds)"] c(2) by auto
  moreover have "?timer = int_value (file_data nds) ''timer'' (- 1)" by (simp add: settings_in_def)
  ultimately show ?thesis using cells(1) c(1) user_timer_set [of ?timer] by auto
qed

text \<open>A thread that made the event base leaves it with the server, or deletes the server.\<close>

lemma run_loop_base:
  assumes "run_loop sv t timer = Inr (sp, r, calls)" "es_base t" "\<forall>t. es_base (sv_dispatch sv t) = es_base t"
  shows "(sp = None \<longleftrightarrow> DeleteThis \<in> set calls) \<and> (\<forall>t'. sp = Some t' \<longrightarrow> es_base t')"
  using assms(1,2) spec [OF assms(3), of t]
  by (cases "release_cfg (es_cfg (sv_dispatch sv t))") (auto simp: run_loop_def Let_def user_timer_def split: if_splits)

lemma as_http_server_base:
  assumes "as_http_server sv t https ip port = Inr (t', r, calls)"
  shows "es_base t' = es_base t \<and> DeleteThis \<notin> set calls"
  using assms by (auto simp: as_http_server_def server_setup_certs_def Let_def bindE_Inr_iff split: if_splits)

lemma serve_base:
  assumes s: "serve sv t st = Inr (sp, r, calls)" "BaseNew \<in> set calls" and d: "\<forall>t. es_base (sv_dispatch sv t) = es_base t"
  shows "(sp = None \<longleftrightarrow> DeleteThis \<in> set calls) \<and> (\<forall>t'. sp = Some t' \<longrightarrow> es_base t')"
proof -
  let ?t = "t\<lparr>es_state := True, es_lua_ref := sv_ref sv, es_base := True\<rparr>"
  have ok: "sv_dofile sv (st_lua st) = 0" "sv_ref sv \<noteq> - 1" "sv_base sv" using s by (auto simp: serve_def Let_def split: if_splits)
  with s(1) obtain t1 r1 calls1 where t1: "(if sint (st_httpport st) > 0 then as_http_server sv ?t (st_https st) (st_httpip st) (st_httpport st)
      else Inr (?t, 0, [])) = Inr (t1, r1, calls1)" by (auto simp: serve_def Let_def bindE_Inr_iff)
  then have base1: "es_base t1 \<and> DeleteThis \<notin> set calls1" using as_http_server_base [of sv ?t] by (fastforce split: if_splits)
  obtain t2 ssl where t2: "client_context sv t1 = (t2, ssl)" by fastforce
  then have base2: "es_base t2" "\<And>x. ssl = Some x \<Longrightarrow> DeleteThis \<notin> set x"
    using base1 by (auto simp: client_context_def Let_def split: if_splits)
  have tcp: "DeleteThis \<notin> set (snd (listen_tcp sv ip port))" for ip port by (simp add: listen_tcp_def Let_def)
  show ?thesis
  proof (cases ssl)
    case None
    then show ?thesis using s(1) ok t1 t2 base1 base2 tcp by (auto simp: serve_def Let_def)
  next
    case (Some x)
    with s(1) ok t1 t2 obtain calls2 where calls2: "run_loop sv t2 (st_timer st) = Inr (sp, r, calls2)"
      "calls = [LuaOpen, LuaFile (st_lua st)] @ [BaseNew] @ (if sint (st_port st) > 0 then snd (listen_tcp sv (st_ip st) (st_port st)) else []) @
        calls1 @ x @ calls2" by (auto simp: serve_def Let_def bindE_Inr_iff)
    then show ?thesis using run_loop_base [OF calls2(1) base2(1) d] base1 base2(2) [OF Some] tcp by auto
  qed
qed

section \<open>Properties\<close>

text \<open>
  C8: A server whose requests are granted does what its configuration file says.  Once \<open>Start\<close> was given the name of the file, the thread
  runs the script the file names, listens on its port, serves HTTP on its HTTP address and port (with certificates if \<open>https\<close> is set),
  starts a timer of as many milliseconds as \<open>timer\<close> says, each with its default where the file has no such setting and not at all where the
  number is not positive, runs the loop once, and at the end deletes the timers, closes Lua, and deletes the server if it was
  stopped.  The letter case of the names does not matter.  Granted means: the script runs and leaves a dispatcher, the event base, every
  bind, listen, HTTP and SSL call succeeds, and the callbacks of the loop keep the store well formed.  The file has at most 1024 bytes of
  plain settings with different names, in which \<open>https\<close>, \<open>timer\<close>, \<open>port\<close> and \<open>httpport\<close> are integers and \<open>ip\<close>, \<open>httpip\<close> and \<open>lua\<close>
  strings; its name has at most 256 bytes; the server is new, with an empty store that has room for the settings and seven more.
\<close>

theorem server_follows_config:
  assumes "name_array s" "\<not> es_base s" "0 \<notin> set cfgName" "length cfgName \<le> 256" "sv_file sv cfgName = Some (file_text env nds)"
    and "list_all (plain_setting env) nds" "length (file_text env nds) \<le> 1024" "distinct (map (\<lambda>nd. key (fst nd)) nds)"
      "well_typed (file_data nds)"
    and "cfg_ok env (es_cfg s)" "cfg_space env (es_cfg s) (length nds + 7)" "cfg_abs (es_cfg s) = Map.empty" "granted env sv"
  shows "\<exists>s1 sp timer_calls destroyed. Start s cfgName th = Inr (s1, 0, True) \<and>
    DoProc env sv s1 = Inr (sp, 0, asked_calls (sv_have_openssl sv) (settings_in (file_data nds)) timer_calls @
      closing_calls (int_value (file_data nds) ''timer'' (- 1)) destroyed) \<and>
    timer_set (sint (int_value (file_data nds) ''timer'' (- 1))) timer_calls \<and> ended sv sp destroyed"
  by (rule started_server [OF assms])

text \<open>A server with a fresh store, and an environment that grants everything and has a file \<open>a\<close> with \<open>Port=i80\<close>.\<close>

definition demo_settings :: "(byte list \<times> cfg_datum) list" where
  "demo_settings = [(bytes ''Port'', DInt 80)]"

definition demo_server :: event_server where
  "demo_server = \<lparr>es_cfg = empty_cfg, es_destroy = False, es_base = False, es_state = False, es_lua_ref = - 1,
     es_cfg_name = replicate 257 0, es_http = False, es_ctx_client = False, es_thread = 0\<rparr>"

definition demo_server_env :: server_env where
  "demo_server_env = \<lparr>sv_file = \<lambda>_. Some (file_text demo_env demo_settings), sv_dofile = \<lambda>_. 0, sv_ref = 3, sv_base = True, sv_bind = \<lambda>_. True,
     sv_listen = True, sv_evhttp_new = True, sv_evhttp_bind = \<lambda>_ _. True, sv_ssl = \<lambda>_. True, sv_dispatch = \<lambda>s. s\<lparr>es_destroy := True\<rparr>,
     sv_have_openssl = True\<rparr>"

lemma demo_server_new: "event_server_new demo_env False = Inr demo_server"
  by (simp add: event_server_new_def empty_cfg_new demo_server_def MAX_CFG_NAMELEN_def)

lemma demo_granted: "granted demo_env demo_server_env"
  by (simp add: granted_def demo_server_env_def)

lemma demo_key: "key (bytes ''Port'') = [112, 111, 114, 116]"
  by (simp add: key_def bytes_def of_char_def tolower_def)

lemma demo_port: "file_data demo_settings = [[112, 111, 114, 116] \<mapsto> DInt 80]"
  by (simp add: demo_settings_def demo_key)

lemma demo_plain:
  "list_all (plain_setting demo_env) demo_settings" "length (file_text demo_env demo_settings) \<le> 1024"
  by (simp_all add: demo_settings_def plain_setting_def plain_name_def plain_datum_def file_text_def setting_line_def bytes_def of_char_def
      show_int_def dec_digits.simps char_of_def bit_0)

lemma demo_data: "distinct (map (\<lambda>nd. key (fst nd)) demo_settings)" "well_typed (file_data demo_settings)"
  by (simp add: demo_settings_def) (simp add: demo_port well_typed_def int_name_def str_name_def server_keys)

lemma demo_room: "length demo_settings + 7 \<le> 1000"
  by (simp add: demo_settings_def)

theorem server_follows_config_witness:
  "\<exists>s1 sp destroyed. Start demo_server (bytes ''a'') 1 = Inr (s1, 0, True) \<and>
    DoProc demo_env demo_server_env s1 = Inr (sp, 0,
      [LuaOpen, LuaFile (bytes ''game_server.lua''), BaseNew, Bind 80, Listen 1000, AcceptEvent,
       ClientCerts (bytes ''ca.crt'') (bytes ''client.crt''), UserTrigger, NotifyTimer 1 0, Dispatch] @
      closing_calls (- 1) destroyed) \<and> ended demo_server_env sp destroyed"
proof -
  have vals: "asked_calls (sv_have_openssl demo_server_env) (settings_in (file_data demo_settings)) [] =
      [LuaOpen, LuaFile (bytes ''game_server.lua''), BaseNew, Bind 80, Listen 1000, AcceptEvent,
       ClientCerts (bytes ''ca.crt'') (bytes ''client.crt''), UserTrigger, NotifyTimer 1 0, Dispatch]"
    "int_value (file_data demo_settings) ''timer'' (- 1) = - 1"
    by (simp_all add: demo_port asked_calls_def settings_in_def int_value_def str_value_def server_keys http_calls_def demo_server_env_def)
  have "timer_set (sint (- 1 :: u32)) calls \<longleftrightarrow> calls = []" for calls by (simp add: timer_set_def)
  then show ?thesis
    using server_follows_config [of demo_server "bytes ''a''" demo_server_env demo_env demo_settings 1, OF _ _ _ _ _ demo_plain demo_data _ _ _ demo_granted]
      empty_cfg_ok(1) empty_cfg_ok(2) [OF demo_room] vals
    by (simp add: demo_server_def name_array_def MAX_CFG_NAMELEN_def bytes_def of_char_def demo_server_env_def empty_cfg_abs fun_eq_iff)
qed

text \<open>
  C37: A server that has made its event base cannot be started again.  If its thread ended after \<open>Stop\<close> it has deleted the server, and
  \<open>Start\<close> uses a deleted object; if it ended in another way, because the SSL files were missing or the loop came to its
  end by itself, \<open>Start\<close> reports that the server is running and starts nothing, since the base is never given back.  Callbacks of
  the loop are assumed to leave the pointer to the base alone.
\<close>

theorem server_no_restart:
  assumes "DoProc env sv s = Inr (sp, r, calls)" "BaseNew \<in> set calls" "\<forall>t. es_base (sv_dispatch sv t) = es_base t"
  shows "use_server sp (\<lambda>t. Start t cfgName th) = (if DeleteThis \<in> set calls then Inl UseAfterFree else Inr (the sp, - 1, False))"
proof -
  obtain name where n: "c_string (es_cfg_name s) = Inr name" using assms(1) by (cases "c_string (es_cfg_name s)") (simp_all add: DoProc_def)
  obtain c loaded where l: "load_cfg env (es_cfg s) (sv_file sv name) = Inr (c, loaded)"
    using assms(1) n by (cases "load_cfg env (es_cfg s) (sv_file sv name)") (auto simp: DoProc_def)
  have loaded using assms(1,2) n l by (cases loaded) (auto simp: DoProc_def)
  with assms(1) n l obtain t st where "serve sv t st = Inr (sp, r, calls)"
    by (cases "read_settings env c") (auto simp: DoProc_def)
  from serve_base [OF this assms(2,3)] show ?thesis by (auto simp: use_server_def Start_def)
qed

definition calm_server_env :: server_env where
  "calm_server_env = demo_server_env\<lparr>sv_dispatch := \<lambda>s. s\<lparr>es_destroy := False\<rparr>\<rparr>"

lemma demo_runs:
  assumes "sv = demo_server_env \<or> sv = calm_server_env"
  shows "\<exists>s1 sp destroyed. Start demo_server (bytes ''a'') 1 = Inr (s1, 0, True) \<and>
    DoProc demo_env sv s1 = Inr (sp, 0, asked_calls True (settings_in (file_data demo_settings)) [] @ closing_calls (- 1) destroyed) \<and>
    ended sv sp destroyed"
proof -
  have g: "granted demo_env sv" using assms demo_granted by (auto simp: granted_def calm_server_env_def)
  have t: "int_value (file_data demo_settings) ''timer'' (- 1) = - 1" by (simp add: demo_port int_value_def server_keys)
  have "timer_set (sint (- 1 :: u32)) calls \<longleftrightarrow> calls = []" for calls by (simp add: timer_set_def)
  then show ?thesis
    using started_server [of demo_server "bytes ''a''" sv demo_env demo_settings 1, OF _ _ _ _ _ demo_plain demo_data _ _ _ g]
      empty_cfg_ok(1) empty_cfg_ok(2) [OF demo_room] assms t
    by (auto simp: demo_server_def name_array_def MAX_CFG_NAMELEN_def bytes_def of_char_def demo_server_env_def calm_server_env_def
        empty_cfg_abs fun_eq_iff)
qed

theorem server_no_restart_witness:
  "\<exists>s1 sp calls sp' calls'. Start demo_server (bytes ''a'') 1 = Inr (s1, 0, True) \<and>
    DoProc demo_env demo_server_env s1 = Inr (sp, 0, calls) \<and> use_server sp (\<lambda>t. Start t (bytes ''a'') 2) = Inl UseAfterFree \<and>
    DoProc demo_env calm_server_env s1 = Inr (sp', 0, calls') \<and> use_server sp' (\<lambda>t. Start t (bytes ''a'') 2) = Inr (the sp', - 1, False)"
proof -
  obtain s1 sp d sp' d' where r: "Start demo_server (bytes ''a'') 1 = Inr (s1, 0, True)"
    "DoProc demo_env demo_server_env s1 = Inr (sp, 0, asked_calls True (settings_in (file_data demo_settings)) [] @ closing_calls (- 1) d)"
    "DoProc demo_env calm_server_env s1 = Inr (sp', 0, asked_calls True (settings_in (file_data demo_settings)) [] @ closing_calls (- 1) d')"
    "ended demo_server_env sp d" "ended calm_server_env sp' d'"
    using demo_runs [of demo_server_env] demo_runs [of calm_server_env] by auto
  have base: "BaseNew \<in> set (asked_calls True (settings_in (file_data demo_settings)) [] @ closing_calls (- 1) b)" for b
    by (simp add: asked_calls_def)
  have "d" "\<not> d'" using r(4,5) by (simp_all add: ended_def demo_server_env_def calm_server_env_def)
  then have "DeleteThis \<in> set (asked_calls True (settings_in (file_data demo_settings)) [] @ closing_calls (- 1) d)"
    "DeleteThis \<notin> set (asked_calls True (settings_in (file_data demo_settings)) [] @ closing_calls (- 1) d')"
    by (simp_all add: asked_calls_def closing_calls_def http_calls_def)
  then show ?thesis
    using server_no_restart [OF r(2) base, of "bytes ''a''" 2] server_no_restart [OF r(3) base, of "bytes ''a''" 2] r
    by (auto simp: demo_server_env_def calm_server_env_def)
qed

section \<open>Connections that are lost\<close>

text \<open>
  Every plain connection attempt loses one connection object, because \<open>Connect\<close> makes two and keeps the second: of the objects made,
  those that are neither freed nor handed to the caller are one, and two when the address cannot be
  parsed.  An SSL attempt loses none, or one when the address cannot be parsed.
\<close>

theorem Connect_loses_objects:
  assumes "cn_new1 cn" "cn_new2 cn" "cn_ssl_new cn" "cn_ssl_socket cn"
    and "Connect cn ip port ssl_flag msg_id this ssl ref bev_ref = (result, calls)"
  shows "count_list calls SocketMade = count_list calls BevFree + (if result = None then 0 else 1) +
    (if ssl_flag then 0 else 1) + (if ip \<noteq> [] \<and> 48 \<le> sint (hd ip) \<and> sint (hd ip) \<le> 57 \<and> cn_pton cn ip \<le> 0 then 1 else 0)"
  using assms by (cases ip) (auto simp: Connect_def new_socket_def open_connection_def Let_def split: if_splits)

definition demo_connect :: connect_env where
  "demo_connect = \<lparr>cn_new1 = True, cn_new2 = True, cn_ssl_new = True, cn_ssl_socket = True, cn_hostname = 0, cn_pton = \<lambda>_. 1, cn_connect = 0\<rparr>"

theorem Connect_loses_objects_witness:
  "count_list (snd (Connect demo_connect (bytes ''10.0.0.1'') 80 False 1 2 0 3 4)) SocketMade = 2"
proof -
  have e: "Connect demo_connect (bytes ''10.0.0.1'') 80 False 1 2 0 3 4 =
      (fst (Connect demo_connect (bytes ''10.0.0.1'') 80 False 1 2 0 3 4), snd (Connect demo_connect (bytes ''10.0.0.1'') 80 False 1 2 0 3 4))"
    by simp
  show ?thesis using Connect_loses_objects [OF _ _ _ _ e]
    by (simp add: demo_connect_def Connect_def new_socket_def open_connection_def bytes_def of_char_def Let_def)
qed

end
