(* ===== verification/ScriptApi.thy ===== *)
theory ScriptApi
  imports LuaMessage LuaThreads HttpClient EventTools ServerSetup
begin

text \<open>
  The functions of \<open>EventServer.cpp\<close> that scripts call on the server, its connections, requests, timers and worker threads, the
  log, and the main program of \<open>gameserver.cpp\<close>.  Arguments are what the \<open>tolua_to\<close> functions give, libevent and Lua answer
  through parameters; a function gives the changed state and the value it pushes.
\<close>

section \<open>Waiting coroutines\<close>

text \<open>
  A timer that \<open>lua_wait_time\<close> sets: the delay, the coroutine and Lua's reference to it.  The state has the timers set, the
  references alive, and the calls of \<open>lua_resume\<close> so far.
\<close>

record self_tv =
  tv_delay :: "nat \<times> nat"
  tv_thread :: nat
  tv_ref :: int

record waits =
  wt_pending :: "self_tv list"
  wt_refs :: "int list"
  wt_resumed :: "nat list"

definition waits_init :: waits where
  "waits_init = \<lparr>wt_pending = [], wt_refs = [], wt_resumed = []\<rparr>"

text \<open>A thread that is not one is logged and then used; \<open>ref\<close> is what \<open>lua_ref\<close> returns.\<close>

definition lua_wait_time :: "waits \<Rightarrow> nat \<Rightarrow> nat option \<Rightarrow> int \<Rightarrow> c_fault + waits" where
  "lua_wait_time w timer co ref =
     (case wait_time timer of
        None \<Rightarrow> Inr w
      | Some tv \<Rightarrow>
          bindE (deref co) (\<lambda>c.
            Inr (w\<lparr>wt_pending := wt_pending w @ [\<lparr>tv_delay = tv, tv_thread = c, tv_ref = ref\<rparr>], wt_refs := wt_refs w @ [ref]\<rparr>)))"

text \<open>The timer at position \<open>i\<close> fires; \<open>yielded\<close> is whether \<open>lua_status\<close> finds the coroutine suspended.\<close>

definition lua_wait_timer_cb :: "waits \<Rightarrow> nat \<Rightarrow> bool \<Rightarrow> waits" where
  "lua_wait_timer_cb w i yielded =
     (let p = wt_pending w ! i;
          w1 = (if yielded then w\<lparr>wt_resumed := wt_resumed w @ [tv_thread p]\<rparr> else w) in
      w1\<lparr>wt_pending := take i (wt_pending w) @ drop (Suc i) (wt_pending w), wt_refs := remove1 (tv_ref p) (wt_refs w)\<rparr>)"

section \<open>Connections\<close>

definition lua_SetClientData :: "bufferevent option \<Rightarrow> int \<Rightarrow> c_fault + bufferevent" where
  "lua_SetClientData bev a3 =
     bindE (number_to_u32 a3) (\<lambda>data.
     bindE (deref bev) (\<lambda>b.
       Inr (case bev_cbarg b of None \<Rightarrow> b | Some m \<Rightarrow> b\<lparr>bev_cbarg := Some (setData m data)\<rparr>)))"

definition lua_GetClientData :: "bufferevent option \<Rightarrow> c_fault + lua_push" where
  "lua_GetClientData bev =
     bindE (deref bev) (\<lambda>b.
       Inr (case bev_cbarg b of None \<Rightarrow> NoValue | Some m \<Rightarrow> PushNumber (uint (msg_data m))))"

definition lua_GetInputBufferMsg :: "bufferevent option \<Rightarrow> c_fault + lxz_message option" where
  "lua_GetInputBufferMsg bev = bindE (deref bev) (\<lambda>b. Inr (bev_cbarg b))"

definition lua_Send2Client :: "bufferevent option \<Rightarrow> lxz_message option \<Rightarrow> c_fault + (bufferevent option \<times> lxz_message option)" where
  "lua_Send2Client bev msg = Send2Client bev msg"

definition lua_SendData2Client :: "bufferevent option \<Rightarrow> byte list \<Rightarrow> c_fault + bufferevent option" where
  "lua_SendData2Client bev v = SendData2Client bev (v @ [0]) (length v)"

definition lua_CloseClient :: "bufferevent option \<Rightarrow> c_fault + int list" where
  "lua_CloseClient bev = bindE (deref bev) (\<lambda>b. Inr (CloseClient b))"

text \<open>
  The address of an IPv4 peer as \<open>getpeername\<close> stores it: the family in the host's byte order, the port and the
  address in the network's, and padding.  \<open>inet_ntop\<close> prints the four bytes it is pointed to.
\<close>

definition sockaddr_in :: "u16 \<Rightarrow> byte list \<Rightarrow> byte list" where
  "sockaddr_in port ip = le_bytes 2 (2 :: u16) @ rev (le_bytes 2 port) @ ip @ replicate 8 0"

definition inet_ntop4 :: "byte list \<Rightarrow> string" where
  "inet_ntop4 a =
     show_int (uint (a ! 0)) @ ''.'' @ show_int (uint (a ! 1)) @ ''.'' @ show_int (uint (a ! 2)) @ ''.'' @ show_int (uint (a ! 3))"

definition lua_GetClientIP :: "int \<Rightarrow> byte list \<Rightarrow> lua_push" where
  "lua_GetClientIP fd addr = (if fd = - 1 then NoValue else PushString (bytes (inet_ntop4 addr)))"

section \<open>Requests\<close>

text \<open>
  The parts of the URL of a request; \<open>parse\<close> is \<open>evhttp_uri_parse\<close> and \<open>uris\<close> the number of parsed URLs alive.
\<close>

definition uri_part ::
  "(byte list \<Rightarrow> evhttp_uri option) \<Rightarrow> (evhttp_uri \<Rightarrow> byte list option) \<Rightarrow> string \<Rightarrow> byte list \<Rightarrow> int \<Rightarrow> lua_push \<times> int" where
  "uri_part parse part absent uri uris =
     (case parse uri of
        None \<Rightarrow> (NoValue, uris)
      | Some decoded \<Rightarrow>
          let uris1 = uris + 1; path = (case part decoded of None \<Rightarrow> bytes absent | Some p \<Rightarrow> p) in (PushString path, uris1 - 1))"

definition lua_evhttp_uri_get_path :: "(byte list \<Rightarrow> evhttp_uri option) \<Rightarrow> byte list \<Rightarrow> int \<Rightarrow> lua_push \<times> int" where
  "lua_evhttp_uri_get_path parse uri uris = uri_part parse uri_path ''/'' uri uris"

definition lua_evhttp_uri_get_query :: "(byte list \<Rightarrow> evhttp_uri option) \<Rightarrow> byte list \<Rightarrow> int \<Rightarrow> lua_push \<times> int" where
  "lua_evhttp_uri_get_query parse uri uris = uri_part parse uri_query [] uri uris"

definition lua_evhttp_uri_get_host :: "(byte list \<Rightarrow> evhttp_uri option) \<Rightarrow> byte list \<Rightarrow> int \<Rightarrow> lua_push \<times> int" where
  "lua_evhttp_uri_get_host parse uri uris = uri_part parse uri_host [] uri uris"

text \<open>The loop that fills a table with headers or with the parts of a query, one \<open>lua_settable\<close> after the other.\<close>

fun settable_loop :: "(byte list \<rightharpoonup> byte list) \<Rightarrow> (byte list \<times> byte list) list \<Rightarrow> (byte list \<rightharpoonup> byte list)" where
  "settable_loop t [] = t"
| "settable_loop t ((k, v) # hs) = settable_loop (t(k \<mapsto> v)) hs"

definition lua_evhttp_get_input_headers :: "(byte list \<times> byte list) list \<Rightarrow> (byte list \<rightharpoonup> byte list)" where
  "lua_evhttp_get_input_headers headers = settable_loop Map.empty headers"

definition lua_evhttp_parse_query ::
  "(byte list \<Rightarrow> (byte list \<times> byte list) list) \<Rightarrow> byte list \<Rightarrow> (byte list \<rightharpoonup> byte list)" where
  "lua_evhttp_parse_query parse uri = settable_loop Map.empty (parse uri)"

definition lua_evhttp_parse_string_query ::
  "(byte list \<Rightarrow> (byte list \<times> byte list) list) \<Rightarrow> byte list \<Rightarrow> (byte list \<rightharpoonup> byte list)" where
  "lua_evhttp_parse_string_query parse str = settable_loop Map.empty (parse str)"

definition lua_evhttp_uridecode :: "(byte list \<Rightarrow> byte list option) \<Rightarrow> byte list \<Rightarrow> lua_push" where
  "lua_evhttp_uridecode decode path = (case decode path of None \<Rightarrow> NoValue | Some d \<Rightarrow> PushString d)"

text \<open>
  The body of a request: \<open>evbuffer_remove\<close> moves up to \<open>len\<close> bytes out of the input buffer and gives their number.
\<close>

definition lua_evhttp_get_input_buffers :: "c_heap \<Rightarrow> byte list \<Rightarrow> c_fault + (byte list \<times> lua_push)" where
  "lua_evhttp_get_input_buffers h buf =
     (let len = length buf in
      bindE (fb_grow h 1024 (fb_new 1024) (size_add len 1)) (\<lambda>b.
      bindE (fb_store 1024 b 0 (take len buf)) (\<lambda>b1.
        let n = ret_int (length (take len buf)) in
        if n > 0 then bindE (fb_load 1024 b1 0 len) (\<lambda>xs. Inr (drop len buf, PushString xs))
        else Inr (drop len buf, NoValue))))"

text \<open>\<open>evhttp_send_reply\<close> with a buffer that holds the body: status, reason and body of the reply.\<close>

definition lua_evhttp_send_reply :: "int \<Rightarrow> byte list \<Rightarrow> byte list \<Rightarrow> c_fault + (u32 \<times> byte list \<times> byte list)" where
  "lua_evhttp_send_reply a2 reason v = bindE (number_to_int a2) (\<lambda>code. Inr (code, reason, v))"

definition lua_evhttp_send_raw :: "bufferevent \<Rightarrow> byte list \<Rightarrow> bufferevent" where
  "lua_evhttp_send_raw bev v = bev\<lparr>bev_output := bev_output bev @ v\<rparr>"

definition lua_evhttp_add_header :: "(byte list \<times> byte list) list \<Rightarrow> byte list \<Rightarrow> byte list \<Rightarrow> (byte list \<times> byte list) list" where
  "lua_evhttp_add_header headers key_text value_text = headers @ [(key_text, value_text)]"

text \<open>
  Requests by their connection, if they have one; the second argument are the connections to be freed once their answer is sent.
  \<open>close_websocket\<close> promises one result and pushes none, so the script gets its argument back.
\<close>

definition lua_CloseReq :: "u64 option option \<Rightarrow> u64 list \<Rightarrow> u64 list" where
  "lua_CloseReq req freeing = (case req of Some (Some evcon) \<Rightarrow> freeing @ [evcon] | _ \<Rightarrow> freeing)"

definition lua_evhttp_close_websocket :: "u64 option option \<Rightarrow> u64 list \<Rightarrow> c_fault + (u64 list \<times> lua_push)" where
  "lua_evhttp_close_websocket req freeing =
     bindE (deref req) (\<lambda>r. bindE (deref r) (\<lambda>evcon. Inr (freeing @ [evcon], PushArgument)))"

section \<open>The dispatcher\<close>

text \<open>
  The callbacks that call the dispatcher, on Lua's stack with its top at the end.  \<open>f\<close> is the value of the global that the reference
  names, with a mark whether it is a function, and \<open>err\<close> the error that \<open>lua_pcall\<close> pushes when the call fails.  The second
  result are the arguments that the dispatcher was called with.
\<close>

definition lua_settop :: "lua_push list \<Rightarrow> nat \<Rightarrow> lua_push list" where
  "lua_settop stk n = take n stk"

text \<open>\<open>lua_pcall(L, nargs, 0, 0)\<close> takes the function and its arguments off the stack.\<close>

definition lua_pcall0 :: "lua_push list \<Rightarrow> nat \<Rightarrow> lua_push option \<Rightarrow> lua_push list" where
  "lua_pcall0 stk nargs err = take (length stk - (nargs + 1)) stk @ (case err of None \<Rightarrow> [] | Some e \<Rightarrow> [e])"

definition call_dispatcher ::
  "lua_push list \<Rightarrow> lua_push \<Rightarrow> bool \<Rightarrow> lua_push list \<Rightarrow> lua_push option \<Rightarrow> lua_push list \<times> lua_push list option" where
  "call_dispatcher stk f isfun args err =
     (let n = length stk; stk1 = stk @ [f] in
      if \<not> isfun then (lua_settop stk1 n, None)
      else
        (let stk2 = lua_pcall0 (stk1 @ args) (length args) err in
         (if err = None then stk2 else lua_settop stk2 n, Some args)))"

definition CMD_EVENT_CHUNK :: int where "CMD_EVENT_CHUNK = 14"

definition chunk_cb :: "lua_push list \<Rightarrow> lua_push \<Rightarrow> bool \<Rightarrow> u64 \<Rightarrow> lua_push option \<Rightarrow> lua_push list \<times> lua_push list option" where
  "chunk_cb stk f isfun req err = call_dispatcher stk f isfun [PushNumber CMD_EVENT_CHUNK, PushUser req] err"

definition CMD_EVENT_REQUEST :: int where "CMD_EVENT_REQUEST = 9"

definition request_cb :: "lua_push list \<Rightarrow> lua_push \<Rightarrow> bool \<Rightarrow> u64 \<Rightarrow> lua_push option \<Rightarrow> lua_push list \<times> lua_push list option" where
  "request_cb stk f isfun req err = call_dispatcher stk f isfun [PushNumber CMD_EVENT_REQUEST, PushUser req, PushNumber 0] err"

definition CMD_EVENT_REQUEST_ERROR :: int where "CMD_EVENT_REQUEST_ERROR = 15"

definition request_cb_error ::
  "lua_push list \<Rightarrow> lua_push \<Rightarrow> bool \<Rightarrow> u64 \<Rightarrow> int \<Rightarrow> lua_push option \<Rightarrow> lua_push list \<times> lua_push list option" where
  "request_cb_error stk f isfun req error err =
     call_dispatcher stk f isfun [PushNumber CMD_EVENT_REQUEST_ERROR, PushUser req, PushNumber error] err"

text \<open>The result of \<open>luaL_dofile\<close>, which leaves a message when it fails; then the whole stack is cleared.\<close>

definition do_lua_file :: "lua_push list \<Rightarrow> int \<Rightarrow> lua_push \<Rightarrow> int \<times> lua_push list" where
  "do_lua_file stk error szErr = (if error \<noteq> 0 then (error, lua_settop (stk @ [szErr]) 0) else (0, stk))"

section \<open>Worker threads\<close>

definition lua_ThreadExecute ::
  "c_heap \<Rightarrow> threads \<Rightarrow> int \<Rightarrow> nat option \<Rightarrow> byte list \<Rightarrow> nat \<Rightarrow> u32 \<Rightarrow> int \<Rightarrow> c_fault + (threads \<times> lua_push)" where
  "lua_ThreadExecute h s a2 co code main tick ref =
     bindE (number_to_size a2) (\<lambda>threadid.
       case GetThread s threadid True of
         (s1, Some i) \<Rightarrow> bindE (PostTask h s1 i code co main tick ref) (\<lambda>(s2, tasks). Inr (s2, PushNumber (int tasks)))
       | (s1, None) \<Rightarrow> Inr (s1, PushNumber 0))"

definition lua_GetLuaThread :: "threads \<Rightarrow> int \<Rightarrow> c_fault + lua_push" where
  "lua_GetLuaThread s a2 =
     bindE (number_to_size a2) (\<lambda>threadid.
       Inr (case snd (GetThread s threadid False) of None \<Rightarrow> NoValue | Some i \<Rightarrow> PushUser (word_of_nat i)))"

definition lua_GetLuaThreadTaskCount :: "threads \<Rightarrow> int \<Rightarrow> c_fault + lua_push" where
  "lua_GetLuaThreadTaskCount s a2 =
     bindE (number_to_size a2) (\<lambda>threadid.
       Inr (case snd (GetThread s threadid False) of None \<Rightarrow> PushNumber 0 | Some i \<Rightarrow> PushNumber (int (GetTaskCount s i))))"

definition lua_SetLuaThreadMaxTask :: "threads \<Rightarrow> int \<Rightarrow> int \<Rightarrow> c_fault + threads" where
  "lua_SetLuaThreadMaxTask s a2 a3 =
     bindE (number_to_size a2) (\<lambda>threadid.
     bindE (number_to_size a3) (\<lambda>max_tasks.
       case GetThread s threadid False of
         (s1, Some i) \<Rightarrow> Inr (fst (SetMaxTask s1 i max_tasks))
       | (s1, None) \<Rightarrow> Inr s1))"

section \<open>HTTP client\<close>

definition lua_CEventServer_SendHttpPost ::
  "http_world \<Rightarrow> evhttp_uri option \<Rightarrow> byte list option \<Rightarrow> nat option \<Rightarrow> int \<Rightarrow> u32 \<Rightarrow> ev_result \<Rightarrow>
     c_fault + (http_world \<times> http_request option \<times> lua_push)" where
  "lua_CEventServer_SendHttpPost w uri data co ref msg_id ev =
     bindE (send_http_post w uri data co ref msg_id ev) (\<lambda>(w1, r, ret). Inr (w1, r, PushBoolean (ret = 0)))"

definition lua_CEventServer_SendHttpGet ::
  "http_world \<Rightarrow> evhttp_uri option \<Rightarrow> nat option \<Rightarrow> int \<Rightarrow> u32 \<Rightarrow> ev_result \<Rightarrow>
     c_fault + (http_world \<times> http_request option \<times> lua_push)" where
  "lua_CEventServer_SendHttpGet w uri co ref msg_id ev =
     bindE (send_http_get w uri co ref msg_id ev) (\<lambda>(w1, r, ret). Inr (w1, r, PushBoolean (ret = 0)))"

text \<open>Whether the request could be started is not looked at.\<close>

definition connect2websocket ::
  "http_world \<Rightarrow> evhttp_uri option \<Rightarrow> u32 \<Rightarrow> ev_result \<Rightarrow> c_fault + (http_world \<times> http_request)" where
  "connect2websocket w uri msg_id ev =
     bindE (start_http_requset w uri REQUEST_GET_FLAG None None ev) (\<lambda>(w1, r).
       Inr (w1\<lparr>hw_msgs := hw_msgs w1 + 1\<rparr>,
            r\<lparr>hq_thread := None, hq_thread_ref := - 1, hq_event_server := True,
              hq_respone_msg := Some (msg_setMode (fst (message_new msg_id)) SM_WRITE)\<rparr>))"

section \<open>Time, hash, log\<close>

text \<open>
  Milliseconds since the first call; \<open>s\<close> is the static variable.  The product with 0.001 and the sum are exact enough for the
  conversion to give whole milliseconds.
\<close>

definition timeout_gettime :: "u64 \<Rightarrow> nat \<Rightarrow> nat \<Rightarrow> u64 \<times> u64" where
  "timeout_gettime s tv_sec tv_usec =
     (let ss = word_of_nat (tv_sec * 1000 + tv_usec div 1000) in if s = 0 then (ss, 0) else (s, ss - s))"

definition GetTickCount :: "nat \<Rightarrow> nat \<Rightarrow> u64" where
  "GetTickCount tv_sec tv_nsec = word_of_nat (tv_sec * 1000 + tv_nsec div 1000000)"

text \<open>\<open>random\<close> is what \<open>rand\<close> returns while the static seed is zero.\<close>

definition lua_evhttp_hash :: "u32 \<Rightarrow> u32 \<Rightarrow> byte list \<Rightarrow> c_fault + (u32 \<times> lua_push)" where
  "lua_evhttp_hash seed random v =
     (let hash = (if seed = 0 then random else seed) in
      bindE (lua_S_hash (v @ [0]) (length v) hash) (\<lambda>d. Inr (hash, PushNumber (uint d))))"

definition PRINT_BUFF_LEN :: nat where "PRINT_BUFF_LEN = 2048"

text \<open>
  The static buffer of twice that size and the log file; \<open>msg\<close> is the formatted text, of which \<open>vsnprintf\<close> stores what fits and a
  terminator.  \<open>None\<close> is a file that cannot be opened.
\<close>

definition lae_log :: "byte list \<Rightarrow> byte list option \<Rightarrow> byte list \<Rightarrow> c_fault + (byte list \<times> byte list option)" where
  "lae_log print_buf gs_log msg =
     bindE (mem_write print_buf 0 (take (PRINT_BUFF_LEN - 1) msg @ [0])) (\<lambda>buf1.
     bindE (mem_write buf1 (PRINT_BUFF_LEN * 2 - 1) [0]) (\<lambda>buf2.
       let n = length (takeWhile (\<lambda>c. c \<noteq> 0) (take PRINT_BUFF_LEN buf2)) in
       bindE (mem_read buf2 0 n) (\<lambda>xs. Inr (buf2, map_option (\<lambda>f. f @ xs) gs_log))))"

definition lua_Print :: "byte list option \<Rightarrow> byte list \<Rightarrow> byte list option" where
  "lua_Print gs_log txt_arg = map_option (\<lambda>f. f @ txt_arg @ [10]) gs_log"

section \<open>Servers\<close>

definition lua_new_CEventServer :: "cfg_env \<Rightarrow> bool \<Rightarrow> c_fault + event_server" where
  "lua_new_CEventServer env http_garbage = event_server_new env http_garbage"

definition lua_start_CEventServer :: "event_server \<Rightarrow> byte list \<Rightarrow> nat \<Rightarrow> c_fault + (event_server \<times> lua_push)" where
  "lua_start_CEventServer s cfgName thread = bindE (Start s cfgName thread) (\<lambda>(s', ret, _). Inr (s', PushNumber ret))"

definition lua_stop_CEventServer :: "event_server \<Rightarrow> bool \<Rightarrow> event_server" where
  "lua_stop_CEventServer s a2 = fst (Stop s a2)"

definition lua_dofile_CEventServer :: "lua_push list \<Rightarrow> int \<Rightarrow> lua_push \<Rightarrow> lua_push list \<times> lua_push" where
  "lua_dofile_CEventServer stk error szErr = (let (ret, stk') = do_lua_file stk error szErr in (stk', PushNumber ret))"

definition lua_Notify_CEventServer ::
  "c_heap \<Rightarrow> nat \<Rightarrow> lxz_message list \<Rightarrow> int \<Rightarrow> lxz_message option \<Rightarrow> c_fault + lxz_message list" where
  "lua_Notify_CEventServer h garbage vvMsg a2 pMsg =
     bindE (number_to_int a2) (\<lambda>code. bindE (deref pMsg) (\<lambda>m. Notify h garbage vvMsg (sint code) m))"

definition lua_Connect ::
  "connect_env \<Rightarrow> byte list \<Rightarrow> int \<Rightarrow> bool \<Rightarrow> u32 \<Rightarrow> u64 \<Rightarrow> u64 \<Rightarrow> int \<Rightarrow> int \<Rightarrow>
     c_fault + (bufferevent option \<times> connect_call list)" where
  "lua_Connect cn ip a3 ssl_flag msg_id this ssl ref bev_ref =
     bindE (number_to_int a3) (\<lambda>port. Inr (Connect cn ip port ssl_flag msg_id this ssl ref bev_ref))"

text \<open>
  The main program up to the point where it waits for an event that nothing sets: the server, and whether its thread was
  started.
\<close>

definition gameserver_main :: "cfg_env \<Rightarrow> bool \<Rightarrow> nat \<Rightarrow> c_fault + (event_server \<times> bool)" where
  "gameserver_main env http_garbage thread =
     bindE (event_server_new env http_garbage) (\<lambda>g_server.
     bindE (Start g_server (bytes ''server.cfg'') thread) (\<lambda>(s, _, started). Inr (s, started)))"

section \<open>Timers are answered once\<close>

text \<open>
  Scripts wait and timers fire in any order.  The history says what happened: a call of \<open>wait_time\<close> with its milliseconds and its
  coroutine, and a timer that fired, with whether its coroutine was suspended then.
\<close>

datatype wait_event = Asked nat "nat option" | Fired self_tv bool

inductive wait_run :: "wait_event list \<Rightarrow> waits \<Rightarrow> bool" where
  start: "wait_run [] waits_init"
| wait: "wait_run evs w \<Longrightarrow> lua_wait_time w timer co ref = Inr w' \<Longrightarrow> wait_run (evs @ [Asked timer co]) w'"
| fire: "wait_run evs w \<Longrightarrow> i < length (wt_pending w) \<Longrightarrow>
    wait_run (evs @ [Fired (wt_pending w ! i) yielded]) (lua_wait_timer_cb w i yielded)"

text \<open>
  The waits of a positive time that were asked for, in microseconds and with the coroutine; the timers that fired; the coroutines found suspended by
  a timer of theirs that fired; and what a timer stands for.
\<close>

fun asked_waits :: "wait_event list \<Rightarrow> (nat \<times> nat) list" where
  "asked_waits [] = []"
| "asked_waits (Asked timer (Some c) # evs) = (if timer > 0 then (timer * 1000, c) # asked_waits evs else asked_waits evs)"
| "asked_waits (_ # evs) = asked_waits evs"

fun fired_timers :: "wait_event list \<Rightarrow> self_tv list" where
  "fired_timers [] = []"
| "fired_timers (Fired p _ # evs) = p # fired_timers evs"
| "fired_timers (Asked _ _ # evs) = fired_timers evs"

fun fired_suspended :: "wait_event list \<Rightarrow> nat list" where
  "fired_suspended [] = []"
| "fired_suspended (Fired p suspended # evs) = (if suspended then tv_thread p # fired_suspended evs else fired_suspended evs)"
| "fired_suspended (Asked _ _ # evs) = fired_suspended evs"

definition timer_of :: "self_tv \<Rightarrow> nat \<times> nat" where
  "timer_of p = (fst (tv_delay p) * 1000000 + snd (tv_delay p), tv_thread p)"

lemma history_append [simp]:
  "asked_waits (evs @ evs') = asked_waits evs @ asked_waits evs'" "fired_timers (evs @ evs') = fired_timers evs @ fired_timers evs'"
  "fired_suspended (evs @ evs') = fired_suspended evs @ fired_suspended evs'"
proof -
  show "asked_waits (evs @ evs') = asked_waits evs @ asked_waits evs'" by (induction evs rule: asked_waits.induct) simp_all
  show "fired_timers (evs @ evs') = fired_timers evs @ fired_timers evs'" by (induction evs rule: fired_timers.induct) simp_all
  show "fired_suspended (evs @ evs') = fired_suspended evs @ fired_suspended evs'" by (induction evs rule: fired_suspended.induct) simp_all
qed

lemma lua_wait_time_cases:
  assumes "lua_wait_time w timer co ref = Inr w'"
  shows "(asked_waits [Asked timer co] = [] \<and> w' = w) \<or>
    (\<exists>p. asked_waits [Asked timer co] = [timer_of p] \<and> w' = w\<lparr>wt_pending := wt_pending w @ [p], wt_refs := wt_refs w @ [tv_ref p]\<rparr>)"
proof (cases "timer > 0")
  case True
  have "timer div 1000 * 1000000 + timer mod 1000 * 1000 = timer * 1000"
    using div_mult_mod_eq [of timer 1000] by linarith
  moreover obtain c where "co = Some c" using True assms by (cases co) (simp_all add: lua_wait_time_def wait_time_def deref_def)
  ultimately show ?thesis using True assms
    by (intro disjI2 exI [of _ "\<lparr>tv_delay = (timer div 1000, timer mod 1000 * 1000), tv_thread = c, tv_ref = ref\<rparr>"])
      (simp add: lua_wait_time_def wait_time_def deref_def timer_of_def)
next
  case False
  with assms show ?thesis by (cases co) (simp_all add: lua_wait_time_def wait_time_def)
qed

lemma mset_drop_nth: "i < length xs \<Longrightarrow> mset xs = add_mset (xs ! i) (mset (take i xs @ drop (Suc i) xs))"
  by (metis append_take_drop_id Cons_nth_drop_Suc mset_append mset.simps(2) union_mset_add_mset_right)

text \<open>
  C19: Whatever scripts wait and in whatever order their timers fire: the references that Lua holds are those of the timers still
  set; every wait of a positive time that was asked for has its timer still set or fired, exactly once and for that time and that coroutine; and
  the coroutines resumed are those that were suspended when a timer of theirs fired, in that order and once for each.  (A wait of 0 milliseconds sets
  no timer, so nothing resumes its coroutine.)
\<close>

theorem waits_balance:
  assumes "wait_run evs w"
  shows "mset (wt_refs w) = mset (map tv_ref (wt_pending w)) \<and>
    mset (asked_waits evs) = mset (map timer_of (wt_pending w @ fired_timers evs)) \<and>
    wt_resumed w = fired_suspended evs"
  using assms
proof (induction rule: wait_run.induct)
  case start
  then show ?case by (simp add: waits_init_def)
next
  case (wait evs w timer co ref w')
  from lua_wait_time_cases [OF wait.hyps(2)] wait.IH show ?case by auto
next
  case (fire evs w i yielded)
  define p where "p = wt_pending w ! i"
  define r where "r = take i (wt_pending w) @ drop (Suc i) (wt_pending w)"
  have d: "mset (wt_pending w) = add_mset p (mset r)" unfolding p_def r_def by (rule mset_drop_nth [OF fire.hyps(2)])
  have "lua_wait_timer_cb w i yielded =
      (if yielded then w\<lparr>wt_resumed := wt_resumed w @ [tv_thread p]\<rparr> else w)
        \<lparr>wt_pending := r, wt_refs := remove1 (tv_ref p) (wt_refs w)\<rparr>"
    by (simp add: lua_wait_timer_cb_def p_def r_def Let_def)
  with fire.IH d show ?case by (simp flip: p_def)
qed

theorem waits_balance_witness:
  "\<exists>w. lua_wait_time waits_init 1500 (Some 7) 3 = Inr w \<and> mset (wt_refs w) = {#3#} \<and> map timer_of (wt_pending w) = [(1500000, 7)] \<and>
     wt_refs (lua_wait_timer_cb w 0 True) = [] \<and> wt_resumed (lua_wait_timer_cb w 0 True) = [7]"
proof -
  obtain w where w: "lua_wait_time waits_init 1500 (Some 7) 3 = Inr w"
    "wt_pending w = [\<lparr>tv_delay = (1, 500000), tv_thread = 7, tv_ref = 3\<rparr>]"
    by (simp add: lua_wait_time_def wait_time_def deref_def waits_init_def)
  have r: "wait_run [Asked 1500 (Some 7)] w" using wait_run.wait [OF wait_run.start w(1)] by simp
  moreover from wait_run.fire [OF this, of 0 True] w(2)
  have "wait_run [Asked 1500 (Some 7), Fired \<lparr>tv_delay = (1, 500000), tv_thread = 7, tv_ref = 3\<rparr> True] (lua_wait_timer_cb w 0 True)" by simp
  ultimately show ?thesis using waits_balance [OF r] waits_balance [of _ "lua_wait_timer_cb w 0 True"] w
    by (fastforce simp: lua_wait_timer_cb_def Let_def timer_of_def)
qed

section \<open>Addresses\<close>

lemma port_bytes:
  "uint (ucast (drop_bit 8 (port :: u16)) :: byte) = uint port div 256" "uint (ucast (port :: u16) :: byte) = uint port mod 256"
proof -
  have "uint port < 65536" using unsigned_less [of port, where ?'a = int] by simp
  then have "uint port div 256 < 256" by simp
  moreover have "uint (drop_bit 8 port) = uint port div 256"
    by (simp only: unsigned_drop_bit_eq) (simp add: drop_bit_eq_div take_bit_eq_mod \<open>uint port < 65536\<close>)
  ultimately show "uint (ucast (drop_bit 8 port) :: byte) = uint port div 256"
    using mod_pos_pos_trivial [of "uint port div 256" 256] by (simp only: unsigned_ucast_eq) (simp add: take_bit_eq_mod pos_imp_zdiv_nonneg_iff)
  show "uint (ucast port :: byte) = uint port mod 256" by (simp add: unsigned_ucast_eq take_bit_eq_mod)
qed

text \<open>
  C40: \<open>GetClientIP\<close> hands the start of the socket address to \<open>inet_ntop\<close> instead of the address in it: for every client it gives the
  family, \<open>2.0\<close>, followed by the two bytes of the port.
\<close>

theorem GetClientIP_is_port:
  assumes "fd \<noteq> - 1" "length ip = 4"
  shows "lua_GetClientIP fd (sockaddr_in port ip) =
    PushString (bytes (''2.0.'' @ show_int (uint port div 256) @ ''.'' @ show_int (uint port mod 256)))"
proof -
  have "sockaddr_in port ip = [2, 0, ucast (drop_bit 8 port), ucast port] @ ip @ replicate 8 0"
    by (simp add: sockaddr_in_def le_bytes_numeral)
  moreover have "uint (ucast (drop_bit 8 port) :: byte) = uint port div 256" "uint (ucast port :: byte) = uint port mod 256"
    by (rule port_bytes)+
  moreover have "show_int 2 = ''2''" "show_int 0 = ''0''"
    by (simp_all add: show_int_def dec_digits.simps char_of_def bit_Suc_0_iff)
  ultimately show ?thesis using assms(1) by (simp add: lua_GetClientIP_def inet_ntop4_def)
qed

theorem GetClientIP_is_port_witness:
  "lua_GetClientIP 5 (sockaddr_in 8080 [192, 168, 0, 1]) = PushString (bytes ''2.0.31.144'')"
  using GetClientIP_is_port [of 5 "[192, 168, 0, 1]" 8080] by (simp add: show_int_def dec_digits.simps char_of_def bit_Suc_0_iff)

section \<open>The dispatcher's stack\<close>

text \<open>
  The callbacks that call the dispatcher leave Lua's stack as they found it, whether the dispatcher is a function or not, succeeds
  or fails, and call it exactly when it is one.
\<close>

theorem dispatcher_keeps_stack:
  "chunk_cb stk f isfun req err = (stk, if isfun then Some [PushNumber 14, PushUser req] else None) \<and>
   request_cb stk f isfun req err = (stk, if isfun then Some [PushNumber 9, PushUser req, PushNumber 0] else None) \<and>
   request_cb_error stk f isfun req error err = (stk, if isfun then Some [PushNumber 15, PushUser req, PushNumber error] else None)"
  by (auto simp: chunk_cb_def request_cb_def request_cb_error_def call_dispatcher_def lua_settop_def lua_pcall0_def
      CMD_EVENT_CHUNK_def CMD_EVENT_REQUEST_def CMD_EVENT_REQUEST_ERROR_def Let_def split: option.splits)

section \<open>Requests and the log\<close>

text \<open>Of several headers or query parts with the same name a script sees the last.\<close>

lemma settable_loop_last: "settable_loop t hs k = (case map_of (rev hs) k of None \<Rightarrow> t k | Some v \<Rightarrow> Some v)"
proof (induction hs arbitrary: t)
  case (Cons h hs)
  then show ?case by (cases h) (auto simp: map_add_def split: option.splits)
qed simp

lemma input_headers_last: "lua_evhttp_get_input_headers hs = map_of (rev hs)"
  by (rule ext) (simp add: lua_evhttp_get_input_headers_def settable_loop_last split: option.splits)

text \<open>A script gets the whole body of a request, and the request's buffer is emptied.\<close>

theorem input_buffers_whole:
  assumes "length buf < 2147483647" "can_alloc h (int (length buf) + 2)"
  shows "lua_evhttp_get_input_buffers h buf = Inr ([], if buf = [] then NoValue else PushString buf)"
proof -
  let ?n = "length buf"
  have "fb_wf 1024 (fb_new 1024)" using fb_new_wf [of 1024] by (simp add: SIZE_MOD_def)
  from fb_grow_cases [OF this, of "?n + 1" h] assms obtain b where
    b: "fb_grow h 1024 (fb_new 1024) (?n + 1) = Inr b" "fb_wf 1024 b" "?n + 1 \<le> fb_alloc b"
    by (auto simp: SIZE_MOD_def add.commute split: sum.splits)
  then obtain cells where c: "fb_buf 1024 b = Some cells" "?n < length cells" by (auto elim: fb_wfE)
  have "fb_store 1024 b 0 buf = Inr (fb_set_buf 1024 b (buf @ drop ?n cells))"
    using c by (simp add: fb_store_def mem_write_def)
  moreover have "fb_load 1024 (fb_set_buf 1024 b (buf @ drop ?n cells)) 0 ?n = Inr buf"
    using c b(2) by (auto simp: fb_load_def fb_set_buf_def fb_buf_def fb_wf_def mem_read_def split: option.splits if_splits)
  moreover have "size_add ?n 1 = ?n + 1" "ret_int ?n = int ?n"
    using assms(1) by (simp_all add: size_add_small SIZE_MOD_def ret_int_small)
  ultimately show ?thesis using b(1) by (cases buf) (simp_all add: lua_evhttp_get_input_buffers_def Let_def)
qed

theorem input_buffers_whole_witness: "lua_evhttp_get_input_buffers open_heap [104, 105] = Inr ([], PushString [104, 105])"
  using input_buffers_whole [of "[104, 105]" open_heap] by simp

text \<open>The log takes at most 2047 bytes of a message and never leaves its buffer.\<close>

theorem lae_log_bounded:
  assumes "length print_buf = 4096"
  shows "\<exists>buf'. lae_log print_buf (Some f) msg = Inr (buf', Some (f @ takeWhile (\<lambda>c. c \<noteq> 0) (take 2047 msg))) \<and> length buf' = 4096"
proof -
  let ?t = "take 2047 msg"
  let ?b = "?t @ 0 # drop (Suc (length ?t)) print_buf"
  have len: "length ?t \<le> 2047" by simp
  have 1: "mem_write print_buf 0 (?t @ [0]) = Inr ?b" "length ?b = 4096" using assms by (simp_all add: mem_write_def)
  have 2: "mem_write ?b 4095 [0] = Inr (take 4095 ?b @ [0])" using 1(2) by (simp add: mem_write_def)
  have "take 2048 (take 4095 ?b @ [0]) = take 2048 ?b" using 1(2) by simp
  also have "\<dots> = take 2048 ?t @ take (2048 - length ?t) (0 # drop (Suc (length ?t)) print_buf)" by (rule take_append)
  also have "2048 - length ?t = Suc (2047 - length ?t)" using len by linarith
  also have "take 2048 ?t = ?t" using len by (intro take_all) linarith
  finally have n: "takeWhile (\<lambda>c. c \<noteq> 0) (take 2048 (take 4095 ?b @ [0])) = takeWhile (\<lambda>c. c \<noteq> 0) ?t"
    by (simp add: takeWhile_tail)
  have le: "length (takeWhile (\<lambda>c. c \<noteq> 0) ?t) \<le> 2047" using length_takeWhile_le [of "\<lambda>c. c \<noteq> 0" ?t] len by linarith
  have "take (length (takeWhile (\<lambda>c. c \<noteq> 0) ?t)) (take 4095 ?b @ [0]) = take (length (takeWhile (\<lambda>c. c \<noteq> 0) ?t)) ?t"
    using length_takeWhile_le [of "\<lambda>c. c \<noteq> 0" ?t] le 1(2) by simp
  also have "\<dots> = takeWhile (\<lambda>c. c \<noteq> 0) ?t" by (rule takeWhile_eq_take [symmetric])
  finally have "mem_read (take 4095 ?b @ [0]) 0 (length (takeWhile (\<lambda>c. c \<noteq> 0) ?t)) = Inr (takeWhile (\<lambda>c. c \<noteq> 0) ?t)"
    using le 1(2) by (simp add: mem_read_def)
  with 1 2 n have "lae_log print_buf (Some f) msg = Inr (take 4095 ?b @ [0], Some (f @ takeWhile (\<lambda>c. c \<noteq> 0) ?t))"
    by (simp add: lae_log_def PRINT_BUFF_LEN_def)
  then show ?thesis using 1(2) by simp
qed

theorem lae_log_bounded_witness:
  "\<exists>buf'. lae_log (replicate 4096 0) (Some [10]) [104, 105] = Inr (buf', Some [10, 104, 105]) \<and> length buf' = 4096"
  using lae_log_bounded [of "replicate 4096 0" "[10]" "[104, 105]"] by simp

section \<open>Threads, web sockets, main program\<close>

text \<open>The limit of a worker that does not exist yet is not kept, although \<open>ThreadExecute\<close> would make it.\<close>

lemma max_task_ignored:
  assumes "find_thread (th_pools s) t 0 = None" "t < 18446744073709551616" "n < 18446744073709551616"
  shows "lua_SetLuaThreadMaxTask s (int t) (int n) = Inr s"
  using assms by (simp add: lua_SetLuaThreadMaxTask_def number_to_size_def number_to_def GetThread_def)

text \<open>A web socket request that could not be made keeps its structure and gets a message, and nobody is told.\<close>

lemma connect2websocket_keeps:
  assumes "start_http_requset w uri REQUEST_GET_FLAG None None ev = Inr (w1, r)" "\<not> hq_req r"
  shows "\<exists>r'. connect2websocket w uri msg_id ev = Inr (w1\<lparr>hw_msgs := hw_msgs w1 + 1\<rparr>, r') \<and> \<not> hq_req r'"
  using assms by (simp add: connect2websocket_def)

lemma unat_u64: "n < 18446744073709551616 \<Longrightarrow> unat (word_of_nat n :: u64) = n"
  by (simp add: unat_of_nat)

text \<open>
  The time that scripts read starts at zero and then is the difference to the first reading, as long as the clock does not go back
  and the difference fits 64 bits.
\<close>

lemma gettime_difference:
  assumes "0 < a * 1000 + b div 1000" "a * 1000 + b div 1000 \<le> c * 1000 + d div 1000" "c * 1000 + d div 1000 < 18446744073709551616"
  shows "\<exists>s. timeout_gettime 0 a b = (s, 0) \<and> timeout_gettime s c d = (s, word_of_nat ((c * 1000 + d div 1000) - (a * 1000 + b div 1000)))"
proof -
  let ?x = "a * 1000 + b div 1000" and ?y = "c * 1000 + d div 1000"
  have "unat (word_of_nat ?x :: u64) = ?x" using assms(2,3) by (intro unat_u64) simp
  then have "(word_of_nat ?x :: u64) \<noteq> 0" using assms(1) by (metis unat_0 less_irrefl)
  moreover have "(word_of_nat ?y - word_of_nat ?x :: u64) = word_of_nat (?y - ?x)" using assms(2) by (rule of_nat_diff [symmetric])
  ultimately show ?thesis by (simp only: timeout_gettime_def Let_def) simp
qed

text \<open>
  The main program starts one server whose thread will read \<open>server.cfg\<close>.
\<close>

lemma main_starts_server:
  assumes "event_server_new env g = Inr s0"
  shows "\<exists>s. gameserver_main env g thread = Inr (s, True) \<and> c_string (es_cfg_name s) = Inr (bytes ''server.cfg'') \<and>
    es_cfg s = es_cfg s0 \<and> es_thread s = thread"
proof -
  have s0: "es_base s0 = False" "es_cfg_name s0 = replicate 257 0"
    using assms by (auto simp: event_server_new_def bindE_Inr_iff MAX_CFG_NAMELEN_def)
  have b: "length (bytes ''server.cfg'') = 10" "0 \<notin> set (bytes ''server.cfg'')" by (simp_all add: bytes_def of_char_def)
  let ?n = "bytes ''server.cfg'' @ 0 # replicate 246 0"
  have "mem_write (replicate 257 0) 0 (bytes ''server.cfg'') = Inr (bytes ''server.cfg'' @ replicate 247 0)"
    "mem_write (bytes ''server.cfg'' @ replicate 247 0) 10 [0] = Inr ?n"
    using b(1) by (simp_all add: mem_write_def drop_replicate)
  with s0 b have "Start s0 (bytes ''server.cfg'') thread = Inr (s0\<lparr>es_cfg_name := ?n, es_thread := thread\<rparr>, 0, True)"
    by (simp add: Start_def MAX_CFG_NAMELEN_def Let_def)
  moreover have "c_string ?n = Inr (bytes ''server.cfg'')"
    by (rule c_string_terminated [OF b(2)])
  ultimately show ?thesis using assms by (simp add: gameserver_main_def)
qed

end
