(* ===== verification/LuaSocket.thy ===== *)
theory LuaSocket
  imports LuaMessageProofs
begin

text \<open>
  The blocking sockets that scripts use, \<open>lae/source/lua-socket.c\<close>.  The system calls are not part of the program: what they answer
  is an argument, one answer for each call in the order of the calls, and a call that is never answered leaves the function
  waiting, which is the result \<open>None\<close>.
\<close>

section \<open>Connecting\<close>

text \<open>
  What \<open>socket\<close> and \<open>connect\<close> answer for one address: a descriptor, or \<open>None\<close> for \<open>INVALID_SOCKET\<close>, and the status.  The state is the
  list of open descriptors.
\<close>

record addr_answer =
  aa_socket :: "int option"
  aa_connect :: int

fun connect_loop :: "int list \<Rightarrow> addr_answer list \<Rightarrow> int list \<times> int option" where
  "connect_loop fds [] = (fds, None)"
| "connect_loop fds (a # as) =
     (case aa_socket a of
        None \<Rightarrow> connect_loop fds as
      | Some sock \<Rightarrow>
          if aa_connect a \<noteq> 0 then connect_loop (remove1 sock (sock # fds)) as else (sock # fds, Some sock))"

text \<open>The port as text goes into 32 bytes; \<open>getaddrinfo\<close> gives \<open>None\<close> or the addresses, which are freed at the end.\<close>

definition lopen ::
  "c_heap \<Rightarrow> int list \<Rightarrow> u32 \<Rightarrow> (byte list \<Rightarrow> addr_answer list option) \<Rightarrow> c_fault + (int list \<times> lua_push)" where
  "lopen h fds port getaddrinfo =
     bindE (mem_write (malloc_cells h 32) 0 (bytes (show_int (sint port)) @ [0])) (\<lambda>port_str.
     bindE (c_string port_str) (\<lambda>p.
       Inr (case getaddrinfo p of
              None \<Rightarrow> (fds, NoValue)
            | Some ai_list \<Rightarrow>
                (case connect_loop fds ai_list of
                   (fds', Some sock) \<Rightarrow> (fds', PushNumber sock)
                 | (fds', None) \<Rightarrow> (fds', NoValue)))))"

definition lclose :: "int list \<Rightarrow> int \<Rightarrow> int list" where
  "lclose fds sock = remove1 sock fds"

section \<open>Receiving and sending\<close>

text \<open>
  One answer of \<open>recv\<close>: bytes, none at the end of the stream, or an error, which may be one after which the call is repeated
  (\<open>EAGAIN\<close>, \<open>EINTR\<close>).
\<close>

datatype recv_answer = Received "byte list" | RecvAgain | RecvError

definition LOCALBUFFER :: int where "LOCALBUFFER = 8192"

text \<open>
  \<open>recv\<close> stores its bytes from the start of the buffer on: \<open>tmp\<close> for up to \<open>LOCALBUFFER\<close> bytes, else a block from Lua.  The
  branch for a short read advances two local variables and returns.
\<close>

fun recv_loop :: "byte list \<Rightarrow> int \<Rightarrow> recv_answer list \<Rightarrow> (c_fault + lua_push) option" where
  "recv_loop buffer sz [] = None"
| "recv_loop buffer sz (RecvAgain # as) = recv_loop buffer sz as"
| "recv_loop buffer sz (RecvError # as) = Some (Inr NoValue)"
| "recv_loop buffer sz (Received xs # as) =
     Some (bindE (mem_write buffer 0 xs) (\<lambda>buffer'.
       let got = ret_int (length xs) in
       if got = 0 then Inr NoValue
       else if got < sz then Inr NoValue
       else bindE (mem_read buffer' 0 (size_of_int sz)) (\<lambda>ys. Inr (PushString ys))))"

definition lread :: "c_heap \<Rightarrow> u32 \<Rightarrow> recv_answer list \<Rightarrow> (c_fault + lua_push) option" where
  "lread h sz answers =
     recv_loop (if sint sz > LOCALBUFFER then malloc_cells h (nat (sint sz)) else malloc_cells h (nat LOCALBUFFER)) (sint sz) answers"

text \<open>\<open>send\<close> takes some bytes of the buffer, or fails; the bytes taken are the second result.\<close>

datatype send_answer = Sent nat | SendAgain | SendError

fun send_loop :: "byte list \<Rightarrow> send_answer list \<Rightarrow> (lua_push \<times> byte list) option" where
  "send_loop buffer [] = None"
| "send_loop buffer (SendAgain # as) = send_loop buffer as"
| "send_loop buffer (SendError # as) = Some (PushBoolean False, [])"
| "send_loop buffer (Sent n # as) =
     Some (PushBoolean (size_of_int (ret_int n) = length buffer), take n buffer)"

definition lwrite :: "byte list \<Rightarrow> send_answer list \<Rightarrow> (lua_push \<times> byte list) option" where
  "lwrite buffer answers = send_loop buffer answers"

section \<open>Properties\<close>

lemma connect_loop_result:
  "connect_loop fds as =
     (case find (\<lambda>a. aa_socket a \<noteq> None \<and> aa_connect a = 0) as of
        None \<Rightarrow> (fds, None)
      | Some a \<Rightarrow> (the (aa_socket a) # fds, aa_socket a))"
  by (induction as) (auto split: option.splits)

lemma port_text:
  "length (show_int (sint (port :: u32))) \<le> 11"
proof -
  have r: "- 2147483648 \<le> sint port" "sint port < 2147483648" using sint_ge [of port] sint_lt [of port] by simp_all
  have d: "length (dec_digits n) \<le> 10" if "n < 10000000000" for n using dec_digits_length [of n 10] that by simp
  show "length (show_int (sint port)) \<le> 11"
    using d [of "nat (sint port)"] d [of "nat (- sint port)"] r by (cases "sint port < 0") (simp_all add: show_int_def nat_less_iff)
qed

text \<open>
  C31: Connecting keeps account of descriptors: it leaves open what was open, and one more exactly when it succeeds, the one it
  returns.  It takes the first address to which a connection could be made.
\<close>

theorem lopen_no_leak:
  "lopen h fds port getaddrinfo = Inr
     (case Option.bind (getaddrinfo (bytes (show_int (sint port)))) (find (\<lambda>a. aa_socket a \<noteq> None \<and> aa_connect a = 0)) of
        None \<Rightarrow> (fds, NoValue)
      | Some a \<Rightarrow> (the (aa_socket a) # fds, PushNumber (the (aa_socket a))))"
proof -
  let ?p = "bytes (show_int (sint port))"
  have "mem_write (malloc_cells h 32) 0 (?p @ [0]) = Inr (?p @ 0 # drop (Suc (length ?p)) (malloc_cells h 32))"
    using port_text [of port] by (simp add: mem_write_def bytes_def)
  moreover have "c_string (?p @ 0 # drop (Suc (length ?p)) (malloc_cells h 32)) = Inr ?p"
    by (rule c_string_terminated [OF show_int_no_zero])
  moreover have "aa_socket a \<noteq> None" if "find (\<lambda>a. aa_socket a \<noteq> None \<and> aa_connect a = 0) as = Some a" for as a
    using that by (auto simp: find_Some_iff)
  ultimately show ?thesis
    by (fastforce simp: lopen_def connect_loop_result split: option.splits)
qed

text \<open>
  Receiving gives a string only of exactly the size asked for, the bytes of the first answer that is not to be repeated; every shorter
  answer is dropped, and so are its bytes.
\<close>

theorem lread_exact:
  assumes "0 < sint sz" "\<forall>a \<in> set again. a = RecvAgain" "length xs \<le> nat (sint sz)"
  shows "lread h sz (again @ Received xs # later) = Some (Inr (if length xs = nat (sint sz) then PushString xs else NoValue))"
proof -
  let ?n = "nat (sint sz)"
  define buffer where "buffer = (if sint sz > LOCALBUFFER then malloc_cells h ?n else malloc_cells h (nat LOCALBUFFER))"
  have len: "length xs \<le> length buffer" using assms(3) by (auto simp: buffer_def LOCALBUFFER_def)
  have small: "sint sz < 2147483648" using sint_lt [of sz] by simp
  have skip: "recv_loop b k (again @ rest) = recv_loop b k rest" for b k rest
    using assms(2) by (induction again) auto
  have "ret_int (length xs) = int (length xs)" using assms(3) small by (simp add: ret_int_small)
  moreover have "size_of_int (sint sz) = ?n" using assms(1) small size_of_int_nat [of ?n] by (simp add: SIZE_MOD_def)
  moreover have "mem_write buffer 0 xs = Inr (xs @ drop (length xs) buffer)" using len by (simp add: mem_write_def)
  ultimately show ?thesis using assms(1,3) len
    by (auto simp: lread_def buffer_def [symmetric] skip mem_read_def Let_def)
qed

theorem lread_exact_witness:
  "lread open_heap 2 [RecvAgain, Received [104, 105]] = Some (Inr (PushString [104, 105])) \<and>
   lread open_heap 3 [Received [104, 105], Received [33]] = Some (Inr NoValue)"
  using lread_exact [of 2 "[RecvAgain]" "[104, 105]" open_heap "[]"] lread_exact [of 3 "[]" "[104, 105]" open_heap "[Received [33]]"]
  by simp

text \<open>A negative size selects the local buffer and is a huge size for \<open>recv\<close>: more than 8192 bytes overrun it.\<close>

theorem lread_negative_overruns:
  assumes "sint sz < 0" "8192 < length xs"
  shows "lread h sz (Received xs # later) = Some (Inl OutOfBounds)"
  using assms by (simp add: lread_def LOCALBUFFER_def mem_write_def)

theorem lread_negative_overruns_witness: "lread open_heap (- 1) [Received (replicate 8193 0)] = Some (Inl OutOfBounds)"
  by (rule lread_negative_overruns) simp_all

text \<open>Sending reports success only when everything was taken; what was taken of a longer text is not told.\<close>

lemma lwrite_true:
  assumes "lwrite buffer answers = Some (PushBoolean True, taken)" "\<forall>n. Sent n \<in> set answers \<longrightarrow> n < 2147483648"
  shows "taken = buffer"
  using assms unfolding lwrite_def
proof (induction answers)
  case (Cons a as)
  then show ?case by (cases a) (auto simp: ret_int_small size_of_int_def SIZE_MOD_def)
qed simp

end
