(* ===== verification/LuaCoreCfg.thy ===== *)
theory LuaCoreCfg
  imports CoreCfgFile CoreCfgProofs LuaMessage
begin

text \<open>
  The Lua binding of the configuration store, \<open>lae/source/LuaLXZCoreCfg.cpp\<close>.  As in \<open>LuaMessage\<close>, a function takes the
  values that the \<open>tolua_to\<close> functions give, defaults included, and gives the store and the value it pushes.  The
  getters leave their default to the declarations in \<open>LXZCoreCfg.h\<close>.  The index is always passed by its address, so the
  accessors see \<open>Some\<close> index, -1 when the script gives none; the index they store there is lost.  A \<open>float\<close> is
  its bits.
\<close>

section \<open>The functions of the binding\<close>

definition LuaLXZCoreCfg_new :: "cfg_env \<Rightarrow> c_fault + core_cfg" where
  "LuaLXZCoreCfg_new env = cfg_new env"

text \<open>The object of \<open>new_local\<close> belongs to Lua, which calls \<open>destroy\<close> on it.\<close>

definition LuaLXZCoreCfg_new_local :: "cfg_env \<Rightarrow> c_fault + core_cfg" where
  "LuaLXZCoreCfg_new_local env = cfg_new env"

definition LuaLXZCoreCfg_Ref :: "core_cfg \<Rightarrow> byte list \<Rightarrow> byte list option \<Rightarrow> c_fault + lua_push" where
  "LuaLXZCoreCfg_Ref c name alias = bindE (Ref c name alias) (\<lambda>ref. Inr (PushNumber ref))"

definition lua_ref :: "int \<Rightarrow> c_fault + int" where
  "lua_ref a = bindE (number_to_int a) (\<lambda>r. Inr (sint r))"

definition LuaLXZCoreCfg_GetObj ::
  "cfg_env \<Rightarrow> core_cfg \<Rightarrow> byte list \<Rightarrow> byte list option \<Rightarrow> int \<Rightarrow> c_fault + (core_cfg \<times> lua_push)" where
  "LuaLXZCoreCfg_GetObj env c name alias a4 =
     bindE (lua_ref a4) (\<lambda>ref.
     bindE (GetObj env c name (Some ref) alias 0) (\<lambda>(c', _, obj). Inr (c', PushUser obj)))"

definition LuaLXZCoreCfg_SetObj ::
  "cfg_env \<Rightarrow> core_cfg \<Rightarrow> byte list \<Rightarrow> int \<Rightarrow> u64 \<Rightarrow> c_fault + (core_cfg \<times> lua_push)" where
  "LuaLXZCoreCfg_SetObj env c name a3 obj =
     bindE (lua_ref a3) (\<lambda>ref.
     bindE (SetObj env c name (Some ref) obj) (\<lambda>(c', _, old). Inr (c', PushUser old)))"

definition LuaLXZCoreCfg_GetBool ::
  "cfg_env \<Rightarrow> core_cfg \<Rightarrow> byte list \<Rightarrow> byte list option \<Rightarrow> int \<Rightarrow> c_fault + (core_cfg \<times> lua_push)" where
  "LuaLXZCoreCfg_GetBool env c name alias a4 =
     bindE (lua_ref a4) (\<lambda>ref.
     bindE (GetBool env c name (Some ref) alias False) (\<lambda>(c', _, b). Inr (c', PushBoolean b)))"

definition LuaLXZCoreCfg_GetSaveFlag :: "core_cfg \<Rightarrow> int \<Rightarrow> c_fault + lua_push" where
  "LuaLXZCoreCfg_GetSaveFlag c a2 =
     bindE (lua_ref a2) (\<lambda>ref. bindE (GetSaveFlag c ref) (\<lambda>ret. Inr (PushBoolean ret)))"

definition LuaLXZCoreCfg_SetSaveFlag :: "core_cfg \<Rightarrow> int \<Rightarrow> bool \<Rightarrow> c_fault + core_cfg" where
  "LuaLXZCoreCfg_SetSaveFlag c a2 flag = bindE (lua_ref a2) (\<lambda>ref. SetSaveFlag c ref flag)"

definition LuaLXZCoreCfg_GetFloat ::
  "cfg_env \<Rightarrow> core_cfg \<Rightarrow> byte list \<Rightarrow> byte list option \<Rightarrow> int \<Rightarrow> c_fault + (core_cfg \<times> lua_push)" where
  "LuaLXZCoreCfg_GetFloat env c name alias a4 =
     bindE (lua_ref a4) (\<lambda>ref.
     bindE (GetFloat env c name (Some ref) alias 0) (\<lambda>(c', _, b). Inr (c', PushFloat b)))"

definition LuaLXZCoreCfg_GetInt ::
  "cfg_env \<Rightarrow> core_cfg \<Rightarrow> byte list \<Rightarrow> byte list option \<Rightarrow> int \<Rightarrow> c_fault + (core_cfg \<times> lua_push)" where
  "LuaLXZCoreCfg_GetInt env c name alias a4 =
     bindE (lua_ref a4) (\<lambda>ref.
     bindE (GetInt env c name (Some ref) alias 0) (\<lambda>(c', _, b). Inr (c', PushNumber (sint b))))"

definition LuaLXZCoreCfg_GetUint ::
  "cfg_env \<Rightarrow> core_cfg \<Rightarrow> byte list \<Rightarrow> byte list option \<Rightarrow> int \<Rightarrow> c_fault + (core_cfg \<times> lua_push)" where
  "LuaLXZCoreCfg_GetUint env c name alias a4 =
     bindE (lua_ref a4) (\<lambda>ref.
     bindE (GetUint env c name (Some ref) alias 0) (\<lambda>(c', _, b). Inr (c', PushNumber (uint b))))"

definition LuaLXZCoreCfg_GetCString ::
  "cfg_env \<Rightarrow> core_cfg \<Rightarrow> byte list \<Rightarrow> byte list option \<Rightarrow> int \<Rightarrow> c_fault + (core_cfg \<times> lua_push)" where
  "LuaLXZCoreCfg_GetCString env c name alias a4 =
     bindE (lua_ref a4) (\<lambda>ref.
     bindE (GetCString env c name (Some ref) alias []) (\<lambda>(c', _, b). Inr (c', PushString b)))"

definition LuaLXZCoreCfg_SetUint ::
  "cfg_env \<Rightarrow> core_cfg \<Rightarrow> byte list \<Rightarrow> int \<Rightarrow> int \<Rightarrow> c_fault + (core_cfg \<times> lua_push)" where
  "LuaLXZCoreCfg_SetUint env c name a3 a4 =
     bindE (lua_ref a3) (\<lambda>ref.
     bindE (number_to_u32 a4) (\<lambda>obj.
     bindE (SetUint env c name (Some ref) obj) (\<lambda>(c', _, old). Inr (c', PushNumber (uint old)))))"

definition LuaLXZCoreCfg_SetFloat ::
  "cfg_env \<Rightarrow> core_cfg \<Rightarrow> byte list \<Rightarrow> int \<Rightarrow> u32 \<Rightarrow> c_fault + (core_cfg \<times> lua_push)" where
  "LuaLXZCoreCfg_SetFloat env c name a3 obj =
     bindE (lua_ref a3) (\<lambda>ref.
     bindE (SetFloat env c name (Some ref) obj) (\<lambda>(c', _, old). Inr (c', PushFloat old)))"

definition LuaLXZCoreCfg_SetInt ::
  "cfg_env \<Rightarrow> core_cfg \<Rightarrow> byte list \<Rightarrow> int \<Rightarrow> int \<Rightarrow> c_fault + (core_cfg \<times> lua_push)" where
  "LuaLXZCoreCfg_SetInt env c name a3 a4 =
     bindE (lua_ref a3) (\<lambda>ref.
     bindE (number_to_int a4) (\<lambda>obj.
     bindE (SetInt env c name (Some ref) obj) (\<lambda>(c', _, old). Inr (c', PushNumber (sint old)))))"

text \<open>The old truth value is pushed as a number.\<close>

definition LuaLXZCoreCfg_SetBool ::
  "cfg_env \<Rightarrow> core_cfg \<Rightarrow> byte list \<Rightarrow> int \<Rightarrow> bool \<Rightarrow> c_fault + (core_cfg \<times> lua_push)" where
  "LuaLXZCoreCfg_SetBool env c name a3 obj =
     bindE (lua_ref a3) (\<lambda>ref.
     bindE (SetBool env c name (Some ref) obj) (\<lambda>(c', _, old). Inr (c', PushNumber (of_bool old))))"

text \<open>
  Without a string \<open>SetCString\<close> gets a null pointer, which \<open>cpstr\<close> reads unless the index designates a setting with an
  alias and another name.
\<close>

definition LuaLXZCoreCfg_SetCString ::
  "cfg_env \<Rightarrow> core_cfg \<Rightarrow> byte list \<Rightarrow> int \<Rightarrow> byte list option \<Rightarrow> c_fault + (core_cfg \<times> lua_push)" where
  "LuaLXZCoreCfg_SetCString env c name a3 obj =
     bindE (lua_ref a3) (\<lambda>ref.
       case obj of
         Some s \<Rightarrow> bindE (SetCString env c name (Some ref) s) (\<lambda>(c', _, old). Inr (c', PushString old))
       | None \<Rightarrow>
           bindE (pick_ref c name (Some ref) None) (\<lambda>(r, _).
             if r = - 1 then Inl NullDeref
             else bindE (vv_at (cc_vec c) r) (\<lambda>cf.
               if cv_name cf \<noteq> name \<and> cv_alias cf \<noteq> None \<and> cv_alias cf \<noteq> Some name then Inr (c, PushString [])
               else Inl NullDeref)))"

text \<open>\<open>destroy\<close> deletes the object; its destructor calls \<open>release\<close>, and what stays alive are strings and structures nobody can free.\<close>

definition LuaLXZCoreCfg_destroy :: "core_cfg \<Rightarrow> c_fault + ((u64 \<rightharpoonup> byte list) \<times> nat)" where
  "LuaLXZCoreCfg_destroy c = bindE (release_cfg c) (\<lambda>c'. Inr (cc_strs c', cc_values c'))"

definition LuaLXZCoreCfg_release :: "core_cfg \<Rightarrow> c_fault + core_cfg" where
  "LuaLXZCoreCfg_release c = release_cfg c"

text \<open>The file system says which files can be opened for writing, and what they hold.\<close>

definition LuaLXZCoreCfg_save ::
  "cfg_env \<Rightarrow> (byte list \<Rightarrow> bool) \<Rightarrow> core_cfg \<Rightarrow> byte list \<Rightarrow> c_fault + (core_cfg \<times> byte list option)" where
  "LuaLXZCoreCfg_save env writable c name = save_cfg env c (writable name)"

definition LuaLXZCoreCfg_load ::
  "cfg_env \<Rightarrow> (byte list \<rightharpoonup> byte list) \<Rightarrow> core_cfg \<Rightarrow> byte list \<Rightarrow> c_fault + (core_cfg \<times> lua_push)" where
  "LuaLXZCoreCfg_load env files c name =
     bindE (load_cfg env c (files name)) (\<lambda>(c', b). Inr (c', PushBoolean b))"

section \<open>Scripts and the contract of typed settings\<close>

text \<open>A script that gives no index sees the accessors as the contract \<open>settings\<close> describes them.\<close>

definition int_range :: "int \<Rightarrow> bool" where
  "int_range v \<longleftrightarrow> - 2147483648 \<le> v \<and> v \<le> 2147483647"

lemma int_range_sint: "int_range v \<Longrightarrow> sint (word_of_int v :: u32) = v"
  by (simp only: signed_of_int) (simp add: int_range_def signed_take_bit_int_eq_self)

lemma lua_ref_unset [simp]: "lua_ref (- 1) = Inr (- 1)"
  by (simp add: lua_ref_def number_to_int_def number_to_def)

lemma lua_ref_index: "int j \<le> INT_MAX \<Longrightarrow> lua_ref (int j) = Inr (int j)"
  using int_range_sint [of "int j"] by (simp add: lua_ref_def number_to_int_def number_to_def INT_MAX_def int_range_def)

lemma store_setting_unset:
  "setter (store_setting env c name (Some (- 1)) t init upd) = setter (store_setting env c name None t init upd)"
  unfolding store_setting_def pick_ref_def setter_def add_setting_def
  by (cases "Ref c name None") (auto simp: bindE_def split: sum.splits)

definition lua_set_int :: "cfg_env \<Rightarrow> core_cfg \<Rightarrow> byte list \<Rightarrow> int \<Rightarrow> c_fault + core_cfg" where
  "lua_set_int env c name v = bindE (LuaLXZCoreCfg_SetInt env c name (- 1) v) (\<lambda>(c', _). Inr c')"

lemma lua_set_int_setter:
  assumes "int_range v"
  shows "lua_set_int env c name v = setter (SetInt env c name None (word_of_int v))"
proof -
  have "lua_set_int env c name v = setter (SetInt env c name (Some (- 1)) (word_of_int v))"
    using assms by (auto simp: lua_set_int_def LuaLXZCoreCfg_SetInt_def number_to_int_def number_to_def int_range_def setter_def
        bindE_def split: sum.splits)
  also have "\<dots> = setter (store_setting env c name (Some (- 1)) cfg_i (set_word_i (word_of_int v)) (set_word_i (word_of_int v)))"
    by (auto simp: SetInt_def setter_def bindE_def split: sum.splits)
  also have "\<dots> = setter (SetInt env c name None (word_of_int v))"
    unfolding store_setting_unset by (auto simp: SetInt_def setter_def bindE_def split: sum.splits)
  finally show ?thesis .
qed

lemma lua_set_all:
  "\<forall>(name, v) \<in> set nvs. int_range v \<Longrightarrow>
     set_all (lua_set_int env) c nvs =
     set_all (\<lambda>c name v. setter (SetInt env c name None v)) c (map (\<lambda>(name, v). (name, word_of_int v)) nvs)"
proof (induction nvs arbitrary: c)
  case (Cons nv nvs)
  then show ?case
    by (cases nv) (auto simp: lua_set_int_setter bindE_def split: sum.splits)
qed simp

lemma lua_get_int:
  assumes "cfg_ok env c" "0 \<notin> set name" "view cfg_i word_i c (key name) = Some w"
  shows "LuaLXZCoreCfg_GetInt env c name None (- 1) = Inr (c, PushNumber (sint w))"
  using assms fetch_setting_ok [of c name "Some (- 1)" cfg_i]
  by (auto simp: LuaLXZCoreCfg_GetInt_def GetInt_def unset_ref_def cfg_ok_def cfg_wf_def view_def split: option.splits if_splits)

lemma map_of_words:
  "map_of (rev (map (\<lambda>(name, v). (key name, v)) (map (\<lambda>(name, v). (name, f v)) nvs))) =
   map_option f \<circ> map_of (rev (map (\<lambda>(name, v). (key name, v)) nvs))"
proof -
  have "map (\<lambda>(name, v). (key name, v)) (map (\<lambda>(name, v). (name, f v)) xs) =
      map (\<lambda>(k, v). (k, f v)) (map (\<lambda>(name, v). (key name, v)) xs)" for xs by auto
  then show ?thesis by (simp only: rev_map map_of_map)
qed

section \<open>Properties\<close>

text \<open>
  Whatever integers in the range of \<open>int\<close> a script stores, under names that are new or hold integers, it
  reads back under any spelling of a name the number it last stored there.
\<close>

theorem lua_ints_read_back:
  assumes "cfg_ok env c" "cfg_space env c (length nvs)"
    and "\<forall>(name, v) \<in> set nvs. 0 \<notin> set name \<and> int_range v \<and> usable cfg_i c (key name)" "0 \<notin> set name"
    and "map_of (rev (map (\<lambda>(name, v). (key name, v)) nvs)) (key name) = Some v"
  shows "\<exists>c'. set_all (lua_set_int env) c nvs = Inr c' \<and> LuaLXZCoreCfg_GetInt env c' name None (- 1) = Inr (c', PushNumber v)"
proof -
  let ?ws = "map (\<lambda>(name, v). (name, word_of_int v :: u32)) nvs"
  have rng: "\<forall>(name, v) \<in> set nvs. int_range v" using assms(3) by auto
  have "\<exists>(n, x) \<in> set nvs. x = v" using map_of_SomeD [OF assms(5)] by auto
  then have v: "int_range v" using rng by auto
  have free: "\<forall>(name, v) \<in> set ?ws. 0 \<notin> set name \<and> True \<and> usable cfg_i c (key name)" using assms(3) by auto
  obtain c' where c': "set_all (\<lambda>c name v. setter (SetInt env c name None v)) c ?ws = Inr c'" "cfg_ok env c'"
    "view cfg_i word_i c' = view cfg_i word_i c ++ map_of (rev (map (\<lambda>(name, v). (key name, v)) ?ws))"
    using int_settings.set_all_val [OF assms(1), of ?ws] assms(2) free by auto
  have "view cfg_i word_i c' (key name) = Some (word_of_int v)"
    unfolding c'(3) map_of_words by (rule map_add_find_right) (use assms(5) in simp)
  from lua_get_int [OF c'(2) assms(4) this] c'(1) lua_set_all [OF rng, of env c] int_range_sint [OF v]
  show ?thesis by metis
qed

theorem lua_ints_read_back_witness:
  "\<exists>c'. set_all (lua_set_int demo_env) empty_cfg [([105, 112], 7), ([73, 80], - 5)] = Inr c' \<and>
    LuaLXZCoreCfg_GetInt demo_env c' [105, 112] None (- 1) = Inr (c', PushNumber (- 5))"
  by (rule lua_ints_read_back [OF empty_cfg_ok(1)])
    (simp_all add: empty_cfg_ok int_range_def key_def tolower_def)

text \<open>
  An index of a string setting that a script kept from before \<open>release\<close> still designates the setting: reading it then uses
  the string that \<open>release\<close> freed.
\<close>

theorem stale_index_reads_freed:
  assumes "cfg_wf c" "j < length (settings_of c)" "cv_type (settings_of c ! j) = cfg_cstr" "int j \<le> INT_MAX"
  shows "\<exists>c'. LuaLXZCoreCfg_release c = Inr c' \<and>
    LuaLXZCoreCfg_GetCString env c' name alias (int j) = Inl UseAfterFree"
proof -
  obtain c' where c': "release_cfg c = Inr c'" "cc_strs c' = Map.empty" using release_cfg_ok [OF assms(1)] by blast
  have wf: "vv_wf (cc_vec c)" using assms(1) by (simp add: cfg_wf_def names_ok_def)
  have "cc_vec c' = vv_clear (cc_vec c)" using c'(1) by (auto simp: release_cfg_def bindE_Inr_iff split: if_splits)
  then have "vv_at (cc_vec c') (int j) = vv_at (cc_vec c) (int j)" by (simp add: vv_at_def vv_clear_def)
  moreover have "vv_at (cc_vec c) (int j) = Inr (settings_of c ! j)" using vv.at_elems [OF wf assms(2)] by simp
  ultimately show ?thesis
    using c' assms(3,4) by (auto simp: LuaLXZCoreCfg_release_def LuaLXZCoreCfg_GetCString_def GetCString_def fetch_setting_def
        pick_ref_def lua_ref_index)
qed

theorem stale_index_reads_freed_witness:
  "\<exists>c c' j. setter (SetCString demo_env empty_cfg [105, 112] None [49]) = Inr c \<and> LuaLXZCoreCfg_release c = Inr c' \<and>
    LuaLXZCoreCfg_GetCString demo_env c' [105, 112] None (int j) = Inl UseAfterFree"
proof -
  have "string_ok [49]" by (simp add: string_ok_def SIZE_MOD_def)
  then obtain c where c: "setter (SetCString demo_env empty_cfg [105, 112] None [49]) = Inr c" "cfg_ok demo_env c"
    "cfg_space demo_env c 0" "str_val c = (str_val empty_cfg)(key [105, 112] \<mapsto> [49])"
    using str_settings.set_ok [OF empty_cfg_ok(1,2), of 0 "[105, 112]" "[49]"] empty_cfg_ok(3) by auto
  from c(4) have "str_val c (key [105, 112]) = Some [49]" by simp
  then obtain w where "cfg_abs c (key [105, 112]) = Some (cfg_cstr, w)" by (auto simp: str_val_def split: option.splits if_splits)
  then obtain j where j: "j < length (settings_of c)" "cv_type (settings_of c ! j) = cfg_cstr" using cfg_abs_index by blast
  have "vv_wf (cc_vec c)" using c(2) by (simp add: cfg_ok_def cfg_wf_def names_ok_def)
  with j(1) c(3) have "int j \<le> INT_MAX" by (auto simp: cfg_space_def cfg_room_def vv_wf_def)
  with stale_index_reads_freed [OF _ j, of demo_env "[105, 112]" None] c(1,2) show ?thesis by (auto simp: cfg_ok_def)
qed

end
