(* ===== verification/HttpsServer.thy ===== *)
theory HttpsServer
  imports CLib
begin

text \<open>
  The HTTPS program of \<open>https-server.c\<close>: reading the port from the command line, opening the server, and answering requests.
  libevent and OpenSSL answer through parameters; what is sent and which objects stay allocated is the result.
\<close>

section \<open>Requests\<close>

datatype http_command = HttpGet | HttpPost | HttpOther

record document_request =
  dr_command :: http_command
  dr_uri :: "byte list"
  dr_body :: "byte list"
  dr_peer :: "byte list"

text \<open>
  What libevent does with the request: whether an \<open>evbuffer\<close> can be had, whether a URI parses, the fields of a query, and the
  lookup of a field.
\<close>

record document_env =
  de_buffer :: bool
  de_uri_parse :: "byte list \<Rightarrow> bool"
  de_query :: "byte list \<Rightarrow> (byte list \<times> byte list) list option"
  de_find :: "(byte list \<times> byte list) list \<Rightarrow> byte list \<Rightarrow> byte list option"

datatype document_answer =
    SendReply nat "(byte list \<times> byte list) list" "byte list option"
  | SendError nat

text \<open>The answers, and how many buffers and parsed URIs are still allocated at the end.\<close>

record document_result =
  do_answers :: "document_answer list"
  do_buffers :: nat
  do_uris :: nat

definition COMMON_PASSCODE :: "byte list" where
  "COMMON_PASSCODE = bytes ''R23''"

definition response_text :: "byte list \<Rightarrow> byte list \<Rightarrow> byte list" where
  "response_text peer passcode =
     take 255 (bytes ''Hi '' @ peer @ bytes ''!  I '' @
       (if passcode = COMMON_PASSCODE then bytes ''liked'' else bytes ''didn't like'') @ bytes '' your passcode.'' @ [10])"

text \<open>
  \<open>send_document_cb\<close>.  The payload is the body up to its first zero.  \<open>strcmp\<close> reads the passcode that \<open>evhttp_find_header\<close> found, and
  \<open>evbuffer_add\<close> the buffer that \<open>evbuffer_new\<close> gave, without looking whether there is one.
\<close>

definition send_document_cb :: "document_env \<Rightarrow> document_request \<Rightarrow> c_fault + document_result" where
  "send_document_cb env req =
     (if dr_command req = HttpGet then
        (if \<not> de_buffer env then Inr \<lparr>do_answers = [], do_buffers = 0, do_uris = 0\<rparr>
         else Inr \<lparr>do_answers = [SendReply 200 [] (Some (bytes ''Requested: '' @ dr_uri req @ [10]))], do_buffers = 1, do_uris = 0\<rparr>)
      else if dr_command req \<noteq> HttpPost then Inr \<lparr>do_answers = [SendReply 200 [] None], do_buffers = 0, do_uris = 0\<rparr>
      else if \<not> de_uri_parse env (dr_uri req) then Inr \<lparr>do_answers = [SendError 400], do_buffers = 0, do_uris = 0\<rparr>
      else
        bindE (c_string (dr_body req @ [0])) (\<lambda>payload.
          case de_query env payload of
            None \<Rightarrow> Inr \<lparr>do_answers = [SendError 400], do_buffers = 0, do_uris = 1\<rparr>
          | Some kv \<Rightarrow>
              (case de_find env kv (bytes ''passcode'') of
                 None \<Rightarrow> Inl NullDeref
               | Some passcode \<Rightarrow>
                   if \<not> de_buffer env then Inl NullDeref
                   else Inr \<lparr>do_answers =
                       [SendReply 200 [(bytes ''Content-Type'', bytes ''application/x-yaml'')]
                          (Some (response_text (dr_peer req) passcode))], do_buffers = 0, do_uris = 0\<rparr>)))"

section \<open>The port\<close>

text \<open>\<open>strtol\<close> with base 0: the base follows from the prefix.  The result is the value, cut to \<open>long\<close>, and the text after it.\<close>

definition digit_of :: "char \<Rightarrow> nat option" where
  "digit_of c =
     (let n = of_char c :: nat in
      if 48 \<le> n \<and> n \<le> 57 then Some (n - 48)
      else if 97 \<le> n \<and> n \<le> 122 then Some (n - 87)
      else if 65 \<le> n \<and> n \<le> 90 then Some (n - 55) else None)"

definition digit_in :: "nat \<Rightarrow> char \<Rightarrow> bool" where
  "digit_in base c \<longleftrightarrow> (case digit_of c of None \<Rightarrow> False | Some d \<Rightarrow> d < base)"

definition base_value :: "nat \<Rightarrow> string \<Rightarrow> int" where
  "base_value base ds = foldl (\<lambda>v c. v * int base + int (the (digit_of c))) 0 ds"

definition LONG_MAX :: int where "LONG_MAX = 9223372036854775807"

definition number_sign :: "string \<Rightarrow> bool \<times> string" where
  "number_sign t =
     (case t of c # cs \<Rightarrow> if c = CHR ''-'' then (True, cs) else if c = CHR ''+'' then (False, cs) else (False, t)
      | [] \<Rightarrow> (False, []))"

definition number_base :: "string \<Rightarrow> nat \<times> string" where
  "number_base u =
     (if take 1 u = ''0'' then
        (case drop 1 u of
           x # d # _ \<Rightarrow> if (x = CHR ''x'' \<or> x = CHR ''X'') \<and> digit_in 16 d then (16, drop 2 u) else (8, u)
         | _ \<Rightarrow> (8, u))
      else (10, u))"

definition strtol0 :: "string \<Rightarrow> int \<times> string" where
  "strtol0 s =
     (let (neg, u) = number_sign (skip_space s); (base, body) = number_base u; ds = takeWhile (digit_in base) body;
          v = (if neg then - base_value base ds else base_value base ds)
      in if ds = [] then (0, s)
         else (max (- LONG_MAX - 1) (min v LONG_MAX), dropWhile (digit_in base) body))"

definition COMMON_HTTPS_PORT :: u16 where "COMMON_HTTPS_PORT = 8421"

definition USHRT_MAX :: int where "USHRT_MAX = 65535"

text \<open>The port that \<open>main\<close> chooses, or the message with which it ends.\<close>

definition main_port :: "string option \<Rightarrow> string + u16" where
  "main_port arg =
     (case arg of
        None \<Rightarrow> Inr COMMON_HTTPS_PORT
      | Some s \<Rightarrow>
          (let (lp, end_ptr) = strtol0 s in
           if end_ptr \<noteq> [] then Inl ''Invalid integer''
           else if lp \<le> 0 then Inl ''Port must be positive''
           else if lp \<ge> USHRT_MAX then Inl ''Port must fit 16-bit range''
           else Inr (word_of_int lp)))"

section \<open>Opening the server\<close>

datatype address_family = AF_INET | AF_INET6 | AF_other

text \<open>What the libraries answer: the objects that could be made, the curve, the bound socket, and its name.\<close>

record https_env =
  he_base :: bool
  he_http :: bool
  he_ecdh :: bool
  he_set_ecdh :: bool
  he_bind :: "u16 \<Rightarrow> bool"
  he_sockname :: "(address_family \<times> u16) option"
  he_ntop :: "byte list option"

datatype https_end = Exit nat | Dies string | Serves

text \<open>
  How \<open>serve_some_http\<close> ends: with an exit code, in \<open>die_most_horribly_from_openssl_error\<close>, or in the event loop.  No
  certificate is loaded: the call of \<open>server_setup_certs\<close> is a comment.
\<close>

definition serve_some_http :: "https_env \<Rightarrow> u16 \<Rightarrow> https_end \<times> (byte list \<times> u16) option" where
  "serve_some_http env serverPort =
     (if \<not> he_base env then (Exit 1, None)
      else if \<not> he_http env then (Exit 1, None)
      else if \<not> he_ecdh env then (Dies ''EC_KEY_new_by_curve_name'', None)
      else if \<not> he_set_ecdh env then (Dies ''SSL_CTX_set_tmp_ecdh'', None)
      else if \<not> he_bind env serverPort then (Exit 1, None)
      else
        (case he_sockname env of
           None \<Rightarrow> (Exit 1, None)
         | Some (family, got_port) \<Rightarrow>
             if family = AF_other then (Exit 1, None)
             else (case he_ntop env of None \<Rightarrow> (Exit 1, None) | Some addr \<Rightarrow> (Serves, Some (addr, got_port)))))"

definition https_main :: "https_env \<Rightarrow> string option \<Rightarrow> (string + https_end) \<times> (byte list \<times> u16) option" where
  "https_main env arg =
     (case main_port arg of
        Inl msg \<Rightarrow> (Inl msg, None)
      | Inr port \<Rightarrow> (let (e, listening) = serve_some_http env port in (Inr e, listening)))"

section \<open>Laws\<close>

lemma payload_text: "c_string (body @ [0]) = Inr (takeWhile (\<lambda>c. c \<noteq> 0) body)"
proof (cases "0 \<in> set body")
  case True
  then obtain xs ys where b: "body = xs @ 0 # ys" "0 \<notin> set xs" using split_list_first by metis
  then have "takeWhile (\<lambda>c. c \<noteq> 0) body = xs" by (metis (mono_tags, lifting) takeWhile_append_stop takeWhile_eq_all_conv)
  with b show ?thesis by simp
next
  case False
  then have "takeWhile (\<lambda>c. c \<noteq> 0) body = body" unfolding takeWhile_eq_all_conv by metis
  with False show ?thesis using c_string_ok [of body "[]"] by metis
qed

lemma is_digit_10: "digit_in 10 c \<longleftrightarrow> is_digit c"
  by (auto simp: digit_in_def digit_of_def is_digit_def Let_def split: option.splits)

lemma digit_of_digit: "is_digit c \<Longrightarrow> int (the (digit_of c)) = of_char c - 48"
  by (auto simp: digit_of_def is_digit_def Let_def of_nat_diff of_nat_of_char)

lemma base_value_10: "list_all is_digit ds \<Longrightarrow> foldl (\<lambda>v c. v * int 10 + int (the (digit_of c))) n ds = digits_value n ds"
  by (induction ds arbitrary: n) (auto simp: digit_of_digit)

lemma dec_digits_head: "0 < n \<Longrightarrow> hd (dec_digits n) \<noteq> CHR ''0''"
proof (induction n rule: less_induct)
  case (less n)
  show ?case
  proof (cases "n < 10")
    case True
    then have "n \<in> {1, 2, 3, 4, 5, 6, 7, 8, 9}" using less.prems by auto
    then show ?thesis by (auto simp: dec_digits.simps [of n] char_of_def)
  next
    case False
    then show ?thesis using less.IH [of "n div 10"] dec_digits_value [of "n div 10"] by (subst dec_digits.simps) simp
  qed
qed

lemma strtol0_digits:
  assumes "list_all is_digit (c # cs)" "c \<noteq> CHR ''0''" "digits_value 0 (c # cs) \<le> LONG_MAX" "0 \<le> digits_value 0 (c # cs)"
  shows "strtol0 (c # cs) = (digits_value 0 (c # cs), [])"
proof -
  have c: "skip_space (c # cs) = c # cs" "c \<noteq> CHR ''-''" "c \<noteq> CHR ''+''" using assms(1) by (auto simp: is_digit_def)
  have d: "takeWhile (digit_in 10) (c # cs) = c # cs" "dropWhile (digit_in 10) (c # cs) = []"
    using assms(1) by (auto simp: takeWhile_eq_all_conv dropWhile_eq_Nil_conv is_digit_10 list_all_iff)
  have v: "base_value 10 (c # cs) = digits_value 0 (c # cs)" unfolding base_value_def using base_value_10 [OF assms(1), of 0] .
  have u: "number_sign (c # cs) = (False, c # cs)" "number_base (c # cs) = (10, c # cs)"
    using c assms(2) by (simp_all add: number_sign_def number_base_def)
  show ?thesis unfolding strtol0_def c(1) Let_def u case_prod_conv d v using assms(3,4)
    by (simp add: LONG_MAX_def del: digits_value.simps)
qed

lemma port_cases:
  assumes "0 < n" "n \<le> nat LONG_MAX"
  shows "main_port (Some (dec_digits n)) = (if n < 65535 then Inr (word_of_nat n) else Inl ''Port must fit 16-bit range'')"
proof -
  obtain c cs where d: "dec_digits n = c # cs" using dec_digits_value [of n] by (cases "dec_digits n") auto
  have v: "list_all is_digit (c # cs)" "digits_value 0 (c # cs) = int n" "c \<noteq> CHR ''0''"
    using dec_digits_value [of n] dec_digits_head [OF assms(1)] unfolding d by (simp_all del: digits_value.simps)
  have "strtol0 (dec_digits n) = (int n, [])"
    using strtol0_digits [OF v(1,3)] assms(2) unfolding d v(2) by (simp add: LONG_MAX_def)
  then show ?thesis using assms(1) by (simp add: main_port_def USHRT_MAX_def)
qed

section \<open>Properties\<close>

text \<open>
  Every request that is answered at all is answered once; a POST is answered with an error when its URI or its query is malformed, and otherwise with
  a reply of code 200 whose text follows from the passcode.  The buffer of the answer to a GET stays allocated.
\<close>

theorem document_answered_once:
  assumes "de_buffer env" "send_document_cb env req = Inr r"
  shows "\<exists>a. do_answers r = [a] \<and> do_buffers r = of_bool (dr_command req = HttpGet) \<and>
    (dr_command req = HttpPost \<longrightarrow>
       (if \<not> de_uri_parse env (dr_uri req) then a = SendError 400
        else case de_query env (takeWhile (\<lambda>c. c \<noteq> 0) (dr_body req)) of
            None \<Rightarrow> a = SendError 400
          | Some kv \<Rightarrow> \<exists>p. de_find env kv (bytes ''passcode'') = Some p \<and>
              (\<exists>hs. a = SendReply 200 hs (Some (response_text (dr_peer req) p)))))"
  using assms unfolding send_document_cb_def payload_text bindE_simps
  by (cases "dr_command req") (auto split: if_splits option.splits)

text \<open>
  A POST whose form has no field \<open>passcode\<close> ends the server: the comparison reads a null pointer.
\<close>

theorem missing_passcode_crashes:
  assumes "dr_command req = HttpPost" "de_uri_parse env (dr_uri req)"
    and "de_query env (takeWhile (\<lambda>c. c \<noteq> 0) (dr_body req)) = Some kv" "de_find env kv (bytes ''passcode'') = None"
  shows "send_document_cb env req = Inl NullDeref"
  using assms unfolding send_document_cb_def payload_text by simp

definition first_field :: "(byte list \<times> byte list) list \<Rightarrow> byte list \<Rightarrow> byte list option" where
  "first_field kv name = map_of kv name"

definition demo_documents :: document_env where
  "demo_documents = \<lparr>de_buffer = True, de_uri_parse = (\<lambda>_. True),
     de_query = (\<lambda>q. if q = [] then Some [] else Some [(bytes ''passcode'', q)]), de_find = first_field\<rparr>"

definition demo_post :: "byte list \<Rightarrow> document_request" where
  "demo_post body = \<lparr>dr_command = HttpPost, dr_uri = [47], dr_body = body, dr_peer = [49]\<rparr>"

theorem document_answered_once_witness:
  "\<exists>r a. send_document_cb demo_documents (demo_post (bytes ''R23'')) = Inr r \<and> do_answers r = [a] \<and>
    (\<exists>hs. a = SendReply 200 hs (Some (response_text [49] (bytes ''R23''))))"
proof -
  have q: "takeWhile (\<lambda>c. c \<noteq> 0) (bytes ''R23'') = bytes ''R23''" by code_simp
  obtain r where r: "send_document_cb demo_documents (demo_post (bytes ''R23'')) = Inr r"
    unfolding send_document_cb_def payload_text by (simp add: demo_documents_def demo_post_def q first_field_def bytes_def)
  show ?thesis
    using document_answered_once [OF _ r] r by (simp add: demo_documents_def demo_post_def q first_field_def bytes_def) blast
qed

theorem missing_passcode_crashes_witness:
  "send_document_cb demo_documents (demo_post []) = Inl NullDeref"
  by (rule missing_passcode_crashes [where kv = "[]"]) (simp_all add: demo_documents_def demo_post_def first_field_def)

text \<open>
  The program serves the port whose decimal text, without leading zeros, it is given, for every port from 1 to 65534; the port 65535 is refused,
  although it fits 16 bits, as is every greater number up to the largest \<open>long\<close>.
\<close>

theorem port_from_text:
  assumes "0 < n" "n \<le> nat LONG_MAX"
  shows "fst (https_main env (Some (dec_digits n))) =
    (if n < 65535 then Inr (fst (serve_some_http env (word_of_nat n))) else Inl ''Port must fit 16-bit range'')"
  by (simp add: https_main_def port_cases [OF assms] case_prod_beta)

definition demo_https :: https_env where
  "demo_https = \<lparr>he_base = True, he_http = True, he_ecdh = True, he_set_ecdh = True, he_bind = (\<lambda>_. True),
     he_sockname = Some (AF_INET, 8421), he_ntop = Some (bytes ''0.0.0.0'')\<rparr>"

theorem port_from_text_witness:
  "fst (https_main demo_https (Some ''8421'')) = Inr (fst (serve_some_http demo_https 8421)) \<and>
   fst (https_main demo_https (Some ''65535'')) = Inl ''Port must fit 16-bit range''"
proof -
  have "dec_digits 8421 = ''8421''" "dec_digits 65535 = ''65535''" by (simp_all add: dec_digits.simps char_of_def bit_numeral_rec bit_Suc_0_iff)
  with port_from_text [of 8421 demo_https] port_from_text [of 65535 demo_https] show ?thesis by (simp add: LONG_MAX_def)
qed

end
