(* ===== verification/Spec2Isabelle.thy ===== *)
theory Spec2Isabelle
  imports Strbuf MimeBase64 MimeQp MimeText CjsonUnicode CoreCfgTermination SnapshotProofs HostnameValidation
    LuaMessageRoundtrip MessagePool ScriptApi LuaSocket LuaCoreCfg HttpsServer
begin

text \<open>
  Verification of EventServer, a C and C++ network server scripted in Lua.  The sources are
  under \<open>src/\<close>; every definition that models code is a translation of one function, type or loop body of them.

  \<^bold>\<open>The program.\<close>  \<open>gameserver.cpp\<close> starts one server.  \<open>EventServer.cpp\<close> reads its configuration (\<open>LXZCoreCfg.cpp\<close>), opens its
  ports and runs a libevent loop: it accepts connections, reads bytes into messages (\<open>LXZMessage.cpp\<close>), calls Lua
  handlers and sends messages back, makes HTTP requests and sets timers for coroutines, and frames and unframes
  WebSocket data.  A message is an archive (\<open>IArchive.cpp\<close>) over a memory stream (\<open>IMemFile.cpp\<close>) over a growing buffer
  (\<open>FastBufAlloc.h\<close>).  Long work goes to Lua worker threads (\<open>LuaThread.cpp\<close>, \<open>LuaThreadMgr.cpp\<close>), whose results come back to
  the main thread.  Scripts see messages and configuration through \<open>LuaLXZMessage.cpp\<close> and \<open>LuaLXZCoreCfg.cpp\<close>, and use a JSON
  library (\<open>lua_cjson.c\<close> over \<open>strbuf.c\<close> and \<open>fpconv.c\<close>), the content transfer encodings of \<open>mime.c\<close>, blocking sockets
  (\<open>lua-socket.c\<close>) and a walk over Lua's heap (\<open>snapshot.c\<close>).  \<open>https-server.c\<close> is a second program.

  \<^bold>\<open>The theories\<close>, in the order of their imports.
    \<^item> \<open>Prelude\<close>: bytes, C strings, faults as values (\<open>c_fault\<close>), the error monad (\<open>bindE\<close>, \<open>guardE\<close>), bounded
      memory access, heaps that may refuse an allocation, and the interface \<open>byte_sink\<close> of an
      append-only buffer.  \<open>CLib\<close>: the functions of the C library on text and decimal numbers.
    \<^item> \<open>Strbuf\<close> (\<open>strbuf.c\<close>, \<open>strbuf.h\<close>): the string buffer with its block, its growth policy and every
      operation; it is an instance of \<open>byte_sink\<close>.
    \<^item> \<open>MimeStream\<close>, \<open>MimeBase64\<close>, \<open>MimeQp\<close>, \<open>MimeText\<close> (\<open>mime.c\<close>): the filters as transducers with a
      carried state (locale \<open>transducer\<close>: feeding a text in pieces is feeding it at once), Base64,
      quoted-printable, line wrapping, line-end normalization and dot stuffing, with reference definitions
      of the encodings.
    \<^item> \<open>LuaValue\<close>: the Lua values that the JSON library sees.  \<open>Fpconv\<close> (\<open>fpconv.c\<close>): number text; the
      conversions of the C library (\<open>snprintf\<close>, \<open>strtod\<close>) are the parameter \<open>c_numlib\<close>.
    \<^item> \<open>CjsonConfig\<close>, \<open>CjsonEncode\<close>, \<open>CjsonDecode\<close> (\<open>lua_cjson.c\<close>): the settings, the encoder over the string
      buffer, the tokenizer and the recursive parser.  \<open>CjsonEncodeProofs\<close>, \<open>CjsonDecodeProofs\<close>,
      \<open>CjsonRoundtrip\<close>, \<open>CjsonUnicode\<close> hold their theorems.
    \<^item> \<open>FastBuf\<close>, \<open>MemFile\<close>, \<open>Archive\<close>, \<open>Message\<close>: the message stack.  \<open>MemFile\<close> states the stream interface as the
      locale \<open>serial_stream\<close> and interprets it on the memory stream; \<open>Archive\<close> has every \<open>Serial\<close>
      overload in both modes; \<open>Message\<close> adds the head fields, assignment and WebSocket frames.
    \<^item> \<open>Crc16\<close>, \<open>LuaMessage\<close>, \<open>LuaMessageProofs\<close>, \<open>LuaMessageRoundtrip\<close>, \<open>MessagePool\<close> (\<open>LuaLXZMessage.cpp\<close>): the checksum and the
      byte maps, every function that scripts call on a message, and the pool that messages are taken from.
    \<^item> \<open>Vvector\<close> (\<open>vvector.h\<close>): the growing array, an instance of the locale \<open>sequence\<close>.  \<open>CoreCfg\<close>, \<open>CoreCfgProofs\<close>, \<open>CoreCfgFile\<close>,
      \<open>CoreCfgRoundtrip\<close>, \<open>CoreCfgTermination\<close> (\<open>LXZCoreCfg.cpp\<close>): the typed settings, read as a map from lower-case names; the locale
      \<open>settings\<close> is the contract of one type of setting and is interpreted for all six; the text files.
      \<open>LuaCoreCfg\<close> (\<open>LuaLXZCoreCfg.cpp\<close>): what scripts call on it.
    \<^item> \<open>LuaThreads\<close>: the worker threads as an interleaving step relation, one step per critical
      section; the locks of \<open>LXZLock.h\<close> delimit the steps, its semaphore is a counter.
    \<^item> \<open>EventTools\<close>, \<open>Connections\<close>, \<open>HttpClient\<close>, \<open>ServerSetup\<close>, \<open>ScriptApi\<close> (\<open>EventServer.cpp\<close>, \<open>gameserver.cpp\<close>): the Lua helper
      functions, the callbacks of a connection, the HTTP client, the life of the server and its outgoing connections, and
      the functions that scripts call on servers, connections, requests, timers and threads.
    \<^item> \<open>Snapshot\<close>, \<open>SnapshotProofs\<close> (\<open>snapshot.c\<close>), \<open>HostnameValidation\<close> (\<open>openssl_hostname_validation.c\<close>), \<open>LuaSocket\<close>
      (\<open>lua-socket.c\<close>), \<open>HttpsServer\<close> (\<open>https-server.c\<close>).
    \<^item> This theory: a message on its way from one script to another, over the binding, the connection and the
      read callback.

  \<^bold>\<open>Modelling.\<close>  Machine integers are words of their width, or integers with the wrap-around written out
  where C converts (\<open>ret_int\<close>, \<open>size_of_int\<close>).  A C function gives \<open>Inr\<close> its result or \<open>Inl\<close> a fault: an access out of
  bounds, a null pointer, signed overflow, a shift beyond the width, use of freed memory, \<open>die\<close>, or a Lua
  error.  Memory is a list of cells per block; what C leaves unset is an argument or comes from the heap
  parameter.  Objects whose sharing matters (strings of settings, pooled messages) live in a store under their address.
  Lua, libevent, OpenSSL, the operating system and the C library's number conversions are not part of the sources:
  what they answer is an argument of the definitions, and what a theorem needs of them is a named
  hypothesis (\<open>drains\<close>, \<open>ev_fine\<close>, \<open>url_fine\<close>, \<open>env_ok\<close>, \<open>granted\<close>, the laws on \<open>c_numlib\<close>).  A function of the Lua bindings takes the
  values that \<open>tolua++\<close> converts for it and gives the value it pushes (\<open>lua_push\<close>).

  \<^bold>\<open>What is shown.\<close>
    \<^item> JSON: the decoder inverts the encoder; the encoder produces the reference text; the decoder reads no byte
      outside its input and ends in a value or a Lua error on every input; Unicode escapes give
      UTF-8; settings stay within their ranges.
    \<^item> String buffer, stream, archive: appending keeps the invariant and appends exactly the bytes; what is
      written is read back; nested messages survive.
    \<^item> Encodings: decoding inverts encoding for Base64 and quoted-printable; soft line breaks keep lines
      short and vanish on decoding; line filters meet their specifications; chunking does not matter.
    \<^item> Messages and scripts: a frame made for a payload is read back, a masked frame is unmasked; what a script writes with the
      functions of the binding it reads back (64-bit integers, pointers, raw bytes and long C strings apart), and so does the script of another server
      after the bytes have arrived in any pieces; the checksum is the bitwise CRC-16; the byte maps are inverse; a message of the pool has one owner.
    \<^item> Configuration: what is set is read back under every spelling of the name; a saved store is loaded again; loading
      ends on every file; release frees every string and every name once, and no structure.
    \<^item> Threads: every task has exactly one owner in every reachable state; no wake-up is lost; the limit of a queue holds;
      the threads can always run to a state without tasks, and then every waiting coroutine has got the result of its task once.
    \<^item> Server, connections and HTTP: the server opens what its configuration says; reading appends all waiting bytes
      and ends; a redirected request frees every object and resumes its coroutine exactly once; timers and their references
      balance; a host name is accepted only if the certificate names it; connecting leaks no socket.
    \<^item> Snapshot: the result has exactly the reachable objects, each with its referrers, or the walk ends with the error of a full Lua
      stack, which a heap with room on its stacks excludes.
    \<^item> Defects: for each, a theorem says what the code does on the inputs that show it.

  \<^bold>\<open>Termination and bounds.\<close>  Loops over data are structural.  The parser of \<open>CjsonDecode\<close> recurses with
  fuel, and the safety theorem shows that the fuel the top-level function passes is enough.  The walk of \<open>Snapshot\<close> has
  the recursion depth as fuel; a depth above the number of live objects is shown to be enough.  Its Lua stacks have their limit of 8000
  slots; the C stack of the recursion has none in the model.  The read
  loop of a connection is a \<open>partial_function\<close>; that it returns is part of the theorem.  Loops over answers of the system (\<open>recv_loop\<close>,
  \<open>send_loop\<close>) recurse over the list of answers and give \<open>None\<close> when it ends first.  Allocation sizes are
  bounded by hypotheses such as \<open>sb_room\<close>, \<open>mf_room\<close> and \<open>cfg_space\<close>, which say that the heap grants the blocks and that
  no size computation wraps.

  \<^bold>\<open>Not modelled.\<close>  The registration of functions with Lua and \<open>tolua++\<close>; functions that only hand a value of a library to Lua
  (process id, remote host, URI); Windows branches, the crash dumper and its message boxes; \<open>lfs.c\<close> (LuaFileSystem) and \<open>dtoa.c\<close>, which are
  vendored; the headers of Lua, libevent, OpenSSL and gperftools; \<open>src/Lib\<close>, which holds older copies of the same files.
\<close>

section \<open>From script to script\<close>

text \<open>The network delivers the bytes in pieces; each arrival is one call of the read callback, which sees what is still waiting and the new piece.\<close>

fun receive_all :: "c_heap \<Rightarrow> lxz_message \<Rightarrow> byte list \<Rightarrow> byte list list \<Rightarrow> (c_fault + lxz_message) option" where
  "receive_all h m left_over [] = Some (Inr m)"
| "receive_all h m left_over (seg # segs) =
     (case read_cb take_input h (left_over @ seg) m of
        None \<Rightarrow> None
      | Some (Inl e) \<Rightarrow> Some (Inl e)
      | Some (Inr (m', left_over', _)) \<Rightarrow> receive_all h m' left_over' segs)"

lemma receive_all_ok:
  "ar_ok mode m \<Longrightarrow> mf_room h (ar_stream m) (length (concat segs)) \<Longrightarrow> length (ar_content m) + length (concat segs) < 2147483648 \<Longrightarrow>
     \<exists>m'. receive_all h m [] segs = Some (Inr m') \<and> ar_ok mode m' \<and> ar_content m' = ar_content m @ concat segs \<and>
       ar_pos m' = ar_pos m \<and> ar_swaps m' = ar_swaps m"
proof (induction segs arbitrary: m)
  case (Cons seg segs)
  have m: "ar_bound m" "mf_wf (ar_stream m)" "ar_mode m = mode" using Cons.prems(1) unfolding ar_ok_def by blast+
  have size: "length (ar_content m) + length seg < 2147483648" using Cons.prems(3) by simp
  have room: "mf_room h (ar_stream m) (length seg + length (concat segs))" using Cons.prems(2) by simp
  obtain m1 called where m1: "read_cb take_input h seg m = Some (Inr (m1, [], called))" "ar_content m1 = ar_content m @ seg"
    "ar_pos m1 = ar_pos m" "ar_ok mode m1" "ar_swaps m1 = ar_swaps m" "mf_room h (ar_stream m1) (length (concat segs))"
    using read_cb_ok [OF take_input_drains m(1,2) room size] unfolding m(3) by blast
  with Cons.IH [OF m1(4,6)] Cons.prems(3) show ?case by auto
qed simp

lemma accepted_message:
  assumes "0 \<le> fd" "\<forall>k. can_alloc h k" "n < 2147483648"
  shows "\<exists>conn p. accept_cb fd True msg_id this ref bev_ref = Accepted conn \<and> bev_cbarg conn = Some p \<and> ar_ok SM_WRITE p \<and>
    ar_content p = [] \<and> ar_pos p = 0 \<and> ar_swaps p = swap_none \<and> mf_room h (ar_stream p) n"
proof -
  let ?m = "msg_setMode (fst (message_new msg_id)) SM_WRITE"
  let ?p = "setEvent (SetLuaRef (setAppData ?m this) ref) bev_ref"
  have "mf_room h mf_new n" using assms(2,3) by (simp add: mf_room_def mf_new_def fb_new_def CACHE_def SIZE_MOD_def)
  then have m: "ar_ok SM_WRITE ?m" "ar_content ?m = []" "ar_pos ?m = 0" "mf_room h (ar_stream ?m) n"
    "ar_swaps ?m = ar_swaps (fst (message_new msg_id))"
    using msg_setMode_ok [of "fst (message_new msg_id)" SM_WRITE h n] mf_new_wf by (simp_all add: message_new_stream)
  moreover have "ar_swaps (fst (message_new msg_id)) = swap_none"
    by (simp add: message_new_def archive.defs lxz_message.defs ar_new_def)
  moreover have "ar_stream ?p = ar_stream ?m" "ar_ok SM_WRITE ?p = ar_ok SM_WRITE ?m" "ar_swaps ?p = ar_swaps ?m"
    by (simp_all add: setEvent_def SetLuaRef_def setAppData_def ar_ok_def del: ar_ok_modes)
  ultimately show ?thesis using assms(1) by (simp add: accept_cb_def Let_def)
qed

text \<open>
  C1: What a script writes into an empty message and sends over a connection is what the script of the accepting server reads: in
  whatever pieces the bytes arrive, the read callbacks collect them all, and reading in the order of writing gives
  every value.  The values are truth values, integers of 8, 16 and 32 bits in the range of their type (a \<open>uint32\<close> below \<open>2 ^ 31\<close>), floats,
  strings without zero bytes (below 255 bytes where the reader has a fixed array, \<open>Serial_cstring\<close>), and strings of any bytes with a
  length field that holds their length, or of a fixed length above 2; the 64-bit integers, pointers and raw bytes of the binding are not
  among them.  The message has fewer than \<open>2 ^ 31\<close> bytes and room for them at its end, and the receiver gets all the memory it asks for.
\<close>

theorem message_delivered:
  assumes m: "at_end h m (length (calls_bytes cs))" "ar_content m = []" and cs: "list_all call_fits cs"
    and size: "length (calls_bytes cs) < 2147483648" and peer: "0 \<le> fd" "\<forall>k. can_alloc h' k"
    and segs: "concat segs = calls_bytes cs"
  shows "(\<exists>m1 b' m2. lua_writes h m cs = Inr m1 \<and> lua_Send2Client (Some b) (Some m1) = Inr (Some b', Some m2) \<and>
      bev_output b' = bev_output b @ concat segs \<and> ar_content m2 = []) \<and>
    (\<exists>conn p r1 r2 r3. accept_cb fd True msg_id this ref bev_ref = Accepted conn \<and> bev_cbarg conn = Some p \<and>
      receive_all h' p [] segs = Some (Inr r1) \<and> LuaMessage_setMode r1 1 = Inr r2 \<and> lua_reads h' r2 cs = Inr (r3, map call_value cs))"
proof -
  obtain m1 where m1: "lua_writes h m cs = Inr m1" "puts h m (calls_bytes cs) m1" using script_writes [OF m(1) cs] by blast
  have c1: "mf_wf (ar_stream m1)" "ar_content m1 = calls_bytes cs" using m1(2) m(2) by (auto simp: puts_def ar_ok_def simp del: ar_ok_modes)
  obtain m2 where "Send2Client (Some b) (Some m1) = Inr (Some (b\<lparr>bev_output := bev_output b @ calls_bytes cs\<rparr>), Some m2)" "ar_content m2 = []"
    using Send2Client_ok [OF c1(1), of b] size c1(2) by auto
  moreover obtain conn p where p: "accept_cb fd True msg_id this ref bev_ref = Accepted conn" "bev_cbarg conn = Some p" "ar_ok SM_WRITE p"
    "ar_content p = []" "ar_swaps p = swap_none" "mf_room h' (ar_stream p) (length (concat segs))"
    using accepted_message [OF peer, of "length (concat segs)"] size segs by metis
  moreover obtain r1 where r1: "receive_all h' p [] segs = Some (Inr r1)" "ar_ok SM_WRITE r1" "ar_content r1 = calls_bytes cs" "ar_swaps r1 = swap_none"
    using receive_all_ok [OF p(3,6)] p(4,5) size segs by auto
  have "mf_wf (ar_stream r1)" using r1(2) by (simp add: ar_ok_def del: ar_ok_modes)
  then have "ahead (msg_setMode r1 SM_READ) (calls_bytes cs) []"
    using msg_setMode_ok [of r1 SM_READ] r1(3,4) by (simp add: ahead_def)
  then obtain r3 where "lua_reads h' (msg_setMode r1 SM_READ) cs = Inr (r3, map call_value cs)" using script_reads [OF _ cs peer(2)] by blast
  moreover have "LuaMessage_setMode r1 1 = Inr (msg_setMode r1 SM_READ)"
    by (simp add: LuaMessage_setMode_def number_to_int_def number_to_def)
  ultimately show ?thesis using m1(1) r1(1) segs by (simp add: lua_Send2Client_def)
qed

theorem message_delivered_witness:
  "(\<exists>m1 b' m2. lua_writes open_heap message_new_writing sample_calls = Inr m1 \<and>
      lua_Send2Client (Some \<lparr>bev_output = [], bev_cbarg = None\<rparr>) (Some m1) = Inr (Some b', Some m2) \<and>
      bev_output b' = calls_bytes sample_calls) \<and>
   (\<exists>conn p r1 r2 r3. accept_cb 5 True 1 0 2 3 = Accepted conn \<and> bev_cbarg conn = Some p \<and>
      receive_all open_heap p [] [take 3 (calls_bytes sample_calls), drop 3 (calls_bytes sample_calls)] = Some (Inr r1) \<and>
      LuaMessage_setMode r1 1 = Inr r2 \<and> lua_reads open_heap r2 sample_calls = Inr (r3, [PushNumber (- 7), PushNumber 513,
        PushBoolean True, PushString [104, 105], PushString [0, 255], PushString [65]]))"
proof -
  let ?segs = "[take 3 (calls_bytes sample_calls), drop 3 (calls_bytes sample_calls)]"
  have len: "length (calls_bytes sample_calls) < 1000000" by (simp add: sample_calls_def)
  have cs: "list_all call_fits sample_calls" by (simp add: sample_calls_def)
  have c: "concat ?segs = calls_bytes sample_calls" by simp
  have v: "map call_value sample_calls = [PushNumber (- 7), PushNumber 513, PushBoolean True, PushString [104, 105],
      PushString [0, 255], PushString [65]]" by (simp add: sample_calls_def)
  have s: "length (calls_bytes sample_calls) < 2147483648" using len by simp
  have a: "(0 :: int) \<le> 5" "\<forall>k. can_alloc open_heap k" by simp_all
  from message_delivered [OF message_new_writing_ok(1) [OF len] message_new_writing_ok(2) cs s a c,
      of "\<lparr>bev_output = [], bev_cbarg = None\<rparr>" 1 0 2 3]
  show ?thesis unfolding v c by (elim conjE) (intro conjI; force)
qed

end
